(* ===== verification/Forge_Prelude.thy ===== *)
theory Forge_Prelude
  imports Complex_Main "HOL-Library.Multiset" "HOL-Library.Word" "HOL-Library.Sublist"
begin

text \<open>
  Shared vocabulary of the development. The theory fixes how values of the Go
  language appear in the models and collects the generic facts the component theories use:

  \<^item> instants of \<^verbatim>\<open>time.Time\<close> are nanoseconds since the zero instant, durations are
    nanoseconds, and every reading of \<^verbatim>\<open>time.Now\<close> is an argument of the modelled function;
  \<^item> Go maps are partial functions; where the code ranges over a map, the order in which the
    runtime yields the keys is an argument;
  \<^item> \<^verbatim>\<open>sort.Slice\<close> is not stable, so it is an argument restricted by its documented contract
    (the locale \<open>slice_sort\<close>), while \<^verbatim>\<open>sort.SliceStable\<close> has one result only and is
    defined;
  \<^item> a fallible operation returns a sum, the error on the left.
\<close>

section \<open>Named collections\<close>

named_theorems go_defs
  \<open>definitions the component proofs unfold together\<close>

named_theorems keeps_inv
  \<open>operations that keep the invariant of their component\<close>

section \<open>Time\<close>

type_synonym gotime = int
type_synonym duration = int

text \<open>The zero instant is \<open>0\<close>.\<close>

definition time_after :: "gotime \<Rightarrow> gotime \<Rightarrow> bool" where
  "time_after t u \<longleftrightarrow> u < t"

definition time_before :: "gotime \<Rightarrow> gotime \<Rightarrow> bool" where
  "time_before t u \<longleftrightarrow> t < u"

definition time_is_zero :: "gotime \<Rightarrow> bool" where
  "time_is_zero t \<longleftrightarrow> t = 0"

text \<open>\<^verbatim>\<open>time.Time.Sub\<close> saturates at the bounds of the 64-bit duration.\<close>

definition time_sub :: "gotime \<Rightarrow> gotime \<Rightarrow> duration" where
  "time_sub t u = max (- (2 ^ 63)) (min (2 ^ 63 - 1) (t - u))"

abbreviation (input) millisecond :: duration where
  "millisecond \<equiv> 1000000"

abbreviation (input) second :: duration where
  "second \<equiv> 1000000000"

abbreviation (input) minute :: duration where
  "minute \<equiv> 60000000000"

abbreviation (input) hour :: duration where
  "hour \<equiv> 3600000000000"

declare time_after_def [go_defs] time_before_def [go_defs] time_is_zero_def [go_defs]

section \<open>Machine integers\<close>

text \<open>Go's \<^verbatim>\<open>int\<close> and \<^verbatim>\<open>int64\<close> are modelled as integers; the predicate is the range
  they hold, assumed where a result depends on it. Unsigned counters are 64-bit words.\<close>

definition in_int64 :: "int \<Rightarrow> bool" where
  "in_int64 n \<longleftrightarrow> - (2 ^ 63) \<le> n \<and> n < 2 ^ 63"

lemma in_int64_abs: "in_int64 n \<Longrightarrow> \<bar>n\<bar> \<le> 2 ^ 63"
  by (auto simp: in_int64_def)

type_synonym uint64 = "64 word"

text \<open>Go's \<^verbatim>\<open>%\<close>: the remainder has the sign of the dividend. A zero divisor panics; the
  callers guard against it.\<close>

definition go_rem :: "int \<Rightarrow> int \<Rightarrow> int" where
  "go_rem a b = sgn a * (\<bar>a\<bar> mod \<bar>b\<bar>)"

lemma go_rem_pos [simp]: "0 \<le> a \<Longrightarrow> 0 < b \<Longrightarrow> go_rem a b = a mod b"
  by (cases "a = 0") (simp_all add: go_rem_def)

lemma go_rem_nonneg: "0 \<le> a \<Longrightarrow> b \<noteq> 0 \<Longrightarrow> 0 \<le> go_rem a b"
  by (cases "a = 0") (simp_all add: go_rem_def)

section \<open>Results\<close>

text \<open>Sequencing of fallible operations, the early return on \<^verbatim>\<open>err != nil\<close>.\<close>

definition and_then :: "'e + 'a \<Rightarrow> ('a \<Rightarrow> 'e + 'b) \<Rightarrow> 'e + 'b" where
  "and_then r f = (case r of Inl e \<Rightarrow> Inl e | Inr a \<Rightarrow> f a)"

lemma and_then_Inl [simp]: "and_then (Inl e) f = Inl e"
  by (simp add: and_then_def)

lemma and_then_Inr [simp]: "and_then (Inr a) f = f a"
  by (simp add: and_then_def)

lemma and_then_eq_Inr:
  "and_then r f = Inr b \<longleftrightarrow> (\<exists>a. r = Inr a \<and> f a = Inr b)"
  by (cases r) auto

lemma and_then_eq_Inl:
  "and_then r f = Inl e \<longleftrightarrow> r = Inl e \<or> (\<exists>a. r = Inr a \<and> f a = Inl e)"
  by (cases r) auto

definition guard :: "bool \<Rightarrow> 'e \<Rightarrow> 'e + unit" where
  "guard b e = (if b then Inr () else Inl e)"

lemma guard_eq_Inr [simp]: "guard b e = Inr u \<longleftrightarrow> b"
  by (simp add: guard_def)

lemma guard_eq_Inl [simp]: "guard b e = Inl e' \<longleftrightarrow> \<not> b \<and> e' = e"
  by (auto simp: guard_def)

section \<open>Lists\<close>

text \<open>Removal of the first element that satisfies a predicate, the
  \<^verbatim>\<open>append(xs[:i], xs[i+1:]...)\<close> idiom followed by \<^verbatim>\<open>break\<close> or \<^verbatim>\<open>return\<close>.\<close>

fun remove_first :: "('a \<Rightarrow> bool) \<Rightarrow> 'a list \<Rightarrow> 'a list" where
  "remove_first p [] = []"
| "remove_first p (x # xs) = (if p x then xs else x # remove_first p xs)"

lemma remove_first_none [simp]: "\<not> (\<exists>x \<in> set xs. p x) \<Longrightarrow> remove_first p xs = xs"
  by (induction xs) auto

lemma set_remove_first_subset: "set (remove_first p xs) \<subseteq> set xs"
  by (induction xs) auto

lemma remove_first_split:
  assumes "\<exists>x \<in> set xs. p x"
  shows "\<exists>ys x zs. xs = ys @ x # zs \<and> p x \<and> (\<forall>y \<in> set ys. \<not> p y) \<and> remove_first p xs = ys @ zs"
  using assms
proof (induction xs)
  case Nil
  then show ?case by simp
next
  case (Cons a xs)
  show ?case
  proof (cases "p a")
    case True
    then have "a # xs = [] @ a # xs \<and> p a \<and> (\<forall>y \<in> set []. \<not> p y) \<and> remove_first p (a # xs) = [] @ xs"
      by simp
    then show ?thesis by blast
  next
    case False
    with Cons obtain ys x zs where "xs = ys @ x # zs" "p x" "\<forall>y \<in> set ys. \<not> p y"
      "remove_first p xs = ys @ zs"
      by auto
    with False have "a # xs = (a # ys) @ x # zs \<and> p x \<and> (\<forall>y \<in> set (a # ys). \<not> p y)
        \<and> remove_first p (a # xs) = (a # ys) @ zs"
      by simp
    then show ?thesis by blast
  qed
qed

lemma remove_first_eq_filter:
  "distinct xs \<Longrightarrow> remove_first (\<lambda>y. y = x) xs = filter (\<lambda>y. y \<noteq> x) xs"
  by (induction xs) (auto intro: filter_True [symmetric])

lemma set_remove_first_distinct:
  "distinct xs \<Longrightarrow> set (remove_first (\<lambda>y. y = x) xs) = set xs - {x}"
  by (auto simp: remove_first_eq_filter)

lemma distinct_remove_first [intro]: "distinct xs \<Longrightarrow> distinct (remove_first p xs)"
  by (induction xs) (auto dest: subsetD [OF set_remove_first_subset])

lemma distinct_map_remove_first [intro]:
  "distinct (map f xs) \<Longrightarrow> distinct (map f (remove_first p xs))"
  by (induction xs) (auto dest: subsetD [OF set_remove_first_subset])

lemma distinct_subseq: "subseq xs ys \<Longrightarrow> distinct ys \<Longrightarrow> distinct xs"
  by (induction rule: list_emb.induct) (auto dest: list_emb_set)

lemma mset_rotate [simp]: "mset (rotate n xs) = mset xs"
proof -
  have "mset (rotate1 ys) = mset ys" for ys :: "'a list" by (cases ys) auto
  then show ?thesis by (induction n) simp_all
qed

text \<open>Update of the first element that satisfies a predicate, a \<^verbatim>\<open>for i := range xs\<close> loop
  that assigns to \<^verbatim>\<open>xs[i]\<close> and returns.\<close>

fun update_first :: "('a \<Rightarrow> bool) \<Rightarrow> ('a \<Rightarrow> 'a) \<Rightarrow> 'a list \<Rightarrow> 'a list" where
  "update_first p f [] = []"
| "update_first p f (x # xs) = (if p x then f x # xs else x # update_first p f xs)"

lemma length_update_first [simp]: "length (update_first p f xs) = length xs"
  by (induction xs) auto

lemma map_update_first:
  "(\<And>x. g (f x) = g x) \<Longrightarrow> map g (update_first p f xs) = map g xs"
  by (induction xs) auto

text \<open>The first element of greatest key: the loop \<^verbatim>\<open>if r.Score > best.Score { best = r }\<close>,
  with \<open>gt\<close> the strict comparison of the source.\<close>

fun pick_best :: "('a \<Rightarrow> 'a \<Rightarrow> bool) \<Rightarrow> 'a \<Rightarrow> 'a list \<Rightarrow> 'a" where
  "pick_best gt best [] = best"
| "pick_best gt best (r # rs) = pick_best gt (if gt r best then r else best) rs"

lemma pick_best_mem: "pick_best gt b rs \<in> insert b (set rs)"
  by (induction rs arbitrary: b) (auto split: if_splits)

text \<open>A strict weak ordering on a set of values: what \<^verbatim>\<open>sort\<close> asks of its
  \<^verbatim>\<open>less\<close> argument, and what makes the first greatest element well defined.\<close>

definition strict_weak_on :: "'a set \<Rightarrow> ('a \<Rightarrow> 'a \<Rightarrow> bool) \<Rightarrow> bool" where
  "strict_weak_on A lt \<longleftrightarrow>
     (\<forall>x \<in> A. \<forall>y \<in> A. lt x y \<longrightarrow> \<not> lt y x) \<and>
     (\<forall>x \<in> A. \<forall>y \<in> A. \<forall>z \<in> A. lt x y \<longrightarrow> lt x z \<or> lt z y)"

lemma strict_weak_onI:
  assumes "\<And>x y. x \<in> A \<Longrightarrow> y \<in> A \<Longrightarrow> lt x y \<Longrightarrow> \<not> lt y x"
    and "\<And>x y z. x \<in> A \<Longrightarrow> y \<in> A \<Longrightarrow> z \<in> A \<Longrightarrow> lt x y \<Longrightarrow> \<not> lt x z \<Longrightarrow> lt z y"
  shows "strict_weak_on A lt"
  using assms unfolding strict_weak_on_def by blast

lemma strict_weak_asym:
  "strict_weak_on A lt \<Longrightarrow> lt x y \<Longrightarrow> x \<in> A \<Longrightarrow> y \<in> A \<Longrightarrow> \<not> lt y x"
  by (simp add: strict_weak_on_def)

lemma strict_weak_neg_trans:
  "strict_weak_on A lt \<Longrightarrow> \<not> lt x z \<Longrightarrow> \<not> lt z y \<Longrightarrow> x \<in> A \<Longrightarrow> y \<in> A \<Longrightarrow> z \<in> A \<Longrightarrow> \<not> lt x y"
  unfolding strict_weak_on_def by blast

lemma strict_weak_irrefl: "strict_weak_on A lt \<Longrightarrow> x \<in> A \<Longrightarrow> \<not> lt x x"
  unfolding strict_weak_on_def by blast

lemma strict_weak_subset: "strict_weak_on A lt \<Longrightarrow> B \<subseteq> A \<Longrightarrow> strict_weak_on B lt"
  unfolding strict_weak_on_def by blast

lemma strict_weak_linorder [simp]:
  "strict_weak_on A (\<lambda>x y. (f x :: 'b::linorder) < f y)"
  "strict_weak_on A (\<lambda>x y. (f y :: 'b::linorder) < f x)"
  unfolding strict_weak_on_def by auto

lemma pick_best_max:
  assumes sw: "strict_weak_on (insert b (set rs)) (\<lambda>x y. gt y x)"
    and r: "r \<in> insert b (set rs)"
  shows "\<not> gt r (pick_best gt b rs)"
  using assms
proof (induction rs arbitrary: b r)
  case Nil
  then show ?case using strict_weak_irrefl by fastforce
next
  case (Cons a rs)
  let ?m = "if gt a b then a else b" and ?A = "insert b (set (a # rs))"
  have sub: "insert ?m (set rs) \<subseteq> ?A" by auto
  have IH: "\<not> gt x (pick_best gt ?m rs)" if "x \<in> insert ?m (set rs)" for x
    using strict_weak_subset [OF Cons.prems(1) sub] that by (rule Cons.IH)
  have m: "\<not> gt r ?m \<or> r \<in> insert ?m (set rs)"
    using Cons.prems strict_weak_asym [OF Cons.prems(1), of b a] by auto
  have P: "pick_best gt ?m rs \<in> ?A" using pick_best_mem [of gt ?m rs] sub by blast
  have "\<not> gt r (pick_best gt ?m rs)"
  proof (cases "r \<in> insert ?m (set rs)")
    case True
    then show ?thesis by (rule IH)
  next
    case False
    with m have "\<not> gt r ?m" by blast
    moreover have "\<not> gt ?m (pick_best gt ?m rs)" by (rule IH) simp
    ultimately show ?thesis
      using strict_weak_neg_trans [OF Cons.prems(1) _ _ P Cons.prems(2), of ?m] by auto
  qed
  then show ?case by simp
qed

section \<open>Sorting\<close>

text \<open>\<^verbatim>\<open>sort.SliceStable\<close>: a stable sort has exactly one result, so insertion sort
  computes it whatever algorithm the library uses.\<close>

fun stable_insert :: "('a \<Rightarrow> 'a \<Rightarrow> bool) \<Rightarrow> 'a \<Rightarrow> 'a list \<Rightarrow> 'a list" where
  "stable_insert lt x [] = [x]"
| "stable_insert lt x (y # ys) = (if lt y x then y # stable_insert lt x ys else x # y # ys)"

fun slice_stable :: "('a \<Rightarrow> 'a \<Rightarrow> bool) \<Rightarrow> 'a list \<Rightarrow> 'a list" where
  "slice_stable lt [] = []"
| "slice_stable lt (x # xs) = stable_insert lt x (slice_stable lt xs)"

lemma mset_stable_insert [simp]: "mset (stable_insert lt x xs) = add_mset x (mset xs)"
  by (induction xs) auto

lemma mset_slice_stable [simp]: "mset (slice_stable lt xs) = mset xs"
  by (induction xs) auto

lemma set_slice_stable [simp]: "set (slice_stable lt xs) = set xs"
  by (metis mset_slice_stable set_mset_mset)

lemma length_slice_stable [simp]: "length (slice_stable lt xs) = length xs"
  by (metis mset_slice_stable size_mset)

definition sorted_less :: "('a \<Rightarrow> 'a \<Rightarrow> bool) \<Rightarrow> 'a list \<Rightarrow> bool" where
  "sorted_less lt xs \<longleftrightarrow> sorted_wrt (\<lambda>x y. \<not> lt y x) xs"

lemma sorted_less_Cons:
  "sorted_less lt (x # xs) \<longleftrightarrow> (\<forall>y \<in> set xs. \<not> lt y x) \<and> sorted_less lt xs"
  by (simp add: sorted_less_def)

lemma set_stable_insert [simp]: "set (stable_insert lt x xs) = insert x (set xs)"
  by (metis mset_stable_insert set_mset_add_mset_insert set_mset_mset)

lemma sorted_stable_insert:
  assumes "strict_weak_on (insert x (set xs)) lt" and "sorted_less lt xs"
  shows "sorted_less lt (stable_insert lt x xs)"
  using assms
proof (induction xs)
  case Nil
  then show ?case by (simp add: sorted_less_def)
next
  case (Cons y ys)
  note sw = Cons.prems(1)
  have IH: "sorted_less lt (stable_insert lt x ys)"
    using Cons strict_weak_subset [OF sw, of "insert x (set ys)"] by (auto simp: sorted_less_Cons)
  have "\<not> lt z x" if "\<not> lt y x" "z \<in> set ys" for z
    using that Cons.prems(2) strict_weak_neg_trans [OF sw, of z y x] by (auto simp: sorted_less_Cons)
  moreover have "\<not> lt x y" if "lt y x"
    using that strict_weak_asym [OF sw, of y x] by auto
  ultimately show ?case using Cons.prems(2) IH by (auto simp: sorted_less_Cons)
qed

lemma sorted_slice_stable: "strict_weak_on (set xs) lt \<Longrightarrow> sorted_less lt (slice_stable lt xs)"
proof (induction xs)
  case Nil
  then show ?case by (simp add: sorted_less_def)
next
  case (Cons x xs)
  then show ?case
    by (auto intro!: sorted_stable_insert dest: strict_weak_subset [of _ _ "set xs"])
qed

text \<open>The contract of \<^verbatim>\<open>sort.Slice\<close>: a sorted rearrangement, with no promise on the
  order of equal elements.\<close>

definition sorts :: "(('a \<Rightarrow> 'a \<Rightarrow> bool) \<Rightarrow> 'a list \<Rightarrow> 'a list) \<Rightarrow> bool" where
  "sorts srt \<longleftrightarrow> (\<forall>lt xs. strict_weak_on (set xs) lt \<longrightarrow>
     mset (srt lt xs) = mset xs \<and> sorted_less lt (srt lt xs))"

locale slice_sort =
  fixes srt :: "('a \<Rightarrow> 'a \<Rightarrow> bool) \<Rightarrow> 'a list \<Rightarrow> 'a list"
  assumes srt_mset: "strict_weak_on (set xs) lt \<Longrightarrow> mset (srt lt xs) = mset xs"
    and srt_sorted: "strict_weak_on (set xs) lt \<Longrightarrow> sorted_less lt (srt lt xs)"
begin

lemma srt_set: "strict_weak_on (set xs) lt \<Longrightarrow> set (srt lt xs) = set xs"
  by (metis set_mset_mset srt_mset)

lemma srt_length: "strict_weak_on (set xs) lt \<Longrightarrow> length (srt lt xs) = length xs"
  by (metis size_mset srt_mset)

lemma srt_Nil_iff: "strict_weak_on (set xs) lt \<Longrightarrow> srt lt xs = [] \<longleftrightarrow> xs = []"
  by (metis length_0_conv srt_length)

lemma srt_hd_first:
  assumes sw: "strict_weak_on (set xs) lt" and y: "y \<in> set xs"
  shows "\<not> lt y (hd (srt lt xs))"
proof -
  from assms have "srt lt xs \<noteq> []" by (auto simp: srt_Nil_iff)
  then obtain z zs where z: "srt lt xs = z # zs" by (cases "srt lt xs") auto
  have "sorted_less lt (z # zs)" using srt_sorted [OF sw] z by simp
  moreover have "y = z \<or> y \<in> set zs" using y srt_set [OF sw] z by auto
  moreover have "z \<in> set xs" using srt_set [OF sw] z by auto
  ultimately show ?thesis
    using z strict_weak_irrefl [OF sw] by (auto simp: sorted_less_Cons)
qed

end

interpretation stable: slice_sort slice_stable
  by unfold_locales (simp_all add: sorted_slice_stable)

lemma sorts_slice_sort: "sorts srt \<longleftrightarrow> slice_sort srt"
  by (auto simp: sorts_def slice_sort_def)

lemma sorts_slice_stable: "sorts slice_stable"
  by (simp add: sorts_slice_sort stable.slice_sort_axioms)

section \<open>Maps\<close>

text \<open>A Go map read with the zero value of its element type for a missing key.\<close>

definition map_get :: "'v \<Rightarrow> ('k \<rightharpoonup> 'v) \<Rightarrow> 'k \<Rightarrow> 'v" where
  "map_get z m k = (case m k of None \<Rightarrow> z | Some v \<Rightarrow> v)"

lemma map_get_upd [simp]: "map_get z (m(k \<mapsto> v)) j = (if j = k then v else map_get z m j)"
  by (simp add: map_get_def)

lemma map_get_del [simp]: "map_get z (m(k := None)) j = (if j = k then z else map_get z m j)"
  by (simp add: map_get_def)

lemma map_get_empty [simp]: "map_get z Map.empty k = z"
  by (simp add: map_get_def)

text \<open>The keys of a map in the order a \<^verbatim>\<open>range\<close> loop yields them.\<close>

definition range_order :: "'k list \<Rightarrow> ('k \<rightharpoonup> 'v) \<Rightarrow> bool" where
  "range_order ks m \<longleftrightarrow> distinct ks \<and> set ks = dom m"

section \<open>A table of rows with a key\<close>

text \<open>
  Several services keep rows under a textual identifier, in a Go map or in a database
  table. The locale is the contract their clients use: what a lookup returns after a
  write of the same or another key.
\<close>

locale keyed_store =
  fixes lookup :: "'s \<Rightarrow> 'k \<Rightarrow> 'v option"
    and put :: "'s \<Rightarrow> 'k \<Rightarrow> 'v \<Rightarrow> 's"
    and del :: "'s \<Rightarrow> 'k \<Rightarrow> 's"
    and ok :: "'s \<Rightarrow> bool"
  assumes lookup_put: "ok s \<Longrightarrow> lookup (put s k v) j = (if j = k then Some v else lookup s j)"
    and lookup_del: "ok s \<Longrightarrow> lookup (del s k) j = (if j = k then None else lookup s j)"
    and ok_put: "ok s \<Longrightarrow> ok (put s k v)"
    and ok_del: "ok s \<Longrightarrow> ok (del s k)"
begin

lemma lookup_put_same: "ok s \<Longrightarrow> lookup (put s k v) k = Some v"
  by (simp add: lookup_put)

lemma lookup_del_same: "ok s \<Longrightarrow> lookup (del s k) k = None"
  by (simp add: lookup_del)

lemma del_put: "ok s \<Longrightarrow> lookup (del (put s k v) k) = lookup (del s k)"
  by (rule ext) (simp add: lookup_del lookup_put ok_put)

lemma put_put: "ok s \<Longrightarrow> lookup (put (put s k v) k w) = lookup (put s k w)"
  by (rule ext) (simp add: lookup_put ok_put)

end

interpretation gomap: keyed_store "\<lambda>m k. m k" "\<lambda>m k v. m(k \<mapsto> v)" "\<lambda>m k. m(k := None)" "\<lambda>_. True"
  by unfold_locales auto

end
