(* ===== verification/Go_Float.thy ===== *)
theory Go_Float
  imports Forge_Prelude "HOL-Library.Log_Nat"
begin

text \<open>
  Go's \<^verbatim>\<open>float64\<close>: IEEE 754 binary64 with rounding to nearest, ties to even. A finite value
  is the rational number it denotes, so the two zeros are one value; no modelled code divides by a
  negative zero. Operations round the exact result; what is too large becomes an infinity. The
  locale \<open>rounding\<close> is what the components use of rounding (monotone, exact on the integers up
  to \<open>2 ^ 53\<close>), interpreted by \<open>round64\<close>.
\<close>

section \<open>Rounding\<close>

definition round_half_even :: "rat \<Rightarrow> int" where
  "round_half_even x =
     (let n = \<lfloor>x\<rfloor>; d = x - of_int n
      in if d < 1 / 2 then n else if 1 / 2 < d then n + 1 else if even n then n else n + 1)"

definition pow2 :: "int \<Rightarrow> rat" where
  "pow2 e = (if 0 \<le> e then 2 ^ nat e else 1 / 2 ^ nat (- e))"

text \<open>The exponent of the unit in the last place for numbers of the size of \<open>x\<close>; the least
  one is that of the subnormal numbers.\<close>

definition ulp_exp :: "rat \<Rightarrow> int" where
  "ulp_exp x =
     max (- 1074)
       (if 1 \<le> \<bar>x\<bar> then bitlen \<lfloor>\<bar>x\<bar>\<rfloor> - 53
        else - bitlen \<lfloor>1 / \<bar>x\<bar>\<rfloor> - 52)"

definition round64 :: "rat \<Rightarrow> rat" where
  "round64 x =
     (if x = 0 then 0
      else let u = pow2 (ulp_exp x) in of_int (round_half_even (x / u)) * u)"

lemma round_half_even_int [simp]: "round_half_even (of_int n) = n"
  by (simp add: round_half_even_def)

lemma round_half_even_bounds:
  "\<lfloor>x\<rfloor> \<le> round_half_even x" "round_half_even x \<le> \<lfloor>x\<rfloor> + 1"
  by (auto simp: round_half_even_def Let_def)

lemma round_half_even_mono:
  assumes "x \<le> y"
  shows "round_half_even x \<le> round_half_even y"
proof (cases "\<lfloor>x\<rfloor> = \<lfloor>y\<rfloor>")
  case True
  with assms show ?thesis by (auto simp: round_half_even_def Let_def)
next
  case False
  with floor_mono [OF assms] have "\<lfloor>x\<rfloor> + 1 \<le> \<lfloor>y\<rfloor>" by simp
  with round_half_even_bounds(2) [of x] round_half_even_bounds(1) [of y] show ?thesis by linarith
qed

lemma round_half_even_minus: "round_half_even (- x) = - round_half_even x"
proof (cases "x = of_int \<lfloor>x\<rfloor>")
  case True
  then show ?thesis by (metis of_int_minus round_half_even_int)
next
  case False
  moreover have "of_int \<lfloor>x\<rfloor> \<le> x" by (rule of_int_floor_le)
  ultimately have lt: "of_int \<lfloor>x\<rfloor> < x" by linarith
  have fl: "\<lfloor>- x\<rfloor> = - \<lfloor>x\<rfloor> - 1"
    by (rule floor_unique) (use lt in simp_all, linarith)
  show ?thesis by (auto simp: round_half_even_def Let_def fl)
qed

lemma pow2_pos [simp]: "0 < pow2 e"
  by (simp add: pow2_def)

lemma pow2_nonzero [simp]: "pow2 e \<noteq> 0"
  using pow2_pos [of e] by linarith

lemma pow2_nat [simp]: "pow2 (int n) = 2 ^ n"
  by (simp add: pow2_def)

lemma pow2_powr: "(of_rat (pow2 e) :: real) = 2 powr (of_int e)"
  by (simp add: pow2_def of_rat_power of_rat_divide powr_realpow [symmetric] powr_minus_divide)

lemma pow2_add: "pow2 (a + b) = pow2 a * pow2 b"
proof -
  have "(of_rat (pow2 (a + b)) :: real) = of_rat (pow2 a * pow2 b)"
    by (simp add: pow2_powr of_rat_mult powr_add)
  then show ?thesis by (simp only: of_rat_eq_iff)
qed

lemma pow2_mono: "a \<le> b \<Longrightarrow> pow2 a \<le> pow2 b"
proof -
  assume "a \<le> b"
  then have "(of_rat (pow2 a) :: real) \<le> of_rat (pow2 b)"
    by (simp add: pow2_powr)
  then show ?thesis by (simp only: of_rat_less_eq)
qed

lemma pow2_diff: "pow2 a / pow2 b = pow2 (a - b)"
  using pow2_add [of "a - b" b] by simp

lemma ulp_exp_minus [simp]: "ulp_exp (- x) = ulp_exp x"
  by (simp add: ulp_exp_def)

lemma round64_minus: "round64 (- x) = - round64 x"
  by (simp add: round64_def Let_def round_half_even_minus)

lemma round64_0 [simp]: "round64 0 = 0"
  by (simp add: round64_def)

lemma ulp_exp_upper:
  assumes "0 < x"
  shows "x \<le> pow2 (ulp_exp x + 53)"
proof (cases "1 \<le> x")
  case True
  then have f: "0 < \<lfloor>x\<rfloor>" by simp
  from bitlen_bounds [OF f] have "\<lfloor>x\<rfloor> + 1 \<le> 2 ^ nat (bitlen \<lfloor>x\<rfloor>)" by simp
  then have "of_int (\<lfloor>x\<rfloor> + 1) \<le> (of_int (2 ^ nat (bitlen \<lfloor>x\<rfloor>)) :: rat)"
    by (simp only: of_int_le_iff)
  then have "x \<le> pow2 (bitlen \<lfloor>x\<rfloor>)"
    using bitlen_nonneg [of "\<lfloor>x\<rfloor>"] floor_correct [of x] by (simp add: pow2_def)
  also have "\<dots> \<le> pow2 (ulp_exp x + 53)"
    using True assms by (intro pow2_mono) (simp add: ulp_exp_def)
  finally show ?thesis .
next
  case False
  let ?r = "1 / x" and ?j = "bitlen \<lfloor>1 / x\<rfloor>"
  from False assms have r: "1 \<le> ?r" by simp
  then have f: "0 < \<lfloor>?r\<rfloor>" by simp
  from f have j: "1 \<le> ?j" using bitlen_nonneg [of "\<lfloor>?r\<rfloor>"] bitlen_eq_zero_iff [of "\<lfloor>?r\<rfloor>"] by linarith
  from bitlen_bounds [OF f] have "of_int (2 ^ nat (?j - 1)) \<le> (of_int \<lfloor>?r\<rfloor> :: rat)"
    by (simp only: of_int_le_iff)
  then have "2 ^ nat (?j - 1) \<le> (of_int \<lfloor>?r\<rfloor> :: rat)" by (simp only: of_int_power of_int_numeral)
  then have "2 ^ nat (?j - 1) \<le> ?r" using of_int_floor_le [of ?r] by linarith
  then have "x \<le> 1 / 2 ^ nat (?j - 1)"
    using assms by (simp add: field_simps)
  also have "\<dots> = pow2 (1 - ?j)" using j by (cases "?j = 1") (simp_all add: pow2_def)
  also have "\<dots> \<le> pow2 (ulp_exp x + 53)"
    using False assms by (intro pow2_mono) (simp add: ulp_exp_def)
  finally show ?thesis .
qed

lemma ulp_exp_lower:
  assumes "0 < x" "- 1074 < ulp_exp x"
  shows "pow2 (ulp_exp x + 52) \<le> x"
proof (cases "1 \<le> x")
  case True
  then have f: "0 < \<lfloor>x\<rfloor>" by simp
  then have k: "1 \<le> bitlen \<lfloor>x\<rfloor>"
    using bitlen_nonneg [of "\<lfloor>x\<rfloor>"] bitlen_eq_zero_iff [of "\<lfloor>x\<rfloor>"] by linarith
  have "ulp_exp x + 52 = bitlen \<lfloor>x\<rfloor> - 1" using assms True by (simp add: ulp_exp_def)
  then have "pow2 (ulp_exp x + 52) = of_int (2 ^ nat (bitlen \<lfloor>x\<rfloor> - 1))"
    using k by (simp add: pow2_def)
  also have "\<dots> \<le> of_int \<lfloor>x\<rfloor>"
    using bitlen_bounds [OF f] by (simp only: of_int_le_iff)
  also have "\<dots> \<le> x" by simp
  finally show ?thesis .
next
  case False
  let ?r = "1 / x" and ?j = "bitlen \<lfloor>1 / x\<rfloor>"
  from False assms have "1 \<le> ?r" by simp
  then have f: "0 < \<lfloor>?r\<rfloor>" by simp
  from bitlen_bounds [OF f] have "\<lfloor>?r\<rfloor> + 1 \<le> 2 ^ nat ?j" by simp
  then have "of_int (\<lfloor>?r\<rfloor> + 1) \<le> (of_int (2 ^ nat ?j) :: rat)"
    by (simp only: of_int_le_iff)
  then have "?r \<le> 2 ^ nat ?j" using floor_correct [of ?r] by simp
  then have "1 / 2 ^ nat ?j \<le> x" using assms by (simp add: field_simps)
  moreover have "ulp_exp x + 52 = - ?j" using assms False by (simp add: ulp_exp_def)
  moreover have "0 \<le> ?j" by (rule bitlen_nonneg)
  ultimately show ?thesis by (cases "?j = 0") (simp_all add: pow2_def)
qed

lemma round64_at: "x \<noteq> 0 \<Longrightarrow> round64 x = of_int (round_half_even (x / pow2 (ulp_exp x))) * pow2 (ulp_exp x)"
  by (simp add: round64_def Let_def)

lemma round64_le_pow2:
  assumes "0 < x" "x \<le> pow2 (ulp_exp x + int n)"
  shows "round64 x \<le> pow2 (ulp_exp x + int n)"
proof -
  have "x / pow2 (ulp_exp x) \<le> of_int (2 ^ n)"
    using assms(2) by (simp add: pow2_add divide_le_eq mult.commute)
  then have "round_half_even (x / pow2 (ulp_exp x)) \<le> 2 ^ n"
    using round_half_even_mono round_half_even_int by metis
  then have "of_int (round_half_even (x / pow2 (ulp_exp x))) \<le> (2 ^ n :: rat)"
    by (metis of_int_le_iff of_int_numeral of_int_power)
  then show ?thesis
    using assms(1) by (simp add: round64_at pow2_add mult.commute)
qed

lemma round64_ge_pow2:
  assumes "0 < x" "pow2 (ulp_exp x + int n) \<le> x"
  shows "pow2 (ulp_exp x + int n) \<le> round64 x"
proof -
  have "of_int (2 ^ n) \<le> x / pow2 (ulp_exp x)"
    using assms(2) by (simp add: pow2_add le_divide_eq mult.commute)
  then have "2 ^ n \<le> round_half_even (x / pow2 (ulp_exp x))"
    using round_half_even_mono round_half_even_int by metis
  then have "(2 ^ n :: rat) \<le> of_int (round_half_even (x / pow2 (ulp_exp x)))"
    by (metis of_int_le_iff of_int_numeral of_int_power)
  then show ?thesis
    using assms(1) by (simp add: round64_at pow2_add mult.commute)
qed

lemma round64_mono_pos:
  assumes "0 < x" "x \<le> y"
  shows "round64 x \<le> round64 y"
proof -
  from assms have y: "0 < y" by simp
  consider "ulp_exp x = ulp_exp y" | "ulp_exp x < ulp_exp y" | "ulp_exp y < ulp_exp x" by linarith
  then show ?thesis
  proof cases
    case 1
    have "x / pow2 (ulp_exp x) \<le> y / pow2 (ulp_exp x)"
      using assms by (simp add: divide_right_mono less_imp_le)
    then have "round_half_even (x / pow2 (ulp_exp x)) \<le> round_half_even (y / pow2 (ulp_exp x))"
      by (rule round_half_even_mono)
    with 1 assms y show ?thesis by (simp add: round64_at)
  next
    case 2
    have "- 1074 \<le> ulp_exp x" by (simp add: ulp_exp_def)
    with 2 have "pow2 (ulp_exp y + 52) \<le> y" using y by (intro ulp_exp_lower) auto
    then have "pow2 (ulp_exp y + int 52) \<le> round64 y" using y by (intro round64_ge_pow2) auto
    moreover have "round64 x \<le> pow2 (ulp_exp x + int 53)"
      using assms(1) ulp_exp_upper [OF assms(1)] by (intro round64_le_pow2) auto
    moreover have "pow2 (ulp_exp x + int 53) \<le> pow2 (ulp_exp y + int 52)"
      using 2 by (intro pow2_mono) simp
    ultimately show ?thesis by linarith
  next
    case 3
    have "- 1074 \<le> ulp_exp y" by (simp add: ulp_exp_def)
    with 3 have "pow2 (ulp_exp x + 52) \<le> x" using assms(1) by (intro ulp_exp_lower) auto
    moreover have "y \<le> pow2 (ulp_exp y + 53)" using y by (rule ulp_exp_upper)
    moreover have "pow2 (ulp_exp y + 53) \<le> pow2 (ulp_exp x + 52)" using 3 by (intro pow2_mono) simp
    ultimately have "x = y" using assms(2) by linarith
    then show ?thesis by simp
  qed
qed

lemma round64_nonneg: "0 \<le> x \<Longrightarrow> 0 \<le> round64 x"
proof (cases "x = 0")
  case False
  assume "0 \<le> x"
  then have "0 \<le> x / pow2 (ulp_exp x)" by (simp add: less_imp_le)
  then have "0 \<le> round_half_even (x / pow2 (ulp_exp x))"
    using round_half_even_mono [of 0] round_half_even_int [of 0] by simp
  with False show ?thesis by (simp add: round64_at less_imp_le)
qed simp

theorem round64_mono: "x \<le> y \<Longrightarrow> round64 x \<le> round64 y"
proof -
  assume le: "x \<le> y"
  consider "0 < x" | "x \<le> 0" "0 \<le> y" | "y < 0" by linarith
  then show ?thesis
  proof cases
    case 1
    then show ?thesis using le by (rule round64_mono_pos)
  next
    case 2
    have "round64 x \<le> 0" using round64_nonneg [of "- x"] 2 by (simp add: round64_minus)
    moreover have "0 \<le> round64 y" using 2 by (intro round64_nonneg)
    ultimately show ?thesis by linarith
  next
    case 3
    have "round64 (- y) \<le> round64 (- x)" using le 3 by (intro round64_mono_pos) auto
    then show ?thesis by (simp add: round64_minus)
  qed
qed

lemma round64_pos_int:
  assumes "0 < n" "n \<le> 2 ^ 53"
  shows "round64 (of_int n) = of_int n"
proof -
  have k: "ulp_exp (of_int n) = bitlen n - 53"
    using assms(1) bitlen_nonneg [of n] by (simp add: ulp_exp_def)
  have "bitlen n \<le> 54"
  proof (rule ccontr)
    assume "\<not> bitlen n \<le> 54"
    then have "(2::int) ^ 54 \<le> 2 ^ nat (bitlen n - 1)" by (intro power_increasing) auto
    with bitlen_bounds [OF assms(1)] assms(2) show False by simp
  qed
  have "\<exists>m. (of_int n :: rat) / pow2 (ulp_exp (of_int n)) = of_int m"
  proof (cases "bitlen n = 54")
    case True
    with bitlen_bounds [OF assms(1)] assms(2) have "n = 2 ^ 53" by simp
    with True k have "(of_int n :: rat) / pow2 (ulp_exp (of_int n)) = of_int (2 ^ 52)"
      by (simp add: pow2_def)
    then show ?thesis by blast
  next
    case False
    with \<open>bitlen n \<le> 54\<close> have "(of_int n :: rat) / pow2 (ulp_exp (of_int n)) = of_int (n * 2 ^ nat (53 - bitlen n))"
      by (simp add: k pow2_def)
    then show ?thesis by blast
  qed
  then obtain m where m: "(of_int n :: rat) / pow2 (ulp_exp (of_int n)) = of_int m" by blast
  then have "round64 (of_int n) = of_int m * pow2 (ulp_exp (of_int n))"
    using assms(1) by (simp add: round64_at)
  also have "\<dots> = of_int n" using m by (simp add: divide_eq_eq)
  finally show ?thesis .
qed

lemma round64_int: "\<bar>n\<bar> \<le> 2 ^ 53 \<Longrightarrow> round64 (of_int n) = of_int n"
proof -
  assume "\<bar>n\<bar> \<le> 2 ^ 53"
  then consider "n = 0" | "0 < n" "n \<le> 2 ^ 53" | "0 < - n" "- n \<le> 2 ^ 53" by linarith
  then show ?thesis
  proof cases
    case 3
    from round64_pos_int [OF this] show ?thesis by (simp add: round64_minus)
  qed (simp_all add: round64_pos_int)
qed

section \<open>The rounding contract\<close>

locale rounding =
  fixes rnd :: "rat \<Rightarrow> rat"
  assumes rnd_mono: "x \<le> y \<Longrightarrow> rnd x \<le> rnd y"
    and rnd_int: "\<bar>n\<bar> \<le> 2 ^ 53 \<Longrightarrow> rnd (of_int n) = of_int n"
begin

lemma rnd_less_imp: "rnd x < rnd y \<Longrightarrow> x < y"
  using rnd_mono by (meson linorder_not_le)

lemma rnd_le_int: "x \<le> of_int n \<Longrightarrow> \<bar>n\<bar> \<le> 2 ^ 53 \<Longrightarrow> rnd x \<le> of_int n"
  using rnd_mono rnd_int by metis

lemma rnd_ge_int: "of_int n \<le> x \<Longrightarrow> \<bar>n\<bar> \<le> 2 ^ 53 \<Longrightarrow> of_int n \<le> rnd x"
  using rnd_mono rnd_int by metis

lemma rnd_unit: "0 \<le> x \<Longrightarrow> x \<le> 1 \<Longrightarrow> 0 \<le> rnd x \<and> rnd x \<le> 1"
  using rnd_ge_int [of 0 x] rnd_le_int [of x 1] by simp

end

interpretation r64: rounding round64
  by unfold_locales (simp_all add: round64_mono round64_int)

section \<open>Values and operations\<close>

datatype float64 = Fin rat | PosInf | NegInf | NaN

definition to_float64 :: "rat \<Rightarrow> float64" where
  "to_float64 x =
     (let r = round64 x in if 2 ^ 1024 \<le> r then PosInf else if r \<le> - (2 ^ 1024) then NegInf else Fin r)"

definition f_of_int :: "int \<Rightarrow> float64" where
  "f_of_int n = to_float64 (of_int n)"

fun f_neg :: "float64 \<Rightarrow> float64" where
  "f_neg (Fin x) = Fin (- x)"
| "f_neg PosInf = NegInf"
| "f_neg NegInf = PosInf"
| "f_neg NaN = NaN"

definition f_add :: "float64 \<Rightarrow> float64 \<Rightarrow> float64" where
  "f_add a b =
     (case a of
        NaN \<Rightarrow> NaN
      | PosInf \<Rightarrow> (case b of NaN \<Rightarrow> NaN | NegInf \<Rightarrow> NaN | _ \<Rightarrow> PosInf)
      | NegInf \<Rightarrow> (case b of NaN \<Rightarrow> NaN | PosInf \<Rightarrow> NaN | _ \<Rightarrow> NegInf)
      | Fin x \<Rightarrow> (case b of Fin y \<Rightarrow> to_float64 (x + y) | _ \<Rightarrow> b))"

definition f_sub :: "float64 \<Rightarrow> float64 \<Rightarrow> float64" where
  "f_sub a b = f_add a (f_neg b)"

definition signed_inf :: "rat \<Rightarrow> float64" where
  "signed_inf s = (if s = 0 then NaN else if 0 < s then PosInf else NegInf)"

fun f_sign :: "float64 \<Rightarrow> rat" where
  "f_sign (Fin x) = sgn x"
| "f_sign PosInf = 1"
| "f_sign NegInf = - 1"
| "f_sign NaN = 0"

definition f_mul :: "float64 \<Rightarrow> float64 \<Rightarrow> float64" where
  "f_mul a b =
     (case (a, b) of
        (Fin x, Fin y) \<Rightarrow> to_float64 (x * y)
      | _ \<Rightarrow> if a = NaN \<or> b = NaN then NaN else signed_inf (f_sign a * f_sign b))"

text \<open>Division; a zero divisor is the positive zero.\<close>

definition f_div :: "float64 \<Rightarrow> float64 \<Rightarrow> float64" where
  "f_div a b =
     (case (a, b) of
        (Fin x, Fin y) \<Rightarrow> if y = 0 then signed_inf x else to_float64 (x / y)
      | (Fin x, NaN) \<Rightarrow> NaN
      | (Fin x, _) \<Rightarrow> Fin 0
      | (NaN, _) \<Rightarrow> NaN
      | (_, Fin y) \<Rightarrow> signed_inf (f_sign a * (if y = 0 then 1 else sgn y))
      | _ \<Rightarrow> NaN)"

text \<open>The comparison \<open><\<close>: false as soon as one side is not a number.\<close>

fun f_lt :: "float64 \<Rightarrow> float64 \<Rightarrow> bool" where
  "f_lt (Fin x) (Fin y) = (x < y)"
| "f_lt NegInf (Fin y) = True"
| "f_lt NegInf PosInf = True"
| "f_lt (Fin x) PosInf = True"
| "f_lt _ _ = False"

section \<open>Facts about comparisons and exact results\<close>

lemma to_float64_not_NaN [simp]: "to_float64 x \<noteq> NaN"
  by (simp add: to_float64_def Let_def)

lemma f_of_int_not_NaN [simp]: "f_of_int n \<noteq> NaN"
  by (simp add: f_of_int_def)

lemma f_lt_strict_weak: "NaN \<notin> A \<Longrightarrow> strict_weak_on A f_lt"
proof (rule strict_weak_onI)
  fix x y assume "f_lt x y"
  then show "\<not> f_lt y x" by (cases x; cases y) auto
next
  fix x y z assume "NaN \<notin> A" "z \<in> A" "f_lt x y" "\<not> f_lt x z"
  then show "f_lt z y" by (cases x; cases y; cases z) auto
qed

lemma strict_weak_score:
  assumes "\<And>x. x \<in> A \<Longrightarrow> f x \<noteq> NaN"
  shows "strict_weak_on A (\<lambda>x y. f_lt (f y) (f x))"
proof -
  have "strict_weak_on (f ` A) f_lt" using assms by (intro f_lt_strict_weak) force
  then show ?thesis unfolding strict_weak_on_def by blast
qed

lemma strict_weak_score_up:
  assumes "\<And>x. x \<in> A \<Longrightarrow> f x \<noteq> NaN"
  shows "strict_weak_on A (\<lambda>x y. f_lt (f x) (f y))"
proof -
  have "strict_weak_on (f ` A) f_lt" using assms by (intro f_lt_strict_weak) force
  then show ?thesis unfolding strict_weak_on_def by blast
qed

lemma to_float64_small:
  assumes "\<bar>x\<bar> \<le> 2 ^ 53"
  shows "to_float64 x = Fin (round64 x)"
proof -
  have le: "x \<le> of_int (2 ^ 53)" "of_int (- (2 ^ 53)) \<le> x" using assms by auto
  have "round64 x \<le> of_int (2 ^ 53)" by (rule r64.rnd_le_int [OF le(1)]) simp
  also have "(of_int (2 ^ 53) :: rat) < 2 ^ 1024" by simp
  finally have up: "round64 x < 2 ^ 1024" .
  have "- (2 ^ 1024 :: rat) < of_int (- (2 ^ 53))" by simp
  also have "of_int (- (2 ^ 53)) \<le> round64 x" by (rule r64.rnd_ge_int [OF le(2)]) simp
  finally have "- (2 ^ 1024) < round64 x" .
  with up show ?thesis unfolding to_float64_def Let_def by (metis linorder_not_le)
qed

lemma to_float64_int: "\<bar>n\<bar> \<le> 2 ^ 53 \<Longrightarrow> to_float64 (of_int n) = Fin (of_int n)"
proof -
  assume n: "\<bar>n\<bar> \<le> 2 ^ 53"
  then have "(of_int \<bar>n\<bar> :: rat) \<le> of_int (2 ^ 53)" by (simp only: of_int_le_iff)
  then have "\<bar>of_int n :: rat\<bar> \<le> 2 ^ 53" by simp
  then show ?thesis by (simp only: to_float64_small round64_int [OF n])
qed

lemma f_of_int_exact: "\<bar>n\<bar> \<le> 2 ^ 53 \<Longrightarrow> f_of_int n = Fin (of_int n)"
  by (simp add: f_of_int_def to_float64_int)

lemma f_add_exact:
  "\<bar>m + n\<bar> \<le> 2 ^ 53 \<Longrightarrow> f_add (Fin (of_int m)) (Fin (of_int n)) = Fin (of_int (m + n))"
  using to_float64_int [of "m + n"] by (simp add: f_add_def)

lemma f_mul_exact:
  "\<bar>m * n\<bar> \<le> 2 ^ 53 \<Longrightarrow> f_mul (Fin (of_int m)) (Fin (of_int n)) = Fin (of_int (m * n))"
  using to_float64_int [of "m * n"] by (simp add: f_mul_def)

section \<open>Magnitudes\<close>

text \<open>Finite with magnitude at most \<open>2 ^ k\<close>: how the components show that no infinity and
  no NaN arises.\<close>

definition fbound :: "nat \<Rightarrow> float64 \<Rightarrow> bool" where
  "fbound k f \<longleftrightarrow> (\<exists>x. f = Fin x \<and> \<bar>x\<bar> \<le> 2 ^ k)"

lemma fbound_not_NaN: "fbound k f \<Longrightarrow> f \<noteq> NaN"
  by (auto simp: fbound_def)

lemma fbound_Fin: "\<bar>x\<bar> \<le> 2 ^ k \<Longrightarrow> fbound k (Fin x)"
  by (simp add: fbound_def)

lemma fbound_mono: "fbound j f \<Longrightarrow> j \<le> k \<Longrightarrow> fbound k f"
proof -
  assume "fbound j f" "j \<le> k"
  then obtain x where x: "f = Fin x" "\<bar>x\<bar> \<le> 2 ^ j" and le: "(2 :: rat) ^ j \<le> 2 ^ k"
    by (auto simp: fbound_def intro: power_increasing)
  have "\<bar>x\<bar> \<le> 2 ^ k" by (rule order_trans [OF x(2) le])
  with x(1) show ?thesis by (simp add: fbound_def)
qed

lemma round64_pow2: "round64 (2 ^ k) = 2 ^ k"
proof -
  have "bitlen (2 ^ k) = 1 + int k" using bitlen_pow2 [of 1 k] compute_bitlen [of 1] by simp
  then have "ulp_exp (2 ^ k) = int k - 52"
    using floor_of_int [of "2 ^ k", where 'a = rat] by (simp add: ulp_exp_def)
  then have "2 ^ k / pow2 (ulp_exp (2 ^ k)) = of_int (2 ^ 52)"
    using pow2_diff [of "int k" "int k - 52"] pow2_nat [of 52] pow2_nat [of k] by simp
  then have "round64 (2 ^ k) = of_int (2 ^ 52) * pow2 (ulp_exp (2 ^ k))"
    by (simp only: round64_at round_half_even_int power_not_zero zero_neq_numeral not_False_eq_True
        zero_neq_numeral [symmetric])
  also have "\<dots> = 2 ^ k"
    using \<open>2 ^ k / pow2 (ulp_exp (2 ^ k)) = of_int (2 ^ 52)\<close> by (metis nonzero_divide_eq_eq pow2_nonzero)
  finally show ?thesis .
qed

lemma to_float64_bounded:
  assumes "\<bar>x\<bar> \<le> 2 ^ k" "k < 1024"
  shows "fbound k (to_float64 x)"
proof -
  have up: "round64 x \<le> 2 ^ k" using round64_mono [of x "2 ^ k"] assms(1) by (simp add: round64_pow2 abs_le_iff)
  have lo: "- (2 ^ k) \<le> round64 x"
    using round64_mono [of "- (2 ^ k)" x] assms(1) by (simp add: round64_pow2 round64_minus abs_le_iff)
  have "(2 :: rat) ^ k < 2 ^ 1024" using assms(2) by (intro power_strict_increasing) auto
  then have "\<not> 2 ^ 1024 \<le> round64 x" "\<not> round64 x \<le> - (2 ^ 1024)" using up lo by linarith+
  then have "to_float64 x = Fin (round64 x)" unfolding to_float64_def Let_def by argo
  then show ?thesis using up lo by (simp add: fbound_def abs_le_iff)
qed

lemma fbound_of_int: "\<bar>n\<bar> \<le> 2 ^ k \<Longrightarrow> k < 1024 \<Longrightarrow> fbound k (f_of_int n)"
proof -
  assume n: "\<bar>n\<bar> \<le> 2 ^ k" and k: "k < 1024"
  from n have "(of_int \<bar>n\<bar> :: rat) \<le> of_int (2 ^ k)" by (simp only: of_int_le_iff)
  then have "\<bar>of_int n :: rat\<bar> \<le> 2 ^ k" by simp
  then show ?thesis unfolding f_of_int_def using k by (rule to_float64_bounded)
qed

lemma fbound_add:
  assumes "fbound k a" "fbound k b" "Suc k < 1024"
  shows "fbound (Suc k) (f_add a b)"
proof -
  from assms obtain x y where "a = Fin x" "b = Fin y" "\<bar>x\<bar> \<le> 2 ^ k" "\<bar>y\<bar> \<le> 2 ^ k"
    by (auto simp: fbound_def)
  moreover from this have "\<bar>x + y\<bar> \<le> 2 ^ Suc k" by (simp add: abs_le_iff)
  ultimately show ?thesis using assms(3) by (simp add: f_add_def to_float64_bounded)
qed

lemma fbound_mul:
  assumes "fbound j a" "fbound k b" "j + k < 1024"
  shows "fbound (j + k) (f_mul a b)"
proof -
  from assms obtain x y where xy: "a = Fin x" "b = Fin y" "\<bar>x\<bar> \<le> 2 ^ j" "\<bar>y\<bar> \<le> 2 ^ k"
    by (auto simp: fbound_def)
  then have "\<bar>x * y\<bar> \<le> 2 ^ (j + k)" by (simp add: abs_mult power_add mult_mono)
  with xy assms(3) show ?thesis by (simp add: f_mul_def to_float64_bounded)
qed

lemma fbound_div:
  assumes "fbound k a" "b = Fin y" "1 \<le> \<bar>y\<bar>" "k < 1024"
  shows "fbound k (f_div a b)"
proof -
  from assms obtain x where x: "a = Fin x" "\<bar>x\<bar> \<le> 2 ^ k" by (auto simp: fbound_def)
  have "\<bar>x / y\<bar> \<le> \<bar>x\<bar>"
    using assms(3) by (cases "y = 0") (simp_all add: abs_divide divide_le_eq mult_le_cancel_left1)
  with x assms show ?thesis by (auto simp: f_div_def intro: to_float64_bounded)
qed

end
