(* ===== verification/Go_Strings.thy ===== *)
theory Go_Strings
  imports Forge_Prelude
begin

text \<open>
  The part of Go's \<^verbatim>\<open>strings\<close> package that the components call. A Go string is a sequence
  of bytes, so it is a \<open>string\<close> of HOL. Functions that depend on Unicode case tables
  (\<^verbatim>\<open>ToLower\<close>, \<^verbatim>\<open>EqualFold\<close>) are arguments of the definitions that call them;
  \<open>ascii_lower\<close> is their value on ASCII text.
\<close>

section \<open>White space\<close>

text \<open>The UTF-8 encodings of the code points that \<^verbatim>\<open>unicode.IsSpace\<close> accepts.\<close>

definition space_runes :: "string list" where
  "space_runes =
    [[CHR 0x09], [CHR 0x0A], [CHR 0x0B], [CHR 0x0C], [CHR 0x0D], [CHR 0x20],
     [CHR 0xC2, CHR 0x85], [CHR 0xC2, CHR 0xA0],
     [CHR 0xE1, CHR 0x9A, CHR 0x80],
     [CHR 0xE2, CHR 0x80, CHR 0x80], [CHR 0xE2, CHR 0x80, CHR 0x81], [CHR 0xE2, CHR 0x80, CHR 0x82],
     [CHR 0xE2, CHR 0x80, CHR 0x83], [CHR 0xE2, CHR 0x80, CHR 0x84], [CHR 0xE2, CHR 0x80, CHR 0x85],
     [CHR 0xE2, CHR 0x80, CHR 0x86], [CHR 0xE2, CHR 0x80, CHR 0x87], [CHR 0xE2, CHR 0x80, CHR 0x88],
     [CHR 0xE2, CHR 0x80, CHR 0x89], [CHR 0xE2, CHR 0x80, CHR 0x8A],
     [CHR 0xE2, CHR 0x80, CHR 0xA8], [CHR 0xE2, CHR 0x80, CHR 0xA9], [CHR 0xE2, CHR 0x80, CHR 0xAF],
     [CHR 0xE2, CHR 0x81, CHR 0x9F], [CHR 0xE3, CHR 0x80, CHR 0x80]]"

text \<open>Drop from the front, while there is one, an entry of a list of byte sequences.\<close>

fun strip_one :: "string list \<Rightarrow> string \<Rightarrow> string option" where
  "strip_one [] s = None"
| "strip_one (w # ws) s = (if w \<noteq> [] \<and> prefix w s then Some (drop (length w) s) else strip_one ws s)"

lemma strip_one_length: "strip_one ws s = Some r \<Longrightarrow> length r < length s"
  by (induction ws) (auto split: if_splits simp: prefix_def)

lemma strip_one_None:
  "strip_one ws s = None \<longleftrightarrow> (\<forall>w \<in> set ws. w \<noteq> [] \<longrightarrow> \<not> prefix w s)"
  by (induction ws) auto

lemma strip_one_suffix: "strip_one ws s = Some r \<Longrightarrow> suffix r s"
  by (induction ws) (auto split: if_splits simp: suffix_drop)

function strip_all :: "string list \<Rightarrow> string \<Rightarrow> string" where
  "strip_all ws s = (case strip_one ws s of None \<Rightarrow> s | Some r \<Rightarrow> strip_all ws r)"
  by pat_completeness auto
termination
  by (relation "measure (\<lambda>(ws, s). length s)") (auto simp: strip_one_length)

declare strip_all.simps [simp del]

lemma strip_all_None [simp]: "strip_one ws s = None \<Longrightarrow> strip_all ws s = s"
  by (simp add: strip_all.simps)

lemma strip_one_strip_all [simp]: "strip_one ws (strip_all ws s) = None"
proof (induction ws s rule: strip_all.induct)
  case (1 ws s)
  then show ?case
    by (cases "strip_one ws s") (auto simp: strip_all.simps [of ws s])
qed

lemma suffix_strip_all: "suffix (strip_all ws s) s"
proof (induction ws s rule: strip_all.induct)
  case (1 ws s)
  then show ?case
    by (cases "strip_one ws s")
      (auto simp: strip_all.simps [of ws s] dest!: strip_one_suffix intro: suffix_order.trans)
qed

definition trim_left :: "string \<Rightarrow> string" where
  "trim_left s = strip_all space_runes s"

definition trim_right :: "string \<Rightarrow> string" where
  "trim_right s = rev (strip_all (map rev space_runes) (rev s))"

text \<open>\<^verbatim>\<open>strings.TrimSpace\<close>.\<close>

definition trim_space :: "string \<Rightarrow> string" where
  "trim_space s = trim_right (trim_left s)"

lemma trim_right_prefix: "prefix (trim_right s) s"
  unfolding trim_right_def
  by (metis rev_rev_ident suffix_strip_all suffix_to_prefix)

lemma trim_right_idem [simp]: "trim_right (trim_right s) = trim_right s"
  by (simp add: trim_right_def)

lemma trim_left_trim_right_fixed:
  assumes "strip_one space_runes s = None"
  shows "trim_left (trim_right s) = trim_right s"
proof -
  have "strip_one space_runes (trim_right s) = None"
    using assms trim_right_prefix [of s]
    unfolding strip_one_None by (blast intro: prefix_order.trans)
  then show ?thesis by (simp add: trim_left_def)
qed

lemma trim_space_idem [simp]: "trim_space (trim_space s) = trim_space s"
  by (simp add: trim_space_def trim_left_def trim_left_trim_right_fixed [unfolded trim_left_def])

lemma trim_space_Nil [simp]: "trim_space [] = []"
proof -
  have "strip_one ws [] = None" for ws :: "string list"
    by (induction ws) auto
  then show ?thesis by (simp add: trim_space_def trim_left_def trim_right_def)
qed

section \<open>Splitting and joining\<close>

text \<open>\<^verbatim>\<open>strings.Split\<close> with a separator of one byte.\<close>

fun split_on :: "char \<Rightarrow> string \<Rightarrow> string list" where
  "split_on c [] = [[]]"
| "split_on c (x # xs) =
     (if x = c then [] # split_on c xs
      else (case split_on c xs of [] \<Rightarrow> [[x]] | p # ps \<Rightarrow> (x # p) # ps))"

text \<open>\<^verbatim>\<open>strings.Join\<close>.\<close>

fun join_with :: "string \<Rightarrow> string list \<Rightarrow> string" where
  "join_with sep [] = []"
| "join_with sep [p] = p"
| "join_with sep (p # q # ps) = p @ sep @ join_with sep (q # ps)"

lemma split_on_not_Nil [simp]: "split_on c s \<noteq> []"
  by (induction s) (auto split: list.splits)

lemma join_split_on: "join_with [c] (split_on c s) = s"
proof (induction s)
  case Nil
  then show ?case by simp
next
  case (Cons x xs)
  obtain p ps where "split_on c xs = p # ps"
    using split_on_not_Nil by (cases "split_on c xs") auto
  with Cons show ?case by (cases ps) auto
qed

lemma split_on_no_sep: "p \<in> set (split_on c s) \<Longrightarrow> c \<notin> set p"
  by (induction s arbitrary: p) (auto split: list.splits if_splits)

lemma split_on_free: "c \<notin> set s \<Longrightarrow> split_on c s = [s]"
  by (induction s) auto

lemma split_on_append: "c \<notin> set p \<Longrightarrow> split_on c (p @ c # s) = p # split_on c s"
  by (induction p) auto

lemma split_join:
  assumes "ps \<noteq> []" "\<forall>p \<in> set ps. c \<notin> set p"
  shows "split_on c (join_with [c] ps) = ps"
  using assms by (induction "[c]" ps rule: join_with.induct) (auto simp: split_on_free split_on_append)

text \<open>\<^verbatim>\<open>strings.FieldsFunc\<close>: the maximal runs of bytes that are not separators.\<close>

fun fields_func :: "(char \<Rightarrow> bool) \<Rightarrow> string \<Rightarrow> string list" where
  "fields_func sp [] = []"
| "fields_func sp (x # xs) =
     (if sp x then fields_func sp xs
      else (case xs of
              [] \<Rightarrow> [[x]]
            | y # _ \<Rightarrow>
                if sp y then [x] # fields_func sp xs
                else (case fields_func sp xs of [] \<Rightarrow> [[x]] | f # fs \<Rightarrow> (x # f) # fs)))"

lemma fields_func_free:
  "s \<noteq> [] \<Longrightarrow> \<forall>x \<in> set s. \<not> sp x \<Longrightarrow> fields_func sp s = [s]"
proof (induction s)
  case Nil
  then show ?case by simp
next
  case (Cons x xs)
  then show ?case by (cases xs) auto
qed

lemma fields_func_append:
  assumes "p \<noteq> []" "\<forall>x \<in> set p. \<not> sp x" "sp c"
  shows "fields_func sp (p @ c # s) = p # fields_func sp s"
  using assms
proof (induction p)
  case Nil
  then show ?case by simp
next
  case (Cons x xs)
  then show ?case by (cases xs) auto
qed

lemma fields_join:
  assumes "\<forall>p \<in> set ps. p \<noteq> [] \<and> (\<forall>x \<in> set p. \<not> sp x)" "sp c"
  shows "fields_func sp (join_with [c] ps) = ps"
  using assms(1)
proof (induction "[c]" ps rule: join_with.induct)
  case 1
  then show ?case by simp
next
  case (2 p)
  then show ?case by (simp add: fields_func_free)
next
  case (3 p q ps)
  then show ?case by (simp add: fields_func_append assms(2))
qed

lemma fields_func_mem:
  "f \<in> set (fields_func sp s) \<Longrightarrow> f \<noteq> [] \<and> (\<forall>x \<in> set f. \<not> sp x)"
proof (induction s arbitrary: f)
  case Nil
  then show ?case by simp
next
  case (Cons x xs)
  from Cons.prems have "f \<in> set (fields_func sp xs) \<or>
      (\<not> sp x \<and> (\<exists>g. f = x # g \<and> (g = [] \<or> g \<in> set (fields_func sp xs))))"
    unfolding fields_func.simps(2) [of sp x xs]
    by (simp split: list.split_asm if_split_asm del: fields_func.simps) auto
  then show ?case using Cons.IH by auto
qed

section \<open>Prefixes, suffixes, letters\<close>

definition has_suffix :: "string \<Rightarrow> string \<Rightarrow> bool" where
  "has_suffix s w \<longleftrightarrow> suffix w s"

definition trim_suffix :: "string \<Rightarrow> string \<Rightarrow> string" where
  "trim_suffix s w = (if suffix w s then take (length s - length w) s else s)"

definition contains_str :: "string \<Rightarrow> string \<Rightarrow> bool" where
  "contains_str s w \<longleftrightarrow> (\<exists>n \<in> set [0..<Suc (length s)]. prefix w (drop n s))"

lemma contains_str_sublist: "contains_str s w \<longleftrightarrow> sublist w s"
proof
  assume "contains_str s w"
  then show "sublist w s"
    unfolding contains_str_def
    by (metis append_take_drop_id prefix_def sublist_def)
next
  assume "sublist w s"
  then obtain a b where s: "s = a @ w @ b" by (auto simp: sublist_def)
  then have "prefix w (drop (length a) s)" "length a < Suc (length s)" by auto
  then show "contains_str s w" unfolding contains_str_def by (auto simp del: upt_Suc)
qed

definition ascii_lower_char :: "char \<Rightarrow> char" where
  "ascii_lower_char c =
     (if 65 \<le> (of_char c :: nat) \<and> (of_char c :: nat) \<le> 90 then char_of (of_char c + 32 :: nat) else c)"

definition ascii_lower :: "string \<Rightarrow> string" where
  "ascii_lower s = map ascii_lower_char s"

text \<open>\<^verbatim>\<open>strings.SplitN(s, sep, 2)\<close> with a separator of one byte: the part before the first
  separator and, when there is one, everything after it.\<close>

fun split_n2 :: "char \<Rightarrow> string \<Rightarrow> string \<times> string option" where
  "split_n2 c [] = ([], None)"
| "split_n2 c (x # xs) =
     (if x = c then ([], Some xs) else (case split_n2 c xs of (p, q) \<Rightarrow> (x # p, q)))"

lemma split_n2_Some: "split_n2 c s = (p, Some q) \<longleftrightarrow> s = p @ c # q \<and> c \<notin> set p"
proof (induction s arbitrary: p)
  case Nil
  then show ?case by simp
next
  case (Cons x xs)
  obtain a b where ab: "split_n2 c xs = (a, b)" by (cases "split_n2 c xs")
  with Cons.IH [of a] Cons.IH [of "tl p"] show ?case by (cases p) auto
qed

lemma split_n2_None: "split_n2 c s = (p, None) \<longleftrightarrow> p = s \<and> c \<notin> set s"
proof (induction s arbitrary: p)
  case Nil
  then show ?case by auto
next
  case (Cons x xs)
  obtain a b where ab: "split_n2 c xs = (a, b)" by (cases "split_n2 c xs")
  with Cons.IH [of a] Cons.IH [of xs] show ?case by auto
qed

section \<open>Decimal text\<close>

text \<open>\<^verbatim>\<open>fmt.Sprintf\<close> with \<^verbatim>\<open>%d\<close>.\<close>

fun show_nat :: "nat \<Rightarrow> string" where
  "show_nat n = (if n < 10 then [char_of (48 + n)] else show_nat (n div 10) @ [char_of (48 + n mod 10)])"

declare show_nat.simps [simp del]

definition show_int :: "int \<Rightarrow> string" where
  "show_int i = (if i < 0 then CHR ''-'' # show_nat (nat (- i)) else show_nat (nat i))"

text \<open>The value of a string of decimal digits, the inverse reading.\<close>

definition read_digits :: "string \<Rightarrow> nat" where
  "read_digits s = foldl (\<lambda>n c. 10 * n + (of_char c - 48)) 0 s"

lemma read_show_nat: "read_digits (show_nat n) = n"
proof (induction n rule: show_nat.induct)
  case (1 n)
  show ?case
  proof (cases "n < 10")
    case True
    then show ?thesis by (simp add: show_nat.simps [of n] read_digits_def)
  next
    case False
    have "48 + n mod 10 < 256" by (simp add: trans_less_add1)
    with False 1 show ?thesis
      by (simp add: show_nat.simps [of n] read_digits_def)
  qed
qed

lemma show_nat_inj: "show_nat m = show_nat n \<longleftrightarrow> m = n"
  by (metis read_show_nat)

lemma digits_show_nat: "c \<in> set (show_nat n) \<Longrightarrow> 48 \<le> (of_char c :: nat) \<and> (of_char c :: nat) \<le> 57"
proof (induction n arbitrary: c rule: show_nat.induct)
  case (1 n)
  have bound: "(48 + n mod 10) mod 256 = 48 + n mod 10" "n mod 10 < 10"
    by (simp_all add: trans_less_add1)
  show ?case
  proof (cases "n < 10")
    case True
    with 1 show ?thesis by (simp add: show_nat.simps [of n])
  next
    case False
    with 1 bound show ?thesis
      by (auto simp: show_nat.simps [of n])
  qed
qed

lemma show_nat_not_Nil [simp]: "show_nat n \<noteq> []"
  by (simp add: show_nat.simps [of n])

lemma show_int_inj: "show_int i = show_int j \<longleftrightarrow> i = j"
proof -
  have minus: "CHR ''-'' # s \<noteq> show_nat n" for s n
  proof
    assume "CHR ''-'' # s = show_nat n"
    then have "CHR ''-'' \<in> set (show_nat n)" by (metis list.set_intros(1))
    then show False using digits_show_nat [of "CHR ''-''" n] by simp
  qed
  then show ?thesis
    by (auto simp: show_int_def show_nat_inj dest: sym)
qed

end
