(* ===== verification/Placement.thy ===== *)
theory Placement
  imports Go_Float Go_Strings
begin

text \<open>
  The placement engine of \<^verbatim>\<open>forge/api/internal/placement\<close>: constraints on candidate nodes
  (\<^verbatim>\<open>constraints.go\<close>), the scoring strategies (\<^verbatim>\<open>strategy.go\<close>), the engine that
  filters, scores and selects (\<^verbatim>\<open>engine.go\<close>) and the report on a decision
  (\<^verbatim>\<open>explain.go\<close>). Errors and reasons are values that hold the arguments of the message,
  not its text.
\<close>

section \<open>Data\<close>

record constraint =
  c_type :: string
  c_operator :: string
  c_key :: string
  c_values :: "string list"
  c_required :: bool

record constraint_context =
  ctx_server_node :: "string \<rightharpoonup> string"
  ctx_node_labels :: "string \<rightharpoonup> (string \<rightharpoonup> string)"

record candidate =
  cand_node :: string
  cand_region :: string
  cand_total_cpu :: int
  cand_total_memory :: int
  cand_total_disk :: int
  cand_alloc_cpu :: int
  cand_alloc_memory :: int
  cand_alloc_disk :: int
  cand_avail_cpu :: int
  cand_avail_memory :: int
  cand_avail_disk :: int
  cand_server_count :: int
  cand_maintenance :: bool
  cand_draining :: bool
  cand_status :: string

record workload =
  w_cpu :: int
  w_memory :: int
  w_disk :: int
  w_preferred :: string
  w_required :: string
  w_region :: string
  w_constraints :: "constraint list"
  w_constraint_ctx :: constraint_context

datatype score_reason =
    AvailableMemory int
  | AvailableCPU int
  | AvailableDisk int
  | MemoryUtilization float64
  | CPUUtilization float64
  | DiskUtilization float64
  | ServerCount int
  | InverseWeight float64
  | RandomScore float64

record score_result =
  sr_node :: string
  sr_score :: float64
  sr_reasons :: "score_reason list"

definition empty_context :: constraint_context where
  "empty_context = \<lparr>ctx_server_node = Map.empty, ctx_node_labels = Map.empty\<rparr>"

section \<open>Constraints\<close>

datatype check_error =
    UnknownConstraintType string
  | AffinityTargetNotFound string
  | AffinityNotSatisfied string "string list"
  | AntiAffinityViolated string string
  | RegionNotIn string string "string list"
  | RegionExcluded string string "string list"
  | RegionNoMatch string string "string list"
  | NodeNotIn string "string list"
  | NodeExcluded string "string list"
  | NodeNoMatch string
  | NodeHasNoLabels string
  | LabelMissing string string
  | LabelPresent string string
  | LabelNotIn string string string "string list"
  | LabelExcluded string string string "string list"
  | LabelNotSatisfied string string

text \<open>The loop of \<^verbatim>\<open>checkAffinity\<close>: it stops at the first unknown server, even when a
  later one runs on the candidate.\<close>

fun check_affinity_loop :: "string \<Rightarrow> string list \<Rightarrow> (string \<rightharpoonup> string) \<Rightarrow> string list \<Rightarrow> check_error option" where
  "check_affinity_loop node vals m [] = Some (AffinityNotSatisfied node vals)"
| "check_affinity_loop node vals m (sid # rest) =
     (case m sid of
        None \<Rightarrow> Some (AffinityTargetNotFound sid)
      | Some n \<Rightarrow> if n = node then None else check_affinity_loop node vals m rest)"

definition check_affinity :: "candidate \<Rightarrow> constraint \<Rightarrow> constraint_context \<Rightarrow> check_error option" where
  "check_affinity cand c ctx =
     check_affinity_loop (cand_node cand) (c_values c) (ctx_server_node ctx) (c_values c)"

fun check_anti_affinity_loop :: "string \<Rightarrow> (string \<rightharpoonup> string) \<Rightarrow> string list \<Rightarrow> check_error option" where
  "check_anti_affinity_loop node m [] = None"
| "check_anti_affinity_loop node m (sid # rest) =
     (case m sid of
        None \<Rightarrow> check_anti_affinity_loop node m rest
      | Some n \<Rightarrow> if n = node then Some (AntiAffinityViolated node sid)
                  else check_anti_affinity_loop node m rest)"

definition check_anti_affinity :: "candidate \<Rightarrow> constraint \<Rightarrow> constraint_context \<Rightarrow> check_error option" where
  "check_anti_affinity cand c ctx =
     check_anti_affinity_loop (cand_node cand) (ctx_server_node ctx) (c_values c)"

definition check_region :: "candidate \<Rightarrow> constraint \<Rightarrow> check_error option" where
  "check_region cand c =
     (let n = cand_node cand; r = cand_region cand; vs = c_values c in
      if c_operator c = ''in'' then (if r \<notin> set vs then Some (RegionNotIn n r vs) else None)
      else if c_operator c = ''not-in'' then (if r \<in> set vs then Some (RegionExcluded n r vs) else None)
      else (if r \<notin> set vs then Some (RegionNoMatch n r vs) else None))"

definition check_node :: "candidate \<Rightarrow> constraint \<Rightarrow> check_error option" where
  "check_node cand c =
     (let n = cand_node cand; vs = c_values c in
      if c_operator c = ''in'' then (if n \<notin> set vs then Some (NodeNotIn n vs) else None)
      else if c_operator c = ''not-in'' then (if n \<in> set vs then Some (NodeExcluded n vs) else None)
      else (if n \<notin> set vs then Some (NodeNoMatch n) else None))"

definition check_label :: "candidate \<Rightarrow> constraint \<Rightarrow> constraint_context \<Rightarrow> check_error option" where
  "check_label cand c ctx =
     (let n = cand_node cand; k = c_key c; vs = c_values c in
      case ctx_node_labels ctx n of
        None \<Rightarrow> Some (NodeHasNoLabels n)
      | Some labels \<Rightarrow>
          let val = map_get [] labels k; exists = (labels k \<noteq> None) in
          if c_operator c = ''exists'' then (if \<not> exists then Some (LabelMissing n k) else None)
          else if c_operator c = ''not-exists'' then (if exists then Some (LabelPresent n k) else None)
          else if c_operator c = ''in'' then
            (if \<not> exists \<or> val \<notin> set vs then Some (LabelNotIn n k val vs) else None)
          else if c_operator c = ''not-in'' then
            (if exists \<and> val \<in> set vs then Some (LabelExcluded n k val vs) else None)
          else (if \<not> exists \<or> val \<notin> set vs then Some (LabelNotSatisfied n k) else None))"

definition check_single :: "candidate \<Rightarrow> constraint \<Rightarrow> constraint_context \<Rightarrow> check_error option" where
  "check_single cand c ctx =
     (if c_type c = ''affinity'' then check_affinity cand c ctx
      else if c_type c = ''anti-affinity'' then check_anti_affinity cand c ctx
      else if c_type c = ''region'' then check_region cand c
      else if c_type c = ''node'' then check_node cand c
      else if c_type c = ''label'' then check_label cand c ctx
      else Some (UnknownConstraintType (c_type c)))"

fun check_hard :: "candidate \<Rightarrow> constraint list \<Rightarrow> constraint_context \<Rightarrow> check_error option" where
  "check_hard cand [] ctx = None"
| "check_hard cand (c # cs) ctx =
     (if \<not> c_required c then check_hard cand cs ctx
      else (case check_single cand c ctx of
              Some e \<Rightarrow> Some e
            | None \<Rightarrow> check_hard cand cs ctx))"

text \<open>\<^verbatim>\<open>CheckSoft\<close>: the running bonus and, per optional constraint, whether it is met.\<close>

fun check_soft_loop ::
  "candidate \<Rightarrow> constraint list \<Rightarrow> constraint_context \<Rightarrow> float64 \<Rightarrow> (bool \<times> string \<times> string) list
     \<Rightarrow> float64 \<times> (bool \<times> string \<times> string) list" where
  "check_soft_loop cand [] ctx bonus reasons = (bonus, reasons)"
| "check_soft_loop cand (c # cs) ctx bonus reasons =
     (if c_required c then check_soft_loop cand cs ctx bonus reasons
      else (case check_single cand c ctx of
              None \<Rightarrow> check_soft_loop cand cs ctx (f_add bonus (Fin (10 ^ 12)))
                        (reasons @ [(True, c_type c, c_key c)])
            | Some _ \<Rightarrow> check_soft_loop cand cs ctx (f_sub bonus (Fin (10 ^ 10)))
                        (reasons @ [(False, c_type c, c_key c)])))"

definition check_soft ::
  "candidate \<Rightarrow> constraint list \<Rightarrow> constraint_context \<Rightarrow> float64 \<times> (bool \<times> string \<times> string) list" where
  "check_soft cand cs ctx = check_soft_loop cand cs ctx (Fin 0) []"

fun filter_by_constraints ::
  "candidate list \<Rightarrow> constraint list \<Rightarrow> constraint_context \<Rightarrow> candidate list \<times> (string \<times> check_error) list" where
  "filter_by_constraints [] cs ctx = ([], [])"
| "filter_by_constraints (cand # rest) cs ctx =
     (case filter_by_constraints rest cs ctx of (kept, reasons) \<Rightarrow>
        (case check_hard cand cs ctx of
           Some e \<Rightarrow> (kept, (cand_node cand, e) # reasons)
         | None \<Rightarrow> (cand # kept, reasons)))"

section \<open>Scoring strategies\<close>

text \<open>The \<^verbatim>\<open>Scorer\<close> interface: a score with its reasons, or an error.\<close>

type_synonym scorer = "candidate \<Rightarrow> workload \<Rightarrow> unit + (float64 \<times> score_reason list)"

definition least_loaded_score :: scorer where
  "least_loaded_score c w =
     Inr (f_add (f_add (f_mul (f_of_int (cand_avail_memory c)) (Fin (10 ^ 9)))
                       (f_mul (f_of_int (cand_avail_cpu c)) (Fin (10 ^ 3))))
                (f_of_int (cand_avail_disk c)),
          [AvailableMemory (cand_avail_memory c), AvailableCPU (cand_avail_cpu c),
           AvailableDisk (cand_avail_disk c)])"

definition utilization :: "int \<Rightarrow> int \<Rightarrow> float64" where
  "utilization alloc tot =
     (if 0 < tot then f_div (f_of_int alloc) (f_of_int tot) else Fin 0)"

definition bin_pack_score :: scorer where
  "bin_pack_score c w =
     (let mem = utilization (cand_alloc_memory c) (cand_total_memory c);
          cpu = utilization (cand_alloc_cpu c) (cand_total_cpu c);
          disk = utilization (cand_alloc_disk c) (cand_total_disk c)
      in Inr (f_div (f_add (f_add mem cpu) disk) (Fin 3),
              [MemoryUtilization mem, CPUUtilization cpu, DiskUtilization disk]))"

definition spread_score :: scorer where
  "spread_score c w =
     (let s = f_div (Fin 1) (f_add (Fin 1) (f_of_int (cand_server_count c)))
      in Inr (s, [ServerCount (cand_server_count c), InverseWeight s]))"

text \<open>\<^verbatim>\<open>RandomScorer\<close>: the value of \<^verbatim>\<open>rand.Float64\<close> drawn for the candidate is an
  argument.\<close>

definition random_score :: "(candidate \<Rightarrow> float64) \<Rightarrow> scorer" where
  "random_score draw c w = Inr (draw c, [RandomScore (draw c)])"

definition new_scorer :: "(candidate \<Rightarrow> float64) \<Rightarrow> string \<Rightarrow> scorer" where
  "new_scorer draw strategy =
     (if strategy = ''bin-pack'' then bin_pack_score
      else if strategy = ''spread'' then spread_score
      else if strategy = ''random'' then random_score draw
      else least_loaded_score)"

section \<open>The engine\<close>

datatype place_error = NoCandidatesAfterFiltering | NoCandidatesAfterScoring

text \<open>The scoring loop of \<^verbatim>\<open>Place\<close>, \<^verbatim>\<open>PlaceAll\<close> and the explanation: a candidate
  whose scoring fails is skipped.\<close>

fun score_loop :: "scorer \<Rightarrow> workload \<Rightarrow> candidate list \<Rightarrow> score_result list" where
  "score_loop sc req [] = []"
| "score_loop sc req (c # cs) =
     (case sc c req of
        Inl _ \<Rightarrow> score_loop sc req cs
      | Inr (s, rs) \<Rightarrow> \<lparr>sr_node = cand_node c, sr_score = s, sr_reasons = rs\<rparr> # score_loop sc req cs)"

definition better :: "score_result \<Rightarrow> score_result \<Rightarrow> bool" where
  "better r s \<longleftrightarrow> f_lt (sr_score s) (sr_score r)"

definition engine_place :: "scorer \<Rightarrow> candidate list \<Rightarrow> workload \<Rightarrow> place_error + score_result" where
  "engine_place sc cands req =
     (let filtered = fst (filter_by_constraints cands (w_constraints req) empty_context) in
      if filtered = [] then Inl NoCandidatesAfterFiltering
      else (case score_loop sc req filtered of
              [] \<Rightarrow> Inl NoCandidatesAfterScoring
            | r # rs \<Rightarrow> Inr (pick_best better r rs)))"

definition engine_place_all ::
  "((score_result \<Rightarrow> score_result \<Rightarrow> bool) \<Rightarrow> score_result list \<Rightarrow> score_result list)
     \<Rightarrow> scorer \<Rightarrow> candidate list \<Rightarrow> workload \<Rightarrow> place_error + score_result list" where
  "engine_place_all srt sc cands req =
     (let filtered = fst (filter_by_constraints cands (w_constraints req) empty_context) in
      if filtered = [] then Inl NoCandidatesAfterFiltering
      else (case score_loop sc req filtered of
              [] \<Rightarrow> Inl NoCandidatesAfterScoring
            | r # rs \<Rightarrow> Inr (srt better (r # rs))))"

section \<open>Explanations\<close>

record filter_reason =
  fr_node :: string
  fr_constraint :: constraint
  fr_reason :: check_error

record placement_report =
  rep_request :: workload
  rep_total :: nat
  rep_filtered :: "filter_reason list"
  rep_scored :: "score_result list"
  rep_selected :: "score_result option"

text \<open>The inner loop over the required constraints, stopping at the first that fails.\<close>

fun first_failure :: "candidate \<Rightarrow> constraint list \<Rightarrow> filter_reason option" where
  "first_failure cand [] = None"
| "first_failure cand (c # cs) =
     (case check_single cand c empty_context of
        Some e \<Rightarrow> Some \<lparr>fr_node = cand_node cand, fr_constraint = c, fr_reason = e\<rparr>
      | None \<Rightarrow> first_failure cand cs)"

fun explain_filter ::
  "candidate list \<Rightarrow> constraint list \<Rightarrow> filter_reason list \<times> candidate list" where
  "explain_filter [] hard = ([], [])"
| "explain_filter (cand # rest) hard =
     (case explain_filter rest hard of (out, viable) \<Rightarrow>
        (case first_failure cand hard of
           Some r \<Rightarrow> (r # out, viable)
         | None \<Rightarrow> (out, cand # viable)))"

definition explain_placement :: "scorer \<Rightarrow> candidate list \<Rightarrow> workload \<Rightarrow> placement_report" where
  "explain_placement sc cands req =
     (let hard = filter c_required (w_constraints req);
          (out, viable) = explain_filter cands hard;
          scored = score_loop sc req viable
      in \<lparr>rep_request = req, rep_total = length cands, rep_filtered = out, rep_scored = scored,
          rep_selected = (case scored of [] \<Rightarrow> None | r # rs \<Rightarrow> Some (pick_best better r rs))\<rparr>)"

record score_breakdown =
  bd_node :: string
  bd_base :: float64
  bd_soft_bonus :: float64
  bd_reasons :: "score_reason list"

fun explain_scores :: "scorer \<Rightarrow> candidate list \<Rightarrow> workload \<Rightarrow> score_breakdown list" where
  "explain_scores sc [] req = []"
| "explain_scores sc (c # cs) req =
     (case sc c req of
        Inl _ \<Rightarrow> explain_scores sc cs req
      | Inr (s, rs) \<Rightarrow> \<lparr>bd_node = cand_node c, bd_base = s, bd_soft_bonus = Fin 0, bd_reasons = rs\<rparr>
                       # explain_scores sc cs req)"

section \<open>What the checks decide\<close>

text \<open>The reading of each constraint as a predicate on the candidate, for an arbitrary context.\<close>

lemma check_affinity_None:
  "check_affinity cand c ctx = None \<longleftrightarrow>
     (\<exists>s \<in> set (takeWhile (\<lambda>t. ctx_server_node ctx t \<noteq> None) (c_values c)).
        ctx_server_node ctx s = Some (cand_node cand))"
proof -
  have "check_affinity_loop node vals m xs = None \<longleftrightarrow>
     (\<exists>s \<in> set (takeWhile (\<lambda>t. m t \<noteq> None) xs). m s = Some node)" for node vals m xs
    by (induction xs) (auto split: option.splits)
  then show ?thesis by (simp add: check_affinity_def)
qed

lemma check_anti_affinity_None:
  "check_anti_affinity cand c ctx = None \<longleftrightarrow>
     (\<forall>s \<in> set (c_values c). ctx_server_node ctx s \<noteq> Some (cand_node cand))"
proof -
  have "check_anti_affinity_loop node m xs = None \<longleftrightarrow> (\<forall>s \<in> set xs. m s \<noteq> Some node)" for node m xs
    by (induction xs) (auto split: option.splits)
  then show ?thesis by (simp add: check_anti_affinity_def)
qed

lemma check_hard_None:
  "check_hard cand cs ctx = None \<longleftrightarrow> (\<forall>c \<in> set cs. c_required c \<longrightarrow> check_single cand c ctx = None)"
  by (induction cs) (auto split: option.splits)

lemma check_hard_filter: "check_hard cand cs ctx = check_hard cand (filter c_required cs) ctx"
  by (induction cs) (auto split: option.splits)

lemma first_failure_check_hard:
  "\<forall>c \<in> set cs. c_required c \<Longrightarrow>
     map_option fr_reason (first_failure cand cs) = check_hard cand cs empty_context"
  by (induction cs) (auto split: option.splits)

lemma filter_by_constraints_fst:
  "fst (filter_by_constraints cands cs ctx) = filter (\<lambda>c. check_hard c cs ctx = None) cands"
  by (induction cands) (auto split: prod.splits option.splits)

lemma filter_by_constraints_partition:
  "length (fst (filter_by_constraints cands cs ctx)) + length (snd (filter_by_constraints cands cs ctx))
     = length cands"
  by (induction cands) (auto split: prod.splits option.splits)

lemma explain_filter_snd:
  "snd (explain_filter cands hard) = filter (\<lambda>c. first_failure c hard = None) cands"
  by (induction cands) (auto split: prod.splits option.splits)

lemma explain_filter_partition:
  "length (fst (explain_filter cands hard)) + length (snd (explain_filter cands hard)) = length cands"
  by (induction cands) (auto split: prod.splits option.splits)

lemma explain_filter_viable:
  "snd (explain_filter cands (filter c_required cs)) = fst (filter_by_constraints cands cs empty_context)"
proof -
  have "first_failure c (filter c_required cs) = None \<longleftrightarrow> check_hard c cs empty_context = None" for c
    using first_failure_check_hard [of "filter c_required cs" c] check_hard_filter [of c cs]
    by (metis (no_types, lifting) map_option_is_None mem_Collect_eq set_filter)
  then show ?thesis by (simp add: explain_filter_snd filter_by_constraints_fst)
qed

lemma score_loop_mem:
  "r \<in> set (score_loop sc req cs) \<longleftrightarrow>
     (\<exists>c \<in> set cs. sc c req = Inr (sr_score r, sr_reasons r) \<and> cand_node c = sr_node r)"
  by (induction cs) (auto split: sum.splits)

lemma explain_scores_nodes:
  "map (\<lambda>b. (bd_node b, bd_base b)) (explain_scores sc cs req)
     = map (\<lambda>r. (sr_node r, sr_score r)) (score_loop sc req cs)"
  by (induction cs) (auto split: sum.splits)

section \<open>The scorer interface and the engine above it\<close>

text \<open>What the engine relies on: a score is a number. \<open>wf\<close> is the set of candidates for which
  a scorer promises it.\<close>

locale scorer_contract =
  fixes sc :: scorer and wf :: "candidate \<Rightarrow> bool"
  assumes score_number: "wf c \<Longrightarrow> sc c w = Inr (s, rs) \<Longrightarrow> s \<noteq> NaN"
begin

lemma results_numbers:
  "\<forall>c \<in> set cs. wf c \<Longrightarrow> r \<in> set (score_loop sc req cs) \<Longrightarrow> sr_score r \<noteq> NaN"
  by (auto simp: score_loop_mem dest: score_number)

lemma results_ordered:
  assumes "\<forall>c \<in> set cs. wf c"
  shows "strict_weak_on (set (score_loop sc req cs)) better"
    and "strict_weak_on (set (score_loop sc req cs)) (\<lambda>x y. better y x)"
  unfolding better_def
  using results_numbers [OF assms] by (auto intro!: strict_weak_score strict_weak_score_up)

lemma engine_place_best:
  assumes wf: "\<forall>c \<in> set cands. wf c" and ok: "engine_place sc cands req = Inr best"
  shows "\<exists>c \<in> set cands. check_hard c (w_constraints req) empty_context = None
           \<and> sc c req = Inr (sr_score best, sr_reasons best) \<and> cand_node c = sr_node best"
    and "\<forall>c \<in> set cands. check_hard c (w_constraints req) empty_context = None \<longrightarrow>
           (\<forall>s rs. sc c req = Inr (s, rs) \<longrightarrow> \<not> f_lt (sr_score best) s)"
proof -
  let ?fs = "filter (\<lambda>c. check_hard c (w_constraints req) empty_context = None) cands"
  from ok obtain r rs where l: "score_loop sc req ?fs = r # rs" and b: "best = pick_best better r rs"
    by (auto simp: engine_place_def Let_def filter_by_constraints_fst split: if_splits list.splits)
  have mem: "best \<in> set (score_loop sc req ?fs)"
    using pick_best_mem [of better r rs] l b by simp
  then show "\<exists>c \<in> set cands. check_hard c (w_constraints req) empty_context = None
           \<and> sc c req = Inr (sr_score best, sr_reasons best) \<and> cand_node c = sr_node best"
    by (auto simp: score_loop_mem)
  have sw: "strict_weak_on (insert r (set rs)) (\<lambda>x y. better y x)"
    using results_ordered(2) [of ?fs req] wf l by simp
  show "\<forall>c \<in> set cands. check_hard c (w_constraints req) empty_context = None \<longrightarrow>
           (\<forall>s rs. sc c req = Inr (s, rs) \<longrightarrow> \<not> f_lt (sr_score best) s)"
  proof (intro ballI impI allI)
    fix c s rs' assume c: "c \<in> set cands" "check_hard c (w_constraints req) empty_context = None"
      "sc c req = Inr (s, rs')"
    let ?r = "\<lparr>sr_node = cand_node c, sr_score = s, sr_reasons = rs'\<rparr>"
    have "?r \<in> set (score_loop sc req ?fs)" using c by (auto simp: score_loop_mem)
    then have "\<not> better ?r best" using pick_best_max [OF sw, of ?r] l b by simp
    then show "\<not> f_lt (sr_score best) s" by (simp add: better_def)
  qed
qed

end

locale placement_engine = scorer_contract sc wf + slice_sort srt
  for sc :: scorer and wf :: "candidate \<Rightarrow> bool"
    and srt :: "(score_result \<Rightarrow> score_result \<Rightarrow> bool) \<Rightarrow> score_result list \<Rightarrow> score_result list"
begin

lemma place_all_cases:
  assumes wf: "\<forall>c \<in> set cands. wf c" and ok: "engine_place_all srt sc cands req = Inr rs"
  shows "rs \<noteq> []"
    and "mset rs = mset (score_loop sc req (fst (filter_by_constraints cands (w_constraints req) empty_context)))"
    and "sorted_less better rs"
proof -
  let ?l = "score_loop sc req (fst (filter_by_constraints cands (w_constraints req) empty_context))"
  have sw: "strict_weak_on (set ?l) better"
    using wf by (intro results_ordered(1)) (auto simp: filter_by_constraints_fst)
  from ok have l: "?l \<noteq> []" "rs = srt better ?l"
    by (auto simp: engine_place_all_def Let_def split: if_splits list.splits)
  then show "rs \<noteq> []" using sw by (simp add: srt_Nil_iff)
  show "mset rs = mset ?l" using l(2) sw by (simp add: srt_mset)
  show "sorted_less better rs" using l(2) sw by (simp add: srt_sorted)
qed

text \<open>The ranking and the single choice agree: the head of the ranking scores as much as the
  chosen node.\<close>

lemma place_all_hd:
  assumes wf: "\<forall>c \<in> set cands. wf c"
    and all: "engine_place_all srt sc cands req = Inr rs" and one: "engine_place sc cands req = Inr best"
  shows "\<not> better best (hd rs)" "\<not> better (hd rs) best"
proof -
  let ?l = "score_loop sc req (fst (filter_by_constraints cands (w_constraints req) empty_context))"
  have sw: "strict_weak_on (set ?l) better" "strict_weak_on (set ?l) (\<lambda>x y. better y x)"
    using wf by (auto intro!: results_ordered simp: filter_by_constraints_fst)
  from all one obtain r rs' where l: "?l = r # rs'" and rs: "rs = srt better ?l"
    and b: "best = pick_best better r rs'"
    by (auto simp: engine_place_all_def engine_place_def Let_def split: if_splits list.splits)
  have best: "best \<in> set ?l" using pick_best_mem [of better r rs'] l b by simp
  have "rs \<noteq> []" using rs sw(1) l by (simp add: srt_Nil_iff del: srt_mset)
  then have hd: "hd rs \<in> set ?l" using rs sw(1) srt_set [of ?l better] by (metis hd_in_set)
  show "\<not> better best (hd rs)" using srt_hd_first [OF sw(1) best] rs by simp
  show "\<not> better (hd rs) best" using pick_best_max [of r rs' better "hd rs"] sw(2) hd l b by simp
qed

end

section \<open>The strategies meet the contract\<close>

definition candidate_int64 :: "candidate \<Rightarrow> bool" where
  "candidate_int64 c \<longleftrightarrow> in_int64 (cand_total_cpu c) \<and> in_int64 (cand_total_memory c)
     \<and> in_int64 (cand_total_disk c) \<and> in_int64 (cand_alloc_cpu c) \<and> in_int64 (cand_alloc_memory c)
     \<and> in_int64 (cand_alloc_disk c) \<and> in_int64 (cand_avail_cpu c) \<and> in_int64 (cand_avail_memory c)
     \<and> in_int64 (cand_avail_disk c) \<and> in_int64 (cand_server_count c)"

lemma fbound_int64: "in_int64 n \<Longrightarrow> fbound 63 (f_of_int n)"
  by (intro fbound_of_int in_int64_abs) auto

lemma least_loaded_bound:
  assumes "candidate_int64 c" "least_loaded_score c w = Inr (s, rs)"
  shows "fbound 95 s"
proof -
  have m: "fbound (63 + 30) (f_mul (f_of_int (cand_avail_memory c)) (Fin (10 ^ 9)))"
    using assms by (intro fbound_mul fbound_int64 fbound_Fin) (auto simp: candidate_int64_def)
  have c: "fbound (63 + 10) (f_mul (f_of_int (cand_avail_cpu c)) (Fin (10 ^ 3)))"
    using assms by (intro fbound_mul fbound_int64 fbound_Fin) (auto simp: candidate_int64_def)
  have d: "fbound 63 (f_of_int (cand_avail_disk c))"
    using assms by (intro fbound_int64) (auto simp: candidate_int64_def)
  have mc: "fbound (Suc 93) (f_add (f_mul (f_of_int (cand_avail_memory c)) (Fin (10 ^ 9)))
                       (f_mul (f_of_int (cand_avail_cpu c)) (Fin (10 ^ 3))))"
    using m fbound_mono [OF c, of 93] by (intro fbound_add) simp_all
  have "fbound (Suc 94) s"
    using assms(2) fbound_add [of 94, OF _ fbound_mono [OF d]] mc
    by (auto simp: least_loaded_score_def)
  then show ?thesis by simp
qed

lemma f_of_int_pos: "0 < n \<Longrightarrow> in_int64 n \<Longrightarrow> \<exists>x. f_of_int n = Fin x \<and> 1 \<le> x"
proof -
  assume n: "0 < n" "in_int64 n"
  from fbound_int64 [OF n(2)] obtain x where x: "f_of_int n = Fin x" by (auto simp: fbound_def)
  then have "x = round64 (of_int n)"
    by (auto simp: f_of_int_def to_float64_def Let_def split: if_splits)
  moreover have "of_int 1 \<le> round64 (of_int n)" using n(1) by (intro r64.rnd_ge_int) simp_all
  ultimately show ?thesis using x by simp
qed

lemma utilization_bound: "in_int64 a \<Longrightarrow> in_int64 t \<Longrightarrow> fbound 63 (utilization a t)"
proof (cases "0 < t")
  case True
  assume i: "in_int64 a" "in_int64 t"
  then obtain x where x: "f_of_int t = Fin x" "1 \<le> x" using True f_of_int_pos by blast
  then show ?thesis
    using True i fbound_div [OF fbound_int64 [OF i(1)] x(1)] by (simp add: utilization_def)
qed (simp add: utilization_def fbound_Fin)

lemma bin_pack_bound:
  assumes "candidate_int64 c" "bin_pack_score c w = Inr (s, rs)"
  shows "fbound 65 s"
proof -
  let ?m = "utilization (cand_alloc_memory c) (cand_total_memory c)"
  let ?c = "utilization (cand_alloc_cpu c) (cand_total_cpu c)"
  let ?d = "utilization (cand_alloc_disk c) (cand_total_disk c)"
  have b: "fbound 63 ?m" "fbound 63 ?c" "fbound 63 ?d"
    using assms(1) by (auto intro!: utilization_bound simp: candidate_int64_def)
  have mc: "fbound 64 (f_add ?m ?c)" using fbound_add [OF b(1,2)] by simp
  have "fbound 65 (f_add (f_add ?m ?c) ?d)" using fbound_add [OF mc fbound_mono [OF b(3)]] by simp
  then show ?thesis
    using assms(2) by (auto simp: bin_pack_score_def Let_def intro: fbound_div)
qed

lemma signed_inf_number: "x \<noteq> 0 \<Longrightarrow> signed_inf x \<noteq> NaN"
  by (simp add: signed_inf_def)

lemma spread_number:
  assumes "candidate_int64 c" "spread_score c w = Inr (s, rs)"
  shows "s \<noteq> NaN"
proof -
  have "fbound 63 (f_of_int (cand_server_count c))"
    using assms(1) by (intro fbound_int64) (simp add: candidate_int64_def)
  then have "fbound 64 (f_add (Fin 1) (f_of_int (cand_server_count c)))"
    using fbound_add [of 63 "Fin 1"] by (simp add: fbound_Fin)
  then obtain x where "f_add (Fin 1) (f_of_int (cand_server_count c)) = Fin x" by (auto simp: fbound_def)
  then show ?thesis
    using assms(2) by (auto simp: spread_score_def Let_def f_div_def signed_inf_number split: if_splits)
qed

lemma new_scorer_number:
  assumes "candidate_int64 c" "draw c \<noteq> NaN" "new_scorer draw strategy c w = Inr (s, rs)"
  shows "s \<noteq> NaN"
  using assms
  by (auto simp: new_scorer_def random_score_def split: if_splits
      dest: fbound_not_NaN [OF least_loaded_bound] fbound_not_NaN [OF bin_pack_bound] spread_number)

lemma new_scorer_engine:
  assumes "sorts srt"
  shows "placement_engine (new_scorer draw strategy) (\<lambda>c. candidate_int64 c \<and> draw c \<noteq> NaN) srt"
  unfolding placement_engine_def
proof
  show "scorer_contract (new_scorer draw strategy) (\<lambda>c. candidate_int64 c \<and> draw c \<noteq> NaN)"
    by unfold_locales (auto dest: new_scorer_number)
  show "slice_sort srt" using assms by (simp add: sorts_slice_sort)
qed

interpretation least_loaded: placement_engine least_loaded_score candidate_int64 slice_stable
  by unfold_locales (auto dest: least_loaded_bound fbound_not_NaN)

interpretation bin_pack: placement_engine bin_pack_score candidate_int64 slice_stable
  by unfold_locales (auto dest: bin_pack_bound fbound_not_NaN)

interpretation spread: placement_engine spread_score candidate_int64 slice_stable
  by unfold_locales (auto dest: spread_number)

section \<open>Exact and bounded scores\<close>

text \<open>Sizes of ordinary nodes, for which the least-loaded score needs no rounding.\<close>

definition ordinary_sizes :: "candidate \<Rightarrow> bool" where
  "ordinary_sizes c \<longleftrightarrow> 0 \<le> cand_avail_memory c \<and> cand_avail_memory c < 2 ^ 22 \<and>
     0 \<le> cand_avail_cpu c \<and> 0 \<le> cand_avail_disk c \<and>
     cand_avail_cpu c * 10 ^ 3 + cand_avail_disk c < 10 ^ 9"

lemma least_loaded_exact:
  assumes "ordinary_sizes c"
  shows "least_loaded_score c w =
    Inr (Fin (of_int (cand_avail_memory c * 10 ^ 9 + cand_avail_cpu c * 10 ^ 3 + cand_avail_disk c)),
         [AvailableMemory (cand_avail_memory c), AvailableCPU (cand_avail_cpu c),
          AvailableDisk (cand_avail_disk c)])"
proof -
  let ?m = "cand_avail_memory c" and ?p = "cand_avail_cpu c" and ?d = "cand_avail_disk c"
  have b: "0 \<le> ?m" "?m < 2 ^ 22" "0 \<le> ?p" "0 \<le> ?d" "?p * 10 ^ 3 + ?d < 10 ^ 9"
    using assms by (auto simp: ordinary_sizes_def)
  then have m9: "\<bar>?m * 10 ^ 9\<bar> \<le> 2 ^ 53" and p3: "\<bar>?p * 10 ^ 3\<bar> \<le> 2 ^ 53"
    and s1: "\<bar>?m * 10 ^ 9 + ?p * 10 ^ 3\<bar> \<le> 2 ^ 53" and s2: "\<bar>?m * 10 ^ 9 + ?p * 10 ^ 3 + ?d\<bar> \<le> 2 ^ 53"
    by auto
  have mul: "f_mul (f_of_int ?m) (Fin (10 ^ 9)) = Fin (of_int (?m * 10 ^ 9))"
    "f_mul (f_of_int ?p) (Fin (10 ^ 3)) = Fin (of_int (?p * 10 ^ 3))"
    using b f_mul_exact [OF m9] f_mul_exact [OF p3] f_of_int_exact [of ?m] f_of_int_exact [of ?p] by auto
  have "f_of_int ?d = Fin (of_int ?d)" using b by (intro f_of_int_exact) auto
  then show ?thesis
    unfolding least_loaded_score_def mul f_add_exact [OF s1] using f_add_exact [OF s2] by simp
qed

definition within_totals :: "candidate \<Rightarrow> bool" where
  "within_totals c \<longleftrightarrow> 0 \<le> cand_alloc_cpu c \<and> cand_alloc_cpu c \<le> cand_total_cpu c
     \<and> 0 \<le> cand_alloc_memory c \<and> cand_alloc_memory c \<le> cand_total_memory c
     \<and> 0 \<le> cand_alloc_disk c \<and> cand_alloc_disk c \<le> cand_total_disk c"

lemma round_to_float64: "in_int64 n \<Longrightarrow> f_of_int n = Fin (round64 (of_int n))"
  using fbound_int64 [of n] by (auto simp: fbound_def f_of_int_def to_float64_def Let_def split: if_splits)

lemma utilization_unit:
  assumes "0 \<le> a" "a \<le> t" "in_int64 t"
  shows "\<exists>x. utilization a t = Fin x \<and> 0 \<le> x \<and> x \<le> 1"
proof (cases "0 < t")
  case True
  have a: "in_int64 a" using assms by (auto simp: in_int64_def)
  let ?a = "round64 (of_int a)" and ?t = "round64 (of_int t)"
  have t1: "1 \<le> ?t" using f_of_int_pos [OF True assms(3)] round_to_float64 [OF assms(3)] by auto
  have "0 \<le> ?a" "?a \<le> ?t" using assms by (auto intro: round64_nonneg round64_mono)
  with t1 have q: "0 \<le> ?a / ?t" "?a / ?t \<le> 1" by auto
  then have "\<bar>?a / ?t\<bar> \<le> 2 ^ 53" by simp
  then have "utilization a t = Fin (round64 (?a / ?t))"
    using True t1 by (simp add: utilization_def round_to_float64 a assms(3) f_div_def to_float64_small)
  with r64.rnd_unit [OF q] show ?thesis by blast
qed (auto simp: utilization_def)

section \<open>Properties\<close>

text \<open>C1: for every strategy of \<^verbatim>\<open>NewScorer\<close>, when \<^verbatim>\<open>Engine.Place\<close> returns a node,
  that node is one of the candidates, it passes every required constraint, the returned score is the
  one the strategy gives it, and no other candidate that passes the constraints has a greater
  score.\<close>

theorem place_selects_best:
  assumes "\<forall>c \<in> set cands. candidate_int64 c \<and> draw c \<noteq> NaN"
    and "engine_place (new_scorer draw strategy) cands req = Inr best"
  shows "(\<exists>c \<in> set cands. check_hard c (w_constraints req) empty_context = None
           \<and> new_scorer draw strategy c req = Inr (sr_score best, sr_reasons best)
           \<and> cand_node c = sr_node best)
       \<and> (\<forall>c \<in> set cands. check_hard c (w_constraints req) empty_context = None \<longrightarrow>
           (\<forall>s rs. new_scorer draw strategy c req = Inr (s, rs) \<longrightarrow> \<not> f_lt (sr_score best) s))"
proof -
  have c: "scorer_contract (new_scorer draw strategy) (\<lambda>c. candidate_int64 c \<and> draw c \<noteq> NaN)"
    using new_scorer_engine [OF sorts_slice_stable] by (simp add: placement_engine_def)
  show ?thesis using scorer_contract.engine_place_best [OF c assms] by blast
qed

text \<open>\<^verbatim>\<open>Engine.PlaceAll\<close> returns every candidate that passes the required constraints
  exactly once, in order of decreasing score, whatever order \<^verbatim>\<open>sort.Slice\<close> gives to equal
  scores, and its first entry scores as much as the choice of \<^verbatim>\<open>Engine.Place\<close>.\<close>

theorem place_all_ranks:
  assumes "sorts srt" and "\<forall>c \<in> set cands. candidate_int64 c \<and> draw c \<noteq> NaN"
    and "engine_place_all srt (new_scorer draw strategy) cands req = Inr rs"
    and "engine_place (new_scorer draw strategy) cands req = Inr best"
  shows "mset rs = mset (score_loop (new_scorer draw strategy) req
             (filter (\<lambda>c. check_hard c (w_constraints req) empty_context = None) cands))
       \<and> sorted_wrt (\<lambda>x y. \<not> f_lt (sr_score x) (sr_score y)) rs
       \<and> \<not> f_lt (sr_score (hd rs)) (sr_score best) \<and> \<not> f_lt (sr_score best) (sr_score (hd rs))"
proof -
  note e = new_scorer_engine [OF assms(1), of draw strategy]
  show ?thesis
    using placement_engine.place_all_cases [OF e assms(2,3)] placement_engine.place_all_hd [OF e assms(2,3,4)]
    by (simp add: filter_by_constraints_fst sorted_less_def better_def)
qed


text \<open>the engine never consults the constraint context of the request. Whatever the request
  carries there, a required affinity or label constraint excludes every candidate, and a required
  anti-affinity constraint excludes none.\<close>

theorem engine_ignores_context:
  assumes "k \<in> set (w_constraints req)" "c_required k" "c_type k \<in> {''affinity'', ''label''}"
  shows "engine_place sc cands req = Inl NoCandidatesAfterFiltering
       \<and> (\<forall>cand anti. c_type anti = ''anti-affinity'' \<longrightarrow> check_single cand anti empty_context = None)"
proof -
  have "check_affinity cand k empty_context \<noteq> None" for cand
    unfolding check_affinity_None by (cases "c_values k") (auto simp: empty_context_def)
  then have "check_single cand k empty_context \<noteq> None" for cand
    using assms(3) by (auto simp: check_single_def check_label_def empty_context_def)
  then have none: "check_hard cand (w_constraints req) empty_context \<noteq> None" for cand
    using assms(1,2) by (auto simp: check_hard_None)
  have "check_single cand anti empty_context = None" if "c_type anti = ''anti-affinity''" for cand anti
    using that by (simp add: check_single_def check_anti_affinity_None empty_context_def)
  then show ?thesis
    using none by (auto simp: engine_place_def Let_def filter_by_constraints_fst filter_empty_conv)
qed

text \<open>within the sizes of real nodes (memory below \<open>2 ^ 22\<close> MB, CPU shares and disk
  together below \<open>10 ^ 9\<close> in the weighting of the score) the least-loaded score is computed
  without rounding, and it orders candidates by available memory first, then by CPU and disk.\<close>

theorem least_loaded_memory_first:
  assumes "ordinary_sizes a" "ordinary_sizes b"
    and "least_loaded_score a w = Inr (sa, ra)" "least_loaded_score b w = Inr (sb, rb)"
  shows "f_lt sa sb \<longleftrightarrow> cand_avail_memory a < cand_avail_memory b \<or>
     (cand_avail_memory a = cand_avail_memory b \<and>
      cand_avail_cpu a * 10 ^ 3 + cand_avail_disk a < cand_avail_cpu b * 10 ^ 3 + cand_avail_disk b)"
proof -
  let ?ta = "cand_avail_cpu a * 10 ^ 3 + cand_avail_disk a"
  let ?tb = "cand_avail_cpu b * 10 ^ 3 + cand_avail_disk b"
  have "f_lt sa sb \<longleftrightarrow> (of_int (cand_avail_memory a * 10 ^ 9 + ?ta) :: rat) < of_int (cand_avail_memory b * 10 ^ 9 + ?tb)"
    using assms(3,4) least_loaded_exact [OF assms(1), of w] least_loaded_exact [OF assms(2), of w]
    by (auto simp del: of_int_add of_int_mult simp: add.assoc)
  then have "f_lt sa sb \<longleftrightarrow> cand_avail_memory a * 10 ^ 9 + ?ta < cand_avail_memory b * 10 ^ 9 + ?tb"
    by (simp only: of_int_less_iff)
  moreover have "0 \<le> ?ta" "?ta < 10 ^ 9" "0 \<le> ?tb" "?tb < 10 ^ 9"
    using assms(1,2) by (auto simp: ordinary_sizes_def)
  ultimately show ?thesis by auto
qed

text \<open>the bin-packing score of a node whose allocations do not exceed its totals lies between
  0 and 1, after rounding.\<close>

theorem bin_pack_unit:
  assumes "candidate_int64 c" "within_totals c" "bin_pack_score c w = Inr (s, rs)"
  shows "\<exists>x. s = Fin x \<and> 0 \<le> x \<and> x \<le> 1"
proof -
  obtain m p d where u: "utilization (cand_alloc_memory c) (cand_total_memory c) = Fin m" "0 \<le> m" "m \<le> 1"
    "utilization (cand_alloc_cpu c) (cand_total_cpu c) = Fin p" "0 \<le> p" "p \<le> 1"
    "utilization (cand_alloc_disk c) (cand_total_disk c) = Fin d" "0 \<le> d" "d \<le> 1"
    using assms(1,2) utilization_unit unfolding candidate_int64_def within_totals_def by metis
  let ?mp = "round64 (m + p)" and ?s = "round64 (round64 (m + p) + d)"
  have mp: "0 \<le> ?mp" "?mp \<le> 2" using u r64.rnd_le_int [of "m + p" 2] by (auto intro: round64_nonneg)
  have s: "0 \<le> ?s" "?s \<le> 3" using u mp r64.rnd_le_int [of "?mp + d" 3] by (auto intro: round64_nonneg)
  have "s = to_float64 (?s / 3)"
    using assms(3) u mp by (auto simp: bin_pack_score_def Let_def f_add_def f_div_def to_float64_small)
  moreover have "to_float64 (?s / 3) = Fin (round64 (?s / 3))" using s by (intro to_float64_small) simp
  moreover have "0 \<le> round64 (?s / 3) \<and> round64 (?s / 3) \<le> 1" using s by (intro r64.rnd_unit) auto
  ultimately show ?thesis by blast
qed

section \<open>Witnesses\<close>

definition demo_candidate :: "string \<Rightarrow> int \<Rightarrow> candidate" where
  "demo_candidate n mem =
     \<lparr>cand_node = n, cand_region = ''eu'', cand_total_cpu = 4096, cand_total_memory = 8192,
      cand_total_disk = 20480, cand_alloc_cpu = 1024, cand_alloc_memory = 8192 - mem,
      cand_alloc_disk = 10240, cand_avail_cpu = 3072, cand_avail_memory = mem,
      cand_avail_disk = 10240, cand_server_count = 1, cand_maintenance = False,
      cand_draining = False, cand_status = ''online''\<rparr>"

definition demo_workload :: "constraint list \<Rightarrow> workload" where
  "demo_workload cs =
     \<lparr>w_cpu = 1024, w_memory = 2048, w_disk = 1024, w_preferred = [], w_required = [],
      w_region = ''eu'', w_constraints = cs, w_constraint_ctx = empty_context\<rparr>"

lemma demo_candidate_ok:
  "0 \<le> mem \<Longrightarrow> mem \<le> 8192 \<Longrightarrow> ordinary_sizes (demo_candidate n mem)"
  "0 \<le> mem \<Longrightarrow> mem \<le> 8192 \<Longrightarrow> candidate_int64 (demo_candidate n mem)"
  "0 \<le> mem \<Longrightarrow> mem \<le> 8192 \<Longrightarrow> within_totals (demo_candidate n mem)"
  by (auto simp: ordinary_sizes_def candidate_int64_def in_int64_def within_totals_def demo_candidate_def)

lemma demo_score:
  "0 \<le> mem \<Longrightarrow> mem \<le> 8192 \<Longrightarrow> least_loaded_score (demo_candidate n mem) w =
     Inr (Fin (of_int (mem * 10 ^ 9 + 3082240)), [AvailableMemory mem, AvailableCPU 3072, AvailableDisk 10240])"
  by (simp add: least_loaded_exact demo_candidate_ok) (simp add: demo_candidate_def)

lemma demo_place:
  "engine_place (new_scorer (\<lambda>_. Fin 0) ''least-loaded'')
     [demo_candidate ''a'' 1024, demo_candidate ''b'' 4096] (demo_workload [])
   = Inr \<lparr>sr_node = ''b'', sr_score = Fin 4096003082240,
          sr_reasons = [AvailableMemory 4096, AvailableCPU 3072, AvailableDisk 10240]\<rparr>"
  by (simp add: engine_place_def demo_workload_def new_scorer_def demo_score better_def)
    (simp add: demo_candidate_def)

lemma demo_place_all:
  "engine_place_all slice_stable (new_scorer (\<lambda>_. Fin 0) ''least-loaded'')
     [demo_candidate ''a'' 1024, demo_candidate ''b'' 4096] (demo_workload [])
   = Inr [\<lparr>sr_node = ''b'', sr_score = Fin 4096003082240,
           sr_reasons = [AvailableMemory 4096, AvailableCPU 3072, AvailableDisk 10240]\<rparr>,
          \<lparr>sr_node = ''a'', sr_score = Fin 1024003082240,
           sr_reasons = [AvailableMemory 1024, AvailableCPU 3072, AvailableDisk 10240]\<rparr>]"
  by (simp add: engine_place_all_def demo_workload_def new_scorer_def demo_score better_def)
    (simp add: demo_candidate_def)

text \<open>Witness of C1: two nodes, the one with more free memory is chosen.\<close>

theorem place_selects_best_witness:
  "\<not> f_lt (Fin 4096003082240) (Fin (of_int (1024 * 10 ^ 9 + 3082240)))
   \<and> (\<exists>c \<in> {demo_candidate ''a'' 1024, demo_candidate ''b'' 4096}. cand_node c = ''b'')"
proof -
  let ?cs = "[demo_candidate ''a'' 1024, demo_candidate ''b'' 4096]"
  have wf: "\<forall>c \<in> set ?cs. candidate_int64 c \<and> Fin 0 \<noteq> NaN" by (simp add: demo_candidate_ok)
  have s: "new_scorer (\<lambda>_. Fin 0) ''least-loaded'' (demo_candidate ''a'' 1024) (demo_workload [])
      = Inr (Fin (of_int (1024 * 10 ^ 9 + 3082240)), [AvailableMemory 1024, AvailableCPU 3072, AvailableDisk 10240])"
    by (simp add: new_scorer_def demo_score)
  have ch: "check_hard (demo_candidate ''a'' 1024) (w_constraints (demo_workload [])) empty_context = None"
    by (simp add: demo_workload_def)
  show ?thesis
    using place_selects_best [OF wf demo_place] s ch by auto
qed

text \<open>An instance.\<close>

theorem place_all_ranks_witness:
  "sorted_wrt (\<lambda>x y. \<not> f_lt (sr_score x) (sr_score y))
     [\<lparr>sr_node = ''b'', sr_score = Fin 4096003082240,
           sr_reasons = [AvailableMemory 4096, AvailableCPU 3072, AvailableDisk 10240]\<rparr>,
          \<lparr>sr_node = ''a'', sr_score = Fin 1024003082240,
           sr_reasons = [AvailableMemory 1024, AvailableCPU 3072, AvailableDisk 10240]\<rparr>]"
proof -
  let ?cs = "[demo_candidate ''a'' 1024, demo_candidate ''b'' 4096]"
  have wf: "\<forall>c \<in> set ?cs. candidate_int64 c \<and> Fin 0 \<noteq> NaN" by (simp add: demo_candidate_ok)
  show ?thesis using place_all_ranks [OF sorts_slice_stable wf demo_place_all demo_place] by blast
qed

text \<open>An instance: a required label that the node does carry.\<close>

theorem engine_ignores_context_witness:
  "engine_place least_loaded_score [demo_candidate ''a'' 1024]
     (demo_workload [\<lparr>c_type = ''label'', c_operator = ''exists'', c_key = ''ssd'', c_values = [], c_required = True\<rparr>]
        \<lparr>w_constraint_ctx := \<lparr>ctx_server_node = Map.empty, ctx_node_labels = [''a'' \<mapsto> [''ssd'' \<mapsto> ''yes'']]\<rparr>\<rparr>)
   = Inl NoCandidatesAfterFiltering"
  by (rule engine_ignores_context [THEN conjunct1, of
        "\<lparr>c_type = ''label'', c_operator = ''exists'', c_key = ''ssd'', c_values = [], c_required = True\<rparr>"])
    (simp_all add: demo_workload_def)

text \<open>An instance.\<close>

theorem least_loaded_memory_first_witness:
  "f_lt (Fin (of_int (1024 * 10 ^ 9 + 3082240))) (Fin (of_int (4096 * 10 ^ 9 + 3082240)))"
proof -
  have o: "ordinary_sizes (demo_candidate ''a'' 1024)" "ordinary_sizes (demo_candidate ''b'' 4096)"
    by (simp_all add: demo_candidate_ok)
  have s: "least_loaded_score (demo_candidate ''a'' 1024) (demo_workload []) =
      Inr (Fin (of_int (1024 * 10 ^ 9 + 3082240)), [AvailableMemory 1024, AvailableCPU 3072, AvailableDisk 10240])"
    "least_loaded_score (demo_candidate ''b'' 4096) (demo_workload []) =
      Inr (Fin (of_int (4096 * 10 ^ 9 + 3082240)), [AvailableMemory 4096, AvailableCPU 3072, AvailableDisk 10240])"
    using demo_score [of 1024 "''a''" "demo_workload []"] demo_score [of 4096 "''b''" "demo_workload []"]
    by simp_all
  show ?thesis using least_loaded_memory_first [OF o s] by (simp add: demo_candidate_def)
qed

text \<open>An instance.\<close>

theorem bin_pack_unit_witness:
  "\<exists>s rs x. bin_pack_score (demo_candidate ''a'' 1024) (demo_workload []) = Inr (s, rs)
     \<and> s = Fin x \<and> 0 \<le> x \<and> x \<le> 1"
proof -
  obtain s rs where s: "bin_pack_score (demo_candidate ''a'' 1024) (demo_workload []) = Inr (s, rs)"
    by (auto simp: bin_pack_score_def Let_def)
  have "\<exists>x. s = Fin x \<and> 0 \<le> x \<and> x \<le> 1"
    by (rule bin_pack_unit [OF _ _ s]) (simp_all add: demo_candidate_ok)
  with s show ?thesis by blast
qed

end
