(* ===== verification/Reservation_Store.thy ===== *)
theory Reservation_Store
  imports Go_Strings
begin

text \<open>
  The capacity bookkeeping of \<^verbatim>\<open>forge/api/internal/store\<close>: the snapshot of a node's capacity
  (\<^verbatim>\<open>store_capacity.go\<close>) and the placement reservations that hold capacity while a placement,
  migration, evacuation or recovery is under way (\<^verbatim>\<open>store_reservations.go\<close>).

  The tables are lists of rows. Each function is the effect of its SQL statements, with the checks
  PostgreSQL makes on them (keys, enumeration values, 32-bit columns). The argument \<open>fault\<close> says
  which statements fail for reasons outside the program; a failed transaction is rolled back.
  \<^verbatim>\<open>now()\<close> and the fresh UUID are arguments. Timestamp columns hold microseconds; instants are
  taken as whole microseconds where they cross the database. \<^verbatim>\<open>ReservedBy\<close> has no field: the
  store neither writes nor reads it.
\<close>

section \<open>Tables\<close>

record node_row =
  nr_id :: string
  nr_region :: "string option"
  nr_cpu_threads :: "int option"
  nr_node_memory :: "int option"
  nr_memory :: "int option"
  nr_node_disk :: "int option"
  nr_disk :: "int option"

record server_row =
  srv_id :: string
  srv_node :: string
  srv_status :: string
  srv_cpu :: int
  srv_memory :: int
  srv_disk :: int

record reservation =
  res_id :: string
  res_server :: "string option"
  res_node :: string
  res_migration :: "string option"
  res_type :: string
  res_status :: string
  res_cpu :: int
  res_memory :: int
  res_disk :: int
  res_expires :: gotime
  res_confirmed :: "gotime option"
  res_cancelled :: "gotime option"
  res_expired :: "gotime option"
  res_created :: gotime
  res_updated :: gotime

record capacity_db =
  db_nodes :: "node_row list"
  db_servers :: "server_row list"
  db_migrations :: "string list"
  db_reservations :: "reservation list"

record snapshot =
  snap_node :: string
  snap_region :: string
  snap_total_cpu :: int
  snap_total_memory :: int
  snap_total_disk :: int
  snap_alloc_cpu :: int
  snap_alloc_memory :: int
  snap_alloc_disk :: int
  snap_avail_cpu :: int
  snap_avail_memory :: int
  snap_avail_disk :: int
  snap_server_count :: int
  snap_updated :: gotime

record reservation_request =
  rq_server :: string
  rq_node :: string
  rq_migration :: string
  rq_type :: string
  rq_status :: string
  rq_cpu :: int
  rq_memory :: int
  rq_disk :: int
  rq_expires :: gotime

datatype res_error =
    NodeIdRequired
  | NodeNotFound
  | ServerHasReservation
  | MigrationHasReservation
  | CpuExceeded
  | MemoryExceeded
  | DiskExceeded
  | ReservationTerminal
  | NoRows
  | DbFailure string

section \<open>Capacity\<close>

definition in_int32 :: "int \<Rightarrow> bool" where
  "in_int32 n \<longleftrightarrow> - (2 ^ 31) \<le> n \<and> n < 2 ^ 31"

text \<open>The cast \<^verbatim>\<open>::int\<close> of a \<^verbatim>\<open>bigint\<close> sum.\<close>

definition pg_int :: "int \<Rightarrow> res_error + int" where
  "pg_int n = (if in_int32 n then Inr n else Inl (DbFailure ''integer out of range''))"

text \<open>\<^verbatim>\<open>COALESCE(NULLIF(a, 0), b, 0)\<close>.\<close>

definition coalesce_nullif :: "int option \<Rightarrow> int option \<Rightarrow> int" where
  "coalesce_nullif a b =
     (case a of Some x \<Rightarrow> if x \<noteq> 0 then x else (case b of Some y \<Rightarrow> y | None \<Rightarrow> 0)
      | None \<Rightarrow> (case b of Some y \<Rightarrow> y | None \<Rightarrow> 0))"

definition available_resource :: "int \<Rightarrow> int \<Rightarrow> int" where
  "available_resource tot alloc =
     (if tot \<le> 0 then 0 else let available = tot - alloc in if available < 0 then 0 else available)"

definition open_status :: "string \<Rightarrow> bool" where
  "open_status s \<longleftrightarrow> s \<in> {''pending'', ''active''}"

definition reservation_live :: "gotime \<Rightarrow> reservation \<Rightarrow> bool" where
  "reservation_live now r \<longleftrightarrow> open_status (res_status r) \<and> now < res_expires r"

definition node_servers :: "capacity_db \<Rightarrow> string \<Rightarrow> server_row list" where
  "node_servers db n = filter (\<lambda>s. srv_node s = n \<and> srv_status s \<noteq> ''deleted'') (db_servers db)"

definition node_live :: "capacity_db \<Rightarrow> gotime \<Rightarrow> string \<Rightarrow> reservation list" where
  "node_live db now n = filter (\<lambda>r. res_node r = n \<and> reservation_live now r) (db_reservations db)"

definition sum_by :: "('a \<Rightarrow> int) \<Rightarrow> 'a list \<Rightarrow> int" where
  "sum_by f xs = sum_list (map f xs)"

definition active_reserved_capacity ::
  "capacity_db \<Rightarrow> gotime \<Rightarrow> string \<Rightarrow> res_error + (int \<times> int \<times> int)" where
  "active_reserved_capacity db now n =
     (let rs = node_live db now n in
      and_then (pg_int (sum_by res_cpu rs)) (\<lambda>c.
      and_then (pg_int (sum_by res_memory rs)) (\<lambda>m.
      and_then (pg_int (sum_by res_disk rs)) (\<lambda>d. Inr (c, m, d)))))"

definition find_node :: "capacity_db \<Rightarrow> string \<Rightarrow> node_row option" where
  "find_node db n = find (\<lambda>r. nr_id r = n) (db_nodes db)"

definition node_total_cpu :: "node_row \<Rightarrow> int" where
  "node_total_cpu r = (case nr_cpu_threads r of None \<Rightarrow> 0 | Some t \<Rightarrow> t) * 1024"

definition node_total_memory :: "node_row \<Rightarrow> int" where
  "node_total_memory r = coalesce_nullif (nr_node_memory r) (nr_memory r)"

definition node_total_disk :: "node_row \<Rightarrow> int" where
  "node_total_disk r = coalesce_nullif (nr_node_disk r) (nr_disk r)"

definition node_capacity_snapshot :: "capacity_db \<Rightarrow> gotime \<Rightarrow> string \<Rightarrow> res_error + snapshot" where
  "node_capacity_snapshot db now n =
     (case find_node db n of
        None \<Rightarrow> Inl NoRows
      | Some row \<Rightarrow>
          let ss = node_servers db n in
          and_then (pg_int (sum_by srv_cpu ss)) (\<lambda>ac.
          and_then (pg_int (sum_by srv_memory ss)) (\<lambda>am.
          and_then (pg_int (sum_by srv_disk ss)) (\<lambda>ad.
          and_then (pg_int (int (length ss))) (\<lambda>cnt.
          and_then (active_reserved_capacity db now n) (\<lambda>(rc, rm, rd).
            Inr \<lparr>snap_node = n,
                 snap_region = (case nr_region row of None \<Rightarrow> [] | Some r \<Rightarrow> r),
                 snap_total_cpu = node_total_cpu row,
                 snap_total_memory = node_total_memory row,
                 snap_total_disk = node_total_disk row,
                 snap_alloc_cpu = ac, snap_alloc_memory = am, snap_alloc_disk = ad,
                 snap_avail_cpu = available_resource (node_total_cpu row) (ac + rc),
                 snap_avail_memory = available_resource (node_total_memory row) (am + rm),
                 snap_avail_disk = available_resource (node_total_disk row) (ad + rd),
                 snap_server_count = cnt,
                 snap_updated = now\<rparr>))))))"

section \<open>Reservations\<close>

definition reservation_types :: "string list" where
  "reservation_types = [''placement'', ''migration'', ''recovery'', ''evacuation'']"

definition reservation_statuses :: "string list" where
  "reservation_statuses = [''pending'', ''active'', ''completed'', ''expired'', ''cancelled'']"

text \<open>The statement that expires stale rows, used by creation and by the periodic sweep.\<close>

definition expire_row :: "gotime \<Rightarrow> reservation \<Rightarrow> reservation" where
  "expire_row now r =
     (if open_status (res_status r) \<and> res_expires r \<le> now
      then r\<lparr>res_status := ''expired'', res_expired := Some now, res_updated := now\<rparr> else r)"

definition expire_stale :: "gotime \<Rightarrow> capacity_db \<Rightarrow> capacity_db" where
  "expire_stale now db = db\<lparr>db_reservations := map (expire_row now) (db_reservations db)\<rparr>"

definition get_reservation :: "capacity_db \<Rightarrow> string \<Rightarrow> res_error + reservation" where
  "get_reservation db i =
     (case find (\<lambda>r. res_id r = i) (db_reservations db) of None \<Rightarrow> Inl NoRows | Some r \<Rightarrow> Inr r)"

text \<open>The statements of the creating transaction, in order.\<close>

datatype create_stage =
  StBegin | StExpire | StNodeLock | StServerCheck | StMigrationCheck | StSnapshot | StInsert | StCommit | StReload

definition stage :: "(create_stage \<Rightarrow> bool) \<Rightarrow> create_stage \<Rightarrow> res_error + unit" where
  "stage fault st = guard (\<not> fault st) (DbFailure ''database unavailable'')"

text \<open>The defaults; \<open>clk\<close> is the reading of the API server's own clock.\<close>

definition default_request :: "gotime \<Rightarrow> reservation_request \<Rightarrow> reservation_request" where
  "default_request clk rq =
     rq\<lparr>rq_type := (if rq_type rq = [] then ''placement'' else rq_type rq),
        rq_status := (if rq_status rq = [] then ''active'' else rq_status rq),
        rq_expires := (if time_is_zero (rq_expires rq) then clk + 10 * minute else rq_expires rq)\<rparr>"

text \<open>The reads of the transaction: everything it checks before it writes the row.\<close>

definition create_checks ::
  "(create_stage \<Rightarrow> bool) \<Rightarrow> capacity_db \<Rightarrow> gotime \<Rightarrow> reservation_request \<Rightarrow> res_error + unit" where
  "create_checks fault db now rq =
     and_then (guard (\<not> fault StNodeLock \<and> find_node db (rq_node rq) \<noteq> None) NodeNotFound) (\<lambda>_.
     and_then (if rq_server rq = [] then Inr () else
         and_then (stage fault StServerCheck) (\<lambda>_.
           guard (\<not> (\<exists>r \<in> set (db_reservations db). res_server r = Some (rq_server rq) \<and> reservation_live now r))
             ServerHasReservation)) (\<lambda>_.
     and_then (if rq_migration rq = [] then Inr () else
         and_then (stage fault StMigrationCheck) (\<lambda>_.
           guard (\<not> (\<exists>r \<in> set (db_reservations db). res_migration r = Some (rq_migration rq) \<and> reservation_live now r))
             MigrationHasReservation)) (\<lambda>_.
     and_then (stage fault StSnapshot) (\<lambda>_.
     and_then (node_capacity_snapshot db now (rq_node rq)) (\<lambda>cap.
     and_then (guard (\<not> (0 < rq_cpu rq \<and> snap_avail_cpu cap < rq_cpu rq)) CpuExceeded) (\<lambda>_.
     and_then (guard (\<not> (0 < rq_memory rq \<and> snap_avail_memory cap < rq_memory rq)) MemoryExceeded) (\<lambda>_.
       guard (\<not> (0 < rq_disk rq \<and> snap_avail_disk cap < rq_disk rq)) DiskExceeded)))))))"

definition new_reservation :: "gotime \<Rightarrow> string \<Rightarrow> reservation_request \<Rightarrow> reservation" where
  "new_reservation now i rq =
     \<lparr>res_id = i,
      res_server = (if rq_server rq = [] then None else Some (rq_server rq)),
      res_node = rq_node rq,
      res_migration = (if rq_migration rq = [] then None else Some (rq_migration rq)),
      res_type = rq_type rq, res_status = rq_status rq,
      res_cpu = rq_cpu rq, res_memory = rq_memory rq, res_disk = rq_disk rq,
      res_expires = rq_expires rq, res_confirmed = None, res_cancelled = None, res_expired = None,
      res_created = now, res_updated = now\<rparr>"

text \<open>The \<^verbatim>\<open>INSERT\<close>, with the constraints of the table.\<close>

definition insert_reservation :: "capacity_db \<Rightarrow> reservation \<Rightarrow> res_error + capacity_db" where
  "insert_reservation db r =
     (if (\<exists>q \<in> set (db_reservations db). res_id q = res_id r) then Inl (DbFailure ''duplicate key'')
      else if find_node db (res_node r) = None then Inl (DbFailure ''foreign key'')
      else if (case res_server r of None \<Rightarrow> False | Some s \<Rightarrow> s \<notin> set (map srv_id (db_servers db)))
        then Inl (DbFailure ''foreign key'')
      else if (case res_migration r of None \<Rightarrow> False | Some m \<Rightarrow> m \<notin> set (db_migrations db))
        then Inl (DbFailure ''foreign key'')
      else if res_type r \<notin> set reservation_types \<or> res_status r \<notin> set reservation_statuses
        then Inl (DbFailure ''invalid enum value'')
      else if \<not> (in_int32 (res_cpu r) \<and> in_int32 (res_memory r) \<and> in_int32 (res_disk r))
        then Inl (DbFailure ''integer out of range'')
      else Inr (db\<lparr>db_reservations := db_reservations db @ [r]\<rparr>))"

definition create_reservation ::
  "(create_stage \<Rightarrow> bool) \<Rightarrow> capacity_db \<Rightarrow> gotime \<Rightarrow> gotime \<Rightarrow> string \<Rightarrow> reservation_request
     \<Rightarrow> (res_error + reservation) \<times> capacity_db" where
  "create_reservation fault db clk now i rq0 =
     (if rq_node rq0 = [] then (Inl NodeIdRequired, db)
      else let rq = default_request clk rq0; db1 = expire_stale now db in
        (case and_then (stage fault StBegin) (\<lambda>_.
              and_then (stage fault StExpire) (\<lambda>_.
              and_then (create_checks fault db1 now rq) (\<lambda>_.
              and_then (stage fault StInsert) (\<lambda>_.
              and_then (insert_reservation db1 (new_reservation now i rq)) (\<lambda>db2.
              and_then (stage fault StCommit) (\<lambda>_. Inr db2)))))) of
           Inl e \<Rightarrow> (Inl e, db)
         | Inr db2 \<Rightarrow> (and_then (stage fault StReload) (\<lambda>_. get_reservation db2 i), db2)))"

text \<open>\<^verbatim>\<open>UpdatePlacementReservationStatus\<close>: only rows that are still open change.\<close>

definition set_status_row :: "gotime \<Rightarrow> string \<Rightarrow> reservation \<Rightarrow> reservation" where
  "set_status_row now st r =
     r\<lparr>res_status := st, res_updated := now,
       res_confirmed := (if st = ''completed'' then Some now else res_confirmed r),
       res_cancelled := (if st = ''cancelled'' then Some now else res_cancelled r),
       res_expired := (if st = ''expired'' then Some now else res_expired r)\<rparr>"

datatype update_fault = NoFault | UpdateFault | ReloadFault

definition update_status ::
  "update_fault \<Rightarrow> capacity_db \<Rightarrow> gotime \<Rightarrow> string \<Rightarrow> string \<Rightarrow> (res_error + reservation) \<times> capacity_db" where
  "update_status fault db now i st =
     (if fault = UpdateFault then (Inl (DbFailure ''database unavailable''), db)
      else if st \<notin> set reservation_statuses then (Inl (DbFailure ''invalid enum value''), db)
      else let hit = (\<lambda>r. res_id r = i \<and> open_status (res_status r));
               db' = db\<lparr>db_reservations :=
                 map (\<lambda>r. if hit r then set_status_row now st r else r) (db_reservations db)\<rparr>
        in if \<not> (\<exists>r \<in> set (db_reservations db). hit r) then (Inl ReservationTerminal, db)
           else if fault = ReloadFault then (Inl (DbFailure ''database unavailable''), db')
           else (get_reservation db' i, db'))"

text \<open>\<^verbatim>\<open>ExpirePlacementReservations\<close>: the expired rows, re-read one by one. The update is
  its own transaction, so it stands even when a later read fails.\<close>

definition expire_reservations ::
  "update_fault \<Rightarrow> capacity_db \<Rightarrow> gotime \<Rightarrow> (res_error + reservation list) \<times> capacity_db" where
  "expire_reservations fault db now =
     (let stale = filter (\<lambda>r. open_status (res_status r) \<and> res_expires r \<le> now) (db_reservations db) in
      if fault = UpdateFault then (Inl (DbFailure ''database unavailable''), db)
      else if fault = ReloadFault \<and> stale \<noteq> [] then (Inl (DbFailure ''database unavailable''), expire_stale now db)
      else (Inr (map (expire_row now) stale), expire_stale now db))"

definition update_for_migration ::
  "update_fault \<Rightarrow> capacity_db \<Rightarrow> gotime \<Rightarrow> string \<Rightarrow> string \<Rightarrow> (res_error + reservation list) \<times> capacity_db" where
  "update_for_migration fault db now m st =
     (if fault = UpdateFault then (Inl (DbFailure ''database unavailable''), db)
      else if st \<notin> set reservation_statuses then (Inl (DbFailure ''invalid enum value''), db)
      else let hit = (\<lambda>r. res_migration r = Some m \<and> open_status (res_status r));
               hits = filter hit (db_reservations db);
               db' = db\<lparr>db_reservations :=
                 map (\<lambda>r. if hit r then set_status_row now st r else r) (db_reservations db)\<rparr>
        in if fault = ReloadFault \<and> hits \<noteq> [] then (Inl (DbFailure ''database unavailable''), db')
           else (Inr (map (set_status_row now st) hits), db'))"

text \<open>\<^verbatim>\<open>ListPlacementReservations\<close>: newest first, ties by identifier.\<close>

definition list_reservations :: "(string \<Rightarrow> string \<Rightarrow> bool) \<Rightarrow> capacity_db \<Rightarrow> reservation list" where
  "list_reservations id_lt db =
     slice_stable (\<lambda>a b. res_created b < res_created a \<or>
                          (res_created a = res_created b \<and> id_lt (res_id a) (res_id b)))
       (db_reservations db)"

definition reservations_total :: "capacity_db \<Rightarrow> int" where
  "reservations_total db = int (length (db_reservations db))"

section \<open>Facts about the operations\<close>

lemma sum_by_Nil [simp]: "sum_by f [] = 0"
  by (simp add: sum_by_def)

lemma sum_by_Cons [simp]: "sum_by f (x # xs) = f x + sum_by f xs"
  by (simp add: sum_by_def)

lemma sum_by_append [simp]: "sum_by f (xs @ ys) = sum_by f xs + sum_by f ys"
  by (simp add: sum_by_def)

lemma sum_by_filter_mono:
  "(\<And>x. x \<in> set xs \<Longrightarrow> 0 \<le> f x) \<Longrightarrow> (\<And>x. x \<in> set xs \<Longrightarrow> p x \<Longrightarrow> q x) \<Longrightarrow>
     sum_by f (filter p xs) \<le> sum_by f (filter q xs)"
  by (induction xs) fastforce+

lemma pg_int_Inr [simp]: "pg_int n = Inr m \<longleftrightarrow> in_int32 n \<and> m = n"
  by (auto simp: pg_int_def)

text \<open>Capacity of a node that is spoken for, by servers and by live reservations.\<close>

definition committed ::
  "(server_row \<Rightarrow> int) \<Rightarrow> (reservation \<Rightarrow> int) \<Rightarrow> capacity_db \<Rightarrow> gotime \<Rightarrow> string \<Rightarrow> int" where
  "committed fs fr db now n = sum_by fs (node_servers db n) + sum_by fr (node_live db now n)"

lemma snapshot_Inr:
  assumes "node_capacity_snapshot db now n = Inr cap"
  shows "\<exists>row. find_node db n = Some row
     \<and> snap_avail_cpu cap = available_resource (node_total_cpu row) (committed srv_cpu res_cpu db now n)
     \<and> snap_avail_memory cap = available_resource (node_total_memory row) (committed srv_memory res_memory db now n)
     \<and> snap_avail_disk cap = available_resource (node_total_disk row) (committed srv_disk res_disk db now n)
     \<and> snap_total_cpu cap = node_total_cpu row \<and> snap_total_memory cap = node_total_memory row
     \<and> snap_total_disk cap = node_total_disk row"
  using assms
  by (auto simp: node_capacity_snapshot_def active_reserved_capacity_def Let_def and_then_eq_Inr
      committed_def split: option.splits)

lemma available_enough:
  "0 < want \<Longrightarrow> \<not> available_resource tot used < want \<Longrightarrow> used + want \<le> tot"
  by (auto simp: available_resource_def Let_def split: if_splits)

lemma expire_row_simps [simp]:
  "res_id (expire_row now r) = res_id r" "res_server (expire_row now r) = res_server r"
  "res_node (expire_row now r) = res_node r" "res_migration (expire_row now r) = res_migration r"
  "res_cpu (expire_row now r) = res_cpu r" "res_memory (expire_row now r) = res_memory r"
  "res_disk (expire_row now r) = res_disk r" "res_expires (expire_row now r) = res_expires r"
  by (simp_all add: expire_row_def)

lemma expire_row_live [simp]: "reservation_live now (expire_row now r) = reservation_live now r"
  by (auto simp: reservation_live_def expire_row_def)

lemma expire_row_closed [simp]: "\<not> open_status (res_status r) \<Longrightarrow> expire_row now r = r"
  by (simp add: expire_row_def)

lemma set_status_row_simps [simp]:
  "res_id (set_status_row now st r) = res_id r" "res_server (set_status_row now st r) = res_server r"
  "res_node (set_status_row now st r) = res_node r" "res_migration (set_status_row now st r) = res_migration r"
  "res_cpu (set_status_row now st r) = res_cpu r" "res_memory (set_status_row now st r) = res_memory r"
  "res_disk (set_status_row now st r) = res_disk r" "res_expires (set_status_row now st r) = res_expires r"
  "res_status (set_status_row now st r) = st"
  by (simp_all add: set_status_row_def)

lemma expire_stale_tables [simp]:
  "db_nodes (expire_stale now db) = db_nodes db" "db_servers (expire_stale now db) = db_servers db"
  "find_node (expire_stale now db) n = find_node db n"
  "node_servers (expire_stale now db) n = node_servers db n"
  by (simp_all add: expire_stale_def find_node_def node_servers_def)

text \<open>A change of rows that keeps node and amounts and never revives a row cannot increase what
  is committed.\<close>

definition weakens :: "gotime \<Rightarrow> (reservation \<Rightarrow> reservation) \<Rightarrow> bool" where
  "weakens now f \<longleftrightarrow> (\<forall>r. res_node (f r) = res_node r \<and> res_cpu (f r) = res_cpu r \<and>
     res_memory (f r) = res_memory r \<and> res_disk (f r) = res_disk r \<and>
     res_id (f r) = res_id r \<and> res_server (f r) = res_server r \<and>
     (reservation_live now (f r) \<longrightarrow> reservation_live now r) \<and>
     (\<not> open_status (res_status r) \<longrightarrow> f r = r))"

lemma weakens_expire: "weakens now (expire_row now)"
  by (simp add: weakens_def)

lemma weakens_set_status:
  "(\<And>r. hit r \<Longrightarrow> open_status (res_status r)) \<Longrightarrow>
     weakens now (\<lambda>r. if hit r then set_status_row now' st r else r)"
  by (auto simp: weakens_def reservation_live_def)

lemma live_map_weakens:
  assumes w: "weakens now f" and nn: "\<And>r. r \<in> set rs \<Longrightarrow> 0 \<le> g r" and g: "\<And>r. g (f r) = g r"
  shows "sum_by g (filter (\<lambda>r. res_node r = n \<and> reservation_live now r) (map f rs))
       \<le> sum_by g (filter (\<lambda>r. res_node r = n \<and> reservation_live now r) rs)"
  using nn
proof (induction rs)
  case Nil
  then show ?case by simp
next
  case (Cons r rs)
  have f: "res_node (f r) = res_node r" "reservation_live now (f r) \<Longrightarrow> reservation_live now r"
    using w unfolding weakens_def by blast+
  have IH: "sum_by g (filter (\<lambda>r. res_node r = n \<and> reservation_live now r) (map f rs))
       \<le> sum_by g (filter (\<lambda>r. res_node r = n \<and> reservation_live now r) rs)"
    by (rule Cons.IH) (simp add: Cons.prems)
  have "0 \<le> g r" by (simp add: Cons.prems)
  moreover have "g (f r) = g r" by (rule g)
  ultimately show ?case using f IH by auto
qed

section \<open>Invariants\<close>

definition amounts_ok :: "capacity_db \<Rightarrow> bool" where
  "amounts_ok db \<longleftrightarrow> (\<forall>r \<in> set (db_reservations db). 0 \<le> res_cpu r \<and> 0 \<le> res_memory r \<and> 0 \<le> res_disk r)"

definition fits :: "capacity_db \<Rightarrow> gotime \<Rightarrow> node_row \<Rightarrow> bool" where
  "fits db now row \<longleftrightarrow>
     committed srv_cpu res_cpu db now (nr_id row) \<le> node_total_cpu row \<and>
     committed srv_memory res_memory db now (nr_id row) \<le> node_total_memory row \<and>
     committed srv_disk res_disk db now (nr_id row) \<le> node_total_disk row"

definition within_capacity :: "capacity_db \<Rightarrow> gotime \<Rightarrow> bool" where
  "within_capacity db now \<longleftrightarrow>
     (\<forall>row \<in> set (db_nodes db). find_node db (nr_id row) = Some row \<longrightarrow> fits db now row)"

definition live_servers :: "capacity_db \<Rightarrow> gotime \<Rightarrow> string list" where
  "live_servers db now =
     map (the \<circ> res_server) (filter (\<lambda>r. res_server r \<noteq> None \<and> reservation_live now r) (db_reservations db))"

definition one_per_server :: "capacity_db \<Rightarrow> gotime \<Rightarrow> bool" where
  "one_per_server db now \<longleftrightarrow> distinct (live_servers db now)"

definition reservation_inv :: "capacity_db \<Rightarrow> gotime \<Rightarrow> bool" where
  "reservation_inv db now \<longleftrightarrow>
     distinct (map res_id (db_reservations db)) \<and> amounts_ok db \<and> within_capacity db now \<and> one_per_server db now"

lemma committed_mono:
  assumes "sum_by fr (node_live db' now' n) \<le> sum_by fr (node_live db now n)" "db_servers db' = db_servers db"
  shows "committed fs fr db' now' n \<le> committed fs fr db now n"
  using assms by (simp add: committed_def node_servers_def)

lemma within_capacity_mono:
  assumes "within_capacity db now" "db_nodes db' = db_nodes db" "db_servers db' = db_servers db"
    and "\<And>fr n. fr \<in> {res_cpu, res_memory, res_disk} \<Longrightarrow>
           sum_by fr (node_live db' now' n) \<le> sum_by fr (node_live db now n)"
  shows "within_capacity db' now'"
  unfolding within_capacity_def
proof (intro ballI impI)
  fix row assume row: "row \<in> set (db_nodes db')" "find_node db' (nr_id row) = Some row"
  then have "fits db now row"
    using assms(1,2) by (simp add: within_capacity_def find_node_def)
  moreover have "committed fs fr db' now' (nr_id row) \<le> committed fs fr db now (nr_id row)"
    if "fr \<in> {res_cpu, res_memory, res_disk}" for fs fr
    using assms(4) [OF that] assms(3) by (rule committed_mono)
  ultimately show "fits db' now' row"
    unfolding fits_def by (meson insertI1 insertI2 order_trans)
qed

lemma inv_map_weakens:
  assumes w: "weakens now f" and inv: "reservation_inv db now"
  shows "reservation_inv (db\<lparr>db_reservations := map f (db_reservations db)\<rparr>) now"
proof -
  let ?db = "db\<lparr>db_reservations := map f (db_reservations db)\<rparr>"
  have f: "res_id (f r) = res_id r" "res_cpu (f r) = res_cpu r" "res_memory (f r) = res_memory r"
    "res_disk (f r) = res_disk r" "res_server (f r) = res_server r"
    "reservation_live now (f r) \<Longrightarrow> reservation_live now r" for r
    using w unfolding weakens_def by blast+
  have fid: "res_id \<circ> f = res_id" by (rule ext) (simp add: f)
  have ids: "distinct (map (res_id \<circ> f) (db_reservations db))"
    unfolding fid using inv by (simp add: reservation_inv_def)
  have am: "amounts_ok db" using inv by (simp add: reservation_inv_def)
  have nn: "0 \<le> fr r" if "fr \<in> {res_cpu, res_memory, res_disk}" "r \<in> set (db_reservations db)"
    for fr :: "reservation \<Rightarrow> int" and r
    using am that by (auto simp: amounts_ok_def)
  have "within_capacity ?db now"
  proof (rule within_capacity_mono [of db now])
    show "within_capacity db now" using inv by (simp add: reservation_inv_def)
    fix fr :: "reservation \<Rightarrow> int" and n assume fr: "fr \<in> {res_cpu, res_memory, res_disk}"
    show "sum_by fr (node_live ?db now n) \<le> sum_by fr (node_live db now n)"
      unfolding node_live_def using w nn [OF fr] fr f by (auto intro!: live_map_weakens)
  qed simp_all
  moreover have "distinct (live_servers ?db now)"
  proof -
    have "subseq (map (the \<circ> res_server) (filter (\<lambda>r. res_server r \<noteq> None \<and> reservation_live now r) (map f rs)))
       (map (the \<circ> res_server) (filter (\<lambda>r. res_server r \<noteq> None \<and> reservation_live now r) rs))" for rs
    proof (induction rs)
      case Nil
      show ?case by simp
    next
      case (Cons r rs)
      show ?case
      proof (cases "reservation_live now (f r)")
        case True
        then have "reservation_live now r" by (rule f(6))
        with True Cons f(5) [of r] show ?thesis by simp
      next
        case False
        with Cons show ?thesis by (simp add: list_emb_Cons)
      qed
    qed
    then have "subseq (live_servers ?db now) (live_servers db now)"
      by (simp add: live_servers_def)
    then show ?thesis
      using inv by (auto simp: reservation_inv_def one_per_server_def intro: distinct_subseq)
  qed
  moreover have "amounts_ok ?db" using am by (simp add: amounts_ok_def f)
  ultimately show ?thesis
    using inv ids by (simp add: reservation_inv_def one_per_server_def)
qed

lemma inv_tick:
  assumes inv: "reservation_inv db now" and le: "now \<le> now'"
  shows "reservation_inv db now'"
proof -
  have live: "reservation_live now' r \<Longrightarrow> reservation_live now r" for r
    using le by (auto simp: reservation_live_def)
  have am: "amounts_ok db" using inv by (simp add: reservation_inv_def)
  have "within_capacity db now'"
  proof (rule within_capacity_mono [of db now])
    show "within_capacity db now" using inv by (simp add: reservation_inv_def)
    fix fr :: "reservation \<Rightarrow> int" and n assume "fr \<in> {res_cpu, res_memory, res_disk}"
    then have nn: "0 \<le> fr r" if "r \<in> set (db_reservations db)" for r
      using that am by (auto simp: amounts_ok_def)
    show "sum_by fr (node_live db now' n) \<le> sum_by fr (node_live db now n)"
      unfolding node_live_def by (rule sum_by_filter_mono) (auto intro: nn live)
  qed simp_all
  moreover have "one_per_server db now'"
  proof -
    have "subseq (filter (\<lambda>r. res_server r \<noteq> None \<and> reservation_live now' r) rs)
        (filter (\<lambda>r. res_server r \<noteq> None \<and> reservation_live now r) rs)" for rs
    proof (induction rs)
      case Nil
      show ?case by simp
    next
      case (Cons r rs)
      then show ?case using live [of r] by (cases "reservation_live now' r") (auto intro: list_emb_Cons)
    qed
    then have "subseq (live_servers db now') (live_servers db now)"
      unfolding live_servers_def by (rule subseq_map)
    then show ?thesis
      using inv by (auto simp: reservation_inv_def one_per_server_def intro: distinct_subseq)
  qed
  ultimately show ?thesis using inv by (simp add: reservation_inv_def)
qed

section \<open>Creation\<close>

lemma find_snoc:
  "\<not> (\<exists>x \<in> set xs. p x) \<Longrightarrow> find p (xs @ ys) = find p ys"
  by (induction xs) auto

lemma create_cases:
  assumes "create_reservation fault db clk now i rq0 = (res, db')"
  obtains (error) e where "res = Inl e" "db' = db"
  | (created) rq db1 r where
      "rq = default_request clk rq0" "db1 = expire_stale now db" "r = new_reservation now i rq"
      "create_checks fault db1 now rq = Inr ()"
      "db' = db1\<lparr>db_reservations := db_reservations db1 @ [r]\<rparr>"
      "i \<notin> set (map res_id (db_reservations db))" "get_reservation db' i = Inr r"
      "res = and_then (stage fault StReload) (\<lambda>_. Inr r)" "find_node db (rq_node rq) \<noteq> None"
proof -
  define rq where "rq = default_request clk rq0"
  define db1 where "db1 = expire_stale now db"
  define r where "r = new_reservation now i rq"
  have rid: "res_id r = i" by (simp add: r_def new_reservation_def)
  have old: "\<not> (\<exists>q \<in> set (db_reservations db1). res_id q = i) \<longleftrightarrow> i \<notin> set (map res_id (db_reservations db))"
    by (auto simp: db1_def expire_stale_def)
  have get: "get_reservation (db1\<lparr>db_reservations := db_reservations db1 @ [r]\<rparr>) i = Inr r"
    if "\<not> (\<exists>q \<in> set (db_reservations db1). res_id q = i)"
    using that rid by (simp add: get_reservation_def find_snoc)
  show thesis
  proof (cases "\<exists>e. res = Inl e \<and> db' = db")
    case True
    then show thesis using error by blast
  next
    case False
    with assms obtain db2 where w: "create_checks fault db1 now rq = Inr ()"
        "insert_reservation db1 r = Inr db2" "db' = db2"
        "res = and_then (stage fault StReload) (\<lambda>_. get_reservation db2 i)"
      by (auto simp: create_reservation_def Let_def rq_def db1_def r_def and_then_eq_Inr
          split: if_splits sum.splits)
    have ins: "\<not> (\<exists>q \<in> set (db_reservations db1). res_id q = i)"
        "db2 = db1\<lparr>db_reservations := db_reservations db1 @ [r]\<rparr>" "find_node db1 (res_node r) \<noteq> None"
      using w(2) rid by (auto simp: insert_reservation_def split: if_splits)
    moreover have "res_node r = rq_node rq" by (simp add: r_def new_reservation_def)
    ultimately show thesis
      using created [OF rq_def db1_def r_def w(1)] w(3,4) get old by (simp add: db1_def)
  qed
qed

text \<open>The node has room for each resource the request asks for.\<close>

definition has_room :: "capacity_db \<Rightarrow> gotime \<Rightarrow> reservation_request \<Rightarrow> bool" where
  "has_room db now rq \<longleftrightarrow> (case find_node db (rq_node rq) of None \<Rightarrow> False | Some row \<Rightarrow>
     (0 < rq_cpu rq \<longrightarrow> committed srv_cpu res_cpu db now (rq_node rq) + rq_cpu rq \<le> node_total_cpu row) \<and>
     (0 < rq_memory rq \<longrightarrow> committed srv_memory res_memory db now (rq_node rq) + rq_memory rq \<le> node_total_memory row) \<and>
     (0 < rq_disk rq \<longrightarrow> committed srv_disk res_disk db now (rq_node rq) + rq_disk rq \<le> node_total_disk row))"

lemma create_checks_room:
  assumes "create_checks fault db now rq = Inr ()"
  shows "has_room db now rq"
proof -
  from assms obtain cap where cap: "node_capacity_snapshot db now (rq_node rq) = Inr cap"
    and room: "\<not> (0 < rq_cpu rq \<and> snap_avail_cpu cap < rq_cpu rq)"
      "\<not> (0 < rq_memory rq \<and> snap_avail_memory cap < rq_memory rq)"
      "\<not> (0 < rq_disk rq \<and> snap_avail_disk cap < rq_disk rq)"
    by (auto simp: create_checks_def and_then_eq_Inr)
  from snapshot_Inr [OF cap] room show ?thesis by (auto simp: has_room_def intro: available_enough)
qed

lemma create_checks_server:
  "create_checks fault db now rq = Inr () \<Longrightarrow> rq_server rq \<noteq> [] \<Longrightarrow> r \<in> set (db_reservations db) \<Longrightarrow>
     res_server r = Some (rq_server rq) \<Longrightarrow> \<not> reservation_live now r"
  by (auto simp: create_checks_def and_then_eq_Inr)

lemma node_live_append:
  "node_live (db\<lparr>db_reservations := db_reservations db @ [r]\<rparr>) now n =
     node_live db now n @ (if res_node r = n \<and> reservation_live now r then [r] else [])"
  by (simp add: node_live_def)

lemma committed_append:
  "committed fs fr (db\<lparr>db_reservations := db_reservations db @ [r]\<rparr>) now n =
     committed fs fr db now n + (if res_node r = n \<and> reservation_live now r then fr r else 0)"
  by (simp add: committed_def node_live_append node_servers_def)

lemma default_request_simps [simp]:
  "rq_node (default_request clk rq) = rq_node rq" "rq_cpu (default_request clk rq) = rq_cpu rq"
  "rq_memory (default_request clk rq) = rq_memory rq" "rq_disk (default_request clk rq) = rq_disk rq"
  "rq_server (default_request clk rq) = rq_server rq"
  by (simp_all add: default_request_def)

lemma new_reservation_simps [simp]:
  "res_id (new_reservation now i rq) = i" "res_node (new_reservation now i rq) = rq_node rq"
  "res_cpu (new_reservation now i rq) = rq_cpu rq" "res_memory (new_reservation now i rq) = rq_memory rq"
  "res_disk (new_reservation now i rq) = rq_disk rq"
  "res_server (new_reservation now i rq) = (if rq_server rq = [] then None else Some (rq_server rq))"
  by (simp_all add: new_reservation_def)

text \<open>What a checked request leaves behind.\<close>

lemma capacity_append:
  assumes cap: "within_capacity db now" and room: "has_room db now rq"
    and nn: "0 \<le> rq_cpu rq" "0 \<le> rq_memory rq" "0 \<le> rq_disk rq"
  shows "within_capacity (db\<lparr>db_reservations := db_reservations db @ [new_reservation now i rq]\<rparr>) now"
    (is "within_capacity ?db now")
  unfolding within_capacity_def
proof (intro ballI impI)
  fix rw assume rw: "rw \<in> set (db_nodes ?db)" "find_node ?db (nr_id rw) = Some rw"
  then have find: "find_node db (nr_id rw) = Some rw" by (simp add: find_node_def)
  with rw have fit: "fits db now rw" using cap by (simp add: within_capacity_def)
  show "fits ?db now rw"
  proof (cases "nr_id rw = rq_node rq")
    case True
    with find have "find_node db (rq_node rq) = Some rw" by simp
    with True fit room nn show ?thesis by (auto simp: fits_def committed_append has_room_def)
  next
    case False
    with fit show ?thesis by (simp add: fits_def committed_append)
  qed
qed

lemma inv_append:
  assumes inv: "reservation_inv db now" and chk: "create_checks fault db now rq = Inr ()"
    and fresh: "i \<notin> set (map res_id (db_reservations db))"
    and nn: "0 \<le> rq_cpu rq" "0 \<le> rq_memory rq" "0 \<le> rq_disk rq"
  shows "reservation_inv (db\<lparr>db_reservations := db_reservations db @ [new_reservation now i rq]\<rparr>) now"
    (is "reservation_inv ?db now")
proof -
  have "within_capacity ?db now"
    using inv create_checks_room [OF chk] nn by (simp add: reservation_inv_def capacity_append)
  moreover have "one_per_server ?db now"
    using inv create_checks_server [OF chk]
    by (auto simp: reservation_inv_def one_per_server_def live_servers_def)
  moreover have "amounts_ok ?db" using inv nn by (auto simp: reservation_inv_def amounts_ok_def)
  ultimately show ?thesis using inv fresh by (auto simp: reservation_inv_def)
qed

section \<open>Histories\<close>

text \<open>One call of the store, or the passing of time. Creation is restricted to requests with
  amounts that are not negative: the code itself does not check this.\<close>

inductive res_step :: "capacity_db \<times> gotime \<Rightarrow> capacity_db \<times> gotime \<Rightarrow> bool" where
  step_create: "create_reservation fault db clk now i rq = (res, db') \<Longrightarrow>
     0 \<le> rq_cpu rq \<Longrightarrow> 0 \<le> rq_memory rq \<Longrightarrow> 0 \<le> rq_disk rq \<Longrightarrow> res_step (db, now) (db', now)"
| step_status: "update_status flt db now i st = (res, db') \<Longrightarrow> res_step (db, now) (db', now)"
| step_expire: "expire_reservations flt db now = (resl, db') \<Longrightarrow> res_step (db, now) (db', now)"
| step_migration: "update_for_migration flt db now m st = (resl, db') \<Longrightarrow> res_step (db, now) (db', now)"
| step_tick: "now \<le> now' \<Longrightarrow> res_step (db, now) (db, now')"

inductive_cases res_stepE: "res_step (db, now) (db', now')"

text \<open>Every call but creation in_place rows in place, and only rows that are still open.\<close>

definition in_place :: "gotime \<Rightarrow> capacity_db \<Rightarrow> capacity_db \<Rightarrow> bool" where
  "in_place now db db' \<longleftrightarrow>
     db' = db \<or> (\<exists>f. weakens now f \<and> db' = db\<lparr>db_reservations := map f (db_reservations db)\<rparr>)"

lemma in_place_refl: "in_place now db db"
  by (simp add: in_place_def)

lemma in_place_map:
  "weakens now f \<Longrightarrow> in_place now db (db\<lparr>db_reservations := map f (db_reservations db)\<rparr>)"
  by (auto simp: in_place_def)

lemma inv_in_place: "in_place now db db' \<Longrightarrow> reservation_inv db now \<Longrightarrow> reservation_inv db' now"
  by (auto simp: in_place_def intro: inv_map_weakens)

lemma in_place_closed:
  assumes "in_place now db db'" "r \<in> set (db_reservations db)" "\<not> open_status (res_status r)"
  shows "r \<in> set (db_reservations db')"
proof -
  have "f r = r" if "weakens now f" for f using that assms(3) by (simp add: weakens_def)
  with assms show ?thesis by (force simp: in_place_def)
qed

lemma update_status_shape:
  assumes "update_status flt db now i st = (res, db')"
  shows "in_place now db db'"
  using assms
  by (auto simp: update_status_def Let_def split: if_splits intro!: in_place_refl in_place_map weakens_set_status)

lemma update_for_migration_shape:
  assumes "update_for_migration flt db now m st = (res, db')"
  shows "in_place now db db'"
  using assms
  by (auto simp: update_for_migration_def Let_def split: if_splits intro!: in_place_refl in_place_map weakens_set_status)

lemma expire_reservations_shape:
  assumes "expire_reservations flt db now = (res, db')"
  shows "in_place now db db'"
  using assms
  by (auto simp: expire_reservations_def expire_stale_def Let_def split: if_splits intro!: in_place_refl in_place_map weakens_expire)

lemmas update_shapes = update_status_shape update_for_migration_shape expire_reservations_shape

lemma inv_expire_stale [keeps_inv]: "reservation_inv db now \<Longrightarrow> reservation_inv (expire_stale now db) now"
  unfolding expire_stale_def by (rule inv_map_weakens [OF weakens_expire])

lemma inv_create [keeps_inv]:
  assumes "create_reservation fault db clk now i rq = (res, db')" "reservation_inv db now"
    and "0 \<le> rq_cpu rq" "0 \<le> rq_memory rq" "0 \<le> rq_disk rq"
  shows "reservation_inv db' now"
  using assms(1)
proof (cases rule: create_cases)
  case (error e)
  with assms show ?thesis by simp
next
  case (created rq' db1 r)
  have "i \<notin> set (map res_id (db_reservations db1))"
    using created by (auto simp: expire_stale_def)
  with created assms(2-5) show ?thesis
    by (auto intro!: inv_append simp: inv_expire_stale)
qed

lemma res_step_inv:
  assumes "res_step s s'" "reservation_inv (fst s) (snd s)"
  shows "reservation_inv (fst s') (snd s')"
  using assms
proof (cases rule: res_step.cases)
  case (step_create fault db clk now i rq res db')
  with assms(2) show ?thesis by (auto intro: inv_create)
next
  case (step_tick now now' db)
  with assms(2) show ?thesis by (auto intro: inv_tick)
qed (use assms(2) in \<open>auto dest!: update_shapes intro: inv_in_place\<close>)

lemma res_step_closed_row:
  assumes "res_step s s'" "r \<in> set (db_reservations (fst s))" "\<not> open_status (res_status r)"
  shows "r \<in> set (db_reservations (fst s'))"
proof -
  from assms(1) show ?thesis
  proof (cases rule: res_step.cases)
    case (step_create fault db clk now i rq res db')
    from step_create(3) show ?thesis
    proof (cases rule: create_cases)
      case (error e)
      with step_create assms(2) show ?thesis by simp
    next
      case (created rq' db1 r')
      with step_create assms(2) in_place_closed [OF in_place_map [OF weakens_expire [of now], of db] _ assms(3)]
      show ?thesis by (simp add: expire_stale_def)
    qed
  qed (use assms in \<open>auto dest!: update_shapes intro: in_place_closed\<close>)
qed

lemma get_reservation_mem:
  "distinct (map res_id (db_reservations db)) \<Longrightarrow> r \<in> set (db_reservations db) \<Longrightarrow>
     get_reservation db (res_id r) = Inr r"
proof -
  have "find (\<lambda>q. res_id q = res_id r) rs = Some r"
    if "distinct (map res_id rs)" "r \<in> set rs" for rs
    using that by (induction rs) (auto simp: image_iff)
  then show "distinct (map res_id (db_reservations db)) \<Longrightarrow> r \<in> set (db_reservations db) \<Longrightarrow> ?thesis"
    by (simp add: get_reservation_def)
qed

lemma get_reservation_Inr:
  "get_reservation db i = Inr r \<Longrightarrow> r \<in> set (db_reservations db) \<and> res_id r = i"
  by (auto simp: get_reservation_def find_Some_iff split: option.splits)

lemma res_steps_inv:
  "res_step\<^sup>*\<^sup>* s s' \<Longrightarrow> reservation_inv (fst s) (snd s) \<Longrightarrow> reservation_inv (fst s') (snd s')"
  by (induction rule: rtranclp_induct) (auto dest: res_step_inv)

lemma res_steps_closed_row:
  "res_step\<^sup>*\<^sup>* s s' \<Longrightarrow> r \<in> set (db_reservations (fst s)) \<Longrightarrow> \<not> open_status (res_status r) \<Longrightarrow>
     r \<in> set (db_reservations (fst s'))"
  by (induction rule: rtranclp_induct) (auto dest: res_step_closed_row)

section \<open>Two creations at once\<close>

text \<open>The transaction locks the row of its node (\<^verbatim>\<open>SELECT ... FOR UPDATE\<close>), so two creations
  on one node run one after the other. On different nodes nothing stops both from making their
  checks before either has inserted its row.\<close>

definition interleaved_create ::
  "capacity_db \<Rightarrow> gotime \<Rightarrow> gotime \<Rightarrow> string \<Rightarrow> reservation_request \<Rightarrow> string \<Rightarrow> reservation_request
     \<Rightarrow> res_error + capacity_db" where
  "interleaved_create db clk now i1 rq1 i2 rq2 =
     (let db1 = expire_stale now db; q1 = default_request clk rq1; q2 = default_request clk rq2 in
      and_then (create_checks (\<lambda>_. False) db1 now q1) (\<lambda>_.
      and_then (create_checks (\<lambda>_. False) db1 now q2) (\<lambda>_.
      and_then (insert_reservation db1 (new_reservation now i1 q1)) (\<lambda>db2.
        insert_reservation db2 (new_reservation now i2 q2)))))"

lemma insert_reservation_Inr:
  "insert_reservation db r = Inr db' \<Longrightarrow> db' = db\<lparr>db_reservations := db_reservations db @ [r]\<rparr>"
  by (auto simp: insert_reservation_def split: if_splits)

lemma interleaved_shape:
  assumes "interleaved_create db clk now i1 rq1 i2 rq2 = Inr db'"
  obtains db1 q1 q2 where "db1 = expire_stale now db" "q1 = default_request clk rq1" "q2 = default_request clk rq2"
    "create_checks (\<lambda>_. False) db1 now q1 = Inr ()" "create_checks (\<lambda>_. False) db1 now q2 = Inr ()"
    "db' = db1\<lparr>db_reservations := (db_reservations db1 @ [new_reservation now i1 q1]) @ [new_reservation now i2 q2]\<rparr>"
  using assms
  by (auto simp: interleaved_create_def Let_def and_then_eq_Inr dest!: insert_reservation_Inr)

lemma has_room_other_node:
  assumes "has_room db now rq" "res_node r \<noteq> rq_node rq"
  shows "has_room (db\<lparr>db_reservations := db_reservations db @ [r]\<rparr>) now rq"
  using assms by (auto simp: has_room_def committed_append find_node_def split: option.splits)

section \<open>Properties\<close>

text \<open>A small installation for the witnesses: two nodes, one server, one closed reservation.\<close>

definition sample_node :: "string \<Rightarrow> node_row" where
  "sample_node n = \<lparr>nr_id = n, nr_region = None, nr_cpu_threads = Some 4, nr_node_memory = Some 8192,
     nr_memory = None, nr_node_disk = None, nr_disk = Some 50000\<rparr>"

definition sample_row :: reservation where
  "sample_row = \<lparr>res_id = ''r0'', res_server = Some ''s1'', res_node = ''n1'', res_migration = None,
     res_type = ''placement'', res_status = ''completed'', res_cpu = 1, res_memory = 2, res_disk = 3,
     res_expires = 50, res_confirmed = Some 7, res_cancelled = None, res_expired = None,
     res_created = 5, res_updated = 7\<rparr>"

definition sample_db :: capacity_db where
  "sample_db = \<lparr>db_nodes = [sample_node ''n1'', sample_node ''n2''],
     db_servers = [\<lparr>srv_id = ''s1'', srv_node = ''n1'', srv_status = ''running'', srv_cpu = 1024,
                    srv_memory = 4096, srv_disk = 1000\<rparr>],
     db_migrations = [], db_reservations = [sample_row]\<rparr>"

definition sample_request :: "string \<Rightarrow> reservation_request" where
  "sample_request n = \<lparr>rq_server = ''s1'', rq_node = n, rq_migration = [], rq_type = [], rq_status = [],
     rq_cpu = 1024, rq_memory = 2048, rq_disk = 500, rq_expires = 0\<rparr>"

lemmas sample_defs = sample_db_def sample_row_def sample_node_def sample_request_def

lemmas create_eval = create_reservation_def default_request_def expire_stale_def expire_row_def
  create_checks_def stage_def guard_def find_node_def node_capacity_snapshot_def node_servers_def
  node_live_def reservation_live_def open_status_def active_reserved_capacity_def pg_int_def in_int32_def
  node_total_cpu_def node_total_memory_def node_total_disk_def coalesce_nullif_def available_resource_def
  insert_reservation_def reservation_types_def reservation_statuses_def new_reservation_def
  get_reservation_def time_is_zero_def and_then_def

lemma sample_create:
  "create_reservation (\<lambda>_. False) sample_db 90 100 ''r1'' (sample_request ''n1'') =
     (Inr (new_reservation 100 ''r1'' (default_request 90 (sample_request ''n1''))),
      sample_db\<lparr>db_reservations :=
        [sample_row, new_reservation 100 ''r1'' (default_request 90 (sample_request ''n1''))]\<rparr>)"
  by (simp add: create_eval sample_defs Let_def)

lemma sample_inv: "reservation_inv sample_db 100"
  by (simp add: reservation_inv_def amounts_ok_def within_capacity_def fits_def committed_def
      one_per_server_def live_servers_def create_eval sample_defs)

text \<open>C2: A reservation that is granted never overcommits its node: for every resource it asks
  for, the allocations of the node's servers plus all live reservations, the new one included, stay
  within the node's total. This holds of every database, whatever amounts it already holds.\<close>

theorem create_never_overcommits:
  assumes "create_reservation fault db clk now i rq = (Inr r, db')"
    and "find_node db (rq_node rq) = Some row"
  shows "(0 < rq_cpu rq \<longrightarrow> committed srv_cpu res_cpu db' now (rq_node rq) \<le> node_total_cpu row) \<and>
    (0 < rq_memory rq \<longrightarrow> committed srv_memory res_memory db' now (rq_node rq) \<le> node_total_memory row) \<and>
    (0 < rq_disk rq \<longrightarrow> committed srv_disk res_disk db' now (rq_node rq) \<le> node_total_disk row)"
  using assms(1)
proof (cases rule: create_cases)
  case (error e)
  then show ?thesis by simp
next
  case (created q db1 r')
  from created create_checks_room [OF created(4)] assms(2) show ?thesis
    by (auto simp: committed_append has_room_def split: option.splits if_splits)
qed

text \<open>Witness of C2.\<close>

theorem create_never_overcommits_witness:
  "committed srv_memory res_memory (sample_db\<lparr>db_reservations :=
        [sample_row, new_reservation 100 ''r1'' (default_request 90 (sample_request ''n1''))]\<rparr>) 100 ''n1''
     \<le> node_total_memory (sample_node ''n1'')"
  using create_never_overcommits [OF sample_create, of "sample_node ''n1''"]
  by (simp add: sample_defs find_node_def)



text \<open>A reservation that has completed, expired or been cancelled is final: whatever the
  store does afterwards, reading it returns the same row.\<close>

theorem closed_rows_final:
  assumes "res_step\<^sup>*\<^sup>* (db, now) (db', now')" and "reservation_inv db now"
    and "get_reservation db i = Inr r" and "\<not> open_status (res_status r)"
  shows "get_reservation db' i = Inr r"
proof -
  have "r \<in> set (db_reservations db')"
    using res_steps_closed_row [OF assms(1)] get_reservation_Inr [OF assms(3)] assms(4) by simp
  moreover have "distinct (map res_id (db_reservations db'))"
    using res_steps_inv [OF assms(1)] assms(2) by (simp add: reservation_inv_def)
  ultimately show ?thesis using get_reservation_mem get_reservation_Inr [OF assms(3)] by blast
qed

text \<open>An instance.\<close>

theorem closed_rows_final_witness:
  "get_reservation (snd (update_status NoFault sample_db 100 ''r0'' ''active'')) ''r0'' = Inr sample_row"
proof (rule closed_rows_final [OF r_into_rtranclp sample_inv])
  show "res_step (sample_db, 100) (snd (update_status NoFault sample_db 100 ''r0'' ''active''), 100)"
    by (rule step_status) (rule surjective_pairing)
qed (simp_all add: create_eval sample_defs)



text \<open>Two creations on different nodes that interleave still overcommit neither node: the
  lock on the node row is enough for the capacity part of the invariant.\<close>

theorem interleaved_capacity:
  assumes "interleaved_create db clk now i1 rq1 i2 rq2 = Inr db'" and "rq_node rq1 \<noteq> rq_node rq2"
    and "reservation_inv db now"
    and "0 \<le> rq_cpu rq1" "0 \<le> rq_memory rq1" "0 \<le> rq_disk rq1"
    and "0 \<le> rq_cpu rq2" "0 \<le> rq_memory rq2" "0 \<le> rq_disk rq2"
  shows "within_capacity db' now"
  using assms(1)
proof (cases rule: interleaved_shape)
  case (1 db1 q1 q2)
  let ?r = "new_reservation now i1 q1"
  let ?db2 = "db1\<lparr>db_reservations := db_reservations db1 @ [?r]\<rparr>"
  have "within_capacity db1 now"
    using inv_expire_stale [OF assms(3)] 1(1) by (simp add: reservation_inv_def)
  then have "within_capacity ?db2 now"
    using create_checks_room [OF 1(4)] assms 1(2) by (simp add: capacity_append)
  moreover have "has_room ?db2 now q2"
    using create_checks_room [OF 1(5)] assms(2) 1(2,3) by (simp add: has_room_other_node)
  ultimately have "within_capacity (?db2\<lparr>db_reservations := db_reservations ?db2 @ [new_reservation now i2 q2]\<rparr>) now"
    by (rule capacity_append) (use assms 1(3) in simp_all)
  with 1(6) show ?thesis by simp
qed

text \<open>An instance.\<close>

theorem interleaved_capacity_witness:
  "\<exists>db'. interleaved_create sample_db 90 100 ''r1'' (sample_request ''n1'') ''r2'' (sample_request ''n2'') = Inr db'
     \<and> within_capacity db' 100"
proof -
  have "\<exists>db'. interleaved_create sample_db 90 100 ''r1'' (sample_request ''n1'') ''r2'' (sample_request ''n2'') = Inr db'"
    by (simp add: interleaved_create_def create_eval sample_defs Let_def)
  moreover have "within_capacity db' 100"
    if "interleaved_create sample_db 90 100 ''r1'' (sample_request ''n1'') ''r2'' (sample_request ''n2'') = Inr db'" for db'
    by (rule interleaved_capacity [OF that _ sample_inv]) (simp_all add: sample_request_def)
  ultimately show ?thesis by blast
qed

text \<open>The lock does not cover the server: when two requests for one server on different nodes
  interleave, and both succeed with a future expiry and an open status, the server ends with two
  live reservations.\<close>

theorem interleaved_server_twice:
  assumes "interleaved_create db clk now i1 rq1 i2 rq2 = Inr db'"
    and "rq_server rq1 = rq_server rq2" "rq_server rq1 \<noteq> []"
    and "reservation_live now (new_reservation now i1 (default_request clk rq1))"
    and "reservation_live now (new_reservation now i2 (default_request clk rq2))"
  shows "\<not> one_per_server db' now"
  using assms(1)
proof (cases rule: interleaved_shape)
  case (1 db1 q1 q2)
  with assms(2-5) show ?thesis by (simp add: one_per_server_def live_servers_def)
qed

text \<open>An instance.\<close>

theorem interleaved_server_twice_witness:
  "\<exists>db'. interleaved_create sample_db 90 100 ''r1'' (sample_request ''n1'') ''r2'' (sample_request ''n2'') = Inr db'
     \<and> \<not> one_per_server db' 100"
proof -
  have "\<exists>db'. interleaved_create sample_db 90 100 ''r1'' (sample_request ''n1'') ''r2'' (sample_request ''n2'') = Inr db'"
    by (simp add: interleaved_create_def create_eval sample_defs Let_def)
  moreover have "\<not> one_per_server db' 100"
    if "interleaved_create sample_db 90 100 ''r1'' (sample_request ''n1'') ''r2'' (sample_request ''n2'') = Inr db'" for db'
    by (rule interleaved_server_twice [OF that])
      (simp_all add: sample_request_def new_reservation_def default_request_def reservation_live_def
        open_status_def time_is_zero_def)
  ultimately show ?thesis by blast
qed

end
