(* ===== verification/Reservation_Manager.thy ===== *)
theory Reservation_Manager
  imports Reservation_Store
begin

text \<open>
  The reservation manager of \<^verbatim>\<open>forge/api/internal/services/reservations\<close>: the calls of the
  store with the metrics and the events around them. The payload of an event is the reservation it
  is about. A failed delivery is ignored by the code, so \<open>published\<close> lists the events handed to the
  publisher. The ticker of \<^verbatim>\<open>Start\<close> is a sequence of \<open>ExpireAll\<close> operations.
\<close>

section \<open>State\<close>

datatype res_event_type = ReservationCreated | ReservationConfirmed | ReservationCancelled | ReservationExpired

record manager =
  mg_created :: uint64
  mg_conflicts :: uint64
  mg_expirations :: uint64
  mg_events :: "(res_event_type \<times> reservation) list"

text \<open>The text of the errors; \<open>lower\<close> is \<^verbatim>\<open>strings.ToLower\<close>.\<close>

fun error_text :: "res_error \<Rightarrow> string" where
  "error_text NodeIdRequired = ''nodeId is required''"
| "error_text NodeNotFound = ''node not found''"
| "error_text ServerHasReservation = ''server already has an active placement reservation''"
| "error_text MigrationHasReservation = ''migration already has an active placement reservation''"
| "error_text CpuExceeded = ''reserved cpu exceeds available capacity''"
| "error_text MemoryExceeded = ''reserved memory exceeds available capacity''"
| "error_text DiskExceeded = ''reserved disk exceeds available capacity''"
| "error_text ReservationTerminal = ''reservation not found or already terminal''"
| "error_text NoRows = ''no rows in result set''"
| "error_text (DbFailure s) = s"

definition is_conflict :: "(string \<Rightarrow> string) \<Rightarrow> res_error \<Rightarrow> bool" where
  "is_conflict lower e \<longleftrightarrow>
     contains_str (lower (error_text e)) ''reservation'' \<or>
     contains_str (lower (error_text e)) ''exceeds available capacity''"

definition publish :: "res_event_type \<Rightarrow> reservation \<Rightarrow> manager \<Rightarrow> manager" where
  "publish t r m = m\<lparr>mg_events := mg_events m @ [(t, r)]\<rparr>"

section \<open>Operations\<close>

definition manager_create ::
  "(string \<Rightarrow> string) \<Rightarrow> (create_stage \<Rightarrow> bool) \<Rightarrow> manager \<times> capacity_db \<Rightarrow> gotime \<Rightarrow> gotime \<Rightarrow> string
     \<Rightarrow> reservation_request \<Rightarrow> (res_error + reservation) \<times> manager \<times> capacity_db" where
  "manager_create lower fault s clk now i rq =
     (case s of (m, db) \<Rightarrow>
       (case create_reservation fault db clk now i rq of
          (Inl e, db') \<Rightarrow> (Inl e, if is_conflict lower e then m\<lparr>mg_conflicts := mg_conflicts m + 1\<rparr> else m, db')
        | (Inr r, db') \<Rightarrow> (Inr r, publish ReservationCreated r (m\<lparr>mg_created := mg_created m + 1\<rparr>), db')))"

definition confirm_reservation ::
  "update_fault \<Rightarrow> manager \<times> capacity_db \<Rightarrow> gotime \<Rightarrow> string \<Rightarrow> (res_error + reservation) \<times> manager \<times> capacity_db" where
  "confirm_reservation fault s now i =
     (case s of (m, db) \<Rightarrow>
       (case update_status fault db now i ''completed'' of
          (Inl e, db') \<Rightarrow> (Inl e, m, db')
        | (Inr r, db') \<Rightarrow> (Inr r, publish ReservationConfirmed r m, db')))"

definition cancel_reservation ::
  "update_fault \<Rightarrow> manager \<times> capacity_db \<Rightarrow> gotime \<Rightarrow> string \<Rightarrow> (res_error + reservation) \<times> manager \<times> capacity_db" where
  "cancel_reservation fault s now i =
     (case s of (m, db) \<Rightarrow>
       (case update_status fault db now i ''cancelled'' of
          (Inl e, db') \<Rightarrow> (Inl e, m, db')
        | (Inr r, db') \<Rightarrow> (Inr r, publish ReservationCancelled r m, db')))"

definition count_expired :: "reservation \<Rightarrow> manager \<Rightarrow> manager" where
  "count_expired r m = publish ReservationExpired r (m\<lparr>mg_expirations := mg_expirations m + 1\<rparr>)"

definition expire_reservation ::
  "update_fault \<Rightarrow> manager \<times> capacity_db \<Rightarrow> gotime \<Rightarrow> string \<Rightarrow> (res_error + reservation) \<times> manager \<times> capacity_db" where
  "expire_reservation fault s now i =
     (case s of (m, db) \<Rightarrow>
       (case update_status fault db now i ''expired'' of
          (Inl e, db') \<Rightarrow> (Inl e, m, db')
        | (Inr r, db') \<Rightarrow> (Inr r, count_expired r m, db')))"

definition expire_all ::
  "update_fault \<Rightarrow> manager \<times> capacity_db \<Rightarrow> gotime \<Rightarrow> (res_error + reservation list) \<times> manager \<times> capacity_db" where
  "expire_all fault s now =
     (case s of (m, db) \<Rightarrow>
       (case expire_reservations fault db now of
          (Inl e, db') \<Rightarrow> (Inl e, m, db')
        | (Inr rs, db') \<Rightarrow> (Inr rs, fold count_expired rs m, db')))"

definition update_migration_reservations ::
  "update_fault \<Rightarrow> manager \<times> capacity_db \<Rightarrow> gotime \<Rightarrow> string \<Rightarrow> string \<Rightarrow> res_event_type \<Rightarrow> manager \<times> capacity_db" where
  "update_migration_reservations fault s now mid st t =
     (case s of (m, db) \<Rightarrow>
       if trim_space mid = [] then (m, db)
       else (case update_for_migration fault db now mid st of
               (Inl e, db') \<Rightarrow> (m, db')
             | (Inr rs, db') \<Rightarrow> (fold (publish t) rs m, db')))"

definition complete_migration_reservations ::
  "update_fault \<Rightarrow> manager \<times> capacity_db \<Rightarrow> gotime \<Rightarrow> string \<Rightarrow> manager \<times> capacity_db" where
  "complete_migration_reservations fault s now mid =
     update_migration_reservations fault s now mid ''completed'' ReservationConfirmed"

definition cancel_migration_reservations ::
  "update_fault \<Rightarrow> manager \<times> capacity_db \<Rightarrow> gotime \<Rightarrow> string \<Rightarrow> manager \<times> capacity_db" where
  "cancel_migration_reservations fault s now mid =
     update_migration_reservations fault s now mid ''cancelled'' ReservationCancelled"

text \<open>The interface as one type of operations; each call happens at an instant.\<close>

datatype manager_op =
    Create "create_stage \<Rightarrow> bool" gotime string reservation_request
  | Confirm update_fault string
  | Cancel update_fault string
  | Expire update_fault string
  | ExpireAll update_fault
  | CompleteMigration update_fault string
  | CancelMigration update_fault string

fun run_op :: "(string \<Rightarrow> string) \<Rightarrow> gotime \<Rightarrow> manager_op \<Rightarrow> manager \<times> capacity_db \<Rightarrow> manager \<times> capacity_db" where
  "run_op lower now (Create fault clk i rq) s = snd (manager_create lower fault s clk now i rq)"
| "run_op lower now (Confirm fault i) s = snd (confirm_reservation fault s now i)"
| "run_op lower now (Cancel fault i) s = snd (cancel_reservation fault s now i)"
| "run_op lower now (Expire fault i) s = snd (expire_reservation fault s now i)"
| "run_op lower now (ExpireAll fault) s = snd (expire_all fault s now)"
| "run_op lower now (CompleteMigration fault mid) s = complete_migration_reservations fault s now mid"
| "run_op lower now (CancelMigration fault mid) s = cancel_migration_reservations fault s now mid"

fun run_ops :: "(string \<Rightarrow> string) \<Rightarrow> (gotime \<times> manager_op) list \<Rightarrow> manager \<times> capacity_db \<Rightarrow> manager \<times> capacity_db" where
  "run_ops lower [] s = s"
| "run_ops lower ((now, op) # ops) s = run_ops lower ops (run_op lower now op s)"

section \<open>The manager steps as the store does\<close>

definition op_nonneg :: "manager_op \<Rightarrow> bool" where
  "op_nonneg op = (case op of Create fault clk i rq \<Rightarrow> 0 \<le> rq_cpu rq \<and> 0 \<le> rq_memory rq \<and> 0 \<le> rq_disk rq | _ \<Rightarrow> True)"

lemma migration_step:
  "res_step\<^sup>*\<^sup>* (db, now) (snd (update_migration_reservations fault (m, db) now mid st t), now)"
proof (cases "trim_space mid = []")
  case False
  then have "snd (update_migration_reservations fault (m, db) now mid st t) = snd (update_for_migration fault db now mid st)"
    by (auto simp: update_migration_reservations_def split: prod.splits sum.splits)
  then show ?thesis by (simp add: r_into_rtranclp step_migration [OF surjective_pairing])
qed (simp add: update_migration_reservations_def)

lemma run_op_step:
  assumes "op_nonneg op"
  shows "res_step\<^sup>*\<^sup>* (snd s, now) (snd (run_op lower now op s), now)"
proof (cases op)
  case (Create fault clk i rq)
  then have "snd (run_op lower now op s) = snd (create_reservation fault (snd s) clk now i rq)"
    by (auto simp: manager_create_def split: prod.splits sum.splits)
  with Create assms show ?thesis
    by (auto simp: op_nonneg_def intro!: r_into_rtranclp step_create [OF surjective_pairing])
next
  case (Confirm fault i)
  then have "snd (run_op lower now op s) = snd (update_status fault (snd s) now i ''completed'')"
    by (auto simp: confirm_reservation_def split: prod.splits sum.splits)
  then show ?thesis by (simp add: r_into_rtranclp step_status [OF surjective_pairing])
next
  case (Cancel fault i)
  then have "snd (run_op lower now op s) = snd (update_status fault (snd s) now i ''cancelled'')"
    by (auto simp: cancel_reservation_def split: prod.splits sum.splits)
  then show ?thesis by (simp add: r_into_rtranclp step_status [OF surjective_pairing])
next
  case (Expire fault i)
  then have "snd (run_op lower now op s) = snd (update_status fault (snd s) now i ''expired'')"
    by (auto simp: expire_reservation_def split: prod.splits sum.splits)
  then show ?thesis by (simp add: r_into_rtranclp step_status [OF surjective_pairing])
next
  case (ExpireAll fault)
  then have "snd (run_op lower now op s) = snd (expire_reservations fault (snd s) now)"
    by (auto simp: expire_all_def split: prod.splits sum.splits)
  then show ?thesis by (simp add: r_into_rtranclp step_expire [OF surjective_pairing])
qed (cases s; simp add: complete_migration_reservations_def cancel_migration_reservations_def migration_step)+

section \<open>Metrics and events\<close>

definition event_count :: "res_event_type \<Rightarrow> manager \<Rightarrow> nat" where
  "event_count t m = length (filter (\<lambda>e. fst e = t) (mg_events m))"

text \<open>The counters are the numbers of events, modulo \<open>2 ^ 64\<close>.\<close>

definition metrics_match :: "manager \<Rightarrow> bool" where
  "metrics_match m \<longleftrightarrow> mg_created m = of_nat (event_count ReservationCreated m)
     \<and> mg_expirations m = of_nat (event_count ReservationExpired m)"

lemma event_count_publish [simp]:
  "event_count t (publish u r m) = event_count t m + (if t = u then 1 else 0)"
  by (simp add: event_count_def publish_def)

lemma event_count_counters [simp]:
  "event_count t (m\<lparr>mg_created := c\<rparr>) = event_count t m"
  "event_count t (m\<lparr>mg_conflicts := c\<rparr>) = event_count t m"
  "event_count t (m\<lparr>mg_expirations := c\<rparr>) = event_count t m"
  by (simp_all add: event_count_def)

lemma publish_counters [simp]:
  "mg_created (publish t r m) = mg_created m" "mg_expirations (publish t r m) = mg_expirations m"
  by (simp_all add: publish_def)

lemma metrics_match_publish:
  "metrics_match m \<Longrightarrow> t \<in> {ReservationConfirmed, ReservationCancelled} \<Longrightarrow> metrics_match (publish t r m)"
  by (auto simp: metrics_match_def)

lemma metrics_match_count_expired: "metrics_match m \<Longrightarrow> metrics_match (count_expired r m)"
  by (simp add: metrics_match_def count_expired_def)

lemma metrics_match_created:
  "metrics_match m \<Longrightarrow> metrics_match (publish ReservationCreated r (m\<lparr>mg_created := mg_created m + 1\<rparr>))"
  by (simp add: metrics_match_def)

lemma metrics_match_conflict: "metrics_match m \<Longrightarrow> metrics_match (m\<lparr>mg_conflicts := c\<rparr>)"
  by (simp add: metrics_match_def)

lemma metrics_match_fold:
  "metrics_match m \<Longrightarrow> metrics_match (fold count_expired rs m)"
  "metrics_match m \<Longrightarrow> t \<in> {ReservationConfirmed, ReservationCancelled} \<Longrightarrow> metrics_match (fold (publish t) rs m)"
  by (induction rs arbitrary: m) (auto simp: metrics_match_count_expired metrics_match_publish)

lemma run_op_metrics:
  assumes "metrics_match (fst s)"
  shows "metrics_match (fst (run_op lower now op s))"
  using assms
  by (cases op; cases s)
    (auto simp: manager_create_def confirm_reservation_def cancel_reservation_def expire_reservation_def
      expire_all_def complete_migration_reservations_def cancel_migration_reservations_def
      update_migration_reservations_def metrics_match_fold metrics_match_publish metrics_match_count_expired
      metrics_match_created metrics_match_conflict split: prod.splits sum.splits)

section \<open>Properties\<close>

text \<open>Operations in the order of their instants.\<close>

definition timed_from :: "gotime \<Rightarrow> (gotime \<times> 'a) list \<Rightarrow> bool" where
  "timed_from now ops \<longleftrightarrow> sorted_wrt (\<le>) (now # map fst ops)"

text \<open>Whatever sequence of operations the manager runs, with any failures of the database
  and any outcome, the capacity invariant of the store holds at the end, and the counters of created
  and expired reservations are the numbers of events published for them, modulo \<open>2 ^ 64\<close>.\<close>

theorem manager_keeps_invariants:
  assumes "reservation_inv (snd s) now" "metrics_match (fst s)"
    and "timed_from now ops" "\<forall>(t, op) \<in> set ops. op_nonneg op"
  shows "\<exists>now'. reservation_inv (snd (run_ops lower ops s)) now' \<and> metrics_match (fst (run_ops lower ops s))"
  using assms
proof (induction ops arbitrary: s now)
  case Nil
  then show ?case by auto
next
  case (Cons top ops)
  obtain t op where top: "top = (t, op)" by (cases top)
  have le: "now \<le> t" and tm: "timed_from t ops"
    using Cons.prems(3) top by (auto simp: timed_from_def)
  have "reservation_inv (snd (run_op lower t op s)) t"
    using res_steps_inv [OF run_op_step [of op s t lower]] inv_tick [OF Cons.prems(1) le] Cons.prems(4) top
    by auto
  moreover have "metrics_match (fst (run_op lower t op s))"
    by (rule run_op_metrics [OF Cons.prems(2)])
  ultimately show ?case using Cons.IH tm Cons.prems(4) top by simp
qed

text \<open>An instance.\<close>

theorem manager_keeps_invariants_witness:
  "\<exists>now'. reservation_inv (snd (run_ops ascii_lower
     [(100, Create (\<lambda>_. False) 90 ''r1'' (sample_request ''n1'')), (200, Confirm NoFault ''r1''), (300, ExpireAll NoFault)]
     (\<lparr>mg_created = 0, mg_conflicts = 0, mg_expirations = 0, mg_events = []\<rparr>, sample_db))) now'"
proof -
  have m: "metrics_match \<lparr>mg_created = 0, mg_conflicts = 0, mg_expirations = 0, mg_events = []\<rparr>"
    by (simp add: metrics_match_def event_count_def)
  show ?thesis
    using manager_keeps_invariants [of "(\<lparr>mg_created = 0, mg_conflicts = 0, mg_expirations = 0, mg_events = []\<rparr>, sample_db)" 100
        "[(100, Create (\<lambda>_. False) 90 ''r1'' (sample_request ''n1'')), (200, Confirm NoFault ''r1''), (300, ExpireAll NoFault)]"
        ascii_lower] sample_inv m
    by (auto simp: timed_from_def op_nonneg_def sample_request_def)
qed

text \<open>A failed creation is counted as a conflict exactly when the store refuses it for lack of
  capacity or for an existing reservation, provided the database's own error texts do not mention
  reservations or capacity; nothing is published and nothing else is counted.\<close>

theorem conflicts_counted:
  assumes "manager_create ascii_lower fault (m, db) clk now i rq = (Inl e, m', db')"
    and "\<forall>txt. e = DbFailure txt \<longrightarrow> \<not> contains_str (ascii_lower txt) ''reservation''
           \<and> \<not> contains_str (ascii_lower txt) ''exceeds available capacity''"
  shows "m' = (if e \<in> {ServerHasReservation, MigrationHasReservation, CpuExceeded, MemoryExceeded,
                DiskExceeded, ReservationTerminal}
               then m\<lparr>mg_conflicts := mg_conflicts m + 1\<rparr> else m)"
proof -
  have "is_conflict ascii_lower e \<longleftrightarrow> e \<in> {ServerHasReservation, MigrationHasReservation, CpuExceeded,
      MemoryExceeded, DiskExceeded, ReservationTerminal}"
  proof (cases e)
    case (DbFailure x)
    then show ?thesis using assms(2) by (simp add: is_conflict_def)
  qed (simp_all add: is_conflict_def, code_simp+)
  then show ?thesis using assms(1) by (auto simp: manager_create_def split: prod.splits sum.splits)
qed

text \<open>An instance: the node of the request does not exist.\<close>

theorem conflicts_counted_witness:
  "fst (snd (manager_create ascii_lower (\<lambda>_. False)
      (\<lparr>mg_created = 0, mg_conflicts = 0, mg_expirations = 0, mg_events = []\<rparr>, sample_db) 90 100 ''r1'' (sample_request ''n9'')))
   = \<lparr>mg_created = 0, mg_conflicts = 0, mg_expirations = 0, mg_events = []\<rparr>"
proof -
  have c: "create_reservation (\<lambda>_. False) sample_db 90 100 ''r1'' (sample_request ''n9'') = (Inl NodeNotFound, sample_db)"
    by (simp add: create_eval sample_defs Let_def)
  obtain m' where m: "manager_create ascii_lower (\<lambda>_. False)
      (\<lparr>mg_created = 0, mg_conflicts = 0, mg_expirations = 0, mg_events = []\<rparr>, sample_db) 90 100 ''r1'' (sample_request ''n9'')
      = (Inl NodeNotFound, m', sample_db)"
    by (simp add: manager_create_def c)
  show ?thesis using conflicts_counted [OF m] m by simp
qed

end
