(* ===== verification/Scheduler.thy ===== *)
theory Scheduler
  imports Placement Reservation_Store
begin

text \<open>
  The scheduler of \<^verbatim>\<open>forge/api/internal/services/scheduler\<close>: it filters the nodes of the
  installation, has the placement engine score the rest and picks the best (\<^verbatim>\<open>service.go\<close>),
  and a second, independent filter by textual constraints (\<^verbatim>\<open>constraints.go\<close>).

  The database is read several times during one placement and may change in between, so every read
  is an argument of its own: the record \<open>reads\<close> below. The lower-casing of region names, the
  text of the engine's reasons and the order \<^verbatim>\<open>sort.Slice\<close> gives to equal scores are arguments
  too.
\<close>

section \<open>Data\<close>

record node =
  n_id :: string
  n_name :: string
  n_region :: "string option"
  n_actual :: string
  n_desired :: string
  n_maintenance :: bool
  n_draining :: bool

record region =
  rg_id :: string
  rg_slug :: string
  rg_name :: string
  rg_enabled :: bool

record placement_request =
  pr_server :: string
  pr_region_id :: string
  pr_region :: string
  pr_preferred :: string
  pr_required :: string
  pr_node :: string
  pr_allocation :: string
  pr_memory :: int
  pr_cpu_shares :: int
  pr_cpu :: int
  pr_disk :: int

record placement_decision =
  pd_region :: string
  pd_node :: string
  pd_allocation :: string
  pd_manual :: bool
  pd_score :: float64
  pd_reasons :: "string list"

record node_score =
  ns_node :: node
  ns_score :: float64
  ns_reason :: string

record sched_event =
  ev_node :: string
  ev_resource :: string
  ev_available :: int
  ev_requested :: int

text \<open>The counters, and the events handed to the publisher.\<close>

record sched_state =
  rejections :: uint64
  exceeded :: uint64
  published :: "sched_event list"

datatype sched_error =
    RegionOrNodeRequired
  | NoNodesSatisfy
  | NoNodesAvailable
  | EngineError place_error
  | StoreError res_error

text \<open>What the database answers to the reads of one placement.\<close>

record reads =
  rd_resolve :: "res_error + region list"
  rd_nodes :: "res_error + node list"
  rd_regions :: "res_error + region list"
  rd_filter :: "string \<Rightarrow> res_error + snapshot"
  rd_score :: "string \<Rightarrow> res_error + snapshot"

section \<open>Requests\<close>

fun first_non_empty :: "string list \<Rightarrow> string" where
  "first_non_empty [] = []"
| "first_non_empty (v # vs) = (if trim_space v \<noteq> [] then v else first_non_empty vs)"

definition normalize_request :: "placement_request \<Rightarrow> placement_request" where
  "normalize_request req =
     (let cpu1 = (if pr_cpu req = 0 then pr_cpu_shares req else pr_cpu req) in
      req\<lparr>pr_region_id := trim_space (first_non_empty [pr_region_id req, pr_region req]),
          pr_required := trim_space (first_non_empty [pr_required req, pr_node req]),
          pr_preferred := trim_space (pr_preferred req),
          pr_allocation := trim_space (pr_allocation req),
          pr_cpu := (if cpu1 = 0 then 1024 else cpu1),
          pr_memory := (if pr_memory req = 0 then 2048 else pr_memory req),
          pr_disk := (if pr_disk req = 0 then 10240 else pr_disk req)\<rparr>)"

definition has_capacity :: "int \<Rightarrow> int \<Rightarrow> int \<Rightarrow> bool" where
  "has_capacity tot available requested \<longleftrightarrow> requested \<le> 0 \<or> tot \<le> 0 \<or> requested \<le> available"

definition resolve_region_id ::
  "(string \<Rightarrow> string) \<Rightarrow> (res_error + region list) \<Rightarrow> string \<Rightarrow> string" where
  "resolve_region_id lower regions v =
     (case regions of
        Inl _ \<Rightarrow> []
      | Inr rs \<Rightarrow>
          let needle = lower (trim_space v) in
          (case find (\<lambda>r. lower (rg_id r) = needle \<or> lower (rg_slug r) = needle \<or> lower (rg_name r) = needle) rs of
             Some r \<Rightarrow> rg_id r
           | None \<Rightarrow> []))"

definition node_region_enabled :: "node \<Rightarrow> region list \<Rightarrow> bool" where
  "node_region_enabled n regions =
     (case n_region n of
        None \<Rightarrow> True
      | Some i \<Rightarrow> (case find (\<lambda>r. rg_id r = i) regions of Some r \<Rightarrow> rg_enabled r | None \<Rightarrow> True))"

section \<open>Filtering\<close>

definition record_placement_rejection :: "sched_state \<Rightarrow> sched_state" where
  "record_placement_rejection st = st\<lparr>rejections := rejections st + 1\<rparr>"

definition record_capacity_exceeded ::
  "sched_state \<Rightarrow> string \<Rightarrow> string \<Rightarrow> int \<Rightarrow> int \<Rightarrow> sched_state" where
  "record_capacity_exceeded st n resource available requested =
     st\<lparr>rejections := rejections st + 1, exceeded := exceeded st + 1,
        published := published st @
          [\<lparr>ev_node = n, ev_resource = resource, ev_available = available, ev_requested = requested\<rparr>]\<rparr>"

definition out_of_service :: "node \<Rightarrow> bool" where
  "out_of_service n \<longleftrightarrow> n_actual n \<noteq> ''online'' \<or> n_desired n = ''maintenance'' \<or> n_desired n = ''draining''
     \<or> n_maintenance n \<or> n_draining n"

text \<open>The body of the loop of \<^verbatim>\<open>FilterNodes\<close>: whether the node is kept, and the state
  after it.\<close>

definition filter_node ::
  "placement_request \<Rightarrow> region list \<Rightarrow> (string \<Rightarrow> res_error + snapshot) \<Rightarrow> node \<Rightarrow> sched_state
     \<Rightarrow> bool \<times> sched_state" where
  "filter_node req regions snap n st =
     (if \<not> node_region_enabled n regions then (False, record_placement_rejection st)
      else if pr_required req \<noteq> [] \<and> n_id n \<noteq> pr_required req then (False, st)
      else if out_of_service n then (False, record_placement_rejection st)
      else if pr_region_id req \<noteq> [] \<and> n_region n \<noteq> Some (pr_region_id req)
        then (False, record_placement_rejection st)
      else (case snap (n_id n) of
              Inl _ \<Rightarrow> (False, record_placement_rejection st)
            | Inr s \<Rightarrow>
                if \<not> has_capacity (snap_total_cpu s) (snap_avail_cpu s) (pr_cpu req)
                then (False, record_capacity_exceeded st (n_id n) ''cpu'' (snap_avail_cpu s) (pr_cpu req))
                else if \<not> has_capacity (snap_total_memory s) (snap_avail_memory s) (pr_memory req)
                then (False, record_capacity_exceeded st (n_id n) ''memory'' (snap_avail_memory s) (pr_memory req))
                else if \<not> has_capacity (snap_total_disk s) (snap_avail_disk s) (pr_disk req)
                then (False, record_capacity_exceeded st (n_id n) ''disk'' (snap_avail_disk s) (pr_disk req))
                else (True, st)))"

fun filter_loop ::
  "placement_request \<Rightarrow> region list \<Rightarrow> (string \<Rightarrow> res_error + snapshot) \<Rightarrow> node list \<Rightarrow> sched_state
     \<Rightarrow> node list \<times> sched_state" where
  "filter_loop req regions snap [] st = ([], st)"
| "filter_loop req regions snap (n # ns) st =
     (let (keep, st1) = filter_node req regions snap n st;
          (rest, st2) = filter_loop req regions snap ns st1
      in (if keep then n # rest else rest, st2))"

definition filter_nodes ::
  "placement_request \<Rightarrow> (res_error + region list) \<Rightarrow> (string \<Rightarrow> res_error + snapshot) \<Rightarrow> node list
     \<Rightarrow> sched_state \<Rightarrow> (sched_error + node list) \<times> sched_state" where
  "filter_nodes req regions snap nodes st =
     (case regions of
        Inl e \<Rightarrow> (Inl (StoreError e), st)
      | Inr rs \<Rightarrow> (let (kept, st') = filter_loop (normalize_request req) rs snap nodes st in (Inr kept, st')))"

section \<open>Scoring\<close>

definition node_to_candidate :: "snapshot \<Rightarrow> node \<Rightarrow> candidate" where
  "node_to_candidate s n =
     \<lparr>cand_node = n_id n,
      cand_region = (case n_region n of None \<Rightarrow> [] | Some r \<Rightarrow> r),
      cand_total_cpu = snap_total_cpu s, cand_total_memory = snap_total_memory s,
      cand_total_disk = snap_total_disk s,
      cand_alloc_cpu = snap_alloc_cpu s, cand_alloc_memory = snap_alloc_memory s,
      cand_alloc_disk = snap_alloc_disk s,
      cand_avail_cpu = snap_avail_cpu s, cand_avail_memory = snap_avail_memory s,
      cand_avail_disk = snap_avail_disk s,
      cand_server_count = snap_server_count s,
      cand_maintenance = n_maintenance n, cand_draining = n_draining n,
      cand_status = (if n_maintenance n \<or> n_desired n = ''maintenance'' then ''maintenance''
                     else if n_draining n \<or> n_desired n = ''draining'' then ''draining'' else ''online'')\<rparr>"

definition to_workload_request :: "placement_request \<Rightarrow> workload" where
  "to_workload_request req =
     \<lparr>w_cpu = pr_cpu req, w_memory = pr_memory req, w_disk = pr_disk req,
      w_preferred = pr_preferred req, w_required = pr_required req, w_region = pr_region_id req,
      w_constraints = [], w_constraint_ctx = empty_context\<rparr>"

text \<open>The nodes whose snapshot can be read, with the map from identifiers to nodes.\<close>

fun readable :: "(string \<Rightarrow> res_error + snapshot) \<Rightarrow> node list \<Rightarrow> (node \<times> snapshot) list" where
  "readable snap [] = []"
| "readable snap (n # ns) =
     (case snap (n_id n) of Inl _ \<Rightarrow> readable snap ns | Inr s \<Rightarrow> (n, s) # readable snap ns)"

fun node_map :: "(node \<times> snapshot) list \<Rightarrow> (string \<rightharpoonup> node) \<Rightarrow> string \<rightharpoonup> node" where
  "node_map [] m = m"
| "node_map ((n, s) # rest) m = node_map rest (m(n_id n \<mapsto> n))"

definition preferred_bonus :: "placement_request \<Rightarrow> node \<Rightarrow> float64 \<Rightarrow> float64" where
  "preferred_bonus req n s =
     (if pr_preferred req \<noteq> [] \<and> n_id n = pr_preferred req then f_add s (Fin (10 ^ 9)) else s)"

fun node_scores ::
  "(score_reason list \<Rightarrow> string) \<Rightarrow> placement_request \<Rightarrow> (string \<rightharpoonup> node) \<Rightarrow> score_result list \<Rightarrow> node_score list" where
  "node_scores render req m [] = []"
| "node_scores render req m (r # rs) =
     (case m (sr_node r) of
        None \<Rightarrow> node_scores render req m rs
      | Some n \<Rightarrow>
          \<lparr>ns_node = n, ns_score = preferred_bonus req n (sr_score r),
           ns_reason = (if pr_preferred req \<noteq> [] \<and> n_id n = pr_preferred req then ''preferred node''
                        else render (sr_reasons r))\<rparr>
          # node_scores render req m rs)"

definition score_nodes ::
  "(score_reason list \<Rightarrow> string)
     \<Rightarrow> ((score_result \<Rightarrow> score_result \<Rightarrow> bool) \<Rightarrow> score_result list \<Rightarrow> score_result list) \<Rightarrow> scorer
     \<Rightarrow> placement_request \<Rightarrow> (string \<Rightarrow> res_error + snapshot) \<Rightarrow> node list \<Rightarrow> sched_error + node_score list" where
  "score_nodes render srt sc req0 snap nodes =
     (let req = normalize_request req0; rs = readable snap nodes in
      if rs = [] then Inr []
      else (case engine_place_all srt sc (map (\<lambda>(n, s). node_to_candidate s n) rs) (to_workload_request req) of
              Inl e \<Rightarrow> Inl (EngineError e)
            | Inr results \<Rightarrow> Inr (node_scores render req (node_map rs Map.empty) results)))"

section \<open>Placement of a server\<close>

definition score_above :: "node_score \<Rightarrow> node_score \<Rightarrow> bool" where
  "score_above a b \<longleftrightarrow> f_lt (ns_score b) (ns_score a)"

text \<open>The request after normalisation and resolution of the region.\<close>

definition resolved_request ::
  "(string \<Rightarrow> string) \<Rightarrow> reads \<Rightarrow> placement_request \<Rightarrow> placement_request" where
  "resolved_request lower rd req0 =
     (let req = normalize_request req0 in
      if pr_region_id req = [] then req
      else let r = resolve_region_id lower (rd_resolve rd) (pr_region_id req) in
        if r \<noteq> [] then req\<lparr>pr_region_id := r\<rparr> else req)"

definition decide :: "placement_request \<Rightarrow> node_score \<Rightarrow> placement_decision" where
  "decide req sel =
     \<lparr>pd_region = (if pr_region_id req = [] then (case n_region (ns_node sel) of None \<Rightarrow> [] | Some r \<Rightarrow> r)
                   else pr_region_id req),
      pd_node = n_id (ns_node sel), pd_allocation = pr_allocation req,
      pd_manual = (pr_required req \<noteq> []), pd_score = ns_score sel, pd_reasons = [ns_reason sel]\<rparr>"

definition place_server ::
  "(string \<Rightarrow> string) \<Rightarrow> (score_reason list \<Rightarrow> string)
     \<Rightarrow> ((score_result \<Rightarrow> score_result \<Rightarrow> bool) \<Rightarrow> score_result list \<Rightarrow> score_result list) \<Rightarrow> scorer
     \<Rightarrow> reads \<Rightarrow> placement_request \<Rightarrow> sched_state \<Rightarrow> (sched_error + placement_decision) \<times> sched_state" where
  "place_server lower render srt sc rd req0 st =
     (let req = resolved_request lower rd req0 in
      if pr_region_id req = [] \<and> pr_required req = [] then (Inl RegionOrNodeRequired, st)
      else (case rd_nodes rd of
        Inl e \<Rightarrow> (Inl (StoreError e), st)
      | Inr nodes \<Rightarrow>
          (case filter_nodes req (rd_regions rd) (rd_filter rd) nodes st of
             (Inl e, st1) \<Rightarrow> (Inl e, st1)
           | (Inr filtered, st1) \<Rightarrow>
               if filtered = [] then (Inl NoNodesSatisfy, st1)
               else (case score_nodes render srt sc req (rd_score rd) filtered of
                       Inl e \<Rightarrow> (Inl e, st1)
                     | Inr scores \<Rightarrow>
                         (case slice_stable score_above scores of
                            [] \<Rightarrow> (Inl NoNodesAvailable, st1)
                          | sel # _ \<Rightarrow> (Inr (decide req sel), st1))))))"

section \<open>Constraint scheduler\<close>

record sched_constraint =
  sc_type :: string
  sc_key :: string
  sc_operator :: string
  sc_value :: string

definition add_constraint :: "sched_constraint list \<Rightarrow> sched_constraint \<Rightarrow> sched_constraint list" where
  "add_constraint cs c = cs @ [c]"

definition remove_constraint :: "sched_constraint list \<Rightarrow> int \<Rightarrow> sched_constraint list" where
  "remove_constraint cs i =
     (if 0 \<le> i \<and> i < int (length cs) then take (nat i) cs @ drop (Suc (nat i)) cs else cs)"

definition get_constraint_value :: "string \<Rightarrow> node \<Rightarrow> string" where
  "get_constraint_value key n =
     (if key = ''region'' then (case n_region n of Some r \<Rightarrow> r | None \<Rightarrow> [])
      else if key = ''node_id'' then n_id n
      else if key = ''name'' then n_name n else [])"

definition evaluate_constraint :: "sched_constraint \<Rightarrow> node \<Rightarrow> bool" where
  "evaluate_constraint c n =
     (let v = get_constraint_value (sc_key c) n;
          parts = map trim_space (split_on (CHR '','') (sc_value c)) in
      if sc_operator c = ''eq'' then v = sc_value c
      else if sc_operator c = ''neq'' then v \<noteq> sc_value c
      else if sc_operator c = ''in'' then v \<in> set parts
      else if sc_operator c = ''notin'' then v \<notin> set parts
      else if sc_operator c = ''exists'' then v \<noteq> []
      else True)"

fun meets_all_constraints :: "sched_constraint list \<Rightarrow> node \<Rightarrow> bool" where
  "meets_all_constraints [] n = True"
| "meets_all_constraints (c # cs) n =
     (if \<not> evaluate_constraint c n \<and> sc_type c = ''required'' then False else meets_all_constraints cs n)"

definition evaluate_constraints :: "sched_constraint list \<Rightarrow> node list \<Rightarrow> node list" where
  "evaluate_constraints cs nodes = (if cs = [] then nodes else filter (meets_all_constraints cs) nodes)"

section \<open>What the filter keeps\<close>

lemma normalize_idem [simp]: "normalize_request (normalize_request req) = normalize_request req"
  by (simp add: normalize_request_def Let_def)

definition eligible ::
  "placement_request \<Rightarrow> region list \<Rightarrow> (string \<Rightarrow> res_error + snapshot) \<Rightarrow> node \<Rightarrow> bool" where
  "eligible req regions snap n \<longleftrightarrow>
     node_region_enabled n regions \<and> (pr_required req \<noteq> [] \<longrightarrow> n_id n = pr_required req) \<and>
     \<not> out_of_service n \<and> (pr_region_id req \<noteq> [] \<longrightarrow> n_region n = Some (pr_region_id req)) \<and>
     (case snap (n_id n) of Inl _ \<Rightarrow> False | Inr s \<Rightarrow>
        has_capacity (snap_total_cpu s) (snap_avail_cpu s) (pr_cpu req) \<and>
        has_capacity (snap_total_memory s) (snap_avail_memory s) (pr_memory req) \<and>
        has_capacity (snap_total_disk s) (snap_avail_disk s) (pr_disk req))"

text \<open>A node passed over because another one is required counts as no rejection.\<close>

definition passed_over :: "placement_request \<Rightarrow> region list \<Rightarrow> node \<Rightarrow> bool" where
  "passed_over req regions n \<longleftrightarrow>
     node_region_enabled n regions \<and> pr_required req \<noteq> [] \<and> n_id n \<noteq> pr_required req"

lemma filter_node_fst: "fst (filter_node req regions snap n st) = eligible req regions snap n"
  by (auto simp: filter_node_def eligible_def split: sum.splits)

lemma filter_node_rejections:
  "rejections (snd (filter_node req regions snap n st)) =
     rejections st + (if eligible req regions snap n \<or> passed_over req regions n then 0 else 1)"
  by (auto simp: filter_node_def eligible_def passed_over_def record_placement_rejection_def
      record_capacity_exceeded_def split: sum.splits)

text \<open>Between two states the counter of exceeded capacity advances by the number of events
  published, each about one of the given nodes and a request larger than what is available.\<close>

definition logged :: "string set \<Rightarrow> sched_state \<Rightarrow> sched_state \<Rightarrow> bool" where
  "logged A st st' \<longleftrightarrow> (\<exists>evs. published st' = published st @ evs \<and>
     exceeded st' = exceeded st + of_nat (length evs) \<and>
     (\<forall>e \<in> set evs. ev_node e \<in> A \<and> ev_available e < ev_requested e))"

lemma logged_refl: "logged A st st"
  by (simp add: logged_def)

lemma logged_rejection: "logged A st (record_placement_rejection st)"
  by (simp add: logged_def record_placement_rejection_def)

lemma logged_exceeded: "i \<in> A \<Longrightarrow> avail < want \<Longrightarrow> logged A st (record_capacity_exceeded st i res avail want)"
  by (simp add: logged_def record_capacity_exceeded_def)

lemma logged_mono: "logged A st st' \<Longrightarrow> A \<subseteq> B \<Longrightarrow> logged B st st'"
  unfolding logged_def by blast

lemma logged_trans: "logged A st st1 \<Longrightarrow> logged A st1 st2 \<Longrightarrow> logged A st st2"
  unfolding logged_def
  by (elim exE, rename_tac e1 e2, rule_tac x = "e1 @ e2" in exI) (auto simp: add.assoc)

lemma filter_node_logged: "logged {n_id n} st (snd (filter_node req regions snap n st))"
  unfolding filter_node_def has_capacity_def
  by (simp add: logged_refl logged_rejection logged_exceeded split: sum.split)

lemma filter_loop_fst: "fst (filter_loop req regions snap ns st) = filter (eligible req regions snap) ns"
proof (induction ns arbitrary: st)
  case Nil
  show ?case by simp
next
  case (Cons n ns)
  then show ?case
    using filter_node_fst [of req regions snap n st] by (auto simp: Let_def split: prod.splits) (metis fst_conv)+
qed

lemma filter_loop_rejections:
  "rejections (snd (filter_loop req regions snap ns st)) =
     rejections st +
     of_nat (length (filter (\<lambda>n. \<not> eligible req regions snap n \<and> \<not> passed_over req regions n) ns))"
proof (induction ns arbitrary: st)
  case Nil
  show ?case by simp
next
  case (Cons n ns)
  let ?st = "snd (filter_node req regions snap n st)"
  have "rejections (snd (filter_loop req regions snap (n # ns) st)) =
      rejections (snd (filter_loop req regions snap ns ?st))"
    by (simp add: Let_def split: prod.splits)
  then show ?case using Cons [of ?st] by (simp add: filter_node_rejections)
qed

lemma filter_loop_logged: "logged (n_id ` set ns) st (snd (filter_loop req regions snap ns st))"
proof (induction ns arbitrary: st)
  case Nil
  show ?case by (simp add: logged_refl)
next
  case (Cons n ns)
  let ?st = "snd (filter_node req regions snap n st)" and ?A = "n_id ` set (n # ns)"
  have eq: "snd (filter_loop req regions snap (n # ns) st) = snd (filter_loop req regions snap ns ?st)"
    by (simp add: Let_def split: prod.splits)
  have "logged ?A st ?st" by (rule logged_mono [OF filter_node_logged]) simp
  moreover have "logged ?A ?st (snd (filter_loop req regions snap ns ?st))"
    by (rule logged_mono [OF Cons]) auto
  ultimately show ?case unfolding eq by (rule logged_trans)
qed

section \<open>What the scores rank\<close>

lemma readable_mem: "(n, s) \<in> set (readable snap ns) \<longleftrightarrow> n \<in> set ns \<and> snap (n_id n) = Inr s"
  by (induction ns) (auto split: sum.splits)

lemma node_map_Some:
  "node_map rs m i = Some n \<Longrightarrow> m i = Some n \<or> (\<exists>s. (n, s) \<in> set rs \<and> n_id n = i)"
proof (induction rs arbitrary: m)
  case Nil
  then show ?case by simp
next
  case (Cons p rs)
  obtain a b where p: "p = (a, b)" by (cases p)
  have "(m(n_id a \<mapsto> a)) i = Some n \<or> (\<exists>s. (n, s) \<in> set rs \<and> n_id n = i)"
    by (rule Cons.IH) (use Cons.prems p in \<open>simp del: fun_upd_apply\<close>)
  with p show ?case by (auto split: if_splits)
qed

lemma node_map_defined: "n_id ` fst ` set rs \<union> dom m \<subseteq> dom (node_map rs m)"
proof (induction rs arbitrary: m)
  case Nil
  then show ?case by simp
next
  case (Cons p rs)
  obtain a b where p: "p = (a, b)" by (cases p)
  have "n_id ` fst ` set rs \<union> dom (m(n_id a \<mapsto> a)) \<subseteq> dom (node_map rs (m(n_id a \<mapsto> a)))"
    by (rule Cons.IH)
  with p show ?case by (simp del: fun_upd_apply)
qed

lemma node_scores_mem:
  "x \<in> set (node_scores render req m rs) \<Longrightarrow>
     \<exists>r \<in> set rs. m (sr_node r) = Some (ns_node x) \<and> ns_score x = preferred_bonus req (ns_node x) (sr_score r)"
  by (induction rs) (auto split: option.splits)

lemma node_scores_intro:
  "r \<in> set rs \<Longrightarrow> m (sr_node r) = Some n \<Longrightarrow>
     \<exists>x \<in> set (node_scores render req m rs). ns_node x = n \<and> ns_score x = preferred_bonus req n (sr_score r)"
  by (induction rs) (auto split: option.splits)

lemma f_add_Fin_number: "s \<noteq> NaN \<Longrightarrow> f_add s (Fin x) \<noteq> NaN"
  by (auto simp: f_add_def split: float64.splits)

lemma preferred_bonus_number: "s \<noteq> NaN \<Longrightarrow> preferred_bonus req n s \<noteq> NaN"
  by (simp add: preferred_bonus_def f_add_Fin_number)

lemma preferred_bonus_id: "n_id a = n_id b \<Longrightarrow> preferred_bonus req a s = preferred_bonus req b s"
  by (simp add: preferred_bonus_def)

text \<open>The scorer as the scheduler sees it: its scores are numbers on the snapshots it is given.\<close>

locale node_ranking = placement_engine sc wf srt
  for sc :: scorer and wf :: "candidate \<Rightarrow> bool"
    and srt :: "(score_result \<Rightarrow> score_result \<Rightarrow> bool) \<Rightarrow> score_result list \<Rightarrow> score_result list" +
  assumes score_total: "\<exists>s rs. sc c w = Inr (s, rs)"
begin

lemma place_all_total:
  assumes "cands \<noteq> []" "\<forall>c \<in> set cands. wf c" "w_constraints w = []"
  obtains rs where "engine_place_all srt sc cands w = Inr rs" "mset rs = mset (score_loop sc w cands)"
proof -
  have "check_hard c [] ctx = None" for c ctx by simp
  then have f: "fst (filter_by_constraints cands [] empty_context) = cands"
    by (simp add: filter_by_constraints_fst)
  have "score_loop sc w cands \<noteq> []"
    using assms(1) score_total [of "hd cands" w] by (cases cands) auto
  then obtain rs where rs: "engine_place_all srt sc cands w = Inr rs"
    using assms(1,3) f by (cases "score_loop sc w cands") (auto simp: engine_place_all_def Let_def)
  moreover have "mset rs = mset (score_loop sc w cands)"
    using place_all_cases(2) [OF assms(2) rs] f assms(3) by simp
  ultimately show thesis by (rule that)
qed

lemma score_nodes_spec:
  assumes wf: "\<forall>n \<in> set nodes. \<forall>s. snap (n_id n) = Inr s \<longrightarrow> wf (node_to_candidate s n)"
  obtains scores where "score_nodes render srt sc req snap nodes = Inr scores"
    and "\<forall>x \<in> set scores. ns_node x \<in> set nodes \<and> ns_score x \<noteq> NaN \<and>
           (\<exists>n \<in> set nodes. \<exists>s v rs. n_id n = n_id (ns_node x) \<and> snap (n_id n) = Inr s \<and>
             sc (node_to_candidate s n) (to_workload_request (normalize_request req)) = Inr (v, rs) \<and>
             ns_score x = preferred_bonus (normalize_request req) n v)"
    and "\<forall>n \<in> set nodes. \<forall>s v rs. snap (n_id n) = Inr s \<longrightarrow>
           sc (node_to_candidate s n) (to_workload_request (normalize_request req)) = Inr (v, rs) \<longrightarrow>
           (\<exists>x \<in> set scores. ns_score x = preferred_bonus (normalize_request req) n v)"
proof (cases "readable snap nodes = []")
  case True
  then have "snap (n_id n) \<noteq> Inr s" if "n \<in> set nodes" for n s
    using readable_mem [of n s snap nodes] that by auto
  with True that [of "[]"] show thesis by (auto simp: score_nodes_def)
next
  case False
  let ?rq = "normalize_request req" and ?rs = "readable snap nodes"
  let ?w = "to_workload_request ?rq" and ?cs = "map (\<lambda>(n, s). node_to_candidate s n) ?rs"
  let ?m = "node_map ?rs Map.empty"
  have wfc: "\<forall>c \<in> set ?cs. wf c" using wf by (auto simp: readable_mem)
  have w: "w_constraints ?w = []" by (simp add: to_workload_request_def)
  obtain rs where rs: "engine_place_all srt sc ?cs ?w = Inr rs" "mset rs = mset (score_loop sc ?w ?cs)"
    using place_all_total [OF _ wfc w] False by auto
  have set_rs: "set rs = set (score_loop sc ?w ?cs)" by (metis rs(2) set_mset_mset)
  have cand: "cand_node (node_to_candidate s n) = n_id n" for s n by (simp add: node_to_candidate_def)
  let ?scores = "node_scores render ?rq ?m rs"
  have eq: "score_nodes render srt sc req snap nodes = Inr ?scores"
    using False rs(1) by (simp add: score_nodes_def Let_def)
  show thesis
  proof (rule that [OF eq]; intro ballI allI impI)
    fix x assume "x \<in> set ?scores"
    then obtain r where r: "r \<in> set rs" "?m (sr_node r) = Some (ns_node x)"
      "ns_score x = preferred_bonus ?rq (ns_node x) (sr_score r)"
      using node_scores_mem by blast
    from r(1) obtain n s where n: "(n, s) \<in> set ?rs" "n_id n = sr_node r"
      "sc (node_to_candidate s n) ?w = Inr (sr_score r, sr_reasons r)"
      by (auto simp: set_rs score_loop_mem cand)
    from node_map_Some [OF r(2)] have x: "ns_node x \<in> set nodes" "n_id (ns_node x) = sr_node r"
      by (auto simp: readable_mem)
    have "sr_score r \<noteq> NaN" using results_numbers [of ?cs r ?w] r(1) set_rs wfc by blast
    with r x n show "ns_node x \<in> set nodes \<and> ns_score x \<noteq> NaN \<and>
           (\<exists>n \<in> set nodes. \<exists>s v rs. n_id n = n_id (ns_node x) \<and> snap (n_id n) = Inr s \<and>
             sc (node_to_candidate s n) ?w = Inr (v, rs) \<and> ns_score x = preferred_bonus ?rq n v)"
      using preferred_bonus_id [of n "ns_node x" ?rq] by (auto simp: readable_mem preferred_bonus_number)
  next
    fix n s v rsn assume n: "n \<in> set nodes" "snap (n_id n) = Inr s" "sc (node_to_candidate s n) ?w = Inr (v, rsn)"
    let ?r = "\<lparr>sr_node = n_id n, sr_score = v, sr_reasons = rsn\<rparr>"
    have mem: "(n, s) \<in> set ?rs" using n by (simp add: readable_mem)
    then have "?r \<in> set rs" using n(3) by (force simp: set_rs score_loop_mem cand)
    moreover obtain n' where "?m (n_id n) = Some n'" using node_map_defined [of ?rs Map.empty] mem by force
    moreover from this have "n_id n' = n_id n" using node_map_Some by fastforce
    ultimately show "\<exists>x \<in> set ?scores. ns_score x = preferred_bonus ?rq n v"
      using node_scores_intro [of ?r rs ?m n' render ?rq] preferred_bonus_id [of n' n] by auto
  qed
qed

end

lemma new_scorer_total: "\<exists>s rs. new_scorer draw strategy c w = Inr (s, rs)"
  by (auto simp: new_scorer_def random_score_def least_loaded_score_def bin_pack_score_def
      spread_score_def Let_def)

lemma new_scorer_ranking:
  assumes "sorts srt"
  shows "node_ranking (new_scorer draw strategy) (\<lambda>c. candidate_int64 c \<and> draw c \<noteq> NaN) srt"
  using new_scorer_engine [OF assms, of draw strategy]
  by (simp add: node_ranking_def node_ranking_axioms_def new_scorer_total)

interpretation least_loaded_nodes: node_ranking least_loaded_score candidate_int64 slice_stable
  by unfold_locales (auto simp: least_loaded_score_def)

interpretation bin_pack_nodes: node_ranking bin_pack_score candidate_int64 slice_stable
  by unfold_locales (auto simp: bin_pack_score_def Let_def)

interpretation spread_nodes: node_ranking spread_score candidate_int64 slice_stable
  by unfold_locales (auto simp: spread_score_def Let_def)

definition snapshot_int64 :: "snapshot \<Rightarrow> bool" where
  "snapshot_int64 s \<longleftrightarrow> in_int64 (snap_total_cpu s) \<and> in_int64 (snap_total_memory s)
     \<and> in_int64 (snap_total_disk s) \<and> in_int64 (snap_alloc_cpu s) \<and> in_int64 (snap_alloc_memory s)
     \<and> in_int64 (snap_alloc_disk s) \<and> in_int64 (snap_avail_cpu s) \<and> in_int64 (snap_avail_memory s)
     \<and> in_int64 (snap_avail_disk s) \<and> in_int64 (snap_server_count s)"

lemma candidate_of_snapshot: "snapshot_int64 s \<Longrightarrow> candidate_int64 (node_to_candidate s n)"
  by (simp add: snapshot_int64_def candidate_int64_def node_to_candidate_def)

section \<open>Reading a placement backwards\<close>

lemma filter_nodes_Inl [simp]: "filter_nodes req (Inl e) snap nodes st = (Inl (StoreError e), st)"
  by (simp add: filter_nodes_def)

lemma filter_nodes_Inr:
  "filter_nodes req (Inr regions) snap nodes st =
     (Inr (filter (eligible (normalize_request req) regions snap) nodes),
      snd (filter_loop (normalize_request req) regions snap nodes st))"
  using filter_loop_fst [of "normalize_request req" regions snap nodes st]
  by (auto simp: filter_nodes_def split: prod.splits)

lemma place_server_Inr:
  assumes "place_server lower render srt sc rd req0 st = (Inr d, st')"
  obtains nodes regions scores sel rest where "rd_nodes rd = Inr nodes" "rd_regions rd = Inr regions"
    "score_nodes render srt sc (resolved_request lower rd req0) (rd_score rd)
       (filter (eligible (normalize_request (resolved_request lower rd req0)) regions (rd_filter rd)) nodes)
     = Inr scores"
    "slice_stable score_above scores = sel # rest" "d = decide (resolved_request lower rd req0) sel"
proof (cases "rd_regions rd")
  case (Inl e)
  with assms show thesis by (auto simp: place_server_def Let_def split: if_splits sum.splits)
next
  case (Inr regions)
  with assms that show thesis
    by (auto simp: place_server_def Let_def filter_nodes_Inr split: if_splits sum.splits list.splits)
qed

lemma place_server_found:
  assumes "rd_nodes rd = Inr nodes" "rd_regions rd = Inr regions"
    and "pr_region_id (resolved_request lower rd req0) \<noteq> [] \<or> pr_required (resolved_request lower rd req0) \<noteq> []"
    and "kept = filter (eligible (normalize_request (resolved_request lower rd req0)) regions (rd_filter rd)) nodes"
    and "kept \<noteq> []" "score_nodes render srt sc (resolved_request lower rd req0) (rd_score rd) kept = Inr scores"
    and "scores \<noteq> []"
  shows "\<exists>d. fst (place_server lower render srt sc rd req0 st) = Inr d"
proof -
  have "slice_stable score_above scores \<noteq> []" using assms(7) by (metis length_0_conv length_slice_stable)
  then obtain sel rest where "slice_stable score_above scores = sel # rest"
    by (cases "slice_stable score_above scores") auto
  with assms show ?thesis by (auto simp: place_server_def Let_def filter_nodes_Inr)
qed

lemma score_above_weak:
  "\<forall>x \<in> set xs. ns_score x \<noteq> NaN \<Longrightarrow> strict_weak_on (set xs) score_above"
  unfolding score_above_def by (rule strict_weak_score) blast

lemma place_server_scores:
  assumes srt: "sorts srt" and reads: "\<forall>i s. rd_score rd i = Inr s \<longrightarrow> snapshot_int64 s" "\<forall>c. draw c \<noteq> NaN"
    and ok: "place_server lower render srt (new_scorer draw strategy) rd req0 st = (Inr d, st')"
    and req: "req = normalize_request (resolved_request lower rd req0)"
  obtains nodes regions scores sel where "rd_nodes rd = Inr nodes" "rd_regions rd = Inr regions"
    "sel \<in> set scores" "\<forall>x \<in> set scores. \<not> f_lt (ns_score sel) (ns_score x)"
    "d = decide (resolved_request lower rd req0) sel"
    "\<forall>x \<in> set scores. ns_node x \<in> set (filter (eligible req regions (rd_filter rd)) nodes)"
    "\<forall>n \<in> set (filter (eligible req regions (rd_filter rd)) nodes). \<forall>s v rs. rd_score rd (n_id n) = Inr s \<longrightarrow>
      new_scorer draw strategy (node_to_candidate s n) (to_workload_request req) = Inr (v, rs) \<longrightarrow>
      (\<exists>x \<in> set scores. ns_score x = preferred_bonus req n v)"
proof -
  note L = new_scorer_ranking [OF srt, of draw strategy]
  from ok obtain nodes regions scores sel rest where r: "rd_nodes rd = Inr nodes" "rd_regions rd = Inr regions"
    and sc: "score_nodes render srt (new_scorer draw strategy) (resolved_request lower rd req0) (rd_score rd)
       (filter (eligible req regions (rd_filter rd)) nodes) = Inr scores"
    and sel: "slice_stable score_above scores = sel # rest" and d: "d = decide (resolved_request lower rd req0) sel"
    unfolding req by (rule place_server_Inr)
  let ?kept = "filter (eligible req regions (rd_filter rd)) nodes"
  have wf: "\<forall>n \<in> set ?kept. \<forall>s. rd_score rd (n_id n) = Inr s \<longrightarrow>
      candidate_int64 (node_to_candidate s n) \<and> draw (node_to_candidate s n) \<noteq> NaN"
    using reads by (auto intro: candidate_of_snapshot)
  obtain xs where xs: "score_nodes render srt (new_scorer draw strategy) (resolved_request lower rd req0)
        (rd_score rd) ?kept = Inr xs"
    and S': "\<forall>x \<in> set xs. ns_node x \<in> set ?kept \<and> ns_score x \<noteq> NaN"
    and B': "\<forall>n \<in> set ?kept. \<forall>s v rs. rd_score rd (n_id n) = Inr s \<longrightarrow>
      new_scorer draw strategy (node_to_candidate s n) (to_workload_request req) = Inr (v, rs) \<longrightarrow>
      (\<exists>x \<in> set xs. ns_score x = preferred_bonus req n v)"
    unfolding req by (rule node_ranking.score_nodes_spec [OF L wf [unfolded req]]) blast
  from xs sc have "xs = scores" by simp
  note S = S' [unfolded this] and B = B' [unfolded this]
  have sw: "strict_weak_on (set scores) score_above" using S by (intro score_above_weak) blast
  have "\<forall>x \<in> set scores. \<not> f_lt (ns_score sel) (ns_score x)"
    using stable.srt_hd_first [OF sw] sel by (simp add: score_above_def)
  moreover have "sel \<in> set scores" using sel set_slice_stable [of score_above scores] by auto
  ultimately show thesis using that r d S B by blast
qed

section \<open>Properties\<close>

text \<open>C6: A placement decision is sound and best. The chosen node exists, its region is enabled, it
  is online and neither in maintenance nor draining, it is the required node if there is one, it lies
  in the requested region, its capacity at filtering time covers the normalised request; and no
  eligible node whose snapshot could be read for scoring has a greater adjusted score.\<close>

theorem place_server_sound:
  assumes srt: "sorts srt" and reads: "\<forall>i s. rd_score rd i = Inr s \<longrightarrow> snapshot_int64 s" "\<forall>c. draw c \<noteq> NaN"
    and ok: "place_server lower render srt (new_scorer draw strategy) rd req0 st = (Inr d, st')"
    and req: "req = normalize_request (resolved_request lower rd req0)"
  shows "\<exists>nodes regions n. rd_nodes rd = Inr nodes \<and> rd_regions rd = Inr regions \<and>
     n \<in> set nodes \<and> n_id n = pd_node d \<and> eligible req regions (rd_filter rd) n \<and>
     (\<forall>n' \<in> set nodes. eligible req regions (rd_filter rd) n' \<longrightarrow>
        (\<forall>s v rs. rd_score rd (n_id n') = Inr s \<longrightarrow>
           new_scorer draw strategy (node_to_candidate s n') (to_workload_request req) = Inr (v, rs) \<longrightarrow>
           \<not> f_lt (pd_score d) (preferred_bonus req n' v)))"
proof -
  obtain nodes regions scores sel where r: "rd_nodes rd = Inr nodes" "rd_regions rd = Inr regions"
    and sel: "sel \<in> set scores" and top: "\<forall>x \<in> set scores. \<not> f_lt (ns_score sel) (ns_score x)"
    and d: "d = decide (resolved_request lower rd req0) sel"
    and S: "\<forall>x \<in> set scores. ns_node x \<in> set (filter (eligible req regions (rd_filter rd)) nodes)"
    and B: "\<forall>n \<in> set (filter (eligible req regions (rd_filter rd)) nodes). \<forall>s v rs. rd_score rd (n_id n) = Inr s \<longrightarrow>
      new_scorer draw strategy (node_to_candidate s n) (to_workload_request req) = Inr (v, rs) \<longrightarrow>
      (\<exists>x \<in> set scores. ns_score x = preferred_bonus req n v)"
    by (rule place_server_scores [OF assms])
  from S sel have n: "ns_node sel \<in> set nodes" "eligible req regions (rd_filter rd) (ns_node sel)" by auto
  have best: "\<not> f_lt (pd_score d) (preferred_bonus req n' v)"
    if "n' \<in> set nodes" "eligible req regions (rd_filter rd) n'" "rd_score rd (n_id n') = Inr s"
      "new_scorer draw strategy (node_to_candidate s n') (to_workload_request req) = Inr (v, rs)" for n' s v rs
  proof -
    note h = that
    have "n' \<in> set (filter (eligible req regions (rd_filter rd)) nodes)" using h by simp
    with B h(3,4) obtain x where "x \<in> set scores" "ns_score x = preferred_bonus req n' v" by blast
    with top d show ?thesis by (metis (no_types, lifting) decide_def placement_decision.select_convs(5))
  qed
  show ?thesis
    by (rule exI [of _ nodes], rule exI [of _ regions], rule exI [of _ "ns_node sel"])
      (use r n best d in \<open>simp add: decide_def\<close>)
qed

text \<open>Placement does not fail without cause. If the lists of nodes and regions can be read, the
  request names a region or a required node, and some node is eligible and its snapshot can still
  be read for scoring, then a decision is returned, for every strategy.\<close>

theorem place_server_total:
  assumes srt: "sorts srt" and reads: "\<forall>i s. rd_score rd i = Inr s \<longrightarrow> snapshot_int64 s" "\<forall>c. draw c \<noteq> NaN"
    and r: "rd_nodes rd = Inr nodes" "rd_regions rd = Inr regions"
    and named: "pr_region_id (resolved_request lower rd req0) \<noteq> [] \<or> pr_required (resolved_request lower rd req0) \<noteq> []"
    and n: "n \<in> set nodes" "eligible (normalize_request (resolved_request lower rd req0)) regions (rd_filter rd) n"
      "rd_score rd (n_id n) = Inr s"
  shows "\<exists>d. fst (place_server lower render srt (new_scorer draw strategy) rd req0 st) = Inr d"
proof -
  let ?req = "resolved_request lower rd req0" and ?sc = "new_scorer draw strategy"
  let ?kept = "filter (eligible (normalize_request ?req) regions (rd_filter rd)) nodes"
  have wf: "\<forall>n \<in> set ?kept. \<forall>s. rd_score rd (n_id n) = Inr s \<longrightarrow>
      candidate_int64 (node_to_candidate s n) \<and> draw (node_to_candidate s n) \<noteq> NaN"
    using reads by (auto intro: candidate_of_snapshot)
  obtain v rs where v: "?sc (node_to_candidate s n) (to_workload_request (normalize_request ?req)) = Inr (v, rs)"
    using new_scorer_total by blast
  have kept: "n \<in> set ?kept" using n by simp
  obtain scores where sc: "score_nodes render srt ?sc ?req (rd_score rd) ?kept = Inr scores" "scores \<noteq> []"
    by (rule node_ranking.score_nodes_spec [OF new_scorer_ranking [OF srt] wf]) (use kept n(3) v in fastforce)
  have "?kept \<noteq> []" using n by (auto simp: filter_empty_conv)
  with place_server_found [OF r named refl _ sc] show ?thesis by blast
qed

text \<open>The filter keeps exactly the eligible nodes, in order, and accounts for the others: the
  rejection counter advances, modulo \<open>2 ^ 64\<close>, by the number of nodes that are neither eligible
  nor passed over in favour of a required node, and the capacity counter by the number of events
  published, each of which reports a request larger than what its node has available.\<close>

theorem filter_nodes_accounts:
  assumes "filter_nodes req0 (Inr regions) snap nodes st = (Inr kept, st')" and "req = normalize_request req0"
  shows "kept = filter (eligible req regions snap) nodes \<and>
     rejections st' = rejections st +
       of_nat (length (filter (\<lambda>n. \<not> eligible req regions snap n \<and> \<not> passed_over req regions n) nodes)) \<and>
     logged (n_id ` set nodes) st st'"
proof (intro conjI)
  have e: "filter_loop req regions snap nodes st = (kept, st')"
    using assms by (auto simp: filter_nodes_def split: prod.splits)
  show "kept = filter (eligible req regions snap) nodes" using filter_loop_fst [of req regions snap nodes st] e by simp
  show "rejections st' = rejections st +
       of_nat (length (filter (\<lambda>n. \<not> eligible req regions snap n \<and> \<not> passed_over req regions n) nodes))"
    using filter_loop_rejections [of req regions snap nodes st] e by simp
  show "logged (n_id ` set nodes) st st'" using filter_loop_logged [of nodes st req regions snap] e by simp
qed

text \<open>The bonus of the preferred node weighs as much as one megabyte of memory under the
  least-loaded strategy: on ordinary sizes, a node with at least two megabytes more available memory
  still ranks above the preferred node.\<close>

theorem preferred_node_outranked:
  assumes "ordinary_sizes (node_to_candidate sa a)" "ordinary_sizes (node_to_candidate sb b)"
    and "n_id a = pr_preferred req" "n_id b \<noteq> pr_preferred req"
    and "snap_avail_memory sa + 2 \<le> snap_avail_memory sb"
    and "least_loaded_score (node_to_candidate sa a) w = Inr (va, ra)"
    and "least_loaded_score (node_to_candidate sb b) w = Inr (vb, rb)"
  shows "f_lt (preferred_bonus req a va) (preferred_bonus req b vb)"
proof -
  let ?ca = "node_to_candidate sa a" and ?cb = "node_to_candidate sb b"
  let ?x = "cand_avail_memory ?ca * 10 ^ 9 + cand_avail_cpu ?ca * 10 ^ 3 + cand_avail_disk ?ca"
  let ?y = "cand_avail_memory ?cb * 10 ^ 9 + cand_avail_cpu ?cb * 10 ^ 3 + cand_avail_disk ?cb"
  have v: "va = Fin (of_int ?x)" "vb = Fin (of_int ?y)"
    using assms(6,7) least_loaded_exact [OF assms(1), of w] least_loaded_exact [OF assms(2), of w] by auto
  have m: "cand_avail_memory ?ca + 2 \<le> cand_avail_memory ?cb" using assms(5) by (simp add: node_to_candidate_def)
  then have lt: "?x + 10 ^ 9 < ?y" and b: "\<bar>?x + 10 ^ 9\<bar> \<le> 2 ^ 53"
    using assms(1,2) by (auto simp: ordinary_sizes_def)
  have "f_add va (Fin (10 ^ 9)) = Fin (of_int (?x + 10 ^ 9))" using f_add_exact [OF b] v by simp
  moreover have "(of_int (?x + 10 ^ 9) :: rat) < of_int ?y" using lt by (simp only: of_int_less_iff)
  ultimately show ?thesis using assms(3,4) v by (simp add: preferred_bonus_def)
qed

text \<open>The constraint scheduler keeps a node exactly when every constraint of type
  \<^verbatim>\<open>required\<close> holds of it; adding a constraint of any other type, \<^verbatim>\<open>forbidden\<close> included,
  changes nothing.\<close>

theorem constraints_required_only:
  "evaluate_constraints cs nodes =
     filter (\<lambda>n. list_all (\<lambda>c. evaluate_constraint c n) (filter (\<lambda>c. sc_type c = ''required'') cs)) nodes
   \<and> evaluate_constraints (add_constraint cs \<lparr>sc_type = ''forbidden'', sc_key = k, sc_operator = opr, sc_value = v\<rparr>) nodes
     = evaluate_constraints cs nodes"
proof -
  have "meets_all_constraints cs n =
      (list_all (\<lambda>c. evaluate_constraint c n) (filter (\<lambda>c. sc_type c = ''required'') cs))" for cs n
    by (induction cs) auto
  then have m: "meets_all_constraints cs =
      (\<lambda>n. list_all (\<lambda>c. evaluate_constraint c n) (filter (\<lambda>c. sc_type c = ''required'') cs))" for cs
    by (rule ext)
  have e: "evaluate_constraints cs nodes =
      filter (\<lambda>n. list_all (\<lambda>c. evaluate_constraint c n) (filter (\<lambda>c. sc_type c = ''required'') cs)) nodes" for cs
    by (simp add: evaluate_constraints_def m)
  show ?thesis unfolding e by (simp add: add_constraint_def)
qed

section \<open>Witnesses\<close>

definition demo_node :: "string \<Rightarrow> node" where
  "demo_node i = \<lparr>n_id = i, n_name = i, n_region = Some ''eu'', n_actual = ''online'', n_desired = ''active'',
     n_maintenance = False, n_draining = False\<rparr>"

definition demo_snapshot :: "int \<Rightarrow> snapshot" where
  "demo_snapshot mem =
     \<lparr>snap_node = ''a'', snap_region = ''eu'', snap_total_cpu = 4096, snap_total_memory = 8192,
      snap_total_disk = 20480, snap_alloc_cpu = 1024, snap_alloc_memory = 8192 - mem, snap_alloc_disk = 10240,
      snap_avail_cpu = 3072, snap_avail_memory = mem, snap_avail_disk = 10240, snap_server_count = 1,
      snap_updated = 0\<rparr>"

lemma demo_to_candidate: "node_to_candidate (demo_snapshot mem) (demo_node i) = demo_candidate i mem"
  by (simp add: node_to_candidate_def demo_snapshot_def demo_node_def demo_candidate_def)

definition demo_request :: placement_request where
  "demo_request = \<lparr>pr_server = [], pr_region_id = [], pr_region = '' eu'', pr_preferred = [], pr_required = [],
     pr_node = [], pr_allocation = [], pr_memory = 0, pr_cpu_shares = 512, pr_cpu = 0, pr_disk = 0\<rparr>"

definition demo_reads :: reads where
  "demo_reads =
     (let snap = (\<lambda>i. if i = ''a'' then Inr (demo_snapshot 1024) else if i = ''b'' then Inr (demo_snapshot 4096)
                      else Inl NoRows);
          rs = Inr [\<lparr>rg_id = ''eu'', rg_slug = ''europe'', rg_name = ''Europe'', rg_enabled = True\<rparr>]
      in \<lparr>rd_resolve = rs, rd_nodes = Inr [demo_node ''a'', demo_node ''b''], rd_regions = rs,
          rd_filter = snap, rd_score = snap\<rparr>)"

lemma demo_trim: "trim_space '' eu'' = ''eu''" "trim_space ''eu'' = ''eu''"
  by code_simp+

lemma demo_normalize:
  "normalize_request demo_request =
     demo_request\<lparr>pr_region_id := ''eu'', pr_cpu := 512, pr_memory := 2048, pr_disk := 10240\<rparr>"
  by (simp add: normalize_request_def demo_request_def demo_trim)

lemma demo_resolved:
  "resolved_request (\<lambda>s. s) demo_reads demo_request =
     demo_request\<lparr>pr_region_id := ''eu'', pr_cpu := 512, pr_memory := 2048, pr_disk := 10240\<rparr>"
  by (simp add: resolved_request_def demo_normalize demo_reads_def Let_def demo_trim resolve_region_id_def)

lemma demo_normalized:
  "normalize_request (resolved_request (\<lambda>s. s) demo_reads demo_request) =
     demo_request\<lparr>pr_region_id := ''eu'', pr_cpu := 512, pr_memory := 2048, pr_disk := 10240\<rparr>"
  unfolding demo_resolved by (simp add: normalize_request_def demo_request_def demo_trim)

lemma demo_eligible:
  "eligible (demo_request\<lparr>pr_region_id := ''eu'', pr_cpu := 512, pr_memory := 2048, pr_disk := 10240\<rparr>)
     [\<lparr>rg_id = ''eu'', rg_slug = ''europe'', rg_name = ''Europe'', rg_enabled = True\<rparr>] (rd_filter demo_reads)
     (demo_node i) \<longleftrightarrow> i = ''b''"
  by (simp add: eligible_def demo_request_def demo_node_def node_region_enabled_def out_of_service_def
      demo_reads_def Let_def has_capacity_def demo_snapshot_def)

lemma demo_filter:
  "filter_nodes (resolved_request (\<lambda>s. s) demo_reads demo_request) (rd_regions demo_reads) (rd_filter demo_reads)
     [demo_node ''a'', demo_node ''b''] \<lparr>rejections = 0, exceeded = 0, published = []\<rparr> =
     (Inr [demo_node ''b''], \<lparr>rejections = 1, exceeded = 1, published =
        [\<lparr>ev_node = ''a'', ev_resource = ''memory'', ev_available = 1024, ev_requested = 2048\<rparr>]\<rparr>)"
  unfolding filter_nodes_def demo_normalized
  by (simp add: filter_node_def demo_request_def demo_node_def node_region_enabled_def out_of_service_def
      demo_reads_def Let_def has_capacity_def demo_snapshot_def record_capacity_exceeded_def)

lemma demo_scores:
  "score_nodes (\<lambda>_. ''most free'') slice_stable (new_scorer (\<lambda>_. Fin 0) ''least-loaded'')
     (resolved_request (\<lambda>s. s) demo_reads demo_request) (rd_score demo_reads) [demo_node ''b''] =
     Inr [\<lparr>ns_node = demo_node ''b'', ns_score = Fin 4096003082240, ns_reason = ''most free''\<rparr>]"
proof -
  have c: "cand_node (demo_candidate ''b'' 4096) = ''b''" by (simp add: demo_candidate_def)
  have r: "readable (rd_score demo_reads) [demo_node ''b''] = [(demo_node ''b'', demo_snapshot 4096)]"
    by (simp add: demo_reads_def Let_def demo_node_def)
  show ?thesis
    unfolding score_nodes_def Let_def demo_normalized r
    by (simp add: demo_to_candidate engine_place_all_def to_workload_request_def new_scorer_def demo_score c
        preferred_bonus_def demo_request_def) (simp add: demo_node_def)
qed

lemma demo_place_server:
  "place_server (\<lambda>s. s) (\<lambda>_. ''most free'') slice_stable (new_scorer (\<lambda>_. Fin 0) ''least-loaded'')
       demo_reads demo_request \<lparr>rejections = 0, exceeded = 0, published = []\<rparr>
   = (Inr \<lparr>pd_region = ''eu'', pd_node = ''b'', pd_allocation = [], pd_manual = False,
          pd_score = Fin 4096003082240, pd_reasons = [''most free'']\<rparr>,
      \<lparr>rejections = 1, exceeded = 1, published =
        [\<lparr>ev_node = ''a'', ev_resource = ''memory'', ev_available = 1024, ev_requested = 2048\<rparr>]\<rparr>)"
proof -
  have n: "rd_nodes demo_reads = Inr [demo_node ''a'', demo_node ''b'']" by (simp add: demo_reads_def Let_def)
  have r: "pr_region_id (resolved_request (\<lambda>s. s) demo_reads demo_request) \<noteq> []" by (simp add: demo_resolved)
  show ?thesis
    by (simp add: place_server_def Let_def n r demo_filter demo_scores)
      (simp add: decide_def demo_resolved, simp add: demo_request_def demo_node_def)
qed

lemma demo_reads_int64: "\<forall>i s. rd_score demo_reads i = Inr s \<longrightarrow> snapshot_int64 s"
  by (auto simp: demo_reads_def Let_def demo_snapshot_def snapshot_int64_def in_int64_def split: if_splits)

text \<open>Witness of C6.\<close>

theorem place_server_sound_witness:
  "\<exists>nodes. rd_nodes demo_reads = Inr nodes \<and> (\<exists>n \<in> set nodes. n_id n = ''b'' \<and> \<not> out_of_service n)"
  using place_server_sound [OF sorts_slice_stable demo_reads_int64 _ demo_place_server refl]
  by (auto simp: eligible_def)

text \<open>An instance.\<close>

theorem place_server_total_witness:
  "\<exists>d. fst (place_server (\<lambda>s. s) (\<lambda>_. ''most free'') slice_stable (new_scorer (\<lambda>_. Fin 0) ''spread'')
       demo_reads demo_request \<lparr>rejections = 0, exceeded = 0, published = []\<rparr>) = Inr d"
proof (rule place_server_total [OF sorts_slice_stable demo_reads_int64, of _ "[demo_node ''a'', demo_node ''b'']"
      "[\<lparr>rg_id = ''eu'', rg_slug = ''europe'', rg_name = ''Europe'', rg_enabled = True\<rparr>]" _ _ "demo_node ''b''"
      "demo_snapshot 4096"])
  show "eligible (normalize_request (resolved_request (\<lambda>s. s) demo_reads demo_request))
     [\<lparr>rg_id = ''eu'', rg_slug = ''europe'', rg_name = ''Europe'', rg_enabled = True\<rparr>] (rd_filter demo_reads)
     (demo_node ''b'')"
    unfolding demo_normalized by (simp add: demo_eligible)
  show "pr_region_id (resolved_request (\<lambda>s. s) demo_reads demo_request) \<noteq> [] \<or>
      pr_required (resolved_request (\<lambda>s. s) demo_reads demo_request) \<noteq> []"
    by (simp add: demo_resolved)
qed (simp_all add: demo_reads_def Let_def demo_node_def)

text \<open>An instance.\<close>

theorem filter_nodes_accounts_witness:
  "rejections \<lparr>rejections = 1, exceeded = 1, published =
        [\<lparr>ev_node = ''a'', ev_resource = ''memory'', ev_available = 1024, ev_requested = 2048\<rparr>]\<rparr> = (0 + 1 :: uint64)"
proof -
  have f: "filter_nodes (resolved_request (\<lambda>s. s) demo_reads demo_request)
      (Inr [\<lparr>rg_id = ''eu'', rg_slug = ''europe'', rg_name = ''Europe'', rg_enabled = True\<rparr>]) (rd_filter demo_reads)
     [demo_node ''a'', demo_node ''b''] \<lparr>rejections = 0, exceeded = 0, published = []\<rparr> =
     (Inr [demo_node ''b''], \<lparr>rejections = 1, exceeded = 1, published =
        [\<lparr>ev_node = ''a'', ev_resource = ''memory'', ev_available = 1024, ev_requested = 2048\<rparr>]\<rparr>)"
    using demo_filter by (simp add: demo_reads_def Let_def)
  show ?thesis
    using filter_nodes_accounts [OF f refl]
    unfolding demo_normalized by (simp add: demo_eligible passed_over_def demo_request_def)
qed

text \<open>An instance.\<close>

theorem preferred_node_outranked_witness:
  "f_lt (preferred_bonus (demo_request\<lparr>pr_preferred := ''a''\<rparr>) (demo_node ''a'') (Fin (of_int (1024 * 10 ^ 9 + 3082240))))
     (preferred_bonus (demo_request\<lparr>pr_preferred := ''a''\<rparr>) (demo_node ''b'') (Fin (of_int (4096 * 10 ^ 9 + 3082240))))"
  by (rule preferred_node_outranked [of "demo_snapshot 1024" "demo_node ''a''" "demo_snapshot 4096" "demo_node ''b''"
        "demo_request\<lparr>pr_preferred := ''a''\<rparr>" "demo_workload []"])
    (simp_all add: demo_to_candidate demo_candidate_ok demo_score, simp_all add: demo_node_def demo_snapshot_def)

end
