(* ===== verification/Load_Balancer.thy ===== *)
theory Load_Balancer
  imports Go_Strings
begin

text \<open>
  The load balancer of \<^verbatim>\<open>forge/api/internal/services/loadbalancer\<close>: target groups kept in
  memory and mirrored in the database, and the four algorithms that pick a target.

  The state is the record \<open>lb\<close> (the three maps of \<^verbatim>\<open>Service\<close>). The database is
  write-through: the argument \<open>db\<close> of an operation is the error its statement reports, if any
  (\<open>None\<close> also covers a service without a store). Groups are values: a caller that keeps and
  mutates the pointer it passed in is not modelled.
\<close>

section \<open>State\<close>

record target =
  t_id :: string
  t_server :: string
  t_node :: string
  t_ip :: string
  t_port :: int
  t_weight :: int
  t_status :: string
  t_connections :: int

record health_check =
  hc_path :: string
  hc_port :: int
  hc_interval :: int
  hc_timeout :: int
  hc_healthy :: int
  hc_unhealthy :: int

record target_group =
  g_id :: string
  g_name :: string
  g_algorithm :: string
  g_port :: int
  g_protocol :: string
  g_health :: "health_check option"
  g_targets :: "target list"
  g_created :: gotime
  g_updated :: gotime

record lb =
  lb_groups :: "string \<rightharpoonup> target_group"
  lb_round_robin :: "string \<rightharpoonup> int"
  lb_conn_count :: "string \<rightharpoonup> int"

datatype lb_error =
    GroupIdRequired
  | GroupNameRequired
  | InvalidPort
  | UnsupportedAlgorithm
  | GroupNotFound
  | TargetNotFound
  | NoHealthyTarget
  | LbStoreError string

definition algorithms :: "string list" where
  "algorithms = [''round_robin'', ''least_connections'', ''ip_hash'', ''weighted_round_robin'']"

section \<open>Groups\<close>

definition validate_target_group :: "target_group \<Rightarrow> lb_error + target_group" where
  "validate_target_group g =
     (if g_id g = [] then Inl GroupIdRequired
      else if g_name g = [] then Inl GroupNameRequired
      else if g_port g < 1 \<or> 65535 < g_port g then Inl InvalidPort
      else let g1 = (if g_algorithm g = [] then g\<lparr>g_algorithm := ''round_robin''\<rparr> else g) in
        if g_algorithm g1 \<notin> set algorithms then Inl UnsupportedAlgorithm
        else Inr (if g_protocol g1 = [] then g1\<lparr>g_protocol := ''tcp''\<rparr> else g1))"

definition create_target_group ::
  "string option \<Rightarrow> gotime \<Rightarrow> target_group \<Rightarrow> lb \<Rightarrow> (lb_error + unit) \<times> lb" where
  "create_target_group db now g0 s =
     (case validate_target_group g0 of
        Inl e \<Rightarrow> (Inl e, s)
      | Inr g \<Rightarrow>
          (case db of
             Some e \<Rightarrow> (Inl (LbStoreError e), s)
           | None \<Rightarrow> (Inr (), s\<lparr>lb_groups := (lb_groups s)(g_id g \<mapsto> g\<lparr>g_created := now, g_updated := now\<rparr>),
                              lb_round_robin := (lb_round_robin s)(g_id g \<mapsto> 0)\<rparr>)))"

definition get_target_group :: "string \<Rightarrow> lb \<Rightarrow> lb_error + target_group" where
  "get_target_group i s = (case lb_groups s i of None \<Rightarrow> Inl GroupNotFound | Some g \<Rightarrow> Inr g)"

definition update_target_group ::
  "string option \<Rightarrow> gotime \<Rightarrow> target_group \<Rightarrow> lb \<Rightarrow> (lb_error + unit) \<times> lb" where
  "update_target_group db now g0 s =
     (case validate_target_group g0 of
        Inl e \<Rightarrow> (Inl e, s)
      | Inr g \<Rightarrow>
          if lb_groups s (g_id g) = None then (Inl GroupNotFound, s)
          else (case db of
             Some e \<Rightarrow> (Inl (LbStoreError e), s)
           | None \<Rightarrow> (Inr (), s\<lparr>lb_groups := (lb_groups s)(g_id g \<mapsto> g\<lparr>g_updated := now\<rparr>)\<rparr>)))"

definition delete_target_group :: "string option \<Rightarrow> string \<Rightarrow> lb \<Rightarrow> (lb_error + unit) \<times> lb" where
  "delete_target_group db i s =
     (if lb_groups s i = None then (Inl GroupNotFound, s)
      else (case db of
         Some e \<Rightarrow> (Inl (LbStoreError e), s)
       | None \<Rightarrow> (Inr (), s\<lparr>lb_groups := (lb_groups s)(i := None),
                          lb_round_robin := (lb_round_robin s)(i := None)\<rparr>)))"

text \<open>\<^verbatim>\<open>ListGroups\<close>: the groups in the order \<open>ks\<close> of the map, sorted by name.\<close>

definition list_groups ::
  "((target_group \<Rightarrow> target_group \<Rightarrow> bool) \<Rightarrow> target_group list \<Rightarrow> target_group list)
     \<Rightarrow> (string \<Rightarrow> string \<Rightarrow> bool) \<Rightarrow> string list \<Rightarrow> lb \<Rightarrow> target_group list" where
  "list_groups srt str_lt ks s =
     srt (\<lambda>a b. str_lt (g_name a) (g_name b)) (List.map_filter (lb_groups s) ks)"

section \<open>Targets\<close>

definition target_id :: "string \<Rightarrow> string \<Rightarrow> int \<Rightarrow> string" where
  "target_id gid sid port = ''t-'' @ gid @ ''-'' @ sid @ ''-'' @ show_int port"

definition add_target ::
  "string option \<Rightarrow> gotime \<Rightarrow> string \<Rightarrow> string \<Rightarrow> string \<Rightarrow> string \<Rightarrow> int \<Rightarrow> int \<Rightarrow> lb
     \<Rightarrow> (lb_error + target) \<times> lb" where
  "add_target db now gid sid nid ip port weight s =
     (case lb_groups s gid of
        None \<Rightarrow> (Inl GroupNotFound, s)
      | Some g \<Rightarrow>
          let t = \<lparr>t_id = target_id gid sid port, t_server = sid, t_node = nid, t_ip = ip, t_port = port,
                   t_weight = (if weight \<le> 0 then 1 else weight), t_status = ''healthy'', t_connections = 0\<rparr>
          in (case db of
                Some e \<Rightarrow> (Inl (LbStoreError e), s)
              | None \<Rightarrow> (Inr t, s\<lparr>lb_groups := (lb_groups s)(gid \<mapsto>
                             g\<lparr>g_targets := g_targets g @ [t], g_updated := now\<rparr>)\<rparr>)))"

definition remove_target ::
  "string option \<Rightarrow> gotime \<Rightarrow> string \<Rightarrow> string \<Rightarrow> lb \<Rightarrow> (lb_error + unit) \<times> lb" where
  "remove_target db now gid tid s =
     (case lb_groups s gid of
        None \<Rightarrow> (Inl GroupNotFound, s)
      | Some g \<Rightarrow>
          (case db of
             Some e \<Rightarrow> (Inl (LbStoreError e), s)
           | None \<Rightarrow>
               if (\<exists>t \<in> set (g_targets g). t_id t = tid)
               then (Inr (), s\<lparr>lb_groups := (lb_groups s)(gid \<mapsto>
                       g\<lparr>g_targets := remove_first (\<lambda>t. t_id t = tid) (g_targets g), g_updated := now\<rparr>)\<rparr>)
               else (Inl TargetNotFound, s)))"

definition set_target_status ::
  "string option \<Rightarrow> gotime \<Rightarrow> string \<Rightarrow> string \<Rightarrow> string \<Rightarrow> lb \<Rightarrow> (lb_error + unit) \<times> lb" where
  "set_target_status db now gid tid st s =
     (case lb_groups s gid of
        None \<Rightarrow> (Inl GroupNotFound, s)
      | Some g \<Rightarrow>
          (case db of
             Some e \<Rightarrow> (Inl (LbStoreError e), s)
           | None \<Rightarrow>
               if (\<exists>t \<in> set (g_targets g). t_id t = tid)
               then (Inr (), s\<lparr>lb_groups := (lb_groups s)(gid \<mapsto>
                       g\<lparr>g_targets := update_first (\<lambda>t. t_id t = tid) (\<lambda>t. t\<lparr>t_status := st\<rparr>) (g_targets g),
                         g_updated := now\<rparr>)\<rparr>)
               else (Inl TargetNotFound, s)))"

section \<open>Choice of a target\<close>

definition healthy :: "target_group \<Rightarrow> target list" where
  "healthy g = filter (\<lambda>t. t_status t = ''healthy'') (g_targets g)"

definition next_round_robin :: "string \<Rightarrow> target list \<Rightarrow> lb \<Rightarrow> target \<times> lb" where
  "next_round_robin gid ts s =
     (let n = int (length ts); idx = go_rem (map_get 0 (lb_round_robin s) gid) n in
      (ts ! nat idx, s\<lparr>lb_round_robin := (lb_round_robin s)(gid \<mapsto> go_rem (idx + 1) n)\<rparr>))"

text \<open>The loop over the targets; \<open>-1\<close> stands for no minimum yet.\<close>

fun least_loop :: "(string \<rightharpoonup> int) \<Rightarrow> int \<Rightarrow> target option \<Rightarrow> target list \<Rightarrow> target option" where
  "least_loop m mn sel [] = sel"
| "least_loop m mn sel (t # ts) =
     (let conn = map_get 0 m (t_id t) in
      if mn = -1 \<or> conn < mn then least_loop m conn (Some t) ts else least_loop m mn sel ts)"

definition next_least_connections :: "target list \<Rightarrow> lb \<Rightarrow> target option \<times> lb" where
  "next_least_connections ts s =
     (case least_loop (lb_conn_count s) (-1) None ts of
        None \<Rightarrow> (None, s)
      | Some t \<Rightarrow> (Some t, s\<lparr>lb_conn_count :=
            (lb_conn_count s)(t_id t \<mapsto> map_get 0 (lb_conn_count s) (t_id t) + 1)\<rparr>))"

text \<open>The FNV-1a hash of \<^verbatim>\<open>hash/fnv\<close>, on 32 bits.\<close>

definition fnv_step :: "char \<Rightarrow> 32 word \<Rightarrow> 32 word" where
  "fnv_step c h = xor h (of_nat (of_char c)) * 16777619"

definition fnv32a :: "string \<Rightarrow> 32 word" where
  "fnv32a s = fold fnv_step s 2166136261"

definition next_ip_hash :: "target list \<Rightarrow> string \<Rightarrow> target" where
  "next_ip_hash ts ip = (if ip = [] then ts ! 0 else ts ! nat (uint (fnv32a ip) mod int (length ts)))"

fun weighted_pick :: "int \<Rightarrow> int \<Rightarrow> target list \<Rightarrow> target option" where
  "weighted_pick idx cumulative [] = None"
| "weighted_pick idx cumulative (t # ts) =
     (let c = cumulative + t_weight t in if idx < c then Some t else weighted_pick idx c ts)"

definition total_weight :: "target list \<Rightarrow> int" where
  "total_weight ts = sum_list (map t_weight ts)"

definition next_weighted_round_robin :: "target list \<Rightarrow> lb \<Rightarrow> target \<times> lb" where
  "next_weighted_round_robin ts s =
     (let w = total_weight ts in
      if w = 0 then (ts ! 0, s)
      else let idx = go_rem (map_get 0 (lb_round_robin s) ''__weighted'' + 1) w;
               s' = s\<lparr>lb_round_robin := (lb_round_robin s)(''__weighted'' \<mapsto> idx)\<rparr>
        in (case weighted_pick idx 0 ts of Some t \<Rightarrow> (t, s') | None \<Rightarrow> (ts ! 0, s')))"

definition next_target :: "string \<Rightarrow> string \<Rightarrow> lb \<Rightarrow> (lb_error + target option) \<times> lb" where
  "next_target gid ip s =
     (case lb_groups s gid of
        None \<Rightarrow> (Inl GroupNotFound, s)
      | Some g \<Rightarrow>
          let ts = healthy g in
          if ts = [] then (Inl NoHealthyTarget, s)
          else if g_algorithm g = ''round_robin'' then
            (let (t, s') = next_round_robin gid ts s in (Inr (Some t), s'))
          else if g_algorithm g = ''least_connections'' then
            (let (t, s') = next_least_connections ts s in (Inr t, s'))
          else if g_algorithm g = ''ip_hash'' then (Inr (Some (next_ip_hash ts ip)), s)
          else if g_algorithm g = ''weighted_round_robin'' then
            (let (t, s') = next_weighted_round_robin ts s in (Inr (Some t), s'))
          else (let (t, s') = next_round_robin gid ts s in (Inr (Some t), s')))"

definition release_connection :: "string \<Rightarrow> lb \<Rightarrow> lb" where
  "release_connection tid s =
     (let c = map_get 0 (lb_conn_count s) tid in
      if 0 < c then s\<lparr>lb_conn_count := (lb_conn_count s)(tid \<mapsto> c - 1)\<rparr> else s)"

definition lb_metrics :: "string list \<Rightarrow> lb \<Rightarrow> int \<times> int \<times> int" where
  "lb_metrics ks s =
     (let gs = List.map_filter (lb_groups s) ks in
      (int (length gs), int (length (concat (map g_targets gs))), int (length (concat (map healthy gs)))))"

section \<open>Loading\<close>

text \<open>The rows the database returns: each group with its targets, or with no targets when the
  second query fails. The health check arrives decoded, \<open>None\<close> when it is absent or unreadable.\<close>

definition load_group :: "target_group \<times> (string + target list) \<Rightarrow> lb \<Rightarrow> lb" where
  "load_group row s =
     (let (g, ts) = row in
      s\<lparr>lb_groups := (lb_groups s)(g_id g \<mapsto> g\<lparr>g_targets := (case ts of Inl _ \<Rightarrow> [] | Inr xs \<Rightarrow> xs)\<rparr>),
        lb_round_robin := (lb_round_robin s)(g_id g \<mapsto> 0)\<rparr>)"

definition load_from_db :: "string + (target_group \<times> (string + target list)) list \<Rightarrow> lb \<Rightarrow> lb" where
  "load_from_db rows s = (case rows of Inl _ \<Rightarrow> s | Inr rs \<Rightarrow> fold load_group rs s)"

definition new_lb :: "(string + (target_group \<times> (string + target list)) list) option \<Rightarrow> lb" where
  "new_lb db =
     (let s = \<lparr>lb_groups = Map.empty, lb_round_robin = Map.empty, lb_conn_count = Map.empty\<rparr> in
      case db of None \<Rightarrow> s | Some rows \<Rightarrow> load_from_db rows s)"

section \<open>Invariant\<close>

definition group_ok :: "string \<Rightarrow> target_group \<Rightarrow> bool" where
  "group_ok i g \<longleftrightarrow> g_id g = i \<and> 1 \<le> g_port g \<and> g_port g \<le> 65535 \<and> g_algorithm g \<in> set algorithms"

definition lb_inv :: "lb \<Rightarrow> bool" where
  "lb_inv s \<longleftrightarrow> (\<forall>i g. lb_groups s i = Some g \<longrightarrow> group_ok i g)
     \<and> (\<forall>i c. lb_round_robin s i = Some c \<longrightarrow> 0 \<le> c) \<and> (\<forall>i c. lb_conn_count s i = Some c \<longrightarrow> 0 \<le> c)"

lemma lb_inv_get:
  "lb_inv s \<Longrightarrow> 0 \<le> map_get 0 (lb_round_robin s) i" "lb_inv s \<Longrightarrow> 0 \<le> map_get 0 (lb_conn_count s) i"
  by (auto simp: lb_inv_def map_get_def split: option.splits)

lemma validate_ok: "validate_target_group g0 = Inr g \<Longrightarrow> group_ok (g_id g) g"
  by (auto simp: validate_target_group_def group_ok_def algorithms_def Let_def split: if_splits)

lemma group_ok_update [simp]:
  "group_ok i (g\<lparr>g_targets := ts\<rparr>) = group_ok i g" "group_ok i (g\<lparr>g_updated := u\<rparr>) = group_ok i g"
  "group_ok i (g\<lparr>g_created := u\<rparr>) = group_ok i g"
  by (simp_all add: group_ok_def)

lemma inv_put_group:
  "lb_inv s \<Longrightarrow> group_ok i g \<Longrightarrow> lb_inv (s\<lparr>lb_groups := (lb_groups s)(i \<mapsto> g)\<rparr>)"
  by (auto simp: lb_inv_def)

lemma inv_put_counter:
  "lb_inv s \<Longrightarrow> 0 \<le> c \<Longrightarrow> lb_inv (s\<lparr>lb_round_robin := (lb_round_robin s)(i \<mapsto> c)\<rparr>)"
  by (auto simp: lb_inv_def)

lemma inv_put_conn:
  "lb_inv s \<Longrightarrow> 0 \<le> c \<Longrightarrow> lb_inv (s\<lparr>lb_conn_count := (lb_conn_count s)(i \<mapsto> c)\<rparr>)"
  by (auto simp: lb_inv_def)

lemma inv_create_group [keeps_inv]: "lb_inv s \<Longrightarrow> lb_inv (snd (create_target_group db now g s))"
  using inv_put_counter [OF inv_put_group]
  by (auto simp: create_target_group_def dest!: validate_ok split: sum.splits option.splits)

lemma inv_update_group [keeps_inv]: "lb_inv s \<Longrightarrow> lb_inv (snd (update_target_group db now g s))"
  by (auto simp: update_target_group_def inv_put_group dest!: validate_ok split: sum.splits option.splits)

lemma inv_delete_group [keeps_inv]: "lb_inv s \<Longrightarrow> lb_inv (snd (delete_target_group db i s))"
  by (auto simp: delete_target_group_def lb_inv_def split: option.splits)

lemma inv_group: "lb_inv s \<Longrightarrow> lb_groups s i = Some g \<Longrightarrow> group_ok i g"
  by (simp add: lb_inv_def)

lemma inv_targets [keeps_inv]:
  "lb_inv s \<Longrightarrow> lb_inv (snd (add_target db now gid sid nid ip port w s))"
  "lb_inv s \<Longrightarrow> lb_inv (snd (remove_target db now gid tid s))"
  "lb_inv s \<Longrightarrow> lb_inv (snd (set_target_status db now gid tid st s))"
  by (auto simp: add_target_def remove_target_def set_target_status_def Let_def
      intro!: inv_put_group intro: inv_group split: option.splits)

lemma inv_next_round_robin: "lb_inv s \<Longrightarrow> ts \<noteq> [] \<Longrightarrow> lb_inv (snd (next_round_robin gid ts s))"
  by (simp add: next_round_robin_def Let_def inv_put_counter lb_inv_get)

lemma inv_next_least: "lb_inv s \<Longrightarrow> lb_inv (snd (next_least_connections ts s))"
  by (auto simp: next_least_connections_def split: option.splits
      intro!: inv_put_conn add_nonneg_nonneg lb_inv_get)

lemma inv_next_weighted: "lb_inv s \<Longrightarrow> lb_inv (snd (next_weighted_round_robin ts s))"
  by (auto simp: next_weighted_round_robin_def Let_def split: option.splits
      intro!: inv_put_counter go_rem_nonneg add_nonneg_nonneg lb_inv_get)

lemma inv_next_target [keeps_inv]: "lb_inv s \<Longrightarrow> lb_inv (snd (next_target gid ip s))"
  using inv_next_round_robin [of s _ gid] inv_next_least [of s] inv_next_weighted [of s]
  by (auto simp: next_target_def Let_def split: option.splits prod.splits) (metis snd_conv)+

lemma inv_release [keeps_inv]: "lb_inv s \<Longrightarrow> lb_inv (release_connection tid s)"
  by (simp add: release_connection_def Let_def inv_put_conn)

text \<open>One call of the service.\<close>

inductive lb_step :: "lb \<Rightarrow> lb \<Rightarrow> bool" where
  "lb_step s (snd (create_target_group db now g s))"
| "lb_step s (snd (update_target_group db now g s))"
| "lb_step s (snd (delete_target_group db i s))"
| "lb_step s (snd (add_target db now gid sid nid ip port w s))"
| "lb_step s (snd (remove_target db now gid tid s))"
| "lb_step s (snd (set_target_status db now gid tid st s))"
| "lb_step s (snd (next_target gid ip s))"
| "lb_step s (release_connection tid s)"

lemma lb_steps_inv: "lb_step\<^sup>*\<^sup>* s s' \<Longrightarrow> lb_inv s \<Longrightarrow> lb_inv s'"
proof (induction rule: rtranclp_induct)
  case (step s1 s2)
  then have "lb_inv s1" by simp
  with step(2) show ?case by (cases rule: lb_step.cases) (auto intro: keeps_inv)
qed

section \<open>What the algorithms return\<close>

lemma least_loop_min:
  assumes "least_loop m mn sel ts = Some t" "\<forall>u \<in> set ts. 0 \<le> map_get 0 m (t_id u)"
    and "mn = -1 \<and> sel = None \<or> (0 \<le> mn \<and> (\<exists>u. sel = Some u \<and> map_get 0 m (t_id u) = mn))"
  shows "(t \<in> set ts \<or> sel = Some t) \<and> (\<forall>u \<in> set ts. map_get 0 m (t_id t) \<le> map_get 0 m (t_id u))
    \<and> (mn \<noteq> -1 \<longrightarrow> map_get 0 m (t_id t) \<le> mn)"
  using assms
proof (induction ts arbitrary: mn sel)
  case Nil
  then show ?case by auto
next
  case (Cons a ts)
  let ?c = "map_get 0 m (t_id a)"
  have c0: "0 \<le> ?c" and ts0: "\<forall>u \<in> set ts. 0 \<le> map_get 0 m (t_id u)" using Cons.prems(2) by auto
  show ?case
  proof (cases "mn = -1 \<or> ?c < mn")
    case True
    then have "least_loop m ?c (Some a) ts = Some t" using Cons.prems(1) by (auto simp: Let_def)
    from Cons.IH [OF this ts0] c0 True show ?thesis by auto
  next
    case False
    then have "least_loop m mn sel ts = Some t" using Cons.prems(1) by (auto simp: Let_def)
    from Cons.IH [OF this ts0] False Cons.prems(3) show ?thesis by auto
  qed
qed

lemma least_loop_Some: "ts \<noteq> [] \<or> sel \<noteq> None \<Longrightarrow> mn = -1 \<or> sel \<noteq> None \<Longrightarrow> least_loop m mn sel ts \<noteq> None"
  by (induction ts arbitrary: mn sel) (auto simp: Let_def)

lemma next_least_spec:
  assumes "lb_inv s" "ts \<noteq> []"
  shows "\<exists>t. fst (next_least_connections ts s) = Some t \<and> t \<in> set ts \<and>
    (\<forall>u \<in> set ts. map_get 0 (lb_conn_count s) (t_id t) \<le> map_get 0 (lb_conn_count s) (t_id u))"
proof -
  obtain t where t: "least_loop (lb_conn_count s) (-1) None ts = Some t"
    using least_loop_Some [of ts None "-1" "lb_conn_count s"] assms(2) by auto
  with least_loop_min [OF t] lb_inv_get(2) [OF assms(1)] show ?thesis
    by (auto simp: next_least_connections_def)
qed

text \<open>The targets repeated by weight.\<close>

definition expand :: "target list \<Rightarrow> target list" where
  "expand ts = concat (map (\<lambda>t. replicate (nat (t_weight t)) t) ts)"

lemma length_expand: "\<forall>t \<in> set ts. 0 \<le> t_weight t \<Longrightarrow> int (length (expand ts)) = total_weight ts"
  by (induction ts) (auto simp: expand_def total_weight_def)

lemma weighted_pick_expand:
  assumes "\<forall>t \<in> set ts. 0 \<le> t_weight t" "cum \<le> idx" "idx < cum + total_weight ts"
  shows "weighted_pick idx cum ts = Some (expand ts ! nat (idx - cum))"
  using assms
proof (induction ts arbitrary: cum)
  case Nil
  then show ?case by (simp add: total_weight_def)
next
  case (Cons t ts)
  let ?w = "t_weight t"
  have e: "expand (t # ts) = replicate (nat ?w) t @ expand ts" by (simp add: expand_def)
  show ?case
  proof (cases "idx < cum + ?w")
    case True
    with Cons.prems show ?thesis by (simp add: e nth_append)
  next
    case False
    then have "weighted_pick idx (cum + ?w) ts = Some (expand ts ! nat (idx - (cum + ?w)))"
      using Cons.prems by (intro Cons.IH) (auto simp: total_weight_def)
    moreover have "nat (idx - cum) - nat ?w = nat (idx - (cum + ?w))" "\<not> nat (idx - cum) < nat ?w"
      using False Cons.prems by auto
    ultimately show ?thesis using False by (simp add: e nth_append)
  qed
qed

lemma weighted_pick_mem: "weighted_pick idx c ts = Some t \<Longrightarrow> t \<in> set ts"
  by (induction ts arbitrary: c) (auto simp: Let_def split: if_splits)

lemma next_round_robin_mem:
  assumes "lb_inv s" "ts \<noteq> []"
  shows "fst (next_round_robin gid ts s) \<in> set ts"
proof -
  have "nat (map_get 0 (lb_round_robin s) gid mod int (length ts)) < length ts"
    using assms(2) by (simp add: nat_less_iff)
  then show ?thesis using assms lb_inv_get(1) [OF assms(1)] by (simp add: next_round_robin_def Let_def)
qed

lemma next_ip_hash_mem: "ts \<noteq> [] \<Longrightarrow> next_ip_hash ts ip \<in> set ts"
  by (simp add: next_ip_hash_def nat_less_iff)

lemma next_weighted_mem: "ts \<noteq> [] \<Longrightarrow> fst (next_weighted_round_robin ts s) \<in> set ts"
  by (auto simp: next_weighted_round_robin_def Let_def dest: weighted_pick_mem split: option.splits)

section \<open>Runs of requests\<close>

text \<open>What \<open>k\<close> requests in a row receive, with no other call in between.\<close>

fun serve :: "nat \<Rightarrow> string \<Rightarrow> string \<Rightarrow> lb \<Rightarrow> (lb_error + target option) list" where
  "serve 0 gid ip s = []"
| "serve (Suc k) gid ip s = fst (next_target gid ip s) # serve k gid ip (snd (next_target gid ip s))"

lemma next_target_groups [simp]: "lb_groups (snd (next_target gid ip s)) = lb_groups s"
  by (auto simp: next_target_def next_round_robin_def next_least_connections_def next_weighted_round_robin_def
      Let_def split: option.splits)

text \<open>Both rotating algorithms walk round a list made from the healthy targets: from a state whose
  counter is \<open>c\<close> the next request receives entry \<open>c\<close> modulo the length, and the counter becomes
  congruent to \<open>c + 1\<close>.\<close>

locale rotation =
  fixes counter :: "string \<Rightarrow> lb \<Rightarrow> nat" and ready :: "string \<Rightarrow> target list \<Rightarrow> lb \<Rightarrow> bool"
    and walk :: "target list \<Rightarrow> target list"
  assumes served: "ready gid ts s \<Longrightarrow>
      fst (next_target gid ip s) = Inr (Some (walk ts ! (counter gid s mod length (walk ts))))"
    and advance: "ready gid ts s \<Longrightarrow>
      counter gid (snd (next_target gid ip s)) mod length (walk ts) = Suc (counter gid s) mod length (walk ts)"
    and stays: "ready gid ts s \<Longrightarrow> ready gid ts (snd (next_target gid ip s))"
begin

lemma serve_nth:
  "ready gid ts s \<Longrightarrow> i < k \<Longrightarrow>
     serve k gid ip s ! i = Inr (Some (walk ts ! ((counter gid s + i) mod length (walk ts))))"
proof (induction k arbitrary: s i)
  case 0
  then show ?case by simp
next
  case (Suc k)
  show ?case
  proof (cases i)
    case 0
    then show ?thesis using served [OF Suc.prems(1)] by simp
  next
    case (Suc j)
    let ?s = "snd (next_target gid ip s)"
    have "(counter gid ?s + j) mod length (walk ts) = (Suc (counter gid s) + j) mod length (walk ts)"
      using advance [OF Suc.prems(1)] by (metis mod_add_left_eq)
    then show ?thesis
      using Suc.IH [of ?s j] Suc.prems stays Suc by simp
  qed
qed

lemma length_serve: "length (serve k gid ip s) = k"
  by (induction k arbitrary: s) auto

lemma serve_round:
  "ready gid ts s \<Longrightarrow>
     serve (length (walk ts)) gid ip s = map (\<lambda>t. Inr (Some t)) (rotate (counter gid s) (walk ts))"
  by (rule nth_equalityI) (auto simp: length_serve serve_nth nth_rotate)

lemma serve_fair:
  "ready gid ts s \<Longrightarrow>
     mset (serve (length (walk ts)) gid ip s) = image_mset (\<lambda>t. Inr (Some t)) (mset (walk ts))"
  by (simp add: serve_round)

end

definition round_robin_ready :: "string \<Rightarrow> target list \<Rightarrow> lb \<Rightarrow> bool" where
  "round_robin_ready gid ts s \<longleftrightarrow> ts \<noteq> [] \<and> lb_inv s \<and>
     (\<exists>g. lb_groups s gid = Some g \<and> g_algorithm g = ''round_robin'' \<and> healthy g = ts)"

interpretation round_robin: rotation "\<lambda>gid s. nat (map_get 0 (lb_round_robin s) gid)" round_robin_ready "\<lambda>ts. ts"
proof (unfold_locales)
  fix gid ts s ip assume r: "round_robin_ready gid ts s"
  let ?c = "map_get 0 (lb_round_robin s) gid" and ?n = "int (length ts)"
  have c: "0 \<le> ?c" "0 < ?n" using r lb_inv_get(1) by (auto simp: round_robin_ready_def)
  have e: "next_target gid ip s = (Inr (Some (ts ! nat (?c mod ?n))),
      s\<lparr>lb_round_robin := (lb_round_robin s)(gid \<mapsto> (?c mod ?n + 1) mod ?n)\<rparr>)"
    using r c by (auto simp: next_target_def round_robin_ready_def next_round_robin_def Let_def)
  have m: "nat (?c mod ?n) = nat ?c mod length ts" using c by (simp add: nat_mod_distrib)
  show "fst (next_target gid ip s) = Inr (Some (ts ! (nat ?c mod length ts)))" by (simp add: e m)
  have "nat ((?c mod ?n + 1) mod ?n) = Suc (nat ?c) mod length ts"
    using c by (simp add: mod_add_left_eq nat_mod_distrib nat_add_distrib)
  then show "nat (map_get 0 (lb_round_robin (snd (next_target gid ip s))) gid) mod length ts = Suc (nat ?c) mod length ts"
    by (simp add: e)
  show "round_robin_ready gid ts (snd (next_target gid ip s))"
    using r inv_next_target [of s gid ip] by (auto simp: round_robin_ready_def)
qed

definition weighted_ready :: "string \<Rightarrow> target list \<Rightarrow> lb \<Rightarrow> bool" where
  "weighted_ready gid ts s \<longleftrightarrow> (\<forall>t \<in> set ts. 0 \<le> t_weight t) \<and> 0 < total_weight ts \<and> lb_inv s \<and>
     (\<exists>g. lb_groups s gid = Some g \<and> g_algorithm g = ''weighted_round_robin'' \<and> healthy g = ts)"

interpretation weighted: rotation "\<lambda>gid s. Suc (nat (map_get 0 (lb_round_robin s) ''__weighted''))" weighted_ready expand
proof (unfold_locales)
  fix gid ts s ip assume r: "weighted_ready gid ts s"
  let ?c = "map_get 0 (lb_round_robin s) ''__weighted''" and ?W = "total_weight ts"
  have w: "\<forall>t \<in> set ts. 0 \<le> t_weight t" "0 < ?W" using r by (auto simp: weighted_ready_def)
  have len: "int (length (expand ts)) = ?W" using w(1) by (rule length_expand)
  have ts: "ts \<noteq> []" using w(2) by (auto simp: total_weight_def)
  have c: "0 \<le> ?c" using r lb_inv_get(1) by (auto simp: weighted_ready_def)
  have p: "weighted_pick ((?c + 1) mod ?W) 0 ts = Some (expand ts ! nat ((?c + 1) mod ?W))"
    using weighted_pick_expand [OF w(1), of 0 "(?c + 1) mod ?W"] w(2) by simp
  have e: "next_target gid ip s = (Inr (Some (expand ts ! nat ((?c + 1) mod ?W))),
      s\<lparr>lb_round_robin := (lb_round_robin s)(''__weighted'' \<mapsto> (?c + 1) mod ?W)\<rparr>)"
    using r ts c w(2) p by (auto simp: next_target_def weighted_ready_def next_weighted_round_robin_def Let_def)
  have m: "nat ((?c + 1) mod ?W) = Suc (nat ?c) mod length (expand ts)"
    using c len [symmetric] by (simp add: nat_mod_distrib nat_add_distrib)
  show "fst (next_target gid ip s) = Inr (Some (expand ts ! (Suc (nat ?c) mod length (expand ts))))"
    by (simp add: e m)
  show "Suc (nat (map_get 0 (lb_round_robin (snd (next_target gid ip s))) ''__weighted'')) mod length (expand ts)
      = Suc (Suc (nat ?c)) mod length (expand ts)"
    by (simp add: e m mod_Suc_eq)
  show "weighted_ready gid ts (snd (next_target gid ip s))"
    using r inv_next_target [of s gid ip] by (auto simp: weighted_ready_def)
qed

section \<open>Properties\<close>

text \<open>Round robin is fair: from any reachable counter, as many requests in a row as the group
  has healthy targets reach every healthy target exactly once, and none fails.\<close>

theorem round_robin_fair:
  assumes "lb_inv s" "lb_groups s gid = Some g" "g_algorithm g = ''round_robin''" "healthy g \<noteq> []"
  shows "mset (serve (length (healthy g)) gid ip s) = image_mset (\<lambda>t. Inr (Some t)) (mset (healthy g))"
  using assms by (intro round_robin.serve_fair) (auto simp: round_robin_ready_def)

text \<open>Weighted round robin is proportional: when no weight is negative and some weight is
  positive, as many requests in a row as the total weight reach every healthy target exactly as often
  as its weight says. The shared counter may start anywhere; no request of another weighted group
  may come in between.\<close>

theorem weighted_fair:
  assumes "lb_inv s" "lb_groups s gid = Some g" "g_algorithm g = ''weighted_round_robin''"
    and "\<forall>t \<in> set (healthy g). 0 \<le> t_weight t" "0 < total_weight (healthy g)"
  shows "mset (serve (nat (total_weight (healthy g))) gid ip s) =
    (\<Sum>t \<in># mset (healthy g). replicate_mset (nat (t_weight t)) (Inr (Some t)))"
proof -
  have "nat (total_weight (healthy g)) = length (expand (healthy g))"
    using length_expand [OF assms(4)] by simp
  moreover have "image_mset (\<lambda>t. Inr (Some t)) (mset (expand ts)) =
      (\<Sum>t \<in># mset ts. replicate_mset (nat (t_weight t)) (Inr (Some t)))" for ts
    by (induction ts) (simp_all add: expand_def)
  ultimately show ?thesis
    using weighted.serve_fair [of gid "healthy g" s ip] assms by (auto simp: weighted_ready_def)
qed

text \<open>Through any sequence of calls, whatever the database answers, every group keeps its
  identifier, a valid port and a known algorithm, and no rotation counter or connection count is
  negative; and in every state so reached a request to a group with a healthy target is served by
  one of its healthy targets, under least connections by one with the fewest connections.\<close>

theorem next_target_sound:
  assumes "lb_step\<^sup>*\<^sup>* s0 s" "lb_inv s0" "lb_groups s gid = Some g" "healthy g \<noteq> []"
  shows "lb_inv s \<and> (\<exists>t. fst (next_target gid ip s) = Inr (Some t) \<and>
    t \<in> set (healthy g) \<and>
    (g_algorithm g = ''least_connections'' \<longrightarrow>
       (\<forall>u \<in> set (healthy g). map_get 0 (lb_conn_count s) (t_id t) \<le> map_get 0 (lb_conn_count s) (t_id u))))"
proof -
  have inv: "lb_inv s" by (rule lb_steps_inv [OF assms(1,2)])
  obtain t where t: "fst (next_least_connections (healthy g) s) = Some t" "t \<in> set (healthy g)"
    "\<forall>u \<in> set (healthy g). map_get 0 (lb_conn_count s) (t_id t) \<le> map_get 0 (lb_conn_count s) (t_id u)"
    using next_least_spec [OF inv assms(4)] by blast
  note mem = next_round_robin_mem [OF inv assms(4), of gid] next_ip_hash_mem [OF assms(4), of ip]
    next_weighted_mem [OF assms(4), of s]
  show ?thesis
    using inv assms(3,4) t mem by (auto simp: next_target_def Let_def split: prod.splits)
qed

section \<open>Witnesses\<close>

definition demo_target :: "string \<Rightarrow> int \<Rightarrow> string \<Rightarrow> target" where
  "demo_target i w st = \<lparr>t_id = i, t_server = i, t_node = ''n1'', t_ip = ''10.0.0.1'', t_port = 25565, t_weight = w,
     t_status = st, t_connections = 0\<rparr>"

definition demo_group :: "string \<Rightarrow> target_group" where
  "demo_group alg = \<lparr>g_id = ''g'', g_name = ''web'', g_algorithm = alg, g_port = 80, g_protocol = ''tcp'', g_health = None,
     g_targets = [demo_target ''a'' 2 ''healthy'', demo_target ''b'' 1 ''unhealthy'', demo_target ''c'' 1 ''healthy''],
     g_created = 0, g_updated = 0\<rparr>"

definition demo_lb :: "string \<Rightarrow> lb" where
  "demo_lb alg = \<lparr>lb_groups = [''g'' \<mapsto> demo_group alg], lb_round_robin = [''g'' \<mapsto> 1], lb_conn_count = [''a'' \<mapsto> 3]\<rparr>"

lemma demo_lb_inv: "alg \<in> set algorithms \<Longrightarrow> lb_inv (demo_lb alg)"
  by (auto simp: lb_inv_def demo_lb_def group_ok_def demo_group_def)

lemma demo_healthy: "healthy (demo_group alg) = [demo_target ''a'' 2 ''healthy'', demo_target ''c'' 1 ''healthy'']"
  by (simp add: healthy_def demo_group_def demo_target_def)

text \<open>An instance.\<close>

theorem round_robin_fair_witness:
  "mset (serve 2 ''g'' [] (demo_lb ''round_robin'')) =
     {#Inr (Some (demo_target ''a'' 2 ''healthy'')), Inr (Some (demo_target ''c'' 1 ''healthy''))#}"
proof -
  have "mset (serve (length (healthy (demo_group ''round_robin''))) ''g'' [] (demo_lb ''round_robin'')) =
      image_mset (\<lambda>t. Inr (Some t)) (mset (healthy (demo_group ''round_robin'')))"
    by (rule round_robin_fair) (simp_all add: demo_lb_inv algorithms_def demo_healthy, simp_all add: demo_lb_def demo_group_def)
  then show ?thesis by (simp add: demo_healthy numeral_2_eq_2)
qed

text \<open>An instance.\<close>

theorem weighted_fair_witness:
  "mset (serve 3 ''g'' [] (demo_lb ''weighted_round_robin'')) =
     {#Inr (Some (demo_target ''a'' 2 ''healthy'')), Inr (Some (demo_target ''a'' 2 ''healthy'')),
       Inr (Some (demo_target ''c'' 1 ''healthy''))#}"
proof -
  have w: "total_weight (healthy (demo_group ''weighted_round_robin'')) = 3"
    by (simp add: demo_healthy total_weight_def demo_target_def)
  have "mset (serve (nat (total_weight (healthy (demo_group ''weighted_round_robin'')))) ''g'' [] (demo_lb ''weighted_round_robin'')) =
      (\<Sum>t \<in># mset (healthy (demo_group ''weighted_round_robin'')). replicate_mset (nat (t_weight t)) (Inr (Some t)))"
    by (rule weighted_fair) (simp_all add: demo_lb_inv algorithms_def demo_healthy w,
      simp_all add: demo_lb_def demo_group_def demo_target_def total_weight_def)
  then show ?thesis unfolding w unfolding demo_healthy by (simp add: demo_target_def numeral_2_eq_2 add.commute)
qed

text \<open>An instance.\<close>

theorem next_target_sound_witness:
  "fst (next_target ''g'' [] (demo_lb ''least_connections'')) = Inr (Some (demo_target ''c'' 1 ''healthy''))"
proof -
  have "\<exists>t. fst (next_target ''g'' [] (demo_lb ''least_connections'')) = Inr (Some t) \<and>
      t \<in> set (healthy (demo_group ''least_connections'')) \<and>
      (\<forall>u \<in> set (healthy (demo_group ''least_connections'')).
         map_get 0 (lb_conn_count (demo_lb ''least_connections'')) (t_id t)
           \<le> map_get 0 (lb_conn_count (demo_lb ''least_connections'')) (t_id u))"
    using next_target_sound [of "demo_lb ''least_connections''" "demo_lb ''least_connections''" "''g''"
        "demo_group ''least_connections''" "[]"] demo_lb_inv [of "''least_connections''"]
    by (simp add: algorithms_def demo_healthy) (simp add: demo_lb_def demo_group_def)
  then show ?thesis by (auto simp: demo_healthy demo_lb_def demo_target_def)
qed

end
