(* ===== verification/Auth_Scopes.thy ===== *)
theory Auth_Scopes
  imports Go_Strings "HOL-Library.List_Lexorder" "HOL-Library.Char_ord"
begin

text \<open>
  Authorization scopes, \<^verbatim>\<open>forge/api/internal/auth/scopes.go\<close> and \<^verbatim>\<open>scopes_extended.go\<close>.

  A \<^verbatim>\<open>ScopeSet\<close> is a set of names. An \<^verbatim>\<open>ExtendedScopeSet\<close> is a Go map to booleans, in which
  a name may be present with the value false; \<open>granted\<close> is the set it stands for. Functions that
  range over a map take the order of its keys as an argument where a result could depend on it.
  Strings are ordered bytewise, as \<^verbatim>\<open>sort.Strings\<close> orders them.
\<close>

section \<open>Scope sets\<close>

record scope =
  scope_name :: string
  scope_default :: bool

definition builtin_scopes :: "scope list" where
  "builtin_scopes = map (\<lambda>(n, d). \<lparr>scope_name = n, scope_default = d\<rparr>)
    [(''user:read'', True), (''user:write'', True), (''server:read'', True), (''server:write'', False),
     (''server:control'', False), (''backup:read'', True), (''backup:write'', False), (''file:read'', True),
     (''file:write'', False), (''admin:read'', False), (''admin:write'', False), (''node:read'', False),
     (''node:write'', False), (''node:admin'', False), (''server:admin'', False), (''server:console'', False),
     (''server:files'', False), (''server:backups'', False), (''user:admin'', False), (''system:read'', False),
     (''system:admin'', False), (''system:audit'', False)]"

definition known_scopes :: "string list" where
  "known_scopes = map scope_name builtin_scopes"

type_synonym scope_set = "string set"

datatype scope_error = UnknownScope string

definition scope_sep :: "char \<Rightarrow> bool" where
  "scope_sep c \<longleftrightarrow> c \<in> {CHR '' '', CHR '','', CHR 0x09, CHR 0x0A}"

fun parse_fields :: "string list \<Rightarrow> scope_set \<Rightarrow> scope_error + scope_set" where
  "parse_fields [] acc = Inr acc"
| "parse_fields (f # fs) acc =
     (let g = trim_space f in
      if g = [] then parse_fields fs acc
      else if g \<notin> set known_scopes then Inl (UnknownScope g)
      else parse_fields fs (insert g acc))"

definition parse_scopes :: "string \<Rightarrow> scope_error + scope_set" where
  "parse_scopes s = (if s = [] then Inr {} else parse_fields (fields_func scope_sep s) {})"

definition has_scope :: "scope_set \<Rightarrow> string \<Rightarrow> bool" where
  "has_scope s x \<longleftrightarrow> x \<in> s"

definition has_any :: "scope_set \<Rightarrow> string list \<Rightarrow> bool" where
  "has_any s xs \<longleftrightarrow> (\<exists>x \<in> set xs. x \<in> s)"

definition has_all :: "scope_set \<Rightarrow> string list \<Rightarrow> bool" where
  "has_all s xs \<longleftrightarrow> (\<forall>x \<in> set xs. x \<in> s)"

definition scope_union :: "scope_set \<Rightarrow> scope_set \<Rightarrow> scope_set" where
  "scope_union s t = s \<union> t"

definition scopes_string :: "scope_set \<Rightarrow> string" where
  "scopes_string s = (if s = {} then [] else join_with '','' (sorted_list_of_set s))"

definition default_scopes :: scope_set where
  "default_scopes = set (map scope_name (filter scope_default builtin_scopes))"

text \<open>\<^verbatim>\<open>Validate\<close> reports the first unknown name in the order \<open>ks\<close> of the map.\<close>

definition validate_scopes :: "string list \<Rightarrow> scope_set \<Rightarrow> scope_error + unit" where
  "validate_scopes ks s =
     (case find (\<lambda>k. k \<in> s \<and> k \<notin> set known_scopes) ks of None \<Rightarrow> Inr () | Some k \<Rightarrow> Inl (UnknownScope k))"

section \<open>Extended scope sets\<close>

definition all_extended_scopes :: "string list" where
  "all_extended_scopes =
    [''server:read'', ''server:write'', ''server:admin'', ''server:console'', ''server:files'', ''server:backups'',
     ''user:read'', ''user:write'', ''user:admin'', ''node:read'', ''node:write'', ''node:admin'',
     ''system:read'', ''system:admin'', ''system:audit'']"

type_synonym ext_scopes = "string \<rightharpoonup> bool"

definition granted :: "ext_scopes \<Rightarrow> string set" where
  "granted s = {k. map_get False s k}"

definition ext_has :: "ext_scopes \<Rightarrow> string \<Rightarrow> bool" where
  "ext_has s k = map_get False s k"

definition ext_add :: "ext_scopes \<Rightarrow> string \<Rightarrow> ext_scopes" where
  "ext_add s k = s(k \<mapsto> True)"

definition ext_remove :: "ext_scopes \<Rightarrow> string \<Rightarrow> ext_scopes" where
  "ext_remove s k = s(k := None)"

definition new_extended :: "string list \<Rightarrow> ext_scopes" where
  "new_extended xs = fold (\<lambda>x s. ext_add s x) xs Map.empty"

text \<open>The loops of \<^verbatim>\<open>Merge\<close> and \<^verbatim>\<open>Intersect\<close> over the keys of the first, then of the second set.\<close>

definition copy_true :: "string list \<Rightarrow> ext_scopes \<Rightarrow> ext_scopes \<Rightarrow> ext_scopes" where
  "copy_true ks s acc = fold (\<lambda>k r. if ext_has s k then r(k \<mapsto> True) else r) ks acc"

definition ext_merge :: "string list \<Rightarrow> ext_scopes \<Rightarrow> string list \<Rightarrow> ext_scopes \<Rightarrow> ext_scopes" where
  "ext_merge ks s ls t = copy_true ls t (copy_true ks s Map.empty)"

definition ext_intersect :: "string list \<Rightarrow> ext_scopes \<Rightarrow> ext_scopes \<Rightarrow> ext_scopes" where
  "ext_intersect ks s t = fold (\<lambda>k r. if ext_has s k \<and> ext_has t k then r(k \<mapsto> True) else r) ks Map.empty"

definition ext_subset :: "string list \<Rightarrow> ext_scopes \<Rightarrow> ext_scopes \<Rightarrow> bool" where
  "ext_subset ks s t \<longleftrightarrow> \<not> (\<exists>k \<in> set ks. ext_has s k \<and> \<not> ext_has t k)"

definition ext_slice :: "string list \<Rightarrow> ext_scopes \<Rightarrow> string list" where
  "ext_slice ks s = sort (filter (ext_has s) ks)"

definition ext_string :: "string list \<Rightarrow> ext_scopes \<Rightarrow> string" where
  "ext_string ks s = join_with '','' (ext_slice ks s)"

definition role_scopes :: "string \<Rightarrow> ext_scopes option" where
  "role_scopes r =
     (if r = ''admin'' then Some (new_extended all_extended_scopes)
      else if r = ''user'' then Some (new_extended
        [''server:read'', ''server:console'', ''server:files'', ''server:backups'', ''user:read'', ''user:write'',
         ''node:read'', ''system:read''])
      else if r = ''viewer'' then Some (new_extended [''server:read'', ''user:read''])
      else None)"

definition check_scope :: "ext_scopes \<Rightarrow> string \<Rightarrow> bool" where
  "check_scope s required =
     (if ext_has s required then True
      else (case split_n2 (CHR '':'') required of
              (p, None) \<Rightarrow> False
            | (p, Some _) \<Rightarrow> if ext_has s (p @ '':*'') then True else ext_has s (p @ '':admin'')))"

definition wildcard :: "string \<Rightarrow> bool" where
  "wildcard k \<longleftrightarrow> has_suffix k '':*'' \<or> has_suffix k ''.*''"

definition validate_extended :: "string list \<Rightarrow> ext_scopes \<Rightarrow> scope_error + unit" where
  "validate_extended ks s =
     (case find (\<lambda>k. ext_has s k \<and> \<not> wildcard k \<and> k \<notin> set all_extended_scopes) ks of
        None \<Rightarrow> Inr () | Some k \<Rightarrow> Inl (UnknownScope k))"

definition expand_scope :: "string \<Rightarrow> ext_scopes \<Rightarrow> ext_scopes" where
  "expand_scope x s =
     (let k = trim_space x in
      if k = [] then s
      else if wildcard k then
        (let pre = trim_suffix (trim_suffix k '':*'') ''.*'' in
         fold (\<lambda>a s. if prefix (pre @ '':'') a then s(a \<mapsto> True) else s) all_extended_scopes s)
      else s(k \<mapsto> True))"

definition expand_scopes :: "string list \<Rightarrow> ext_scopes" where
  "expand_scopes xs = fold expand_scope xs Map.empty"

section \<open>Facts\<close>

lemma known_scopes_tokens:
  "k \<in> set known_scopes \<Longrightarrow> k \<noteq> [] \<and> (\<forall>c \<in> set k. \<not> scope_sep c) \<and> trim_space k = k"
proof -
  have "list_all (\<lambda>k. k \<noteq> [] \<and> list_all (\<lambda>c. \<not> scope_sep c) k \<and> trim_space k = k) known_scopes"
    by code_simp
  then show "k \<in> set known_scopes \<Longrightarrow> k \<noteq> [] \<and> (\<forall>c \<in> set k. \<not> scope_sep c) \<and> trim_space k = k"
    by (simp add: list_all_iff)
qed

lemma parse_fields_known:
  "set fs \<subseteq> set known_scopes \<Longrightarrow> parse_fields fs acc = Inr (acc \<union> set fs)"
  using known_scopes_tokens by (induction fs arbitrary: acc) (auto simp: Let_def)

lemma parse_fields_sound:
  "parse_fields fs acc = Inr s \<Longrightarrow> acc \<subseteq> set known_scopes \<Longrightarrow> s \<subseteq> set known_scopes"
  by (induction fs arbitrary: acc) (auto simp: Let_def split: if_splits)

lemma parse_scopes_sound: "parse_scopes str = Inr s \<Longrightarrow> s \<subseteq> set known_scopes"
  by (auto simp: parse_scopes_def split: if_splits dest: parse_fields_sound)

lemma ext_has_add [simp]: "ext_has (ext_add s x) k \<longleftrightarrow> k = x \<or> ext_has s k"
  by (simp add: ext_has_def ext_add_def)

lemma ext_has_fold_add: "ext_has (fold (\<lambda>x s. ext_add s x) xs s) k \<longleftrightarrow> k \<in> set xs \<or> ext_has s k"
  by (induction xs arbitrary: s) auto

lemma ext_has_new [simp]: "ext_has (new_extended xs) k \<longleftrightarrow> k \<in> set xs"
  by (simp add: new_extended_def ext_has_fold_add) (simp add: ext_has_def)

lemma check_scope_iff:
  "check_scope s r \<longleftrightarrow> ext_has s r \<or>
     (\<exists>p q. r = p @ CHR '':'' # q \<and> CHR '':'' \<notin> set p \<and> (ext_has s (p @ '':*'') \<or> ext_has s (p @ '':admin'')))"
proof (cases "split_n2 (CHR '':'') r")
  case (Pair p o')
  show ?thesis
  proof (cases o')
    case None
    with Pair have "CHR '':'' \<notin> set r" by (simp add: split_n2_None)
    with Pair None show ?thesis by (auto simp: check_scope_def)
  next
    case (Some q)
    with Pair have r: "r = p @ CHR '':'' # q" "CHR '':'' \<notin> set p" by (simp_all add: split_n2_Some)
    have "p' = p \<and> q' = q" if "r = p' @ CHR '':'' # q'" "CHR '':'' \<notin> set p'" for p' q'
      using Pair Some that split_n2_Some [of "CHR '':''" r p' q'] by simp
    with r have u: "(\<exists>p' q'. r = p' @ CHR '':'' # q' \<and> CHR '':'' \<notin> set p' \<and> X p') \<longleftrightarrow> X p" for X by blast
    show ?thesis unfolding u by (simp add: check_scope_def Pair Some)
  qed
qed

lemma check_scope_mono: "granted s \<subseteq> granted t \<Longrightarrow> check_scope s r \<Longrightarrow> check_scope t r"
  by (auto simp: check_scope_iff granted_def ext_has_def)

lemma ext_has_fold_prefix:
  "ext_has (fold (\<lambda>a s. if P a then s(a \<mapsto> True) else s) as s) k \<longleftrightarrow> (k \<in> set as \<and> P k) \<or> ext_has s k"
  by (induction as arbitrary: s) (auto simp: ext_has_def)

lemma append_mem_iff:
  "p @ w \<in> set xs \<longleftrightarrow> p \<in> set (map (\<lambda>x. take (length x - length w) x) (filter (suffix w) xs))"
  by (auto simp: suffix_def image_iff)

lemma plain_scopes:
  "list_all (\<lambda>w. \<not> suffix '':*'' w \<and> \<not> suffix '':admin'' w) [''server:read'', ''user:read'']"
  "list_all (\<lambda>w. \<not> suffix '':*'' w \<and> \<not> suffix '':admin'' w)
     [''server:read'', ''server:console'', ''server:files'', ''server:backups'', ''user:read'', ''user:write'',
      ''node:read'', ''system:read'']"
  by code_simp+

lemma check_scope_plain:
  "list_all (\<lambda>w. \<not> suffix '':*'' w \<and> \<not> suffix '':admin'' w) xs \<Longrightarrow>
     check_scope (new_extended xs) r \<longleftrightarrow> r \<in> set xs"
  by (auto simp: check_scope_iff list_all_iff suffix_def)

lemma extended_resources:
  "map (\<lambda>x. take (length x - length '':*'') x) (filter (suffix '':*'') all_extended_scopes) = []"
  "map (\<lambda>x. take (length x - length '':admin'') x) (filter (suffix '':admin'') all_extended_scopes) =
     [''server'', ''user'', ''node'', ''system'']"
  "list_all (\<lambda>x. fst (split_n2 (CHR '':'') x) \<in> set [''server'', ''user'', ''node'', ''system'']
     \<and> snd (split_n2 (CHR '':'') x) \<noteq> None) all_extended_scopes"
  "list_all (\<lambda>p. CHR '':'' \<notin> set p) [''server'', ''user'', ''node'', ''system'']"
  by code_simp+

lemma extended_split:
  assumes "x \<in> set all_extended_scopes"
  obtains p q where "x = p @ CHR '':'' # q" "CHR '':'' \<notin> set p" "p \<in> set [''server'', ''user'', ''node'', ''system'']"
proof (cases "split_n2 (CHR '':'') x")
  case (Pair p o')
  with extended_resources(3) assms obtain q where "o' = Some q" "p \<in> set [''server'', ''user'', ''node'', ''system'']"
    unfolding list_all_iff by (metis fst_conv not_None_eq snd_conv)
  with Pair that [of p q] show thesis by (simp add: split_n2_Some)
qed

lemma check_scope_admin:
  "check_scope (new_extended all_extended_scopes) r \<longleftrightarrow>
     (\<exists>p q. r = p @ CHR '':'' # q \<and> p \<in> {''server'', ''user'', ''node'', ''system''})"
proof -
  let ?R = "[''server'', ''user'', ''node'', ''system'']"
  have w: "p @ '':*'' \<notin> set all_extended_scopes" for p
    unfolding append_mem_iff extended_resources(1) by simp
  have a: "p @ '':admin'' \<in> set all_extended_scopes \<longleftrightarrow> p \<in> set ?R" for p
    unfolding append_mem_iff extended_resources(2) by (rule refl)
  have r: "\<exists>p q. r = p @ CHR '':'' # q \<and> p \<in> set ?R" if "r \<in> set all_extended_scopes"
    using that by (rule extended_split) blast
  have c: "CHR '':'' \<notin> set p" if "p \<in> set ?R" for p
    using extended_resources(4) that unfolding list_all_iff by blast
  have "check_scope (new_extended all_extended_scopes) r \<longleftrightarrow> (\<exists>p q. r = p @ CHR '':'' # q \<and> p \<in> set ?R)"
    unfolding check_scope_iff ext_has_new a using w r c by blast
  then show ?thesis by simp
qed

text \<open>The set operations through the sets they stand for.\<close>

lemma granted_copy_true: "granted (copy_true ks s acc) = (granted s \<inter> set ks) \<union> granted acc"
  by (induction ks arbitrary: acc) (auto simp: copy_true_def granted_def ext_has_def)

lemma granted_keys: "range_order ks s \<Longrightarrow> granted s \<subseteq> set ks"
  by (auto simp: granted_def range_order_def map_get_def split: option.splits)

lemma granted_empty: "granted Map.empty = {}"
  by (simp add: granted_def)

lemma granted_merge:
  "range_order ks s \<Longrightarrow> range_order ls t \<Longrightarrow> granted (ext_merge ks s ls t) = granted s \<union> granted t"
  unfolding ext_merge_def granted_copy_true granted_empty using granted_keys [of ks s] granted_keys [of ls t]
  by blast

lemma granted_intersect: "range_order ks s \<Longrightarrow> granted (ext_intersect ks s t) = granted s \<inter> granted t"
proof -
  have "granted (fold (\<lambda>k r. if ext_has s k \<and> ext_has t k then r(k \<mapsto> True) else r) ks acc) =
      (granted s \<inter> granted t \<inter> set ks) \<union> granted acc" for acc
    by (induction ks arbitrary: acc) (auto simp: granted_def ext_has_def)
  then show "range_order ks s \<Longrightarrow> ?thesis"
    unfolding ext_intersect_def using granted_keys [of ks s] granted_empty by blast
qed

lemma ext_subset_iff: "range_order ks s \<Longrightarrow> ext_subset ks s t \<longleftrightarrow> granted s \<subseteq> granted t"
  using granted_keys [of ks s] by (auto simp: ext_subset_def granted_def ext_has_def)

lemma set_ext_slice: "range_order ks s \<Longrightarrow> set (ext_slice ks s) = granted s"
  using granted_keys [of ks s] by (auto simp: ext_slice_def granted_def ext_has_def)

section \<open>Expansion of wildcards\<close>

lemma ext_has_expand_scope:
  "ext_has (expand_scope x s) k \<longleftrightarrow> ext_has s k \<or> (trim_space x \<noteq> [] \<and>
     (if wildcard (trim_space x)
      then k \<in> set all_extended_scopes \<and> prefix (trim_suffix (trim_suffix (trim_space x) '':*'') ''.*'' @ '':'') k
      else k = trim_space x))"
  unfolding expand_scope_def Let_def
  by (cases "trim_space x = []"; cases "wildcard (trim_space x)")
    (auto simp: ext_has_fold_prefix, auto simp: ext_has_def)

lemma ext_has_expand_scopes:
  "ext_has (expand_scopes xs) k \<longleftrightarrow> (\<exists>x \<in> set xs. trim_space x \<noteq> [] \<and>
     (if wildcard (trim_space x)
      then k \<in> set all_extended_scopes \<and> prefix (trim_suffix (trim_suffix (trim_space x) '':*'') ''.*'' @ '':'') k
      else k = trim_space x))"
proof -
  have "ext_has (fold expand_scope xs s) k \<longleftrightarrow> ext_has s k \<or> (\<exists>x \<in> set xs. trim_space x \<noteq> [] \<and>
     (if wildcard (trim_space x)
      then k \<in> set all_extended_scopes \<and> prefix (trim_suffix (trim_suffix (trim_space x) '':*'') ''.*'' @ '':'') k
      else k = trim_space x))" for s
    by (induction xs arbitrary: s) (simp_all add: ext_has_expand_scope)
  then show ?thesis by (simp add: expand_scopes_def) (simp add: ext_has_def)
qed

lemma one_colon:
  "list_all (\<lambda>x. CHR '':'' \<notin> set (the (snd (split_n2 (CHR '':'') x)))) all_extended_scopes"
  by code_simp

lemma extended_prefix:
  assumes "k \<in> set all_extended_scopes" "prefix (p @ '':'') k"
  shows "CHR '':'' \<notin> set p" "\<exists>q. k = p @ CHR '':'' # q"
proof -
  from assms(2) obtain q where q: "k = p @ CHR '':'' # q" by (auto simp: prefix_def)
  then show "\<exists>q. k = p @ CHR '':'' # q" by blast
  show "CHR '':'' \<notin> set p"
  proof
    assume "CHR '':'' \<in> set p"
    then obtain a b where p: "p = a @ CHR '':'' # b" "CHR '':'' \<notin> set a" by (meson split_list_first)
    with q have "split_n2 (CHR '':'') k = (a, Some (b @ CHR '':'' # q))" by (simp add: split_n2_Some)
    with one_colon assms(1) show False unfolding list_all_iff by fastforce
  qed
qed

lemma colon_wildcard:
  assumes "wildcard t" "\<not> has_suffix t ''.*''" "\<not> has_suffix (trim_suffix t '':*'') ''.*''"
  shows "t = trim_suffix (trim_suffix t '':*'') ''.*'' @ '':*''"
  using assms by (auto simp: wildcard_def has_suffix_def trim_suffix_def suffix_def)

section \<open>Properties\<close>

text \<open>C8: Printing a scope set and parsing the text gives the set back exactly when it holds only
  known scopes.\<close>

theorem scopes_roundtrip: "parse_scopes (scopes_string s) = Inr s \<longleftrightarrow> s \<subseteq> set known_scopes"
proof
  assume "parse_scopes (scopes_string s) = Inr s"
  then show "s \<subseteq> set known_scopes" by (rule parse_scopes_sound)
next
  assume s: "s \<subseteq> set known_scopes"
  show "parse_scopes (scopes_string s) = Inr s"
  proof (cases "s = {}")
    case True
    then show ?thesis by (simp add: scopes_string_def parse_scopes_def)
  next
    case False
    have fin: "finite s" using s finite_subset by blast
    let ?ns = "sorted_list_of_set s"
    have set_ns: "set ?ns = s" using fin by simp
    have f: "fields_func scope_sep (join_with '','' ?ns) = ?ns"
      by (rule fields_join) (use known_scopes_tokens s set_ns in blast, simp add: scope_sep_def)
    then have ne: "join_with '','' ?ns \<noteq> []"
      using False set_ns by (metis fields_func.simps(1) list.set(1))
    have "parse_fields ?ns {} = Inr ({} \<union> s)"
      using parse_fields_known [of ?ns "{}"] s unfolding set_ns by blast
    then show ?thesis unfolding parse_scopes_def scopes_string_def using False f ne by simp
  qed
qed

text \<open>What the three roles may do, for every string that is asked for. A viewer has its two
  scopes and a user its eight, nothing else; an administrator has every scope, listed or not, of the
  resources server, user, node and system, and of no other resource.\<close>

theorem role_grants:
  "map_option (\<lambda>s. check_scope s r) (role_scopes ''viewer'') = Some (r \<in> {''server:read'', ''user:read''}) \<and>
   map_option (\<lambda>s. check_scope s r) (role_scopes ''user'') = Some (r \<in>
     {''server:read'', ''server:console'', ''server:files'', ''server:backups'', ''user:read'', ''user:write'',
      ''node:read'', ''system:read''}) \<and>
   map_option (\<lambda>s. check_scope s r) (role_scopes ''admin'') =
     Some (\<exists>p q. r = p @ '':'' @ q \<and> p \<in> {''server'', ''user'', ''node'', ''system''})"
proof (intro conjI)
  show "map_option (\<lambda>s. check_scope s r) (role_scopes ''viewer'') = Some (r \<in> {''server:read'', ''user:read''})"
    using check_scope_plain [OF plain_scopes(1), of r] by (simp add: role_scopes_def)
  show "map_option (\<lambda>s. check_scope s r) (role_scopes ''user'') = Some (r \<in>
     {''server:read'', ''server:console'', ''server:files'', ''server:backups'', ''user:read'', ''user:write'',
      ''node:read'', ''system:read''})"
    using check_scope_plain [OF plain_scopes(2), of r] by (simp add: role_scopes_def)
  show "map_option (\<lambda>s. check_scope s r) (role_scopes ''admin'') =
     Some (\<exists>p q. r = p @ '':'' @ q \<and> p \<in> {''server'', ''user'', ''node'', ''system''})"
    by (simp add: role_scopes_def check_scope_admin)
qed

text \<open>C9: Expanding wildcards grants nothing the unexpanded list does not grant, as long as no entry
  uses the dotted wildcard: whatever \<^verbatim>\<open>CheckScope\<close> accepts for the expanded set it accepts
  for the set of the trimmed entries.\<close>

theorem expansion_no_escalation:
  assumes plain: "\<forall>x \<in> set xs. \<not> has_suffix (trim_space x) ''.*''
      \<and> \<not> has_suffix (trim_suffix (trim_space x) '':*'') ''.*''"
    and ok: "check_scope (expand_scopes xs) r"
  shows "check_scope (new_extended (map trim_space xs)) r"
proof -
  have has: "k \<in> trim_space ` set xs \<or> (\<exists>p q. k = p @ CHR '':'' # q \<and> CHR '':'' \<notin> set p
      \<and> p @ '':*'' \<in> trim_space ` set xs \<and> k \<in> set all_extended_scopes)"
    and nw: "\<not> wildcard k \<or> k \<in> set all_extended_scopes" if h: "ext_has (expand_scopes xs) k" for k
  proof -
    from h obtain x where x: "x \<in> set xs" "if wildcard (trim_space x)
        then k \<in> set all_extended_scopes \<and> prefix (trim_suffix (trim_suffix (trim_space x) '':*'') ''.*'' @ '':'') k
        else k = trim_space x"
      unfolding ext_has_expand_scopes by blast
    then show "\<not> wildcard k \<or> k \<in> set all_extended_scopes" by (auto split: if_splits)
    show "k \<in> trim_space ` set xs \<or> (\<exists>p q. k = p @ CHR '':'' # q \<and> CHR '':'' \<notin> set p
        \<and> p @ '':*'' \<in> trim_space ` set xs \<and> k \<in> set all_extended_scopes)"
    proof (cases "wildcard (trim_space x)")
      case True
      let ?p = "trim_suffix (trim_suffix (trim_space x) '':*'') ''.*''"
      from True x have k: "k \<in> set all_extended_scopes" "prefix (?p @ '':'') k" by simp_all
      have "trim_space x = ?p @ '':*''" using True plain x(1) by (intro colon_wildcard) auto
      then have "?p @ '':*'' \<in> trim_space ` set xs" using x(1) by (metis image_eqI)
      with extended_prefix [OF k] k(1) show ?thesis by blast
    qed (use x in auto)
  qed
  from ok consider "ext_has (expand_scopes xs) r"
    | p q where "r = p @ CHR '':'' # q" "CHR '':'' \<notin> set p" "ext_has (expand_scopes xs) (p @ '':*'')"
    | p q where "r = p @ CHR '':'' # q" "CHR '':'' \<notin> set p" "ext_has (expand_scopes xs) (p @ '':admin'')"
    unfolding check_scope_iff by blast
  then show ?thesis
  proof cases
    case 1
    from has [OF this] show ?thesis unfolding check_scope_iff ext_has_new set_map by blast
  next
    case 2
    have "wildcard (p @ '':*'')" unfolding wildcard_def has_suffix_def suffix_def by blast
    moreover have "p @ '':*'' \<notin> set all_extended_scopes" unfolding append_mem_iff extended_resources(1) by simp
    ultimately show ?thesis using nw [OF 2(3)] by blast
  next
    case 3
    from has [OF 3(3)] show ?thesis
    proof
      assume "p @ '':admin'' \<in> trim_space ` set xs"
      with 3 show ?thesis unfolding check_scope_iff ext_has_new set_map by blast
    next
      assume "\<exists>p' q'. p @ '':admin'' = p' @ CHR '':'' # q' \<and> CHR '':'' \<notin> set p'
        \<and> p' @ '':*'' \<in> trim_space ` set xs \<and> p @ '':admin'' \<in> set all_extended_scopes"
      then obtain p' q' where p': "p @ CHR '':'' # ''admin'' = p' @ CHR '':'' # q'" "CHR '':'' \<notin> set p'"
        "p' @ '':*'' \<in> trim_space ` set xs" by auto
      from split_n2_Some [THEN iffD2, OF conjI, OF p'(1,2)]
        split_n2_Some [THEN iffD2, OF conjI, OF refl 3(2), of "''admin''"] have "p = p'" by simp
      with p'(3) 3 show ?thesis unfolding check_scope_iff ext_has_new set_map by blast
    qed
  qed
qed

text \<open>Witness of C9.\<close>

theorem expansion_no_escalation_witness: "check_scope (new_extended (map trim_space ['' node:*''])) ''node:write''"
proof (rule expansion_no_escalation)
  show "check_scope (expand_scopes ['' node:*'']) ''node:write''" by code_simp
  have "list_all (\<lambda>x. \<not> has_suffix (trim_space x) ''.*''
      \<and> \<not> has_suffix (trim_suffix (trim_space x) '':*'') ''.*'') ['' node:*'']" by code_simp
  then show "\<forall>x \<in> set ['' node:*'']. \<not> has_suffix (trim_space x) ''.*''
      \<and> \<not> has_suffix (trim_suffix (trim_space x) '':*'') ''.*''" unfolding list_all_iff .
qed

end
