(* ===== verification/Sessions.thy ===== *)
theory Sessions
  imports Go_Strings
begin

text \<open>
  Login sessions, \<^verbatim>\<open>forge/api/internal/auth/session.go\<close> and \<^verbatim>\<open>session_postgres.go\<close>: the two
  implementations of \<^verbatim>\<open>SessionStore\<close>, in memory with its three maps and in PostgreSQL on rows
  that keep a hash of the token, and the middleware that attaches a session to a request.

  The hash is an argument, so is every reading of the clock. A database failure is an argument that
  carries its error. Sessions are values; the in-memory store hands out pointers, and the one caller
  that writes through such a pointer, the middleware, stores the session again at once.
\<close>

section \<open>Data\<close>

record session =
  ses_id :: string
  ses_user :: string
  ses_token :: string
  ses_created :: gotime
  ses_expires :: gotime
  ses_active :: gotime
  ses_ip :: string
  ses_agent :: string

datatype session_error = FieldsRequired | SessionNotFound | SessionExpired | SessionDbError string

definition session_fields_missing :: "session \<Rightarrow> bool" where
  "session_fields_missing s \<longleftrightarrow> ses_id s = [] \<or> ses_token s = [] \<or> ses_user s = []"

definition expired_at :: "gotime \<Rightarrow> session \<Rightarrow> bool" where
  "expired_at now s \<longleftrightarrow> time_after now (ses_expires s)"

section \<open>In memory\<close>

record mem_store =
  ms_sessions :: "string \<rightharpoonup> session"
  ms_by_token :: "string \<rightharpoonup> string"
  ms_by_user :: "string \<rightharpoonup> string list"

definition new_mem :: mem_store where
  "new_mem = \<lparr>ms_sessions = Map.empty, ms_by_token = Map.empty, ms_by_user = Map.empty\<rparr>"

definition mem_create :: "session \<Rightarrow> mem_store \<Rightarrow> (session_error + unit) \<times> mem_store" where
  "mem_create s st =
     (if session_fields_missing s then (Inl FieldsRequired, st)
      else (Inr (), st\<lparr>ms_sessions := (ms_sessions st)(ses_id s \<mapsto> s),
                      ms_by_token := (ms_by_token st)(ses_token s \<mapsto> ses_id s),
                      ms_by_user := (ms_by_user st)(ses_user s \<mapsto> map_get [] (ms_by_user st) (ses_user s) @ [ses_id s])\<rparr>))"

definition mem_get :: "gotime \<Rightarrow> string \<Rightarrow> mem_store \<Rightarrow> session_error + session" where
  "mem_get now i st =
     (case ms_sessions st i of
        None \<Rightarrow> Inl SessionNotFound
      | Some s \<Rightarrow> if expired_at now s then Inl SessionExpired else Inr s)"

definition mem_get_by_token :: "gotime \<Rightarrow> string \<Rightarrow> mem_store \<Rightarrow> session_error + session" where
  "mem_get_by_token now t st =
     (case ms_by_token st t of
        None \<Rightarrow> Inl SessionNotFound
      | Some i \<Rightarrow>
          (case ms_sessions st i of
             None \<Rightarrow> Inl SessionNotFound
           | Some s \<Rightarrow> if expired_at now s then Inl SessionExpired else Inr s))"

definition mem_update :: "session \<Rightarrow> mem_store \<Rightarrow> (session_error + unit) \<times> mem_store" where
  "mem_update s st =
     (if ms_sessions st (ses_id s) = None then (Inl SessionNotFound, st)
      else (Inr (), st\<lparr>ms_sessions := (ms_sessions st)(ses_id s \<mapsto> s)\<rparr>))"

text \<open>The removal of one session, the common body of \<^verbatim>\<open>Delete\<close> and \<^verbatim>\<open>Cleanup\<close>.\<close>

definition drop_session :: "string \<Rightarrow> session \<Rightarrow> mem_store \<Rightarrow> mem_store" where
  "drop_session i s st =
     st\<lparr>ms_by_token := (ms_by_token st)(ses_token s := None),
        ms_sessions := (ms_sessions st)(i := None),
        ms_by_user := (case ms_by_user st (ses_user s) of
            None \<Rightarrow> ms_by_user st
          | Some ids \<Rightarrow>
              let ids' = remove_first (\<lambda>j. j = i) ids in
              if ids' = [] then (ms_by_user st)(ses_user s := None)
              else (ms_by_user st)(ses_user s \<mapsto> ids'))\<rparr>"

definition mem_delete :: "string \<Rightarrow> mem_store \<Rightarrow> mem_store" where
  "mem_delete i st = (case ms_sessions st i of None \<Rightarrow> st | Some s \<Rightarrow> drop_session i s st)"

definition forget :: "string \<Rightarrow> mem_store \<Rightarrow> mem_store" where
  "forget i st =
     (case ms_sessions st i of
        None \<Rightarrow> st
      | Some s \<Rightarrow> st\<lparr>ms_by_token := (ms_by_token st)(ses_token s := None), ms_sessions := (ms_sessions st)(i := None)\<rparr>)"

definition mem_delete_by_user :: "string \<Rightarrow> mem_store \<Rightarrow> mem_store" where
  "mem_delete_by_user u st =
     (let st' = fold forget (map_get [] (ms_by_user st) u) st in
      st'\<lparr>ms_by_user := (ms_by_user st')(u := None)\<rparr>)"

definition cleanup_one :: "gotime \<Rightarrow> string \<Rightarrow> mem_store \<Rightarrow> mem_store" where
  "cleanup_one now i st =
     (case ms_sessions st i of
        None \<Rightarrow> st
      | Some s \<Rightarrow> if expired_at now s then drop_session i s st else st)"

text \<open>\<^verbatim>\<open>Cleanup\<close> ranges over the sessions in the order \<open>ks\<close>.\<close>

definition mem_cleanup :: "gotime \<Rightarrow> string list \<Rightarrow> mem_store \<Rightarrow> mem_store" where
  "mem_cleanup now ks st = fold (cleanup_one now) ks st"

definition mem_list_by_user :: "string \<Rightarrow> mem_store \<Rightarrow> session list" where
  "mem_list_by_user u st = List.map_filter (ms_sessions st) (map_get [] (ms_by_user st) u)"

section \<open>In PostgreSQL\<close>

record pg_row =
  row_id :: string
  row_user :: string
  row_hash :: string
  row_ip :: string
  row_agent :: string
  row_created :: gotime
  row_expires :: gotime
  row_active :: gotime
  row_revoked :: bool
  row_revoked_at :: "gotime option"

type_synonym pg_store = "pg_row list"

text \<open>What \<^verbatim>\<open>scanSession\<close> reads of a row: the token is not stored.\<close>

definition session_of_row :: "pg_row \<Rightarrow> session" where
  "session_of_row r =
     \<lparr>ses_id = row_id r, ses_user = row_user r, ses_token = [], ses_created = row_created r,
      ses_expires = row_expires r, ses_active = row_active r, ses_ip = row_ip r, ses_agent = row_agent r\<rparr>"

definition scan_session :: "string option \<Rightarrow> gotime \<Rightarrow> pg_row option \<Rightarrow> session_error + session" where
  "scan_session fault now r =
     (case fault of
        Some e \<Rightarrow> Inl (SessionDbError e)
      | None \<Rightarrow>
          (case r of
             None \<Rightarrow> Inl SessionNotFound
           | Some x \<Rightarrow> if expired_at now (session_of_row x) then Inl SessionExpired else Inr (session_of_row x)))"

definition pg_create ::
  "(string \<Rightarrow> string) \<Rightarrow> string option \<Rightarrow> gotime \<Rightarrow> session \<Rightarrow> pg_store \<Rightarrow> (session_error + unit) \<times> pg_store" where
  "pg_create hash fault now s rows =
     (if session_fields_missing s then (Inl FieldsRequired, rows)
      else (case fault of
         Some e \<Rightarrow> (Inl (SessionDbError e), rows)
       | None \<Rightarrow>
           if (\<exists>r \<in> set rows. row_id r = ses_id s) then (Inl (SessionDbError ''duplicate key''), rows)
           else (Inr (), rows @ [\<lparr>row_id = ses_id s, row_user = ses_user s, row_hash = hash (ses_token s),
                   row_ip = ses_ip s, row_agent = ses_agent s, row_created = now, row_expires = ses_expires s,
                   row_active = now, row_revoked = False, row_revoked_at = None\<rparr>])))"

definition pg_get :: "string option \<Rightarrow> gotime \<Rightarrow> string \<Rightarrow> pg_store \<Rightarrow> session_error + session" where
  "pg_get fault now i rows = scan_session fault now (find (\<lambda>r. row_id r = i \<and> \<not> row_revoked r) rows)"

definition pg_get_by_token ::
  "(string \<Rightarrow> string) \<Rightarrow> string option \<Rightarrow> gotime \<Rightarrow> string \<Rightarrow> pg_store \<Rightarrow> session_error + session" where
  "pg_get_by_token hash fault now t rows =
     scan_session fault now (find (\<lambda>r. row_hash r = hash t \<and> \<not> row_revoked r) rows)"

definition pg_update :: "string option \<Rightarrow> session \<Rightarrow> pg_store \<Rightarrow> (session_error + unit) \<times> pg_store" where
  "pg_update fault s rows =
     (case fault of
        Some e \<Rightarrow> (Inl (SessionDbError e), rows)
      | None \<Rightarrow>
          let hit = (\<lambda>r. row_id r = ses_id s \<and> \<not> row_revoked r) in
          if \<not> (\<exists>r \<in> set rows. hit r) then (Inl SessionNotFound, rows)
          else (Inr (), map (\<lambda>r. if hit r then r\<lparr>row_ip := ses_ip s, row_agent := ses_agent s,
                  row_expires := ses_expires s, row_active := ses_active s\<rparr> else r) rows))"

definition pg_delete :: "string option \<Rightarrow> string \<Rightarrow> pg_store \<Rightarrow> pg_store" where
  "pg_delete fault i rows = (if fault \<noteq> None then rows else filter (\<lambda>r. row_id r \<noteq> i) rows)"

definition pg_delete_by_user :: "string option \<Rightarrow> string \<Rightarrow> pg_store \<Rightarrow> pg_store" where
  "pg_delete_by_user fault u rows = (if fault \<noteq> None then rows else filter (\<lambda>r. row_user r \<noteq> u) rows)"

definition pg_list_by_user ::
  "((pg_row \<Rightarrow> pg_row \<Rightarrow> bool) \<Rightarrow> pg_row list \<Rightarrow> pg_row list) \<Rightarrow> string \<Rightarrow> pg_store \<Rightarrow> session list" where
  "pg_list_by_user srt u rows =
     map session_of_row (srt (\<lambda>a b. row_active b < row_active a) (filter (\<lambda>r. row_user r = u \<and> \<not> row_revoked r) rows))"

definition pg_cleanup :: "string option \<Rightarrow> gotime \<Rightarrow> pg_store \<Rightarrow> pg_store" where
  "pg_cleanup fault now rows =
     (if fault \<noteq> None then rows
      else filter (\<lambda>r. \<not> (row_expires r < now \<or>
        (row_revoked r \<and> (case row_revoked_at r of None \<Rightarrow> False | Some t \<Rightarrow> t < now - 30 * 24 * hour)))) rows)"

section \<open>Middleware\<close>

definition request_token :: "string \<Rightarrow> string \<Rightarrow> string" where
  "request_token cookie header =
     (if cookie \<noteq> [] then cookie
      else if 7 < length header \<and> take 7 header = ''Bearer '' then drop 7 header else [])"

text \<open>\<^verbatim>\<open>SessionMiddleware\<close> over any store: the session it attaches, if any, and the store after it.
  The clock is read three times.\<close>

definition session_middleware ::
  "(gotime \<Rightarrow> string \<Rightarrow> 'st \<Rightarrow> session_error + session) \<Rightarrow> (session \<Rightarrow> 'st \<Rightarrow> (session_error + unit) \<times> 'st)
     \<Rightarrow> string \<Rightarrow> string \<Rightarrow> gotime \<Rightarrow> gotime \<Rightarrow> gotime \<Rightarrow> 'st \<Rightarrow> session option \<times> 'st" where
  "session_middleware by_token update cookie header t1 t2 t3 st =
     (let token = request_token cookie header in
      if token = [] then (None, st)
      else (case by_token t1 token st of
              Inl _ \<Rightarrow> (None, st)
            | Inr s \<Rightarrow>
                if expired_at t2 s then (None, st)
                else let s' = s\<lparr>ses_active := t3\<rparr> in (Some s', snd (update s' st))))"

definition validate_session_ip :: "session \<Rightarrow> string \<Rightarrow> bool" where
  "validate_session_ip s ip \<longleftrightarrow> ses_ip s = [] \<or> ses_ip s = ip"

section \<open>The contract of a session store\<close>

text \<open>What clients may see of a stored session.\<close>

definition session_view :: "session \<Rightarrow> string \<times> string \<times> string \<times> gotime" where
  "session_view s = (ses_user s, ses_ip s, ses_agent s, ses_expires s)"

definition view_user :: "string \<times> string \<times> string \<times> gotime \<Rightarrow> string" where
  "view_user v = fst v"

definition view_expires :: "string \<times> string \<times> string \<times> gotime \<Rightarrow> gotime" where
  "view_expires v = snd (snd (snd v))"

locale session_store =
  fixes view :: "'st \<Rightarrow> string \<Rightarrow> (string \<times> string \<times> string \<times> gotime) option"
    and owner :: "'st \<Rightarrow> string \<Rightarrow> string option"
    and inv :: "'st \<Rightarrow> bool"
    and ranges :: "string list \<Rightarrow> 'st \<Rightarrow> bool"
    and by_token :: "gotime \<Rightarrow> string \<Rightarrow> 'st \<Rightarrow> session_error + session"
    and update :: "session \<Rightarrow> 'st \<Rightarrow> (session_error + unit) \<times> 'st"
    and del :: "string \<Rightarrow> 'st \<Rightarrow> 'st"
    and del_user :: "string \<Rightarrow> 'st \<Rightarrow> 'st"
    and clean :: "gotime \<Rightarrow> string list \<Rightarrow> 'st \<Rightarrow> 'st"
  assumes by_token_unknown: "inv st \<Longrightarrow> owner st t = None \<Longrightarrow> by_token now t st = Inl SessionNotFound"
    and by_token_sound: "inv st \<Longrightarrow> owner st t = Some i \<Longrightarrow> by_token now t st = Inr s \<Longrightarrow>
      ses_id s = i \<and> view st i = Some (session_view s) \<and> \<not> expired_at now s"
    and by_token_complete: "inv st \<Longrightarrow> owner st t = Some i \<Longrightarrow> view st i = Some v \<Longrightarrow> \<not> view_expires v < now \<Longrightarrow>
      \<exists>s. by_token now t st = Inr s"
    and touch: "inv st \<Longrightarrow> by_token now t st = Inr s \<Longrightarrow> st' = snd (update (s\<lparr>ses_active := a\<rparr>) st) \<Longrightarrow>
      inv st' \<and> view st' = view st \<and> owner st' = owner st"
    and del_view: "inv st \<Longrightarrow> view (del i st) j = (if j = i then None else view st j)"
    and del_owner: "inv st \<Longrightarrow> owner (del i st) t = (if owner st t = Some i then None else owner st t)"
    and del_user_view: "inv st \<Longrightarrow> view (del_user u st) i =
      (case view st i of None \<Rightarrow> None | Some v \<Rightarrow> if view_user v = u then None else Some v)"
    and del_user_owner: "inv st \<Longrightarrow> owner (del_user u st) t = Some i \<Longrightarrow> owner st t = Some i"
    and clean_view: "inv st \<Longrightarrow> ranges ks st \<Longrightarrow> view (clean now ks st) i =
      (case view st i of None \<Rightarrow> None | Some v \<Rightarrow> if view_expires v < now then None else Some v)"
    and clean_owner: "inv st \<Longrightarrow> ranges ks st \<Longrightarrow> view (clean now ks st) i \<noteq> None \<Longrightarrow>
      owner st t = Some i \<Longrightarrow> owner (clean now ks st) t = Some i"
    and inv_del: "inv st \<Longrightarrow> inv (del i st)"
    and inv_del_user: "inv st \<Longrightarrow> inv (del_user u st)"
    and inv_clean: "inv st \<Longrightarrow> ranges ks st \<Longrightarrow> inv (clean now ks st)"
begin

abbreviation middleware where
  "middleware \<equiv> session_middleware by_token update"

lemma middleware_Some:
  assumes "inv st" "fst (middleware cookie header t1 t2 t3 st) = Some s"
  shows "owner st (request_token cookie header) = Some (ses_id s) \<and> view st (ses_id s) = Some (session_view s)
    \<and> \<not> expired_at t1 s \<and> \<not> expired_at t2 s"
proof -
  from assms(2) obtain s0 where s0: "by_token t1 (request_token cookie header) st = Inr s0" "\<not> expired_at t2 s0"
    "s = s0\<lparr>ses_active := t3\<rparr>"
    by (auto simp: session_middleware_def Let_def split: if_splits sum.splits)
  moreover obtain i where "owner st (request_token cookie header) = Some i"
    using by_token_unknown [OF assms(1), of "request_token cookie header" t1] s0(1) by fastforce
  ultimately show ?thesis
    using by_token_sound [OF assms(1)] by (auto simp: session_view_def expired_at_def)
qed

lemma middleware_keeps:
  assumes "inv st"
  shows "inv (snd (middleware cookie header t1 t2 t3 st))"
    and "view (snd (middleware cookie header t1 t2 t3 st)) = view st"
  using assms touch [OF assms _ refl]
  by (auto simp: session_middleware_def Let_def split: sum.splits)

lemma logout:
  assumes "inv st" "fst (middleware cookie header t1 t2 t3 (del i st)) = Some s"
  shows "ses_id s \<noteq> i"
  using middleware_Some [OF inv_del [OF assms(1)] assms(2)] del_view [OF assms(1), of i i] by auto

lemma logout_everywhere:
  assumes "inv st" "fst (middleware cookie header t1 t2 t3 (del_user u st)) = Some s"
  shows "ses_user s \<noteq> u"
  using middleware_Some [OF inv_del_user [OF assms(1)] assms(2)] del_user_view [OF assms(1), of u "ses_id s"]
  by (auto simp: session_view_def view_user_def split: option.splits if_splits)

lemma cleanup_transparent:
  assumes "inv st" "ranges ks st" "now \<le> t1" "fst (middleware cookie header t1 t2 t3 st) = Some s" "t1 \<le> t2"
  shows "\<exists>s'. fst (middleware cookie header t1 t2 t3 (clean now ks st)) = Some s' \<and> ses_id s' = ses_id s"
proof -
  let ?t = "request_token cookie header" and ?c = "clean now ks st"
  note m = middleware_Some [OF assms(1,4)]
  have ne: "?t \<noteq> []" using assms(4) by (auto simp: session_middleware_def)
  have ve: "view_expires (session_view s) = ses_expires s" by (simp add: view_expires_def session_view_def)
  have v: "view ?c (ses_id s) = Some (session_view s)"
    using clean_view [OF assms(1,2), of now "ses_id s"] m assms(3) ve by (simp add: expired_at_def time_after_def)
  have o: "owner ?c ?t = Some (ses_id s)" by (rule clean_owner [OF assms(1,2)]) (use m v in auto)
  have invc: "inv ?c" by (rule inv_clean [OF assms(1,2)])
  obtain s1 where s1: "by_token t1 ?t ?c = Inr s1"
    using by_token_complete [OF invc o v, of t1] m ve by (auto simp: expired_at_def time_after_def)
  then have "ses_id s1 = ses_id s" "session_view s1 = session_view s"
    using by_token_sound [OF invc o s1] v by auto
  moreover from this have "\<not> expired_at t2 s1" using m by (simp add: expired_at_def session_view_def)
  ultimately show ?thesis using s1 ne by (simp add: session_middleware_def Let_def)
qed

end

section \<open>The in-memory store meets the contract\<close>

definition user_ids :: "mem_store \<Rightarrow> string \<Rightarrow> string list" where
  "user_ids st u = map_get [] (ms_by_user st) u"

definition mem_inv :: "mem_store \<Rightarrow> bool" where
  "mem_inv st \<longleftrightarrow>
     (\<forall>i s. ms_sessions st i = Some s \<longrightarrow> ses_id s = i \<and> ms_by_token st (ses_token s) = Some i
        \<and> i \<in> set (user_ids st (ses_user s))) \<and>
     (\<forall>t i. ms_by_token st t = Some i \<longrightarrow> (\<exists>s. ms_sessions st i = Some s \<and> ses_token s = t)) \<and>
     (\<forall>u. distinct (user_ids st u) \<and>
        (\<forall>i \<in> set (user_ids st u). \<exists>s. ms_sessions st i = Some s \<and> ses_user s = u))"

lemma mem_invI:
  assumes "\<And>i s. ms_sessions st i = Some s \<Longrightarrow> ses_id s = i"
    and "\<And>i s. ms_sessions st i = Some s \<Longrightarrow> ms_by_token st (ses_token s) = Some i"
    and "\<And>i s. ms_sessions st i = Some s \<Longrightarrow> i \<in> set (user_ids st (ses_user s))"
    and "\<And>t i. ms_by_token st t = Some i \<Longrightarrow> \<exists>s. ms_sessions st i = Some s \<and> ses_token s = t"
    and "\<And>u. distinct (user_ids st u)"
    and "\<And>u i. i \<in> set (user_ids st u) \<Longrightarrow> \<exists>s. ms_sessions st i = Some s \<and> ses_user s = u"
  shows "mem_inv st"
  unfolding mem_inv_def using assms by blast

lemma mem_invD:
  assumes "mem_inv st" "ms_sessions st i = Some s"
  shows "ses_id s = i" "ms_by_token st (ses_token s) = Some i" "i \<in> set (user_ids st (ses_user s))"
  using assms unfolding mem_inv_def by blast+

lemma mem_inv_token: "mem_inv st \<Longrightarrow> ms_by_token st t = Some i \<Longrightarrow> \<exists>s. ms_sessions st i = Some s \<and> ses_token s = t"
  unfolding mem_inv_def by blast

lemma mem_inv_user: "mem_inv st \<Longrightarrow> i \<in> set (user_ids st u) \<Longrightarrow> \<exists>s. ms_sessions st i = Some s \<and> ses_user s = u"
  unfolding mem_inv_def by blast

lemma mem_inv_distinct: "mem_inv st \<Longrightarrow> distinct (user_ids st u)"
  unfolding mem_inv_def by blast

lemma mem_inv_tokens_differ:
  "mem_inv st \<Longrightarrow> ms_sessions st i = Some s \<Longrightarrow> ms_sessions st j = Some q \<Longrightarrow> i \<noteq> j \<Longrightarrow> ses_token s \<noteq> ses_token q"
  by (metis mem_invD(2) option.inject)

lemma mem_inv_new: "mem_inv new_mem"
  by (rule mem_invI) (simp_all add: new_mem_def user_ids_def)

text \<open>Creation keeps the invariant when identifier and token are new, as the random generators make
  them.\<close>

lemma mem_inv_create:
  assumes inv: "mem_inv st" and fresh: "ms_sessions st (ses_id s) = None" "ms_by_token st (ses_token s) = None"
  shows "mem_inv (snd (mem_create s st))"
proof (cases "session_fields_missing s")
  case False
  let ?st = "snd (mem_create s st)"
  have f: "ms_sessions ?st = (ms_sessions st)(ses_id s \<mapsto> s)"
    "ms_by_token ?st = (ms_by_token st)(ses_token s \<mapsto> ses_id s)"
    "user_ids ?st u = (if u = ses_user s then user_ids st u @ [ses_id s] else user_ids st u)" for u
    using False by (simp_all add: mem_create_def user_ids_def)
  have new: "ses_id s \<notin> set (user_ids st u)" for u using mem_inv_user [OF inv] fresh(1) by fastforce
  have tok: "ses_token q \<noteq> ses_token s" if "ms_sessions st j = Some q" for j q
    using mem_invD(2) [OF inv that] fresh(2) by auto
  show ?thesis
    by (rule mem_invI)
      (use fresh new tok mem_invD [OF inv] mem_inv_token [OF inv] mem_inv_user [OF inv] mem_inv_distinct [OF inv]
       in \<open>fastforce simp: f split: if_splits\<close>)+
qed (simp add: mem_create_def inv)

lemma drop_session_fields [simp]:
  "ms_sessions (drop_session i s st) = (ms_sessions st)(i := None)"
  "ms_by_token (drop_session i s st) = (ms_by_token st)(ses_token s := None)"
  "user_ids (drop_session i s st) u =
     (if u = ses_user s then remove_first (\<lambda>j. j = i) (user_ids st u) else user_ids st u)"
  by (auto simp: drop_session_def user_ids_def map_get_def Let_def split: option.splits)

lemma mem_inv_drop:
  assumes inv: "mem_inv st" and s: "ms_sessions st i = Some s"
  shows "mem_inv (drop_session i s st)"
proof -
  have ids: "set (remove_first (\<lambda>j. j = i) (user_ids st u)) = set (user_ids st u) - {i}" for u
    by (rule set_remove_first_distinct [OF mem_inv_distinct [OF inv]])
  have other: "i \<notin> set (user_ids st u)" if "u \<noteq> ses_user s" for u using mem_inv_user [OF inv, of i u] s that by auto
  show ?thesis
  proof (rule mem_invI)
    fix j q assume q: "ms_sessions (drop_session i s st) j = Some q"
    then have q': "ms_sessions st j = Some q" "j \<noteq> i" by (auto split: if_splits)
    show "ses_id q = j" by (rule mem_invD(1) [OF inv q'(1)])
    show "ms_by_token (drop_session i s st) (ses_token q) = Some j"
      using mem_invD(2) [OF inv q'(1)] mem_inv_tokens_differ [OF inv q'(1) s q'(2)] by simp
    show "j \<in> set (user_ids (drop_session i s st) (ses_user q))"
      using mem_invD(3) [OF inv q'(1)] q'(2) by (auto simp: ids)
  next
    fix t j assume "ms_by_token (drop_session i s st) t = Some j"
    then have "ms_by_token st t = Some j" "t \<noteq> ses_token s" by (auto split: if_splits)
    then show "\<exists>q. ms_sessions (drop_session i s st) j = Some q \<and> ses_token q = t"
      using mem_inv_token [OF inv] s by fastforce
  next
    fix u
    show "distinct (user_ids (drop_session i s st) u)" using mem_inv_distinct [OF inv] by auto
  next
    fix u j assume "j \<in> set (user_ids (drop_session i s st) u)"
    then have "j \<in> set (user_ids st u)" "j \<noteq> i" using other [of u] by (auto simp: ids split: if_splits)
    then show "\<exists>q. ms_sessions (drop_session i s st) j = Some q \<and> ses_user q = u"
      using mem_inv_user [OF inv] by simp
  qed
qed

lemma mem_inv_delete: "mem_inv st \<Longrightarrow> mem_inv (mem_delete i st)"
  by (auto simp: mem_delete_def mem_inv_drop split: option.splits)

lemma mem_delete_sessions: "ms_sessions (mem_delete i st) = (ms_sessions st)(i := None)"
  by (auto simp: mem_delete_def split: option.splits)

lemma mem_delete_token:
  assumes inv: "mem_inv st"
  shows "ms_by_token (mem_delete i st) t = (if ms_by_token st t = Some i then None else ms_by_token st t)"
proof (cases "ms_sessions st i")
  case None
  then have "ms_by_token st t \<noteq> Some i" using mem_inv_token [OF inv] by fastforce
  with None show ?thesis by (simp add: mem_delete_def)
next
  case (Some s)
  then have "ms_by_token st t = Some i \<longleftrightarrow> t = ses_token s"
    using mem_inv_token [OF inv, of t i] mem_invD(2) [OF inv Some] by auto
  with Some show ?thesis by (simp add: mem_delete_def)
qed

lemma forget_fields [simp]:
  "ms_sessions (forget i st) = (ms_sessions st)(i := None)"
  "ms_by_user (forget i st) = ms_by_user st"
  by (auto simp: forget_def split: option.splits)

lemma forget_token: "mem_inv st \<Longrightarrow> ms_by_token (forget i st) = ms_by_token (mem_delete i st)"
  by (auto simp: forget_def mem_delete_def split: option.splits)

lemma fold_forget_sessions:
  "ms_sessions (fold forget ids st) j = (if j \<in> set ids then None else ms_sessions st j)"
  "ms_by_user (fold forget ids st) = ms_by_user st"
  by (induction ids arbitrary: st) auto

lemma fold_forget_token:
  "ms_by_token (fold forget ids st) t =
     (if \<exists>i \<in> set ids. \<exists>s. ms_sessions st i = Some s \<and> ses_token s = t then None else ms_by_token st t)"
proof (induction ids arbitrary: st)
  case (Cons a ids)
  have f: "ms_by_token (forget a st) t =
      (if \<exists>s. ms_sessions st a = Some s \<and> ses_token s = t then None else ms_by_token st t)"
    by (auto simp: forget_def split: option.splits)
  have "ms_by_token (fold forget (a # ids) st) t = (if \<exists>i \<in> set ids. i \<noteq> a \<and> (\<exists>s. ms_sessions st i = Some s \<and> ses_token s = t)
      then None else ms_by_token (forget a st) t)"
    by (auto simp: Cons.IH)
  then show ?case unfolding f by auto
qed simp

lemma mem_delete_by_user_fields:
  assumes inv: "mem_inv st"
  shows "ms_sessions (mem_delete_by_user u st) i =
      (case ms_sessions st i of None \<Rightarrow> None | Some s \<Rightarrow> if ses_user s = u then None else Some s)"
    and "ms_by_token (mem_delete_by_user u st) t =
      (if \<exists>i s. ms_sessions st i = Some s \<and> ses_user s = u \<and> ses_token s = t then None else ms_by_token st t)"
    and "user_ids (mem_delete_by_user u st) v = (if v = u then [] else user_ids st v)"
proof -
  have mem: "i \<in> set (user_ids st u) \<longleftrightarrow> (\<exists>s. ms_sessions st i = Some s \<and> ses_user s = u)" for i
    using mem_inv_user [OF inv, of i u] mem_invD(3) [OF inv] by blast
  have e: "mem_delete_by_user u st =
      (fold forget (user_ids st u) st)\<lparr>ms_by_user := (ms_by_user st)(u := None)\<rparr>"
    by (simp add: mem_delete_by_user_def Let_def user_ids_def fold_forget_sessions)
  show "ms_sessions (mem_delete_by_user u st) i =
      (case ms_sessions st i of None \<Rightarrow> None | Some s \<Rightarrow> if ses_user s = u then None else Some s)"
    by (auto simp: e fold_forget_sessions mem split: option.splits)
  show "ms_by_token (mem_delete_by_user u st) t =
      (if \<exists>i s. ms_sessions st i = Some s \<and> ses_user s = u \<and> ses_token s = t then None else ms_by_token st t)"
    unfolding e by (simp add: fold_forget_token) (use mem in force)
  show "user_ids (mem_delete_by_user u st) v = (if v = u then [] else user_ids st v)"
    by (simp add: e user_ids_def)
qed

lemma mem_inv_delete_by_user:
  assumes inv: "mem_inv st"
  shows "mem_inv (mem_delete_by_user u st)"
proof (rule mem_invI)
  note f = mem_delete_by_user_fields [OF inv, of u]
  {
    fix i s assume "ms_sessions (mem_delete_by_user u st) i = Some s"
    then have s: "ms_sessions st i = Some s" "ses_user s \<noteq> u" by (auto simp: f split: option.splits if_splits)
    show "ses_id s = i" by (rule mem_invD(1) [OF inv s(1)])
    show "ms_by_token (mem_delete_by_user u st) (ses_token s) = Some i"
      unfolding f using mem_invD(2) [OF inv s(1)] mem_inv_tokens_differ [OF inv s(1)] s by (metis option.inject)
    show "i \<in> set (user_ids (mem_delete_by_user u st) (ses_user s))"
      using s mem_invD(3) [OF inv s(1)] by (simp add: f)
  next
    fix t i assume "ms_by_token (mem_delete_by_user u st) t = Some i"
    then have "ms_by_token st t = Some i" "\<not> (\<exists>i s. ms_sessions st i = Some s \<and> ses_user s = u \<and> ses_token s = t)"
      by (auto simp: f split: if_splits)
    then obtain s where "ms_sessions st i = Some s" "ses_token s = t" "ses_user s \<noteq> u"
      using mem_inv_token [OF inv, of t i] by blast
    then show "\<exists>s. ms_sessions (mem_delete_by_user u st) i = Some s \<and> ses_token s = t" by (simp add: f)
  next
    fix v
    show "distinct (user_ids (mem_delete_by_user u st) v)" using mem_inv_distinct [OF inv] by (simp add: f)
  next
    fix v i assume "i \<in> set (user_ids (mem_delete_by_user u st) v)"
    then have "i \<in> set (user_ids st v)" "v \<noteq> u" by (auto simp: f split: if_splits)
    with mem_inv_user [OF inv] show "\<exists>s. ms_sessions (mem_delete_by_user u st) i = Some s \<and> ses_user s = v"
      by (fastforce simp: f)
  }
qed

lemma cleanup_spec:
  assumes "mem_inv st"
  shows "mem_inv (mem_cleanup now ks st) \<and>
    (\<forall>i. ms_sessions (mem_cleanup now ks st) i =
      (case ms_sessions st i of None \<Rightarrow> None | Some s \<Rightarrow> if i \<in> set ks \<and> expired_at now s then None else Some s))"
  using assms
proof (induction ks arbitrary: st)
  case Nil
  then show ?case by (simp add: mem_cleanup_def split: option.splits)
next
  case (Cons k ks)
  have inv: "mem_inv (cleanup_one now k st)"
    using Cons.prems by (auto simp: cleanup_one_def mem_inv_drop split: option.splits)
  have one: "ms_sessions (cleanup_one now k st) i =
      (case ms_sessions st i of None \<Rightarrow> None | Some s \<Rightarrow> if i = k \<and> expired_at now s then None else Some s)" for i
    by (auto simp: cleanup_one_def split: option.splits)
  from Cons.IH [OF inv] show ?case by (auto simp: mem_cleanup_def one split: option.splits)
qed

definition mem_view :: "mem_store \<Rightarrow> string \<Rightarrow> (string \<times> string \<times> string \<times> gotime) option" where
  "mem_view st i = map_option session_view (ms_sessions st i)"

lemma mem_touch:
  assumes inv: "mem_inv st" and s: "ms_sessions st (ses_id s) = Some s"
  shows "mem_inv (snd (mem_update (s\<lparr>ses_active := a\<rparr>) st))"
    "ms_by_token (snd (mem_update (s\<lparr>ses_active := a\<rparr>) st)) = ms_by_token st"
    "mem_view (snd (mem_update (s\<lparr>ses_active := a\<rparr>) st)) = mem_view st"
proof -
  let ?st = "snd (mem_update (s\<lparr>ses_active := a\<rparr>) st)"
  have f: "ms_sessions ?st = (ms_sessions st)(ses_id s \<mapsto> s\<lparr>ses_active := a\<rparr>)" "ms_by_token ?st = ms_by_token st"
    "user_ids ?st u = user_ids st u" for u
    using s by (simp_all add: mem_update_def user_ids_def)
  show "ms_by_token ?st = ms_by_token st" by (rule f(2))
  show "mem_view ?st = mem_view st" using s by (auto simp: mem_view_def f session_view_def)
  have bwd: "\<exists>q0. ms_sessions st i = Some q0 \<and> ses_id q = ses_id q0 \<and> ses_token q = ses_token q0 \<and> ses_user q = ses_user q0"
    if "ms_sessions ?st i = Some q" for i q
    using that s by (auto simp: f split: if_splits)
  have fwd: "\<exists>q. ms_sessions ?st i = Some q \<and> ses_token q = ses_token q0 \<and> ses_user q = ses_user q0"
    if "ms_sessions st i = Some q0" for i q0
    using that s by (auto simp: f)
  show "mem_inv ?st"
  proof (rule mem_invI)
    fix i q assume "ms_sessions ?st i = Some q"
    from bwd [OF this] obtain q0 where q0: "ms_sessions st i = Some q0" "ses_id q = ses_id q0"
      "ses_token q = ses_token q0" "ses_user q = ses_user q0" by blast
    show "ses_id q = i" "ms_by_token ?st (ses_token q) = Some i" "i \<in> set (user_ids ?st (ses_user q))"
      using mem_invD [OF inv q0(1)] q0 by (simp_all add: f)
  next
    fix t i assume "ms_by_token ?st t = Some i"
    then show "\<exists>q. ms_sessions ?st i = Some q \<and> ses_token q = t" using mem_inv_token [OF inv] fwd unfolding f by metis
  next
    fix u
    show "distinct (user_ids ?st u)" using mem_inv_distinct [OF inv] by (simp add: f)
  next
    fix u i assume "i \<in> set (user_ids ?st u)"
    then show "\<exists>q. ms_sessions ?st i = Some q \<and> ses_user q = u" using mem_inv_user [OF inv] fwd unfolding f by metis
  qed
qed

lemma mem_get_by_token_Inr:
  "mem_inv st \<Longrightarrow> mem_get_by_token now t st = Inr s \<Longrightarrow>
     ms_by_token st t = Some (ses_id s) \<and> ms_sessions st (ses_id s) = Some s \<and> \<not> expired_at now s"
  by (auto simp: mem_get_by_token_def dest: mem_invD(1) split: option.splits if_splits)

interpretation mem: session_store mem_view ms_by_token mem_inv "\<lambda>ks st. range_order ks (ms_sessions st)"
  mem_get_by_token mem_update mem_delete mem_delete_by_user mem_cleanup
proof (unfold_locales)
  fix st :: mem_store assume inv: "mem_inv st"
  fix t i now s j u v ks a st'
  show "ms_by_token st t = None \<Longrightarrow> mem_get_by_token now t st = Inl SessionNotFound"
    by (simp add: mem_get_by_token_def)
  show "ms_by_token st t = Some i \<Longrightarrow> mem_get_by_token now t st = Inr s \<Longrightarrow>
      ses_id s = i \<and> mem_view st i = Some (session_view s) \<and> \<not> expired_at now s"
    using mem_get_by_token_Inr [OF inv] by (fastforce simp: mem_view_def)
  show "ms_by_token st t = Some i \<Longrightarrow> mem_view st i = Some v \<Longrightarrow> \<not> view_expires v < now \<Longrightarrow>
      \<exists>s. mem_get_by_token now t st = Inr s"
    by (auto simp: mem_get_by_token_def mem_view_def session_view_def view_expires_def expired_at_def time_after_def)
  show "mem_get_by_token now t st = Inr s \<Longrightarrow> st' = snd (mem_update (s\<lparr>ses_active := a\<rparr>) st) \<Longrightarrow>
      mem_inv st' \<and> mem_view st' = mem_view st \<and> ms_by_token st' = ms_by_token st"
    using mem_get_by_token_Inr [OF inv] mem_touch [OF inv] by blast
  show "mem_view (mem_delete i st) j = (if j = i then None else mem_view st j)"
    by (simp add: mem_view_def mem_delete_sessions)
  show "ms_by_token (mem_delete i st) t = (if ms_by_token st t = Some i then None else ms_by_token st t)"
    by (rule mem_delete_token [OF inv])
  show "mem_view (mem_delete_by_user u st) i =
      (case mem_view st i of None \<Rightarrow> None | Some v \<Rightarrow> if view_user v = u then None else Some v)"
    by (auto simp: mem_view_def mem_delete_by_user_fields [OF inv] session_view_def view_user_def split: option.splits)
  show "ms_by_token (mem_delete_by_user u st) t = Some i \<Longrightarrow> ms_by_token st t = Some i"
    by (auto simp: mem_delete_by_user_fields [OF inv] split: if_splits)
  show "mem_inv (mem_delete i st)" by (rule mem_inv_delete [OF inv])
  show "mem_inv (mem_delete_by_user u st)" by (rule mem_inv_delete_by_user [OF inv])
  assume ks: "range_order ks (ms_sessions st)"
  note c = cleanup_spec [OF inv, of now ks]
  show "mem_inv (mem_cleanup now ks st)" using c by blast
  have dom: "i \<in> set ks" if "ms_sessions st i \<noteq> None" for i using ks that by (auto simp: range_order_def)
  show "mem_view (mem_cleanup now ks st) i =
      (case mem_view st i of None \<Rightarrow> None | Some v \<Rightarrow> if view_expires v < now then None else Some v)"
    using c dom [of i]
    by (auto simp: mem_view_def session_view_def view_expires_def expired_at_def time_after_def split: option.splits)
  assume "mem_view (mem_cleanup now ks st) i \<noteq> None" "ms_by_token st t = Some i"
  then show "ms_by_token (mem_cleanup now ks st) t = Some i"
    using c mem_inv_token [OF inv, of t i] mem_invD(2) [of "mem_cleanup now ks st" i]
    by (auto simp: mem_view_def split: option.splits if_splits)
qed

section \<open>The PostgreSQL store meets the contract\<close>

definition live_rows :: "pg_store \<Rightarrow> pg_row list" where
  "live_rows rows = filter (\<lambda>r. \<not> row_revoked r) rows"

text \<open>The primary key, and tokens that do not share a hash.\<close>

definition pg_inv :: "pg_store \<Rightarrow> bool" where
  "pg_inv rows \<longleftrightarrow> distinct (map row_id rows) \<and> distinct (map row_hash (live_rows rows))"

definition pg_view :: "pg_store \<Rightarrow> string \<Rightarrow> (string \<times> string \<times> string \<times> gotime) option" where
  "pg_view rows i = map_option (\<lambda>r. session_view (session_of_row r)) (find (\<lambda>r. row_id r = i \<and> \<not> row_revoked r) rows)"

definition pg_owner :: "(string \<Rightarrow> string) \<Rightarrow> pg_store \<Rightarrow> string \<Rightarrow> string option" where
  "pg_owner hash rows t = map_option row_id (find (\<lambda>r. row_hash r = hash t \<and> \<not> row_revoked r) rows)"

lemma find_conj: "find (\<lambda>x. p x \<and> q x) xs = find p (filter q xs)"
  by (induction xs) auto

lemma find_key: "distinct (map f xs) \<Longrightarrow> find (\<lambda>x. f x = k) xs = Some r \<longleftrightarrow> r \<in> set xs \<and> f r = k"
  by (induction xs) (auto simp: image_iff)

lemma find_key_None: "find (\<lambda>x. f x = k) xs = None \<longleftrightarrow> (\<forall>x \<in> set xs. f x \<noteq> k)"
  by (auto simp: find_None_iff)

lemma find_key_filter:
  "distinct (map f xs) \<Longrightarrow> find (\<lambda>x. f x = k) (filter P xs) =
     (case find (\<lambda>x. f x = k) xs of None \<Rightarrow> None | Some r \<Rightarrow> if P r then Some r else None)"
proof (induction xs)
  case (Cons a xs)
  have "find (\<lambda>x. f x = f a) xs = None" "find (\<lambda>x. f x = f a) (filter P xs) = None"
    using Cons.prems by (auto simp: find_key_None) (metis image_eqI)+
  with Cons show ?case by auto
qed simp

lemma live_rows_filter: "live_rows (filter P rows) = filter P (live_rows rows)"
  by (simp add: live_rows_def conj_commute)

lemma pg_inv_filter: "pg_inv rows \<Longrightarrow> pg_inv (filter P rows)"
  by (simp add: pg_inv_def live_rows_filter distinct_map_filter)

lemma pg_inv_live:
  "pg_inv rows \<Longrightarrow> distinct (map row_id (live_rows rows))" "pg_inv rows \<Longrightarrow> distinct (map row_hash (live_rows rows))"
  by (simp_all add: pg_inv_def live_rows_def distinct_map_filter)

lemma pg_view_live: "pg_view rows i = map_option (\<lambda>r. session_view (session_of_row r)) (find (\<lambda>r. row_id r = i) (live_rows rows))"
  by (simp add: pg_view_def live_rows_def find_conj)

lemma pg_owner_live: "pg_owner hash rows t = map_option row_id (find (\<lambda>r. row_hash r = hash t) (live_rows rows))"
  by (simp add: pg_owner_def live_rows_def find_conj)

lemma pg_get_live: "pg_get_by_token hash None now t rows = scan_session None now (find (\<lambda>r. row_hash r = hash t) (live_rows rows))"
  by (simp add: pg_get_by_token_def live_rows_def find_conj)

lemma pg_owner_row:
  assumes "pg_inv rows" "pg_owner hash rows t = Some i"
  obtains r where "r \<in> set (live_rows rows)" "row_id r = i" "row_hash r = hash t"
    "find (\<lambda>r. row_hash r = hash t) (live_rows rows) = Some r" "pg_view rows i = Some (session_view (session_of_row r))"
proof -
  from assms(2) obtain r where r: "find (\<lambda>r. row_hash r = hash t) (live_rows rows) = Some r" "row_id r = i"
    by (auto simp: pg_owner_live)
  then have m: "r \<in> set (live_rows rows)" "row_hash r = hash t" by (auto simp: find_key [OF pg_inv_live(2) [OF assms(1)]])
  moreover have "find (\<lambda>r. row_id r = i) (live_rows rows) = Some r"
    using m r by (simp add: find_key [OF pg_inv_live(1) [OF assms(1)]])
  ultimately show thesis using r that by (simp add: pg_view_live)
qed

lemma find_key_map:
  "(\<And>x. f (g x) = f x) \<Longrightarrow> find (\<lambda>x. f x = k) (map g xs) = map_option g (find (\<lambda>x. f x = k) xs)"
  by (induction xs) auto

lemma pg_touch:
  assumes inv: "pg_inv rows" and s: "find (\<lambda>r. row_hash r = hash t) (live_rows rows) = Some r"
  shows "pg_inv (snd (pg_update None ((session_of_row r)\<lparr>ses_active := a\<rparr>) rows))
    \<and> pg_view (snd (pg_update None ((session_of_row r)\<lparr>ses_active := a\<rparr>) rows)) = pg_view rows
    \<and> pg_owner h (snd (pg_update None ((session_of_row r)\<lparr>ses_active := a\<rparr>) rows)) = pg_owner h rows"
proof -
  let ?hit = "\<lambda>q. row_id q = row_id r \<and> \<not> row_revoked q"
  let ?g = "\<lambda>q. if ?hit q then q\<lparr>row_ip := row_ip r, row_agent := row_agent r, row_expires := row_expires r, row_active := a\<rparr> else q"
  have r: "r \<in> set (live_rows rows)" using s by (auto simp: find_key [OF pg_inv_live(2) [OF inv]])
  then have "r \<in> set rows" "?hit r" by (auto simp: live_rows_def)
  then have up: "snd (pg_update None ((session_of_row r)\<lparr>ses_active := a\<rparr>) rows) = map ?g rows"
    by (auto simp: pg_update_def session_of_row_def Let_def)
  have live: "live_rows (map ?g rows) = map ?g (live_rows rows)"
    by (simp add: live_rows_def filter_map o_def) (rule arg_cong, rule filter_cong, auto)
  have id: "row_id \<circ> ?g = row_id" "row_hash \<circ> ?g = row_hash" by auto
  have "pg_inv (map ?g rows)" using inv unfolding pg_inv_def live map_map id .
  moreover have "pg_view (map ?g rows) = pg_view rows"
  proof
    fix i
    have "find (\<lambda>q. row_id q = i) (map ?g (live_rows rows)) = map_option ?g (find (\<lambda>q. row_id q = i) (live_rows rows))"
      by (rule find_key_map) simp
    moreover have "session_view (session_of_row (?g q)) = session_view (session_of_row q)"
      if "find (\<lambda>q. row_id q = i) (live_rows rows) = Some q" for q
    proof -
      have "q \<in> set (live_rows rows)" using that by (simp add: find_key [OF pg_inv_live(1) [OF inv]])
      then have "q = r" if "?hit q"
        using r that pg_inv_live(1) [OF inv] by (auto simp: distinct_map inj_on_def)
      then show ?thesis by (auto simp: session_view_def session_of_row_def)
    qed
    ultimately show "pg_view (map ?g rows) i = pg_view rows i"
      unfolding pg_view_live live by (cases "find (\<lambda>q. row_id q = i) (live_rows rows)") simp_all
  qed
  moreover have "pg_owner h (map ?g rows) = pg_owner h rows"
  proof
    fix t'
    have "find (\<lambda>q. row_hash q = h t') (map ?g (live_rows rows)) = map_option ?g (find (\<lambda>q. row_hash q = h t') (live_rows rows))"
      by (rule find_key_map) simp
    then show "pg_owner h (map ?g rows) t' = pg_owner h rows t'"
      unfolding pg_owner_live live by (cases "find (\<lambda>q. row_hash q = h t') (live_rows rows)") simp_all
  qed
  ultimately show ?thesis unfolding up by blast
qed

interpretation pg: session_store pg_view "pg_owner hash" pg_inv "\<lambda>ks rows. True"
  "pg_get_by_token hash None" "pg_update None" "pg_delete None" "pg_delete_by_user None" "\<lambda>now ks. pg_cleanup None now"
  for hash
proof (unfold_locales)
  fix rows assume inv: "pg_inv rows"
  fix t i now s j u v ks a rows'
  note ids = pg_inv_live(1) [OF inv] and hashes = pg_inv_live(2) [OF inv]
  show "pg_owner hash rows t = None \<Longrightarrow> pg_get_by_token hash None now t rows = Inl SessionNotFound"
    by (simp add: pg_owner_live pg_get_live scan_session_def)
  show "pg_owner hash rows t = Some i \<Longrightarrow> pg_get_by_token hash None now t rows = Inr s \<Longrightarrow>
      ses_id s = i \<and> pg_view rows i = Some (session_view s) \<and> \<not> expired_at now s"
    by (erule pg_owner_row [OF inv]) (auto simp: pg_get_live scan_session_def session_of_row_def split: if_splits)
  show "pg_owner hash rows t = Some i \<Longrightarrow> pg_view rows i = Some v \<Longrightarrow> \<not> view_expires v < now \<Longrightarrow>
      \<exists>s. pg_get_by_token hash None now t rows = Inr s"
    by (erule pg_owner_row [OF inv])
      (auto simp: pg_get_live scan_session_def session_view_def view_expires_def expired_at_def time_after_def)
  show "pg_get_by_token hash None now t rows = Inr s \<Longrightarrow> rows' = snd (pg_update None (s\<lparr>ses_active := a\<rparr>) rows) \<Longrightarrow>
      pg_inv rows' \<and> pg_view rows' = pg_view rows \<and> pg_owner hash rows' = pg_owner hash rows"
    using pg_touch [OF inv, of hash t _ a hash]
    by (auto simp: pg_get_live scan_session_def split: option.splits if_splits)
  show "pg_view (pg_delete None i rows) j = (if j = i then None else pg_view rows j)"
  proof -
    have "row_id r = j" if "find (\<lambda>r. row_id r = j) (live_rows rows) = Some r" for r
      using that find_key [OF ids, of j r] by simp
    then show ?thesis
      by (cases "find (\<lambda>r. row_id r = j) (live_rows rows)")
        (auto simp: pg_view_live pg_delete_def live_rows_filter find_key_filter [OF ids])
  qed
  show "pg_owner hash (pg_delete None i rows) t = (if pg_owner hash rows t = Some i then None else pg_owner hash rows t)"
    by (auto simp: pg_owner_live pg_delete_def live_rows_filter find_key_filter [OF hashes] split: option.splits)
  show "pg_view (pg_delete_by_user None u rows) i =
      (case pg_view rows i of None \<Rightarrow> None | Some v \<Rightarrow> if view_user v = u then None else Some v)"
    by (auto simp: pg_view_live pg_delete_by_user_def live_rows_filter find_key_filter [OF ids] view_user_def
        session_view_def session_of_row_def split: option.splits)
  show "pg_owner hash (pg_delete_by_user None u rows) t = Some i \<Longrightarrow> pg_owner hash rows t = Some i"
    by (auto simp: pg_owner_live pg_delete_by_user_def live_rows_filter find_key_filter [OF hashes]
        split: option.splits if_splits)
  show "pg_inv (pg_delete None i rows)" "pg_inv (pg_delete_by_user None u rows)" "pg_inv (pg_cleanup None now rows)"
    using inv by (simp_all add: pg_delete_def pg_delete_by_user_def pg_cleanup_def pg_inv_filter)
  have live_clean: "live_rows (pg_cleanup None now rows) = filter (\<lambda>r. \<not> row_expires r < now) (live_rows rows)"
    by (simp add: pg_cleanup_def live_rows_def) (rule filter_cong, auto)
  show cv: "pg_view (pg_cleanup None now rows) i =
      (case pg_view rows i of None \<Rightarrow> None | Some v \<Rightarrow> if view_expires v < now then None else Some v)"
    by (auto simp: pg_view_live live_clean find_key_filter [OF ids] view_expires_def
        session_view_def session_of_row_def split: option.splits)
  assume "pg_view (pg_cleanup None now rows) i \<noteq> None" "pg_owner hash rows t = Some i"
  then show "pg_owner hash (pg_cleanup None now rows) t = Some i"
    unfolding cv
    by (elim pg_owner_row [OF inv])
      (auto simp: pg_owner_live live_clean find_key_filter [OF hashes] view_expires_def session_view_def
        session_of_row_def split: if_splits)
qed

section \<open>Properties\<close>

text \<open>In memory, logging a user out everywhere is complete: after \<^verbatim>\<open>DeleteByUser\<close> no request,
  whatever its cookie or header, is given a session of that user, and after \<^verbatim>\<open>Delete\<close> no request is
  given the deleted session.\<close>

theorem mem_logout_complete:
  assumes "mem_inv st"
  shows "(\<forall>s. fst (session_middleware mem_get_by_token mem_update cookie header t1 t2 t3 (mem_delete_by_user u st)) = Some s
           \<longrightarrow> ses_user s \<noteq> u)
       \<and> (\<forall>s. fst (session_middleware mem_get_by_token mem_update cookie header t1 t2 t3 (mem_delete i st)) = Some s
           \<longrightarrow> ses_id s \<noteq> i)"
  using mem.logout_everywhere [OF assms] mem.logout [OF assms] by blast

text \<open>The same holds of the PostgreSQL store, for every hash function, when the statements succeed
  and live rows do not share a token hash.\<close>

theorem pg_logout_complete:
  assumes "pg_inv rows"
  shows "(\<forall>s. fst (session_middleware (pg_get_by_token hash None) (pg_update None) cookie header t1 t2 t3
             (pg_delete_by_user None u rows)) = Some s \<longrightarrow> ses_user s \<noteq> u)
       \<and> (\<forall>s. fst (session_middleware (pg_get_by_token hash None) (pg_update None) cookie header t1 t2 t3
             (pg_delete None i rows)) = Some s \<longrightarrow> ses_id s \<noteq> i)"
  using pg.logout_everywhere [OF assms] pg.logout [OF assms] by blast

text \<open>One call of the in-memory store. Identifiers and tokens of new sessions are fresh, and an update
  keeps the token and the user of the stored session, as the middleware's does.\<close>

inductive mem_step :: "mem_store \<Rightarrow> mem_store \<Rightarrow> bool" where
  "ms_sessions st (ses_id s) = None \<Longrightarrow> ms_by_token st (ses_token s) = None \<Longrightarrow> mem_step st (snd (mem_create s st))"
| "mem_step st (snd (session_middleware mem_get_by_token mem_update cookie header t1 t2 t3 st))"
| "mem_step st (mem_delete i st)"
| "mem_step st (mem_delete_by_user u st)"
| "range_order ks (ms_sessions st) \<Longrightarrow> mem_step st (mem_cleanup now ks st)"

lemma mem_steps_inv: "mem_step\<^sup>*\<^sup>* st st' \<Longrightarrow> mem_inv st \<Longrightarrow> mem_inv st'"
proof (induction rule: rtranclp_induct)
  case (step st1 st2)
  then have inv: "mem_inv st1" by simp
  from step(2) show ?case
    by (cases rule: mem_step.cases)
      (auto intro: mem_inv_create mem.middleware_keeps(1) mem_inv_delete mem_inv_delete_by_user mem.inv_clean inv)
qed

text \<open>From the empty store, through any sequence of logins, requests, logouts and cleanups, the
  three maps of the in-memory store agree; so the session a request is given is the one its token was
  issued for, it has not expired, and it appears in its user's list.\<close>

theorem mem_sessions_consistent:
  assumes "mem_step\<^sup>*\<^sup>* new_mem st"
    and "fst (session_middleware mem_get_by_token mem_update cookie header t1 t2 t3 st) = Some s"
  shows "\<exists>s0. ms_sessions st (ses_id s) = Some s0 \<and> ses_token s0 = request_token cookie header
    \<and> ses_user s0 = ses_user s \<and> \<not> expired_at t2 s \<and> s0 \<in> set (mem_list_by_user (ses_user s) st)"
proof -
  have inv: "mem_inv st" by (rule mem_steps_inv [OF assms(1) mem_inv_new])
  from mem.middleware_Some [OF inv assms(2)] have tok: "ms_by_token st (request_token cookie header) = Some (ses_id s)"
    and v: "mem_view st (ses_id s) = Some (session_view s)" and e: "\<not> expired_at t2 s" by auto
  from mem_inv_token [OF inv tok] obtain s0 where s0: "ms_sessions st (ses_id s) = Some s0"
    "ses_token s0 = request_token cookie header" by blast
  with v have u: "ses_user s0 = ses_user s" by (simp add: mem_view_def session_view_def)
  have "s0 \<in> set (mem_list_by_user (ses_user s) st)"
    using s0(1) mem_invD(3) [OF inv s0(1)] u by (force simp: mem_list_by_user_def user_ids_def List.map_filter_def)
  with s0 u e show ?thesis by blast
qed

text \<open>Cleaning up never logs anyone out: a request that is given a session is given the same session
  after a cleanup that happened no later than the request, in memory and in PostgreSQL.\<close>

theorem cleanup_keeps_logins:
  assumes "mem_inv st" "range_order ks (ms_sessions st)" "pg_inv rows" "now \<le> t1" "t1 \<le> t2"
    and "fst (session_middleware mem_get_by_token mem_update cookie header t1 t2 t3 st) = Some s"
    and "fst (session_middleware (pg_get_by_token hash None) (pg_update None) cookie header t1 t2 t3 rows) = Some r"
  shows "(\<exists>s'. fst (session_middleware mem_get_by_token mem_update cookie header t1 t2 t3 (mem_cleanup now ks st)) = Some s'
            \<and> ses_id s' = ses_id s)
       \<and> (\<exists>r'. fst (session_middleware (pg_get_by_token hash None) (pg_update None) cookie header t1 t2 t3
              (pg_cleanup None now rows)) = Some r' \<and> ses_id r' = ses_id r)"
  using mem.cleanup_transparent [OF assms(1,2,4,6,5)] pg.cleanup_transparent [OF assms(3) _ assms(4,7,5)] by blast

section \<open>Witnesses\<close>

definition demo_session :: session where
  "demo_session = \<lparr>ses_id = ''s1'', ses_user = ''u1'', ses_token = ''tok'', ses_created = 5, ses_expires = 100,
     ses_active = 5, ses_ip = [], ses_agent = ''curl''\<rparr>"

definition demo_mem :: mem_store where
  "demo_mem = snd (mem_create demo_session new_mem)"

definition demo_rows :: pg_store where
  "demo_rows = snd (pg_create (\<lambda>t. t) None 5 demo_session [])"

lemma demo_mem_step: "mem_step\<^sup>*\<^sup>* new_mem demo_mem"
  unfolding demo_mem_def by (rule r_into_rtranclp, rule mem_step.intros(1)) (simp_all add: new_mem_def)

lemma demo_mem_inv: "mem_inv demo_mem"
  by (rule mem_steps_inv [OF demo_mem_step mem_inv_new])

lemma demo_pg_inv: "pg_inv demo_rows"
  by (simp add: pg_inv_def demo_rows_def pg_create_def demo_session_def session_fields_missing_def live_rows_def)

lemma demo_mem_request:
  "fst (session_middleware mem_get_by_token mem_update [] ''Bearer tok'' 10 11 12 demo_mem) = Some (demo_session\<lparr>ses_active := 12\<rparr>)"
  by (simp add: session_middleware_def request_token_def mem_get_by_token_def demo_mem_def mem_create_def new_mem_def
      session_fields_missing_def demo_session_def expired_at_def time_after_def Let_def)

lemma demo_pg_request:
  "fst (session_middleware (pg_get_by_token (\<lambda>t. t) None) (pg_update None) [] ''Bearer tok'' 10 11 12 demo_rows)
     = Some (demo_session\<lparr>ses_token := [], ses_active := 12\<rparr>)"
  by (simp add: session_middleware_def request_token_def pg_get_by_token_def scan_session_def session_of_row_def
      demo_rows_def pg_create_def session_fields_missing_def demo_session_def expired_at_def time_after_def Let_def)

text \<open>An instance.\<close>

theorem mem_logout_complete_witness:
  "\<not> (\<exists>s. fst (session_middleware mem_get_by_token mem_update [] ''Bearer tok'' 10 11 12
     (mem_delete_by_user ''u1'' demo_mem)) = Some s \<and> ses_user s = ''u1'')"
  using mem_logout_complete [OF demo_mem_inv] by blast

text \<open>An instance.\<close>

theorem pg_logout_complete_witness:
  "\<not> (\<exists>s. fst (session_middleware (pg_get_by_token (\<lambda>t. t) None) (pg_update None) [] ''Bearer tok'' 10 11 12
     (pg_delete None ''s1'' demo_rows)) = Some s \<and> ses_id s = ''s1'')"
  using pg_logout_complete [OF demo_pg_inv] by blast

text \<open>An instance.\<close>

theorem mem_sessions_consistent_witness:
  "\<exists>s0. ms_sessions demo_mem ''s1'' = Some s0 \<and> s0 \<in> set (mem_list_by_user ''u1'' demo_mem)"
  using mem_sessions_consistent [OF demo_mem_step demo_mem_request] by (simp add: demo_session_def) blast

text \<open>An instance.\<close>

theorem cleanup_keeps_logins_witness:
  "\<exists>s'. fst (session_middleware mem_get_by_token mem_update [] ''Bearer tok'' 10 11 12 (mem_cleanup 9 [''s1''] demo_mem)) = Some s'
     \<and> ses_id s' = ''s1''"
proof -
  have "range_order [''s1''] (ms_sessions demo_mem)"
    by (simp add: range_order_def demo_mem_def mem_create_def new_mem_def session_fields_missing_def demo_session_def)
  from cleanup_keeps_logins [OF demo_mem_inv this demo_pg_inv _ _ demo_mem_request demo_pg_request, of 9]
  show ?thesis by (simp add: demo_session_def)
qed

end
