(* ===== verification/Failover.thy ===== *)
theory Failover
  imports Go_Strings
begin

text \<open>
  The failover service, \<^verbatim>\<open>forge/api/internal/services/failover/service.go\<close> with the tables of
  \<^verbatim>\<open>store/store_failover.go\<close>: policies per node, the sliding window of recent failures, the action
  taken when a policy's limit is reached, and the background loop that prunes the window.

  The database tables are lists of rows; a failing statement is an argument that carries its error.
  Fresh identifiers and readings of the clock are arguments; node and policy identifiers are the
  canonical text of their UUID. The window columns are 32-bit integers, so that the product with one
  second does not overflow a duration.
\<close>

section \<open>State\<close>

record policy =
  fp_id :: string
  fp_name :: string
  fp_node :: string
  fp_enabled :: bool
  fp_max :: int
  fp_window :: int
  fp_cooldown :: int
  fp_action :: string
  fp_health_path :: string
  fp_health_port :: int
  fp_created :: gotime
  fp_updated :: gotime

record fo_event =
  fe_id :: string
  fe_policy :: string
  fe_node :: string
  fe_server :: string
  fe_type :: string
  fe_action :: string
  fe_status :: string
  fe_message :: string
  fe_time :: gotime

record failover =
  fo_policies :: "policy list"
  fo_events :: "fo_event list"
  fo_failures :: "string \<rightharpoonup> gotime list"
  fo_detected :: uint64
  fo_evacuations :: uint64
  fo_restarts :: uint64
  fo_notifications :: uint64
  fo_published :: "(string \<times> string \<times> string \<times> string) list"
  fo_publisher :: bool
  fo_started :: bool

datatype fo_error =
    PolicyIdRequired
  | FoNodeIdRequired
  | NegativeMaxFailures
  | NegativeWindow
  | InvalidAction
  | PolicyNotFound
  | FoDbError string

section \<open>Tables\<close>

definition policy_lt :: "(string \<Rightarrow> string \<Rightarrow> bool) \<Rightarrow> policy \<Rightarrow> policy \<Rightarrow> bool" where
  "policy_lt id_lt a b \<longleftrightarrow> fp_created a < fp_created b \<or> (fp_created a = fp_created b \<and> id_lt (fp_id a) (fp_id b))"

definition db_create_policy :: "string \<Rightarrow> gotime \<Rightarrow> gotime \<Rightarrow> policy \<Rightarrow> failover \<Rightarrow> policy \<times> failover" where
  "db_create_policy i t1 t2 p st =
     (let q = p\<lparr>fp_id := i, fp_created := t1, fp_updated := t2\<rparr>
      in (q, st\<lparr>fo_policies := fo_policies st @ [q]\<rparr>))"

definition db_get_policy :: "string \<Rightarrow> failover \<Rightarrow> policy option" where
  "db_get_policy i st = find (\<lambda>p. fp_id p = i) (fo_policies st)"

definition db_list_policies :: "(string \<Rightarrow> string \<Rightarrow> bool) \<Rightarrow> failover \<Rightarrow> policy list" where
  "db_list_policies id_lt st = slice_stable (policy_lt id_lt) (fo_policies st)"

definition db_list_by_node :: "(string \<Rightarrow> string \<Rightarrow> bool) \<Rightarrow> string \<Rightarrow> failover \<Rightarrow> policy list" where
  "db_list_by_node id_lt n st = slice_stable (policy_lt id_lt) (filter (\<lambda>p. fp_node p = n) (fo_policies st))"

definition db_update_policy :: "gotime \<Rightarrow> policy \<Rightarrow> failover \<Rightarrow> failover" where
  "db_update_policy now p st =
     st\<lparr>fo_policies := map (\<lambda>q. if fp_id q = fp_id p
         then p\<lparr>fp_created := fp_created q, fp_updated := now\<rparr> else q) (fo_policies st)\<rparr>"

text \<open>Events keep their row when the policy goes: the reference becomes null, read as the empty
  string.\<close>

definition db_delete_policy :: "string \<Rightarrow> failover \<Rightarrow> failover" where
  "db_delete_policy i st =
     st\<lparr>fo_policies := filter (\<lambda>p. fp_id p \<noteq> i) (fo_policies st),
        fo_events := map (\<lambda>e. if fe_policy e = i then e\<lparr>fe_policy := []\<rparr> else e) (fo_events st)\<rparr>"

definition db_create_event :: "string \<Rightarrow> gotime \<Rightarrow> fo_event \<Rightarrow> failover \<Rightarrow> failover" where
  "db_create_event i now e st = st\<lparr>fo_events := fo_events st @ [e\<lparr>fe_id := i, fe_time := now\<rparr>]\<rparr>"

section \<open>Policies\<close>

definition validate_policy :: "policy \<Rightarrow> fo_error + unit" where
  "validate_policy p =
     (if fp_id p = [] then Inl PolicyIdRequired
      else if fp_node p = [] then Inl FoNodeIdRequired
      else if fp_max p < 0 then Inl NegativeMaxFailures
      else if fp_window p < 0 then Inl NegativeWindow
      else if fp_action p \<in> {[], ''evacuate'', ''restart'', ''notify''} then Inr ()
      else Inl InvalidAction)"

definition default_policy :: "policy \<Rightarrow> policy" where
  "default_policy p =
     p\<lparr>fp_max := (if fp_max p \<le> 0 then 3 else fp_max p),
       fp_window := (if fp_window p \<le> 0 then 300 else fp_window p),
       fp_cooldown := (if fp_cooldown p \<le> 0 then 600 else fp_cooldown p),
       fp_action := (if fp_action p = [] then ''notify'' else fp_action p)\<rparr>"

text \<open>An event goes out when the service was built with a publisher.\<close>

definition fo_publish :: "string \<times> string \<times> string \<times> string \<Rightarrow> failover \<Rightarrow> failover" where
  "fo_publish e st = (if fo_publisher st then st\<lparr>fo_published := fo_published st @ [e]\<rparr> else st)"

definition create_policy ::
  "string option \<Rightarrow> string \<Rightarrow> gotime \<Rightarrow> gotime \<Rightarrow> policy \<Rightarrow> failover \<Rightarrow> (fo_error + policy) \<times> failover" where
  "create_policy fault i t1 t2 p st =
     (case validate_policy p of
        Inl e \<Rightarrow> (Inl e, st)
      | Inr _ \<Rightarrow>
          (case fault of
             Some e \<Rightarrow> (Inl (FoDbError e), st)
           | None \<Rightarrow>
               let (q, st') = db_create_policy i t1 t2 (default_policy p) st
               in (Inr q, fo_publish (''failover_policy_created'', fp_id q, fp_node q, fp_action q) st')))"

definition update_policy ::
  "string option \<Rightarrow> string option \<Rightarrow> gotime \<Rightarrow> policy \<Rightarrow> failover \<Rightarrow> (fo_error + policy) \<times> failover" where
  "update_policy fault get_fault now p st =
     (case validate_policy p of
        Inl e \<Rightarrow> (Inl e, st)
      | Inr _ \<Rightarrow>
          (case fault of
             Some e \<Rightarrow> (Inl (FoDbError e), st)
           | None \<Rightarrow>
               let st' = db_update_policy now p st in
               (case get_fault of
                  Some e \<Rightarrow> (Inl (FoDbError e), st')
                | None \<Rightarrow>
                    (case db_get_policy (fp_id p) st' of
                       None \<Rightarrow> (Inl (FoDbError ''no rows in result set''), st')
                     | Some q \<Rightarrow> (Inr (p\<lparr>fp_updated := now, fp_created := fp_created q\<rparr>), st')))))"

text \<open>Every error of the lookup, a failed query included, is reported as a missing policy.\<close>

definition delete_policy ::
  "bool \<Rightarrow> string option \<Rightarrow> string \<Rightarrow> failover \<Rightarrow> (fo_error + unit) \<times> failover" where
  "delete_policy get_fault fault i st =
     (if get_fault \<or> db_get_policy i st = None then (Inl PolicyNotFound, st)
      else (case fault of Some e \<Rightarrow> (Inl (FoDbError e), st) | None \<Rightarrow> (Inr (), db_delete_policy i st)))"

definition get_policy :: "bool \<Rightarrow> string \<Rightarrow> failover \<Rightarrow> fo_error + policy" where
  "get_policy get_fault i st =
     (if get_fault then Inl PolicyNotFound
      else (case db_get_policy i st of None \<Rightarrow> Inl PolicyNotFound | Some p \<Rightarrow> Inr p))"

definition list_policies ::
  "(string \<Rightarrow> string \<Rightarrow> bool) \<Rightarrow> string option \<Rightarrow> failover \<Rightarrow> fo_error + policy list" where
  "list_policies id_lt fault st =
     (case fault of Some e \<Rightarrow> Inl (FoDbError e) | None \<Rightarrow> Inr (db_list_policies id_lt st))"

definition list_policies_by_node ::
  "(string \<Rightarrow> string \<Rightarrow> bool) \<Rightarrow> string option \<Rightarrow> string \<Rightarrow> failover \<Rightarrow> fo_error + policy list" where
  "list_policies_by_node id_lt fault n st =
     (case fault of Some e \<Rightarrow> Inl (FoDbError e) | None \<Rightarrow> Inr (db_list_by_node id_lt n st))"

text \<open>The first enabled policy of the node.\<close>

definition matching_policy :: "(string \<Rightarrow> string \<Rightarrow> bool) \<Rightarrow> string \<Rightarrow> failover \<Rightarrow> policy option" where
  "matching_policy id_lt n st = find fp_enabled (db_list_by_node id_lt n st)"

section \<open>Failures\<close>

text \<open>The bookkeeping of an action: the event published and the counter advanced.\<close>

definition trigger :: "policy \<Rightarrow> string \<Rightarrow> string \<Rightarrow> failover \<Rightarrow> failover" where
  "trigger p n msg st =
     (if fp_action p = ''evacuate'' then
        (fo_publish (''node_evacuation_triggered'', n, fp_id p, msg) st)\<lparr>fo_evacuations := fo_evacuations st + 1\<rparr>
      else if fp_action p = ''restart'' then
        (fo_publish (''node_restart_triggered'', n, fp_id p, msg) st)\<lparr>fo_restarts := fo_restarts st + 1\<rparr>
      else if fp_action p = ''notify'' then
        (fo_publish (''node_failure_notified'', n, fp_id p, msg) st)\<lparr>fo_notifications := fo_notifications st + 1\<rparr>
      else st)"

text \<open>The statuses set inside the switch are overwritten before the event is stored. A failed insert
  is not an error: the event is returned without an identifier.\<close>

definition execute_action ::
  "string option \<Rightarrow> string \<Rightarrow> gotime \<Rightarrow> gotime \<Rightarrow> policy \<Rightarrow> string \<Rightarrow> string \<Rightarrow> string \<Rightarrow> string \<Rightarrow> failover
     \<Rightarrow> fo_event \<times> failover" where
  "execute_action fault i t1 t2 p etype n srv msg st =
     (let e = \<lparr>fe_id = [], fe_policy = fp_id p, fe_node = n, fe_server = srv, fe_type = etype,
               fe_action = fp_action p, fe_status = ''completed'', fe_message = msg, fe_time = t1\<rparr>;
          st1 = trigger p n msg st
      in (case fault of
            Some _ \<Rightarrow> (e, st1)
          | None \<Rightarrow> (e\<lparr>fe_id := i, fe_time := t2\<rparr>, db_create_event i t2 e st1)))"

definition recent :: "gotime \<Rightarrow> int \<Rightarrow> gotime list \<Rightarrow> gotime list" where
  "recent now window ts = filter (\<lambda>t. time_after t (now - window * second)) ts"

definition record_failure ::
  "(string \<Rightarrow> string \<Rightarrow> bool) \<Rightarrow> string option \<Rightarrow> string option \<Rightarrow> string \<Rightarrow> gotime \<Rightarrow> gotime \<Rightarrow> gotime \<Rightarrow> string
     \<Rightarrow> failover \<Rightarrow> (fo_error + fo_event option) \<times> failover" where
  "record_failure id_lt list_fault fault i now t1 t2 n st =
     (if n = [] then (Inl FoNodeIdRequired, st)
      else (case list_fault of
        Some e \<Rightarrow> (Inl (FoDbError e), st)
      | None \<Rightarrow>
          (case matching_policy id_lt n st of
             None \<Rightarrow> (Inr None, st)
           | Some p \<Rightarrow>
               let fs = recent now (fp_window p) (map_get [] (fo_failures st) n @ [now]);
                   st1 = st\<lparr>fo_failures := (fo_failures st)(n \<mapsto> fs), fo_detected := fo_detected st + 1\<rparr>
               in if int (length fs) < fp_max p then (Inr None, st1)
                  else (let (e, st2) = execute_action fault i t1 t2 p ''node_failure'' n []
                              (''node '' @ n @ '' failed '' @ show_int (int (length fs)) @ '' times'') st1
                        in (Inr (Some e), st2)))))"

definition handle_server_crash ::
  "(string \<Rightarrow> string \<Rightarrow> bool) \<Rightarrow> string option \<Rightarrow> string option \<Rightarrow> string \<Rightarrow> gotime \<Rightarrow> gotime \<Rightarrow> string \<Rightarrow> string
     \<Rightarrow> failover \<Rightarrow> (fo_error + fo_event option) \<times> failover" where
  "handle_server_crash id_lt list_fault fault i t1 t2 srv n st =
     (case list_fault of
        Some e \<Rightarrow> (Inl (FoDbError e), st)
      | None \<Rightarrow>
          (case matching_policy id_lt n st of
             None \<Rightarrow> (Inr None, st)
           | Some p \<Rightarrow>
               (let (e, st1) = execute_action fault i t1 t2 p ''server_crash'' n srv (''server '' @ srv @ '' crashed'') st
                in (Inr (Some e), st1))))"

text \<open>One tick of the background loop: every window is cut to the last 300 seconds.\<close>

definition prune_tick :: "gotime \<Rightarrow> failover \<Rightarrow> failover" where
  "prune_tick now st = st\<lparr>fo_failures := (\<lambda>n. map_option (recent now 300) (fo_failures st n))\<rparr>"

definition fo_start :: "failover \<Rightarrow> failover" where
  "fo_start st = st\<lparr>fo_started := True\<rparr>"

definition fo_stop :: "failover \<Rightarrow> failover" where
  "fo_stop st = st\<lparr>fo_started := False\<rparr>"

section \<open>Histories of one node\<close>

text \<open>\<open>fo_history\<close> relates a node and its policy to the instants of all failures recorded so far,
  the latest instant seen, and the state of the service.\<close>

inductive fo_history ::
  "(string \<Rightarrow> string \<Rightarrow> bool) \<Rightarrow> string \<Rightarrow> policy \<Rightarrow> gotime list \<Rightarrow> gotime \<Rightarrow> failover \<Rightarrow> bool"
  for id_lt n p where
  history_start: "fo_failures st n = None \<Longrightarrow> matching_policy id_lt n st = Some p \<Longrightarrow> fo_history id_lt n p [] t st"
| history_failure: "fo_history id_lt n p hist t st \<Longrightarrow> t \<le> now \<Longrightarrow>
    fo_history id_lt n p (hist @ [now]) now (snd (record_failure id_lt None fault i now t1 t2 n st))"
| history_other: "fo_history id_lt n p hist t st \<Longrightarrow> m \<noteq> n \<Longrightarrow>
    fo_history id_lt n p hist t (snd (record_failure id_lt lf fault i now t1 t2 m st))"
| history_crash: "fo_history id_lt n p hist t st \<Longrightarrow>
    fo_history id_lt n p hist t (snd (handle_server_crash id_lt lf fault i t1 t2 srv m st))"
| history_create: "fo_history id_lt n p hist t st \<Longrightarrow> st' = snd (create_policy fault i t1 t2 q st) \<Longrightarrow>
    matching_policy id_lt n st' = Some p \<Longrightarrow> fo_history id_lt n p hist t st'"
| history_update: "fo_history id_lt n p hist t st \<Longrightarrow> st' = snd (update_policy fault get_fault now q st) \<Longrightarrow>
    matching_policy id_lt n st' = Some p \<Longrightarrow> fo_history id_lt n p hist t st'"
| history_delete: "fo_history id_lt n p hist t st \<Longrightarrow> st' = snd (delete_policy not_read fault i st) \<Longrightarrow>
    matching_policy id_lt n st' = Some p \<Longrightarrow> fo_history id_lt n p hist t st'"
| history_tick: "fo_history id_lt n p hist t st \<Longrightarrow> t \<le> now \<Longrightarrow> fo_history id_lt n p hist now (prune_tick now st)"

lemma recent_recent:
  "w * second \<le> v * second \<Longrightarrow> t \<le> now \<Longrightarrow> recent now w (recent t v xs) = recent now w xs"
  unfolding recent_def filter_filter by (rule filter_cong) (auto simp: time_after_def)

lemma recent_append: "recent now w (xs @ ys) = recent now w xs @ recent now w ys"
  by (simp add: recent_def)

lemma trigger_fields:
  "fo_failures (trigger p n msg st) = fo_failures st" "fo_policies (trigger p n msg st) = fo_policies st"
  by (simp_all add: trigger_def fo_publish_def)

lemma execute_action_fields [simp]:
  "fo_failures (snd (execute_action fault i t1 t2 p et n srv msg st)) = fo_failures st"
  "fo_policies (snd (execute_action fault i t1 t2 p et n srv msg st)) = fo_policies st"
  by (simp_all add: execute_action_def trigger_fields db_create_event_def Let_def split: option.splits)

lemma record_failure_policies [simp]:
  "fo_policies (snd (record_failure id_lt lf fault i now t1 t2 n st)) = fo_policies st"
  by (simp add: record_failure_def Let_def split_beta split: option.splits)

lemma record_failure_others:
  "m \<noteq> n \<Longrightarrow> fo_failures (snd (record_failure id_lt lf fault i now t1 t2 m st)) n = fo_failures st n"
  by (simp add: record_failure_def Let_def split_beta split: option.splits)

lemma record_failure_own:
  assumes "matching_policy id_lt n st = Some p" "n \<noteq> []"
  shows "fo_failures (snd (record_failure id_lt None fault i now t1 t2 n st)) n =
      Some (recent now (fp_window p) (map_get [] (fo_failures st) n @ [now]))"
  using assms by (simp add: record_failure_def Let_def split_beta)

lemma handle_server_crash_fields [simp]:
  "fo_failures (snd (handle_server_crash id_lt lf fault i t1 t2 srv m st)) = fo_failures st"
  "fo_policies (snd (handle_server_crash id_lt lf fault i t1 t2 srv m st)) = fo_policies st"
  by (simp_all add: handle_server_crash_def split_beta split: option.splits)

lemma matching_policy_cong:
  "fo_policies st = fo_policies st' \<Longrightarrow> matching_policy id_lt n st = matching_policy id_lt n st'"
  by (simp add: matching_policy_def db_list_by_node_def)

lemma prune_tick_fields:
  "fo_policies (prune_tick now st) = fo_policies st"
  "map_get [] (fo_failures (prune_tick now st)) n = recent now 300 (map_get [] (fo_failures st) n)"
  by (simp_all add: prune_tick_def map_get_def recent_def split: option.splits)

lemma policy_admin_failures:
  "fo_failures (snd (create_policy fault i t1 t2 q st)) = fo_failures st"
  "fo_failures (snd (update_policy fault get_fault now q st)) = fo_failures st"
  "fo_failures (snd (delete_policy not_read fault i st)) = fo_failures st"
  by (simp_all add: create_policy_def update_policy_def delete_policy_def db_create_policy_def Let_def
      fo_publish_def db_update_policy_def db_delete_policy_def split: sum.splits option.splits)

lemma history_policy: "fo_history id_lt n p hist t st \<Longrightarrow> matching_policy id_lt n st = Some p"
  by (induction rule: fo_history.induct)
    (simp_all add: matching_policy_def db_list_by_node_def prune_tick_fields)

text \<open>What the service still knows of the node is the history, as far as the window looks back.\<close>

lemma history_window:
  assumes "fo_history id_lt n p hist t st" "n \<noteq> []" "fp_window p \<le> 300" "t \<le> now"
  shows "recent now (fp_window p) (map_get [] (fo_failures st) n) = recent now (fp_window p) hist"
  using assms(1,4)
proof (induction arbitrary: now rule: fo_history.induct)
  case (history_start st t)
  then show ?case by (simp add: map_get_def)
next
  case (history_failure hist t st u fault i t1 t2)
  note own = record_failure_own [OF history_policy [OF history_failure.hyps(1)] assms(2)]
  have "recent now (fp_window p) (recent u (fp_window p) (map_get [] (fo_failures st) n @ [u]))
      = recent now (fp_window p) (map_get [] (fo_failures st) n @ [u])"
    using history_failure.prems by (intro recent_recent) auto
  with history_failure show ?case
    by (simp add: map_get_def own recent_append)
next
  case (history_other hist t st m lf fault i u t1 t2)
  then show ?case by (simp add: map_get_def record_failure_others)
next
  case (history_crash hist t st lf fault i t1 t2 srv m)
  then show ?case by simp
next
  case (history_create hist t st st' fault i t1 t2 q)
  then show ?case by (simp add: policy_admin_failures)
next
  case (history_update hist t st st' fault get_fault u q)
  then show ?case by (simp add: policy_admin_failures)
next
  case (history_delete hist t st st' not_read fault i)
  then show ?case by (simp add: policy_admin_failures)
next
  case (history_tick hist t st u)
  have "recent now (fp_window p) (recent u 300 (map_get [] (fo_failures st) n))
      = recent now (fp_window p) (map_get [] (fo_failures st) n)"
    using history_tick.prems assms(3) by (intro recent_recent) auto
  with history_tick show ?case by (simp add: prune_tick_fields)
qed

lemma record_failure_result:
  assumes "matching_policy id_lt n st = Some p" "n \<noteq> []"
  shows "(\<exists>e. fst (record_failure id_lt None fault i now t1 t2 n st) = Inr (Some e)) \<longleftrightarrow>
      fp_max p \<le> int (length (recent now (fp_window p) (map_get [] (fo_failures st) n @ [now])))"
  using assms by (simp add: record_failure_def Let_def split_beta not_less)

section \<open>Properties\<close>

definition sample_policy :: "int \<Rightarrow> int \<Rightarrow> policy" where
  "sample_policy m w = \<lparr>fp_id = ''p1'', fp_name = ''p'', fp_node = ''n1'', fp_enabled = True, fp_max = m,
     fp_window = w, fp_cooldown = 600, fp_action = ''restart'', fp_health_path = [], fp_health_port = 0,
     fp_created = 1, fp_updated = 1\<rparr>"

definition sample_failover :: "policy list \<Rightarrow> failover" where
  "sample_failover ps = \<lparr>fo_policies = ps, fo_events = [], fo_failures = Map.empty, fo_detected = 0,
     fo_evacuations = 0, fo_restarts = 0, fo_notifications = 0, fo_published = [], fo_publisher = True,
     fo_started = True\<rparr>"

lemma sample_matching:
  "matching_policy id_lt ''n1'' (sample_failover [sample_policy m w]) = Some (sample_policy m w)"
  by (simp add: matching_policy_def db_list_by_node_def sample_failover_def sample_policy_def)

lemma sample_history:
  "fo_history id_lt ''n1'' (sample_policy m w) [5 * second] (5 * second)
     (snd (record_failure id_lt None None ''e1'' (5 * second) 0 0 ''n1'' (sample_failover [sample_policy m w])))"
  using history_failure [of id_lt "''n1''" "sample_policy m w" "[]" 0 _ "5 * second",
      OF history_start [OF _ sample_matching]]
  by (simp add: sample_failover_def)

text \<open>while a node keeps a policy whose window is at most the five minutes the background loop
  keeps, and instants do not run backwards, recording a failure acts exactly when the number of all
  failures ever recorded for the node that lie inside the window, this one included, reaches the
  limit of the policy. The pruning done by earlier calls, by the background loop and by crashes and
  failures of other nodes in between never changes the answer.\<close>

theorem failover_window_exact:
  assumes "fo_history id_lt n p hist t st" and "n \<noteq> []" and "fp_window p \<le> 300" and "t \<le> now"
  shows "(\<exists>e. fst (record_failure id_lt None fault i now t1 t2 n st) = Inr (Some e)) \<longleftrightarrow>
      fp_max p \<le> int (length (filter (\<lambda>u. now - fp_window p * second < u) (hist @ [now])))"
  unfolding record_failure_result [OF history_policy [OF assms(1)] assms(2)]
    recent_append history_window [OF assms]
  by (simp add: recent_def time_after_def)

text \<open>An instance: a second failure after ten seconds reaches a limit of two within a minute.\<close>

theorem failover_window_exact_witness:
  "\<exists>e. fst (record_failure (\<lambda>_ _. False) None None ''e2'' (15 * second) 0 0 ''n1''
     (snd (record_failure (\<lambda>_ _. False) None None ''e1'' (5 * second) 0 0 ''n1''
        (sample_failover [sample_policy 2 60])))) = Inr (Some e)"
  using failover_window_exact [OF sample_history [of "\<lambda>_ _. False" 2 60], of "15 * second" None "''e2''" 0 0]
  by (simp add: sample_policy_def)

text \<open>a policy that allows one failure in a window longer than five minutes misses failures. A
  second failure five minutes after the first is not acted upon when the background loop has run in
  between, although both lie in the window and without that run it is acted upon.\<close>

theorem janitor_forgets:
  assumes "matching_policy id_lt n st = Some p" and "n \<noteq> []" and "fo_failures st n = None"
    and "fp_max p = 2" and "300 < fp_window p"
  shows "fst (record_failure id_lt None None j (t + 300 * second) 0 0 n
           (prune_tick (t + 300 * second) (snd (record_failure id_lt None None i t 0 0 n st)))) = Inr None
    \<and> (\<exists>e. fst (record_failure id_lt None None j (t + 300 * second) 0 0 n
           (snd (record_failure id_lt None None i t 0 0 n st))) = Inr (Some e))"
proof -
  define st1 where "st1 = snd (record_failure id_lt None None i t 0 0 n st)"
  have m1: "matching_policy id_lt n st1 = Some p"
    using assms(1) by (simp add: st1_def matching_policy_def db_list_by_node_def)
  then have m2: "matching_policy id_lt n (prune_tick now st1) = Some p" for now
    by (simp add: matching_policy_def db_list_by_node_def prune_tick_fields)
  have w: "map_get [] (fo_failures st1) n = [t]"
    using assms(5) record_failure_own [OF assms(1,2)] assms(3)
    by (simp add: st1_def map_get_def recent_def time_after_def)
  have "fst (record_failure id_lt None None j (t + 300 * second) 0 0 n (prune_tick (t + 300 * second) st1)) = Inr None"
    using m2 [of "t + 300 * second"] assms(2,4,5) w
    by (simp add: record_failure_def Let_def prune_tick_fields recent_def time_after_def)
  moreover have "\<exists>e. fst (record_failure id_lt None None j (t + 300 * second) 0 0 n st1) = Inr (Some e)"
    unfolding record_failure_result [OF m1 assms(2)] using assms(4,5) w
    by (simp add: recent_def time_after_def)
  ultimately show ?thesis by (simp add: st1_def)
qed

text \<open>An instance: a policy over ten minutes.\<close>

theorem janitor_forgets_witness:
  "fst (record_failure (\<lambda>_ _. False) None None ''e2'' (305 * second) 0 0 ''n1''
     (prune_tick (305 * second) (snd (record_failure (\<lambda>_ _. False) None None ''e1'' (5 * second) 0 0 ''n1''
        (sample_failover [sample_policy 2 600]))))) = Inr None"
  using janitor_forgets [of "\<lambda>_ _. False" "''n1''" "sample_failover [sample_policy 2 600]"
      "sample_policy 2 600" "''e2''" "5 * second" "''e1''", OF sample_matching]
  by (simp add: sample_policy_def sample_failover_def)

end
