(* ===== verification/Deployment.thy ===== *)
theory Deployment
  imports Go_Strings
begin

text \<open>
  The deployment service, \<^verbatim>\<open>forge/api/internal/services/deployment/service.go\<close> over the table of
  \<^verbatim>\<open>store/store_deployments.go\<close>: blue-green deployments of a server, their status and their
  rollback.

  The table is a list of rows with a primary key. A failing statement is an argument that carries its
  error, and so are fresh identifiers and readings of the clock. The order of rows created at the same
  instant is open in the query, so the listing takes the order as an argument.
\<close>

section \<open>State\<close>

record deployment =
  dp_id :: string
  dp_server :: string
  dp_strategy :: string
  dp_status :: string
  dp_image :: string
  dp_blue :: string
  dp_green :: string
  dp_active :: string
  dp_health_path :: string
  dp_health_port :: int
  dp_created :: gotime
  dp_updated :: gotime
  dp_completed :: "gotime option"
  dp_error :: string

type_synonym dp_envelope = "string \<times> string \<times> string \<times> (string \<times> string) list"

record deploy_svc =
  dp_rows :: "deployment list"
  dp_publisher :: bool
  dp_published :: "dp_envelope list"

datatype dp_error =
    DeploymentNotFound
  | DeploymentInProgress
  | InvalidImage
  | InvalidServer
  | NoRollback
  | CancelRefused
  | DuplicateKey
  | DpDbError string

section \<open>Table\<close>

definition dp_insert :: "string option \<Rightarrow> deployment \<Rightarrow> deploy_svc \<Rightarrow> dp_error + deploy_svc" where
  "dp_insert fault d st =
     (case fault of
        Some e \<Rightarrow> Inl (DpDbError e)
      | None \<Rightarrow>
          if dp_id d \<in> dp_id ` set (dp_rows st) then Inl DuplicateKey
          else Inr (st\<lparr>dp_rows := dp_rows st @ [d]\<rparr>))"

definition dp_get :: "string \<Rightarrow> deploy_svc \<Rightarrow> deployment option" where
  "dp_get i st = find (\<lambda>d. dp_id d = i) (dp_rows st)"

definition dp_list :: "((deployment \<Rightarrow> deployment \<Rightarrow> bool) \<Rightarrow> deployment list \<Rightarrow> deployment list)
    \<Rightarrow> string \<Rightarrow> deploy_svc \<Rightarrow> deployment list" where
  "dp_list srt srv st = srt (\<lambda>a b. dp_created b < dp_created a) (filter (\<lambda>d. dp_server d = srv) (dp_rows st))"

text \<open>An update of a missing row is no error. The creation time is not among the columns written.\<close>

definition dp_update :: "string option \<Rightarrow> deployment \<Rightarrow> deploy_svc \<Rightarrow> dp_error + deploy_svc" where
  "dp_update fault d st =
     (case fault of
        Some e \<Rightarrow> Inl (DpDbError e)
      | None \<Rightarrow> Inr (st\<lparr>dp_rows := map (\<lambda>r. if dp_id r = dp_id d then d\<lparr>dp_created := dp_created r\<rparr> else r) (dp_rows st)\<rparr>))"

definition dp_update_status :: "gotime \<Rightarrow> string \<Rightarrow> string \<Rightarrow> string \<Rightarrow> deploy_svc \<Rightarrow> deploy_svc" where
  "dp_update_status now i status msg st =
     st\<lparr>dp_rows := map (\<lambda>r. if dp_id r = i
         then r\<lparr>dp_status := status, dp_updated := now, dp_error := (if msg = [] then dp_error r else msg),
                dp_completed := (if status \<in> {''completed'', ''failed'', ''rolled_back'', ''cancelled''}
                                 then Some now else dp_completed r)\<rparr>
         else r) (dp_rows st)\<rparr>"

definition dp_delete :: "string \<Rightarrow> deploy_svc \<Rightarrow> deploy_svc" where
  "dp_delete i st = st\<lparr>dp_rows := filter (\<lambda>d. dp_id d \<noteq> i) (dp_rows st)\<rparr>"

section \<open>Operations\<close>

definition dp_publish :: "dp_envelope \<Rightarrow> deploy_svc \<Rightarrow> deploy_svc" where
  "dp_publish e st = (if dp_publisher st then st\<lparr>dp_published := dp_published st @ [e]\<rparr> else st)"

text \<open>\<^verbatim>\<open>time.Time.Unix\<close>, seconds since 1970.\<close>

definition unix_seconds :: "gotime \<Rightarrow> int" where
  "unix_seconds t = t div second - 62135596800"

definition new_deployment ::
  "string \<Rightarrow> gotime \<Rightarrow> gotime \<Rightarrow> string \<Rightarrow> string \<Rightarrow> string \<Rightarrow> int \<Rightarrow> deployment" where
  "new_deployment i now t2 srv img path port =
     \<lparr>dp_id = i, dp_server = srv, dp_strategy = ''blue-green'', dp_status = ''pending'', dp_image = img,
      dp_blue = srv @ ''-blue'', dp_green = srv @ ''-green-'' @ show_int (unix_seconds t2),
      dp_active = ''blue'', dp_health_path = path, dp_health_port = port,
      dp_created = now, dp_updated = now, dp_completed = None, dp_error = []\<rparr>"

definition start_blue_green ::
  "((deployment \<Rightarrow> deployment \<Rightarrow> bool) \<Rightarrow> deployment list \<Rightarrow> deployment list) \<Rightarrow> string option \<Rightarrow> string option
     \<Rightarrow> string \<Rightarrow> gotime \<Rightarrow> gotime \<Rightarrow> string \<Rightarrow> string \<Rightarrow> string \<Rightarrow> int \<Rightarrow> deploy_svc
     \<Rightarrow> (dp_error + deployment) \<times> deploy_svc" where
  "start_blue_green srt list_fault fault i now t2 srv img path port st =
     (if srv = [] then (Inl InvalidServer, st)
      else if img = [] then (Inl InvalidImage, st)
      else (case list_fault of
        Some e \<Rightarrow> (Inl (DpDbError e), st)
      | None \<Rightarrow>
          if \<exists>d \<in> set (dp_list srt srv st). dp_status d = ''in_progress'' then (Inl DeploymentInProgress, st)
          else
            let d = new_deployment i now t2 srv img path port in
            (case dp_insert fault d st of
               Inl e \<Rightarrow> (Inl e, st)
             | Inr st' \<Rightarrow>
                 (Inr d, dp_publish (''deployment_started'', ''server'', srv,
                    [(''deploymentId'', i), (''image'', img), (''strategy'', dp_strategy d)]) st'))))"

text \<open>Every error of the lookup, a failed query included, is reported as a missing deployment.\<close>

definition dp_lookup :: "bool \<Rightarrow> string \<Rightarrow> deploy_svc \<Rightarrow> dp_error + deployment" where
  "dp_lookup not_read i st =
     (if not_read then Inl DeploymentNotFound
      else (case dp_get i st of None \<Rightarrow> Inl DeploymentNotFound | Some d \<Rightarrow> Inr d))"

definition rollback ::
  "bool \<Rightarrow> string option \<Rightarrow> gotime \<Rightarrow> string \<Rightarrow> deploy_svc \<Rightarrow> (dp_error + deployment) \<times> deploy_svc" where
  "rollback not_read fault now i st =
     (case dp_lookup not_read i st of
        Inl e \<Rightarrow> (Inl e, st)
      | Inr d \<Rightarrow>
          if dp_active d = ''blue'' then (Inl NoRollback, st)
          else
            let d' = d\<lparr>dp_active := (if dp_active d = ''green'' then ''blue'' else dp_active d),
                       dp_status := ''rolled_back'', dp_updated := now, dp_completed := Some now\<rparr> in
            (case dp_update fault d' st of
               Inl e \<Rightarrow> (Inl e, st)
             | Inr st' \<Rightarrow>
                 (Inr d', dp_publish (''deployment_rolled_back'', ''deployment'', i,
                    [(''serverId'', dp_server d'), (''from'', dp_active d), (''to'', dp_active d')]) st')))"

definition complete_deployment ::
  "bool \<Rightarrow> string option \<Rightarrow> gotime \<Rightarrow> string \<Rightarrow> deploy_svc \<Rightarrow> (dp_error + deployment) \<times> deploy_svc" where
  "complete_deployment not_read fault now i st =
     (case dp_lookup not_read i st of
        Inl e \<Rightarrow> (Inl e, st)
      | Inr d \<Rightarrow>
          let d' = d\<lparr>dp_status := ''completed'', dp_updated := now, dp_completed := Some now\<rparr> in
          (case dp_update fault d' st of
             Inl e \<Rightarrow> (Inl e, st)
           | Inr st' \<Rightarrow>
               (Inr d', dp_publish (''deployment_completed'', ''deployment'', i,
                  [(''serverId'', dp_server d'), (''image'', dp_image d')]) st')))"

definition cancel_deployment ::
  "bool \<Rightarrow> string option \<Rightarrow> gotime \<Rightarrow> string \<Rightarrow> deploy_svc \<Rightarrow> (dp_error + deployment) \<times> deploy_svc" where
  "cancel_deployment not_read fault now i st =
     (case dp_lookup not_read i st of
        Inl e \<Rightarrow> (Inl e, st)
      | Inr d \<Rightarrow>
          if dp_status d \<noteq> ''in_progress'' \<and> dp_status d \<noteq> ''pending'' then (Inl CancelRefused, st)
          else
            let d' = d\<lparr>dp_status := ''cancelled'', dp_updated := now, dp_completed := Some now\<rparr> in
            (case dp_update fault d' st of Inl e \<Rightarrow> (Inl e, st) | Inr st' \<Rightarrow> (Inr d', st')))"

definition list_deployments ::
  "((deployment \<Rightarrow> deployment \<Rightarrow> bool) \<Rightarrow> deployment list \<Rightarrow> deployment list) \<Rightarrow> string option \<Rightarrow> string
     \<Rightarrow> deploy_svc \<Rightarrow> dp_error + deployment list" where
  "list_deployments srt fault srv st =
     (case fault of Some e \<Rightarrow> Inl (DpDbError e) | None \<Rightarrow> Inr (dp_list srt srv st))"

definition set_deployment_status ::
  "bool \<Rightarrow> string option \<Rightarrow> gotime \<Rightarrow> gotime \<Rightarrow> string \<Rightarrow> string \<Rightarrow> string \<Rightarrow> deploy_svc
     \<Rightarrow> (dp_error + unit) \<times> deploy_svc" where
  "set_deployment_status not_read fault t1 t2 i status msg st =
     (case dp_lookup not_read i st of
        Inl e \<Rightarrow> (Inl e, st)
      | Inr d \<Rightarrow>
          let d' = d\<lparr>dp_status := status, dp_updated := t1,
                     dp_error := (if msg = [] then dp_error d else msg),
                     dp_completed := (if status \<in> {''completed'', ''failed'', ''rolled_back''}
                                      then Some t2 else dp_completed d)\<rparr> in
          (case dp_update fault d' st of Inl e \<Rightarrow> (Inl e, st) | Inr st' \<Rightarrow> (Inr (), st')))"

section \<open>Reachable states\<close>

text \<open>Every operation that writes a deployment; \<open>api\<close> restricts to those the HTTP handlers
  call.\<close>

inductive dp_step :: "bool \<Rightarrow> deploy_svc \<Rightarrow> deploy_svc \<Rightarrow> bool" for api where
  step_start: "sorts srt \<Longrightarrow> dp_step api st (snd (start_blue_green srt lf fault i now t2 srv img path port st))"
| step_rollback: "dp_step api st (snd (rollback nr fault now i st))"
| step_complete: "dp_step api st (snd (complete_deployment nr fault now i st))"
| step_cancel: "dp_step api st (snd (cancel_deployment nr fault now i st))"
| step_set_status: "\<not> api \<Longrightarrow> dp_step api st (snd (set_deployment_status nr fault t1 t2 i status msg st))"
| step_update_status: "\<not> api \<Longrightarrow> dp_step api st (dp_update_status now i status msg st)"
| step_delete: "\<not> api \<Longrightarrow> dp_step api st (dp_delete i st)"

inductive dp_reachable :: "bool \<Rightarrow> deploy_svc \<Rightarrow> bool" for api where
  reach_start: "dp_rows st = [] \<Longrightarrow> dp_reachable api st"
| reach_step: "dp_reachable api st \<Longrightarrow> dp_step api st st' \<Longrightarrow> dp_reachable api st'"

inductive_cases dp_stepE: "dp_step api st st'"

text \<open>What holds of every row.\<close>

definition row_ok :: "bool \<Rightarrow> deployment \<Rightarrow> bool" where
  "row_ok api d \<longleftrightarrow> dp_active d = ''blue'' \<and> dp_strategy d = ''blue-green'' \<and>
     dp_server d \<noteq> [] \<and> dp_image d \<noteq> [] \<and> dp_blue d = dp_server d @ ''-blue'' \<and>
     (dp_status d \<in> {''completed'', ''failed'', ''rolled_back''} \<longrightarrow> dp_completed d \<noteq> None) \<and>
     (api \<longrightarrow> (dp_status d = ''pending'' \<and> dp_completed d = None) \<or>
             (dp_status d \<in> {''completed'', ''cancelled''} \<and> dp_completed d = Some (dp_updated d)))"

definition rows_ok :: "bool \<Rightarrow> deploy_svc \<Rightarrow> bool" where
  "rows_ok api st \<longleftrightarrow> distinct (map dp_id (dp_rows st)) \<and> list_all (row_ok api) (dp_rows st)"

lemma dp_publish_rows [simp]: "dp_rows (dp_publish e st) = dp_rows st"
  by (simp add: dp_publish_def)

lemma dp_lookup_mem: "dp_lookup nr i st = Inr d \<Longrightarrow> d \<in> set (dp_rows st) \<and> dp_id d = i"
  by (auto simp: dp_lookup_def dp_get_def find_Some_iff split: if_splits option.splits)

text \<open>Writing back rows under their own keys keeps the table in order.\<close>

lemma rows_ok_map:
  assumes "rows_ok api st" and "\<And>r. dp_id (f r) = dp_id r"
    and "\<And>r. row_ok api r \<Longrightarrow> row_ok api (f r)"
  shows "rows_ok api (st\<lparr>dp_rows := map f (dp_rows st)\<rparr>)"
proof -
  have "dp_id \<circ> f = dp_id" using assms(2) by (simp add: fun_eq_iff)
  with assms(1,3) show ?thesis by (simp add: rows_ok_def list_all_iff)
qed

lemma row_ok_created [simp]: "row_ok api (d\<lparr>dp_created := t\<rparr>) = row_ok api d"
  by (simp add: row_ok_def)

lemma dp_update_ok:
  assumes "rows_ok api st" "dp_update fault d st = Inr st'" "row_ok api d"
  shows "rows_ok api st'"
proof -
  from assms(2) have st': "st' = st\<lparr>dp_rows := map (\<lambda>r. if dp_id r = dp_id d then d\<lparr>dp_created := dp_created r\<rparr> else r) (dp_rows st)\<rparr>"
    by (simp add: dp_update_def split: option.splits)
  show ?thesis unfolding st' using assms(3) by (intro rows_ok_map [OF assms(1)]) simp_all
qed

lemma start_rows_ok:
  "rows_ok api st \<Longrightarrow> rows_ok api (snd (start_blue_green srt lf fault i now t2 srv img path port st))"
  by (auto simp: start_blue_green_def dp_insert_def new_deployment_def rows_ok_def row_ok_def Let_def
      split: option.splits sum.splits)

lemma rollback_refused:
  assumes "rows_ok api st"
  shows "rollback nr fault now i st =
     (Inl (if nr \<or> dp_get i st = None then DeploymentNotFound else NoRollback), st)"
proof (cases "dp_lookup nr i st")
  case (Inl e)
  then show ?thesis by (auto simp: rollback_def dp_lookup_def split: if_splits option.splits)
next
  case (Inr d)
  with dp_lookup_mem [OF Inr] assms have "dp_active d = ''blue''"
    by (simp add: rows_ok_def row_ok_def list_all_iff)
  with Inr show ?thesis by (auto simp: rollback_def dp_lookup_def split: if_splits option.splits)
qed

lemma complete_rows_ok:
  assumes "rows_ok api st"
  shows "rows_ok api (snd (complete_deployment nr fault now i st))"
proof (cases "dp_lookup nr i st")
  case (Inr d)
  with dp_lookup_mem [OF Inr] assms have "row_ok api d" by (simp add: rows_ok_def list_all_iff)
  then have "row_ok api (d\<lparr>dp_status := ''completed'', dp_updated := now, dp_completed := Some now\<rparr>)"
    by (simp add: row_ok_def)
  from dp_update_ok [OF assms _ this] Inr assms show ?thesis
    by (simp add: complete_deployment_def Let_def rows_ok_def split: sum.split)
qed (simp add: complete_deployment_def assms)

lemma cancel_rows_ok:
  assumes "rows_ok api st"
  shows "rows_ok api (snd (cancel_deployment nr fault now i st))"
proof (cases "dp_lookup nr i st")
  case (Inr d)
  with dp_lookup_mem [OF Inr] assms have "row_ok api d" by (simp add: rows_ok_def list_all_iff)
  then have "row_ok api (d\<lparr>dp_status := ''cancelled'', dp_updated := now, dp_completed := Some now\<rparr>)"
    by (simp add: row_ok_def)
  from dp_update_ok [OF assms _ this] Inr assms show ?thesis
    by (simp add: cancel_deployment_def Let_def rows_ok_def split: sum.split)
qed (simp add: cancel_deployment_def assms)

lemma row_ok_status:
  assumes "row_ok False r" and "status \<in> {''completed'', ''failed'', ''rolled_back''} \<Longrightarrow> c \<noteq> None"
  shows "row_ok False (r\<lparr>dp_status := status, dp_updated := now, dp_error := e, dp_completed := c\<rparr>)"
  using assms unfolding row_ok_def by simp

lemma set_status_rows_ok:
  assumes "rows_ok False st"
  shows "rows_ok False (snd (set_deployment_status nr fault t1 t2 i status msg st))"
proof (cases "dp_lookup nr i st")
  case (Inr d)
  define c where "c = (if status \<in> {''completed'', ''failed'', ''rolled_back''} then Some t2 else dp_completed d)"
  define e where "e = (if msg = [] then dp_error d else msg)"
  from Inr dp_lookup_mem [OF Inr] assms have "row_ok False d" by (simp add: rows_ok_def list_all_iff)
  then have "row_ok False (d\<lparr>dp_status := status, dp_updated := t1, dp_error := e, dp_completed := c\<rparr>)"
    by (rule row_ok_status) (simp add: c_def)
  note ok = dp_update_ok [OF assms _ this, of fault]
  show ?thesis
    unfolding set_deployment_status_def Inr sum.case Let_def c_def [symmetric] e_def [symmetric]
    using ok assms by (auto split: sum.split)
qed (simp add: set_deployment_status_def assms)

lemma update_status_rows_ok: "rows_ok False st \<Longrightarrow> rows_ok False (dp_update_status now i status msg st)"
  unfolding dp_update_status_def
proof (rule rows_ok_map, goal_cases)
  case (3 r)
  have "row_ok False (r\<lparr>dp_status := status, dp_updated := now, dp_error := (if msg = [] then dp_error r else msg),
      dp_completed := (if status \<in> {''completed'', ''failed'', ''rolled_back'', ''cancelled''} then Some now else dp_completed r)\<rparr>)"
    using 3(2) by (rule row_ok_status) auto
  with 3 show ?case by (cases "dp_id r = i") (simp_all only: if_True if_False refl)
qed simp_all

lemma delete_rows_ok: "rows_ok api st \<Longrightarrow> rows_ok api (dp_delete i st)"
  by (auto simp: dp_delete_def rows_ok_def list_all_iff distinct_map_filter)

lemma dp_step_ok: "dp_step api st st' \<Longrightarrow> rows_ok api st \<Longrightarrow> rows_ok api st'"
  by (elim dp_stepE)
    (simp_all add: start_rows_ok rollback_refused complete_rows_ok cancel_rows_ok set_status_rows_ok
      update_status_rows_ok delete_rows_ok)

lemma dp_reachable_ok: "dp_reachable api st \<Longrightarrow> rows_ok api st"
  by (induction rule: dp_reachable.induct) (auto simp: rows_ok_def dest: dp_step_ok [unfolded rows_ok_def])

lemma sample_deploy_reachable:
  "dp_reachable True (snd (start_blue_green slice_stable None None ''d1'' 1 1 ''s1'' ''img'' [] 0
     \<lparr>dp_rows = [], dp_publisher = False, dp_published = []\<rparr>))"
  by (rule reach_step [OF reach_start step_start [OF sorts_slice_stable]]) simp

section \<open>Properties\<close>

text \<open>the table of deployments stays well formed whatever operations run: identifiers are unique,
  a completed, failed or rolled back deployment has a completion time, and every deployment is a
  blue-green one whose blue target belongs to its server. Through the operations the HTTP handlers
  call, a deployment is either pending or was completed or cancelled at its last update.\<close>

theorem deployments_well_formed:
  assumes "dp_reachable api st"
  shows "distinct (map dp_id (dp_rows st)) \<and> (\<forall>d \<in> set (dp_rows st).
      dp_strategy d = ''blue-green'' \<and> dp_image d \<noteq> [] \<and> dp_blue d = dp_server d @ ''-blue'' \<and>
      (dp_status d \<in> {''completed'', ''failed'', ''rolled_back''} \<longrightarrow> dp_completed d \<noteq> None) \<and>
      (api \<longrightarrow> dp_status d = ''pending'' \<and> dp_completed d = None \<or>
         dp_status d \<in> {''completed'', ''cancelled''} \<and> dp_completed d = Some (dp_updated d)))"
  using dp_reachable_ok [OF assms] unfolding rows_ok_def row_ok_def list_all_iff by blast

text \<open>An instance: the table after one start.\<close>

theorem deployments_well_formed_witness:
  "distinct (map dp_id (dp_rows (snd (start_blue_green slice_stable None None ''d1'' 1 1 ''s1'' ''img'' [] 0
     \<lparr>dp_rows = [], dp_publisher = False, dp_published = []\<rparr>))))"
  using deployments_well_formed [OF sample_deploy_reachable] by blast

text \<open>no deployment can be rolled back. No operation makes the green target the active one, so in
  every state the operations can reach, a rollback reports a missing deployment or that there is no
  rollback target, and changes nothing.\<close>

theorem rollback_never_succeeds:
  assumes "dp_reachable api st"
  shows "rollback not_read fault now i st =
     (Inl (if not_read \<or> dp_get i st = None then DeploymentNotFound else NoRollback), st)"
  by (rule rollback_refused [OF dp_reachable_ok [OF assms]])

text \<open>An instance: a rollback right after the start.\<close>

theorem rollback_never_succeeds_witness:
  "fst (rollback False None 2 ''d1'' (snd (start_blue_green slice_stable None None ''d1'' 1 1 ''s1'' ''img'' [] 0
     \<lparr>dp_rows = [], dp_publisher = False, dp_published = []\<rparr>))) = Inl NoRollback"
  unfolding rollback_never_succeeds [OF sample_deploy_reachable]
  by (simp add: start_blue_green_def dp_list_def dp_insert_def new_deployment_def dp_publish_def dp_get_def Let_def)

text \<open>through the HTTP handlers the check for a running deployment never fires: with a working
  database and a fresh identifier every well-formed request starts another deployment of the server,
  whatever deployments of it are pending, and stores it as pending.\<close>

theorem start_always_accepted:
  assumes "dp_reachable True st" and "sorts srt" and "srv \<noteq> []" and "img \<noteq> []"
    and "i \<notin> dp_id ` set (dp_rows st)"
  shows "\<exists>d. fst (start_blue_green srt None None i now t2 srv img path port st) = Inr d \<and>
      dp_rows (snd (start_blue_green srt None None i now t2 srv img path port st)) = dp_rows st @ [d] \<and>
      dp_id d = i \<and> dp_server d = srv \<and> dp_status d = ''pending''"
proof -
  have "set (dp_list srt srv st) \<subseteq> set (dp_rows st)"
    using assms(2) by (auto simp: dp_list_def sorts_slice_sort slice_sort.srt_set)
  moreover have "dp_status d \<noteq> ''in_progress''" if "d \<in> set (dp_rows st)" for d
    using dp_reachable_ok [OF assms(1)] that by (auto simp: rows_ok_def row_ok_def list_all_iff)
  ultimately have "\<not> (\<exists>d \<in> set (dp_list srt srv st). dp_status d = ''in_progress'')" by blast
  with assms(3-5) show ?thesis
    by (simp add: start_blue_green_def dp_insert_def new_deployment_def Let_def)
qed

text \<open>An instance: a second deployment of the same server.\<close>

theorem start_always_accepted_witness:
  "length (dp_rows (snd (start_blue_green slice_stable None None ''d2'' 2 2 ''s1'' ''img'' [] 0
     (snd (start_blue_green slice_stable None None ''d1'' 1 1 ''s1'' ''img'' [] 0
       \<lparr>dp_rows = [], dp_publisher = False, dp_published = []\<rparr>))))) = 2"
proof -
  let ?st = "snd (start_blue_green slice_stable None None ''d1'' 1 1 ''s1'' ''img'' [] 0
       \<lparr>dp_rows = [], dp_publisher = False, dp_published = []\<rparr>)"
  have "map dp_id (dp_rows ?st) = [''d1'']"
    by (simp add: start_blue_green_def dp_list_def dp_insert_def new_deployment_def dp_publish_def Let_def)
  then have "''d2'' \<notin> dp_id ` set (dp_rows ?st)" "length (dp_rows ?st) = 1" by auto
  with start_always_accepted [OF sample_deploy_reachable sorts_slice_stable, of "''s1''" "''img''" "''d2''" 2 2 "[]" 0]
  show ?thesis by auto
qed

end
