(* ===== verification/Throttle.thy ===== *)
theory Throttle
  imports Forge_Prelude
begin

text \<open>
  The rate limits of the node agent: the fixed-window counter of \<^verbatim>\<open>beacon/internal/system/rate.go\<close>,
  the non-blocking lock of \<^verbatim>\<open>system/locker.go\<close>, the console throttle built from both in
  \<^verbatim>\<open>throttle/console.go\<close>, and the connection counter of \<^verbatim>\<open>websocketlimiter/connections.go\<close>.

  Counters are 64-bit words and wrap around. A channel of capacity one is a flag for its content and a
  flag for being closed; sending on a closed channel and closing it again panic, which is a result of
  its own.
\<close>

section \<open>Rate\<close>

record rate =
  rt_limit :: uint64
  rt_duration :: duration
  rt_count :: uint64
  rt_last :: gotime

definition new_rate :: "uint64 \<Rightarrow> duration \<Rightarrow> gotime \<Rightarrow> rate" where
  "new_rate limit d now = \<lparr>rt_limit = limit, rt_duration = d, rt_count = 0, rt_last = now\<rparr>"

definition rate_try :: "gotime \<Rightarrow> rate \<Rightarrow> bool \<times> rate" where
  "rate_try now r =
     (let r1 = (if rt_duration r < time_sub now (rt_last r) then r\<lparr>rt_count := 0, rt_last := now\<rparr> else r) in
      if rt_limit r1 < rt_count r1 + 1 then (False, r1)
      else (True, r1\<lparr>rt_count := rt_count r1 + 1\<rparr>))"

definition rate_reset :: "gotime \<Rightarrow> rate \<Rightarrow> rate" where
  "rate_reset now r = r\<lparr>rt_count := 0, rt_last := now\<rparr>"

section \<open>Locker\<close>

record locker =
  lk_full :: bool
  lk_closed :: bool

datatype lock_error = LockerLocked | LockerPanic

definition new_locker :: locker where
  "new_locker = \<lparr>lk_full = False, lk_closed = False\<rparr>"

definition is_locked :: "locker \<Rightarrow> bool" where
  "is_locked l \<longleftrightarrow> lk_full l"

definition acquire :: "locker \<Rightarrow> (lock_error + unit) \<times> locker" where
  "acquire l =
     (if lk_closed l then (Inl LockerPanic, l)
      else if lk_full l then (Inl LockerLocked, l)
      else (Inr (), l\<lparr>lk_full := True\<rparr>))"

text \<open>\<^verbatim>\<open>TryAcquire\<close> waits until the channel or the context is ready; \<open>pick\<close> is the choice of
  the runtime when both are. Without a result the call is still waiting.\<close>

definition try_acquire :: "bool \<Rightarrow> bool \<Rightarrow> locker \<Rightarrow> ((lock_error + unit) \<times> locker) option" where
  "try_acquire ctx_done pick l =
     (if (lk_closed l \<or> \<not> lk_full l) \<and> (\<not> ctx_done \<or> pick) then Some (acquire l)
      else if ctx_done then Some (Inl LockerLocked, l)
      else None)"

text \<open>A receive from a closed channel returns at once.\<close>

definition release :: "locker \<Rightarrow> locker" where
  "release l = l\<lparr>lk_full := False\<rparr>"

definition destroy :: "locker \<Rightarrow> (lock_error + unit) \<times> locker" where
  "destroy l =
     (if lk_closed l then (Inl LockerPanic, l\<lparr>lk_full := False\<rparr>)
      else (Inr (), \<lparr>lk_full = False, lk_closed = True\<rparr>))"

section \<open>Console throttle\<close>

record throttle_config =
  tc_enabled :: bool
  tc_lines :: uint64
  tc_period :: uint64

definition with_defaults :: "throttle_config \<Rightarrow> throttle_config" where
  "with_defaults c =
     c\<lparr>tc_lines := (if tc_lines c = 0 then 2000 else tc_lines c),
       tc_period := (if tc_period c = 0 then 100 else tc_period c)\<rparr>"

record console_throttle =
  ct_rate :: rate
  ct_lock :: locker
  ct_has_strike :: bool
  ct_enabled :: bool

text \<open>The period is turned into a signed duration and multiplied, both modulo \<open>2 ^ 64\<close>.\<close>

definition new_console_throttle :: "throttle_config \<Rightarrow> bool \<Rightarrow> gotime \<Rightarrow> console_throttle" where
  "new_console_throttle config strike now =
     (let c = with_defaults config in
      \<lparr>ct_rate = new_rate (tc_lines c) (sint (tc_period c * 1000000)) now,
       ct_lock = new_locker, ct_has_strike = strike, ct_enabled = tc_enabled c\<rparr>)"

text \<open>The answer, whether the callback was called, and the new state.\<close>

definition allow :: "gotime \<Rightarrow> console_throttle \<Rightarrow> bool \<times> bool \<times> console_throttle" where
  "allow now ct =
     (if \<not> ct_enabled ct then (True, False, ct)
      else (case rate_try now (ct_rate ct) of
        (False, r) \<Rightarrow>
          (case acquire (ct_lock ct) of
             (Inr _, l) \<Rightarrow> (False, ct_has_strike ct, ct\<lparr>ct_rate := r, ct_lock := l\<rparr>)
           | (Inl _, l) \<Rightarrow> (False, False, ct\<lparr>ct_rate := r, ct_lock := l\<rparr>))
      | (True, r) \<Rightarrow> (True, False, ct\<lparr>ct_rate := r, ct_lock := release (ct_lock ct)\<rparr>)))"

definition throttle_reset :: "gotime \<Rightarrow> console_throttle \<Rightarrow> console_throttle" where
  "throttle_reset now ct = ct\<lparr>ct_rate := rate_reset now (ct_rate ct)\<rparr>"

text \<open>A run: the answers and the calls of the callback for lines that arrive at the given instants.\<close>

fun allow_run :: "gotime list \<Rightarrow> console_throttle \<Rightarrow> (bool \<times> bool) list \<times> console_throttle" where
  "allow_run [] ct = ([], ct)"
| "allow_run (t # ts) ct =
     (let (ok, strike, ct1) = allow t ct; (rs, ct2) = allow_run ts ct1 in ((ok, strike) # rs, ct2))"

section \<open>Connections\<close>

record connections =
  cm_conns :: "string \<rightharpoonup> int"
  cm_max :: int

definition new_connection_manager :: "int \<Rightarrow> connections" where
  "new_connection_manager m = \<lparr>cm_conns = Map.empty, cm_max = (if m \<le> 0 then 30 else m)\<rparr>"

definition can_connect :: "string \<Rightarrow> connections \<Rightarrow> bool" where
  "can_connect i cm \<longleftrightarrow> map_get 0 (cm_conns cm) i < cm_max cm"

definition connected :: "string \<Rightarrow> connections \<Rightarrow> connections" where
  "connected i cm = cm\<lparr>cm_conns := (cm_conns cm)(i \<mapsto> map_get 0 (cm_conns cm) i + 1)\<rparr>"

definition disconnected :: "string \<Rightarrow> connections \<Rightarrow> connections" where
  "disconnected i cm =
     (let m = (if 0 < map_get 0 (cm_conns cm) i then (cm_conns cm)(i \<mapsto> map_get 0 (cm_conns cm) i - 1)
               else cm_conns cm)
      in cm\<lparr>cm_conns := (if map_get 0 m i = 0 then m(i := None) else m)\<rparr>)"

definition conn_count :: "string \<Rightarrow> connections \<Rightarrow> int" where
  "conn_count i cm = map_get 0 (cm_conns cm) i"

section \<open>The rate in a window\<close>

text \<open>The counter never passes the limit, which must not be the largest word: there the increment
  would wrap around.\<close>

definition rate_ok :: "rate \<Rightarrow> bool" where
  "rate_ok r \<longleftrightarrow> rt_count r \<le> rt_limit r \<and> rt_limit r \<noteq> - 1 \<and> - (2 ^ 63) \<le> rt_duration r"

lemma word_succ_le:
  assumes "(c :: uint64) \<le> l" "l \<noteq> - 1"
  shows "unat (c + 1) = Suc (unat c)"
proof -
  have "1 + c \<noteq> 0"
  proof
    assume "1 + c = 0"
    then have "c = - 1" by (simp add: add_eq_0_iff)
    with assms show False by (simp add: word_order.extremum_unique)
  qed
  then show ?thesis by (simp add: unatSuc [symmetric] add.commute)
qed

lemma window_open: "- (2 ^ 63) \<le> d \<Longrightarrow> d < time_sub now u \<Longrightarrow> u + d < now"
  by (auto simp: time_sub_def)

text \<open>One call: the counter after it accounts for a granted one, and the window moves only past its
  end.\<close>

lemma rate_try_cases:
  assumes "rate_ok r" "rate_try now r = (ok, r')"
  shows "rate_ok r'" "rt_limit r' = rt_limit r" "rt_duration r' = rt_duration r"
    and "now \<le> rt_last r + rt_duration r \<Longrightarrow>
      rt_last r' = rt_last r \<and> unat (rt_count r') = unat (rt_count r) + of_bool ok"
    and "rt_last r' = rt_last r \<and> unat (rt_count r') = unat (rt_count r) + of_bool ok \<or>
      rt_last r' = now \<and> unat (rt_count r') = of_bool ok"
proof -
  define r1 where "r1 = (if rt_duration r < time_sub now (rt_last r) then r\<lparr>rt_count := 0, rt_last := now\<rparr> else r)"
  have ok1: "rate_ok r1" using assms(1) by (simp add: r1_def rate_ok_def)
  have step: "ok = (rt_count r1 + 1 \<le> rt_limit r1)" "r' = (if ok then r1\<lparr>rt_count := rt_count r1 + 1\<rparr> else r1)"
    using assms(2) by (auto simp: rate_try_def r1_def [symmetric] Let_def not_less split: if_splits)
  have cnt: "unat (rt_count r') = unat (rt_count r1) + of_bool ok"
    using ok1 step by (auto simp: rate_ok_def word_succ_le)
  show "rate_ok r'" using ok1 step by (auto simp: rate_ok_def)
  show "rt_limit r' = rt_limit r" "rt_duration r' = rt_duration r" using step by (auto simp: r1_def)
  have last: "rt_last r' = rt_last r1" using step by auto
  show "rt_last r' = rt_last r \<and> unat (rt_count r') = unat (rt_count r) + of_bool ok \<or>
      rt_last r' = now \<and> unat (rt_count r') = of_bool ok"
    using cnt last by (auto simp: r1_def split: if_splits)
  show "rt_last r' = rt_last r \<and> unat (rt_count r') = unat (rt_count r) + of_bool ok"
    if "now \<le> rt_last r + rt_duration r"
  proof -
    have "\<not> rt_duration r < time_sub now (rt_last r)"
      using window_open [of "rt_duration r" now "rt_last r"] assms(1) that by (auto simp: rate_ok_def)
    then show ?thesis using cnt last by (simp add: r1_def)
  qed
qed

text \<open>Unfolding of one step of an enabled throttle.\<close>

lemma allow_enabled:
  assumes "ct_enabled ct" "rate_try now (ct_rate ct) = (ok, r)"
  shows "fst (allow now ct) = ok" "ct_rate (snd (snd (allow now ct))) = r"
    "ct_enabled (snd (snd (allow now ct)))" "ct_has_strike (snd (snd (allow now ct))) = ct_has_strike ct"
  using assms by (simp_all add: allow_def split: bool.splits prod.splits sum.splits)

lemma allow_run_window:
  assumes "ct_enabled ct" "rate_ok (ct_rate ct)"
    and "\<forall>t \<in> set ts. t \<le> rt_last (ct_rate ct) + rt_duration (ct_rate ct)"
  shows "unat (rt_count (ct_rate ct)) + length (filter fst (fst (allow_run ts ct))) \<le> unat (rt_limit (ct_rate ct))"
  using assms
proof (induction ts arbitrary: ct)
  case Nil
  then show ?case by (simp add: rate_ok_def word_le_nat_alt)
next
  case (Cons t ts)
  obtain ok r where r: "rate_try t (ct_rate ct) = (ok, r)" by fastforce
  obtain s ct1 where a: "allow t ct = (ok, s, ct1)" and ct1: "ct_rate ct1 = r" "ct_enabled ct1"
    using allow_enabled [OF Cons.prems(1) r] by (cases "allow t ct") auto
  note tr = rate_try_cases [OF Cons.prems(2) r]
  have "unat (rt_count r) + length (filter fst (fst (allow_run ts ct1))) \<le> unat (rt_limit r)"
    using Cons.IH [of ct1] ct1 tr(1-4) Cons.prems(3) by simp
  with tr(2,4) Cons.prems(3) a show ?case by (cases ok) (simp_all add: split_beta Let_def)
qed

lemma allow_run_interval:
  assumes "ct_enabled ct" "rate_ok (ct_rate ct)"
    and "\<forall>t \<in> set ts. a \<le> t \<and> t \<le> a + rt_duration (ct_rate ct)"
  shows "unat (rt_count (ct_rate ct)) + length (filter fst (fst (allow_run ts ct))) \<le> 2 * unat (rt_limit (ct_rate ct))"
  using assms
proof (induction ts arbitrary: ct)
  case Nil
  then show ?case by (simp add: rate_ok_def word_le_nat_alt)
next
  case (Cons t ts)
  obtain ok r where r: "rate_try t (ct_rate ct) = (ok, r)" by fastforce
  obtain s ct1 where al: "allow t ct = (ok, s, ct1)" and ct1: "ct_rate ct1 = r" "ct_enabled ct1"
    using allow_enabled [OF Cons.prems(1) r] by (cases "allow t ct") auto
  note tr = rate_try_cases [OF Cons.prems(2) r]
  have lim: "unat (rt_count (ct_rate ct)) \<le> unat (rt_limit (ct_rate ct))"
    using Cons.prems(2) by (simp add: rate_ok_def word_le_nat_alt)
  have IH: "unat (rt_count r) + length (filter fst (fst (allow_run ts ct1))) \<le> 2 * unat (rt_limit r)"
    using Cons.IH [of ct1] ct1 tr(1-3) Cons.prems(3) by simp
  have W: "unat (rt_count r) + length (filter fst (fst (allow_run ts ct1))) \<le> unat (rt_limit r)" if "rt_last r = t"
    using allow_run_window [of ct1 ts] ct1 tr(1,3) Cons.prems(3) that by force
  from tr(5) show ?case
  proof
    assume "rt_last r = rt_last (ct_rate ct) \<and> unat (rt_count r) = unat (rt_count (ct_rate ct)) + of_bool ok"
    with IH tr(2) al show ?thesis by (cases ok) (simp_all add: split_beta Let_def)
  next
    assume "rt_last r = t \<and> unat (rt_count r) = of_bool ok"
    with W lim tr(2) al show ?thesis by (cases ok) (simp_all add: split_beta Let_def)
  qed
qed

lemma allow_run_append:
  "allow_run (us @ ts) ct =
     (let (rs, ct1) = allow_run us ct; (ss, ct2) = allow_run ts ct1 in (rs @ ss, ct2))"
  by (induction us arbitrary: ct) (simp_all add: split_beta Let_def)

lemma allow_run_length: "length (fst (allow_run ts ct)) = length ts"
  by (induction ts arbitrary: ct) (simp_all add: split_beta Let_def)

lemma allow_run_keeps:
  assumes "ct_enabled ct" "rate_ok (ct_rate ct)"
  shows "ct_enabled (snd (allow_run ts ct)) \<and> rate_ok (ct_rate (snd (allow_run ts ct))) \<and>
     rt_limit (ct_rate (snd (allow_run ts ct))) = rt_limit (ct_rate ct) \<and>
     rt_duration (ct_rate (snd (allow_run ts ct))) = rt_duration (ct_rate ct)"
  using assms
proof (induction ts arbitrary: ct)
  case Nil
  then show ?case by simp
next
  case (Cons t ts)
  obtain ok r where r: "rate_try t (ct_rate ct) = (ok, r)" by fastforce
  obtain s ct1 where al: "allow t ct = (ok, s, ct1)" and ct1: "ct_rate ct1 = r" "ct_enabled ct1"
    using allow_enabled [OF Cons.prems(1) r] by (cases "allow t ct") auto
  show ?case
    using Cons.IH [of ct1] ct1 rate_try_cases(1-3) [OF Cons.prems(2) r] al by (simp add: split_beta Let_def)
qed

text \<open>The lock remembers whether the last line was refused, so that the callback marks the start of
  every stretch of refused lines.\<close>

lemma allow_lock:
  assumes "ct_enabled ct" "\<not> lk_closed (ct_lock ct)" "allow t ct = (ok, strike, ct1)"
  shows "\<not> lk_closed (ct_lock ct1)" "lk_full (ct_lock ct1) = (\<not> ok)" "ct_enabled ct1"
    "ct_has_strike ct1 = ct_has_strike ct"
    "strike = (ct_has_strike ct \<and> \<not> ok \<and> \<not> lk_full (ct_lock ct))"
  using assms
  by (auto simp: allow_def acquire_def release_def split: prod.splits bool.splits if_splits)

lemma allow_run_strikes:
  assumes "ct_enabled ct" "\<not> lk_closed (ct_lock ct)" "ct_has_strike ct"
  shows "map snd (fst (allow_run ts ct)) =
    map2 (\<lambda>before ok. before \<and> \<not> ok) ((\<not> lk_full (ct_lock ct)) # map fst (fst (allow_run ts ct))) (map fst (fst (allow_run ts ct)))"
  using assms
proof (induction ts arbitrary: ct)
  case Nil
  then show ?case by simp
next
  case (Cons t ts)
  obtain ok strike ct1 where al: "allow t ct = (ok, strike, ct1)" by (cases "allow t ct") auto
  note lock = allow_lock [OF Cons.prems(1,2) al]
  show ?case using Cons.IH [of ct1] lock Cons.prems(3) al by (auto simp: split_beta Let_def)
qed

lemma connected_disconnected:
  "0 \<le> map_get 0 (cm_conns cm) i \<Longrightarrow> conn_count j (disconnected i (connected i cm)) = conn_count j cm"
  by (simp add: connected_def disconnected_def conn_count_def Let_def)

section \<open>Properties\<close>

text \<open>the console throttle. Whatever lines came before, at most twice the configured number of lines
  pass in any span of one period, and the strike callback runs exactly once per stretch of refused
  lines, at its first line. The limit must not be the largest 64-bit number, where the counter of the
  window wraps around.\<close>

theorem console_throttle_limits:
  assumes "tc_enabled c" and "tc_lines c \<noteq> - 1"
    and "\<forall>t \<in> set ts. a \<le> t \<and> t \<le> a + sint (tc_period (with_defaults c) * 1000000)"
    and "allow_run (us @ ts) (new_console_throttle c True now) = (rs, ct)"
  shows "length (filter fst (drop (length us) rs)) \<le> 2 * unat (tc_lines (with_defaults c)) \<and>
    map snd rs = map2 (\<lambda>before ok. before \<and> \<not> ok) (True # map fst rs) (map fst rs)"
proof -
  let ?ct = "new_console_throttle c True now"
  have en: "ct_enabled ?ct" "\<not> lk_closed (ct_lock ?ct)" "\<not> lk_full (ct_lock ?ct)" "ct_has_strike ?ct"
    using assms(1) by (simp_all add: new_console_throttle_def new_locker_def with_defaults_def Let_def)
  have "tc_lines (with_defaults c) \<noteq> - 1" using assms(2) by (simp add: with_defaults_def)
  moreover have "- (2 ^ 63) \<le> sint (tc_period (with_defaults c) * 1000000)"
    using sint_greater_eq [of "tc_period (with_defaults c) * 1000000"] by simp
  ultimately have ok: "rate_ok (ct_rate ?ct)"
    by (simp add: new_console_throttle_def new_rate_def rate_ok_def Let_def)
  let ?ct1 = "snd (allow_run us ?ct)"
  have keep: "ct_enabled ?ct1" "rate_ok (ct_rate ?ct1)" "rt_limit (ct_rate ?ct1) = tc_lines (with_defaults c)"
    "rt_duration (ct_rate ?ct1) = sint (tc_period (with_defaults c) * 1000000)"
    using allow_run_keeps [OF en(1) ok, of us] by (simp_all add: new_console_throttle_def new_rate_def Let_def)
  have rs: "rs = fst (allow_run us ?ct) @ fst (allow_run ts ?ct1)"
    using assms(4) by (simp add: allow_run_append split_beta Let_def)
  have "length (filter fst (fst (allow_run ts ?ct1))) \<le> 2 * unat (rt_limit (ct_rate ?ct1))"
    using allow_run_interval [OF keep(1,2), of ts a] assms(3) keep(4) by simp
  with rs keep(3) have "length (filter fst (drop (length us) rs)) \<le> 2 * unat (tc_lines (with_defaults c))"
    by (simp add: allow_run_length)
  with allow_run_strikes [OF en(1,2,4), of "us @ ts"] assms(4) en(3) show ?thesis by simp
qed

text \<open>An instance: one line per 100 ms, three lines at once and one after the window.\<close>

theorem console_throttle_limits_witness:
  "let rs = fst (allow_run [1, 2, 3, 100000001] (new_console_throttle \<lparr>tc_enabled = True, tc_lines = 1, tc_period = 100\<rparr> True 0))
   in map fst rs = [True, False, False, True] \<and> map snd rs = [False, True, False, False]"
proof -
  let ?c = "\<lparr>tc_enabled = True, tc_lines = 1, tc_period = 100\<rparr>"
  have c: "with_defaults ?c = ?c" by (simp add: with_defaults_def)
  let ?r = "allow_run ([1, 2] @ [3, 100000001]) (new_console_throttle ?c True 0)"
  have "map fst (fst ?r) = [True, False, False, True]"
    unfolding new_console_throttle_def c
    by (simp add: new_rate_def new_locker_def Let_def allow_def rate_try_def time_sub_def acquire_def release_def)
  then show ?thesis
    using console_throttle_limits [of ?c "[3, 100000001]" 3 "[1, 2]" 0 "fst ?r" "snd ?r"]
    by (simp add: c Let_def)
qed

end
