(* ===== verification/Backup_Retention.thy ===== *)
theory Backup_Retention
  imports Forge_Prelude
begin

text \<open>
  The records of backups on a node, \<^verbatim>\<open>beacon/internal/backup/store.go\<close>, and the retention policy
  over them, \<^verbatim>\<open>backup/retention.go\<close>.

  The policy runs against the interface \<^verbatim>\<open>Store\<close>: its model takes the listing and the deletion
  as arguments, the locale \<open>backup_store\<close> states what it relies on, and the SQLite store is an
  interpretation. The rows have the columns the statements name. The calendar of a time (its day, its
  ISO week and its month as text) is an argument.
\<close>

section \<open>Records\<close>

record backup =
  b_id :: string
  b_server :: string
  b_started :: gotime
  b_completed :: gotime
  b_status :: string
  b_size :: int
  b_files :: int
  b_duration :: duration
  b_adapter :: string
  b_path :: string
  b_error :: string

datatype backup_error = BackupNotFound string | BackupDb string

type_synonym backup_table = "backup list"

section \<open>The SQLite store\<close>

text \<open>A failing statement is an argument that carries its error.\<close>

definition sq_create :: "string option \<Rightarrow> backup \<Rightarrow> backup_table \<Rightarrow> (backup_error + unit) \<times> backup_table" where
  "sq_create fault b s =
     (case fault of
        Some e \<Rightarrow> (Inl (BackupDb e), s)
      | None \<Rightarrow> if b_id b \<in> b_id ` set s then (Inl (BackupDb ''UNIQUE constraint failed''), s) else (Inr (), s @ [b]))"

definition sq_get :: "string option \<Rightarrow> string \<Rightarrow> backup_table \<Rightarrow> backup_error + backup" where
  "sq_get fault i s =
     (case fault of
        Some e \<Rightarrow> Inl (BackupDb e)
      | None \<Rightarrow> (case find (\<lambda>b. b_id b = i) s of None \<Rightarrow> Inl (BackupNotFound i) | Some b \<Rightarrow> Inr b))"

text \<open>Newest first; the order of equal completion times is left to the database.\<close>

definition newer :: "backup \<Rightarrow> backup \<Rightarrow> bool" where
  "newer a b \<longleftrightarrow> b_completed b < b_completed a"

type_synonym sorting = "(backup \<Rightarrow> backup \<Rightarrow> bool) \<Rightarrow> backup list \<Rightarrow> backup list"

definition sq_list :: "sorting \<Rightarrow> string option \<Rightarrow> string \<Rightarrow> int \<Rightarrow> backup_table \<Rightarrow> backup_error + backup list" where
  "sq_list ord fault srv limit s =
     (case fault of
        Some e \<Rightarrow> Inl (BackupDb e)
      | None \<Rightarrow>
          let bs = ord newer (filter (\<lambda>b. b_server b = srv) s)
          in Inr (if 0 < limit then take (nat limit) bs else bs))"

definition sq_update_status ::
  "string option \<Rightarrow> string \<Rightarrow> string \<Rightarrow> string \<Rightarrow> backup_table \<Rightarrow> (backup_error + unit) \<times> backup_table" where
  "sq_update_status fault i status msg s =
     (case fault of
        Some e \<Rightarrow> (Inl (BackupDb e), s)
      | None \<Rightarrow>
          if i \<notin> b_id ` set s then (Inl (BackupNotFound i), s)
          else (Inr (), map (\<lambda>b. if b_id b = i then b\<lparr>b_status := status, b_error := msg\<rparr> else b) s))"

definition sq_delete :: "(string \<Rightarrow> string option) \<Rightarrow> string \<Rightarrow> backup_table \<Rightarrow> (backup_error + unit) \<times> backup_table" where
  "sq_delete fault i s =
     (case fault i of
        Some e \<Rightarrow> (Inl (BackupDb e), s)
      | None \<Rightarrow>
          if i \<notin> b_id ` set s then (Inl (BackupNotFound i), s)
          else (Inr (), filter (\<lambda>b. b_id b \<noteq> i) s))"

section \<open>The policy\<close>

record retention =
  rp_max :: int
  rp_age :: duration
  rp_daily :: int
  rp_weekly :: int
  rp_monthly :: int

record calendar =
  cal_day :: "gotime \<Rightarrow> string"
  cal_week :: "gotime \<Rightarrow> string"
  cal_month :: "gotime \<Rightarrow> string"

text \<open>The map \<^verbatim>\<open>keep\<close> only ever holds true, so it is the set of its keys.\<close>

fun period_counts :: "(gotime \<Rightarrow> string) \<Rightarrow> string set \<Rightarrow> backup list \<Rightarrow> (string \<rightharpoonup> int) \<Rightarrow> (string \<rightharpoonup> int)" where
  "period_counts period keep [] m = m"
| "period_counts period keep (b # bs) m =
     period_counts period keep bs
       (if b_id b \<notin> keep then m
        else m(period (b_completed b) \<mapsto> map_get 0 m (period (b_completed b)) + 1))"

text \<open>The loops that run from the oldest backup to the newest take the reversed list.\<close>

fun period_loop ::
  "(gotime \<Rightarrow> string) \<Rightarrow> int \<Rightarrow> backup list \<Rightarrow> string set \<Rightarrow> (string \<rightharpoonup> int) \<Rightarrow> string set" where
  "period_loop period k [] keep m = keep"
| "period_loop period k (b # bs) keep m =
     (if b_id b \<notin> keep then period_loop period k bs keep m
      else let p = period (b_completed b) in
        if k < map_get 0 m p then period_loop period k bs (keep - {b_id b}) (m(p \<mapsto> map_get 0 m p - 1))
        else period_loop period k bs keep m)"

definition apply_keep_per_period :: "backup list \<Rightarrow> string set \<Rightarrow> int \<Rightarrow> (gotime \<Rightarrow> string) \<Rightarrow> string set" where
  "apply_keep_per_period bs keep k period =
     period_loop period k (rev bs) keep (period_counts period keep bs Map.empty)"

fun trim_loop :: "int \<Rightarrow> backup list \<Rightarrow> int \<Rightarrow> string set \<Rightarrow> string set" where
  "trim_loop m [] kept keep = keep"
| "trim_loop m (b # bs) kept keep =
     (if \<not> m < kept then keep
      else if b_id b \<in> keep then trim_loop m bs (kept - 1) (keep - {b_id b})
      else trim_loop m bs kept keep)"

definition kept_ids :: "retention \<Rightarrow> calendar \<Rightarrow> gotime \<Rightarrow> backup list \<Rightarrow> string set" where
  "kept_ids p cal now bs =
     (let k0 = b_id ` set bs;
          k1 = (if 0 < rp_age p
                then k0 - b_id ` {b \<in> set bs. time_before (b_completed b) (now - rp_age p)} else k0);
          k2 = (if 0 < rp_daily p then apply_keep_per_period bs k1 (rp_daily p) (cal_day cal) else k1);
          k3 = (if 0 < rp_weekly p then apply_keep_per_period bs k2 (rp_weekly p) (cal_week cal) else k2);
          k4 = (if 0 < rp_monthly p then apply_keep_per_period bs k3 (rp_monthly p) (cal_month cal) else k3)
      in if 0 < rp_max p then trim_loop (rp_max p) (rev bs) (int (length (filter (\<lambda>b. b_id b \<in> k4) bs))) k4 else k4)"

fun delete_loop ::
  "(string \<Rightarrow> 's \<Rightarrow> ('e + unit) \<times> 's) \<Rightarrow> string set \<Rightarrow> backup list \<Rightarrow> 's \<Rightarrow> ('e + unit) \<times> 's" where
  "delete_loop del keep [] s = (Inr (), s)"
| "delete_loop del keep (b # bs) s =
     (if b_id b \<in> keep then delete_loop del keep bs s
      else (case del (b_id b) s of
              (Inl e, s') \<Rightarrow> (Inl e, s')
            | (Inr _, s') \<Rightarrow> delete_loop del keep bs s'))"

definition apply_policy ::
  "(string \<Rightarrow> int \<Rightarrow> 's \<Rightarrow> 'e + backup list) \<Rightarrow> (string \<Rightarrow> 's \<Rightarrow> ('e + unit) \<times> 's) \<Rightarrow> sorting
     \<Rightarrow> calendar \<Rightarrow> retention \<Rightarrow> gotime \<Rightarrow> string \<Rightarrow> 's \<Rightarrow> ('e + unit) \<times> 's" where
  "apply_policy list_op del srt cal p now srv s =
     (case list_op srv 0 s of
        Inl e \<Rightarrow> (Inl e, s)
      | Inr listed \<Rightarrow> let bs = srt newer listed in delete_loop del (kept_ids p cal now bs) bs s)"

section \<open>What the policy means\<close>

text \<open>The newest \<open>k\<close> of every class of a list that is sorted newest first: those with fewer
  than \<open>k\<close> predecessors of their class.\<close>

definition newest_per :: "nat \<Rightarrow> ('a \<Rightarrow> 'c) \<Rightarrow> 'a list \<Rightarrow> 'a list" where
  "newest_per k f xs =
     map snd (filter (\<lambda>(i, x). length (filter (\<lambda>y. f y = f x) (take i xs)) < k) (enumerate 0 xs))"

definition thin :: "int \<Rightarrow> (gotime \<Rightarrow> string) \<Rightarrow> backup list \<Rightarrow> backup list" where
  "thin k period bs = (if 0 < k then newest_per (nat k) (\<lambda>b. period (b_completed b)) bs else bs)"

definition retained :: "retention \<Rightarrow> calendar \<Rightarrow> gotime \<Rightarrow> backup list \<Rightarrow> backup list" where
  "retained p cal now bs =
     (let young = (if 0 < rp_age p then filter (\<lambda>b. now - rp_age p \<le> b_completed b) bs else bs);
          thinned = thin (rp_monthly p) (cal_month cal) (thin (rp_weekly p) (cal_week cal)
            (thin (rp_daily p) (cal_day cal) young))
      in if 0 < rp_max p then take (nat (rp_max p)) thinned else thinned)"

lemma newest_per_Nil [simp]: "newest_per k f [] = []"
  by (simp add: newest_per_def)

lemma newest_per_snoc:
  "newest_per k f (xs @ [x]) =
     newest_per k f xs @ (if length (filter (\<lambda>y. f y = f x) xs) < k then [x] else [])"
proof -
  have "filter (\<lambda>(i, z). length (filter (\<lambda>y. f y = f z) (take i (xs @ [x]))) < k) (enumerate 0 xs)
      = filter (\<lambda>(i, z). length (filter (\<lambda>y. f y = f z) (take i xs)) < k) (enumerate 0 xs)"
    by (rule filter_cong [OF refl]) (auto simp: in_set_enumerate_eq)
  then show ?thesis by (simp add: newest_per_def enumerate_append_eq)
qed

lemma newest_per_single: "0 < k \<Longrightarrow> newest_per k f [x] = [x]"
  using newest_per_snoc [of k f "[]" x] by simp

lemma set_newest_per: "set (newest_per k f xs) \<subseteq> set xs"
  by (induction xs rule: rev_induct) (auto simp: newest_per_snoc)

lemma newest_per_head:
  assumes "0 < k" "xs \<noteq> []"
  shows "newest_per k f xs \<noteq> [] \<and> hd (newest_per k f xs) = hd xs"
  using assms(2)
proof (induction xs rule: rev_induct)
  case Nil
  then show ?case by simp
next
  case (snoc x xs)
  then show ?case using assms(1) by (cases "xs = []") (simp_all add: newest_per_single newest_per_snoc)
qed

section \<open>The loops compute it\<close>

lemma period_counts_get:
  "map_get 0 (period_counts period keep bs m) p =
     map_get 0 m p + int (length (filter (\<lambda>b. b_id b \<in> keep \<and> period (b_completed b) = p) bs))"
  by (induction bs arbitrary: m) auto

lemma period_loop_subset: "period_loop period k xs keep m \<subseteq> keep"
proof (induction xs arbitrary: keep m)
  case Nil
  then show ?case by simp
next
  case (Cons b xs)
  have "period_loop period k xs (keep - {b_id b}) m' \<subseteq> keep" for m'
    using Cons [of "keep - {b_id b}" m'] by blast
  with Cons show ?case by (simp add: Let_def)
qed

lemma period_loop_other:
  "i \<notin> b_id ` set xs \<Longrightarrow> i \<in> period_loop period k xs keep m \<longleftrightarrow> i \<in> keep"
  by (induction xs arbitrary: keep m) (auto simp: Let_def)

lemma filter_remove_id:
  "i \<notin> b_id ` set bs \<Longrightarrow> filter (\<lambda>b. b_id b \<in> keep - {i} \<and> Q b) bs = filter (\<lambda>b. b_id b \<in> keep \<and> Q b) bs"
  by (rule filter_cong) auto

text \<open>The loop removes the rows of a class from the old end while the class has more than \<open>k\<close>
  rows left; \<open>extra\<close> counts what the loop has passed and kept.\<close>

lemma period_loop_newest:
  assumes "distinct (map b_id bs)" "0 \<le> k"
    and "\<And>p. map_get 0 m p = int (length (filter (\<lambda>b. b_id b \<in> keep \<and> period (b_completed b) = p) bs)) + extra p"
    and "\<And>p. 0 \<le> extra p" "\<And>p. 0 < extra p \<Longrightarrow> map_get 0 m p \<le> k"
  shows "filter (\<lambda>b. b_id b \<in> period_loop period k (rev bs) keep m) bs
      = newest_per (nat k) (\<lambda>b. period (b_completed b)) (filter (\<lambda>b. b_id b \<in> keep) bs)"
  using assms(1,3-5)
proof (induction bs arbitrary: keep m extra rule: rev_induct)
  case Nil
  then show ?case by simp
next
  case (snoc b bs)
  let ?p = "period (b_completed b)" and ?cnt = "\<lambda>keep p. filter (\<lambda>b. b_id b \<in> keep \<and> period (b_completed b) = p) bs"
  have fresh: "b_id b \<notin> b_id ` set bs" and dist: "distinct (map b_id bs)" using snoc.prems(1) by auto
  have flt: "filter (\<lambda>y. period (b_completed y) = p) (filter (\<lambda>b. b_id b \<in> keep) bs) = ?cnt keep p" for p
    by (simp add: conj_commute)
  show ?case
  proof (cases "b_id b \<in> keep")
    case False
    then have "b_id b \<notin> period_loop period k (rev bs) keep m" using period_loop_subset by blast
    with False show ?thesis using snoc.IH [OF dist, of m keep extra] snoc.prems(2-4) by auto
  next
    case True
    then have cnt: "map_get 0 m p = int (length (?cnt keep p)) + of_bool (p = ?p) + extra p" for p
      using snoc.prems(2) [of p] by (auto simp: of_bool_def)
    show ?thesis
    proof (cases "k < map_get 0 m ?p")
      case over: True
      then have e: "extra ?p = 0" using snoc.prems(3,4) [of ?p] by (metis less_le_not_le not_less order_le_less)
      let ?m = "m(?p \<mapsto> map_get 0 m ?p - 1)" and ?keep = "keep - {b_id b}"
      have "filter (\<lambda>b. b_id b \<in> period_loop period k (rev bs) ?keep ?m) bs
          = newest_per (nat k) (\<lambda>b. period (b_completed b)) (filter (\<lambda>b. b_id b \<in> ?keep) bs)"
      proof (rule snoc.IH [OF dist, of ?m ?keep extra])
        show "map_get 0 ?m p = int (length (?cnt ?keep p)) + extra p" for p
          using cnt [of p]
          by (cases "p = ?p") (simp_all add: filter_remove_id [OF fresh, of keep] del: Diff_iff insert_iff)
        show "map_get 0 ?m p \<le> k" if "0 < extra p" for p
          using snoc.prems(4) [OF that] that e by (cases "p = ?p") simp_all
      qed (rule snoc.prems(3))
      moreover have "filter (\<lambda>b. b_id b \<in> ?keep) bs = filter (\<lambda>b. b_id b \<in> keep) bs"
        using filter_remove_id [OF fresh, of keep "\<lambda>_. True"] by simp
      moreover have "b_id b \<notin> period_loop period k (rev bs) ?keep ?m" using period_loop_subset by blast
      ultimately show ?thesis
        using True over cnt [of ?p] e flt by (simp add: Let_def newest_per_snoc)
    next
      case False
      have "filter (\<lambda>b. b_id b \<in> period_loop period k (rev bs) keep m) bs
          = newest_per (nat k) (\<lambda>b. period (b_completed b)) (filter (\<lambda>b. b_id b \<in> keep) bs)"
      proof (rule snoc.IH [OF dist, of m keep "\<lambda>p. extra p + of_bool (p = ?p)"])
        show "map_get 0 m p = int (length (?cnt keep p)) + (extra p + of_bool (p = ?p))" for p
          using cnt [of p] by simp
      qed (use snoc.prems(3,4) False in \<open>auto simp: of_bool_def split: if_splits\<close>)
      then show ?thesis
        using True False cnt [of ?p] snoc.prems(3) [of ?p] flt fresh
        by (simp add: Let_def newest_per_snoc period_loop_other)
    qed
  qed
qed

lemma keep_per_period_newest:
  assumes "distinct (map b_id bs)" "0 < k"
  shows "filter (\<lambda>b. b_id b \<in> apply_keep_per_period bs keep k period) bs
      = thin k period (filter (\<lambda>b. b_id b \<in> keep) bs)"
  unfolding apply_keep_per_period_def thin_def
  using assms by (subst period_loop_newest [where extra = "\<lambda>_. 0"]) (simp_all add: period_counts_get)

lemma trim_loop_subset: "trim_loop m xs n keep \<subseteq> keep"
proof (induction xs arbitrary: n keep)
  case Nil
  then show ?case by simp
next
  case (Cons b xs)
  have "trim_loop m xs n' (keep - {b_id b}) \<subseteq> keep" for n' using Cons [of n' "keep - {b_id b}"] by blast
  with Cons show ?case by simp
qed

lemma trim_loop_take:
  assumes "distinct (map b_id bs)" "0 \<le> m"
  shows "filter (\<lambda>b. b_id b \<in> trim_loop m (rev bs) (int (length (filter (\<lambda>b. b_id b \<in> keep) bs))) keep) bs
     = take (nat m) (filter (\<lambda>b. b_id b \<in> keep) bs)"
  using assms(1)
proof (induction bs arbitrary: keep rule: rev_induct)
  case Nil
  then show ?case by simp
next
  case (snoc b bs)
  let ?n = "\<lambda>keep. int (length (filter (\<lambda>b. b_id b \<in> keep) bs))"
  have fresh: "b_id b \<notin> b_id ` set bs" and dist: "distinct (map b_id bs)" using snoc.prems by auto
  have same: "filter (\<lambda>b. b_id b \<in> keep - {b_id b'}) bs = filter (\<lambda>b. b_id b \<in> keep) bs" if "b' = b" for b'
    using filter_remove_id [OF fresh, of keep "\<lambda>_. True"] that by simp
  show ?case
  proof (cases "b_id b \<in> keep")
    case False
    then have "b_id b \<notin> trim_loop m (rev bs) (?n keep) keep" using trim_loop_subset by blast
    with False snoc.IH [OF dist, of keep] show ?thesis by simp
  next
    case True
    have "b_id b \<notin> trim_loop m (rev bs) (?n keep) (keep - {b_id b})" using trim_loop_subset by blast
    with True snoc.IH [OF dist, of "keep - {b_id b}"] assms(2) show ?thesis
      unfolding same [OF refl] by (simp add: nat_le_iff)
  qed
qed

text \<open>The ids the policy keeps are those of the retained backups.\<close>

lemma kept_ids_retained:
  assumes "distinct (map b_id bs)"
  shows "filter (\<lambda>b. b_id b \<in> kept_ids p cal now bs) bs = retained p cal now bs"
proof -
  have inj: "b_id b \<in> b_id ` A \<longleftrightarrow> b \<in> A" if "b \<in> set bs" "A \<subseteq> set bs" for b A
    using assms that by (auto simp: distinct_map inj_on_def)
  have young: "filter (\<lambda>b. b_id b \<in> b_id ` set bs - b_id ` {b \<in> set bs. time_before (b_completed b) c}) bs
      = filter (\<lambda>b. c \<le> b_completed b) bs" for c
    by (rule filter_cong [OF refl]) (auto simp: inj time_before_def)
  have step: "filter (\<lambda>b. b_id b \<in> (if 0 < k then apply_keep_per_period bs keep k period else keep)) bs
      = thin k period (filter (\<lambda>b. b_id b \<in> keep) bs)" for k keep period
    using keep_per_period_newest [OF assms] by (simp add: thin_def)
  have trim: "filter (\<lambda>b. b_id b \<in> (if 0 < m then trim_loop m (rev bs) (int (length (filter (\<lambda>b. b_id b \<in> keep) bs))) keep else keep)) bs
      = (if 0 < m then take (nat m) (filter (\<lambda>b. b_id b \<in> keep) bs) else filter (\<lambda>b. b_id b \<in> keep) bs)" for m keep
    using trim_loop_take [OF assms] by simp
  define k1 where "k1 = (if 0 < rp_age p
      then b_id ` set bs - b_id ` {b \<in> set bs. time_before (b_completed b) (now - rp_age p)} else b_id ` set bs)"
  define k2 where "k2 = (if 0 < rp_daily p then apply_keep_per_period bs k1 (rp_daily p) (cal_day cal) else k1)"
  define k3 where "k3 = (if 0 < rp_weekly p then apply_keep_per_period bs k2 (rp_weekly p) (cal_week cal) else k2)"
  define k4 where "k4 = (if 0 < rp_monthly p then apply_keep_per_period bs k3 (rp_monthly p) (cal_month cal) else k3)"
  have f1: "filter (\<lambda>b. b_id b \<in> k1) bs = (if 0 < rp_age p then filter (\<lambda>b. now - rp_age p \<le> b_completed b) bs else bs)"
    using young by (simp add: k1_def)
  have f4: "filter (\<lambda>b. b_id b \<in> k4) bs = thin (rp_monthly p) (cal_month cal) (thin (rp_weekly p) (cal_week cal)
      (thin (rp_daily p) (cal_day cal) (filter (\<lambda>b. b_id b \<in> k1) bs)))"
    unfolding k4_def k3_def k2_def step ..
  have "kept_ids p cal now bs = (if 0 < rp_max p
      then trim_loop (rp_max p) (rev bs) (int (length (filter (\<lambda>b. b_id b \<in> k4) bs))) k4 else k4)"
    unfolding kept_ids_def Let_def k4_def k3_def k2_def k1_def ..
  then have "filter (\<lambda>b. b_id b \<in> kept_ids p cal now bs) bs
      = (if 0 < rp_max p then take (nat (rp_max p)) (filter (\<lambda>b. b_id b \<in> k4) bs) else filter (\<lambda>b. b_id b \<in> k4) bs)"
    by (simp only: trim)
  then show ?thesis unfolding f4 f1 retained_def Let_def .
qed

text \<open>Sorting keeps the rows.\<close>

lemma sorted_rows:
  assumes "sorts srt"
  shows "set (srt newer bs) = set bs" "distinct (map b_id (srt newer bs)) = distinct (map b_id bs)"
proof -
  have "strict_weak_on (set bs) newer" unfolding newer_def by simp
  then have m: "mset (srt newer bs) = mset bs" using assms by (simp add: sorts_def)
  then show "set (srt newer bs) = set bs" by (rule mset_eq_setD)
  from m have "mset (map b_id (srt newer bs)) = mset (map b_id bs)" by simp
  then show "distinct (map b_id (srt newer bs)) = distinct (map b_id bs)" by (rule mset_eq_imp_distinct_iff)
qed

section \<open>The store the policy relies on\<close>

locale backup_store =
  fixes list_op :: "string \<Rightarrow> int \<Rightarrow> 's \<Rightarrow> 'e + backup list"
    and del_op :: "string \<Rightarrow> 's \<Rightarrow> ('e + unit) \<times> 's"
    and contents :: "'s \<Rightarrow> backup set"
    and ok :: "'s \<Rightarrow> bool"
  assumes list_all_rows: "ok s \<Longrightarrow> list_op srv 0 s = Inr bs \<Longrightarrow>
      set bs = {b \<in> contents s. b_server b = srv} \<and> distinct (map b_id bs)"
    and del_row: "ok s \<Longrightarrow> del_op i s = (Inr u, s') \<Longrightarrow> ok s' \<and> contents s' = {b \<in> contents s. b_id b \<noteq> i}"
    and del_failed: "ok s \<Longrightarrow> del_op i s = (Inl e, s') \<Longrightarrow> s' = s"
    and ids_unique: "ok s \<Longrightarrow> inj_on b_id (contents s)"
begin

lemma delete_loop_done:
  assumes "ok s" "delete_loop del_op keep bs s = (Inr u, s')"
  shows "contents s' = {b \<in> contents s. b_id b \<in> keep \<or> b_id b \<notin> b_id ` set bs}"
  using assms
proof (induction bs arbitrary: s)
  case Nil
  then show ?case by simp
next
  case (Cons b bs)
  show ?case
  proof (cases "b_id b \<in> keep")
    case True
    with Cons show ?thesis by auto
  next
    case False
    obtain x s1 where x: "del_op (b_id b) s = (x, s1)" by fastforce
    with Cons.prems(2) False obtain v where "x = Inr v" by (cases x) auto
    with x Cons.prems(2) False have d: "del_op (b_id b) s = (Inr v, s1)" "delete_loop del_op keep bs s1 = (Inr u, s')"
      by simp_all
    note r = del_row [OF Cons.prems(1) d(1)]
    have "contents s' = {x \<in> contents s1. b_id x \<in> keep \<or> b_id x \<notin> b_id ` set bs}"
      using Cons.IH [OF _ d(2)] r by blast
    moreover have "(b_id x \<noteq> b_id b \<and> (b_id x \<in> keep \<or> b_id x \<notin> I)) = (b_id x \<in> keep \<or> b_id x \<noteq> b_id b \<and> b_id x \<notin> I)" for x :: backup and I
      using False by metis
    ultimately show ?thesis using conjunct2 [OF r] by (simp add: conj_assoc)
  qed
qed

text \<open>Whatever deletion fails, nothing but rows of the list that are not to be kept goes.\<close>

lemma delete_loop_safe:
  assumes "ok s" "delete_loop del_op keep bs s = (r, s')"
  shows "contents s' \<subseteq> contents s \<and> {b \<in> contents s. b_id b \<in> keep \<or> b_id b \<notin> b_id ` set bs} \<subseteq> contents s'"
  using assms
proof (induction bs arbitrary: s)
  case Nil
  then show ?case by auto
next
  case (Cons b bs)
  show ?case
  proof (cases "b_id b \<in> keep")
    case True
    with Cons.IH [OF Cons.prems(1)] Cons.prems(2) show ?thesis by auto
  next
    case False
    obtain x s1 where d: "del_op (b_id b) s = (x, s1)" by fastforce
    show ?thesis
    proof (cases x)
      case (Inl e)
      with d Cons.prems False del_failed [OF Cons.prems(1)] show ?thesis by fastforce
    next
      case (Inr v)
      with d Cons.prems(2) False have "delete_loop del_op keep bs s1 = (r, s')" by simp
      with Cons.IH [of s1] del_row [OF Cons.prems(1), of "b_id b" v s1] d Inr False show ?thesis by auto
    qed
  qed
qed

text \<open>The rows of one server: kept by id, they are the retained ones.\<close>

lemma kept_rows:
  assumes "ok s" "list_op srv 0 s = Inr listed" "sorts srt"
  defines "bs \<equiv> srt newer listed"
  shows "{b \<in> contents s. b_id b \<in> kept_ids p cal now bs \<or> b_id b \<notin> b_id ` set bs}
     = {b \<in> contents s. b_server b \<noteq> srv \<or> b \<in> set (retained p cal now bs)}"
proof -
  have bs: "set bs = {b \<in> contents s. b_server b = srv}" "distinct (map b_id bs)"
    using list_all_rows [OF assms(1,2)] by (simp_all add: bs_def sorted_rows [OF assms(3)])
  have inj: "b_id b \<in> b_id ` set bs \<longleftrightarrow> b \<in> set bs" if "b \<in> contents s" for b
    using ids_unique [OF assms(1)] that bs(1) by (auto simp: inj_on_def)
  have "b_id b \<in> kept_ids p cal now bs \<longleftrightarrow> b \<in> set (retained p cal now bs)" if "b \<in> set bs" for b
    using arg_cong [OF kept_ids_retained [OF bs(2), of p cal now], of set] that by auto
  with inj bs(1) show ?thesis by blast
qed

end

interpretation sqlite: backup_store "sq_list ord lfault" "sq_delete dfault" set
    "\<lambda>s. distinct (map b_id s) \<and> sorts ord"
  for ord lfault dfault
proof (unfold_locales, goal_cases)
  case (1 s srv bs)
  then have "bs = ord newer (filter (\<lambda>b. b_server b = srv) s)"
    by (simp add: sq_list_def split: option.splits)
  with 1 show ?case by (simp add: sorted_rows distinct_map_filter)
next
  case (2 s i u s')
  then have "s' = filter (\<lambda>b. b_id b \<noteq> i) s" by (simp add: sq_delete_def split: option.splits if_splits)
  with 2 show ?case by (simp add: distinct_map_filter)
next
  case (3 s i e s')
  then show ?case by (simp add: sq_delete_def split: option.splits if_splits)
next
  case (4 s)
  then show ?case by (simp add: distinct_map)
qed

lemma ids_filter: "b_id ` set (filter (\<lambda>x. b_id x \<noteq> i) s) = b_id ` set s - {i}"
  by (induction s) auto

lemma delete_loop_works:
  assumes "distinct (map b_id bs)" "b_id ` set bs \<subseteq> b_id ` set s"
  shows "fst (delete_loop (sq_delete (\<lambda>_. None)) keep bs s) = Inr ()"
  using assms
proof (induction bs arbitrary: s)
  case Nil
  then show ?case by simp
next
  case (Cons b bs)
  show ?case
  proof (cases "b_id b \<in> keep")
    case True
    with Cons show ?thesis by simp
  next
    case False
    have "b_id ` set bs \<subseteq> b_id ` set (filter (\<lambda>x. b_id x \<noteq> b_id b) s)"
      unfolding ids_filter using Cons.prems by (simp add: subset_Diff_insert)
    with Cons.IH [of "filter (\<lambda>x. b_id x \<noteq> b_id b) s"] Cons.prems False show ?thesis
      by (simp add: sq_delete_def)
  qed
qed

lemma thin_head: "bs \<noteq> [] \<Longrightarrow> thin k period bs \<noteq> [] \<and> hd (thin k period bs) = hd bs"
  by (simp add: thin_def newest_per_head)

text \<open>The newest backup that is not too old is always retained.\<close>

lemma retained_newest:
  assumes "b # bs' = (if 0 < rp_age p then filter (\<lambda>b. now - rp_age p \<le> b_completed b) bs else bs)"
  shows "b \<in> set (retained p cal now bs)"
proof -
  let ?t = "thin (rp_monthly p) (cal_month cal) (thin (rp_weekly p) (cal_week cal) (thin (rp_daily p) (cal_day cal) (b # bs')))"
  have "?t \<noteq> [] \<and> hd ?t = b" using thin_head by (metis list.distinct(1) list.sel(1))
  then obtain ts where t: "?t = b # ts" by (metis list.collapse)
  have "retained p cal now bs = (if 0 < rp_max p then take (nat (rp_max p)) ?t else ?t)"
    unfolding retained_def Let_def assms [symmetric] ..
  then show ?thesis unfolding t by (cases "nat (rp_max p)") auto
qed

section \<open>Properties\<close>

text \<open>C12: applying a retention policy to the records of a server. Read newest first, the retained
  records are those young enough, of these the newest of every day, then of every week, then of every
  month up to the given numbers, and of these the newest up to the given total. Whatever deletions
  fail, no retained record and no record of another server is lost; when none fails the call succeeds
  and exactly these records are left.\<close>

theorem retention_exact:
  assumes "distinct (map b_id s)" and "sorts ord" and "sorts srt"
    and "apply_policy (sq_list ord None) (sq_delete dfault) srt cal p now srv s = (r, s')"
  defines "keep \<equiv> {b \<in> set s. b_server b \<noteq> srv \<or>
      b \<in> set (retained p cal now (srt newer (ord newer (filter (\<lambda>b. b_server b = srv) s))))}"
  shows "keep \<subseteq> set s' \<and> set s' \<subseteq> set s \<and> (dfault = (\<lambda>_. None) \<longrightarrow> r = Inr () \<and> set s' = keep)"
proof -
  let ?listed = "ord newer (filter (\<lambda>b. b_server b = srv) s)"
  let ?bs = "srt newer ?listed"
  have ok: "distinct (map b_id s) \<and> sorts ord" using assms by simp
  have l: "sq_list ord None srv 0 s = Inr ?listed" by (simp add: sq_list_def)
  have d: "delete_loop (sq_delete dfault) (kept_ids p cal now ?bs) ?bs s = (r, s')"
    using assms(4) by (simp add: apply_policy_def l Let_def)
  have k: "{b \<in> set s. b_id b \<in> kept_ids p cal now ?bs \<or> b_id b \<notin> b_id ` set ?bs} = keep"
    unfolding keep_def by (rule sqlite.kept_rows [OF ok l assms(3)])
  have ids: "set ?bs \<subseteq> set s" "distinct (map b_id ?bs)"
    using sqlite.list_all_rows [OF ok l] by (auto simp: sorted_rows [OF assms(3)])
  have "r = Inr () \<and> set s' = keep" if "dfault = (\<lambda>_. None)"
  proof -
    have r: "r = Inr ()" using delete_loop_works [OF ids(2), of s "kept_ids p cal now ?bs"] ids(1) d that by auto
    with sqlite.delete_loop_done [OF ok d [unfolded r]] k show ?thesis by simp
  qed
  with sqlite.delete_loop_safe [OF ok d] k show ?thesis by simp
qed

definition sample_backup :: "string \<Rightarrow> gotime \<Rightarrow> backup" where
  "sample_backup i t = \<lparr>b_id = i, b_server = ''s1'', b_started = t, b_completed = t, b_status = ''completed'',
     b_size = 0, b_files = 0, b_duration = 0, b_adapter = [], b_path = [], b_error = []\<rparr>"

text \<open>Witness of C12: of three records, two of them of one day, one per day and two in all.\<close>

theorem retention_exact_witness:
  "set (snd (apply_policy (sq_list slice_stable None) (sq_delete (\<lambda>_. None)) slice_stable
       \<lparr>cal_day = (\<lambda>t. if t < 10 then ''a'' else ''b''), cal_week = (\<lambda>_. []), cal_month = (\<lambda>_. [])\<rparr>
       \<lparr>rp_max = 2, rp_age = 0, rp_daily = 1, rp_weekly = 0, rp_monthly = 0\<rparr> 30 ''s1''
       [sample_backup ''1'' 5, sample_backup ''2'' 6, sample_backup ''3'' 20]))
     = {sample_backup ''2'' 6, sample_backup ''3'' 20}"
proof -
  let ?cal = "\<lparr>cal_day = (\<lambda>t. if t < 10 then ''a'' else ''b''), cal_week = (\<lambda>_. []), cal_month = (\<lambda>_. [])\<rparr>"
    and ?p = "\<lparr>rp_max = 2, rp_age = 0, rp_daily = 1, rp_weekly = 0, rp_monthly = 0\<rparr>"
    and ?s = "[sample_backup ''1'' 5, sample_backup ''2'' 6, sample_backup ''3'' 20]"
  have d: "distinct (map b_id ?s)" by (simp add: sample_backup_def)
  have l: "slice_stable newer (slice_stable newer (filter (\<lambda>b. b_server b = ''s1'') ?s))
      = [sample_backup ''3'' 20, sample_backup ''2'' 6, sample_backup ''1'' 5]"
    by (simp add: sample_backup_def newer_def)
  have r: "retained ?p ?cal 30 [sample_backup ''3'' 20, sample_backup ''2'' 6, sample_backup ''1'' 5]
      = [sample_backup ''3'' 20, sample_backup ''2'' 6]"
    by (simp add: retained_def thin_def newest_per_def Let_def sample_backup_def)
  show ?thesis
    using retention_exact [OF d sorts_slice_stable sorts_slice_stable prod.collapse [symmetric],
        where dfault = "\<lambda>_. None" and cal = ?cal and p = ?p and now = 30 and srv = "''s1''"]
    unfolding l r set_filter [symmetric] by (simp add: sample_backup_def insert_commute)
qed

end
