(* ===== verification/Evacuation_Plan.thy ===== *)
theory Evacuation_Plan
  imports Scheduler
begin

text \<open>
  Planning an evacuation, \<^verbatim>\<open>forge/api/internal/services/evacuationplanner/service.go\<close>: for every
  server of a node a target among the other nodes, chosen with the scheduler's filter and scores, such
  that the servers planned for one target fit together.

  What the planner reads from the database while it evaluates a server is an argument, and so is the
  scheduler's configuration. A reason is a value that says which text the code builds.
\<close>

section \<open>State\<close>

record impact =
  im_cpu :: int
  im_memory :: int
  im_disk :: int

datatype cap_error = SnapshotError res_error | CpuOver | MemoryOver | DiskOver

datatype reason =
    SchedulerText sched_error
  | NoEligibleCandidates
  | NoScoredCandidates
  | CapacityText cap_error
  | CapacityExhausted
  | NotEnoughCapacity
  | CandidateSelected

record plan_item =
  pi_server :: string
  pi_source :: string
  pi_target :: string
  pi_eligible :: bool
  pi_reason :: reason
  pi_impact :: "impact option"

datatype ev_event =
    CandidateChosen string string string
  | PlanCreated string string string
  | PlanFailed string string

record ev_state =
  ev_sched :: sched_state
  ev_plans :: uint64
  ev_candidates :: uint64
  ev_failures :: uint64
  ev_publisher :: bool
  ev_events :: "ev_event list"

text \<open>What is read while one server is evaluated: the regions and snapshots of the scheduler's filter,
  the snapshots of its scores, and those of the capacity check.\<close>

record ev_reads =
  er_regions :: "res_error + region list"
  er_filter :: "string \<Rightarrow> res_error + snapshot"
  er_score :: "string \<Rightarrow> res_error + snapshot"
  er_capacity :: "string \<Rightarrow> res_error + snapshot"

text \<open>The configuration of the scheduler.\<close>

record sched_config =
  sg_render :: "score_reason list \<Rightarrow> string"
  sg_sort :: "(score_result \<Rightarrow> score_result \<Rightarrow> bool) \<Rightarrow> score_result list \<Rightarrow> score_result list"
  sg_scorer :: scorer

definition ev_publish :: "ev_event \<Rightarrow> ev_state \<Rightarrow> ev_state" where
  "ev_publish e st = (if ev_publisher st then st\<lparr>ev_events := ev_events st @ [e]\<rparr> else st)"

section \<open>Candidates of one server\<close>

definition validate_capacity :: "(string \<Rightarrow> res_error + snapshot) \<Rightarrow> string \<Rightarrow> server_row \<Rightarrow> cap_error + impact" where
  "validate_capacity snap n srv =
     (case snap n of
        Inl e \<Rightarrow> Inl (SnapshotError e)
      | Inr s \<Rightarrow>
          let im = \<lparr>im_cpu = snap_avail_cpu s - srv_cpu srv, im_memory = snap_avail_memory s - srv_memory srv,
                    im_disk = snap_avail_disk s - srv_disk srv\<rparr> in
          if 0 < snap_total_cpu s \<and> im_cpu im < 0 then Inl CpuOver
          else if 0 < snap_total_memory s \<and> im_memory im < 0 then Inl MemoryOver
          else if 0 < snap_total_disk s \<and> im_disk im < 0 then Inl DiskOver
          else Inr im)"

text \<open>The index of the first greatest score.\<close>

fun best_loop :: "node_score list \<Rightarrow> nat \<Rightarrow> nat \<Rightarrow> node_score list \<Rightarrow> nat" where
  "best_loop xs best i [] = best"
| "best_loop xs best i (r # rs) =
     best_loop xs (if f_lt (ns_score (xs ! best)) (ns_score r) then i else best) (Suc i) rs"

definition best_index :: "node_score list \<Rightarrow> nat" where
  "best_index xs = best_loop xs 0 0 xs"

lemma best_loop_less: "best < n \<Longrightarrow> i + length rs \<le> n \<Longrightarrow> best_loop xs best i rs < n"
  by (induction rs arbitrary: best i) simp_all

lemma best_index_less: "xs \<noteq> [] \<Longrightarrow> best_index xs < length xs"
  by (simp add: best_index_def best_loop_less)

definition without :: "nat \<Rightarrow> 'a list \<Rightarrow> 'a list" where
  "without i xs = take i xs @ drop (Suc i) xs"

lemma length_without: "i < length xs \<Longrightarrow> length (without i xs) < length xs"
  by (simp add: without_def)

text \<open>The impact on a target that the plan already uses continues from what is left there.\<close>

definition planned_impact :: "(string \<rightharpoonup> impact) \<Rightarrow> string \<Rightarrow> server_row \<Rightarrow> impact \<Rightarrow> impact option" where
  "planned_impact reserved n srv im =
     (case reserved n of
        None \<Rightarrow> Some im
      | Some e \<Rightarrow>
          let im' = \<lparr>im_cpu = im_cpu e - srv_cpu srv, im_memory = im_memory e - srv_memory srv,
                     im_disk = im_disk e - srv_disk srv\<rparr>
          in if im_cpu im' < 0 \<or> im_memory im' < 0 \<or> im_disk im' < 0 then None else Some im')"

text \<open>The loop over the scored candidates, best first. The reason is absent while no candidate was
  refused.\<close>

function try_candidates ::
  "(string \<Rightarrow> res_error + snapshot) \<Rightarrow> (string \<rightharpoonup> impact) \<Rightarrow> server_row \<Rightarrow> node_score list \<Rightarrow> reason option
     \<Rightarrow> (node \<times> impact) option \<times> reason" where
  "try_candidates snap reserved srv scores prev =
     (if scores = [] then (None, (case prev of None \<Rightarrow> NotEnoughCapacity | Some r \<Rightarrow> r))
      else
        let b = best_index scores; sel = ns_node (scores ! b); rest = without b scores in
        (case validate_capacity snap (n_id sel) srv of
           Inl e \<Rightarrow> try_candidates snap reserved srv rest (Some (CapacityText e))
         | Inr im \<Rightarrow>
             (case planned_impact reserved (n_id sel) srv im of
                None \<Rightarrow> try_candidates snap reserved srv rest (Some CapacityExhausted)
              | Some im' \<Rightarrow> (Some (sel, im'), CandidateSelected))))"
  by pat_completeness auto
termination
  by (relation "measure (\<lambda>(_, _, _, scores, _). length scores)")
    (auto simp: length_without best_index_less)

declare try_candidates.simps [simp del]

definition evacuation_request :: "node \<Rightarrow> server_row \<Rightarrow> placement_request" where
  "evacuation_request source srv =
     \<lparr>pr_server = [], pr_region_id = (case n_region source of None \<Rightarrow> [] | Some r \<Rightarrow> r), pr_region = [],
      pr_preferred = [], pr_required = [], pr_node = [], pr_allocation = [], pr_memory = srv_memory srv,
      pr_cpu_shares = 0, pr_cpu = srv_cpu srv, pr_disk = srv_disk srv\<rparr>"

definition find_candidates ::
  "sched_config \<Rightarrow> ev_reads \<Rightarrow> server_row \<Rightarrow> node \<Rightarrow> node list \<Rightarrow> (string \<rightharpoonup> impact) \<Rightarrow> ev_state
     \<Rightarrow> ((node \<times> impact) option \<times> reason) \<times> ev_state" where
  "find_candidates cfg rd srv source candidates reserved st =
     (let req = evacuation_request source srv in
      (case filter_nodes req (er_regions rd) (er_filter rd) candidates (ev_sched st) of
         (Inl e, sst) \<Rightarrow> ((None, SchedulerText e), st\<lparr>ev_sched := sst\<rparr>)
       | (Inr filtered, sst) \<Rightarrow>
           let available = filter (\<lambda>n. n_id n \<noteq> n_id source) filtered; st1 = st\<lparr>ev_sched := sst\<rparr> in
           if available = [] then ((None, NoEligibleCandidates), st1)
           else (case score_nodes (sg_render cfg) (sg_sort cfg) (sg_scorer cfg) req (er_score rd) available of
                   Inl _ \<Rightarrow> ((None, NoScoredCandidates), st1)
                 | Inr scores \<Rightarrow>
                     if scores = [] then ((None, NoScoredCandidates), st1)
                     else (try_candidates (er_capacity rd) reserved srv scores None, st1))))"

section \<open>Plans of a node\<close>

text \<open>The body of the loop over the servers of the node.\<close>

definition plan_server ::
  "sched_config \<Rightarrow> ev_reads \<Rightarrow> node \<Rightarrow> node list \<Rightarrow> server_row \<Rightarrow> (string \<rightharpoonup> impact) \<Rightarrow> ev_state
     \<Rightarrow> plan_item \<times> (string \<rightharpoonup> impact) \<times> ev_state" where
  "plan_server cfg rd source nodes srv reserved st =
     (case find_candidates cfg rd srv source nodes reserved st of
        ((sel, why), st1) \<Rightarrow>
          let item = \<lparr>pi_server = srv_id srv, pi_source = n_id source, pi_target = [], pi_eligible = False,
                      pi_reason = why, pi_impact = map_option snd sel\<rparr> in
          (case sel of
             Some (n, im) \<Rightarrow>
               if n_id n \<noteq> [] then
                 (item\<lparr>pi_target := n_id n, pi_eligible := True\<rparr>, reserved(n_id n \<mapsto> im),
                  ev_publish (CandidateChosen (srv_id srv) (n_id source) (n_id n))
                    (st1\<lparr>ev_candidates := ev_candidates st1 + 1\<rparr>))
               else (item, reserved, st1\<lparr>ev_failures := ev_failures st1 + 1\<rparr>)
           | None \<Rightarrow> (item, reserved, st1\<lparr>ev_failures := ev_failures st1 + 1\<rparr>)))"

fun plan_servers ::
  "sched_config \<Rightarrow> (string \<Rightarrow> ev_reads) \<Rightarrow> node \<Rightarrow> node list \<Rightarrow> server_row list \<Rightarrow> (string \<rightharpoonup> impact) \<Rightarrow> ev_state
     \<Rightarrow> plan_item list \<times> (string \<rightharpoonup> impact) \<times> ev_state" where
  "plan_servers cfg rd source nodes [] reserved st = ([], reserved, st)"
| "plan_servers cfg rd source nodes (srv # srvs) reserved st =
     (let (item, reserved1, st1) = plan_server cfg (rd (srv_id srv)) source nodes srv reserved st;
          (items, reserved2, st2) = plan_servers cfg rd source nodes srvs reserved1 st1
      in (item # items, reserved2, st2))"

definition plan_status :: "plan_item list \<Rightarrow> string" where
  "plan_status items = (if \<exists>i \<in> set items. \<not> pi_eligible i then ''failed'' else ''pending'')"

definition evaluate_node ::
  "sched_config \<Rightarrow> (string \<Rightarrow> ev_reads) \<Rightarrow> res_error + node \<Rightarrow> res_error + server_row list \<Rightarrow> res_error + node list
     \<Rightarrow> ev_state \<Rightarrow> (res_error + plan_item list \<times> string) \<times> ev_state" where
  "evaluate_node cfg rd source servers nodes st =
     (case source of
        Inl e \<Rightarrow> (Inl e, st)
      | Inr src \<Rightarrow>
          (case servers of
             Inl e \<Rightarrow> (Inl e, st)
           | Inr srvs \<Rightarrow>
               (case nodes of
                  Inl e \<Rightarrow> (Inl e, st)
                | Inr ns \<Rightarrow>
                    (case plan_servers cfg rd src ns srvs Map.empty st of
                       (items, _, st1) \<Rightarrow> (Inr (items, plan_status items), st1)))))"

text \<open>\<^verbatim>\<open>EvaluateServer\<close>, one server against an empty plan.\<close>

definition evaluate_server ::
  "sched_config \<Rightarrow> ev_reads \<Rightarrow> server_row \<Rightarrow> node \<Rightarrow> node list \<Rightarrow> ev_state \<Rightarrow> plan_item \<times> ev_state" where
  "evaluate_server cfg rd srv source nodes st =
     (case plan_server cfg rd source nodes srv Map.empty st of (item, _, st1) \<Rightarrow> (item, st1))"

section \<open>Candidates are tried best first\<close>

lemma set_without: "i < length xs \<Longrightarrow> set xs = insert (xs ! i) (set (without i xs))"
  by (metis Cons_nth_drop_Suc append_take_drop_id list.simps(15) set_append Un_insert_right without_def)

lemma try_candidates_Some:
  assumes "try_candidates snap reserved srv scores prev = (Some (n, im'), why)"
  shows "why = CandidateSelected \<and> n \<in> ns_node ` set scores \<and>
    (\<exists>im. validate_capacity snap (n_id n) srv = Inr im \<and> planned_impact reserved (n_id n) srv im = Some im')"
  using assms
proof (induction snap reserved srv scores prev rule: try_candidates.induct)
  case (1 snap reserved srv scores prev)
  show ?case
  proof (cases "scores = []")
    case True
    with 1(3) show ?thesis by (simp add: try_candidates.simps)
  next
    case False
    let ?b = "best_index scores" and ?sel = "ns_node (scores ! best_index scores)"
    have s: "set scores = insert (scores ! ?b) (set (without ?b scores))"
      by (rule set_without [OF best_index_less [OF False]])
    show ?thesis
    proof (cases "validate_capacity snap (n_id ?sel) srv")
      case (Inl e)
      then have "try_candidates snap reserved srv (without ?b scores) (Some (CapacityText e)) = (Some (n, im'), why)"
        using 1(3) False by (simp add: try_candidates.simps [of snap reserved srv scores] Let_def)
      with 1(1) [OF False refl refl refl Inl] show ?thesis unfolding s by blast
    next
      case (Inr im)
      show ?thesis
      proof (cases "planned_impact reserved (n_id ?sel) srv im")
        case None
        then have "try_candidates snap reserved srv (without ?b scores) (Some CapacityExhausted) = (Some (n, im'), why)"
          using 1(3) False Inr by (simp add: try_candidates.simps [of snap reserved srv scores] Let_def)
        with 1(2) [OF False refl refl refl Inr None] show ?thesis unfolding s by blast
      next
        case (Some im2)
        with 1(3) False Inr have "n = ?sel" "im' = im2" "why = CandidateSelected"
          by (simp_all add: try_candidates.simps [of snap reserved srv scores] Let_def)
        with Inr Some s show ?thesis by auto
      qed
    qed
  qed
qed

lemma score_nodes_mem:
  assumes "score_nodes render srt sc req snap nodes = Inr scores" "x \<in> set scores"
  shows "ns_node x \<in> set nodes"
proof -
  from assms obtain results where "x \<in> set (node_scores render (normalize_request req)
      (node_map (readable snap nodes) Map.empty) results)"
    by (auto simp: score_nodes_def Let_def split: if_splits sum.splits)
  from node_scores_mem [OF this] obtain i where "node_map (readable snap nodes) Map.empty i = Some (ns_node x)"
    by blast
  from node_map_Some [OF this] obtain s where "(ns_node x, s) \<in> set (readable snap nodes)" by auto
  then show ?thesis by (simp add: readable_mem)
qed

definition available_nodes :: "ev_reads \<Rightarrow> region list \<Rightarrow> server_row \<Rightarrow> node \<Rightarrow> node list \<Rightarrow> node list" where
  "available_nodes rd regions srv source nodes = filter (\<lambda>n. n_id n \<noteq> n_id source)
     (filter (eligible (normalize_request (evacuation_request source srv)) regions (er_filter rd)) nodes)"

lemma find_candidates_scored:
  assumes "er_regions rd = Inr regions" "fst (find_candidates cfg rd srv source nodes reserved st) = (Some (n, im'), why)"
  shows "\<exists>scores. score_nodes (sg_render cfg) (sg_sort cfg) (sg_scorer cfg) (evacuation_request source srv) (er_score rd)
      (available_nodes rd regions srv source nodes) = Inr scores \<and>
    try_candidates (er_capacity rd) reserved srv scores None = (Some (n, im'), why)"
  using assms(2)
  unfolding find_candidates_def Let_def assms(1) filter_nodes_Inr prod.case sum.case available_nodes_def [symmetric]
  by (simp split: if_split_asm sum.split_asm)

lemma find_candidates_Some:
  assumes "find_candidates cfg rd srv source nodes reserved st = ((Some (n, im'), why), st')"
  shows "\<exists>regions im. er_regions rd = Inr regions \<and> n \<in> set nodes \<and> n_id n \<noteq> n_id source \<and>
    eligible (normalize_request (evacuation_request source srv)) regions (er_filter rd) n \<and>
    validate_capacity (er_capacity rd) (n_id n) srv = Inr im \<and> planned_impact reserved (n_id n) srv im = Some im'"
proof (cases "er_regions rd")
  case (Inl e)
  with assms show ?thesis by (simp add: find_candidates_def Let_def)
next
  case (Inr regions)
  from find_candidates_scored [OF Inr] assms obtain scores where
    scores: "score_nodes (sg_render cfg) (sg_sort cfg) (sg_scorer cfg) (evacuation_request source srv) (er_score rd)
      (available_nodes rd regions srv source nodes) = Inr scores"
    and t: "try_candidates (er_capacity rd) reserved srv scores None = (Some (n, im'), why)"
    by (metis fst_conv)
  from try_candidates_Some [OF t] have "n \<in> ns_node ` set scores" by blast
  with score_nodes_mem [OF scores] have "n \<in> set (available_nodes rd regions srv source nodes)" by blast
  with try_candidates_Some [OF t] Inr show ?thesis by (auto simp: available_nodes_def)
qed

text \<open>One server: either nothing is reserved, or its target is charged.\<close>

lemma plan_server_cases:
  assumes "plan_server cfg rd source nodes srv reserved st = (item, reserved', st')"
  shows "pi_server item = srv_id srv" "pi_source item = n_id source"
    and "\<not> pi_eligible item \<Longrightarrow> reserved' = reserved \<and> pi_target item = []"
    and "pi_eligible item \<Longrightarrow> \<exists>n regions im im'. er_regions rd = Inr regions \<and> n \<in> set nodes \<and>
      pi_target item = n_id n \<and> n_id n \<noteq> [] \<and> n_id n \<noteq> n_id source \<and>
      eligible (normalize_request (evacuation_request source srv)) regions (er_filter rd) n \<and>
      validate_capacity (er_capacity rd) (n_id n) srv = Inr im \<and>
      planned_impact reserved (n_id n) srv im = Some im' \<and> reserved' = reserved(n_id n \<mapsto> im')"
proof -
  obtain sel why st1 where f: "find_candidates cfg rd srv source nodes reserved st = ((sel, why), st1)"
    by (metis prod.collapse)
  show "pi_server item = srv_id srv" "pi_source item = n_id source"
    "\<not> pi_eligible item \<Longrightarrow> reserved' = reserved \<and> pi_target item = []"
    using assms f by (auto simp: plan_server_def Let_def split: option.splits if_splits)
  assume "pi_eligible item"
  with assms f obtain n im' where s: "sel = Some (n, im')" "n_id n \<noteq> []" "pi_target item = n_id n"
    "reserved' = reserved(n_id n \<mapsto> im')"
    by (auto simp: plan_server_def Let_def split: option.splits if_splits)
  with find_candidates_Some [OF f [unfolded s(1)]] show "\<exists>n regions im im'. er_regions rd = Inr regions \<and>
      n \<in> set nodes \<and> pi_target item = n_id n \<and> n_id n \<noteq> [] \<and> n_id n \<noteq> n_id source \<and>
      eligible (normalize_request (evacuation_request source srv)) regions (er_filter rd) n \<and>
      validate_capacity (er_capacity rd) (n_id n) srv = Inr im \<and>
      planned_impact reserved (n_id n) srv im = Some im' \<and> reserved' = reserved(n_id n \<mapsto> im')"
    by blast
qed

section \<open>The plan fits its targets\<close>

text \<open>The three resources: what is left of one on a target, what a server takes of it, what a snapshot
  has available and in total.\<close>

definition resources :: "((impact \<Rightarrow> int) \<times> (server_row \<Rightarrow> int) \<times> (snapshot \<Rightarrow> int) \<times> (snapshot \<Rightarrow> int)) set" where
  "resources = {(im_cpu, srv_cpu, snap_avail_cpu, snap_total_cpu),
     (im_memory, srv_memory, snap_avail_memory, snap_total_memory),
     (im_disk, srv_disk, snap_avail_disk, snap_total_disk)}"

definition assigned :: "string \<Rightarrow> server_row list \<Rightarrow> plan_item list \<Rightarrow> server_row list" where
  "assigned n srvs items = map fst (filter (\<lambda>(s, i). pi_eligible i \<and> pi_target i = n) (zip srvs items))"

definition charged :: "(string \<Rightarrow> res_error + snapshot) \<Rightarrow> (string \<rightharpoonup> impact) \<Rightarrow> bool" where
  "charged cap reserved \<longleftrightarrow> (\<forall>n im. reserved n = Some im \<longrightarrow> (\<exists>s. cap n = Inr s \<and>
     (\<forall>(lft, need, avail, tot) \<in> resources. 0 < tot s \<longrightarrow> 0 \<le> lft im)))"

definition left_over :: "(impact \<Rightarrow> int) \<Rightarrow> (snapshot \<Rightarrow> int) \<Rightarrow> snapshot \<Rightarrow> impact option \<Rightarrow> int" where
  "left_over lft avail s r = (case r of None \<Rightarrow> avail s | Some im \<Rightarrow> lft im)"

lemma charge_step:
  assumes "validate_capacity cap n srv = Inr im" "planned_impact reserved n srv im = Some im'"
    and "(lft, need, avail, tot) \<in> resources"
  shows "\<exists>s. cap n = Inr s \<and> lft im' = left_over lft avail s (reserved n) - need srv \<and> (0 < tot s \<longrightarrow> 0 \<le> lft im')"
proof -
  from assms(1) obtain s where s: "cap n = Inr s" by (auto simp: validate_capacity_def split: sum.splits)
  show ?thesis
    using assms s
    by (auto simp: resources_def validate_capacity_def planned_impact_def left_over_def Let_def
        split: if_splits option.splits)
qed

lemma plan_servers_charged:
  assumes "plan_servers cfg rd source nodes srvs reserved st = (items, reserved', st')"
    and "\<forall>srv \<in> set srvs. er_capacity (rd (srv_id srv)) = cap" and "charged cap reserved"
  shows "charged cap reserved' \<and> length items = length srvs \<and>
    (\<forall>(lft, need, avail, tot) \<in> resources. \<forall>n s. cap n = Inr s \<longrightarrow>
      left_over lft avail s (reserved' n) = left_over lft avail s (reserved n) - sum_list (map need (assigned n srvs items))) \<and>
    (\<forall>n. reserved' n = None \<longrightarrow> reserved n = None \<and> assigned n srvs items = [])"
  using assms
proof (induction srvs arbitrary: reserved st items)
  case Nil
  then show ?case by (simp add: assigned_def)
next
  case (Cons srv srvs)
  obtain item R1 st1 where p: "plan_server cfg (rd (srv_id srv)) source nodes srv reserved st = (item, R1, st1)"
    by (metis prod.collapse)
  obtain items1 where ps: "plan_servers cfg rd source nodes srvs R1 st1 = (items1, reserved', st')"
    and items: "items = item # items1"
    using Cons.prems(1) p by (auto split: prod.splits)
  note pc = plan_server_cases [OF p]
  have cap: "er_capacity (rd (srv_id srv)) = cap" using Cons.prems(2) by simp
  have asg: "assigned n (srv # srvs) (item # items1) = (if pi_eligible item \<and> pi_target item = n then [srv] else []) @ assigned n srvs items1" for n
    by (simp add: assigned_def)
  show ?case
  proof (cases "pi_eligible item")
    case False
    with pc(3) have "R1 = reserved" by simp
    with Cons.IH [OF ps] Cons.prems(2,3) False show ?thesis by (simp add: asg items)
  next
    case True
    from pc(4) [OF True] cap obtain n :: node and im im' where n: "pi_target item = n_id n" "R1 = reserved(n_id n \<mapsto> im')"
      and v: "validate_capacity cap (n_id n) srv = Inr im" "planned_impact reserved (n_id n) srv im = Some im'"
      by blast
    from v(1) obtain s0 where s0: "cap (n_id n) = Inr s0" by (auto simp: validate_capacity_def split: sum.splits)
    have pos: "\<forall>(lft, need, avail, tot) \<in> resources. 0 < tot s0 \<longrightarrow> 0 \<le> lft im'"
      using charge_step [OF v] s0 by fastforce
    have ch: "charged cap R1"
      using Cons.prems(3) s0 pos unfolding charged_def n(2) by simp
    have IH: "charged cap reserved'" "length items1 = length srvs"
      "\<And>m. reserved' m = None \<Longrightarrow> R1 m = None \<and> assigned m srvs items1 = []"
      using Cons.IH [OF ps _ ch] Cons.prems(2) by auto
    have R1: "left_over lft avail s (R1 m) = left_over lft avail s (reserved m) - (if m = n_id n then need srv else 0)"
      if "(lft, need, avail, tot) \<in> resources" "cap m = Inr s" for lft need avail tot m s
      using charge_step [OF v that(1)] that(2) by (auto simp: n(2) left_over_def split: option.splits)
    have left: "left_over lft avail s (reserved' m)
        = left_over lft avail s (reserved m) - sum_list (map need (assigned m (srv # srvs) (item # items1)))"
      if r: "(lft, need, avail, tot) \<in> resources" and c: "cap m = Inr s" for lft need avail tot m s
    proof -
      have "left_over lft avail s (reserved' m) = left_over lft avail s (R1 m) - sum_list (map need (assigned m srvs items1))"
        using Cons.IH [OF ps _ ch] Cons.prems(2) r c by fastforce
      with R1 [OF r c] show ?thesis by (simp add: asg n(1) True)
    qed
    have none: "reserved m = None \<and> assigned m (srv # srvs) (item # items1) = []" if "reserved' m = None" for m
      using IH(3) [OF that] n True by (auto simp: asg split: if_splits)
    show ?thesis using IH(1,2) left none by (auto simp: items)
  qed
qed

lemma plan_servers_sound:
  assumes "plan_servers cfg rd source nodes srvs reserved st = (items, reserved', st')"
    and "(srv, item) \<in> set (zip srvs items)"
  shows "pi_server item = srv_id srv \<and> pi_source item = n_id source \<and> (pi_eligible item \<longrightarrow>
    (\<exists>regions. \<exists>n \<in> set nodes. er_regions (rd (srv_id srv)) = Inr regions \<and> n_id n = pi_target item \<and>
      n_id n \<noteq> n_id source \<and>
      eligible (normalize_request (evacuation_request source srv)) regions (er_filter (rd (srv_id srv))) n))"
  using assms
proof (induction srvs arbitrary: reserved st items)
  case Nil
  then show ?case by simp
next
  case (Cons sv srvs)
  obtain it R1 st1 where p: "plan_server cfg (rd (srv_id sv)) source nodes sv reserved st = (it, R1, st1)"
    by (metis prod.collapse)
  obtain items1 where ps: "plan_servers cfg rd source nodes srvs R1 st1 = (items1, reserved', st')"
    and items: "items = it # items1"
    using Cons.prems(1) p by (auto split: prod.splits)
  note pc = plan_server_cases [OF p]
  show ?case
  proof (cases "(srv, item) = (sv, it)")
    case True
    then have "srv = sv" "item = it" by simp_all
    with pc(1,2) pc(4) show ?thesis by metis
  next
    case False
    with Cons.prems(2) items have "(srv, item) \<in> set (zip srvs items1)" by auto
    with Cons.IH [OF ps] show ?thesis by blast
  qed
qed

section \<open>Properties\<close>

text \<open>C10: the servers an evacuation plan moves to one target fit there together. When nobody else
  changes the capacity of the nodes while the plan is made, then for every target and every resource of
  which the node declares a positive total, the demands of all servers planned for it add up to at most
  what the node has available.\<close>

theorem evacuation_plan_fits:
  assumes "evaluate_node cfg rd (Inr source) (Inr srvs) (Inr nodes) st = (Inr (items, status), st')"
    and "\<forall>srv \<in> set srvs. er_capacity (rd (srv_id srv)) = cap"
    and "assigned n srvs items \<noteq> []"
  shows "\<exists>s. cap n = Inr s \<and>
    (0 < snap_total_cpu s \<longrightarrow> sum_list (map srv_cpu (assigned n srvs items)) \<le> snap_avail_cpu s) \<and>
    (0 < snap_total_memory s \<longrightarrow> sum_list (map srv_memory (assigned n srvs items)) \<le> snap_avail_memory s) \<and>
    (0 < snap_total_disk s \<longrightarrow> sum_list (map srv_disk (assigned n srvs items)) \<le> snap_avail_disk s)"
proof -
  obtain R where p: "plan_servers cfg rd source nodes srvs Map.empty st = (items, R, st')"
    using assms(1) by (auto simp: evaluate_node_def split: prod.splits)
  have c0: "charged cap Map.empty" by (simp add: charged_def)
  note pc = plan_servers_charged [OF p assms(2) c0]
  from pc assms(3) obtain im where im: "R n = Some im" by fastforce
  with pc obtain s where s: "cap n = Inr s"
    and pos: "\<forall>(lft, need, avail, tot) \<in> resources. 0 < tot s \<longrightarrow> 0 \<le> lft im"
    unfolding charged_def by blast
  have "sum_list (map need (assigned n srvs items)) \<le> avail s"
    if "(lft, need, avail, tot) \<in> resources" "0 < tot s" for lft need avail tot
  proof -
    have "left_over lft avail s (R n) = left_over lft avail s None - sum_list (map need (assigned n srvs items))"
      using pc that(1) s by fastforce
    with pos that im show ?thesis by (fastforce simp: left_over_def)
  qed
  with s show ?thesis unfolding resources_def by blast
qed

text \<open>every server of the node is accounted for, in order, and a server is planned for a node only if
  that node is another one and the scheduler accepts it for the demands of the server in the region of
  the evacuated node. The plan can be executed exactly when every server has a target.\<close>

theorem evacuation_targets_sound:
  assumes "evaluate_node cfg rd (Inr source) (Inr srvs) (Inr nodes) st = (Inr (items, status), st')"
    and "\<forall>srv \<in> set srvs. er_capacity (rd (srv_id srv)) = cap"
  shows "map pi_server items = map srv_id srvs \<and>
    (status = ''pending'' \<longleftrightarrow> list_all pi_eligible items) \<and>
    (\<forall>(srv, item) \<in> set (zip srvs items). pi_eligible item \<longrightarrow>
      (\<exists>regions. \<exists>n \<in> set nodes. er_regions (rd (srv_id srv)) = Inr regions \<and> n_id n = pi_target item \<and>
        n_id n \<noteq> n_id source \<and>
        eligible (normalize_request (evacuation_request source srv)) regions (er_filter (rd (srv_id srv))) n))"
proof -
  obtain R where p: "plan_servers cfg rd source nodes srvs Map.empty st = (items, R, st')"
    and status: "status = plan_status items"
    using assms(1) by (auto simp: evaluate_node_def split: prod.splits)
  have len: "length items = length srvs"
    using plan_servers_charged [OF p assms(2)] by (simp add: charged_def)
  have "map pi_server items = map srv_id srvs"
  proof (rule nth_equalityI)
    fix k assume "k < length (map pi_server items)"
    then have "(srvs ! k, items ! k) \<in> set (zip srvs items)" using len by (auto simp: in_set_zip)
    with plan_servers_sound [OF p] \<open>k < length (map pi_server items)\<close> len
    show "map pi_server items ! k = map srv_id srvs ! k" by simp
  qed (simp add: len)
  moreover have "status = ''pending'' \<longleftrightarrow> list_all pi_eligible items"
    by (simp add: status plan_status_def list_all_iff)
  ultimately show ?thesis using plan_servers_sound [OF p] by blast
qed

section \<open>Witnesses\<close>

definition sample_server :: "string \<Rightarrow> server_row" where
  "sample_server i = \<lparr>srv_id = i, srv_node = ''a'', srv_status = ''running'', srv_cpu = 512, srv_memory = 1500, srv_disk = 1000\<rparr>"

definition sample_config :: sched_config where
  "sample_config = \<lparr>sg_render = (\<lambda>_. []), sg_sort = slice_stable, sg_scorer = new_scorer (\<lambda>_. Fin 1) ''random''\<rparr>"

definition sample_ev_reads :: ev_reads where
  "sample_ev_reads = \<lparr>er_regions = Inr [], er_filter = (\<lambda>_. Inr (demo_snapshot 4096)),
     er_score = (\<lambda>_. Inr (demo_snapshot 4096)), er_capacity = (\<lambda>_. Inr (demo_snapshot 4096))\<rparr>"

definition sample_ev_state :: ev_state where
  "sample_ev_state = \<lparr>ev_sched = \<lparr>rejections = 0, exceeded = 0, published = []\<rparr>, ev_plans = 0, ev_candidates = 0,
     ev_failures = 0, ev_publisher = True, ev_events = []\<rparr>"

lemma sample_normalized:
  "normalize_request (evacuation_request (demo_node ''a'') (sample_server i)) = evacuation_request (demo_node ''a'') (sample_server i)"
proof -
  have "trim_space ''eu'' = ''eu''" "trim_space [] = []" by code_simp+
  then show ?thesis by (simp add: normalize_request_def evacuation_request_def demo_node_def sample_server_def)
qed

lemma sample_eligible:
  "eligible (evacuation_request (demo_node ''a'') (sample_server i)) [] (er_filter sample_ev_reads) (demo_node j)"
  by (simp add: eligible_def evacuation_request_def demo_node_def sample_server_def node_region_enabled_def
      out_of_service_def sample_ev_reads_def has_capacity_def demo_snapshot_def)

lemma sample_scores:
  "score_nodes (\<lambda>_. []) slice_stable (new_scorer (\<lambda>_. Fin 1) ''random'') (evacuation_request (demo_node ''a'') (sample_server i))
     (er_score sample_ev_reads) [demo_node ''b''] = Inr [\<lparr>ns_node = demo_node ''b'', ns_score = Fin 1, ns_reason = []\<rparr>]"
proof -
  have r: "readable (er_score sample_ev_reads) [demo_node ''b''] = [(demo_node ''b'', demo_snapshot 4096)]"
    by (simp add: sample_ev_reads_def)
  show ?thesis
    unfolding score_nodes_def Let_def sample_normalized r
    by (simp add: engine_place_all_def to_workload_request_def new_scorer_def random_score_def
        node_to_candidate_def preferred_bonus_def evacuation_request_def)
qed

lemma sample_find:
  "fst (find_candidates sample_config sample_ev_reads (sample_server i) (demo_node ''a'') [demo_node ''a'', demo_node ''b''] R st)
   = try_candidates (\<lambda>_. Inr (demo_snapshot 4096)) R (sample_server i)
       [\<lparr>ns_node = demo_node ''b'', ns_score = Fin 1, ns_reason = []\<rparr>] None"
proof -
  have "filter (\<lambda>n. n_id n \<noteq> n_id (demo_node ''a'')) [demo_node ''a'', demo_node ''b''] = [demo_node ''b'']"
    by (simp add: demo_node_def)
  moreover have "er_regions sample_ev_reads = Inr []" "er_capacity sample_ev_reads = (\<lambda>_. Inr (demo_snapshot 4096))"
    by (simp_all add: sample_ev_reads_def)
  ultimately show ?thesis
    unfolding find_candidates_def Let_def
    by (simp add: filter_nodes_Inr sample_normalized sample_eligible sample_config_def sample_scores)
qed

lemma sample_try:
  "try_candidates (\<lambda>_. Inr (demo_snapshot 4096)) R (sample_server i) [\<lparr>ns_node = demo_node ''b'', ns_score = Fin 1, ns_reason = []\<rparr>] None
   = (case R ''b'' of
        None \<Rightarrow> (Some (demo_node ''b'', \<lparr>im_cpu = 2560, im_memory = 2596, im_disk = 9240\<rparr>), CandidateSelected)
      | Some e \<Rightarrow> if im_cpu e < 512 \<or> im_memory e < 1500 \<or> im_disk e < 1000 then (None, CapacityExhausted)
          else (Some (demo_node ''b'', \<lparr>im_cpu = im_cpu e - 512, im_memory = im_memory e - 1500, im_disk = im_disk e - 1000\<rparr>), CandidateSelected))"
proof -
  have b: "best_index [x] = 0" for x by (simp add: best_index_def)
  have n: "n_id (demo_node ''b'') = ''b''" by (simp add: demo_node_def)
  show ?thesis
    by (simp add: try_candidates.simps b n without_def validate_capacity_def demo_snapshot_def
        sample_server_def planned_impact_def split: option.split)
qed

definition sample_item :: "string \<Rightarrow> impact \<Rightarrow> plan_item" where
  "sample_item i im = \<lparr>pi_server = i, pi_source = ''a'', pi_target = ''b'', pi_eligible = True,
     pi_reason = CandidateSelected, pi_impact = Some im\<rparr>"

lemma sample_plan_server:
  assumes "try_candidates (\<lambda>_. Inr (demo_snapshot 4096)) R (sample_server i)
      [\<lparr>ns_node = demo_node ''b'', ns_score = Fin 1, ns_reason = []\<rparr>] None = (Some (demo_node ''b'', im), CandidateSelected)"
  shows "\<exists>st'. plan_server sample_config sample_ev_reads (demo_node ''a'') [demo_node ''a'', demo_node ''b''] (sample_server i) R st
    = (sample_item i im, R(''b'' \<mapsto> im), st')"
proof -
  have "fst (find_candidates sample_config sample_ev_reads (sample_server i) (demo_node ''a'') [demo_node ''a'', demo_node ''b''] R st)
      = (Some (demo_node ''b'', im), CandidateSelected)"
    unfolding sample_find assms ..
  then obtain st1 where "find_candidates sample_config sample_ev_reads (sample_server i) (demo_node ''a'')
      [demo_node ''a'', demo_node ''b''] R st = ((Some (demo_node ''b'', im), CandidateSelected), st1)"
    by (metis prod.collapse)
  then show ?thesis
    by (simp add: plan_server_def sample_item_def sample_server_def demo_node_def)
qed

lemma sample_plan:
  "\<exists>st'. evaluate_node sample_config (\<lambda>_. sample_ev_reads) (Inr (demo_node ''a'')) (Inr [sample_server ''s1'', sample_server ''s2''])
     (Inr [demo_node ''a'', demo_node ''b'']) sample_ev_state
   = (Inr ([sample_item ''s1'' \<lparr>im_cpu = 2560, im_memory = 2596, im_disk = 9240\<rparr>,
            sample_item ''s2'' \<lparr>im_cpu = 2048, im_memory = 1096, im_disk = 8240\<rparr>], ''pending''), st')"
proof -
  let ?im1 = "\<lparr>im_cpu = 2560, im_memory = 2596, im_disk = 9240\<rparr>" and ?im2 = "\<lparr>im_cpu = 2048, im_memory = 1096, im_disk = 8240\<rparr>"
  have t1: "try_candidates (\<lambda>_. Inr (demo_snapshot 4096)) Map.empty (sample_server ''s1'')
      [\<lparr>ns_node = demo_node ''b'', ns_score = Fin 1, ns_reason = []\<rparr>] None = (Some (demo_node ''b'', ?im1), CandidateSelected)"
    by (simp add: sample_try)
  have t2: "try_candidates (\<lambda>_. Inr (demo_snapshot 4096)) [''b'' \<mapsto> ?im1] (sample_server ''s2'')
      [\<lparr>ns_node = demo_node ''b'', ns_score = Fin 1, ns_reason = []\<rparr>] None = (Some (demo_node ''b'', ?im2), CandidateSelected)"
    by (simp add: sample_try)
  from sample_plan_server [OF t1, of sample_ev_state] obtain st1 where p1:
    "plan_server sample_config sample_ev_reads (demo_node ''a'') [demo_node ''a'', demo_node ''b''] (sample_server ''s1'') Map.empty sample_ev_state
      = (sample_item ''s1'' ?im1, [''b'' \<mapsto> ?im1], st1)" by auto
  from sample_plan_server [OF t2, of st1] obtain st2 where p2:
    "plan_server sample_config sample_ev_reads (demo_node ''a'') [demo_node ''a'', demo_node ''b''] (sample_server ''s2'') [''b'' \<mapsto> ?im1] st1
      = (sample_item ''s2'' ?im2, [''b'' \<mapsto> ?im2], st2)" by auto
  show ?thesis
    by (simp add: evaluate_node_def p1 p2 plan_status_def) (simp add: sample_item_def)
qed

lemma sample_assigned:
  "assigned ''b'' [sample_server ''s1'', sample_server ''s2''] [sample_item ''s1'' im1, sample_item ''s2'' im2]
     = [sample_server ''s1'', sample_server ''s2'']"
  by (simp add: assigned_def sample_item_def)

text \<open>Witness of C10: two servers for one target.\<close>

theorem evacuation_plan_fits_witness:
  "sum_list (map srv_memory [sample_server ''s1'', sample_server ''s2'']) \<le> snap_avail_memory (demo_snapshot 4096)"
proof -
  from sample_plan obtain st' where "evaluate_node sample_config (\<lambda>_. sample_ev_reads) (Inr (demo_node ''a''))
      (Inr [sample_server ''s1'', sample_server ''s2'']) (Inr [demo_node ''a'', demo_node ''b'']) sample_ev_state
    = (Inr ([sample_item ''s1'' \<lparr>im_cpu = 2560, im_memory = 2596, im_disk = 9240\<rparr>,
            sample_item ''s2'' \<lparr>im_cpu = 2048, im_memory = 1096, im_disk = 8240\<rparr>], ''pending''), st')" by blast
  from evacuation_plan_fits [OF this, of "\<lambda>_. Inr (demo_snapshot 4096)" "''b''"] show ?thesis
    unfolding sample_assigned by (simp add: sample_ev_reads_def) (simp add: demo_snapshot_def)
qed

text \<open>An instance: the same plan.\<close>

theorem evacuation_targets_sound_witness:
  "''b'' \<in> n_id ` set [demo_node ''a'', demo_node ''b''] \<and> ''b'' \<noteq> n_id (demo_node ''a'')"
proof -
  from sample_plan obtain st' where "evaluate_node sample_config (\<lambda>_. sample_ev_reads) (Inr (demo_node ''a''))
      (Inr [sample_server ''s1'', sample_server ''s2'']) (Inr [demo_node ''a'', demo_node ''b'']) sample_ev_state
    = (Inr ([sample_item ''s1'' \<lparr>im_cpu = 2560, im_memory = 2596, im_disk = 9240\<rparr>,
            sample_item ''s2'' \<lparr>im_cpu = 2048, im_memory = 1096, im_disk = 8240\<rparr>], ''pending''), st')" by blast
  from evacuation_targets_sound [OF this, of "\<lambda>_. Inr (demo_snapshot 4096)"] have
    "\<exists>n \<in> set [demo_node ''a'', demo_node ''b'']. n_id n = ''b'' \<and> n_id n \<noteq> n_id (demo_node ''a'')"
    by (simp add: sample_ev_reads_def) (auto simp: sample_item_def)
  then show ?thesis by (metis imageI)
qed

end
