(* ===== verification/Evacuation_Run.thy ===== *)
theory Evacuation_Run
  imports Evacuation_Plan
begin

text \<open>
  Executing an evacuation plan: the tables of \<^verbatim>\<open>store/store_evacuation.go\<close> and the execution half
  of \<^verbatim>\<open>services/evacuationplanner/service.go\<close>. A plan is claimed, at most two of its items migrate
  at a time, and an observer that runs until the plan is no longer running records the outcome of the
  migrations, starts further items and closes the plan.

  The migration service is the interface \<^verbatim>\<open>MigrationExecutor\<close>: a record of operations over a state
  of its own, about which nothing is assumed unless a theorem says so. Failing statements are arguments
  that carry their error, fresh identifiers and the text of a reason are arguments. The executor is
  bound, as it is once the program is set up. A handler and one round of the observer are steps of
  their own.
\<close>

section \<open>State\<close>

record item_row =
  ei_id :: string
  ei_plan :: string
  ei_server :: string
  ei_source :: string
  ei_target :: string
  ei_eligible :: bool
  ei_reason :: reason
  ei_migration :: string
  ei_status :: string
  ei_error :: "string option"

record plan_row =
  ep_id :: string
  ep_node :: string
  ep_status :: string

record 'm evac =
  ea_plans :: "plan_row list"
  ea_items :: "item_row list"
  ea_observers :: "string set"
  ea_events :: "(string \<times> string) list"
  ea_mig :: 'm

record 'm executor =
  ex_create :: "string \<Rightarrow> string \<Rightarrow> string \<Rightarrow> 'm \<Rightarrow> (string + string) \<times> 'm"
  ex_prepare :: "string \<Rightarrow> 'm \<Rightarrow> (string + unit) \<times> 'm"
  ex_execute :: "string \<Rightarrow> 'm \<Rightarrow> (string + unit) \<times> 'm"
  ex_cancel :: "string \<Rightarrow> 'm \<Rightarrow> (string + unit) \<times> 'm"
  ex_status :: "string \<Rightarrow> 'm \<Rightarrow> string + string"

datatype evac_error =
    PlanNotFound
  | PlanNotRunning
  | EvacDuplicateKey
  | CancelFailed string string
  | EvaluationFailed res_error
  | EvacDb string

section \<open>Tables\<close>

definition initial_status :: "plan_item \<Rightarrow> string" where
  "initial_status i = (if pi_eligible i then ''pending'' else ''failed'')"

definition initial_error :: "(reason \<Rightarrow> string) \<Rightarrow> plan_item \<Rightarrow> string option" where
  "initial_error txt i = (if pi_eligible i \<or> txt (pi_reason i) = [] then None else Some (txt (pi_reason i)))"

definition new_item :: "(reason \<Rightarrow> string) \<Rightarrow> string \<Rightarrow> string \<times> plan_item \<Rightarrow> item_row" where
  "new_item txt p ix = (case ix of (k, i) \<Rightarrow>
     \<lparr>ei_id = k, ei_plan = p, ei_server = pi_server i, ei_source = pi_source i, ei_target = pi_target i,
      ei_eligible = pi_eligible i, ei_reason = pi_reason i, ei_migration = [], ei_status = initial_status i,
      ei_error = initial_error txt i\<rparr>)"

text \<open>The items get the fresh identifiers \<open>ks\<close>. The transaction inserts all rows or none.\<close>

definition create_plan_rows ::
  "(reason \<Rightarrow> string) \<Rightarrow> string option \<Rightarrow> string \<Rightarrow> string list \<Rightarrow> string \<Rightarrow> string \<Rightarrow> plan_item list \<Rightarrow> 'm evac
     \<Rightarrow> (evac_error + unit) \<times> 'm evac" where
  "create_plan_rows txt fault p ks n status items st =
     (case fault of
        Some e \<Rightarrow> (Inl (EvacDb e), st)
      | None \<Rightarrow>
          let rows = map (new_item txt p) (zip ks items) in
          if p \<in> ep_id ` set (ea_plans st) \<or> \<not> distinct (map ei_id (ea_items st @ rows))
          then (Inl EvacDuplicateKey, st)
          else (Inr (), st\<lparr>ea_plans := ea_plans st @ [\<lparr>ep_id = p, ep_node = n, ep_status = status\<rparr>],
                           ea_items := ea_items st @ rows\<rparr>))"

text \<open>All items of a plan carry the timestamp of one transaction, so that the query returns them in the
  order of their identifiers.\<close>

definition list_items :: "(string \<Rightarrow> string \<Rightarrow> bool) \<Rightarrow> string \<Rightarrow> 'm evac \<Rightarrow> item_row list" where
  "list_items id_lt p st = slice_stable (\<lambda>a b. id_lt (ei_id a) (ei_id b)) (filter (\<lambda>i. ei_plan i = p) (ea_items st))"

definition get_plan :: "string \<Rightarrow> 'm evac \<Rightarrow> plan_row option" where
  "get_plan p st = find (\<lambda>r. ep_id r = p) (ea_plans st)"

definition set_plan_status :: "string \<Rightarrow> string \<Rightarrow> 'm evac \<Rightarrow> 'm evac" where
  "set_plan_status p status st =
     st\<lparr>ea_plans := map (\<lambda>r. if ep_id r = p then r\<lparr>ep_status := status\<rparr> else r) (ea_plans st)\<rparr>"

definition running :: "string \<Rightarrow> 'm evac \<Rightarrow> bool" where
  "running p st \<longleftrightarrow> (case get_plan p st of None \<Rightarrow> False | Some r \<Rightarrow> ep_status r = ''running'')"

text \<open>The claim: the result says whether this call moved the plan from pending to running. The row is
  read again afterwards; when that fails the claim stands.\<close>

definition start_plan_row ::
  "string option \<Rightarrow> string option \<Rightarrow> string \<Rightarrow> 'm evac \<Rightarrow> (evac_error + bool) \<times> 'm evac" where
  "start_plan_row fault get_fault p st =
     (case fault of
        Some e \<Rightarrow> (Inl (EvacDb e), st)
      | None \<Rightarrow>
          (case get_plan p st of
             None \<Rightarrow> (Inl PlanNotFound, st)
           | Some r \<Rightarrow>
               let hit = (ep_status r = ''pending''); st1 = (if hit then set_plan_status p ''running'' st else st)
               in (case get_fault of Some e \<Rightarrow> Inl (EvacDb e) | None \<Rightarrow> Inr hit, st1)))"

definition cancel_plan_row :: "string option \<Rightarrow> string \<Rightarrow> 'm evac \<Rightarrow> (evac_error + unit) \<times> 'm evac" where
  "cancel_plan_row fault p st =
     (case fault of
        Some e \<Rightarrow> (Inl (EvacDb e), st)
      | None \<Rightarrow> if running p st then (Inr (), set_plan_status p ''cancelled'' st) else (Inl PlanNotRunning, st))"

type_synonym item_fault = "string \<Rightarrow> string \<Rightarrow> string option"

definition set_item :: "string \<Rightarrow> string \<Rightarrow> string \<Rightarrow> string option \<Rightarrow> item_row \<Rightarrow> item_row" where
  "set_item k mig status err r =
     (if ei_id r = k then r\<lparr>ei_migration := mig, ei_status := status, ei_error := err\<rparr> else r)"

definition update_item ::
  "item_fault \<Rightarrow> string \<Rightarrow> string \<Rightarrow> string \<Rightarrow> string option \<Rightarrow> 'm evac \<Rightarrow> (string + unit) \<times> 'm evac" where
  "update_item uf k mig status err st =
     (case uf k status of
        Some e \<Rightarrow> (Inl e, st)
      | None \<Rightarrow> (Inr (), st\<lparr>ea_items := map (set_item k mig status err) (ea_items st)\<rparr>))"

section \<open>Starting items\<close>

definition active_status :: "string \<Rightarrow> bool" where
  "active_status s \<longleftrightarrow> s = ''preparing'' \<or> s = ''running''"

text \<open>The body of the loop for an eligible pending item: an error of the table, or whether the item
  now runs.\<close>

definition item_failed :: "item_fault \<Rightarrow> string \<Rightarrow> string \<Rightarrow> string \<Rightarrow> 'm evac \<Rightarrow> (string + bool) \<times> 'm evac" where
  "item_failed uf k mig msg st =
     (case update_item uf k mig ''failed'' (Some msg) st of
        (Inl e, st1) \<Rightarrow> (Inl e, st1) | (Inr _, st1) \<Rightarrow> (Inr False, st1))"

definition launch_item ::
  "'m executor \<Rightarrow> item_fault \<Rightarrow> item_row \<Rightarrow> string \<Rightarrow> 'm evac \<Rightarrow> (string + bool) \<times> 'm evac" where
  "launch_item ex uf it mig st =
     (case ex_prepare ex mig (ea_mig st) of
        (Inl e, m) \<Rightarrow> item_failed uf (ei_id it) mig (''prepare migration: '' @ e) (st\<lparr>ea_mig := m\<rparr>)
      | (Inr _, m) \<Rightarrow>
          (case ex_execute ex mig m of
             (Inl e, m2) \<Rightarrow> item_failed uf (ei_id it) mig (''execute migration: '' @ e) (st\<lparr>ea_mig := m2\<rparr>)
           | (Inr _, m2) \<Rightarrow>
               (case update_item uf (ei_id it) mig ''running'' None (st\<lparr>ea_mig := m2\<rparr>) of
                  (Inl e, st2) \<Rightarrow> (Inl e, st2)
                | (Inr _, st2) \<Rightarrow> (Inr True, st2))))"

definition start_item ::
  "'m executor \<Rightarrow> item_fault \<Rightarrow> item_row \<Rightarrow> 'm evac \<Rightarrow> (string + bool) \<times> 'm evac" where
  "start_item ex uf it st =
     (if ei_target it = [] then item_failed uf (ei_id it) [] ''eligible evacuation item has no target node'' st
      else (case ex_create ex (ei_server it) (ei_source it) (ei_target it) (ea_mig st) of
        (Inl e, m) \<Rightarrow> item_failed uf (ei_id it) [] (''create migration: '' @ e) (st\<lparr>ea_mig := m\<rparr>)
      | (Inr mig, m) \<Rightarrow>
          (case update_item uf (ei_id it) mig ''preparing'' None (st\<lparr>ea_mig := m\<rparr>) of
             (Inl e, st1) \<Rightarrow> (Inl e, st1)
           | (Inr _, st1) \<Rightarrow> launch_item ex uf it mig st1)))"

fun start_loop ::
  "'m executor \<Rightarrow> item_fault \<Rightarrow> item_row list \<Rightarrow> nat \<Rightarrow> 'm evac \<Rightarrow> (string + unit) \<times> 'm evac" where
  "start_loop ex uf [] active st = (Inr (), st)"
| "start_loop ex uf (it # its) active st =
     (if 2 \<le> active then (Inr (), st)
      else if \<not> ei_eligible it \<or> ei_status it \<noteq> ''pending'' then start_loop ex uf its active st
      else (case start_item ex uf it st of
              (Inl e, st1) \<Rightarrow> (Inl e, st1)
            | (Inr started, st1) \<Rightarrow> start_loop ex uf its (active + of_bool started) st1))"

definition start_available_items ::
  "'m executor \<Rightarrow> item_fault \<Rightarrow> item_row list \<Rightarrow> 'm evac \<Rightarrow> (string + unit) \<times> 'm evac" where
  "start_available_items ex uf items st =
     start_loop ex uf items (length (filter (\<lambda>i. active_status (ei_status i)) items)) st"

section \<open>Closing a plan\<close>

definition fail_plan :: "string option \<Rightarrow> string \<Rightarrow> 'm evac \<Rightarrow> 'm evac" where
  "fail_plan fault p st =
     (let st1 = (case fault of Some _ \<Rightarrow> st | None \<Rightarrow> set_plan_status p ''failed'' st)
      in st1\<lparr>ea_events := ea_events st1 @ [(''evacuation_plan_failed'', p)]\<rparr>)"

definition plan_finished :: "item_row list \<Rightarrow> bool" where
  "plan_finished items \<longleftrightarrow> \<not> (\<exists>i \<in> set items. ei_status i \<in> {''pending'', ''preparing'', ''running''})"

definition complete_plan :: "string option \<Rightarrow> string \<Rightarrow> item_row list \<Rightarrow> 'm evac \<Rightarrow> 'm evac" where
  "complete_plan fault p items st =
     (let bad = (\<exists>i \<in> set items. ei_status i = ''failed'') in
      case fault of
        Some _ \<Rightarrow> st
      | None \<Rightarrow> (set_plan_status p (if bad then ''failed'' else ''completed'') st)\<lparr>ea_events := ea_events st @
           [(if bad then ''evacuation_plan_failed'' else ''evacuation_plan_completed'', p)]\<rparr>)"

definition migration_outcome :: "string \<Rightarrow> string" where
  "migration_outcome s =
     (if s = ''completed'' then ''completed''
      else if s = ''failed'' \<or> s = ''cancelled'' then ''failed'' else ''pending'')"

text \<open>A failed status query ends the loop with the result of recording it.\<close>

fun reconcile_items ::
  "'m executor \<Rightarrow> item_fault \<Rightarrow> item_row list \<Rightarrow> 'm evac \<Rightarrow> (string + unit) \<times> 'm evac" where
  "reconcile_items ex uf [] st = (Inr (), st)"
| "reconcile_items ex uf (it # its) st =
     (if \<not> active_status (ei_status it) \<or> ei_migration it = [] then reconcile_items ex uf its st
      else (case ex_status ex (ei_migration it) (ea_mig st) of
        Inl e \<Rightarrow> update_item uf (ei_id it) (ei_migration it) ''failed'' (Some (''get migration status: '' @ e)) st
      | Inr s \<Rightarrow>
          if migration_outcome s = ''pending'' then reconcile_items ex uf its st
          else (case update_item uf (ei_id it) (ei_migration it) (migration_outcome s)
                  (if migration_outcome s = ''completed'' then None else Some (''migration ended with status '' @ s)) st of
                  (Inl e, st1) \<Rightarrow> (Inl e, st1)
                | (Inr _, st1) \<Rightarrow> reconcile_items ex uf its st1)))"

text \<open>One round of the observer; \<open>rf1\<close> and \<open>rf2\<close> say which of its two reads of the plan fails. The
  observer leaves when the plan is closed or no longer running, or when it could not be read.\<close>

definition observe_round ::
  "(string \<Rightarrow> string \<Rightarrow> bool) \<Rightarrow> 'm executor \<Rightarrow> item_fault \<Rightarrow> bool \<Rightarrow> bool \<Rightarrow> string option \<Rightarrow> string \<Rightarrow> 'm evac
     \<Rightarrow> bool \<times> 'm evac" where
  "observe_round id_lt ex uf rf1 rf2 pf p st =
     (if rf1 \<or> \<not> running p st then (False, st)
      else (case reconcile_items ex uf (list_items id_lt p st) st of
        (Inl _, st1) \<Rightarrow> (False, fail_plan pf p st1)
      | (Inr _, st1) \<Rightarrow>
          if rf2 then (False, st1)
          else let items = list_items id_lt p st1 in
            if plan_finished items then (False, complete_plan pf p items st1)
            else (case start_available_items ex uf items st1 of
                    (Inl _, st2) \<Rightarrow> (False, fail_plan pf p st2)
                  | (Inr _, st2) \<Rightarrow> (True, st2))))"

definition observe_step ::
  "(string \<Rightarrow> string \<Rightarrow> bool) \<Rightarrow> 'm executor \<Rightarrow> item_fault \<Rightarrow> bool \<Rightarrow> bool \<Rightarrow> string option \<Rightarrow> string \<Rightarrow> 'm evac
     \<Rightarrow> 'm evac" where
  "observe_step id_lt ex uf rf1 rf2 pf p st =
     (if p \<notin> ea_observers st then st
      else (case observe_round id_lt ex uf rf1 rf2 pf p st of
              (goon, st1) \<Rightarrow> if goon then st1 else st1\<lparr>ea_observers := ea_observers st1 - {p}\<rparr>))"

section \<open>Handlers\<close>

text \<open>\<^verbatim>\<open>CreatePlan\<close> evaluates the node and saves the plan; \<open>get_fault\<close> is an error of reading the saved
  plan back, after which the rows stay and the caller sees a failure.\<close>

definition create_plan ::
  "sched_config \<Rightarrow> (string \<Rightarrow> ev_reads) \<Rightarrow> res_error + node \<Rightarrow> res_error + server_row list \<Rightarrow> res_error + node list
     \<Rightarrow> (reason \<Rightarrow> string) \<Rightarrow> string option \<Rightarrow> string option \<Rightarrow> string \<Rightarrow> string list \<Rightarrow> string \<Rightarrow> ev_state \<times> 'm evac
     \<Rightarrow> (evac_error + plan_item list) \<times> ev_state \<times> 'm evac" where
  "create_plan cfg rd source servers nodes txt fault get_fault p ks n est =
     (case est of (ev, st) \<Rightarrow>
        (case evaluate_node cfg rd source servers nodes ev of
           (Inl e, ev1) \<Rightarrow> (Inl (EvaluationFailed e), ev1, st)
         | (Inr (items, status), ev1) \<Rightarrow>
             let (r, st1) = create_plan_rows txt fault p ks n status items st;
                 r1 = (case r of Inl e \<Rightarrow> Inl e
                       | Inr _ \<Rightarrow> (case get_fault of Some e \<Rightarrow> Inl (EvacDb e) | None \<Rightarrow> Inr items))
             in (case r1 of
                   Inl e \<Rightarrow> (Inl e, ev_publish (PlanFailed ''node'' n) (ev1\<lparr>ev_failures := ev_failures ev1 + 1\<rparr>), st1)
                 | Inr _ \<Rightarrow>
                     let ev2 = ev_publish (PlanCreated p n status) (ev1\<lparr>ev_plans := ev_plans ev1 + 1\<rparr>)
                     in (Inr items, if status = ''failed'' then ev_publish (PlanFailed ''evacuation_plan'' p) ev2 else ev2,
                         st1))))"

definition start_observer :: "string \<Rightarrow> 'm evac \<Rightarrow> 'm evac" where
  "start_observer p st = st\<lparr>ea_observers := insert p (ea_observers st)\<rparr>"

definition resume_running_plans :: "bool \<Rightarrow> 'm evac \<Rightarrow> 'm evac" where
  "resume_running_plans not_read st =
     (if not_read then st
      else fold start_observer (map ep_id (filter (\<lambda>r. ep_status r = ''running'') (ea_plans st))) st)"

definition execute_plan ::
  "(string \<Rightarrow> string \<Rightarrow> bool) \<Rightarrow> 'm executor \<Rightarrow> item_fault \<Rightarrow> string option \<Rightarrow> string option \<Rightarrow> string option
     \<Rightarrow> string \<Rightarrow> 'm evac \<Rightarrow> (evac_error + bool) \<times> 'm evac" where
  "execute_plan id_lt ex uf sf gf pf p st =
     (case start_plan_row sf gf p st of
        (Inl e, st1) \<Rightarrow> (Inl e, st1)
      | (Inr started, st1) \<Rightarrow>
          if \<not> started then (Inr False, st1)
          else (case start_available_items ex uf (list_items id_lt p st1) st1 of
                  (Inl _, st2) \<Rightarrow> (case pf of Some e \<Rightarrow> Inl (EvacDb e) | None \<Rightarrow> Inr False, fail_plan pf p st2)
                | (Inr _, st2) \<Rightarrow> (Inr True, start_observer p st2)))"

fun cancel_items :: "'m executor \<Rightarrow> item_row list \<Rightarrow> 'm evac \<Rightarrow> (evac_error + unit) \<times> 'm evac" where
  "cancel_items ex [] st = (Inr (), st)"
| "cancel_items ex (it # its) st =
     (if active_status (ei_status it) \<and> ei_migration it \<noteq> [] then
        (case ex_cancel ex (ei_migration it) (ea_mig st) of
           (Inl e, m) \<Rightarrow> (Inl (CancelFailed (ei_migration it) e), st\<lparr>ea_mig := m\<rparr>)
         | (Inr _, m) \<Rightarrow> cancel_items ex its (st\<lparr>ea_mig := m\<rparr>))
      else cancel_items ex its st)"

definition cancel_plan ::
  "(string \<Rightarrow> string \<Rightarrow> bool) \<Rightarrow> 'm executor \<Rightarrow> string option \<Rightarrow> string \<Rightarrow> 'm evac \<Rightarrow> (evac_error + unit) \<times> 'm evac" where
  "cancel_plan id_lt ex fault p st =
     (case get_plan p st of
        None \<Rightarrow> (Inl PlanNotFound, st)
      | Some r \<Rightarrow>
          if ep_status r \<noteq> ''running'' then (Inl PlanNotRunning, st)
          else (case cancel_items ex (list_items id_lt p st) st of
                  (Inl e, st1) \<Rightarrow> (Inl e, st1)
                | (Inr _, st1) \<Rightarrow> cancel_plan_row fault p st1))"

section \<open>Reachable states\<close>

text \<open>Between the steps of the planner the migration service moves on by itself. The identifiers of the
  items are as many as the items.\<close>

inductive evac_step :: "(string \<Rightarrow> string \<Rightarrow> bool) \<Rightarrow> 'm executor \<Rightarrow> 'm evac \<Rightarrow> 'm evac \<Rightarrow> bool" for id_lt ex where
  step_create: "length ks = length items \<Longrightarrow>
    evac_step id_lt ex st (snd (create_plan_rows txt fault p ks n (plan_status items) items st))"
| step_execute: "evac_step id_lt ex st (snd (execute_plan id_lt ex uf sf gf pf p st))"
| step_cancel: "evac_step id_lt ex st (snd (cancel_plan id_lt ex fault p st))"
| step_observe: "evac_step id_lt ex st (observe_step id_lt ex uf rf1 rf2 pf p st)"
| step_resume: "evac_step id_lt ex st (resume_running_plans nr st)"
| step_migrations: "evac_step id_lt ex st (st\<lparr>ea_mig := m\<rparr>)"

inductive evac_reachable :: "(string \<Rightarrow> string \<Rightarrow> bool) \<Rightarrow> 'm executor \<Rightarrow> 'm evac \<Rightarrow> bool" for id_lt ex where
  reach_empty: "ea_plans st = [] \<Longrightarrow> ea_items st = [] \<Longrightarrow> evac_reachable id_lt ex st"
| reach_more: "evac_reachable id_lt ex st \<Longrightarrow> evac_step id_lt ex st st' \<Longrightarrow> evac_reachable id_lt ex st'"

inductive_cases evac_stepE: "evac_step id_lt ex st st'"

text \<open>Creating a plan changes the tables as the first rule says, or not at all.\<close>

lemma plan_servers_length:
  "plan_servers cfg rd source nodes srvs reserved st = (items, reserved', st') \<Longrightarrow> length items = length srvs"
  by (induction srvs arbitrary: items reserved st) (auto split: prod.splits)

lemma create_plan_step:
  assumes c: "create_plan cfg rd source (Inr srvs) nodes txt fault gf p ks n (ev, st) = (r, ev', st')"
    and ks: "length ks = length srvs"
  shows "st' = st \<or> evac_step id_lt ex st st'"
proof (cases "evaluate_node cfg rd source (Inr srvs) nodes ev")
  case (Pair a ev1)
  show ?thesis
  proof (cases a)
    case (Inl e)
    with c Pair show ?thesis by (simp add: create_plan_def)
  next
    case (Inr x)
    then obtain items status where x: "a = Inr (items, status)" by (cases x) simp
    with Pair have "status = plan_status items" "length items = length srvs"
      using plan_servers_length by (auto simp: evaluate_node_def split: sum.splits prod.splits)
    moreover have "st' = snd (create_plan_rows txt fault p ks n status items st)"
      using c Pair x by (simp add: create_plan_def Let_def split: prod.splits sum.splits option.splits)
    ultimately show ?thesis using ks by (auto intro: step_create)
  qed
qed

section \<open>How items change\<close>

lemma set_item_fields [simp]:
  "ei_id (set_item k mig status err r) = ei_id r" "ei_plan (set_item k mig status err r) = ei_plan r"
  "ei_eligible (set_item k mig status err r) = ei_eligible r"
  by (simp_all add: set_item_def)

lemma set_item_twice [simp]:
  "set_item k m2 s2 e2 (set_item k m1 s1 e1 r) = set_item k m2 s2 e2 r"
  by (simp add: set_item_def)

lemma set_item_status: "ei_status (set_item k mig s err r) = (if ei_id r = k then s else ei_status r)"
  by (simp add: set_item_def)

text \<open>Starting an item writes at most the row of the item. \<open>wrote k R st r st'\<close>: nothing but the row \<open>k\<close>
  changed, with a status that fits the result.\<close>

definition wrote :: "string \<Rightarrow> ('r \<Rightarrow> string \<Rightarrow> bool) \<Rightarrow> 'm evac \<Rightarrow> 'r \<Rightarrow> 'm evac \<Rightarrow> bool" where
  "wrote k R st r st' \<longleftrightarrow> ea_plans st' = ea_plans st \<and> ea_observers st' = ea_observers st \<and>
     ea_events st' = ea_events st \<and>
     (\<exists>mig s err. R r s \<and> ea_items st' = map (set_item k mig s err) (ea_items st))"

lemma wroteI:
  "ea_plans st' = ea_plans st \<Longrightarrow> ea_observers st' = ea_observers st \<Longrightarrow> ea_events st' = ea_events st \<Longrightarrow>
   ea_items st' = map (set_item k mig s err) (ea_items st) \<Longrightarrow> R r s \<Longrightarrow> wrote k R st r st'"
  unfolding wrote_def by blast

fun start_result :: "string + bool \<Rightarrow> string \<Rightarrow> bool" where
  "start_result (Inl _) s = (s = ''preparing'')"
| "start_result (Inr b) s = (s = (if b then ''running'' else ''failed''))"

lemma wrote_trans_map:
  assumes "ea_items st1 = map (set_item k mig s err) (ea_items st)" "ea_plans st1 = ea_plans st"
    "ea_observers st1 = ea_observers st" "ea_events st1 = ea_events st" "wrote k R st1 r st'"
  shows "wrote k R st r st'"
proof -
  have "(set_item k m2 s2 e2 \<circ> set_item k mig s err) = set_item k m2 s2 e2" for m2 s2 e2
    by (rule ext) simp
  with assms show ?thesis unfolding wrote_def by (auto simp: comp_def)
qed

lemma item_failed_cases:
  assumes "item_failed uf k mig msg st = (r, st')"
  shows "(\<exists>e. r = Inl e \<and> st' = st) \<or> wrote k start_result st r st'"
proof (cases "uf k ''failed''")
  case None
  with assms have "r = Inr False" "st' = st\<lparr>ea_items := map (set_item k mig ''failed'' (Some msg)) (ea_items st)\<rparr>"
    by (simp_all add: item_failed_def update_item_def)
  then show ?thesis by (auto simp: wrote_def)
next
  case (Some e)
  with assms show ?thesis by (auto simp: item_failed_def update_item_def)
qed

lemma launch_item_cases:
  assumes "launch_item ex uf it mig st = (r, st')"
  shows "(\<exists>e. r = Inl e) \<and> (\<exists>m. st' = st\<lparr>ea_mig := m\<rparr>) \<or> wrote (ei_id it) start_result st r st'"
proof -
  have w: "wrote (ei_id it) start_result st r st'" if "wrote (ei_id it) start_result (st\<lparr>ea_mig := m\<rparr>) r st'" for m
    using that by (simp add: wrote_def)
  obtain a m where a: "ex_prepare ex mig (ea_mig st) = (a, m)" by fastforce
  obtain b m2 where b: "ex_execute ex mig m = (b, m2)" by fastforce
  show ?thesis
  proof (cases a)
    case (Inl e)
    then have "item_failed uf (ei_id it) mig (''prepare migration: '' @ e) (st\<lparr>ea_mig := m\<rparr>) = (r, st')"
      using assms a by (simp add: launch_item_def)
    from item_failed_cases [OF this] w [of m] show ?thesis by blast
  next
    case Ra: (Inr u)
    show ?thesis
    proof (cases b)
      case (Inl e)
      then have "item_failed uf (ei_id it) mig (''execute migration: '' @ e) (st\<lparr>ea_mig := m2\<rparr>) = (r, st')"
        using assms a b Ra by (simp add: launch_item_def)
      from item_failed_cases [OF this] w [of m2] show ?thesis by blast
    next
      case (Inr v)
      show ?thesis
      proof (cases "uf (ei_id it) ''running''")
        case None
        with assms a b Ra Inr have "r = Inr True"
          "st' = st\<lparr>ea_mig := m2, ea_items := map (set_item (ei_id it) mig ''running'' None) (ea_items st)\<rparr>"
          by (simp_all add: launch_item_def update_item_def)
        then show ?thesis by (auto simp: wrote_def)
      next
        case (Some e)
        with assms a b Ra Inr show ?thesis by (auto simp: launch_item_def update_item_def)
      qed
    qed
  qed
qed

lemma start_item_effect:
  assumes "start_item ex uf it st = (r, st')"
  shows "(\<exists>e. r = Inl e) \<and> (\<exists>m. st' = st\<lparr>ea_mig := m\<rparr>) \<or> wrote (ei_id it) start_result st r st'"
proof (cases "ei_target it = []")
  case True
  with assms have "item_failed uf (ei_id it) [] ''eligible evacuation item has no target node'' st = (r, st')"
    by (simp add: start_item_def)
  from item_failed_cases [OF this] show ?thesis by (metis evac.surjective evac.update_convs(5))
next
  case False
  have w: "wrote (ei_id it) start_result st r st'" if "wrote (ei_id it) start_result (st\<lparr>ea_mig := m\<rparr>) r st'" for m
    using that by (simp add: wrote_def)
  obtain a m where a: "ex_create ex (ei_server it) (ei_source it) (ei_target it) (ea_mig st) = (a, m)" by fastforce
  show ?thesis
  proof (cases a)
    case (Inl e)
    then have "item_failed uf (ei_id it) [] (''create migration: '' @ e) (st\<lparr>ea_mig := m\<rparr>) = (r, st')"
      using assms a False by (simp add: start_item_def)
    from item_failed_cases [OF this] w [of m] show ?thesis by blast
  next
    case (Inr mig)
    show ?thesis
    proof (cases "uf (ei_id it) ''preparing''")
      case (Some e)
      with assms a False Inr show ?thesis by (auto simp: start_item_def update_item_def)
    next
      case None
      let ?st1 = "st\<lparr>ea_mig := m, ea_items := map (set_item (ei_id it) mig ''preparing'' None) (ea_items st)\<rparr>"
      have l: "launch_item ex uf it mig ?st1 = (r, st')"
        using assms a False Inr None by (simp add: start_item_def update_item_def)
      from launch_item_cases [OF this] show ?thesis
      proof
        assume "(\<exists>e. r = Inl e) \<and> (\<exists>m. st' = ?st1\<lparr>ea_mig := m\<rparr>)"
        then obtain e m' where "r = Inl e" "st' = ?st1\<lparr>ea_mig := m'\<rparr>" by blast
        then have "wrote (ei_id it) start_result st r st'"
          by (intro wroteI [where mig = mig and s = "''preparing''" and err = None]) simp_all
        then show ?thesis ..
      next
        assume "wrote (ei_id it) start_result ?st1 r st'"
        then have "wrote (ei_id it) start_result st r st'" 
          by (rule wrote_trans_map [where st = st and mig = mig and s = "''preparing''" and err = None, rotated 4]) simp_all
        then show ?thesis ..
      qed
    qed
  qed
qed

text \<open>Without faults of the table an item is always settled.\<close>

abbreviation no_faults :: item_fault where
  "no_faults \<equiv> \<lambda>_ _. None"

lemma update_item_no_fault [simp]:
  "update_item no_faults k mig s err st = (Inr (), st\<lparr>ea_items := map (set_item k mig s err) (ea_items st)\<rparr>)"
  by (simp add: update_item_def)

lemma item_failed_no_fault: "fst (item_failed no_faults k mig msg st) = Inr False"
  by (simp add: item_failed_def)

lemma launch_item_no_fault: "\<not> isl (fst (launch_item ex no_faults it mig st))"
  by (simp add: launch_item_def item_failed_no_fault split: prod.split sum.split)

lemma start_item_no_fault: "\<not> isl (fst (start_item ex no_faults it st))"
  by (simp add: start_item_def item_failed_no_fault launch_item_no_fault split: prod.split sum.split)

section \<open>Counting items\<close>

definition count_items :: "(string \<Rightarrow> bool) \<Rightarrow> string \<Rightarrow> item_row list \<Rightarrow> nat" where
  "count_items P p items = length (filter (\<lambda>i. ei_plan i = p \<and> P (ei_status i)) items)"

lemma count_items_simps [simp]:
  "count_items P p [] = 0"
  "count_items P p (i # items) = of_bool (ei_plan i = p \<and> P (ei_status i)) + count_items P p items"
  by (simp_all add: count_items_def)

lemma map_set_item_other: "k \<notin> ei_id ` set items \<Longrightarrow> map (set_item k mig s err) items = items"
  by (induction items) (auto simp: set_item_def)

lemma count_set_item:
  assumes "distinct (map ei_id items)" "it \<in> set items" "ei_plan it = p"
  shows "count_items P p (map (set_item (ei_id it) mig s err) items) + of_bool (P (ei_status it))
    = count_items P p items + of_bool (P s)"
  using assms
proof (induction items)
  case Nil
  then show ?case by simp
next
  case (Cons a items)
  show ?case
  proof (cases "a = it")
    case True
    with Cons.prems have "map (set_item (ei_id it) mig s err) items = items"
      by (intro map_set_item_other) simp
    with True Cons.prems show ?thesis by (simp add: set_item_status)
  next
    case False
    with Cons.prems have "it \<in> set items" by simp
    with Cons.prems have "ei_id a \<noteq> ei_id it" by (metis distinct.simps(2) image_eqI list.set_map list.simps(9))
    then have "set_item (ei_id it) mig s err a = a" by (simp add: set_item_def)
    with Cons.IH Cons.prems \<open>it \<in> set items\<close> show ?thesis by simp
  qed
qed

lemma count_set_item_other:
  assumes "\<forall>i \<in> set items. ei_id i = k \<longrightarrow> ei_plan i \<noteq> q"
  shows "count_items P q (map (set_item k mig s err) items) = count_items P q items"
  using assms by (induction items) (auto simp: set_item_status)

section \<open>Changes within one plan\<close>

definition item_statuses :: "string set" where
  "item_statuses = {''pending'', ''preparing'', ''running'', ''completed'', ''failed''}"

text \<open>\<open>touches p S\<close>: only items of the plan \<open>p\<close> that are eligible may have changed, to a status in
  \<open>S\<close>, and nothing else of the tables.\<close>

definition item_touched :: "string \<Rightarrow> string set \<Rightarrow> item_row \<Rightarrow> item_row \<Rightarrow> bool" where
  "item_touched p S i i' \<longleftrightarrow> ei_id i' = ei_id i \<and> ei_plan i' = ei_plan i \<and> ei_eligible i' = ei_eligible i \<and>
     (i' = i \<or> ei_plan i = p \<and> ei_eligible i \<and> ei_status i' \<in> S)"

definition touches :: "string \<Rightarrow> string set \<Rightarrow> 'm evac \<Rightarrow> 'm evac \<Rightarrow> bool" where
  "touches p S st st' \<longleftrightarrow> ea_plans st' = ea_plans st \<and> ea_observers st' = ea_observers st \<and>
     list_all2 (item_touched p S) (ea_items st) (ea_items st')"

lemma touches_refl [simp]: "touches p S st st" "touches p S st (st\<lparr>ea_mig := m\<rparr>)"
  by (simp_all add: touches_def item_touched_def list_all2_same)

lemma touches_trans:
  assumes "touches p S st st1" "touches p S st1 st2"
  shows "touches p S st st2"
proof -
  have "item_touched p S i j \<Longrightarrow> item_touched p S j k \<Longrightarrow> item_touched p S i k" for i j k
    unfolding item_touched_def by (elim conjE disjE) simp_all
  then have "list_all2 (item_touched p S) (ea_items st) (ea_items st2)"
    using assms unfolding touches_def by (blast intro: list_all2_trans)
  with assms show ?thesis by (simp add: touches_def)
qed

lemma touches_set_item:
  assumes "ea_plans st' = ea_plans st" "ea_observers st' = ea_observers st"
    "ea_items st' = map (set_item k mig s err) (ea_items st)" "s \<in> S"
    and "\<forall>i \<in> set (ea_items st). ei_id i = k \<longrightarrow> ei_plan i = p \<and> ei_eligible i"
  shows "touches p S st st'"
  using assms
  by (simp add: touches_def item_touched_def list_all2_map2 list_all2_same) (auto simp: set_item_def)

lemma touches_ids: "touches p S st st' \<Longrightarrow> map ei_id (ea_items st') = map ei_id (ea_items st)"
  unfolding touches_def item_touched_def
  by (auto intro!: nth_equalityI dest: list_all2_lengthD simp: list_all2_conv_all_nth)

lemma touches_mem:
  assumes "touches p S st st'" "i' \<in> set (ea_items st')"
  shows "\<exists>i \<in> set (ea_items st). item_touched p S i i'"
proof -
  have "list_all2 (item_touched p S) (ea_items st) (ea_items st')" using assms(1) by (simp add: touches_def)
  then show ?thesis using assms(2) by induction auto
qed

lemma touches_other_count:
  assumes "touches p S st st'" "q \<noteq> p"
  shows "count_items P q (ea_items st') = count_items P q (ea_items st)"
proof -
  have "list_all2 (item_touched p S) (ea_items st) (ea_items st')" using assms(1) by (simp add: touches_def)
  then show ?thesis by induction (use assms(2) in \<open>auto simp: item_touched_def\<close>)
qed

text \<open>Writing the row of a given item of the plan.\<close>

lemma row_unique:
  "distinct (map ei_id items) \<Longrightarrow> it \<in> set items \<Longrightarrow> i \<in> set items \<Longrightarrow> ei_id i = ei_id it \<Longrightarrow> i = it"
  by (auto simp: distinct_map inj_on_def)

lemma wrote_touches:
  assumes "wrote (ei_id it) R st r st'" "\<And>s. R r s \<Longrightarrow> s \<in> S"
    and "distinct (map ei_id (ea_items st))" "it \<in> set (ea_items st)" "ei_plan it = p" "ei_eligible it"
  shows "touches p S st st'"
proof -
  from assms(1) obtain mig s err where w: "R r s" "ea_items st' = map (set_item (ei_id it) mig s err) (ea_items st)"
    "ea_plans st' = ea_plans st" "ea_observers st' = ea_observers st" by (auto simp: wrote_def)
  show ?thesis
    using row_unique [OF assms(3,4)] assms(5,6) by (intro touches_set_item [OF w(3,4,2) assms(2) [OF w(1)]]) auto
qed

lemma wrote_others:
  assumes "wrote k R st r st'" "i \<in> set (ea_items st)" "ei_id i \<noteq> k"
  shows "i \<in> set (ea_items st')"
proof -
  from assms(1) obtain mig s err where w: "ea_items st' = map (set_item k mig s err) (ea_items st)"
    by (auto simp: wrote_def)
  have "set_item k mig s err i = i" using assms(3) by (simp add: set_item_def)
  with assms(2) w show ?thesis by (metis image_eqI list.set_map)
qed

text \<open>\<open>plan_rows p its st\<close>: the list holds rows of the plan \<open>p\<close> as they are in the table.\<close>

definition plan_rows :: "string \<Rightarrow> item_row list \<Rightarrow> 'm evac \<Rightarrow> bool" where
  "plan_rows p its st \<longleftrightarrow> distinct (map ei_id (ea_items st)) \<and> distinct (map ei_id its) \<and>
     (\<forall>i \<in> set its. i \<in> set (ea_items st) \<and> ei_plan i = p)"

lemma plan_rows_tl: "plan_rows p (it # its) st \<Longrightarrow> plan_rows p its st"
  by (simp add: plan_rows_def)

lemma plan_rows_mig [simp]: "plan_rows p its (st\<lparr>ea_mig := m\<rparr>) = plan_rows p its st"
  by (simp add: plan_rows_def)

lemma plan_rows_wrote:
  assumes "plan_rows p (it # its) st" "wrote (ei_id it) R st r st'"
  shows "plan_rows p its st'"
proof -
  have "map ei_id (ea_items st') = map ei_id (ea_items st)" using assms(2) by (auto simp: wrote_def)
  moreover have "i \<in> set (ea_items st')" if "i \<in> set its" for i
    using assms(1) that by (intro wrote_others [OF assms(2)]) (force simp: plan_rows_def image_iff)+
  ultimately show ?thesis using assms(1) by (simp add: plan_rows_def)
qed

lemma plan_rows_touches:
  assumes "plan_rows p (it # its) st" "wrote (ei_id it) R st r st'" "ei_eligible it" "\<And>s. R r s \<Longrightarrow> s \<in> S"
  shows "touches p S st st'"
  using assms(1,3) by (intro wrote_touches [OF assms(2,4)]) (simp_all add: plan_rows_def)

lemma plan_rows_count:
  assumes "plan_rows p (it # its) st" "wrote (ei_id it) R st r st'"
  obtains s where "R r s" "count_items P p (ea_items st') + of_bool (P (ei_status it))
    = count_items P p (ea_items st) + of_bool (P s)"
proof -
  from assms(2) obtain mig s err where w: "R r s" "ea_items st' = map (set_item (ei_id it) mig s err) (ea_items st)"
    by (auto simp: wrote_def)
  have "count_items P p (ea_items st') + of_bool (P (ei_status it)) = count_items P p (ea_items st) + of_bool (P s)"
    unfolding w(2) using assms(1) by (intro count_set_item) (simp_all add: plan_rows_def)
  with w(1) show ?thesis by (rule that)
qed

lemma list_items_rows:
  "distinct (map ei_id (ea_items st)) \<Longrightarrow> plan_rows p (list_items id_lt p st) st"
proof -
  assume d: "distinct (map ei_id (ea_items st))"
  have "mset (map ei_id (list_items id_lt p st)) = mset (map ei_id (filter (\<lambda>i. ei_plan i = p) (ea_items st)))"
    by (simp add: list_items_def)
  then have "distinct (map ei_id (list_items id_lt p st)) = distinct (map ei_id (filter (\<lambda>i. ei_plan i = p) (ea_items st)))"
    by (rule mset_eq_imp_distinct_iff)
  with d show ?thesis by (auto simp: plan_rows_def list_items_def distinct_map_filter)
qed

lemma list_items_count:
  "length (filter (\<lambda>i. P (ei_status i)) (list_items id_lt p st)) = count_items P p (ea_items st)"
proof -
  have "mset (filter (\<lambda>i. P (ei_status i)) (list_items id_lt p st))
      = mset (filter (\<lambda>i. ei_plan i = p \<and> P (ei_status i)) (ea_items st))"
    by (simp add: list_items_def filter_filter_mset multiset.map_comp conj_commute)
  then show ?thesis unfolding count_items_def by (metis size_mset)
qed

section \<open>The loops\<close>

lemma active_simps [simp]:
  "active_status ''preparing''" "active_status ''running''" "\<not> active_status ''pending''"
  "\<not> active_status ''failed''" "\<not> active_status ''completed''"
  by (simp_all add: active_status_def)

lemma start_result_in: "start_result r s \<Longrightarrow> s \<in> {''preparing'', ''running'', ''failed''}"
  by (cases r) (auto split: if_splits)

lemma start_item_step:
  assumes "start_item ex uf it st = (r, st')" "plan_rows p (it # its) st" "ei_eligible it" "ei_status it = ''pending''"
  shows "touches p {''preparing'', ''running'', ''failed''} st st'"
    and "count_items active_status p (ea_items st') \<le> Suc (count_items active_status p (ea_items st))"
    and "r = Inr b \<Longrightarrow> plan_rows p its st' \<and>
      count_items active_status p (ea_items st') = count_items active_status p (ea_items st) + of_bool b"
proof -
  note cases = start_item_effect [OF assms(1)]
  show "touches p {''preparing'', ''running'', ''failed''} st st'"
  proof (rule disjE [OF cases])
    assume "(\<exists>e. r = Inl e) \<and> (\<exists>m. st' = st\<lparr>ea_mig := m\<rparr>)"
    then obtain m where "st' = st\<lparr>ea_mig := m\<rparr>" by blast
    then show ?thesis by simp
  qed (rule plan_rows_touches [OF assms(2) _ assms(3) start_result_in])
  have c: "\<exists>s. start_result r s \<and> count_items active_status p (ea_items st')
      = count_items active_status p (ea_items st) + of_bool (active_status s)"
    if w: "wrote (ei_id it) start_result st r st'"
    using assms(4) by (rule_tac plan_rows_count [OF assms(2) w, of active_status]) auto
  then show "count_items active_status p (ea_items st') \<le> Suc (count_items active_status p (ea_items st))"
    using cases by fastforce
  assume r: "r = Inr b"
  with cases have w: "wrote (ei_id it) start_result st r st'" by simp
  from c [OF w] r have "count_items active_status p (ea_items st') = count_items active_status p (ea_items st) + of_bool b"
    by auto
  with plan_rows_wrote [OF assms(2) w]
  show "plan_rows p its st' \<and> count_items active_status p (ea_items st')
      = count_items active_status p (ea_items st) + of_bool b" ..
qed

lemma start_loop_effect:
  "start_loop ex uf its active st = (r, st') \<Longrightarrow> plan_rows p its st \<Longrightarrow>
   touches p {''preparing'', ''running'', ''failed''} st st' \<and>
   (count_items active_status p (ea_items st) \<le> active \<longrightarrow> count_items active_status p (ea_items st') \<le> max 2 active)"
proof (induction ex uf its active st rule: start_loop.induct)
  case (1 ex uf active st)
  then show ?case by auto
next
  case (2 ex uf it its active st)
  consider "2 \<le> active" | "\<not> 2 \<le> active" "\<not> ei_eligible it \<or> ei_status it \<noteq> ''pending''"
    | "\<not> 2 \<le> active" "ei_eligible it" "ei_status it = ''pending''" by blast
  then show ?case
  proof cases
    case 1
    with 2 show ?thesis by simp
  next
    case c: 2
    with "2.IH"(1) [OF c(1,2)] "2.prems" plan_rows_tl [OF "2.prems"(2)] show ?thesis by simp
  next
    case 3
    obtain b st1 where s: "start_item ex uf it st = (b, st1)" by fastforce
    note step = start_item_step [OF s "2.prems"(2) 3(2,3)]
    show ?thesis
    proof (cases b)
      case (Inl x)
      with "2.prems"(1) 3 s step(1,2) show ?thesis by simp
    next
      case (Inr c)
      have e: "\<not> (\<not> ei_eligible it \<or> ei_status it \<noteq> ''pending'')" using 3 by simp
      have l: "start_loop ex uf its (active + of_bool c) st1 = (r, st')" using "2.prems"(1) 3 s Inr by simp
      have n: "active + of_bool c \<le> 2" using 3(1) by (cases c) auto
      from "2.IH"(2) [OF 3(1) e s [symmetric] Inr l] step(3) [OF Inr]
      have "touches p {''preparing'', ''running'', ''failed''} st1 st'"
        "count_items active_status p (ea_items st) \<le> active \<longrightarrow>
          count_items active_status p (ea_items st') \<le> max 2 (active + of_bool c)" by auto
      with touches_trans [OF step(1)] n show ?thesis by auto
    qed
  qed
qed

lemma start_available_effect:
  assumes "start_available_items ex uf (list_items id_lt p st) st = (r, st')" "distinct (map ei_id (ea_items st))"
    "count_items active_status p (ea_items st) \<le> 2"
  shows "touches p {''preparing'', ''running'', ''failed''} st st'" "count_items active_status p (ea_items st') \<le> 2"
  using start_loop_effect [OF assms(1) [unfolded start_available_items_def list_items_count]
    list_items_rows [OF assms(2)]] assms(3) by (auto simp: max_def split: if_splits)

text \<open>Recording outcomes ends items and starts none.\<close>

lemma update_item_cases:
  assumes "update_item uf k mig s err st = (r, st')"
  shows "st' = st \<and> isl r \<or> r = Inr () \<and> wrote k (\<lambda>_ s'. s' = s) st r st'"
proof (cases "uf k s")
  case None
  with assms have "r = Inr ()" "st' = st\<lparr>ea_items := map (set_item k mig s err) (ea_items st)\<rparr>"
    by (simp_all add: update_item_def)
  then show ?thesis by (intro disjI2 conjI wroteI [where mig = mig and s = s and err = err]) simp_all
next
  case (Some e)
  with assms show ?thesis by (auto simp: update_item_def)
qed

lemma migration_outcome_in: "migration_outcome s \<noteq> ''pending'' \<Longrightarrow> migration_outcome s \<in> {''completed'', ''failed''}"
  by (auto simp: migration_outcome_def split: if_splits)

lemma record_step:
  assumes "update_item uf (ei_id it) mig s err st = (r, st')" "plan_rows p (it # its) st" "ei_eligible it"
    "s \<in> {''completed'', ''failed''}"
  shows "touches p {''completed'', ''failed''} st st'" "plan_rows p its st'"
    "count_items active_status p (ea_items st') \<le> count_items active_status p (ea_items st)"
proof -
  note cases = update_item_cases [OF assms(1)]
  show "touches p {''completed'', ''failed''} st st'"
  proof (rule disjE [OF cases])
    assume "st' = st \<and> isl r"
    then show ?thesis by simp
  next
    assume "r = Inr () \<and> wrote (ei_id it) (\<lambda>_ s'. s' = s) st r st'"
    then show ?thesis using assms(4) by (intro plan_rows_touches [OF assms(2) _ assms(3)]) (erule conjunct2, blast)
  qed
  show "plan_rows p its st'"
  proof (rule disjE [OF cases])
    assume "st' = st \<and> isl r"
    with plan_rows_tl [OF assms(2)] show ?thesis by simp
  qed (rule plan_rows_wrote [OF assms(2)], erule conjunct2)
  have "count_items active_status p (ea_items st') \<le> count_items active_status p (ea_items st)"
    if "wrote (ei_id it) (\<lambda>_ s'. s' = s) st r st'"
    using assms(4) by (rule_tac plan_rows_count [OF assms(2) that, of active_status]) auto
  with cases show "count_items active_status p (ea_items st') \<le> count_items active_status p (ea_items st)" by auto
qed

lemma reconcile_effect:
  "reconcile_items ex uf its st = (r, st') \<Longrightarrow> plan_rows p its st \<Longrightarrow>
   \<forall>i \<in> set its. active_status (ei_status i) \<longrightarrow> ei_eligible i \<Longrightarrow>
   touches p {''completed'', ''failed''} st st' \<and>
   count_items active_status p (ea_items st') \<le> count_items active_status p (ea_items st)"
proof (induction ex uf its st rule: reconcile_items.induct)
  case (1 ex uf st)
  then show ?case by simp
next
  case (2 ex uf it its st)
  note tl = plan_rows_tl [OF "2.prems"(2)]
  show ?case
  proof (cases "\<not> active_status (ei_status it) \<or> ei_migration it = []")
    case True
    with 2 tl show ?thesis by simp
  next
    case a: False
    then have el: "ei_eligible it" using "2.prems"(3) by simp
    show ?thesis
    proof (cases "ex_status ex (ei_migration it) (ea_mig st)")
      case (Inl e)
      with "2.prems"(1) a have "update_item uf (ei_id it) (ei_migration it) ''failed''
        (Some (''get migration status: '' @ e)) st = (r, st')" by simp
      from record_step [OF this "2.prems"(2) el] show ?thesis by simp
    next
      case (Inr s)
      show ?thesis
      proof (cases "migration_outcome s = ''pending''")
        case True
        with 2 tl a Inr show ?thesis by simp
      next
        case o: False
        let ?err = "if migration_outcome s = ''completed'' then None else Some (''migration ended with status '' @ s)"
        obtain b st1 where u: "update_item uf (ei_id it) (ei_migration it) (migration_outcome s) ?err st = (b, st1)"
          by fastforce
        note step = record_step [OF u "2.prems"(2) el migration_outcome_in [OF o]]
        show ?thesis
        proof (cases b)
          case (Inl x)
          with "2.prems"(1) a Inr o u step show ?thesis by simp
        next
          case ok: (Inr x)
          have l: "reconcile_items ex uf its st1 = (r, st')" using "2.prems"(1) a Inr o u ok by simp
          from "2.IH"(3) [OF a Inr o u [symmetric] ok l step(2)] "2.prems"(3)
          have "touches p {''completed'', ''failed''} st1 st'"
            "count_items active_status p (ea_items st') \<le> count_items active_status p (ea_items st1)" by auto
          with touches_trans [OF step(1)] step(3) show ?thesis by auto
        qed
      qed
    qed
  qed
qed

section \<open>The invariant\<close>

definition evac_inv :: "'m evac \<Rightarrow> bool" where
  "evac_inv st \<longleftrightarrow> distinct (map ei_id (ea_items st)) \<and> distinct (map ep_id (ea_plans st)) \<and>
     (\<forall>i \<in> set (ea_items st). ei_plan i \<in> ep_id ` set (ea_plans st) \<and> ei_status i \<in> item_statuses \<and>
        (\<not> ei_eligible i \<longrightarrow> ei_status i = ''failed'')) \<and>
     (\<forall>p. count_items active_status p (ea_items st) \<le> 2) \<and>
     (\<forall>r \<in> set (ea_plans st). ep_status r = ''completed'' \<longrightarrow>
        (\<forall>i \<in> set (ea_items st). ei_plan i = ep_id r \<longrightarrow> ei_status i = ''completed''))"

lemma evac_inv_cong: "ea_plans st' = ea_plans st \<Longrightarrow> ea_items st' = ea_items st \<Longrightarrow> evac_inv st' = evac_inv st"
  by (simp add: evac_inv_def)

lemma evac_inv_updates [simp]:
  "evac_inv (st\<lparr>ea_mig := m\<rparr>) = evac_inv st" "evac_inv (st\<lparr>ea_observers := obs\<rparr>) = evac_inv st"
  "evac_inv (st\<lparr>ea_events := ev\<rparr>) = evac_inv st"
  by (simp_all add: evac_inv_def)

lemma evac_inv_rows: "evac_inv st \<Longrightarrow> plan_rows p (list_items id_lt p st) st"
  by (intro list_items_rows) (simp add: evac_inv_def)

lemma evac_inv_ids: "evac_inv st \<Longrightarrow> distinct (map ei_id (ea_items st))"
  by (simp add: evac_inv_def)

lemma evac_inv_eligible:
  assumes "evac_inv st" "i \<in> set (ea_items st)" "active_status (ei_status i)"
  shows "ei_eligible i"
proof (rule ccontr)
  assume "\<not> ei_eligible i"
  with assms(1,2) have "ei_status i = ''failed''" unfolding evac_inv_def by blast
  with assms(3) show False by simp
qed

lemma evac_inv_active: "evac_inv st \<Longrightarrow> count_items active_status p (ea_items st) \<le> 2"
  by (simp add: evac_inv_def)

text \<open>A plan that is not completed may have its items changed.\<close>

definition open_plan :: "string \<Rightarrow> 'm evac \<Rightarrow> bool" where
  "open_plan p st \<longleftrightarrow> (\<forall>r \<in> set (ea_plans st). ep_id r = p \<longrightarrow> ep_status r \<noteq> ''completed'')"

lemma open_plan_cong: "ea_plans st' = ea_plans st \<Longrightarrow> open_plan p st' = open_plan p st"
  by (simp add: open_plan_def)

lemma get_plan_unique:
  assumes "evac_inv st" "get_plan p st = Some r" "r' \<in> set (ea_plans st)" "ep_id r' = p"
  shows "r' = r"
proof -
  have "r \<in> set (ea_plans st)" "ep_id r = p" using assms(2) by (auto simp: get_plan_def find_Some_iff)
  with assms show ?thesis by (auto simp: evac_inv_def distinct_map inj_on_def)
qed

lemma running_open: "evac_inv st \<Longrightarrow> running p st \<Longrightarrow> open_plan p st"
  unfolding running_def open_plan_def using get_plan_unique [of st p] by (fastforce split: option.splits)

lemma touches_inv:
  assumes inv: "evac_inv st" and t: "touches p S st st'" and S: "S \<subseteq> item_statuses"
    and c: "count_items active_status p (ea_items st') \<le> 2" and o: "open_plan p st"
  shows "evac_inv st'"
proof -
  have p: "ea_plans st' = ea_plans st" using t by (simp add: touches_def)
  have "count_items active_status q (ea_items st') \<le> 2" for q
    using c touches_other_count [OF t] inv by (cases "q = p") (simp_all add: evac_inv_def)
  moreover have "ei_plan i' \<in> ep_id ` set (ea_plans st') \<and> ei_status i' \<in> item_statuses \<and>
      (\<not> ei_eligible i' \<longrightarrow> ei_status i' = ''failed'')" if "i' \<in> set (ea_items st')" for i'
  proof -
    from touches_mem [OF t that] obtain i where i: "i \<in> set (ea_items st)" "item_touched p S i i'" by blast
    have "ei_plan i \<in> ep_id ` set (ea_plans st)" "ei_status i \<in> item_statuses" "\<not> ei_eligible i \<longrightarrow> ei_status i = ''failed''"
      using inv i(1) by (simp_all add: evac_inv_def)
    with i(2) S p show ?thesis unfolding item_touched_def by auto
  qed
  moreover have "ei_status i' = ''completed''"
    if r: "r \<in> set (ea_plans st')" "ep_status r = ''completed''" and i': "i' \<in> set (ea_items st')" "ei_plan i' = ep_id r" for r i'
  proof -
    from touches_mem [OF t i'(1)] obtain i where i: "i \<in> set (ea_items st)" "item_touched p S i i'" by blast
    have "ep_id r \<noteq> p" using r o p by (auto simp: open_plan_def)
    with i(2) i'(2) have "i' = i" by (auto simp: item_touched_def)
    with i r i' inv p show ?thesis by (simp add: evac_inv_def)
  qed
  ultimately show ?thesis
    using inv unfolding evac_inv_def touches_ids [OF t] p by blast
qed

lemma ids_set_plan_status [simp]:
  "map ep_id (ea_plans (set_plan_status p s st)) = map ep_id (ea_plans st)"
  "ea_items (set_plan_status p s st) = ea_items st"
  by (simp_all add: set_plan_status_def comp_def if_distrib cong: if_cong)

lemma plan_ids_set_plan_status [simp]:
  "ep_id ` set (ea_plans (set_plan_status p s st)) = ep_id ` set (ea_plans st)"
  by (metis ids_set_plan_status(1) list.set_map)

lemma set_plan_status_row:
  assumes "r \<in> set (ea_plans (set_plan_status p s st))"
  obtains r0 where "r0 \<in> set (ea_plans st)" "ep_id r0 = ep_id r" "ep_status r = (if ep_id r = p then s else ep_status r0)"
proof -
  have "ea_plans (set_plan_status p s st) = map (\<lambda>r. if ep_id r = p then r\<lparr>ep_status := s\<rparr> else r) (ea_plans st)"
    by (simp add: set_plan_status_def)
  with assms have "r \<in> (\<lambda>r. if ep_id r = p then r\<lparr>ep_status := s\<rparr> else r) ` set (ea_plans st)"
    by (simp only: list.set_map)
  then obtain r0 where r0: "r = (if ep_id r0 = p then r0\<lparr>ep_status := s\<rparr> else r0)" "r0 \<in> set (ea_plans st)" by (rule imageE)
  show ?thesis by (rule that [OF r0(2)]) (simp_all add: r0(1))
qed

lemma set_plan_status_inv:
  assumes inv: "evac_inv st"
    and fin: "s = ''completed'' \<Longrightarrow> \<forall>i \<in> set (ea_items st). ei_plan i = p \<longrightarrow> ei_status i = ''completed''"
  shows "evac_inv (set_plan_status p s st)"
proof -
  have "\<forall>i \<in> set (ea_items st). ei_plan i = ep_id r \<longrightarrow> ei_status i = ''completed''"
    if r: "r \<in> set (ea_plans (set_plan_status p s st))" "ep_status r = ''completed''" for r
  proof -
    obtain r0 where r0: "r0 \<in> set (ea_plans st)" "ep_id r0 = ep_id r" "ep_status r = (if ep_id r = p then s else ep_status r0)"
      using r(1) by (rule set_plan_status_row)
    show ?thesis
    proof (cases "ep_id r = p")
      case True
      with r0(3) r(2) fin show ?thesis by simp
    next
      case False
      with r0(3) r(2) have "ep_status r0 = ''completed''" by simp
      with inv r0(1,2) show ?thesis unfolding evac_inv_def by metis
    qed
  qed
  with inv show ?thesis by (simp add: evac_inv_def)
qed

lemma set_plan_other_inv [simp]: "evac_inv st \<Longrightarrow> s \<noteq> ''completed'' \<Longrightarrow> evac_inv (set_plan_status p s st)"
  by (rule set_plan_status_inv) simp_all

lemma start_available_inv:
  assumes "evac_inv st" "open_plan p st" "start_available_items ex uf (list_items id_lt p st) st = (r, st')"
  shows "evac_inv st'"
proof -
  note e = start_available_effect [OF assms(3) evac_inv_ids [OF assms(1)] evac_inv_active [OF assms(1)]]
  show ?thesis by (rule touches_inv [OF assms(1) e(1) _ e(2) assms(2)]) (simp add: item_statuses_def)
qed

lemma fail_plan_inv: "evac_inv st \<Longrightarrow> evac_inv (fail_plan pf p st)"
  by (cases pf) (simp_all add: fail_plan_def Let_def)

text \<open>With neither an open nor a failed item, all items of the plan are completed.\<close>

lemma finished_completed:
  assumes "evac_inv st" "plan_finished (list_items id_lt p st)"
    "\<not> (\<exists>i \<in> set (list_items id_lt p st). ei_status i = ''failed'')"
    "i \<in> set (ea_items st)" "ei_plan i = p"
  shows "ei_status i = ''completed''"
proof -
  have "i \<in> set (list_items id_lt p st)" using assms(4,5) by (simp add: list_items_def)
  then have "ei_status i \<notin> {''pending'', ''preparing'', ''running''}" "ei_status i \<noteq> ''failed''"
    using assms(2,3) by (auto simp: plan_finished_def)
  moreover have "ei_status i \<in> item_statuses" using assms(1,4) by (simp add: evac_inv_def)
  ultimately show ?thesis by (auto simp: item_statuses_def)
qed

lemma complete_plan_inv:
  assumes "evac_inv st" "plan_finished (list_items id_lt p st)"
  shows "evac_inv (complete_plan pf p (list_items id_lt p st) st)"
proof (cases "\<exists>i \<in> set (list_items id_lt p st). ei_status i = ''failed''")
  case True
  then show ?thesis by (cases pf) (simp_all only: complete_plan_def Let_def if_True option.case evac_inv_updates,
        simp_all add: assms(1))
next
  case False
  have "evac_inv (set_plan_status p ''completed'' st)"
    using finished_completed [OF assms False] by (intro set_plan_status_inv [OF assms(1)]) blast
  with False show ?thesis by (cases pf) (simp_all only: complete_plan_def Let_def if_False option.case evac_inv_updates,
        simp_all add: assms(1))
qed

lemma reconcile_inv:
  assumes inv: "evac_inv st" and o: "open_plan p st" and r: "reconcile_items ex uf (list_items id_lt p st) st = (r, st')"
  shows "evac_inv st'" "open_plan p st'"
proof -
  have "\<forall>i \<in> set (list_items id_lt p st). active_status (ei_status i) \<longrightarrow> ei_eligible i"
    using evac_inv_eligible [OF inv] by (simp add: list_items_def)
  note e = reconcile_effect [OF r evac_inv_rows [OF inv] this]
  show "evac_inv st'"
    by (rule touches_inv [OF inv conjunct1 [OF e] _ order_trans [OF conjunct2 [OF e] evac_inv_active [OF inv]] o])
      (simp add: item_statuses_def)
  show "open_plan p st'" using e o by (simp add: open_plan_def touches_def)
qed

lemma observe_round_inv:
  assumes "evac_inv st"
  shows "evac_inv (snd (observe_round id_lt ex uf rf1 rf2 pf p st))"
proof (cases "rf1 \<or> \<not> running p st")
  case True
  with assms show ?thesis by (simp add: observe_round_def)
next
  case False
  then have o: "open_plan p st" using running_open [OF assms] by simp
  obtain r st1 where r: "reconcile_items ex uf (list_items id_lt p st) st = (r, st1)" by fastforce
  note i1 = reconcile_inv [OF assms o r]
  obtain q st2 where q: "start_available_items ex uf (list_items id_lt p st1) st1 = (q, st2)" by fastforce
  note i2 = start_available_inv [OF i1 q]
  have "evac_inv (snd (case q of Inl _ \<Rightarrow> (False, fail_plan pf p st2) | Inr _ \<Rightarrow> (True, st2)))"
    using i2 by (simp add: fail_plan_inv split: sum.split)
  moreover have "evac_inv (complete_plan pf p (list_items id_lt p st1) st1)" if "plan_finished (list_items id_lt p st1)"
    using complete_plan_inv [OF i1(1) that] .
  ultimately show ?thesis
    unfolding observe_round_def if_not_P [OF False] r prod.case q Let_def
    using i1(1) by (cases r) (simp_all add: fail_plan_inv)
qed

lemma observe_step_inv: "evac_inv st \<Longrightarrow> evac_inv (observe_step id_lt ex uf rf1 rf2 pf p st)"
  using observe_round_inv [of st id_lt ex uf rf1 rf2 pf p] by (auto simp: observe_step_def split: prod.split)

lemma start_plan_inv:
  assumes "evac_inv st" "start_plan_row sf gf p st = (r, st')"
  shows "evac_inv st'" "r = Inr True \<Longrightarrow> open_plan p st'"
proof -
  have o: "open_plan p (set_plan_status p ''running'' st)"
    unfolding open_plan_def by (intro ballI impI, erule set_plan_status_row) simp
  have "st' = st \<and> r \<noteq> Inr True \<or> st' = set_plan_status p ''running'' st"
  proof (cases sf)
    case None
    show ?thesis
    proof (cases "get_plan p st")
      case None
      with \<open>sf = None\<close> assms(2) show ?thesis by (auto simp: start_plan_row_def)
    next
      case (Some x)
      with \<open>sf = None\<close> assms(2) show ?thesis
        by (cases "ep_status x = ''pending''"; cases gf) (auto simp: start_plan_row_def Let_def)
    qed
  next
    case (Some e)
    with assms(2) show ?thesis by (auto simp: start_plan_row_def)
  qed
  then show "evac_inv st'" "r = Inr True \<Longrightarrow> open_plan p st'"
    using assms(1) o by (elim disjE; simp)+
qed

lemma execute_plan_inv:
  assumes "evac_inv st"
  shows "evac_inv (snd (execute_plan id_lt ex uf sf gf pf p st))"
proof -
  obtain r st1 where r: "start_plan_row sf gf p st = (r, st1)" by fastforce
  note i1 = start_plan_inv [OF assms r]
  obtain q st2 where q: "start_available_items ex uf (list_items id_lt p st1) st1 = (q, st2)" by fastforce
  show ?thesis
  proof (cases "r = Inr True")
    case True
    note i2 = start_available_inv [OF i1(1) i1(2) [OF True] q]
    then show ?thesis unfolding execute_plan_def r using True q
      by (auto simp: fail_plan_inv start_observer_def split: sum.split)
  next
    case False
    then show ?thesis unfolding execute_plan_def r using i1(1) by (auto split: sum.split)
  qed
qed

lemma cancel_items_mig: "\<exists>m. snd (cancel_items ex its st) = st\<lparr>ea_mig := m\<rparr>"
proof (induction ex its st rule: cancel_items.induct)
  case (1 ex st)
  show ?case by (rule exI [of _ "ea_mig st"]) simp
next
  case (2 ex it its st)
  show ?case
  proof (cases "active_status (ei_status it) \<and> ei_migration it \<noteq> []")
    case True
    obtain r m where r: "ex_cancel ex (ei_migration it) (ea_mig st) = (r, m)" by fastforce
    show ?thesis
    proof (cases r)
      case (Inl e)
      with True r show ?thesis by auto
    next
      case (Inr u)
      with "2.IH"(1) [OF True r [symmetric] Inr] True r show ?thesis by simp
    qed
  next
    case False
    with "2.IH"(2) [OF False] show ?thesis by (simp only: cancel_items.simps if_False)
  qed
qed

lemma cancel_plan_inv:
  assumes "evac_inv st"
  shows "evac_inv (snd (cancel_plan id_lt ex fault p st))"
proof -
  obtain r st1 where r: "cancel_items ex (list_items id_lt p st) st = (r, st1)" by fastforce
  then obtain m where "st1 = st\<lparr>ea_mig := m\<rparr>" using cancel_items_mig [of ex "list_items id_lt p st" st] by auto
  then have "evac_inv st1" using assms by simp
  then have "evac_inv (snd (cancel_plan_row fault p st1))"
    by (simp add: cancel_plan_row_def split: option.split)
  with \<open>evac_inv st1\<close> assms r show ?thesis by (auto simp: cancel_plan_def split: option.split sum.split)
qed

lemma resume_tables:
  "ea_plans (fold start_observer ps st) = ea_plans st" "ea_items (fold start_observer ps st) = ea_items st"
  by (induction ps arbitrary: st) (simp_all add: start_observer_def)

lemma resume_inv: "evac_inv st \<Longrightarrow> evac_inv (resume_running_plans nr st)"
  by (simp add: resume_running_plans_def evac_inv_cong [OF resume_tables])

text \<open>New items belong to a new plan and are not active.\<close>

lemma new_item_fields:
  "ei_plan (new_item txt p ix) = p" "ei_id (new_item txt p ix) = fst ix"
  "ei_status (new_item txt p ix) = ''pending'' \<and> ei_eligible (new_item txt p ix) \<or>
   ei_status (new_item txt p ix) = ''failed'' \<and> \<not> ei_eligible (new_item txt p ix)"
  by (simp_all add: new_item_def initial_status_def split: prod.split)

lemma new_items_idle: "count_items active_status q (map (new_item txt p) xs) = 0"
proof (induction xs)
  case (Cons x xs)
  have "\<not> active_status (ei_status (new_item txt p x))" using new_item_fields(3) [where p = p and ix = x]
    by (metis active_simps(3,4))
  with Cons show ?case by simp
qed simp

lemma count_items_append [simp]: "count_items P p (xs @ ys) = count_items P p xs + count_items P p ys"
  by (simp add: count_items_def)

lemma create_plan_inv:
  assumes inv: "evac_inv st"
  shows "evac_inv (snd (create_plan_rows txt fault p ks n (plan_status items) items st))"
proof -
  define rows where "rows = map (new_item txt p) (zip ks items)"
  show ?thesis
  proof (cases "fault \<noteq> None \<or> p \<in> ep_id ` set (ea_plans st) \<or> \<not> distinct (map ei_id (ea_items st @ rows))")
    case True
    with inv show ?thesis by (cases fault) (auto simp: create_plan_rows_def Let_def rows_def)
  next
    case False
    let ?st = "st\<lparr>ea_plans := ea_plans st @ [\<lparr>ep_id = p, ep_node = n, ep_status = plan_status items\<rparr>],
      ea_items := ea_items st @ rows\<rparr>"
    have n: "i \<in> set rows \<Longrightarrow> ei_plan i = p \<and> ei_status i \<in> item_statuses \<and> (\<not> ei_eligible i \<longrightarrow> ei_status i = ''failed'')" for i
      using new_item_fields(1,3) by (fastforce simp: rows_def item_statuses_def)
    have "plan_status items \<noteq> ''completed''" by (simp add: plan_status_def)
    moreover have "ei_plan i \<noteq> p" if "i \<in> set (ea_items st)" for i
      using False inv that unfolding evac_inv_def by metis
    moreover have "count_items active_status q (ea_items ?st) \<le> 2" for q
      using evac_inv_active [OF inv, of q] by (simp add: rows_def new_items_idle)
    ultimately have "evac_inv ?st"
      using inv False n unfolding evac_inv_def by (intro conjI ballI allI) (auto split: if_splits)
    moreover have "snd (create_plan_rows txt fault p ks n (plan_status items) items st) = ?st"
      using False unfolding create_plan_rows_def Let_def rows_def [symmetric] by (cases fault) simp_all
    ultimately show ?thesis by (simp only:)
  qed
qed

lemma evac_reachable_inv: "evac_reachable id_lt ex st \<Longrightarrow> evac_inv st"
proof (induction rule: evac_reachable.induct)
  case (reach_empty st)
  then show ?case by (simp add: evac_inv_def count_items_def)
next
  case (reach_more st st')
  from reach_more(2) show ?case
    by cases (simp_all only: create_plan_inv execute_plan_inv cancel_plan_inv observe_step_inv resume_inv
        evac_inv_updates reach_more.IH)
qed

section \<open>What every execution keeps\<close>

text \<open>Whatever the handlers, the observers, the table and the migration service do, in any order,
  at most two items of a plan are in progress at a time, and a plan is completed only when every one of
  its items is.\<close>

theorem evacuation_run_inv:
  assumes "evac_reachable id_lt ex st"
  shows "length (filter (\<lambda>i. active_status (ei_status i)) (list_items id_lt p st)) \<le> 2 \<and>
    (\<forall>r \<in> set (ea_plans st). ep_status r = ''completed'' \<longrightarrow>
       (\<forall>i \<in> set (list_items id_lt (ep_id r) st). ei_status i = ''completed''))"
  using evac_reachable_inv [OF assms] unfolding list_items_count
  by (simp add: evac_inv_def) (simp add: list_items_def)

section \<open>The observer ends\<close>

text \<open>An active item whose row has no migration would never be settled. The rows have one when the
  migration service gives its migrations non-empty identifiers.\<close>

definition tracked :: "'m evac \<Rightarrow> bool" where
  "tracked st \<longleftrightarrow> (\<forall>i \<in> set (ea_items st). active_status (ei_status i) \<longrightarrow> ei_migration i \<noteq> [])"

definition names_migrations :: "'m executor \<Rightarrow> bool" where
  "names_migrations ex \<longleftrightarrow> (\<forall>s a b m k m'. ex_create ex s a b m = (Inr k, m') \<longrightarrow> k \<noteq> [])"

lemma tracked_mig [simp]: "tracked (st\<lparr>ea_mig := m\<rparr>) = tracked st"
  by (simp add: tracked_def)

lemma tracked_set_item [simp]:
  assumes "tracked st" "active_status s \<longrightarrow> mig \<noteq> []"
  shows "tracked (st\<lparr>ea_items := map (set_item k mig s err) (ea_items st)\<rparr>)"
proof -
  have "active_status (ei_status (set_item k mig s err i)) \<longrightarrow> ei_migration (set_item k mig s err i) \<noteq> []"
    if "i \<in> set (ea_items st)" for i
    using assms that by (simp add: set_item_def tracked_def)
  then show ?thesis by (simp add: tracked_def)
qed

lemma tracked_set_item_mig [simp]:
  "tracked (st\<lparr>ea_mig := m, ea_items := is\<rparr>) = tracked (st\<lparr>ea_items := is\<rparr>)"
  "tracked (st\<lparr>ea_items := is, ea_mig := m\<rparr>) = tracked (st\<lparr>ea_items := is\<rparr>)"
  by (simp_all add: tracked_def)

lemma tracked_update:
  "tracked st \<Longrightarrow> active_status s \<longrightarrow> mig \<noteq> [] \<Longrightarrow> update_item uf k mig s err st = (r, st') \<Longrightarrow> tracked st'"
  by (cases "uf k s") (auto simp: update_item_def)

lemma tracked_failed:
  assumes "tracked st" "item_failed uf k mig msg st = (r, st')"
  shows "tracked st'"
proof -
  obtain b st1 where u: "update_item uf k mig ''failed'' (Some msg) st = (b, st1)" by fastforce
  have "tracked st1" by (rule tracked_update [OF assms(1) _ u]) simp
  moreover have "st' = st1" using assms(2) u by (cases b) (simp_all add: item_failed_def)
  ultimately show ?thesis by simp
qed

lemma tracked_launch:
  assumes "tracked st" "mig \<noteq> []" "launch_item ex uf it mig st = (r, st')"
  shows "tracked st'"
proof -
  obtain a m where a: "ex_prepare ex mig (ea_mig st) = (a, m)" by fastforce
  obtain b m2 where b: "ex_execute ex mig m = (b, m2)" by fastforce
  have t: "tracked (st\<lparr>ea_mig := m'\<rparr>)" for m' using assms(1) by simp
  consider e where "a = Inl e" | e where "a = Inr ()" "b = Inl e" | "a = Inr ()" "b = Inr ()"
    by (cases a; cases b) auto
  then show ?thesis
  proof cases
    case 1
    with assms(3) a have "item_failed uf (ei_id it) mig (''prepare migration: '' @ e) (st\<lparr>ea_mig := m\<rparr>) = (r, st')"
      by (simp add: launch_item_def)
    with t show ?thesis by (rule tracked_failed)
  next
    case 2
    with assms(3) a b have "item_failed uf (ei_id it) mig (''execute migration: '' @ e) (st\<lparr>ea_mig := m2\<rparr>) = (r, st')"
      by (simp add: launch_item_def)
    with t show ?thesis by (rule tracked_failed)
  next
    case 3
    obtain c st1 where u: "update_item uf (ei_id it) mig ''running'' None (st\<lparr>ea_mig := m2\<rparr>) = (c, st1)" by fastforce
    have "tracked st1" by (rule tracked_update [OF t _ u]) (use assms(2) in simp)
    moreover have "st' = st1" using assms(3) a b 3 u by (cases c) (simp_all add: launch_item_def)
    ultimately show ?thesis by simp
  qed
qed

lemma tracked_start:
  assumes "tracked st" "names_migrations ex" "start_item ex uf it st = (r, st')"
  shows "tracked st'"
proof (cases "ei_target it = []")
  case True
  with assms(3) have "item_failed uf (ei_id it) [] ''eligible evacuation item has no target node'' st = (r, st')"
    by (simp add: start_item_def)
  with assms(1) show ?thesis by (rule tracked_failed)
next
  case False
  obtain a m where a: "ex_create ex (ei_server it) (ei_source it) (ei_target it) (ea_mig st) = (a, m)" by fastforce
  have t: "tracked (st\<lparr>ea_mig := m\<rparr>)" using assms(1) by simp
  show ?thesis
  proof (cases a)
    case (Inl e)
    with assms(3) a False have "item_failed uf (ei_id it) [] (''create migration: '' @ e) (st\<lparr>ea_mig := m\<rparr>) = (r, st')"
      by (simp add: start_item_def)
    with t show ?thesis by (rule tracked_failed)
  next
    case (Inr mig)
    with assms(2) a have n: "mig \<noteq> []" unfolding names_migrations_def by blast
    obtain b st1 where u: "update_item uf (ei_id it) mig ''preparing'' None (st\<lparr>ea_mig := m\<rparr>) = (b, st1)" by fastforce
    have t1: "tracked st1" by (rule tracked_update [OF t _ u]) (use n in simp)
    show ?thesis
    proof (cases b)
      case (Inl e)
      with assms(3) a \<open>a = Inr mig\<close> False u t1 show ?thesis by (simp add: start_item_def)
    next
      case (Inr x)
      with assms(3) a \<open>a = Inr mig\<close> False u have "launch_item ex uf it mig st1 = (r, st')" by (simp add: start_item_def)
      with t1 n show ?thesis by (rule tracked_launch)
    qed
  qed
qed

lemma tracked_loop: "tracked st \<Longrightarrow> names_migrations ex \<Longrightarrow> tracked (snd (start_loop ex uf its active st))"
proof (induction its arbitrary: active st)
  case (Cons it its)
  obtain r st1 where r: "start_item ex uf it st = (r, st1)" by fastforce
  from tracked_start [OF Cons.prems r] Cons r show ?case by (cases r) simp_all
qed simp

lemma tracked_reconcile: "tracked st \<Longrightarrow> tracked (snd (reconcile_items ex uf its st))"
proof (induction its arbitrary: st)
  case (Cons it its)
  have o: "\<not> active_status (migration_outcome s)" if "migration_outcome s \<noteq> ''pending''" for s
    using migration_outcome_in [OF that] by auto
  have u: "tracked (snd (update_item uf (ei_id it) (ei_migration it) s err st))" if "\<not> active_status s" for s err
    using tracked_update [OF Cons.prems, of s "ei_migration it" uf "ei_id it" err] that by (metis surjective_pairing)
  show ?case
  proof (cases "ex_status ex (ei_migration it) (ea_mig st)")
    case (Inl e)
    with Cons u [of "''failed''"] show ?thesis by simp
  next
    case (Inr s)
    let ?err = "if migration_outcome s = ''completed'' then None else Some (''migration ended with status '' @ s)"
    obtain b st1 where b: "update_item uf (ei_id it) (ei_migration it) (migration_outcome s) ?err st = (b, st1)" by fastforce
    with u [OF o, of s ?err] Cons Inr show ?thesis by (cases b) auto
  qed
qed simp

lemma tracked_cong: "ea_items st' = ea_items st \<Longrightarrow> tracked st' = tracked st"
  by (simp add: tracked_def)

lemma plan_updates_items [simp]:
  "ea_items (fail_plan pf p st) = ea_items st" "ea_items (complete_plan pf p items st) = ea_items st"
  "ea_items (start_observer p st) = ea_items st" "ea_items (snd (cancel_plan_row fault p st)) = ea_items st"
  "ea_items (snd (start_plan_row sf gf p st)) = ea_items st"
  by (simp_all add: fail_plan_def complete_plan_def start_observer_def cancel_plan_row_def start_plan_row_def Let_def
      split: option.split)

lemma tracked_plan_updates [simp]:
  "tracked (fail_plan pf p st) = tracked st" "tracked (complete_plan pf p items st) = tracked st"
  "tracked (start_observer p st) = tracked st" "tracked (snd (cancel_plan_row fault p st)) = tracked st"
  "tracked (st\<lparr>ea_observers := obs\<rparr>) = tracked st"
  by (simp_all add: tracked_def)

lemma tracked_round:
  assumes "tracked st" "names_migrations ex"
  shows "tracked (snd (observe_round id_lt ex uf rf1 rf2 pf p st))"
proof -
  obtain r st1 where r: "reconcile_items ex uf (list_items id_lt p st) st = (r, st1)" by fastforce
  have t1: "tracked st1" using tracked_reconcile [OF assms(1), of ex uf "list_items id_lt p st"] r by simp
  obtain q st2 where q: "start_available_items ex uf (list_items id_lt p st1) st1 = (q, st2)" by fastforce
  have "tracked st2" using tracked_loop [OF t1 assms(2)] q unfolding start_available_items_def by (metis snd_conv)
  with t1 assms(1) r q show ?thesis by (cases r; cases q) (simp_all add: observe_round_def Let_def)
qed

lemma tracked_execute:
  assumes "tracked st" "names_migrations ex"
  shows "tracked (snd (execute_plan id_lt ex uf sf gf pf p st))"
proof -
  obtain r st1 where r: "start_plan_row sf gf p st = (r, st1)" by fastforce
  have t1: "tracked st1" using assms(1) plan_updates_items(5) [of sf gf p st] r by (simp add: tracked_def)
  obtain q st2 where q: "start_available_items ex uf (list_items id_lt p st1) st1 = (q, st2)" by fastforce
  have "tracked st2" using tracked_loop [OF t1 assms(2)] q unfolding start_available_items_def by (metis snd_conv)
  with t1 r q show ?thesis by (cases r; cases q) (simp_all add: execute_plan_def)
qed

lemma tracked_cancel:
  assumes "tracked st"
  shows "tracked (snd (cancel_plan id_lt ex fault p st))"
proof -
  obtain r st1 where r: "cancel_items ex (list_items id_lt p st) st = (r, st1)" by fastforce
  then obtain m where "st1 = st\<lparr>ea_mig := m\<rparr>" using cancel_items_mig [of ex "list_items id_lt p st" st] by auto
  with assms r show ?thesis by (cases r) (simp_all add: cancel_plan_def split: option.split)
qed

lemma tracked_create:
  assumes "tracked st"
  shows "tracked (snd (create_plan_rows txt fault p ks n status items st))"
proof -
  have "\<not> active_status (ei_status (new_item txt p ix))" for ix
    using new_item_fields(3) [where p = p and ix = ix] by (metis active_simps(3,4))
  then have "tracked (st\<lparr>ea_plans := ps, ea_items := ea_items st @ map (new_item txt p) (zip ks items)\<rparr>)" for ps
    using assms by (auto simp: tracked_def)
  with assms show ?thesis by (simp add: create_plan_rows_def Let_def split: option.split)
qed

lemma evac_reachable_tracked: "evac_reachable id_lt ex st \<Longrightarrow> names_migrations ex \<Longrightarrow> tracked st"
proof (induction rule: evac_reachable.induct)
  case (reach_empty st)
  then show ?case by (simp add: tracked_def)
next
  case (reach_more st st')
  note t = reach_more.IH [OF reach_more.prems]
  from reach_more(2) show ?case
  proof cases
    case (step_observe uf rf1 rf2 pf p)
    with tracked_round [OF t reach_more.prems] t show ?thesis
      by (simp add: observe_step_def split: prod.split) (metis snd_conv)
  next
    case (step_resume nr)
    with t show ?thesis by (simp add: tracked_def resume_running_plans_def resume_tables)
  qed (simp_all add: t tracked_create tracked_execute tracked_cancel reach_more.prems)
qed

text \<open>The weight of a plan: two for an item that waits, one for an item in progress.\<close>

definition weight :: "string \<Rightarrow> 'm evac \<Rightarrow> nat" where
  "weight p st = 2 * count_items (\<lambda>s. s = ''pending'') p (ea_items st) + count_items active_status p (ea_items st)"

lemma weight_mig [simp]: "weight p (st\<lparr>ea_mig := m\<rparr>) = weight p st"
  by (simp add: weight_def)

lemma weight_wrote:
  assumes rows: "plan_rows p (it # its) st" and w: "wrote (ei_id it) R st r st'"
    and s: "\<And>s. R r s \<Longrightarrow> s \<noteq> ''pending'' \<and> (active_status s \<longrightarrow> ei_status it = ''pending'')"
    and old: "ei_status it = ''pending'' \<or> active_status (ei_status it)"
  shows "weight p st' < weight p st"
proof -
  from w obtain mig s err where e: "R r s" "ea_items st' = map (set_item (ei_id it) mig s err) (ea_items st)"
    by (auto simp: wrote_def)
  have c: "count_items P p (ea_items st') + of_bool (P (ei_status it)) = count_items P p (ea_items st) + of_bool (P s)" for P
    unfolding e(2) using rows by (intro count_set_item) (simp_all add: plan_rows_def)
  from c [of "\<lambda>s. s = ''pending''"] c [of active_status] s [OF e(1)] old show ?thesis
    by (cases "ei_status it = ''pending''"; cases "active_status s") (simp_all add: weight_def)
qed

lemma start_item_weight:
  assumes "start_item ex no_faults it st = (r, st')" "plan_rows p (it # its) st" "ei_status it = ''pending''"
  shows "weight p st' < weight p st" "plan_rows p its st'" "\<not> isl r"
proof -
  show n: "\<not> isl r" using start_item_no_fault [of ex it st] assms(1) by simp
  then have w: "wrote (ei_id it) start_result st r st'" using start_item_effect [OF assms(1)] by auto
  show "weight p st' < weight p st"
    by (rule weight_wrote [OF assms(2) w]) (use assms(3) start_result_in in \<open>auto\<close>)
  show "plan_rows p its st'" by (rule plan_rows_wrote [OF assms(2) w])
qed

lemma start_loop_weight:
  "start_loop ex no_faults its active st = (r, st') \<Longrightarrow> plan_rows p its st \<Longrightarrow>
   \<not> isl r \<and> weight p st' \<le> weight p st \<and>
   (active < 2 \<and> (\<exists>i \<in> set its. ei_eligible i \<and> ei_status i = ''pending'') \<longrightarrow> weight p st' < weight p st)"
proof (induction its arbitrary: active st)
  case Nil
  then show ?case by auto
next
  case (Cons it its)
  note tl = plan_rows_tl [OF Cons.prems(2)]
  obtain b st1 where s: "start_item ex no_faults it st = (b, st1)" by fastforce
  consider "2 \<le> active" | "\<not> 2 \<le> active" "\<not> (ei_eligible it \<and> ei_status it = ''pending'')"
    | "\<not> 2 \<le> active" "ei_eligible it" "ei_status it = ''pending''" by blast
  then show ?case
  proof cases
    case 1
    with Cons.prems show ?thesis by auto
  next
    case 2
    with Cons.prems(1) have "start_loop ex no_faults its active st = (r, st')" by auto
    from Cons.IH [OF this tl] 2 show ?thesis by auto
  next
    case 3
    note w = start_item_weight [OF s Cons.prems(2) 3(3)]
    from w(3) obtain c where c: "b = Inr c" by (cases b) auto
    have "start_loop ex no_faults its (active + of_bool c) st1 = (r, st')"
      using Cons.prems(1) 3 s c by simp
    from Cons.IH [OF this w(2)] w(1) show ?thesis by auto
  qed
qed

text \<open>When every migration asked for has ended, or cannot be read, a round of recording settles an
  item in progress, if there is one.\<close>

definition ended :: "'m executor \<Rightarrow> 'm \<Rightarrow> bool" where
  "ended ex m \<longleftrightarrow> (\<forall>k s. ex_status ex k m = Inr s \<longrightarrow> migration_outcome s \<noteq> ''pending'')"

lemma record_weight:
  assumes "update_item no_faults (ei_id it) mig s err st = (r, st')" "plan_rows p (it # its) st"
    "active_status (ei_status it)" "s \<in> {''completed'', ''failed''}"
  shows "weight p st' < weight p st" "plan_rows p its st'" "\<not> isl r" "ea_mig st' = ea_mig st"
proof -
  show n: "\<not> isl r" "ea_mig st' = ea_mig st" using assms(1) by auto
  then have w: "wrote (ei_id it) (\<lambda>_ s'. s' = s) st r st'" using update_item_cases [OF assms(1)] by blast
  show "weight p st' < weight p st"
    by (rule weight_wrote [OF assms(2) w]) (use assms(3,4) in auto)
  show "plan_rows p its st'" by (rule plan_rows_wrote [OF assms(2) w])
qed

lemma reconcile_weight:
  "reconcile_items ex no_faults its st = (r, st') \<Longrightarrow> plan_rows p its st \<Longrightarrow> ended ex (ea_mig st) \<Longrightarrow>
   \<not> isl r \<and> weight p st' \<le> weight p st \<and>
   ((\<exists>i \<in> set its. active_status (ei_status i) \<and> ei_migration i \<noteq> []) \<longrightarrow> weight p st' < weight p st)"
proof (induction its arbitrary: st)
  case Nil
  then show ?case by auto
next
  case (Cons it its)
  note tl = plan_rows_tl [OF Cons.prems(2)]
  show ?case
  proof (cases "active_status (ei_status it) \<and> ei_migration it \<noteq> []")
    case False
    then have "reconcile_items ex no_faults its st = (r, st')" using Cons.prems(1) by auto
    from Cons.IH [OF this tl Cons.prems(3)] False show ?thesis by auto
  next
    case True
    show ?thesis
    proof (cases "ex_status ex (ei_migration it) (ea_mig st)")
      case (Inl e)
      with Cons.prems(1) True have "update_item no_faults (ei_id it) (ei_migration it) ''failed''
        (Some (''get migration status: '' @ e)) st = (r, st')" by auto
      from record_weight [OF this Cons.prems(2)] True show ?thesis by auto
    next
      case (Inr s)
      let ?err = "if migration_outcome s = ''completed'' then None else Some (''migration ended with status '' @ s)"
      have o: "migration_outcome s \<noteq> ''pending''" using Cons.prems(3) Inr unfolding ended_def by blast
      obtain b st1 where u: "update_item no_faults (ei_id it) (ei_migration it) (migration_outcome s) ?err st = (b, st1)"
        by fastforce
      note w = record_weight [OF u Cons.prems(2) conjunct1 [OF True] migration_outcome_in [OF o]]
      have "reconcile_items ex no_faults its st1 = (r, st')" using Cons.prems(1) True Inr o u by auto
      from Cons.IH [OF this w(2)] w Cons.prems(3) show ?thesis by auto
    qed
  qed
qed

section \<open>Rounds of the observer\<close>

lemma get_set_plan: "get_plan p (set_plan_status p s st) = map_option (\<lambda>r. r\<lparr>ep_status := s\<rparr>) (get_plan p st)"
proof -
  have "find (\<lambda>r. ep_id r = p) (map (\<lambda>r. if ep_id r = p then r\<lparr>ep_status := s\<rparr> else r) rs)
      = map_option (\<lambda>r. r\<lparr>ep_status := s\<rparr>) (find (\<lambda>r. ep_id r = p) rs)" for rs
    by (induction rs) simp_all
  then show ?thesis by (simp add: get_plan_def set_plan_status_def)
qed

definition closed :: "string \<Rightarrow> 'm evac \<Rightarrow> bool" where
  "closed p st \<longleftrightarrow> (\<exists>r. get_plan p st = Some r \<and> ep_status r \<in> {''completed'', ''failed''})"

lemma closed_cong: "ea_plans st' = ea_plans st \<Longrightarrow> closed p st' = closed p st"
  by (simp add: closed_def get_plan_def)

lemma running_cong: "ea_plans st' = ea_plans st \<Longrightarrow> running p st' = running p st"
  by (simp add: running_def get_plan_def)

lemma complete_plan_closed: "running p st \<Longrightarrow> closed p (complete_plan None p items st)"
  unfolding closed_def running_def
  by (cases "get_plan p st"; cases "\<exists>i \<in> set items. ei_status i = ''failed''")
    (simp_all add: complete_plan_def Let_def get_set_plan [unfolded get_plan_def] get_plan_def)

lemma open_item_waits:
  assumes inv: "evac_inv st" and unfin: "\<not> plan_finished (list_items id_lt p st)"
    and idle: "count_items active_status p (ea_items st) = 0"
  shows "\<exists>i \<in> set (list_items id_lt p st). ei_eligible i \<and> ei_status i = ''pending''"
proof -
  from unfin obtain i where i: "i \<in> set (list_items id_lt p st)" "ei_status i \<in> {''pending'', ''preparing'', ''running''}"
    unfolding plan_finished_def by blast
  have "\<not> active_status (ei_status i)"
    using idle [folded list_items_count [of _ id_lt]] i(1) by (simp add: filter_empty_conv)
  with i(2) have s: "ei_status i = ''pending''" by (auto simp: active_status_def)
  have "i \<in> set (ea_items st)" using i(1) by (simp add: list_items_def)
  with inv s have "ei_eligible i" unfolding evac_inv_def by fastforce
  with i(1) s show ?thesis by blast
qed

lemma observe_progress:
  assumes inv: "evac_inv st" and run: "running p st" and tr: "tracked st" and ex: "names_migrations ex" "ended ex (ea_mig st)"
    and round: "observe_round id_lt ex no_faults False False None p st = (goon, st')"
  shows "if goon then running p st' \<and> weight p st' < weight p st \<and> tracked st' \<and> ea_observers st' = ea_observers st
    else closed p st'"
proof -
  note op = running_open [OF inv run] and rows = evac_inv_rows [OF inv]
  obtain r st1 where r: "reconcile_items ex no_faults (list_items id_lt p st) st = (r, st1)" by fastforce
  have "\<forall>i \<in> set (list_items id_lt p st). active_status (ei_status i) \<longrightarrow> ei_eligible i"
    using evac_inv_eligible [OF inv] by (simp add: list_items_def)
  note e1 = reconcile_effect [OF r rows this] and w1 = reconcile_weight [OF r rows ex(2)]
    and i1 = reconcile_inv [OF inv op r]
  have same1: "ea_plans st1 = ea_plans st" "ea_observers st1 = ea_observers st" using e1 by (simp_all add: touches_def)
  have run1: "running p st1" using run running_cong [OF same1(1)] by simp
  have tr1: "tracked st1" using tracked_reconcile [OF tr, of ex no_faults "list_items id_lt p st"] r by simp
  obtain q st2 where q: "start_available_items ex no_faults (list_items id_lt p st1) st1 = (q, st2)" by fastforce
  note e2 = start_available_effect [OF q evac_inv_ids [OF i1(1)] evac_inv_active [OF i1(1)]]
    and w2 = start_loop_weight [OF q [unfolded start_available_items_def list_items_count] evac_inv_rows [OF i1(1)]]
  show ?thesis
  proof (cases "plan_finished (list_items id_lt p st1)")
    case True
    with round run r w1 have "goon = False" "st' = complete_plan None p (list_items id_lt p st1) st1"
      by (auto simp: observe_round_def Let_def split: sum.splits)
    with complete_plan_closed [OF run1] show ?thesis by simp
  next
    case False
    have g: "goon = True" "st' = st2"
      using round run r w1 False q w2 by (auto simp: observe_round_def Let_def split: sum.splits)
    have "weight p st2 < weight p st"
    proof (cases "count_items active_status p (ea_items st) = 0")
      case True
      with e1 have "count_items active_status p (ea_items st1) = 0" by simp
      with w2 open_item_waits [OF i1(1) False] w1 show ?thesis by auto
    next
      case busy: False
      then obtain i where "i \<in> set (list_items id_lt p st)" "active_status (ei_status i)"
        by (auto simp: filter_empty_conv simp flip: list_items_count [of _ id_lt])
      with tr w1 w2 show ?thesis by (fastforce simp: tracked_def list_items_def)
    qed
    moreover have "tracked st2"
      using tracked_loop [OF tr1 ex(1)] q unfolding start_available_items_def by (metis snd_conv)
    moreover have same2: "ea_plans st2 = ea_plans st1" "ea_observers st2 = ea_observers st"
      using same1 e2 by (simp_all add: touches_def)
    moreover have "running p st2" using run1 running_cong [OF same2(1)] by simp
    ultimately show ?thesis using g by simp
  qed
qed

fun observe_rounds ::
  "(string \<Rightarrow> string \<Rightarrow> bool) \<Rightarrow> 'm executor \<Rightarrow> string \<Rightarrow> 'm list \<Rightarrow> 'm evac \<Rightarrow> 'm evac" where
  "observe_rounds id_lt ex p [] st = st"
| "observe_rounds id_lt ex p (m # ms) st =
     observe_rounds id_lt ex p ms (observe_step id_lt ex no_faults False False None p (st\<lparr>ea_mig := m\<rparr>))"

lemma observe_rounds_gone:
  "p \<notin> ea_observers st \<Longrightarrow> closed p st \<Longrightarrow>
   p \<notin> ea_observers (observe_rounds id_lt ex p ms st) \<and> closed p (observe_rounds id_lt ex p ms st)"
proof (induction ms arbitrary: st)
  case (Cons m ms)
  have "closed p (st\<lparr>ea_mig := m\<rparr>)" using Cons.prems(2) by (simp add: closed_def get_plan_def)
  with Cons show ?case by (simp add: observe_step_def)
qed simp

lemma observe_rounds_end:
  "evac_inv st \<Longrightarrow> tracked st \<Longrightarrow> names_migrations ex \<Longrightarrow> running p st \<Longrightarrow> p \<in> ea_observers st \<Longrightarrow>
   \<forall>m \<in> set ms. ended ex m \<Longrightarrow> weight p st < length ms \<Longrightarrow>
   p \<notin> ea_observers (observe_rounds id_lt ex p ms st) \<and> closed p (observe_rounds id_lt ex p ms st)"
proof (induction ms arbitrary: st)
  case (Cons m ms)
  let ?st = "st\<lparr>ea_mig := m\<rparr>"
  obtain goon st1 where o: "observe_round id_lt ex no_faults False False None p ?st = (goon, st1)" by fastforce
  have run: "running p ?st" using Cons.prems(4) by (simp add: running_def get_plan_def)
  have "evac_inv st1" using observe_round_inv [of ?st id_lt ex no_faults False False None p] o Cons.prems(1) by simp
  moreover note observe_progress [OF _ run _ Cons.prems(3) _ o]
  ultimately have "if goon then evac_inv st1 \<and> running p st1 \<and> weight p st1 < weight p st \<and> tracked st1 \<and>
      ea_observers st1 = ea_observers st else closed p st1"
    using Cons.prems(1,2,6) by (cases goon) simp_all
  then show ?case
  proof (cases goon)
    case True
    with \<open>if goon then _ else _\<close> o Cons.prems show ?thesis by (simp add: observe_step_def Cons.IH)
  next
    case False
    have "closed p (st1\<lparr>ea_observers := ea_observers st1 - {p}\<rparr>)"
      using \<open>if goon then _ else _\<close> False by (simp add: closed_def get_plan_def)
    with False o Cons.prems(5) show ?thesis by (simp add: observe_step_def observe_rounds_gone)
  qed
qed simp

text \<open>C11: A running plan comes to its end. When the table answers, the migration service names its
  migrations, and each round of the observer finds the migrations it asks for ended (well or badly, or
  unreadable), then after more rounds than twice the waiting items and the items in progress the
  observer has left and the plan is completed or failed, whatever the service did in between.\<close>

theorem observer_terminates:
  assumes "evac_reachable id_lt ex st" "running p st" "p \<in> ea_observers st" "names_migrations ex"
    "\<forall>m \<in> set ms. ended ex m"
    "2 * length (filter (\<lambda>i. ei_status i = ''pending'') (list_items id_lt p st))
       + length (filter (\<lambda>i. active_status (ei_status i)) (list_items id_lt p st)) < length ms"
  shows "p \<notin> ea_observers (observe_rounds id_lt ex p ms st) \<and>
    (\<exists>r. get_plan p (observe_rounds id_lt ex p ms st) = Some r \<and> ep_status r \<in> {''completed'', ''failed''})"
proof -
  have "weight p st < length ms"
    using assms(6) list_items_count [of "\<lambda>s. s = ''pending''" id_lt p st] list_items_count [of active_status id_lt p st]
    by (simp add: weight_def)
  from observe_rounds_end [OF evac_reachable_inv [OF assms(1)] evac_reachable_tracked [OF assms(1,4)] assms(4,2,3,5) this]
  show ?thesis unfolding closed_def .
qed

section \<open>Witnesses\<close>

definition sample_executor :: "unit executor" where
  "sample_executor = \<lparr>ex_create = (\<lambda>s _ _ m. (Inr (''m-'' @ s), m)), ex_prepare = (\<lambda>_ m. (Inr (), m)),
     ex_execute = (\<lambda>_ m. (Inr (), m)), ex_cancel = (\<lambda>_ m. (Inr (), m)),
     ex_status = (\<lambda>k _. if k = ''m-s1'' then Inl ''unreachable'' else Inr ''completed'')\<rparr>"

definition sample_plan_item :: "string \<Rightarrow> plan_item" where
  "sample_plan_item s = \<lparr>pi_server = s, pi_source = ''a'', pi_target = ''b'', pi_eligible = True,
     pi_reason = CandidateSelected, pi_impact = None\<rparr>"

definition sample_created :: "unit evac" where
  "sample_created = snd (create_plan_rows (\<lambda>_. []) None ''p'' [''i1'', ''i2'', ''i3''] ''a''
     (plan_status (map sample_plan_item [''s1'', ''s2'', ''s3''])) (map sample_plan_item [''s1'', ''s2'', ''s3''])
     \<lparr>ea_plans = [], ea_items = [], ea_observers = {}, ea_events = [], ea_mig = ()\<rparr>)"

definition sample_running :: "unit evac" where
  "sample_running = snd (execute_plan (\<lambda>_ _. False) sample_executor no_faults None None None ''p'' sample_created)"

lemma sample_reachable: "evac_reachable (\<lambda>_ _. False) sample_executor sample_running"
proof -
  have "evac_reachable (\<lambda>_ _. False) sample_executor
      \<lparr>ea_plans = [], ea_items = [], ea_observers = {}, ea_events = [], ea_mig = ()\<rparr>"
    by (rule reach_empty) simp_all
  then have "evac_reachable (\<lambda>_ _. False) sample_executor sample_created"
    unfolding sample_created_def by (rule reach_more) (rule step_create, simp)
  then show ?thesis unfolding sample_running_def by (rule reach_more) (rule step_execute)
qed

lemma sample_statuses: "map ei_status (list_items (\<lambda>_ _. False) ''p'' sample_running) = [''running'', ''running'', ''pending'']"
  by code_simp

text \<open>An instance: two items run, the third waits.\<close>

theorem evacuation_run_inv_witness:
  "map ei_status (list_items (\<lambda>_ _. False) ''p'' sample_running) = [''running'', ''running'', ''pending''] \<and>
   length (filter (\<lambda>i. active_status (ei_status i)) (list_items (\<lambda>_ _. False) ''p'' sample_running)) \<le> 2"
  using evacuation_run_inv [OF sample_reachable, of "''p''"] sample_statuses by blast

text \<open>Witness of C11: five rounds are enough for the three items; the first migration cannot be read.\<close>

theorem observer_terminates_witness:
  "''p'' \<notin> ea_observers (observe_rounds (\<lambda>_ _. False) sample_executor ''p'' [(), (), (), (), ()] sample_running)"
proof -
  have "running ''p'' sample_running" "''p'' \<in> ea_observers sample_running" by code_simp+
  moreover have "names_migrations sample_executor" by (auto simp: names_migrations_def sample_executor_def)
  moreover have "\<forall>m \<in> set [(), (), (), (), ()]. ended sample_executor m"
    by (auto simp: ended_def sample_executor_def migration_outcome_def split: if_splits)
  moreover have "2 * length (filter (\<lambda>i. ei_status i = ''pending'') (list_items (\<lambda>_ _. False) ''p'' sample_running))
       + length (filter (\<lambda>i. active_status (ei_status i)) (list_items (\<lambda>_ _. False) ''p'' sample_running))
       < length [(), (), (), (), ()]" by code_simp
  ultimately show ?thesis using observer_terminates [OF sample_reachable] by blast
qed

end
