(* ===== verification/Rootfs.thy ===== *)
theory Rootfs
  imports Forge_Prelude Go_Strings "HOL-Library.AList"
begin

text \<open>
  The confined file system of Beacon (\<^verbatim>\<open>beacon/internal/rootfs\<close>): cleaning of names, and the operations
  on the tree under the root, which never follow a symbolic link. The tree is what the descriptor of
  the root gives access to; a directory is the list of its entries in the order in which they were
  created. Permission bits, times and errors of the device are left out; the random name of a
  temporary file does not clash.
\<close>

section \<open>Names\<close>

text \<open>\<^verbatim>\<open>path.Clean\<close> of the Go library, over the components of the name.\<close>

definition clean_step :: "bool \<Rightarrow> string list \<Rightarrow> string \<Rightarrow> string list" where
  "clean_step rooted out c =
     (if c = [] \<or> c = ''.'' then out
      else if c = ''..'' then
        (if out \<noteq> [] \<and> last out \<noteq> ''..'' then butlast out else if rooted then out else out @ [c])
      else out @ [c])"

definition path_clean :: "string \<Rightarrow> string" where
  "path_clean name =
     (let rooted = prefix ''/'' name; out = foldl (clean_step rooted) [] (split_on (CHR ''/'') name);
          s = (if rooted then ''/'' else []) @ join_with ''/'' out
      in if s = [] then ''.'' else s)"

datatype fs_error =
    InvalidPath
  | RootRefused
  | NotExist
  | NotDirectory
  | IsDirectory
  | LinkRefused
  | TooLarge
  | SizeMismatch
  | NotRegular
  | NotEmpty
  | UsageOverflow

definition has_drive_prefix :: "string \<Rightarrow> bool" where
  "has_drive_prefix name \<longleftrightarrow> (case name of
     a # b # _ \<Rightarrow> b = CHR '':'' \<and> (97 \<le> (of_char a :: nat) \<and> (of_char a :: nat) \<le> 122 \<or>
                               65 \<le> (of_char a :: nat) \<and> (of_char a :: nat) \<le> 90)
   | _ \<Rightarrow> False)"

definition clean :: "string \<Rightarrow> fs_error + string" where
  "clean name =
     (if CHR 0x00 \<in> set name \<or> CHR 0x5C \<in> set name \<or> prefix ''/'' name \<or> has_drive_prefix name
      then Inl InvalidPath
      else if ''..'' \<in> set (split_on (CHR ''/'') name) then Inl InvalidPath
      else let c = path_clean name in if c = ''.'' then Inr [] else Inr c)"

text \<open>The components of a cleaned name; the empty name is the root.\<close>

definition comps :: "string \<Rightarrow> string list" where
  "comps c = (if c = [] then [] else split_on (CHR ''/'') c)"

section \<open>The tree\<close>

type_synonym bytes = "8 word list"

datatype node = Dir (dir_entries: "(string \<times> node) list") | File bytes | Link string | Special

type_synonym entries = "(string \<times> node) list"

fun walk :: "entries \<Rightarrow> string list \<Rightarrow> fs_error + node" where
  "walk es [] = Inr (Dir es)"
| "walk es (c # cs) =
     (case map_of es c of
        None \<Rightarrow> Inl NotExist
      | Some (Dir es') \<Rightarrow> walk es' cs
      | Some (Link _) \<Rightarrow> Inl LinkRefused
      | Some n \<Rightarrow> if cs = [] then Inr n else Inl NotDirectory)"

text \<open>An operation on the entries of one directory.\<close>

fun alter :: "(entries \<Rightarrow> fs_error + entries) \<Rightarrow> entries \<Rightarrow> string list \<Rightarrow> fs_error + entries" where
  "alter f es [] = f es"
| "alter f es (c # cs) =
     (case map_of es c of
        None \<Rightarrow> Inl NotExist
      | Some (Dir es') \<Rightarrow> (case alter f es' cs of Inl e \<Rightarrow> Inl e | Inr es'' \<Rightarrow> Inr (AList.update c (Dir es'') es))
      | Some (Link _) \<Rightarrow> Inl LinkRefused
      | Some _ \<Rightarrow> Inl NotDirectory)"

fun mkdir_comps :: "entries \<Rightarrow> string list \<Rightarrow> fs_error + entries" where
  "mkdir_comps es [] = Inr es"
| "mkdir_comps es (c # cs) =
     (case map_of es c of
        None \<Rightarrow> (case mkdir_comps [] cs of Inl e \<Rightarrow> Inl e | Inr es' \<Rightarrow> Inr (AList.update c (Dir es') es))
      | Some (Dir es') \<Rightarrow> (case mkdir_comps es' cs of Inl e \<Rightarrow> Inl e | Inr es'' \<Rightarrow> Inr (AList.update c (Dir es'') es))
      | Some (Link _) \<Rightarrow> Inl LinkRefused
      | Some _ \<Rightarrow> Inl NotDirectory)"

section \<open>Operations\<close>

definition fs_open :: "entries \<Rightarrow> string \<Rightarrow> fs_error + node" where
  "fs_open es name = and_then (clean name) (\<lambda>c. walk es (comps c))"

definition read_dir :: "entries \<Rightarrow> string \<Rightarrow> fs_error + entries" where
  "read_dir es name =
     and_then (fs_open es name) (\<lambda>n. case n of Dir es' \<Rightarrow> Inr es' | _ \<Rightarrow> Inl NotDirectory)"

definition mkdir_all :: "entries \<Rightarrow> string \<Rightarrow> fs_error + entries" where
  "mkdir_all es name = and_then (clean name) (\<lambda>c. mkdir_comps es (comps c))"

definition remove_all :: "entries \<Rightarrow> string \<Rightarrow> fs_error + entries" where
  "remove_all es name =
     and_then (clean name) (\<lambda>c.
       if c = [] then Inl RootRefused
       else (case alter (\<lambda>d. Inr (AList.delete (last (comps c)) d)) es (butlast (comps c)) of
               Inl NotExist \<Rightarrow> Inr es | r \<Rightarrow> r))"

definition put_file :: "string \<Rightarrow> bytes \<Rightarrow> entries \<Rightarrow> fs_error + entries" where
  "put_file b body d =
     (case map_of d b of Some (Dir _) \<Rightarrow> Inl IsDirectory | _ \<Rightarrow> Inr (AList.update b (File body) d))"

text \<open>\<open>mx\<close> and \<open>expected\<close> are not negative when they are checked. The stream is read up to one byte past
  the bound; the directories on the way are made first and stay when the write fails. The cleaned name is cleaned
  again for the rename, which refuses a name like \<^verbatim>\<open>./C:x\<close> only then.\<close>

definition atomic_write :: "entries \<Rightarrow> string \<Rightarrow> bytes \<Rightarrow> int \<Rightarrow> int \<Rightarrow> (fs_error + unit) \<times> entries" where
  "atomic_write es name body mx expected =
     (case clean name of
        Inl _ \<Rightarrow> (Inl InvalidPath, es)
      | Inr c \<Rightarrow>
          if c = [] then (Inl InvalidPath, es)
          else (case mkdir_all es (join_with ''/'' (butlast (comps c))) of
            Inl e \<Rightarrow> (Inl e, es)
          | Inr es1 \<Rightarrow>
              let got = (if 0 \<le> mx then take (nat (mx + 1)) body else body) in
              if 0 \<le> mx \<and> mx < int (length got) then (Inl TooLarge, es1)
              else if 0 \<le> expected \<and> int (length got) \<noteq> expected then (Inl SizeMismatch, es1)
              else (case clean c of
                      Inl e \<Rightarrow> (Inl e, es1)
                    | Inr _ \<Rightarrow>
                        (case alter (put_file (last (comps c)) got) es1 (butlast (comps c)) of
                           Inl e \<Rightarrow> (Inl e, es1) | Inr es2 \<Rightarrow> (Inr (), es2)))))"

definition atomic_write_exact :: "entries \<Rightarrow> string \<Rightarrow> bytes \<Rightarrow> int \<Rightarrow> int \<Rightarrow> (fs_error + unit) \<times> entries" where
  "atomic_write_exact es name body mx expected =
     (if expected < 0 \<or> 0 \<le> mx \<and> mx < expected then (Inl SizeMismatch, es)
      else atomic_write es name body mx expected)"

definition write_file :: "entries \<Rightarrow> string \<Rightarrow> bytes \<Rightarrow> (fs_error + unit) \<times> entries" where
  "write_file es name body = atomic_write es name body (int (length body)) (- 1)"

definition put_node :: "string \<Rightarrow> node \<Rightarrow> entries \<Rightarrow> fs_error + entries" where
  "put_node b n d =
     (case (map_of d b, n) of
        (Some (Dir es), Dir _) \<Rightarrow> if es = [] then Inr (AList.update b n d) else Inl NotEmpty
      | (Some (Dir _), _) \<Rightarrow> Inl IsDirectory
      | (Some _, Dir _) \<Rightarrow> Inl NotDirectory
      | _ \<Rightarrow> Inr (AList.update b n d))"

fun raw_at :: "entries \<Rightarrow> string list \<Rightarrow> fs_error + node" where
  "raw_at es [] = Inr (Dir es)"
| "raw_at es [c] = (case map_of es c of None \<Rightarrow> Inl NotExist | Some n \<Rightarrow> Inr n)"
| "raw_at es (c # cs) =
     (case map_of es c of
        None \<Rightarrow> Inl NotExist
      | Some (Dir es') \<Rightarrow> raw_at es' cs
      | Some (Link _) \<Rightarrow> Inl LinkRefused
      | Some _ \<Rightarrow> Inl NotDirectory)"

definition rename_to :: "entries \<Rightarrow> string \<Rightarrow> string \<Rightarrow> fs_error + entries" where
  "rename_to es old new =
     (case (clean old, clean new) of
        (Inr a, Inr b) \<Rightarrow>
          if a = [] \<or> b = [] then Inl InvalidPath
          else and_then (raw_at es (comps a)) (\<lambda>n.
                 if a = b then Inr es
                 else if (case n of Dir _ \<Rightarrow> prefix (comps a) (comps b) | _ \<Rightarrow> False) then Inl InvalidPath
                 else and_then (alter (put_node (last (comps b)) n) es (butlast (comps b)))
                        (\<lambda>es1. alter (\<lambda>d. Inr (AList.delete (last (comps a)) d)) es1 (butlast (comps a))))
      | _ \<Rightarrow> Inl InvalidPath)"

text \<open>\<^verbatim>\<open>Usage\<close>: the sizes of all files, with the check for overflow of the signed sum.\<close>

fun usage_entries :: "nat \<Rightarrow> entries \<Rightarrow> fs_error + nat"
and usage_node :: "node \<Rightarrow> fs_error + nat" where
  "usage_entries acc [] = Inr acc"
| "usage_entries acc ((_, n) # es) =
     (case usage_node n of
        Inl e \<Rightarrow> Inl e
      | Inr k \<Rightarrow> if 2 ^ 63 - 1 - acc < k then Inl UsageOverflow else usage_entries (acc + k) es)"
| "usage_node (Dir es) = usage_entries 0 es"
| "usage_node (File body) = Inr (length body)"
| "usage_node (Link _) = Inr 0"
| "usage_node Special = Inr 0"

definition usage :: "entries \<Rightarrow> fs_error + nat" where
  "usage es = usage_entries 0 es"

definition copy_file :: "entries \<Rightarrow> string \<Rightarrow> string \<Rightarrow> int \<Rightarrow> (fs_error + int) \<times> entries" where
  "copy_file es source destination mx =
     (case fs_open es source of
        Inl e \<Rightarrow> (Inl e, es)
      | Inr (File body) \<Rightarrow>
          if 0 \<le> mx \<and> mx < int (length body) then (Inl TooLarge, es)
          else (case atomic_write_exact es destination body (int (length body)) (int (length body)) of
                  (Inl e, es1) \<Rightarrow> (Inl e, es1) | (Inr _, es1) \<Rightarrow> (Inr (int (length body)), es1))
      | Inr _ \<Rightarrow> (Inl NotRegular, es))"

section \<open>Cleaned names stay under the root\<close>

definition good_comp :: "string \<Rightarrow> bool" where
  "good_comp c \<longleftrightarrow> c \<noteq> [] \<and> c \<noteq> ''.'' \<and> c \<noteq> ''..'' \<and> CHR ''/'' \<notin> set c"

lemma clean_steps_plain:
  "''..'' \<notin> set cs \<Longrightarrow> foldl (clean_step r) out cs = out @ filter (\<lambda>c. c \<noteq> [] \<and> c \<noteq> ''.'') cs"
proof (induction cs arbitrary: out)
  case (Cons c cs)
  have "clean_step r out c = out @ (if c \<noteq> [] \<and> c \<noteq> ''.'' then [c] else [])"
    using Cons.prems by (auto simp: clean_step_def)
  with Cons show ?case by simp
qed simp

lemma good_comps_filter:
  assumes "''..'' \<notin> set (split_on (CHR ''/'') name)"
  shows "\<forall>x \<in> set (filter (\<lambda>c. c \<noteq> [] \<and> c \<noteq> ''.'') (split_on (CHR ''/'') name)). good_comp x"
  using assms split_on_no_sep by (auto simp: good_comp_def)

lemma join_good_not_Nil: "cs \<noteq> [] \<Longrightarrow> \<forall>x \<in> set cs. good_comp x \<Longrightarrow> join_with ''/'' cs \<noteq> []"
  by (cases cs rule: list.exhaust; cases "tl cs") (auto simp: good_comp_def)

lemma join_good_not_dot: "\<forall>x \<in> set cs. good_comp x \<Longrightarrow> join_with ''/'' cs \<noteq> ''.''"
proof
  assume g: "\<forall>x \<in> set cs. good_comp x" and e: "join_with ''/'' cs = ''.''"
  then have "cs \<noteq> []" by auto
  with g have "split_on (CHR ''/'') (join_with ''/'' cs) = cs" by (intro split_join) (auto simp: good_comp_def)
  with e have "cs = [''.'']" by (simp add: split_on_free)
  with g show False by (simp add: good_comp_def)
qed

lemma comps_join: "\<forall>x \<in> set cs. good_comp x \<Longrightarrow> comps (join_with ''/'' cs) = cs"
  using join_good_not_Nil [of cs]
  by (cases "cs = []") (auto simp: comps_def good_comp_def intro!: split_join)

lemma clean_Inr:
  assumes "clean name = Inr c"
  shows "comps c = filter (\<lambda>c. c \<noteq> [] \<and> c \<noteq> ''.'') (split_on (CHR ''/'') name)" "\<forall>x \<in> set (comps c). good_comp x"
    "c = join_with ''/'' (comps c)"
proof -
  let ?out = "filter (\<lambda>c. c \<noteq> [] \<and> c \<noteq> ''.'') (split_on (CHR ''/'') name)"
  have d: "''..'' \<notin> set (split_on (CHR ''/'') name)" "\<not> prefix ''/'' name"
    using assms by (auto simp: clean_def split: if_splits)
  note g = good_comps_filter [OF d(1)]
  have "path_clean name = (if join_with ''/'' ?out = [] then ''.'' else join_with ''/'' ?out)"
    using d by (simp add: path_clean_def Let_def clean_steps_plain)
  then have "c = join_with ''/'' ?out"
    using assms join_good_not_dot [OF g] by (auto simp: clean_def Let_def split: if_splits)
  with comps_join [OF g] g show "comps c = ?out" "\<forall>x \<in> set (comps c). good_comp x" "c = join_with ''/'' (comps c)"
    by simp_all
qed

text \<open>A name made of good components is its own cleaning, unless it looks like a drive.\<close>

lemma set_join: "x \<in> set (join_with sep ps) \<Longrightarrow> x \<in> set sep \<or> (\<exists>p \<in> set ps. x \<in> set p)"
  by (induction sep ps rule: join_with.induct) auto

lemma filter_good: "\<forall>x \<in> set cs. good_comp x \<Longrightarrow> filter (\<lambda>c. c \<noteq> [] \<and> c \<noteq> ''.'') cs = cs"
  by (simp add: filter_id_conv good_comp_def)

lemma join_good_relative: "\<forall>x \<in> set cs. good_comp x \<Longrightarrow> \<not> prefix ''/'' (join_with ''/'' cs)"
proof (cases cs)
  case (Cons x xs)
  assume "\<forall>x \<in> set cs. good_comp x"
  with Cons have "x \<noteq> []" "CHR ''/'' \<notin> set x" by (auto simp: good_comp_def)
  then show ?thesis using Cons by (cases xs; cases x) auto
qed simp

lemma clean_join:
  assumes g: "\<forall>x \<in> set cs. good_comp x \<and> CHR 0x00 \<notin> set x \<and> CHR 0x5C \<notin> set x"
    and d: "\<not> has_drive_prefix (join_with ''/'' cs)"
  shows "clean (join_with ''/'' cs) = Inr (join_with ''/'' cs)"
proof (cases "cs = []")
  case True
  then show ?thesis by (simp add: clean_def has_drive_prefix_def path_clean_def clean_step_def)
next
  case False
  have g1: "\<forall>x \<in> set cs. good_comp x" using g by blast
  have sp: "split_on (CHR ''/'') (join_with ''/'' cs) = cs"
    using False g by (intro split_join) (auto simp: good_comp_def)
  have "CHR 0x00 \<notin> set (join_with ''/'' cs)" "CHR 0x5C \<notin> set (join_with ''/'' cs)"
    using g set_join [of _ "''/''" cs] by fastforce+
  moreover have "''..'' \<notin> set cs" using g1 by (auto simp: good_comp_def)
  ultimately show ?thesis
    using d join_good_relative [OF g1] join_good_not_dot [OF g1] join_good_not_Nil [OF False g1] sp filter_good [OF g1]
    by (simp add: clean_def path_clean_def Let_def clean_steps_plain)
qed

section \<open>What an operation leaves alone\<close>

lemma map_of_update [simp]: "map_of (AList.update k v al) = (map_of al)(k \<mapsto> v)"
  by (simp add: update_conv')

text \<open>Paths that neither lead to nor pass through a given one.\<close>

definition apart :: "string list \<Rightarrow> string list \<Rightarrow> bool" where
  "apart p q \<longleftrightarrow> \<not> prefix p q \<and> \<not> prefix q p"

lemma apart_Cons [simp]: "apart (a # p) (b # q) \<longleftrightarrow> a \<noteq> b \<or> apart p q"
  by (auto simp: apart_def)

lemma apart_Nil [simp]: "\<not> apart [] q" "\<not> apart p []"
  by (auto simp: apart_def)

lemma alter_walk:
  "alter f es p = Inr es' \<Longrightarrow>
   \<exists>d d'. walk es p = Inr (Dir d) \<and> f d = Inr d' \<and> (\<forall>q. walk es' (p @ q) = walk d' q) \<and>
     (\<forall>q. walk es (p @ q) = walk d q) \<and> (\<forall>q. apart p q \<longrightarrow> walk es' q = walk es q)"
proof (induction p arbitrary: es es')
  case Nil
  then show ?case by simp
next
  case (Cons c p)
  then obtain d d' where d: "map_of es c = Some (Dir d)" "alter f d p = Inr d'" "es' = AList.update c (Dir d') es"
    by (auto split: option.splits node.splits sum.splits)
  from Cons.IH [OF d(2)] obtain x x' where x: "walk d p = Inr (Dir x)" "f x = Inr x'" "\<forall>q. walk d' (p @ q) = walk x' q"
    "\<forall>q. walk d (p @ q) = walk x q" "\<forall>q. apart p q \<longrightarrow> walk d' q = walk d q" by blast
  have "walk es' q = walk es q" if "apart (c # p) q" for q
    using that d x(5) by (cases q) (auto split: option.splits node.splits)
  then have "walk es (c # p) = Inr (Dir x) \<and> f x = Inr x' \<and> (\<forall>q. walk es' ((c # p) @ q) = walk x' q) \<and>
      (\<forall>q. walk es ((c # p) @ q) = walk x q) \<and> (\<forall>q. apart (c # p) q \<longrightarrow> walk es' q = walk es q)"
    using d x by simp
  then show ?case by blast
qed

lemma walk_empty: "q \<noteq> [] \<Longrightarrow> walk [] q = Inl NotExist"
  by (cases q) auto

lemma mkdir_walk:
  "mkdir_comps es p = Inr es' \<Longrightarrow>
   (\<exists>d. walk es' p = Inr (Dir d)) \<and> (\<forall>q. \<not> prefix q p \<longrightarrow> walk es' q = walk es q)"
proof (induction p arbitrary: es es')
  case Nil
  then show ?case by simp
next
  case (Cons c p)
  have step: ?case if d: "mkdir_comps d p = Inr d'" "es' = AList.update c (Dir d') es"
    and old: "\<And>q. q \<noteq> [] \<Longrightarrow> walk es (c # q) = walk d q" for d d'
  proof -
    from Cons.IH [OF d(1)] obtain x where x: "walk d' p = Inr (Dir x)" "\<forall>q. \<not> prefix q p \<longrightarrow> walk d' q = walk d q"
      by blast
    have "walk es' q = walk es q" if "\<not> prefix q (c # p)" for q
    proof (cases q)
      case Nil
      with that show ?thesis by simp
    next
      case (Cons b r)
      show ?thesis
      proof (cases "b = c")
        case True
        with that Cons have "\<not> prefix r p" by simp
        moreover from this have "r \<noteq> []" by auto
        ultimately show ?thesis using d(2) x(2) old True Cons by simp
      next
        case False
        with Cons d(2) show ?thesis by simp
      qed
    qed
    with d(2) x(1) show ?thesis by simp
  qed
  show ?case
  proof (cases "map_of es c")
    case None
    with Cons.prems obtain d' where "mkdir_comps [] p = Inr d'" "es' = AList.update c (Dir d') es"
      by (auto split: sum.splits)
    then show ?thesis by (rule step) (simp add: None walk_empty)
  next
    case (Some n)
    with Cons.prems obtain d d' where "n = Dir d" "mkdir_comps d p = Inr d'" "es' = AList.update c (Dir d') es"
      by (auto split: sum.splits node.splits)
    then show ?thesis using Some by (intro step) simp_all
  qed
qed

text \<open>Making directories in an empty one always works.\<close>

lemma mkdir_fresh: "\<exists>es. mkdir_comps [] p = Inr es"
  by (induction p) auto

lemma put_file_Inr:
  assumes "put_file b body d = Inr d'"
  shows "map_of d' b = Some (File body)" "x \<noteq> b \<Longrightarrow> map_of d' x = map_of d x"
  using assms by (auto simp: put_file_def split: option.splits node.splits)

lemma comps_snoc:
  assumes "clean name = Inr c" "c \<noteq> []"
  shows "comps c = butlast (comps c) @ [last (comps c)]" "\<forall>x \<in> set (butlast (comps c)). good_comp x"
proof -
  have "comps c \<noteq> []" using clean_Inr(3) [OF assms(1)] assms(2) by (cases "comps c") auto
  then show "comps c = butlast (comps c) @ [last (comps c)]" by simp
  show "\<forall>x \<in> set (butlast (comps c)). good_comp x" using clean_Inr(2) [OF assms(1)] by (meson in_set_butlastD)
qed

lemma mkdir_all_join:
  assumes "mkdir_all es (join_with ''/'' cs) = Inr es'" "\<forall>x \<in> set cs. good_comp x"
  shows "mkdir_comps es cs = Inr es'"
proof -
  from assms(1) obtain b where b: "clean (join_with ''/'' cs) = Inr b" "mkdir_comps es (comps b) = Inr es'"
    by (auto simp: mkdir_all_def and_then_eq_Inr)
  have "comps b = filter (\<lambda>c. c \<noteq> [] \<and> c \<noteq> ''.'') (split_on (CHR ''/'') (join_with ''/'' cs))"
    by (rule clean_Inr(1) [OF b(1)])
  also have "\<dots> = cs"
  proof (cases "cs = []")
    case False
    then have "split_on (CHR ''/'') (join_with ''/'' cs) = cs"
      using assms(2) by (intro split_join) (auto simp: good_comp_def)
    with filter_good [OF assms(2)] show ?thesis by simp
  qed simp
  finally show ?thesis using b(2) by simp
qed

lemma atomic_write_effect:
  assumes w: "atomic_write es name body mx expected = (Inr (), es')" and c: "clean name = Inr c"
  shows "walk es' (comps c) = Inr (File body)" "\<forall>q. apart (comps c) q \<longrightarrow> walk es' q = walk es q"
    "0 \<le> mx \<longrightarrow> int (length body) \<le> mx" "0 \<le> expected \<longrightarrow> int (length body) = expected" "clean c = Inr c"
proof -
  let ?got = "if 0 \<le> mx then take (nat (mx + 1)) body else body"
  have ne: "c \<noteq> []" using w c by (auto simp: atomic_write_def)
  note snoc = comps_snoc [OF c ne]
  obtain es1 where es1: "mkdir_all es (join_with ''/'' (butlast (comps c))) = Inr es1"
    and size: "\<not> (0 \<le> mx \<and> mx < int (length ?got))" "\<not> (0 \<le> expected \<and> int (length ?got) \<noteq> expected)"
    and put: "alter (put_file (last (comps c)) ?got) es1 (butlast (comps c)) = Inr es'"
    and cl: "\<exists>x. clean c = Inr x"
    using w c ne by (auto simp: atomic_write_def Let_def split: sum.splits if_splits)
  have got: "?got = body" using size(1) by auto
  from size got show "0 \<le> mx \<longrightarrow> int (length body) \<le> mx" "0 \<le> expected \<longrightarrow> int (length body) = expected" by auto
  from cl obtain x where x: "clean c = Inr x" by blast
  have "x = join_with ''/'' (filter (\<lambda>c. c \<noteq> [] \<and> c \<noteq> ''.'') (split_on (CHR ''/'') c))"
    using clean_Inr(1,3) [OF x] by simp
  also have "split_on (CHR ''/'') c = comps c" using ne by (simp add: comps_def)
  also have "filter (\<lambda>c. c \<noteq> [] \<and> c \<noteq> ''.'') (comps c) = comps c" by (rule filter_good [OF clean_Inr(2) [OF c]])
  finally show "clean c = Inr c" using x clean_Inr(3) [OF c] by simp
  note m = mkdir_walk [OF mkdir_all_join [OF es1 snoc(2)]]
  from alter_walk [OF put] obtain d d' where d: "put_file (last (comps c)) ?got d = Inr d'"
    "\<forall>q. walk es' (butlast (comps c) @ q) = walk d' q" "\<forall>q. walk es1 (butlast (comps c) @ q) = walk d q"
    "\<forall>q. apart (butlast (comps c)) q \<longrightarrow> walk es' q = walk es1 q" by blast
  note p = put_file_Inr [OF d(1) [unfolded got]]
  show "walk es' (comps c) = Inr (File body)"
  proof -
    have "walk es' (comps c) = walk d' [last (comps c)]" using d(2) snoc(1) by metis
    with p(1) show ?thesis by simp
  qed
  show "\<forall>q. apart (comps c) q \<longrightarrow> walk es' q = walk es q"
  proof (intro allI impI)
    fix q assume a: "apart (comps c) q"
    then have np: "\<not> prefix q (butlast (comps c))"
      unfolding apart_def by (metis snoc(1) prefix_order.trans prefix_def)
    show "walk es' q = walk es q"
    proof (cases "prefix (butlast (comps c)) q")
      case True
      then obtain r where r: "q = butlast (comps c) @ r" by (auto simp: prefix_def)
      with np obtain y r' where y: "r = y # r'" by (cases r) auto
      have "y \<noteq> last (comps c)" using a r y snoc(1) unfolding apart_def by (metis Cons_prefix_Cons prefix_bot.bot_least same_prefix_prefix)
      then have "walk d' r = walk d r" using p(2) y by simp
      then show ?thesis using d(2,3) r m np by metis
    next
      case False
      with np have "apart (butlast (comps c)) q" by (simp add: apart_def)
      with d(4) m np show ?thesis by metis
    qed
  qed
qed

section \<open>Properties\<close>

text \<open>C16: A write stays under the root and does what it says. The accepted name has no parent, empty or
  dot component and is not absolute; the file then reads back as written, by the same name; and every
  path that is neither that file, nor leads to it, nor lies behind it, gives the same answer as before.\<close>

theorem write_confined:
  assumes "atomic_write es name body mx expected = (Inr (), es')"
  shows "\<exists>c. clean name = Inr c \<and> list_all good_comp (comps c) \<and> comps c \<noteq> [] \<and>
    fs_open es' name = Inr (File body) \<and> (\<forall>q. apart (comps c) q \<longrightarrow> walk es' q = walk es q)"
proof -
  obtain c where c: "clean name = Inr c" using assms by (cases "clean name") (auto simp: atomic_write_def)
  then have "c \<noteq> []" using assms by (auto simp: atomic_write_def)
  with comps_snoc [OF c] have "comps c \<noteq> []" by (metis snoc_eq_iff_butlast)
  moreover have "list_all good_comp (comps c)" using clean_Inr(2) [OF c] by (simp add: list_all_iff)
  ultimately show ?thesis using atomic_write_effect(1,2) [OF assms c] c by (simp add: fs_open_def)
qed

text \<open>Witness of C16: a write with redundant slashes and dots.\<close>

theorem write_confined_witness:
  "\<exists>c es'. atomic_write [(''a'', Dir [(''x'', Link ''/etc'')])] ''a//./b/f'' [1, 2] 10 (- 1) = (Inr (), es') \<and>
     clean ''a//./b/f'' = Inr c \<and> fs_open es' ''a//./b/f'' = Inr (File [1, 2]) \<and> fs_open es' ''a/x/passwd'' = Inl LinkRefused"
proof -
  have w: "atomic_write [(''a'', Dir [(''x'', Link ''/etc'')])] ''a//./b/f'' [1, 2] 10 (- 1)
      = (Inr (), [(''a'', Dir [(''x'', Link ''/etc''), (''b'', Dir [(''f'', File [1, 2])])])])" by code_simp
  have "fs_open [(''a'', Dir [(''x'', Link ''/etc''), (''b'', Dir [(''f'', File [1, 2])])])] ''a/x/passwd'' = Inl LinkRefused"
    by code_simp
  with w write_confined [OF w] show ?thesis by blast
qed

end
