(* ===== verification/Transfer_Archive.thy ===== *)
theory Transfer_Archive
  imports Rootfs
begin

text \<open>
  The archive of a server directory: the ignore list of \<^verbatim>\<open>beacon/internal/ignore\<close> and the functions
  \<^verbatim>\<open>archiveDirectory\<close>, \<^verbatim>\<open>createSecureArchive\<close> and \<^verbatim>\<open>extractSecureArchive\<close> of
  \<^verbatim>\<open>beacon/internal/transfer/protocol.go\<close>. An archive is the list of its tar entries; the byte format of
  tar and gzip is a pair of arguments. Names are those of the platform with the slash as separator,
  in ASCII.
\<close>

section \<open>Patterns\<close>

text \<open>\<^verbatim>\<open>filepath.Match\<close>. A malformed pattern matches nothing.\<close>

definition get_esc :: "string \<Rightarrow> (char \<times> string) option" where
  "get_esc p = (case p of
     [] \<Rightarrow> None
   | c # r \<Rightarrow>
       if c = CHR ''-'' \<or> c = CHR '']'' then None
       else if c = CHR 0x5C then (case r of [] \<Rightarrow> None | d # r' \<Rightarrow> if r' = [] then None else Some (d, r'))
       else if r = [] then None else Some (c, r))"

lemma get_esc_length: "get_esc p = Some (c, r) \<Longrightarrow> length r < length p"
  by (auto simp: get_esc_def split: list.splits if_splits)

text \<open>The ranges of a class: whether one of them holds the character, and the rest of the pattern.\<close>

definition class_range :: "string \<Rightarrow> ((char \<times> char) \<times> string) option" where
  "class_range p =
     (case get_esc p of
        None \<Rightarrow> None
      | Some (lo, r) \<Rightarrow>
          (case r of
             d # r' \<Rightarrow>
               if d = CHR ''-'' then (case get_esc r' of None \<Rightarrow> None | Some (hi, r'') \<Rightarrow> Some ((lo, hi), r''))
               else Some ((lo, lo), r)
           | [] \<Rightarrow> None))"

lemma class_range_length: "class_range p = Some (x, r) \<Longrightarrow> length r < length p"
  by (auto simp: class_range_def split: option.splits list.splits if_splits dest!: get_esc_length)

function class_ranges :: "char \<Rightarrow> bool \<Rightarrow> bool \<Rightarrow> string \<Rightarrow> (bool \<times> string) option" where
  "class_ranges c started hit p =
     (if started \<and> p \<noteq> [] \<and> hd p = CHR '']'' then Some (hit, tl p)
      else (case class_range p of
              None \<Rightarrow> None
            | Some ((lo, hi), r) \<Rightarrow>
                class_ranges c True (hit \<or> (of_char lo :: nat) \<le> of_char c \<and> (of_char c :: nat) \<le> of_char hi) r))"
  by pat_completeness auto
termination
  by (relation "measure (\<lambda>(_, _, _, p). length p)") (auto dest: class_range_length)

declare class_ranges.simps [simp del]

lemma class_ranges_length: "class_ranges c s h p = Some (b, r) \<Longrightarrow> length r < length p"
proof (induction c s h p rule: class_ranges.induct)
  case (1 c s h p)
  show ?case
  proof (cases "s \<and> p \<noteq> [] \<and> hd p = CHR '']''")
    case True
    then have "class_ranges c s h p = Some (h, tl p)" by (subst class_ranges.simps) simp
    with "1.prems" True show ?thesis by (cases p) auto
  next
    case False
    with "1.prems" obtain lo hi q where q: "class_range p = Some ((lo, hi), q)"
      "class_ranges c True (h \<or> (of_char lo :: nat) \<le> of_char c \<and> (of_char c :: nat) \<le> of_char hi) q = Some (b, r)"
      by (auto simp: class_ranges.simps [of c s h p] split: option.splits)
    from "1.IH" [OF False q(1) refl refl q(2)] class_range_length [OF q(1)] show ?thesis by simp
  qed
qed

text \<open>The class \<^verbatim>\<open>[...]\<close> after its bracket, with the negation.\<close>

definition class_match :: "char \<Rightarrow> string \<Rightarrow> (bool \<times> string) option" where
  "class_match c p =
     (if p \<noteq> [] \<and> hd p = CHR ''^'' then map_option (\<lambda>(b, r). (\<not> b, r)) (class_ranges c False False (tl p))
      else class_ranges c False False p)"

lemma class_match_length: "class_match c p = Some (b, r) \<Longrightarrow> length r < length p"
  by (cases p) (auto simp: class_match_def split: if_splits dest: class_ranges_length)

function glob :: "string \<Rightarrow> string \<Rightarrow> bool" where
  "glob [] s = (s = [])"
| "glob (x # p) s =
     (if x = CHR ''*'' then glob p s \<or> (if s = [] \<or> hd s = CHR ''/'' then False else glob (x # p) (tl s))
      else if s = [] then False
      else if x = CHR ''['' then
        (case class_match (hd s) p of None \<Rightarrow> False | Some (b, r) \<Rightarrow> b \<and> glob r (tl s))
      else if x = CHR ''?'' then hd s \<noteq> CHR ''/'' \<and> glob p (tl s)
      else if x = CHR 0x5C then (case p of [] \<Rightarrow> False | y # q \<Rightarrow> hd s = y \<and> glob q (tl s))
      else hd s = x \<and> glob p (tl s))"
  by pat_completeness auto
termination
  by (relation "measure (\<lambda>(p, s). length p + length s)") (auto dest: class_match_length)

declare glob.simps(2) [simp del]

section \<open>Ignore lists\<close>

text \<open>The lines of \<^verbatim>\<open>bufio.Scanner\<close>; a line of 64 KiB or more ends the scan with an error.\<close>

definition drop_cr :: "string \<Rightarrow> string" where
  "drop_cr l = (if l \<noteq> [] \<and> last l = CHR 0x0D then butlast l else l)"

definition scan_lines :: "string \<Rightarrow> string list option" where
  "scan_lines s =
     (let ls = split_on (CHR 0x0A) s; ls' = (if last ls = [] then butlast ls else ls)
      in if \<exists>l \<in> set ls'. 65536 \<le> int (length l) then None else Some (map drop_cr ls'))"

definition load_ignore :: "string \<Rightarrow> string list option" where
  "load_ignore s =
     map_option (\<lambda>ls. filter (\<lambda>l. l \<noteq> [] \<and> \<not> prefix ''#'' l) (map trim_space ls)) (scan_lines s)"

text \<open>\<^verbatim>\<open>filepath.Base\<close> of a relative name.\<close>

definition file_base :: "string \<Rightarrow> string" where
  "file_base s =
     (if s = [] then ''.''
      else let t = rev (dropWhile (\<lambda>c. c = CHR ''/'') (rev s)) in if t = [] then ''/'' else last (split_on (CHR ''/'') t))"

fun replace_stars :: "string \<Rightarrow> string" where
  "replace_stars (a # b # s) = (if a = CHR ''*'' \<and> b = CHR ''*'' then CHR ''*'' # replace_stars s else a # replace_stars (b # s))"
| "replace_stars s = s"

definition pattern_ignores :: "string \<Rightarrow> string \<Rightarrow> bool" where
  "pattern_ignores path pat \<longleftrightarrow>
     (let parts = split_on (CHR ''/'') path in
      glob pat path \<or> glob pat (file_base path) \<or> (\<exists>part \<in> set parts. glob pat part) \<or>
      has_suffix pat ''/'' \<and> (\<exists>part \<in> set parts. glob (trim_suffix pat ''/'') part) \<or>
      contains_str pat ''**'' \<and> glob (replace_stars pat) path)"

definition is_ignored :: "string list \<Rightarrow> string \<Rightarrow> bool" where
  "is_ignored patterns path \<longleftrightarrow> (\<exists>pat \<in> set patterns. pattern_ignores path pat)"

section \<open>Archiving\<close>

datatype entry = EDir string | EFile string bytes | ESpecial string

definition bytes_text :: "bytes \<Rightarrow> string" where
  "bytes_text b = map (\<lambda>w. char_of (unat w)) b"

definition denylist :: "entries \<Rightarrow> string list" where
  "denylist tree =
     (case fs_open tree ''.pteroignore'' of
        Inr (File b) \<Rightarrow> (case load_ignore (bytes_text b) of Some ps \<Rightarrow> ps | None \<Rightarrow> [])
      | _ \<Rightarrow> [])"

fun is_link :: "node \<Rightarrow> bool" where
  "is_link (Link _) = True"
| "is_link _ = False"

definition skipped :: "(string \<Rightarrow> bool) \<Rightarrow> string list \<Rightarrow> string \<times> node \<Rightarrow> bool" where
  "skipped ign p e \<longleftrightarrow> (case e of (nm, n) \<Rightarrow>
     p = [] \<and> nm \<in> {''.backups'', ''.uploads'', ''.transfers''} \<or>
     ign (join_with ''/'' (p @ [nm])) \<or> ign nm \<or> is_link n)"

text \<open>Each entry that is not skipped is looked up by its name, which has to survive cleaning; the lookup
  finds the entry just listed.\<close>

fun archive_dir :: "(string \<Rightarrow> bool) \<Rightarrow> string list \<Rightarrow> entries \<Rightarrow> fs_error + entry list"
and archive_node :: "(string \<Rightarrow> bool) \<Rightarrow> string list \<Rightarrow> node \<Rightarrow> fs_error + entry list" where
  "archive_dir ign p [] = Inr []"
| "archive_dir ign p ((nm, n) # es) =
     (if skipped ign p (nm, n) then archive_dir ign p es
      else (case clean (join_with ''/'' (p @ [nm])) of
        Inl e \<Rightarrow> Inl e
      | Inr _ \<Rightarrow>
          (case archive_node ign (p @ [nm]) n of
             Inl e \<Rightarrow> Inl e
           | Inr xs \<Rightarrow> (case archive_dir ign p es of Inl e \<Rightarrow> Inl e | Inr ys \<Rightarrow> Inr (xs @ ys)))))"
| "archive_node ign p (Dir es) =
     (case archive_dir ign p es of Inl e \<Rightarrow> Inl e | Inr ys \<Rightarrow> Inr (EDir (join_with ''/'' p @ ''/'') # ys))"
| "archive_node ign p (File b) = Inr [EFile (join_with ''/'' p) b]"
| "archive_node ign p (Link t) = Inr []"
| "archive_node ign p Special = Inr [ESpecial (join_with ''/'' p)]"

definition create_archive :: "entries \<Rightarrow> fs_error + entry list" where
  "create_archive tree = archive_dir (is_ignored (denylist tree)) [] tree"

section \<open>Extracting\<close>

datatype extract_error = BadName | FsError fs_error | EntryTooLarge | Unsupported

definition entry_name :: "entry \<Rightarrow> string" where
  "entry_name e = (case e of EDir s \<Rightarrow> s | EFile s _ \<Rightarrow> s | ESpecial s \<Rightarrow> s)"

definition extract_entry :: "entries \<Rightarrow> entry \<Rightarrow> extract_error + entries" where
  "extract_entry es e =
     (case clean (trim_suffix (entry_name e) ''/'') of
        Inl _ \<Rightarrow> if entry_name e = ''./'' then Inr es else Inl BadName
      | Inr name \<Rightarrow>
          if name = [] then (if entry_name e = ''./'' then Inr es else Inl BadName)
          else (case e of
            EDir _ \<Rightarrow> (case mkdir_all es name of Inl x \<Rightarrow> Inl (FsError x) | Inr es1 \<Rightarrow> Inr es1)
          | EFile _ b \<Rightarrow>
              if 34359738368 < int (length b) then Inl EntryTooLarge
              else (case atomic_write_exact es name b (int (length b)) (int (length b)) of
                      (Inl x, _) \<Rightarrow> Inl (FsError x) | (Inr _, es1) \<Rightarrow> Inr es1)
          | ESpecial _ \<Rightarrow> Inl Unsupported))"

fun extract_all :: "entries \<Rightarrow> entry list \<Rightarrow> extract_error + entries" where
  "extract_all es [] = Inr es"
| "extract_all es (e # xs) = and_then (extract_entry es e) (\<lambda>es1. extract_all es1 xs)"

section \<open>Extracting gives back what was archived\<close>

text \<open>What an archive holds of a directory: everything that is not skipped.\<close>

fun kept_dir :: "(string \<Rightarrow> bool) \<Rightarrow> string list \<Rightarrow> entries \<Rightarrow> entries"
and kept_node :: "(string \<Rightarrow> bool) \<Rightarrow> string list \<Rightarrow> node \<Rightarrow> node" where
  "kept_dir ign p [] = []"
| "kept_dir ign p ((nm, n) # es) =
     (if skipped ign p (nm, n) then kept_dir ign p es
      else (nm, kept_node ign (p @ [nm]) n) # kept_dir ign p es)"
| "kept_node ign p (Dir es) = Dir (kept_dir ign p es)"
| "kept_node ign p n = n"

text \<open>A directory tree as a file system has it: names are components and differ within a directory. Files
  are within the bound of the format, and nothing but files, directories and links occurs.\<close>

fun tree_ok :: "entries \<Rightarrow> bool"
and node_ok :: "node \<Rightarrow> bool" where
  "tree_ok [] = True"
| "tree_ok ((nm, n) # es) = (good_comp nm \<and> nm \<notin> fst ` set es \<and> node_ok n \<and> tree_ok es)"
| "node_ok (Dir es) = tree_ok es"
| "node_ok (File b) = (int (length b) \<le> 34359738368)"
| "node_ok (Link _) = True"
| "node_ok Special = False"

lemma update_new: "k \<notin> fst ` set al \<Longrightarrow> AList.update k v al = al @ [(k, v)]"
  by (induction al) auto

lemma update_twice: "AList.update k v (AList.update k w al) = AList.update k v al"
  by (induction al) auto

lemma alter_alter: "alter f es p = Inr es1 \<Longrightarrow> alter g es1 p = alter (\<lambda>d. and_then (f d) g) es p"
proof (induction p arbitrary: es es1)
  case (Cons c p)
  then obtain d d' where d: "map_of es c = Some (Dir d)" "alter f d p = Inr d'" "es1 = AList.update c (Dir d') es"
    by (auto split: option.splits node.splits sum.splits)
  from Cons.IH [OF d(2)] d show ?case by (auto simp: update_twice split: sum.splits)
qed (auto simp: and_then_def)

lemma alter_cong: "walk es p = Inr (Dir d) \<Longrightarrow> f d = g d \<Longrightarrow> alter f es p = alter g es p"
  by (induction p arbitrary: es) (auto split: option.splits node.splits sum.splits if_splits)

lemma alter_snoc:
  "walk es p = Inr (Dir d) \<Longrightarrow> map_of d c = Some (Dir x) \<Longrightarrow>
   alter f es (p @ [c]) = alter (\<lambda>d. case f x of Inl e \<Rightarrow> Inl e | Inr x' \<Rightarrow> Inr (AList.update c (Dir x') d)) es p"
  by (induction p arbitrary: es) (auto split: option.splits node.splits sum.splits if_splits)

lemma alter_ok: "walk es p = Inr (Dir d) \<Longrightarrow> f d = Inr d' \<Longrightarrow> \<exists>es'. alter f es p = Inr es'"
  by (induction p arbitrary: es) (fastforce split: option.splits node.splits sum.splits if_splits)+

lemma mkdir_comps_new:
  "walk es p = Inr (Dir d) \<Longrightarrow> c \<notin> fst ` set d \<Longrightarrow>
   mkdir_comps es (p @ [c]) = alter (\<lambda>d. Inr (d @ [(c, Dir [])])) es p"
proof (induction p arbitrary: es)
  case Nil
  then have "map_of d c = None" by (simp add: map_of_eq_None_iff)
  with Nil show ?case by (simp add: update_new)
qed (auto split: option.splits node.splits sum.splits if_splits)

lemma update_same: "map_of al k = Some v \<Longrightarrow> AList.update k v al = al"
  by (induction al) (auto split: if_splits)

lemma mkdir_comps_there: "walk es p = Inr (Dir d) \<Longrightarrow> mkdir_comps es p = Inr es"
  by (induction p arbitrary: es) (auto simp: update_same split: option.splits node.splits if_splits)

lemma clean_good: "clean (join_with ''/'' cs) = Inr b \<Longrightarrow> \<forall>x \<in> set cs. good_comp x \<Longrightarrow> b = join_with ''/'' cs"
proof -
  assume b: "clean (join_with ''/'' cs) = Inr b" and g: "\<forall>x \<in> set cs. good_comp x"
  have "comps b = cs"
  proof (cases "cs = []")
    case False
    with g have "split_on (CHR ''/'') (join_with ''/'' cs) = cs" by (intro split_join) (auto simp: good_comp_def)
    with clean_Inr(1) [OF b] filter_good [OF g] show ?thesis by simp
  qed (use clean_Inr(1) [OF b] in simp)
  with clean_Inr(3) [OF b] show ?thesis by simp
qed

lemma join_snoc: "join_with ''/'' (p @ [c]) = (if p = [] then c else join_with ''/'' p @ ''/'' @ c)"
  by (induction "''/''" p rule: join_with.induct) auto

lemma trim_file_name: "good_comp c \<Longrightarrow> trim_suffix (join_with ''/'' (p @ [c])) ''/'' = join_with ''/'' (p @ [c])"
proof -
  assume g: "good_comp c"
  then obtain c' x where c: "c = c' @ [x]" "x \<noteq> CHR ''/''" by (cases c rule: rev_cases) (auto simp: good_comp_def)
  have "\<not> suffix ''/'' (join_with ''/'' (p @ [c]))"
    using c(2) by (auto simp: join_snoc c(1) suffix_def)
  then show ?thesis by (simp add: trim_suffix_def)
qed

lemma trim_dir_name: "trim_suffix (s @ ''/'') ''/'' = s"
  by (simp add: trim_suffix_def suffix_def)

lemma extract_all_append: "extract_all T (xs @ ys) = and_then (extract_all T xs) (\<lambda>T1. extract_all T1 ys)"
  by (induction T xs rule: extract_all.induct) (auto simp: and_then_def split: sum.split)

text \<open>\<open>adds p es T T'\<close>: the entries are appended to the directory at the path.\<close>

definition adds :: "string list \<Rightarrow> entries \<Rightarrow> entries \<Rightarrow> entries \<Rightarrow> bool" where
  "adds p es T T' \<longleftrightarrow> alter (\<lambda>d. Inr (d @ es)) T p = Inr T'"

lemma adds_walk:
  assumes "adds p es T T'" "walk T p = Inr (Dir d)"
  shows "walk T' p = Inr (Dir (d @ es))"
proof -
  from alter_walk [OF assms(1) [unfolded adds_def]] obtain x where "walk T p = Inr (Dir x)" "\<forall>q. walk T' (p @ q) = walk (x @ es) q"
    by auto
  with assms(2) show ?thesis by (metis append_Nil2 walk.simps(1) sum.inject(2) node.inject(1))
qed

lemma adds_trans:
  assumes "adds p es T T1" "adds p fs T1 T2"
  shows "adds p (es @ fs) T T2"
  using alter_alter [OF assms(1) [unfolded adds_def], of "\<lambda>d. Inr (d @ fs)"] assms(2) by (simp add: adds_def)

lemma adds_nested:
  assumes "adds p [(c, Dir [])] T T1" "adds (p @ [c]) es T1 T2" "walk T p = Inr (Dir d)" "c \<notin> fst ` set d"
  shows "adds p [(c, Dir es)] T T2"
proof -
  have "walk T1 p = Inr (Dir (d @ [(c, Dir [])]))" by (rule adds_walk [OF assms(1,3)])
  moreover have "map_of d c = None" using assms(4) by (simp add: map_of_eq_None_iff)
  then have "map_of (d @ [(c, Dir [])]) c = Some (Dir [])" by (simp add: map_add_def)
  ultimately have "alter (\<lambda>d. Inr (AList.update c (Dir es) d)) T1 p = Inr T2"
    using assms(2) alter_snoc [of T1 p "d @ [(c, Dir [])]" c "[]" "\<lambda>d. Inr (d @ es)"] by (simp add: adds_def)
  then have "alter (\<lambda>d. and_then (Inr (d @ [(c, Dir [])])) (\<lambda>d. Inr (AList.update c (Dir es) d))) T p = Inr T2"
    using alter_alter [OF assms(1) [unfolded adds_def]] by simp
  moreover have "AList.update c (Dir es) (d @ [(c, Dir [])]) = d @ [(c, Dir es)]"
    using update_new [OF assms(4), of "Dir []"] update_new [OF assms(4), of "Dir es"] by (metis update_twice)
  ultimately show ?thesis
    using alter_cong [OF assms(3), of "\<lambda>d. and_then (Inr (d @ [(c, Dir [])])) (\<lambda>d. Inr (AList.update c (Dir es) d))"
        "\<lambda>d. Inr (d @ [(c, Dir es)])"] by (simp add: adds_def)
qed

lemma extract_dir_entry:
  assumes "clean (join_with ''/'' (p @ [c])) = Inr b" "\<forall>x \<in> set (p @ [c]). good_comp x"
    "walk T p = Inr (Dir d)" "c \<notin> fst ` set d"
  shows "\<exists>T1. extract_entry T (EDir (join_with ''/'' (p @ [c]) @ ''/'')) = Inr T1 \<and> adds p [(c, Dir [])] T T1"
proof -
  have b: "b = join_with ''/'' (p @ [c])" "comps b = p @ [c]"
    using clean_good [OF assms(1,2)] comps_join [OF assms(2)] by simp_all
  have "join_with ''/'' (p @ [c]) \<noteq> []" using join_good_not_Nil [OF _ assms(2)] by simp
  moreover have "mkdir_all T (join_with ''/'' (p @ [c])) = alter (\<lambda>d. Inr (d @ [(c, Dir [])])) T p"
    using assms(1) b mkdir_comps_new [OF assms(3,4)] by (simp add: mkdir_all_def)
  moreover obtain T1 where "alter (\<lambda>d. Inr (d @ [(c, Dir [])])) T p = Inr T1"
    using alter_ok [OF assms(3), of "\<lambda>d. Inr (d @ [(c, Dir [])])"] by auto
  ultimately show ?thesis
    using assms(1) b by (auto simp: extract_entry_def entry_name_def trim_dir_name adds_def)
qed

lemma extract_file_entry:
  assumes "clean (join_with ''/'' (p @ [c])) = Inr b" "\<forall>x \<in> set (p @ [c]). good_comp x"
    "clean (join_with ''/'' p) = Inr b'" "walk T p = Inr (Dir d)" "c \<notin> fst ` set d" "int (length body) \<le> 34359738368"
  shows "\<exists>T1. extract_entry T (EFile (join_with ''/'' (p @ [c])) body) = Inr T1 \<and> adds p [(c, File body)] T T1"
proof -
  have g: "\<forall>x \<in> set p. good_comp x" "good_comp c" using assms(2) by auto
  have b: "b = join_with ''/'' (p @ [c])" "comps b = p @ [c]"
    using clean_good [OF assms(1,2)] comps_join [OF assms(2)] by simp_all
  have ne: "join_with ''/'' (p @ [c]) \<noteq> []" using join_good_not_Nil [OF _ assms(2)] by simp
  have "b' = join_with ''/'' p" by (rule clean_good [OF assms(3) g(1)])
  then have "mkdir_all T (join_with ''/'' p) = Inr T"
    using assms(3) comps_join [OF g(1)] mkdir_comps_there [OF assms(4)] by (simp add: mkdir_all_def)
  moreover have "map_of d c = None" using assms(5) by (simp add: map_of_eq_None_iff)
  then have "alter (put_file c body) T p = alter (\<lambda>d. Inr (d @ [(c, File body)])) T p"
    by (intro alter_cong [OF assms(4)]) (simp add: put_file_def update_new [OF assms(5)])
  moreover obtain T1 where "alter (\<lambda>d. Inr (d @ [(c, File body)])) T p = Inr T1"
    using alter_ok [OF assms(4), of "\<lambda>d. Inr (d @ [(c, File body)])"] by auto
  ultimately have "atomic_write_exact T (join_with ''/'' (p @ [c])) body (int (length body)) (int (length body)) = (Inr (), T1)"
    "adds p [(c, File body)] T T1"
    using assms(1) b ne by (simp_all add: atomic_write_exact_def atomic_write_def Let_def adds_def nat_add_distrib)
  then show ?thesis using assms(1,6) b ne trim_file_name [OF g(2), of p]
    by (auto simp: extract_entry_def entry_name_def)
qed

lemma adds_refl: "walk T p = Inr (Dir d) \<Longrightarrow> adds p [] T T"
  unfolding adds_def
  by (induction p arbitrary: T) (auto simp: update_same split: option.splits node.splits if_splits)

lemma extract_archived:
  "archive_dir ign p es = Inr xs \<Longrightarrow> tree_ok es \<Longrightarrow> \<forall>x \<in> set p. good_comp x \<Longrightarrow> clean (join_with ''/'' p) = Inr b \<Longrightarrow>
     walk T p = Inr (Dir d) \<Longrightarrow> fst ` set es \<inter> fst ` set d = {} \<Longrightarrow>
     \<exists>T'. extract_all T xs = Inr T' \<and> adds p (kept_dir ign p es) T T'"
  "archive_node ign (p @ [c]) n = Inr xs \<Longrightarrow> node_ok n \<Longrightarrow> \<not> is_link n \<Longrightarrow> \<forall>x \<in> set (p @ [c]). good_comp x \<Longrightarrow>
     clean (join_with ''/'' p) = Inr b \<Longrightarrow> clean (join_with ''/'' (p @ [c])) = Inr b' \<Longrightarrow>
     walk T p = Inr (Dir d) \<Longrightarrow> c \<notin> fst ` set d \<Longrightarrow>
     \<exists>T'. extract_all T xs = Inr T' \<and> adds p [(c, kept_node ign (p @ [c]) n)] T T'"
proof (induction es and n arbitrary: p xs b T d and p c xs b b' T d rule: tree_ok_node_ok.induct)
  case 1
  then show ?case by (auto intro: adds_refl)
next
  case (2 nm n es)
  show ?case
  proof (cases "skipped ign p (nm, n)")
    case True
    with 2 show ?thesis by simp
  next
    case False
    with "2.prems"(1) obtain b' ns ys where parts: "clean (join_with ''/'' (p @ [nm])) = Inr b'"
      "archive_node ign (p @ [nm]) n = Inr ns" "archive_dir ign p es = Inr ys" "xs = ns @ ys"
      by (auto split: sum.splits)
    have g: "\<forall>x \<in> set (p @ [nm]). good_comp x" and n: "nm \<notin> fst ` set es" "node_ok n" "tree_ok es" "nm \<notin> fst ` set d"
      using "2.prems" by auto
    have l: "\<not> is_link n" using False by (auto simp: skipped_def)
    from "2.IH"(1) [OF parts(2) n(2) l g "2.prems"(4) parts(1) "2.prems"(5) n(4)] obtain T1 where
      T1: "extract_all T ns = Inr T1" "adds p [(nm, kept_node ign (p @ [nm]) n)] T T1" by blast
    have disj: "fst ` set es \<inter> fst ` set (d @ [(nm, kept_node ign (p @ [nm]) n)]) = {}"
      using n(1) "2.prems"(6) by auto
    from "2.IH"(2) [OF parts(3) n(3) "2.prems"(3,4) adds_walk [OF T1(2) "2.prems"(5)] disj] obtain T2 where
      T2: "extract_all T1 ys = Inr T2" "adds p (kept_dir ign p es) T1 T2" by blast
    from adds_trans [OF T1(2) T2(2)] T1(1) T2(1) parts(4) False show ?thesis
      by (simp add: extract_all_append)
  qed
next
  case (3 es)
  from "3.prems"(1) obtain ys where ys: "archive_dir ign (p @ [c]) es = Inr ys"
    "xs = EDir (join_with ''/'' (p @ [c]) @ ''/'') # ys" by (auto split: sum.splits)
  from extract_dir_entry [OF "3.prems"(6,4,7,8)] obtain T1 where
    T1: "extract_entry T (EDir (join_with ''/'' (p @ [c]) @ ''/'')) = Inr T1" "adds p [(c, Dir [])] T T1" by blast
  have w: "walk T1 (p @ [c]) = Inr (Dir [])"
  proof -
    have "map_of d c = None" using "3.prems"(8) by (simp add: map_of_eq_None_iff)
    then have "map_of (d @ [(c, Dir [])]) c = Some (Dir [])" by (simp add: map_add_def)
    moreover from alter_walk [OF T1(2) [unfolded adds_def]] "3.prems"(7)
    have "walk T1 (p @ [c]) = walk (d @ [(c, Dir [])]) [c]" by auto
    ultimately show ?thesis by simp
  qed
  have t: "tree_ok es" using "3.prems"(2) by simp
  from "3.IH" [OF ys(1) t "3.prems"(4,6) w] obtain T2 where
    T2: "extract_all T1 ys = Inr T2" "adds (p @ [c]) (kept_dir ign (p @ [c]) es) T1 T2" by auto
  from adds_nested [OF T1(2) T2(2) "3.prems"(7,8)] T1(1) T2(1) ys(2) show ?case by simp
next
  case (4 body)
  then have "int (length body) \<le> 34359738368" by simp
  from extract_file_entry [OF "4.prems"(6,4,5,7,8) this] "4.prems"(1) show ?case by auto
qed simp_all

text \<open>C13: Restoring an archive into an empty directory gives back the archived directory: the same files
  with the same bytes in the same places, less what the archive skips (links, the ignore list and the
  working directories of Beacon).\<close>

theorem archive_roundtrip:
  assumes "create_archive tree = Inr xs" "tree_ok tree"
  shows "extract_all [] xs = Inr (kept_dir (is_ignored (denylist tree)) [] tree)"
proof -
  have "clean (join_with ''/'' []) = Inr []" by code_simp
  from extract_archived(1) [OF assms(1) [unfolded create_archive_def] assms(2) _ this, of "[]" "[]"]
  show ?thesis by (auto simp: adds_def)
qed

definition sample_ignore :: bytes where
  "sample_ignore = map (\<lambda>c. word_of_nat (of_char c)) (''# logs'' @ [CHR 0x0A] @ ''*.log'' @ [CHR 0x0A] @ ''cache/'')"

definition sample_tree :: entries where
  "sample_tree = [(''.pteroignore'', File sample_ignore), (''world'', Dir [(''level.dat'', File [1, 2]), (''o.log'', File [9])]),
     (''cache'', Dir [(''x'', File [4])]), (''.backups'', Dir []), (''l'', Link ''/etc'')]"

lemma sample_denylist: "denylist sample_tree = [''*.log'', ''cache/'']"
  by code_simp

lemma sample_ok: "tree_ok sample_tree"
  by code_simp

lemma sample_archive: "create_archive sample_tree = Inr [EFile ''.pteroignore'' sample_ignore, EDir ''world/'', EFile ''world/level.dat'' [1, 2]]"
  by code_simp

lemma sample_kept: "kept_dir (is_ignored [''*.log'', ''cache/'']) [] sample_tree
    = [(''.pteroignore'', File sample_ignore), (''world'', Dir [(''level.dat'', File [1, 2])])]"
  by code_simp

text \<open>Witness of C13: a directory with an ignore file.\<close>

theorem archive_roundtrip_witness:
  "extract_all [] [EFile ''.pteroignore'' sample_ignore, EDir ''world/'', EFile ''world/level.dat'' [1, 2]]
    = Inr [(''.pteroignore'', File sample_ignore), (''world'', Dir [(''level.dat'', File [1, 2])])]"
  using archive_roundtrip [OF sample_archive sample_ok] unfolding sample_denylist sample_kept .

end
