(* ===== verification/Transfer_Engine.thy ===== *)
theory Transfer_Engine
  imports Transfer_Archive
begin

text \<open>
  The transfer engine of Beacon (\<^verbatim>\<open>beacon/internal/transfer/protocol.go\<close>): scoped credentials, the archive
  of the source, the resumable upload into the destination, and the activation with rollback. The state
  is the metadata files, the data directories of the servers and the files of each transfer.

  SHA-256 and the byte format of the archive are arguments (\<open>codec\<close>); whether a write of metadata works
  is an argument \<open>ok\<close>. An operation that releases the lock while it copies is two definitions, its begin
  and its end, and their composition. Texts of errors and times of updates are left out.
\<close>

section \<open>State\<close>

record codec =
  cd_sha :: "bytes \<Rightarrow> string"
  cd_hash :: "string \<Rightarrow> string"
  cd_pack :: "entry list \<Rightarrow> bytes"
  cd_unpack :: "bytes \<Rightarrow> entry list option"

record claims =
  cl_version :: string
  cl_migration :: string
  cl_server :: string
  cl_source :: string
  cl_target :: string
  cl_direction :: string
  cl_expires :: gotime

record metadata =
  md_version :: string
  md_migration :: string
  md_server :: string
  md_source :: string
  md_target :: string
  md_direction :: string
  md_phase :: string
  md_hash :: string
  md_expires :: gotime
  md_consumed :: "gotime option"
  md_size :: int
  md_offset :: int
  md_checksum :: string

record engine =
  en_meta :: "string \<times> string \<rightharpoonup> metadata"
  en_data :: "string \<rightharpoonup> entries"
  en_archive :: "string \<rightharpoonup> bytes"
  en_incoming :: "string \<rightharpoonup> bytes"
  en_restored :: "string \<rightharpoonup> entries"
  en_previous :: "string \<rightharpoonup> entries"

datatype tr_error =
    Unauthorized
  | Expired
  | Replayed
  | OffsetMismatch
  | ChecksumMismatch
  | Bounds
  | InvalidBinding
  | Incomplete
  | BadDirection
  | BadIds
  | BadHash
  | NotReady
  | NotVerified
  | NotRestored
  | SaveFailed
  | CopyFailed
  | ArchiveFailed
  | RestoreFailed

abbreviation protocol_version :: string where
  "protocol_version \<equiv> ''forge-beacon-transfer/v1''"

abbreviation source_control :: string where
  "source_control \<equiv> ''source-control''"

abbreviation destination_upload :: string where
  "destination_upload \<equiv> ''destination-upload''"

section \<open>Credentials\<close>

text \<open>The characters that \<^verbatim>\<open>safeID\<close> refuses: its literal is a raw string, so that it names the slash, the
  backslash, the letter x and the digit zero.\<close>

definition safe_id :: "string \<Rightarrow> bool" where
  "safe_id v \<longleftrightarrow> v \<noteq> [] \<and> v \<noteq> ''.'' \<and> v \<noteq> ''..'' \<and>
     \<not> (\<exists>c \<in> set v. c \<in> {CHR ''/'', CHR 0x5C, CHR ''x'', CHR ''0''}) \<and> file_base v = v"

definition validate_claims :: "claims \<Rightarrow> tr_error option" where
  "validate_claims c =
     (if cl_version c \<noteq> protocol_version \<or> cl_migration c = [] \<or> cl_server c = [] \<or> cl_source c = [] \<or>
         cl_target c = [] \<or> cl_expires c = 0 then Some Incomplete
      else if cl_direction c \<noteq> source_control \<and> cl_direction c \<noteq> destination_upload then Some BadDirection
      else if \<not> (safe_id (cl_migration c) \<and> safe_id (cl_server c) \<and> safe_id (cl_source c) \<and> safe_id (cl_target c))
      then Some BadIds else None)"

definition hex_digit :: "char \<Rightarrow> bool" where
  "hex_digit c \<longleftrightarrow> (let n = (of_char c :: nat) in 48 \<le> n \<and> n \<le> 57 \<or> 97 \<le> n \<and> n \<le> 102 \<or> 65 \<le> n \<and> n \<le> 70)"

definition save_meta :: "metadata \<Rightarrow> engine \<Rightarrow> engine" where
  "save_meta m st = st\<lparr>en_meta := (en_meta st)((md_migration m, md_direction m) \<mapsto> m)\<rparr>"

definition try_save :: "bool \<Rightarrow> metadata \<Rightarrow> engine \<Rightarrow> engine" where
  "try_save ok m st = (if ok then save_meta m st else st)"

definition register :: "gotime \<Rightarrow> bool \<Rightarrow> claims \<Rightarrow> string \<Rightarrow> engine \<Rightarrow> (tr_error + unit) \<times> engine" where
  "register now ok c hash st =
     (case validate_claims c of
        Some e \<Rightarrow> (Inl e, st)
      | None \<Rightarrow>
          if cl_expires c < now then (Inl Expired, st)
          else if length hash \<noteq> 64 \<or> \<not> list_all hex_digit hash then (Inl BadHash, st)
          else (case en_meta st (cl_migration c, cl_direction c) of
            Some m \<Rightarrow>
              if md_version m \<noteq> cl_version c \<or> md_server m \<noteq> cl_server c \<or> md_source m \<noteq> cl_source c \<or>
                 md_target m \<noteq> cl_target c \<or> md_direction m \<noteq> cl_direction c then (Inl InvalidBinding, st)
              else (if ok then Inr () else Inl SaveFailed,
                    try_save ok (m\<lparr>md_hash := ascii_lower hash, md_expires := cl_expires c, md_consumed := None\<rparr>) st)
          | None \<Rightarrow>
              (if ok then Inr () else Inl SaveFailed,
               try_save ok \<lparr>md_version = protocol_version, md_migration = cl_migration c, md_server = cl_server c,
                 md_source = cl_source c, md_target = cl_target c, md_direction = cl_direction c,
                 md_phase = ''authorized'', md_hash = ascii_lower hash, md_expires = cl_expires c,
                 md_consumed = None, md_size = 0, md_offset = 0, md_checksum = []\<rparr> st)))"

definition authorize :: "codec \<Rightarrow> gotime \<Rightarrow> string \<Rightarrow> string \<Rightarrow> string \<Rightarrow> engine \<Rightarrow> tr_error + metadata" where
  "authorize cd now mig dir cred st =
     (case en_meta st (mig, dir) of
        None \<Rightarrow> Inl Unauthorized
      | Some m \<Rightarrow>
          if md_version m \<noteq> protocol_version \<or> md_migration m \<noteq> mig \<or> md_direction m \<noteq> dir then Inl InvalidBinding
          else if md_consumed m \<noteq> None then Inl Replayed
          else if \<not> now < md_expires m then Inl Expired
          else if cd_hash cd cred \<noteq> md_hash m then Inl Unauthorized
          else Inr m)"

section \<open>Source\<close>

text \<open>The begin of an operation answers at once or hands its copy of the metadata to the end.\<close>

datatype 'a progress = Answer 'a | Working metadata

definition prepare_begin ::
  "codec \<Rightarrow> gotime \<Rightarrow> bool \<Rightarrow> string \<Rightarrow> string \<Rightarrow> engine \<Rightarrow> (tr_error + metadata) progress \<times> engine" where
  "prepare_begin cd now ok mig cred st =
     (case authorize cd now mig source_control cred st of
        Inl e \<Rightarrow> (Answer (Inl e), st)
      | Inr m \<Rightarrow>
          if md_phase m = ''archived'' \<or> md_phase m = ''uploaded'' then (Answer (Inr m), st)
          else if \<not> ok then (Answer (Inl SaveFailed), st)
          else let m1 = m\<lparr>md_phase := ''archiving''\<rparr> in (Working m1, save_meta m1 st))"

text \<open>The archive of the data directory, or nothing when it cannot be made.\<close>

definition pack_server :: "codec \<Rightarrow> string \<Rightarrow> engine \<Rightarrow> bytes option" where
  "pack_server cd srv st =
     (case en_data st srv of
        None \<Rightarrow> None
      | Some tree \<Rightarrow> (case create_archive tree of Inl _ \<Rightarrow> None | Inr xs \<Rightarrow> Some (cd_pack cd xs)))"

definition prepare_end :: "codec \<Rightarrow> bool \<Rightarrow> bool \<Rightarrow> metadata \<Rightarrow> engine \<Rightarrow> (tr_error + metadata) \<times> engine" where
  "prepare_end cd io ok m st =
     (case (if io then pack_server cd (md_server m) st else None) of
        None \<Rightarrow> (Inl ArchiveFailed, try_save ok (m\<lparr>md_phase := ''failed''\<rparr>) st)
      | Some b \<Rightarrow>
          let m1 = m\<lparr>md_phase := ''archived'', md_checksum := cd_sha cd b, md_size := int (length b), md_offset := 0\<rparr>;
              st1 = st\<lparr>en_archive := (en_archive st)(md_migration m \<mapsto> b)\<rparr>
          in (if ok then Inr m1 else Inl SaveFailed, try_save ok m1 st1))"

definition prepare_source ::
  "codec \<Rightarrow> gotime \<Rightarrow> bool \<Rightarrow> bool \<Rightarrow> bool \<Rightarrow> string \<Rightarrow> string \<Rightarrow> engine \<Rightarrow> (tr_error + metadata) \<times> engine" where
  "prepare_source cd now ok1 io ok2 mig cred st =
     (case prepare_begin cd now ok1 mig cred st of
        (Answer r, st1) \<Rightarrow> (r, st1) | (Working m, st1) \<Rightarrow> prepare_end cd io ok2 m st1)"

definition source_archive ::
  "codec \<Rightarrow> gotime \<Rightarrow> string \<Rightarrow> string \<Rightarrow> int \<Rightarrow> engine \<Rightarrow> tr_error + bytes \<times> metadata" where
  "source_archive cd now mig cred off st =
     (case authorize cd now mig source_control cred st of
        Inl e \<Rightarrow> Inl e
      | Inr m \<Rightarrow>
          if md_phase m \<noteq> ''archived'' \<and> md_phase m \<noteq> ''uploading'' \<and> md_phase m \<noteq> ''uploaded'' then Inl NotReady
          else if off < 0 \<or> md_size m < off then Inl OffsetMismatch
          else (case en_archive st mig of None \<Rightarrow> Inl NotReady | Some b \<Rightarrow> Inr (drop (nat off) b, m)))"

definition cleanup_source :: "codec \<Rightarrow> gotime \<Rightarrow> bool \<Rightarrow> string \<Rightarrow> string \<Rightarrow> engine \<Rightarrow> (tr_error + unit) \<times> engine" where
  "cleanup_source cd now ok mig cred st =
     (case authorize cd now mig source_control cred st of
        Inl e \<Rightarrow> (Inl e, st)
      | Inr m \<Rightarrow>
          if \<not> ok then (Inl SaveFailed, st)
          else let st1 = save_meta (m\<lparr>md_phase := ''cleaned'', md_consumed := Some now\<rparr>) st
               in (Inr (), st1\<lparr>en_data := (en_data st1)(md_server m := None)\<rparr>))"

section \<open>Destination\<close>

definition destination_offset :: "codec \<Rightarrow> gotime \<Rightarrow> string \<Rightarrow> string \<Rightarrow> engine \<Rightarrow> tr_error + metadata" where
  "destination_offset cd now mig cred st = authorize cd now mig destination_upload cred st"

definition append_begin ::
  "codec \<Rightarrow> gotime \<Rightarrow> bool \<Rightarrow> string \<Rightarrow> string \<Rightarrow> int \<Rightarrow> int \<Rightarrow> string \<Rightarrow> engine
     \<Rightarrow> (tr_error + metadata) progress \<times> engine" where
  "append_begin cd now ok mig cred off len checksum st =
     (case authorize cd now mig destination_upload cred st of
        Inl e \<Rightarrow> (Answer (Inl e), st)
      | Inr m \<Rightarrow>
          if md_phase m = ''restored'' \<or> md_phase m = ''activated'' then (Answer (Inl Replayed), st)
          else if len \<le> 0 \<or> 34359738368 < len \<or> off < 0 \<or> off \<noteq> md_offset m \<or> len < off
          then (Answer (Inl OffsetMismatch), st)
          else if md_size m \<noteq> 0 \<and> md_size m \<noteq> len then (Answer (Inl Bounds), st)
          else if md_checksum m \<noteq> [] \<and> ascii_lower (md_checksum m) \<noteq> ascii_lower checksum
          then (Answer (Inl ChecksumMismatch), st)
          else if \<not> ok then (Answer (Inl SaveFailed), st)
          else
            let m1 = m\<lparr>md_size := len, md_checksum := ascii_lower checksum, md_phase := ''uploading''\<rparr>;
                fl = (case en_incoming st mig of None \<Rightarrow> [] | Some b \<Rightarrow> b);
                st1 = (save_meta m1 st)\<lparr>en_incoming := (en_incoming st)(mig \<mapsto> fl)\<rparr>
            in if int (length fl) \<noteq> off then (Answer (Inl OffsetMismatch), st1) else (Working m1, st1))"

text \<open>\<open>body\<close> is what arrives, \<open>broken\<close> that the connection or the disk failed. At most one byte more than
  what is missing is read. A cancelled upload has lost its file.\<close>

definition append_end ::
  "codec \<Rightarrow> bool \<Rightarrow> metadata \<Rightarrow> int \<Rightarrow> int \<Rightarrow> string \<Rightarrow> bytes \<Rightarrow> bool \<Rightarrow> engine \<Rightarrow> (tr_error + metadata) \<times> engine" where
  "append_end cd ok m off len checksum body broken st =
     (let mig = md_migration m; remaining = len - off; got = take (nat (remaining + 1)) body;
          written = int (length got); m1 = m\<lparr>md_offset := off + written\<rparr>;
          st1 = (case en_incoming st mig of
                   None \<Rightarrow> st | Some b \<Rightarrow> st\<lparr>en_incoming := (en_incoming st)(mig \<mapsto> b @ got)\<rparr>)
      in if broken \<or> remaining < written then (Inl CopyFailed, try_save ok m1 st1)
         else if md_offset m1 < len then (Inr m1, try_save ok m1 st1)
         else (case en_incoming st1 mig of
                 None \<Rightarrow> (Inl CopyFailed, try_save ok m1 st1)
               | Some b \<Rightarrow>
                   if ascii_lower (cd_sha cd b) \<noteq> ascii_lower checksum
                   then (Inl ChecksumMismatch, try_save ok (m1\<lparr>md_phase := ''failed''\<rparr>) st1)
                   else let m2 = m1\<lparr>md_phase := ''verified''\<rparr> in (Inr m2, try_save ok m2 st1)))"

definition append_destination ::
  "codec \<Rightarrow> gotime \<Rightarrow> bool \<Rightarrow> bool \<Rightarrow> string \<Rightarrow> string \<Rightarrow> int \<Rightarrow> int \<Rightarrow> string \<Rightarrow> bytes \<Rightarrow> bool \<Rightarrow> engine
     \<Rightarrow> (tr_error + metadata) \<times> engine" where
  "append_destination cd now ok1 ok2 mig cred off len checksum body broken st =
     (case append_begin cd now ok1 mig cred off len checksum st of
        (Answer r, st1) \<Rightarrow> (r, st1)
      | (Working m, st1) \<Rightarrow> append_end cd ok2 m off len checksum body broken st1)"

definition restore_begin ::
  "codec \<Rightarrow> gotime \<Rightarrow> bool \<Rightarrow> string \<Rightarrow> string \<Rightarrow> engine \<Rightarrow> (tr_error + metadata) progress \<times> engine" where
  "restore_begin cd now ok mig cred st =
     (case authorize cd now mig destination_upload cred st of
        Inl e \<Rightarrow> (Answer (Inl e), st)
      | Inr m \<Rightarrow>
          if md_phase m = ''restored'' then (Answer (Inr m), st)
          else if md_phase m \<noteq> ''verified'' then (Answer (Inl NotVerified), st)
          else let m1 = m\<lparr>md_phase := ''restoring''\<rparr>
               in (Working m1, try_save ok m1 (st\<lparr>en_restored := (en_restored st)(mig \<mapsto> [])\<rparr>)))"

definition extract_incoming :: "codec \<Rightarrow> string \<Rightarrow> engine \<Rightarrow> entries option" where
  "extract_incoming cd mig st =
     (case en_incoming st mig of
        None \<Rightarrow> None
      | Some b \<Rightarrow>
          (case cd_unpack cd b of
             None \<Rightarrow> None
           | Some xs \<Rightarrow>
               (case (case en_restored st mig of None \<Rightarrow> Inl BadName | Some staging \<Rightarrow> extract_all staging xs) of
                  Inl _ \<Rightarrow> None | Inr tree \<Rightarrow> Some tree)))"

definition activate :: "string \<Rightarrow> string \<Rightarrow> entries \<Rightarrow> engine \<Rightarrow> engine" where
  "activate srv mig tree st =
     st\<lparr>en_previous := (en_previous st)(mig := en_data st srv), en_data := (en_data st)(srv \<mapsto> tree),
        en_restored := (en_restored st)(mig := None)\<rparr>"

definition restore_end :: "codec \<Rightarrow> bool \<Rightarrow> bool \<Rightarrow> metadata \<Rightarrow> engine \<Rightarrow> (tr_error + metadata) \<times> engine" where
  "restore_end cd io ok m st =
     (case (if io then extract_incoming cd (md_migration m) st else None) of
        None \<Rightarrow> (Inl RestoreFailed, try_save ok (m\<lparr>md_phase := ''failed''\<rparr>) st)
      | Some tree \<Rightarrow>
          let m1 = m\<lparr>md_phase := ''restored''\<rparr>; st1 = activate (md_server m) (md_migration m) tree st in
          if ok then (Inr m1, (save_meta m1 st1)\<lparr>en_incoming := (en_incoming st1)(md_migration m := None)\<rparr>)
          else (Inl SaveFailed, st1))"

definition restore_destination ::
  "codec \<Rightarrow> gotime \<Rightarrow> bool \<Rightarrow> bool \<Rightarrow> bool \<Rightarrow> string \<Rightarrow> string \<Rightarrow> engine \<Rightarrow> (tr_error + metadata) \<times> engine" where
  "restore_destination cd now ok1 io ok2 mig cred st =
     (case restore_begin cd now ok1 mig cred st of
        (Answer r, st1) \<Rightarrow> (r, st1) | (Working m, st1) \<Rightarrow> restore_end cd io ok2 m st1)"

definition finalize_destination ::
  "codec \<Rightarrow> gotime \<Rightarrow> bool \<Rightarrow> string \<Rightarrow> string \<Rightarrow> engine \<Rightarrow> (tr_error + unit) \<times> engine" where
  "finalize_destination cd now ok mig cred st =
     (case authorize cd now mig destination_upload cred st of
        Inl e \<Rightarrow> (Inl e, st)
      | Inr m \<Rightarrow>
          if md_phase m \<noteq> ''restored'' then (Inl NotRestored, st)
          else if \<not> ok then (Inl SaveFailed, st)
          else let st1 = save_meta (m\<lparr>md_phase := ''activated'', md_consumed := Some now\<rparr>) st
               in (Inr (), st1\<lparr>en_previous := (en_previous st1)(mig := None),
                     en_restored := (en_restored st1)(mig := None), en_incoming := (en_incoming st1)(mig := None)\<rparr>))"

section \<open>Cancelling\<close>

text \<open>The metadata of both directions is marked, the replaced data directory is put back when one was
  moved aside, and then the whole directory of the transfer goes, the metadata with it.\<close>

definition rollback :: "string \<Rightarrow> engine \<Rightarrow> engine" where
  "rollback mig st =
     (case en_previous st mig of
        None \<Rightarrow> st
      | Some old \<Rightarrow>
          (case (en_meta st (mig, destination_upload), en_meta st (mig, source_control)) of
             (Some m, _) \<Rightarrow> st\<lparr>en_data := (en_data st)(md_server m \<mapsto> old)\<rparr>
           | (None, Some m) \<Rightarrow> st\<lparr>en_data := (en_data st)(md_server m \<mapsto> old)\<rparr>
           | (None, None) \<Rightarrow> st))"

definition cancel_engine :: "string \<Rightarrow> engine \<Rightarrow> engine" where
  "cancel_engine mig st =
     (let st1 = rollback mig st in
      st1\<lparr>en_meta := (en_meta st1)((mig, source_control) := None, (mig, destination_upload) := None),
          en_archive := (en_archive st1)(mig := None), en_incoming := (en_incoming st1)(mig := None),
          en_restored := (en_restored st1)(mig := None), en_previous := (en_previous st1)(mig := None)\<rparr>)"

section \<open>Runs of the engine\<close>

text \<open>One request after another, for any transfers, at any time, with any faults.\<close>

inductive engine_step :: "codec \<Rightarrow> engine \<Rightarrow> engine \<Rightarrow> bool" for cd where
  es_register: "engine_step cd st (snd (register now ok c hash st))"
| es_prepare: "engine_step cd st (snd (prepare_source cd now ok1 io ok2 mig cred st))"
| es_append: "engine_step cd st (snd (append_destination cd now ok1 ok2 mig cred off len checksum body broken st))"
| es_restore: "engine_step cd st (snd (restore_destination cd now ok1 io ok2 mig cred st))"
| es_finalize: "engine_step cd st (snd (finalize_destination cd now ok mig cred st))"
| es_cleanup: "engine_step cd st (snd (cleanup_source cd now ok mig cred st))"
| es_cancel: "engine_step cd st (cancel_engine mig st)"
| es_data: "engine_step cd st (st\<lparr>en_data := dt\<rparr>)"

definition fresh_engine :: "engine \<Rightarrow> bool" where
  "fresh_engine st \<longleftrightarrow> en_meta st = Map.empty"

inductive engine_reachable :: "codec \<Rightarrow> engine \<Rightarrow> bool" for cd where
  er_fresh: "fresh_engine st \<Longrightarrow> engine_reachable cd st"
| er_step: "engine_reachable cd st \<Longrightarrow> engine_step cd st st' \<Longrightarrow> engine_reachable cd st'"

text \<open>What the metadata says of the files: an archived source has its archive, a verified upload has the
  announced size and checksum.\<close>

definition source_ok :: "codec \<Rightarrow> bytes option \<Rightarrow> metadata \<Rightarrow> bool" where
  "source_ok cd fl m \<longleftrightarrow> md_phase m \<noteq> ''uploading'' \<and> (md_phase m \<in> {''archived'', ''uploaded''} \<longrightarrow>
     (\<exists>b. fl = Some b \<and> md_size m = int (length b) \<and> md_checksum m = cd_sha cd b))"

definition upload_ok :: "codec \<Rightarrow> bytes option \<Rightarrow> metadata \<Rightarrow> bool" where
  "upload_ok cd fl m \<longleftrightarrow> (md_phase m = ''verified'' \<longrightarrow>
     (\<exists>b. fl = Some b \<and> md_size m = int (length b) \<and> md_checksum m = ascii_lower (cd_sha cd b)))"

definition meta_ok :: "codec \<Rightarrow> engine \<Rightarrow> string \<times> string \<Rightarrow> metadata \<Rightarrow> bool" where
  "meta_ok cd st k m \<longleftrightarrow> (md_migration m, md_direction m) = k \<and>
     (snd k = source_control \<longrightarrow> source_ok cd (en_archive st (fst k)) m) \<and>
     (snd k = destination_upload \<longrightarrow> upload_ok cd (en_incoming st (fst k)) m)"

definition engine_inv :: "codec \<Rightarrow> engine \<Rightarrow> bool" where
  "engine_inv cd st \<longleftrightarrow> (\<forall>k m. en_meta st k = Some m \<longrightarrow> meta_ok cd st k m)"

lemma engine_inv_meta: "engine_inv cd st \<Longrightarrow> en_meta st k = Some m \<Longrightarrow> meta_ok cd st k m"
  unfolding engine_inv_def by blast

lemma authorize_Inr:
  assumes "authorize cd now mig dir cred st = Inr m"
  shows "en_meta st (mig, dir) = Some m" "md_migration m = mig" "md_direction m = dir" "md_consumed m = None"
    "now < md_expires m" "cd_hash cd cred = md_hash m"
  using assms by (auto simp: authorize_def split: option.splits if_splits)

lemma directions_differ [simp]: "source_control \<noteq> destination_upload" "destination_upload \<noteq> source_control"
  by simp_all

text \<open>A write of one metadata file.\<close>

lemma inv_save:
  assumes "engine_inv cd st" "meta_ok cd st (md_migration m, md_direction m) m"
  shows "engine_inv cd (try_save ok m st)"
proof (cases ok)
  case True
  have "meta_ok cd (save_meta m st) k n = meta_ok cd st k n" for k n
    by (simp add: meta_ok_def save_meta_def)
  with assms True show ?thesis by (simp add: engine_inv_def try_save_def) (simp add: save_meta_def)
next
  case False
  with assms show ?thesis by (simp add: try_save_def)
qed

text \<open>A change of files that no metadata speaks of.\<close>

lemma inv_files:
  assumes "engine_inv cd st" "en_meta st' = en_meta st"
    and "\<And>k m. en_meta st k = Some m \<Longrightarrow> meta_ok cd st k m \<Longrightarrow> meta_ok cd st' k m"
  shows "engine_inv cd st'"
  using assms unfolding engine_inv_def by metis

lemma inv_archive:
  assumes "engine_inv cd st" "en_meta st (mig, source_control) = Some m" "source_ok cd (Some b) m"
  shows "engine_inv cd (st\<lparr>en_archive := (en_archive st)(mig \<mapsto> b)\<rparr>)"
  using assms(2,3) by (intro inv_files [OF assms(1)]) (auto simp: meta_ok_def)

lemma inv_incoming:
  assumes "engine_inv cd st" "\<And>m. en_meta st (mig, destination_upload) = Some m \<Longrightarrow> upload_ok cd f m"
  shows "engine_inv cd (st\<lparr>en_incoming := (en_incoming st)(mig := f)\<rparr>)"
  using assms(2) by (intro inv_files [OF assms(1)]) (auto simp: meta_ok_def)

lemma inv_data [simp]: "engine_inv cd (st\<lparr>en_data := dt\<rparr>) = engine_inv cd st"
  by (simp add: engine_inv_def meta_ok_def)

lemma inv_restored [simp]:
  "engine_inv cd (st\<lparr>en_restored := r\<rparr>) = engine_inv cd st" "engine_inv cd (st\<lparr>en_previous := r\<rparr>) = engine_inv cd st"
  by (simp_all add: engine_inv_def meta_ok_def)

lemma inv_register: "engine_inv cd st \<Longrightarrow> engine_inv cd (snd (register now ok c hash st))"
proof -
  assume inv: "engine_inv cd st"
  have new: "engine_inv cd (try_save ok \<lparr>md_version = protocol_version, md_migration = cl_migration c, md_server = cl_server c,
      md_source = cl_source c, md_target = cl_target c, md_direction = cl_direction c,
      md_phase = ''authorized'', md_hash = ascii_lower hash, md_expires = cl_expires c,
      md_consumed = None, md_size = 0, md_offset = 0, md_checksum = []\<rparr> st)"
    by (rule inv_save [OF inv]) (simp add: meta_ok_def source_ok_def upload_ok_def)
  have old: "engine_inv cd (try_save ok (m\<lparr>md_hash := ascii_lower hash, md_expires := cl_expires c, md_consumed := None\<rparr>) st)"
    if "en_meta st (cl_migration c, cl_direction c) = Some m" for m
    using engine_inv_meta [OF inv that] by (intro inv_save [OF inv]) (simp add: meta_ok_def source_ok_def upload_ok_def)
  show ?thesis using inv new old unfolding register_def by (cases ok) (simp_all split: option.split)
qed

lemma inv_prepare: "engine_inv cd st \<Longrightarrow> engine_inv cd (snd (prepare_source cd now ok1 io ok2 mig cred st))"
proof -
  assume inv: "engine_inv cd st"
  show ?thesis
  proof (cases "prepare_begin cd now ok1 mig cred st")
    case (Pair a st1)
    show ?thesis
    proof (cases a)
      case (Answer r)
      with Pair inv show ?thesis
        by (auto simp: prepare_source_def prepare_begin_def Let_def split: sum.splits if_splits)
    next
      case (Working m)
      with Pair obtain m0 where m0: "authorize cd now mig source_control cred st = Inr m0"
        "m = m0\<lparr>md_phase := ''archiving''\<rparr>" "st1 = try_save True m st"
        by (auto simp: prepare_begin_def Let_def try_save_def split: sum.splits if_splits)
      note a = authorize_Inr [OF m0(1)]
      note ok0 = engine_inv_meta [OF inv a(1)]
      have i1: "engine_inv cd st1" unfolding m0(3)
        by (rule inv_save [OF inv]) (use ok0 a m0(2) in \<open>simp add: meta_ok_def source_ok_def\<close>)
      have k1: "en_meta st1 (mig, source_control) = Some m"
        using a m0 by (simp add: try_save_def save_meta_def)
      have fail: "engine_inv cd (try_save ok2 (m\<lparr>md_phase := ''failed''\<rparr>) st1)"
        by (rule inv_save [OF i1]) (use ok0 a m0(2) in \<open>simp add: meta_ok_def source_ok_def\<close>)
      let ?st2 = "\<lambda>b. st1\<lparr>en_archive := (en_archive st1)(mig \<mapsto> b)\<rparr>"
      let ?m2 = "\<lambda>b. m\<lparr>md_phase := ''archived'', md_checksum := cd_sha cd b, md_size := int (length b), md_offset := 0\<rparr>"
      have i2: "engine_inv cd (?st2 b)" for b
        by (rule inv_archive [OF i1 k1]) (simp add: m0(2) source_ok_def)
      have "engine_inv cd (try_save ok2 (?m2 b) (?st2 b))" for b
        by (rule inv_save [OF i2]) (use ok0 a m0(2) in \<open>simp add: meta_ok_def source_ok_def\<close>)
      moreover have "md_migration m = mig" using a m0(2) by simp
      ultimately show ?thesis using fail Pair Working
        by (simp add: prepare_source_def prepare_end_def Let_def split: option.split)
    qed
  qed
qed

text \<open>What the begin of an upload hands over.\<close>

lemma append_begin_working:
  assumes "append_begin cd now ok mig cred off len checksum st = (Working m, st1)"
  obtains m0 fl where "authorize cd now mig destination_upload cred st = Inr m0"
    "m = m0\<lparr>md_size := len, md_checksum := ascii_lower checksum, md_phase := ''uploading''\<rparr>"
    "fl = (case en_incoming st mig of None \<Rightarrow> [] | Some b \<Rightarrow> b)" "int (length fl) = off" "off \<le> len" "0 \<le> off" "off = md_offset m0"
    "st1 = (save_meta m st)\<lparr>en_incoming := (en_incoming st)(mig \<mapsto> fl)\<rparr>"
  using assms by (auto simp: append_begin_def Let_def split: sum.splits if_splits)

lemma append_begin_answer:
  assumes "append_begin cd now ok mig cred off len checksum st = (Answer r, st1)"
  shows "st1 = st \<or> (\<exists>m0 fl. authorize cd now mig destination_upload cred st = Inr m0 \<and>
    st1 = (save_meta (m0\<lparr>md_size := len, md_checksum := ascii_lower checksum, md_phase := ''uploading''\<rparr>) st)
      \<lparr>en_incoming := (en_incoming st)(mig \<mapsto> fl)\<rparr>)"
  using assms by (auto simp: append_begin_def Let_def split: sum.splits if_splits)

lemma inv_uploading:
  assumes inv: "engine_inv cd st" and a: "authorize cd now mig destination_upload cred st = Inr m0"
    and m: "m = m0\<lparr>md_size := len, md_checksum := cs, md_phase := ''uploading''\<rparr>"
  shows "engine_inv cd ((save_meta m st)\<lparr>en_incoming := (en_incoming st)(mig \<mapsto> fl)\<rparr>)"
    "en_meta (save_meta m st) (mig, destination_upload) = Some m"
proof -
  note au = authorize_Inr [OF a]
  show k: "en_meta (save_meta m st) (mig, destination_upload) = Some m" using au m by (simp add: save_meta_def)
  have "engine_inv cd (try_save True m st)"
    by (rule inv_save [OF inv]) (use au m in \<open>simp add: meta_ok_def upload_ok_def\<close>)
  then have "engine_inv cd (save_meta m st)" by (simp add: try_save_def)
  from inv_incoming [OF this, of mig "Some fl"] k
  show "engine_inv cd ((save_meta m st)\<lparr>en_incoming := (en_incoming st)(mig \<mapsto> fl)\<rparr>)"
    by (simp add: upload_ok_def m) (simp add: save_meta_def)
qed

lemma einv_append:
  assumes inv: "engine_inv cd st"
  shows "engine_inv cd (snd (append_destination cd now ok1 ok2 mig cred off len checksum body broken st))"
proof (cases "append_begin cd now ok1 mig cred off len checksum st")
  case (Pair a st1)
  show ?thesis
  proof (cases a)
    case (Answer r)
    with append_begin_answer Pair have "engine_inv cd st1" using inv inv_uploading(1) [OF inv _ refl] by metis
    with Pair Answer show ?thesis by (simp add: append_destination_def)
  next
    case (Working m)
    with Pair obtain m0 fl where w: "authorize cd now mig destination_upload cred st = Inr m0"
      "m = m0\<lparr>md_size := len, md_checksum := ascii_lower checksum, md_phase := ''uploading''\<rparr>"
      "int (length fl) = off" "off \<le> len"
      "st1 = (save_meta m st)\<lparr>en_incoming := (en_incoming st)(mig \<mapsto> fl)\<rparr>"
      by (auto elim: append_begin_working)
    note au = authorize_Inr [OF w(1)]
    have i1: "engine_inv cd st1" and k1: "en_meta st1 (mig, destination_upload) = Some m"
      using inv_uploading(1) [OF inv w(1,2), of fl] inv_uploading(2) [OF inv w(1,2)] w(5) by simp_all
    define got where "got = take (nat (len - off + 1)) body"
    define st2 where "st2 = st1\<lparr>en_incoming := (en_incoming st1)(mig \<mapsto> fl @ got)\<rparr>"
    have i2: "engine_inv cd st2" unfolding st2_def
      using k1 w(2) by (intro inv_incoming [OF i1]) (simp add: upload_ok_def)
    have k: "md_migration m = mig" "md_direction m = destination_upload" using au w(2) by simp_all
    have s: "engine_inv cd (try_save ok2 (m\<lparr>md_offset := x, md_phase := ph\<rparr>) st2)"
      if "ph = ''verified'' \<longrightarrow> int (length (fl @ got)) = len \<and> ascii_lower (cd_sha cd (fl @ got)) = ascii_lower checksum" for x ph
      by (rule inv_save [OF i2]) (use that w(2) k in \<open>simp add: meta_ok_def upload_ok_def st2_def\<close>)
    have "m\<lparr>md_offset := x\<rparr> = m\<lparr>md_offset := x, md_phase := ''uploading''\<rparr>" for x using w(2) by simp
    then have u: "engine_inv cd (try_save ok2 (m\<lparr>md_offset := x\<rparr>) st2)" for x using s [of "''uploading''" x] by simp
    have e: "append_end cd ok2 m off len checksum body broken st1 =
      (if broken \<or> len - off < int (length got) then (Inl CopyFailed, try_save ok2 (m\<lparr>md_offset := off + int (length got)\<rparr>) st2)
       else if off + int (length got) < len then (Inr (m\<lparr>md_offset := off + int (length got)\<rparr>), try_save ok2 (m\<lparr>md_offset := off + int (length got)\<rparr>) st2)
       else if ascii_lower (cd_sha cd (fl @ got)) \<noteq> ascii_lower checksum
         then (Inl ChecksumMismatch, try_save ok2 (m\<lparr>md_offset := off + int (length got), md_phase := ''failed''\<rparr>) st2)
         else (Inr (m\<lparr>md_offset := off + int (length got), md_phase := ''verified''\<rparr>),
               try_save ok2 (m\<lparr>md_offset := off + int (length got), md_phase := ''verified''\<rparr>) st2))"
      unfolding append_end_def Let_def k(1) got_def [symmetric] st2_def
      using w(5) by (simp add: save_meta_def)
    have "engine_inv cd (snd (append_end cd ok2 m off len checksum body broken st1))"
      unfolding e using w(3,4) by (simp add: s u)
    with Pair Working show ?thesis by (simp add: append_destination_def)
  qed
qed

lemma einv_finalize:
  assumes "engine_inv cd st"
  shows "engine_inv cd (snd (finalize_destination cd now ok mig cred st))"
proof (cases "authorize cd now mig destination_upload cred st")
  case (Inr m)
  note au = authorize_Inr [OF Inr]
  define m1 where "m1 = m\<lparr>md_phase := ''activated'', md_consumed := Some now\<rparr>"
  have "engine_inv cd (try_save True m1 st)"
    by (rule inv_save [OF assms]) (use au in \<open>simp add: m1_def meta_ok_def upload_ok_def\<close>)
  then have i: "engine_inv cd (save_meta m1 st)" by (simp add: try_save_def)
  have "en_meta (save_meta m1 st) (mig, destination_upload) = Some m1" using au by (simp add: save_meta_def m1_def)
  then have "engine_inv cd ((save_meta m1 st)\<lparr>en_incoming := (en_incoming (save_meta m1 st))(mig := None)\<rparr>)"
    by (intro inv_incoming [OF i]) (auto simp: upload_ok_def m1_def)
  then have "engine_inv cd ((save_meta m1 st)\<lparr>en_previous := p, en_restored := r,
      en_incoming := (en_incoming (save_meta m1 st))(mig := None)\<rparr>)" for p r
    by (simp add: engine_inv_def meta_ok_def)
  with assms Inr show ?thesis by (simp add: finalize_destination_def Let_def m1_def [symmetric])
qed (simp add: finalize_destination_def assms)

lemma inv_cleanup:
  assumes "engine_inv cd st"
  shows "engine_inv cd (snd (cleanup_source cd now ok mig cred st))"
proof (cases "authorize cd now mig source_control cred st")
  case (Inr m)
  note au = authorize_Inr [OF Inr]
  have "engine_inv cd (try_save True (m\<lparr>md_phase := ''cleaned'', md_consumed := Some now\<rparr>) st)"
    by (rule inv_save [OF assms]) (use au in \<open>simp add: meta_ok_def source_ok_def\<close>)
  with assms Inr show ?thesis by (simp add: cleanup_source_def Let_def try_save_def)
qed (simp add: cleanup_source_def assms)

lemma inv_cancel:
  assumes "engine_inv cd st"
  shows "engine_inv cd (cancel_engine mig st)"
proof -
  have meta: "en_meta (cancel_engine mig st) = (en_meta st)((mig, source_control) := None, (mig, destination_upload) := None)"
    "en_archive (cancel_engine mig st) = (en_archive st)(mig := None)"
    "en_incoming (cancel_engine mig st) = (en_incoming st)(mig := None)"
    by (simp_all add: cancel_engine_def rollback_def Let_def split: option.split)
  have "meta_ok cd (cancel_engine mig st) k m"
    if "en_meta (cancel_engine mig st) k = Some m" for k m
  proof -
    have k: "en_meta st k = Some m" "k \<noteq> (mig, source_control)" "k \<noteq> (mig, destination_upload)"
      using that unfolding meta(1) by (auto split: if_splits)
    have "meta_ok cd st k m" by (rule engine_inv_meta [OF assms k(1)])
    with k(2,3) show ?thesis unfolding meta_ok_def meta by (cases k) auto
  qed
  then show ?thesis unfolding engine_inv_def by blast
qed

lemma inv_restore:
  assumes "engine_inv cd st"
  shows "engine_inv cd (snd (restore_destination cd now ok1 io ok2 mig cred st))"
proof (cases "restore_begin cd now ok1 mig cred st")
  case (Pair a st1)
  show ?thesis
  proof (cases a)
    case (Answer r)
    with Pair assms show ?thesis
      by (auto simp: restore_destination_def restore_begin_def Let_def split: sum.splits if_splits)
  next
    case (Working m)
    with Pair obtain m0 where m0: "authorize cd now mig destination_upload cred st = Inr m0"
      "m = m0\<lparr>md_phase := ''restoring''\<rparr>" "st1 = try_save ok1 m (st\<lparr>en_restored := (en_restored st)(mig \<mapsto> [])\<rparr>)"
      by (auto simp: restore_begin_def Let_def split: sum.splits if_splits)
    note au = authorize_Inr [OF m0(1)]
    have ok: "meta_ok cd x (md_migration m, md_direction m) (m\<lparr>md_phase := ph\<rparr>)" if "ph \<noteq> ''verified''" for x ph
      using au m0(2) that by (simp add: meta_ok_def upload_ok_def)
    have "meta_ok cd x (md_migration m, md_direction m) m" for x
      using ok [of "''restoring''" x] m0(2) by simp
    then have i1: "engine_inv cd st1" unfolding m0(3) using assms by (intro inv_save) simp_all
    define st2 where "st2 tree = activate (md_server m) (md_migration m) tree st1" for tree
    have i2: "engine_inv cd (st2 tree)" for tree
      using i1 by (simp add: st2_def activate_def engine_inv_def meta_ok_def)
    have "engine_inv cd (try_save True (m\<lparr>md_phase := ''restored''\<rparr>) (st2 tree))" for tree
      by (rule inv_save [OF i2]) (use ok [of "''restored''"] in simp)
    then have i3: "engine_inv cd (save_meta (m\<lparr>md_phase := ''restored''\<rparr>) (st2 tree))" for tree by (simp add: try_save_def)
    have "engine_inv cd ((save_meta (m\<lparr>md_phase := ''restored''\<rparr>) (st2 tree))
        \<lparr>en_incoming := (en_incoming (save_meta (m\<lparr>md_phase := ''restored''\<rparr>) (st2 tree)))(md_migration m := None)\<rparr>)" for tree
      by (rule inv_incoming [OF i3]) (use au m0(2) in \<open>simp add: save_meta_def upload_ok_def\<close>)
    then have s: "engine_inv cd ((save_meta (m\<lparr>md_phase := ''restored''\<rparr>) (st2 tree))
        \<lparr>en_incoming := (en_incoming (st2 tree))(md_migration m := None)\<rparr>)" for tree
      by (simp add: save_meta_def)
    have f: "engine_inv cd (try_save ok2 (m\<lparr>md_phase := ''failed''\<rparr>) st1)"
      by (rule inv_save [OF i1]) (use ok [of "''failed''"] in simp)
    from Pair Working i2 s f show ?thesis
      by (simp add: restore_destination_def restore_end_def Let_def st2_def [symmetric] split: option.split)
  qed
qed

lemma engine_reachable_inv: "engine_reachable cd st \<Longrightarrow> engine_inv cd st"
proof (induction rule: engine_reachable.induct)
  case (er_fresh st)
  then show ?case by (simp add: fresh_engine_def engine_inv_def)
next
  case (er_step st st')
  from er_step(2) show ?case
    by cases (simp_all only: inv_register inv_prepare einv_append inv_restore einv_finalize inv_cleanup inv_cancel inv_data er_step.IH)
qed

section \<open>Properties of the engine\<close>


text \<open>A transfer is closed in a direction when no credential can open it.\<close>

definition closed_transfer :: "string \<Rightarrow> string \<Rightarrow> engine \<Rightarrow> bool" where
  "closed_transfer mig dir st \<longleftrightarrow> (case en_meta st (mig, dir) of None \<Rightarrow> True | Some m \<Rightarrow> md_consumed m \<noteq> None)"

lemma closed_refuses: "closed_transfer mig dir st \<Longrightarrow> isl (authorize cd now mig dir cred st)"
  by (auto simp: closed_transfer_def authorize_def split: option.splits)

text \<open>Every operation but registration writes only metadata that a credential has opened.\<close>

definition opened_only :: "engine \<Rightarrow> engine \<Rightarrow> bool" where
  "opened_only st st' \<longleftrightarrow> (\<forall>mig dir. closed_transfer mig dir st \<longrightarrow> closed_transfer mig dir st')"

lemma en_meta_save: "en_meta (try_save ok m st) = (if ok then (en_meta st)((md_migration m, md_direction m) \<mapsto> m) else en_meta st)"
  "en_meta (save_meta m st) = (en_meta st)((md_migration m, md_direction m) \<mapsto> m)"
  by (simp_all add: try_save_def save_meta_def)

lemma opened_onlyI:
  assumes "\<And>e. authorize cd now mig dir cred st = Inl e \<Longrightarrow> en_meta st' = en_meta st"
    and "\<And>m k. authorize cd now mig dir cred st = Inr m \<Longrightarrow> k \<noteq> (mig, dir) \<Longrightarrow> en_meta st' k = en_meta st k"
  shows "opened_only st st'"
proof (cases "authorize cd now mig dir cred st")
  case (Inl e)
  with assms(1) show ?thesis by (simp add: opened_only_def closed_transfer_def)
next
  case (Inr m)
  note au = authorize_Inr [OF Inr]
  have "closed_transfer mig' dir' st'" if "closed_transfer mig' dir' st" for mig' dir'
  proof -
    have "(mig', dir') \<noteq> (mig, dir)" using that au(1,4) by (auto simp: closed_transfer_def)
    with assms(2) [OF Inr] that show ?thesis by (simp add: closed_transfer_def)
  qed
  then show ?thesis by (simp add: opened_only_def)
qed

lemma opened_only_prepare: "opened_only st (snd (prepare_source cd now ok1 io ok2 mig cred st))"
proof (rule opened_onlyI)
  fix m k assume a: "authorize cd now mig source_control cred st = Inr m" and k: "k \<noteq> (mig, source_control)"
  from authorize_Inr [OF a] k show "en_meta (snd (prepare_source cd now ok1 io ok2 mig cred st)) k = en_meta st k"
    by (simp add: prepare_source_def prepare_begin_def prepare_end_def a Let_def en_meta_save split: option.split)
qed (simp add: prepare_source_def prepare_begin_def)

lemma opened_only_append:
  "opened_only st (snd (append_destination cd now ok1 ok2 mig cred off len checksum body broken st))"
proof (rule opened_onlyI)
  fix m k assume a: "authorize cd now mig destination_upload cred st = Inr m" and k: "k \<noteq> (mig, destination_upload)"
  from authorize_Inr [OF a] k
  show "en_meta (snd (append_destination cd now ok1 ok2 mig cred off len checksum body broken st)) k = en_meta st k"
    by (simp add: append_destination_def append_begin_def append_end_def a Let_def en_meta_save split: option.split)
qed (simp add: append_destination_def append_begin_def)

lemma opened_only_restore: "opened_only st (snd (restore_destination cd now ok1 io ok2 mig cred st))"
proof (rule opened_onlyI)
  fix m k assume a: "authorize cd now mig destination_upload cred st = Inr m" and k: "k \<noteq> (mig, destination_upload)"
  from authorize_Inr [OF a] k
  show "en_meta (snd (restore_destination cd now ok1 io ok2 mig cred st)) k = en_meta st k"
    by (simp add: restore_destination_def restore_begin_def restore_end_def activate_def a Let_def en_meta_save
        split: option.split)
qed (simp add: restore_destination_def restore_begin_def)

lemma opened_only_finalize: "opened_only st (snd (finalize_destination cd now ok mig cred st))"
proof (rule opened_onlyI)
  fix m k assume a: "authorize cd now mig destination_upload cred st = Inr m" and k: "k \<noteq> (mig, destination_upload)"
  from authorize_Inr [OF a] k show "en_meta (snd (finalize_destination cd now ok mig cred st)) k = en_meta st k"
    by (simp add: finalize_destination_def a Let_def en_meta_save)
qed (simp add: finalize_destination_def)

lemma opened_only_cleanup: "opened_only st (snd (cleanup_source cd now ok mig cred st))"
proof (rule opened_onlyI)
  fix m k assume a: "authorize cd now mig source_control cred st = Inr m" and k: "k \<noteq> (mig, source_control)"
  from authorize_Inr [OF a] k show "en_meta (snd (cleanup_source cd now ok mig cred st)) k = en_meta st k"
    by (simp add: cleanup_source_def a Let_def en_meta_save)
qed (simp add: cleanup_source_def)

lemma cancel_meta:
  "en_meta (cancel_engine mig st) = (en_meta st)((mig, source_control) := None, (mig, destination_upload) := None)"
  by (simp add: cancel_engine_def rollback_def Let_def split: option.split)

lemma opened_only_cancel: "opened_only st (cancel_engine mig st)"
  by (auto simp: opened_only_def closed_transfer_def cancel_meta)

lemma register_closed:
  assumes "closed_transfer mig dir st" "(cl_migration c, cl_direction c) \<noteq> (mig, dir)" "engine_inv cd st"
  shows "closed_transfer mig dir (snd (register now ok c hash st))"
proof -
  note key = assms(2) [symmetric]
  have "en_meta (snd (register now ok c hash st)) (mig, dir) = en_meta st (mig, dir)"
  proof (cases "en_meta st (cl_migration c, cl_direction c)")
    case None
    with key show ?thesis by (simp add: register_def en_meta_save del: prod.inject split: option.split)
  next
    case (Some m)
    have "md_migration m = cl_migration c" "md_direction m = cl_direction c"
      using engine_inv_meta [OF assms(3) Some] by (simp_all add: meta_ok_def)
    with key Some show ?thesis by (simp add: register_def en_meta_save del: prod.inject split: option.split)
  qed
  with assms(1) show ?thesis by (simp add: closed_transfer_def)
qed

text \<open>Steps other than a registration for the given transfer and direction.\<close>

inductive quiet_steps :: "codec \<Rightarrow> string \<Rightarrow> string \<Rightarrow> engine \<Rightarrow> engine \<Rightarrow> bool" for cd mig dir where
  qs_refl: "quiet_steps cd mig dir st st"
| qs_register: "quiet_steps cd mig dir st st' \<Longrightarrow> (cl_migration c, cl_direction c) \<noteq> (mig, dir) \<Longrightarrow>
    quiet_steps cd mig dir st (snd (register now ok c hash st'))"
| qs_prepare: "quiet_steps cd mig dir st st' \<Longrightarrow> quiet_steps cd mig dir st (snd (prepare_source cd now ok1 io ok2 mg cred st'))"
| qs_append: "quiet_steps cd mig dir st st' \<Longrightarrow>
    quiet_steps cd mig dir st (snd (append_destination cd now ok1 ok2 mg cred off len checksum body broken st'))"
| qs_restore: "quiet_steps cd mig dir st st' \<Longrightarrow> quiet_steps cd mig dir st (snd (restore_destination cd now ok1 io ok2 mg cred st'))"
| qs_finalize: "quiet_steps cd mig dir st st' \<Longrightarrow> quiet_steps cd mig dir st (snd (finalize_destination cd now ok mg cred st'))"
| qs_cleanup: "quiet_steps cd mig dir st st' \<Longrightarrow> quiet_steps cd mig dir st (snd (cleanup_source cd now ok mg cred st'))"
| qs_cancel: "quiet_steps cd mig dir st st' \<Longrightarrow> quiet_steps cd mig dir st (cancel_engine mg st')"

lemma quiet_closed:
  "quiet_steps cd mig dir st st' \<Longrightarrow> engine_inv cd st \<Longrightarrow> closed_transfer mig dir st \<Longrightarrow>
   engine_inv cd st' \<and> closed_transfer mig dir st'"
proof (induction rule: quiet_steps.induct)
  case (qs_register st st' c now ok hash)
  from qs_register.IH [OF qs_register.prems] have "engine_inv cd st'" "closed_transfer mig dir st'" by simp_all
  from inv_register [OF this(1)] register_closed [OF this(2) qs_register.hyps(2) this(1)] show ?case ..
qed (use opened_only_prepare opened_only_append opened_only_restore opened_only_finalize opened_only_cleanup
    opened_only_cancel in \<open>simp_all add: inv_prepare einv_append inv_restore einv_finalize inv_cleanup inv_cancel opened_only_def\<close>)

text \<open>A transfer that was finalised, cleaned up or cancelled accepts no credential any more, old or new,
  whatever requests follow, until it is registered again.\<close>

theorem closed_transfers_stay_closed:
  assumes "engine_reachable cd st"
    and "fst (finalize_destination cd now ok mig cred st) = Inr () \<and> st1 = snd (finalize_destination cd now ok mig cred st) \<and> dir = destination_upload \<or>
      fst (cleanup_source cd now ok mig cred st) = Inr () \<and> st1 = snd (cleanup_source cd now ok mig cred st) \<and> dir = source_control \<or>
      st1 = cancel_engine mig st \<and> dir \<in> {source_control, destination_upload}"
    and "quiet_steps cd mig dir st1 st2"
  shows "isl (authorize cd now' mig dir cred' st2)"
proof -
  note inv = engine_reachable_inv [OF assms(1)]
  have "closed_transfer mig dir st1 \<and> engine_inv cd st1"
    using assms(2)
  proof (elim disjE conjE)
    assume f: "fst (finalize_destination cd now ok mig cred st) = Inr ()"
      and s: "st1 = snd (finalize_destination cd now ok mig cred st)" "dir = destination_upload"
    have "closed_transfer mig dir st1"
      using f s by (auto simp: finalize_destination_def Let_def closed_transfer_def en_meta_save
          split: sum.splits if_splits dest: authorize_Inr)
    with einv_finalize [OF inv] s show ?thesis by simp
  next
    assume f: "fst (cleanup_source cd now ok mig cred st) = Inr ()"
      and s: "st1 = snd (cleanup_source cd now ok mig cred st)" "dir = source_control"
    have "closed_transfer mig dir st1"
      using f s by (auto simp: cleanup_source_def Let_def closed_transfer_def en_meta_save
          split: sum.splits if_splits dest: authorize_Inr)
    with inv_cleanup [OF inv] s show ?thesis by simp
  next
    assume "st1 = cancel_engine mig st" "dir \<in> {source_control, destination_upload}"
    then show ?thesis using inv_cancel [OF inv, of mig] by (auto simp: closed_transfer_def cancel_meta)
  qed
  with quiet_closed [OF assms(3)] closed_refuses show ?thesis by blast
qed

text \<open>No transfer can be registered whose migration, server, source or target has the digit zero or the
  letter x in its identifier, since the characters that mean a zero byte stand in a raw string.\<close>

theorem registration_refuses_zero:
  assumes "i \<in> {cl_migration c, cl_server c, cl_source c, cl_target c}" "CHR ''0'' \<in> set i \<or> CHR ''x'' \<in> set i"
  shows "isl (fst (register now ok c hash st)) \<and> snd (register now ok c hash st) = st"
proof -
  have "\<not> safe_id i" using assms(2) by (auto simp: safe_id_def)
  then have "validate_claims c \<noteq> None" using assms(1) by (auto simp: validate_claims_def)
  then show ?thesis by (auto simp: register_def)
qed

text \<open>Until it is finalised, a restore can be undone. When the node had a directory of the server, the
  restore followed by a cancellation gives that directory back; when it had none, the restored one
  stays. Other servers are not touched.\<close>

theorem restore_then_cancel:
  assumes "restore_destination cd now ok1 io ok2 mig cred st = (Inr m, st1)"
    "en_meta st (mig, destination_upload) = Some m0" "md_phase m0 \<noteq> ''restored''"
  shows "en_data (cancel_engine mig st1) (md_server m0)
      = (case en_data st (md_server m0) of Some old \<Rightarrow> Some old | None \<Rightarrow> en_data st1 (md_server m0)) \<and>
    (\<forall>srv. srv \<noteq> md_server m0 \<longrightarrow> en_data (cancel_engine mig st1) srv = en_data st srv)"
proof (cases "restore_begin cd now ok1 mig cred st")
  case (Pair a st')
  show ?thesis
  proof (cases a)
    case (Answer r)
    with Pair assms show ?thesis
      by (auto simp: restore_destination_def restore_begin_def Let_def split: sum.splits if_splits dest: authorize_Inr)
  next
    case (Working w)
    with Pair obtain x where x: "authorize cd now mig destination_upload cred st = Inr x"
      "w = x\<lparr>md_phase := ''restoring''\<rparr>" "st' = try_save ok1 w (st\<lparr>en_restored := (en_restored st)(mig \<mapsto> [])\<rparr>)"
      by (auto simp: restore_begin_def Let_def split: sum.splits if_splits)
    note au = authorize_Inr [OF x(1)]
    have w: "x = m0" "md_migration w = mig" "md_direction w = destination_upload" "md_server w = md_server m0"
      "en_data st' = en_data st"
      using au assms(2) x(2,3) by (simp_all add: try_save_def save_meta_def)
    from assms(1) Pair Working have "restore_end cd io ok2 w st' = (Inr m, st1)" by (simp add: restore_destination_def)
    then obtain tree where t: "st1 = (save_meta (w\<lparr>md_phase := ''restored''\<rparr>) (activate (md_server w) (md_migration w) tree st'))
        \<lparr>en_incoming := (en_incoming st')(mig := None)\<rparr>"
      using w(2) by (auto simp: restore_end_def Let_def activate_def split: option.splits if_splits)
    have "en_previous st1 mig = en_data st (md_server m0)" "en_data st1 = (en_data st)(md_server m0 \<mapsto> tree)"
      "en_meta st1 (mig, destination_upload) = Some (w\<lparr>md_phase := ''restored''\<rparr>)"
      using w by (simp_all add: t activate_def save_meta_def)
    then show ?thesis using w(4)
      by (auto simp: cancel_engine_def rollback_def Let_def split: option.split)
  qed
qed

text \<open>A cancellation that arrives while a chunk is being received is undone by the end of that request:
  the request writes its own copy of the metadata back, and the credential opens the cancelled
  transfer again.\<close>

theorem cancel_overtaken:
  assumes "append_begin cd now ok mig cred off len checksum st = (Working m, st1)"
  shows "\<exists>m'. authorize cd now mig destination_upload cred
    (snd (append_end cd True m off len checksum body True (cancel_engine mig st1))) = Inr m'"
proof -
  from append_begin_working [OF assms] obtain m0 where
    m: "authorize cd now mig destination_upload cred st = Inr m0"
      "m = m0\<lparr>md_size := len, md_checksum := ascii_lower checksum, md_phase := ''uploading''\<rparr>" by metis
  note au = authorize_Inr [OF m(1)]
  have "md_version m0 = protocol_version" using m(1) by (auto simp: authorize_def split: option.splits if_splits)
  moreover have "en_incoming (cancel_engine mig st1) mig = None"
    by (simp add: cancel_engine_def Let_def)
  ultimately show ?thesis using au m(2)
    by (simp add: append_end_def Let_def try_save_def save_meta_def authorize_def)
qed

section \<open>Witnesses\<close>

definition sample_codec :: codec where
  "sample_codec = \<lparr>cd_sha = (\<lambda>b. ''C'' @ show_nat (length b)), cd_hash = (\<lambda>s. replicate 64 (if s = ''k'' then CHR ''a'' else CHR ''b'')),
     cd_pack = (\<lambda>_. [1, 2, 3]), cd_unpack = (\<lambda>_. Some [EFile ''f'' [7]])\<rparr>"

definition sample_claims :: "string \<Rightarrow> claims" where
  "sample_claims dir = \<lparr>cl_version = protocol_version, cl_migration = ''m1'', cl_server = ''s1'', cl_source = ''a'',
     cl_target = ''b'', cl_direction = dir, cl_expires = 1000\<rparr>"

definition empty_engine :: "(string \<rightharpoonup> entries) \<Rightarrow> engine" where
  "empty_engine dt = \<lparr>en_meta = Map.empty, en_data = dt, en_archive = Map.empty, en_incoming = Map.empty,
     en_restored = Map.empty, en_previous = Map.empty\<rparr>"

definition sample_registered :: "string \<Rightarrow> (string \<rightharpoonup> entries) \<Rightarrow> engine" where
  "sample_registered dir dt = snd (register 1 True (sample_claims dir) (replicate 64 (CHR ''a'')) (empty_engine dt))"

definition sample_source :: engine where
  "sample_source = snd (prepare_source sample_codec 2 True True True ''m1'' ''k''
     (sample_registered source_control [''s1'' \<mapsto> [(''f'', File [7])]]))"

text \<open>A destination that has received the whole archive in one chunk, and then restored it.\<close>

definition sample_verified :: engine where
  "sample_verified = snd (append_destination sample_codec 3 True True ''m1'' ''k'' 0 3 ''C3'' [1, 2, 3] False
     (sample_registered destination_upload [''s1'' \<mapsto> [(''old'', File [])]]))"

lemma reach_registered: "engine_reachable cd (sample_registered dir dt)"
proof -
  have "engine_reachable cd (empty_engine dt)" by (rule er_fresh) (simp add: fresh_engine_def empty_engine_def)
  then show ?thesis unfolding sample_registered_def by (rule er_step) (rule es_register)
qed

lemma reach_source: "engine_reachable sample_codec sample_source"
  unfolding sample_source_def by (rule er_step [OF reach_registered es_prepare])

lemma reach_verified: "engine_reachable sample_codec sample_verified"
  unfolding sample_verified_def by (rule er_step [OF reach_registered es_append])

lemma sample_verified_meta:
  obtains m where "authorize sample_codec 4 ''m1'' destination_upload ''k'' sample_verified = Inr m" "md_phase m = ''verified''"
    "md_server m = ''s1''"
proof -
  have "case authorize sample_codec 4 ''m1'' destination_upload ''k'' sample_verified of
      Inl _ \<Rightarrow> False | Inr m \<Rightarrow> md_phase m = ''verified'' \<and> md_server m = ''s1''" by code_simp
  with that show ?thesis by (auto split: sum.splits)
qed


definition sample_restored :: engine where
  "sample_restored = snd (restore_destination sample_codec 5 True True True ''m1'' ''k'' sample_verified)"

lemma sample_restored_ok:
  obtains m where "restore_destination sample_codec 5 True True True ''m1'' ''k'' sample_verified = (Inr m, sample_restored)"
proof -
  have "\<not> isl (fst (restore_destination sample_codec 5 True True True ''m1'' ''k'' sample_verified))" by code_simp
  then obtain m where "fst (restore_destination sample_codec 5 True True True ''m1'' ''k'' sample_verified) = Inr m"
    by (cases "fst (restore_destination sample_codec 5 True True True ''m1'' ''k'' sample_verified)") auto
  then show ?thesis by (intro that) (simp add: sample_restored_def prod_eq_iff)
qed

text \<open>An instance: the directory that was there before comes back.\<close>

theorem restore_then_cancel_witness:
  "en_data sample_restored ''s1'' = Some [(''f'', File [7])] \<and>
   en_data (cancel_engine ''m1'' sample_restored) ''s1'' = Some [(''old'', File [])]"
proof -
  obtain m where r: "restore_destination sample_codec 5 True True True ''m1'' ''k'' sample_verified = (Inr m, sample_restored)"
    by (rule sample_restored_ok)
  obtain m0 where m0: "authorize sample_codec 4 ''m1'' destination_upload ''k'' sample_verified = Inr m0" "md_phase m0 = ''verified''"
    "md_server m0 = ''s1''" by (rule sample_verified_meta)
  have "en_data sample_restored ''s1'' = Some [(''f'', File [7])]" "en_data sample_verified ''s1'' = Some [(''old'', File [])]"
    by code_simp+
  with restore_then_cancel [OF r authorize_Inr(1) [OF m0(1)]] m0(2,3) show ?thesis by simp
qed

text \<open>An instance: after the destination was finalised.\<close>

theorem closed_transfers_stay_closed_witness:
  "isl (authorize sample_codec 8 ''m1'' destination_upload ''k''
     (snd (finalize_destination sample_codec 6 True ''m1'' ''k'' sample_restored)))"
proof -
  have r: "engine_reachable sample_codec sample_restored"
    unfolding sample_restored_def by (rule er_step [OF reach_verified es_restore])
  have f: "fst (finalize_destination sample_codec 6 True ''m1'' ''k'' sample_restored) = Inr ()" by code_simp
  show ?thesis
    by (rule closed_transfers_stay_closed [OF r _ qs_refl, where dir = destination_upload and now = 6 and ok = True and cred = "''k''"])
      (use f in simp)
qed

text \<open>An instance: an identifier like those of the control plane.\<close>

theorem registration_refuses_zero_witness:
  "isl (fst (register 1 True ((sample_claims source_control)\<lparr>cl_migration := ''7d0c8f52-1b9e-4c57''\<rparr>) (replicate 64 (CHR ''a''))
     (empty_engine Map.empty)))"
  using registration_refuses_zero [of "''7d0c8f52-1b9e-4c57''" "(sample_claims source_control)\<lparr>cl_migration := ''7d0c8f52-1b9e-4c57''\<rparr>"]
  by simp

text \<open>An instance: the first chunk of three bytes.\<close>

theorem cancel_overtaken_witness:
  "\<exists>m m' st1. append_begin sample_codec 3 True ''m1'' ''k'' 0 3 ''C3'' (sample_registered destination_upload Map.empty) = (Working m, st1) \<and>
     authorize sample_codec 3 ''m1'' destination_upload ''k''
       (snd (append_end sample_codec True m 0 3 ''C3'' [1] True (cancel_engine ''m1'' st1))) = Inr m'"
proof -
  obtain x st1 where x: "append_begin sample_codec 3 True ''m1'' ''k'' 0 3 ''C3'' (sample_registered destination_upload Map.empty) = (x, st1)"
    by fastforce
  have "case fst (append_begin sample_codec 3 True ''m1'' ''k'' 0 3 ''C3'' (sample_registered destination_upload Map.empty)) of
      Answer _ \<Rightarrow> False | Working _ \<Rightarrow> True" by code_simp
  with x obtain m where m: "x = Working m" by (auto split: progress.splits)
  from cancel_overtaken [OF x [unfolded m], of "[1]"] x m show ?thesis by blast
qed

end
