(* ===== verification/Beacon_Transfer.thy ===== *)
theory Beacon_Transfer
  imports Transfer_Engine
begin

text \<open>
  The transfer handlers of Beacon (\<^verbatim>\<open>beacon/internal/server/transfer_protocol.go\<close>) and the upload from
  one agent to another. A node is its engine and its containers. What the network, the container
  runtime and the disk do is an argument of each request.
\<close>

section \<open>Nodes\<close>

record beacon =
  bn_engine :: engine
  bn_containers :: "string \<rightharpoonup> bool"

record faults =
  fl_runtime :: bool
  fl_save :: bool
  fl_io :: bool
  fl_save2 :: bool

datatype handler_error = Transfer tr_error | RuntimeFailed | NoServer

text \<open>Preparing a source stops the server first, when its container runs.\<close>

definition stop_container :: "string \<Rightarrow> beacon \<Rightarrow> beacon" where
  "stop_container srv bn =
     (if bn_containers bn srv = Some True then bn\<lparr>bn_containers := (bn_containers bn)(srv \<mapsto> False)\<rparr> else bn)"

definition handle_prepare ::
  "codec \<Rightarrow> gotime \<Rightarrow> faults \<Rightarrow> string \<Rightarrow> string \<Rightarrow> beacon \<Rightarrow> (handler_error + metadata) \<times> beacon" where
  "handle_prepare cd now f mig cred bn =
     (case authorize cd now mig source_control cred (bn_engine bn) of
        Inl e \<Rightarrow> (Inl (Transfer e), bn)
      | Inr m \<Rightarrow>
          if md_server m = [] then (Inl NoServer, bn)
          else if \<not> fl_runtime f then (Inl RuntimeFailed, bn)
          else let bn1 = stop_container (md_server m) bn in
            (case prepare_source cd now (fl_save f) (fl_io f) (fl_save2 f) mig cred (bn_engine bn1) of
               (Inl e, en) \<Rightarrow> (Inl (Transfer e), bn1\<lparr>bn_engine := en\<rparr>)
             | (Inr m1, en) \<Rightarrow> (Inr m1, bn1\<lparr>bn_engine := en\<rparr>)))"

text \<open>Cleaning a source up deletes the container and the data directory.\<close>

definition handle_cleanup ::
  "codec \<Rightarrow> gotime \<Rightarrow> faults \<Rightarrow> string \<Rightarrow> string \<Rightarrow> beacon \<Rightarrow> (handler_error + unit) \<times> beacon" where
  "handle_cleanup cd now f mig cred bn =
     (case authorize cd now mig source_control cred (bn_engine bn) of
        Inl e \<Rightarrow> (Inl (Transfer e), bn)
      | Inr m \<Rightarrow>
          if \<not> fl_runtime f then (Inl RuntimeFailed, bn)
          else let bn1 = bn\<lparr>bn_containers := (bn_containers bn)(md_server m := None)\<rparr> in
            (case cleanup_source cd now (fl_save f) mig cred (bn_engine bn1) of
               (Inl e, en) \<Rightarrow> (Inl (Transfer e), bn1\<lparr>bn_engine := en\<rparr>)
             | (Inr _, en) \<Rightarrow> (Inr (), bn1\<lparr>bn_engine := en\<rparr>)))"

definition handle_restore ::
  "codec \<Rightarrow> gotime \<Rightarrow> faults \<Rightarrow> string \<Rightarrow> string \<Rightarrow> beacon \<Rightarrow> (handler_error + metadata) \<times> beacon" where
  "handle_restore cd now f mig cred bn =
     (case restore_destination cd now (fl_save f) (fl_io f) (fl_save2 f) mig cred (bn_engine bn) of
        (Inl e, en) \<Rightarrow> (Inl (Transfer e), bn\<lparr>bn_engine := en\<rparr>)
      | (Inr m, en) \<Rightarrow> (Inr m, bn\<lparr>bn_engine := en\<rparr>))"

definition handle_finalize ::
  "codec \<Rightarrow> gotime \<Rightarrow> faults \<Rightarrow> string \<Rightarrow> string \<Rightarrow> beacon \<Rightarrow> (handler_error + unit) \<times> beacon" where
  "handle_finalize cd now f mig cred bn =
     (case finalize_destination cd now (fl_save f) mig cred (bn_engine bn) of
        (Inl e, en) \<Rightarrow> (Inl (Transfer e), bn\<lparr>bn_engine := en\<rparr>)
      | (Inr _, en) \<Rightarrow> (Inr (), bn\<lparr>bn_engine := en\<rparr>))"

text \<open>Either credential cancels both directions.\<close>

definition handle_cancel :: "codec \<Rightarrow> gotime \<Rightarrow> string \<Rightarrow> string \<Rightarrow> beacon \<Rightarrow> (handler_error + unit) \<times> beacon" where
  "handle_cancel cd now mig cred bn =
     (case (authorize cd now mig source_control cred (bn_engine bn), authorize cd now mig destination_upload cred (bn_engine bn)) of
        (Inl e, Inl _) \<Rightarrow> (Inl (Transfer e), bn)
      | _ \<Rightarrow> (Inr (), bn\<lparr>bn_engine := cancel_engine mig (bn_engine bn)\<rparr>))"

section \<open>The upload between two nodes\<close>

text \<open>One attempt: whether the offset request gets through, how many bytes of the rest arrive, whether the
  stream breaks, whether the reply comes back, and whether the destination can write its metadata.\<close>

record net =
  nt_now :: gotime
  nt_head :: bool
  nt_arrived :: nat
  nt_broken :: bool
  nt_reply :: bool
  nt_save :: bool
  nt_save2 :: bool

datatype push_error =
    NetworkFailed
  | Negotiation tr_error
  | SourceFailed tr_error
  | UploadFailed tr_error
  | NotVerifiedReply
  | OffsetsInconsistent

definition conflict :: "tr_error \<Rightarrow> bool" where
  "conflict e \<longleftrightarrow> e \<in> {OffsetMismatch, ChecksumMismatch, InvalidBinding}"

fun push_loop ::
  "codec \<Rightarrow> string \<Rightarrow> string \<Rightarrow> string \<Rightarrow> engine \<Rightarrow> net list \<Rightarrow> engine \<Rightarrow> (push_error + metadata) \<times> engine" where
  "push_loop cd mig sc dc src [] dst = (Inl OffsetsInconsistent, dst)"
| "push_loop cd mig sc dc src (n # ns) dst =
     (if \<not> nt_head n then (Inl NetworkFailed, dst)
      else (case destination_offset cd (nt_now n) mig dc dst of
        Inl e \<Rightarrow> (Inl (Negotiation e), dst)
      | Inr dm \<Rightarrow>
          (case source_archive cd (nt_now n) mig sc (md_offset dm) src of
             Inl e \<Rightarrow> (Inl (SourceFailed e), dst)
           | Inr (body, sm) \<Rightarrow>
               (case append_destination cd (nt_now n) (nt_save n) (nt_save2 n) mig dc (md_offset dm) (md_size sm)
                       (md_checksum sm) (take (nt_arrived n) body) (nt_broken n \<or> nt_arrived n < length body) dst of
                  (r, dst1) \<Rightarrow>
                    if \<not> nt_reply n then push_loop cd mig sc dc src ns dst1
                    else (case r of
                      Inl e \<Rightarrow> if conflict e then push_loop cd mig sc dc src ns dst1 else (Inl (UploadFailed e), dst1)
                    | Inr m \<Rightarrow> if md_phase m \<noteq> ''verified'' then (Inl NotVerifiedReply, dst1) else (Inr m, dst1))))))"

text \<open>Four attempts at most.\<close>

definition push_archive ::
  "codec \<Rightarrow> string \<Rightarrow> string \<Rightarrow> string \<Rightarrow> engine \<Rightarrow> net list \<Rightarrow> engine \<Rightarrow> (push_error + metadata) \<times> engine" where
  "push_archive cd mig sc dc src ns dst = push_loop cd mig sc dc src (take 4 ns) dst"

section \<open>What arrives is what was sent\<close>

text \<open>\<open>arrived b mig dst\<close>: the upload so far is a beginning of the archive.\<close>

definition arrived :: "bytes \<Rightarrow> string \<Rightarrow> engine \<Rightarrow> bool" where
  "arrived b mig dst \<longleftrightarrow> (case en_incoming dst mig of None \<Rightarrow> True | Some f \<Rightarrow> prefix f b)"

lemma append_end_incoming:
  assumes "append_end cd ok m off len checksum body broken st = (r, st')" "en_incoming st (md_migration m) = Some fl"
  shows "en_incoming st' (md_migration m) = Some (fl @ take (nat (len - off + 1)) body)"
    "r = Inr m' \<Longrightarrow> md_phase m' = ''verified'' \<Longrightarrow> md_phase m = ''uploading'' \<Longrightarrow>
      int (length (take (nat (len - off + 1)) body)) = len - off \<and> md_size m' = md_size m \<and>
      ascii_lower (cd_sha cd (fl @ take (nat (len - off + 1)) body)) = ascii_lower checksum"
  using assms by (auto simp: append_end_def Let_def try_save_def save_meta_def split: if_splits)

lemma prefix_drop:
  assumes "fl = take k b" "k \<le> length b"
  shows "prefix (fl @ take n (drop k b)) b"
  unfolding assms(1) by (simp add: take_is_prefix flip: take_add)

lemma begin_answer_arrived:
  assumes a: "append_begin cd now ok mig dc off len checksum dst = (Answer y, st1)" and arr: "arrived b mig dst"
  shows "arrived b mig st1 \<and> isl y"
proof (cases "authorize cd now mig destination_upload dc dst")
  case (Inl e)
  with a have "y = Inl e" "st1 = dst" by (simp_all add: append_begin_def)
  with arr show ?thesis by simp
next
  case (Inr m)
  with a arr show ?thesis
    by (auto simp: append_begin_def Let_def arrived_def save_meta_def split: if_splits option.splits)
qed

lemma append_arrived:
  assumes a: "append_destination cd now ok1 ok2 mig dc off (int (length b)) checksum (take n (drop (nat off) b)) broken dst = (r, dst')"
    and arr: "arrived b mig dst"
  shows "arrived b mig dst'" "r = Inr m \<Longrightarrow> md_phase m = ''verified'' \<Longrightarrow>
      en_incoming dst' mig = Some b \<and> md_size m = int (length b) \<and> ascii_lower (cd_sha cd b) = ascii_lower checksum"
proof -
  have "arrived b mig dst' \<and> (\<forall>m. r = Inr m \<longrightarrow> md_phase m = ''verified'' \<longrightarrow>
      en_incoming dst' mig = Some b \<and> md_size m = int (length b) \<and> ascii_lower (cd_sha cd b) = ascii_lower checksum)"
  proof (cases "append_begin cd now ok1 mig dc off (int (length b)) checksum dst")
    case (Pair x st1)
    show ?thesis
    proof (cases x)
      case (Answer y)
      with a Pair have y: "r = y" "dst' = st1" by (simp_all add: append_destination_def)
      have "arrived b mig st1 \<and> isl y"
        by (rule begin_answer_arrived [OF Pair [unfolded Answer] arr])
      with y show ?thesis by auto
    next
      case (Working m)
      with Pair obtain m0 fl where w: "authorize cd now mig destination_upload dc dst = Inr m0"
        "m = m0\<lparr>md_size := int (length b), md_checksum := ascii_lower checksum, md_phase := ''uploading''\<rparr>"
        "fl = (case en_incoming dst mig of None \<Rightarrow> [] | Some b \<Rightarrow> b)" "int (length fl) = off" "off \<le> int (length b)" "0 \<le> off"
        "st1 = (save_meta m dst)\<lparr>en_incoming := (en_incoming dst)(mig \<mapsto> fl)\<rparr>"
        by (auto elim: append_begin_working)
      have k: "md_migration m = mig" using authorize_Inr [OF w(1)] w(2) by simp
      have e: "append_end cd ok2 m off (int (length b)) checksum (take n (drop (nat off) b)) broken st1 = (r, dst')"
        using a Pair Working by (simp add: append_destination_def)
      have f: "prefix fl b" "length fl = nat off" using arr w(3,4) by (auto simp: arrived_def split: option.splits)
      then have fl: "fl = take (nat off) b" by (auto simp: prefix_def)
      let ?got = "take (nat (int (length b) - off + 1)) (take n (drop (nat off) b))"
      note i = append_end_incoming [OF e, of fl, unfolded k]
      have s: "en_incoming st1 mig = Some fl" using w(7) by simp
      have got: "?got = take (min (nat (int (length b) - off + 1)) n) (drop (nat off) b)" by simp
      have "prefix (fl @ ?got) b" unfolding got by (rule prefix_drop [OF fl]) (use w(5) in simp)
      then have "arrived b mig dst'" using i(1) [OF s] by (simp add: arrived_def)
      moreover have "fl @ ?got = b \<and> md_size m' = int (length b) \<and> ascii_lower (cd_sha cd b) = ascii_lower checksum"
        if "r = Inr m'" "md_phase m' = ''verified''" for m'
      proof -
        from i(2) [OF s that] w(2) have v: "int (length ?got) = int (length b) - off" "md_size m' = int (length b)"
          "ascii_lower (cd_sha cd (fl @ ?got)) = ascii_lower checksum" by simp_all
        have "length (fl @ ?got) = length b" using v(1) w(4) by simp
        with \<open>prefix (fl @ ?got) b\<close> have "fl @ ?got = b" by (metis prefix_length_prefix prefix_order.eq_iff order_refl)
        with v show ?thesis by simp
      qed
      ultimately show ?thesis unfolding i(1) [OF s] option.inject by (intro conjI allI impI) blast+
    qed
  qed
  then show "arrived b mig dst'" "r = Inr m \<Longrightarrow> md_phase m = ''verified'' \<Longrightarrow>
      en_incoming dst' mig = Some b \<and> md_size m = int (length b) \<and> ascii_lower (cd_sha cd b) = ascii_lower checksum" by auto
qed

lemma push_loop_arrived:
  assumes inv: "engine_inv cd src" and b: "en_archive src mig = Some b"
  shows "push_loop cd mig sc dc src ns dst = (r, dst') \<Longrightarrow> arrived b mig dst \<Longrightarrow>
    arrived b mig dst' \<and> (\<forall>m. r = Inr m \<longrightarrow> en_incoming dst' mig = Some b \<and> md_size m = int (length b) \<and>
      (\<exists>sm. en_meta src (mig, source_control) = Some sm \<and> ascii_lower (cd_sha cd b) = ascii_lower (md_checksum sm)))"
proof (induction ns arbitrary: dst)
  case Nil
  then show ?case by auto
next
  case (Cons n ns)
  consider "\<not> nt_head n" | e where "nt_head n" "destination_offset cd (nt_now n) mig dc dst = Inl e"
    | dm e where "nt_head n" "destination_offset cd (nt_now n) mig dc dst = Inr dm"
      "source_archive cd (nt_now n) mig sc (md_offset dm) src = Inl e"
    | dm body sm where "nt_head n" "destination_offset cd (nt_now n) mig dc dst = Inr dm"
      "source_archive cd (nt_now n) mig sc (md_offset dm) src = Inr (body, sm)"
    by (metis old.sum.exhaust surj_pair)
  then show ?case
  proof cases
    case (4 dm body sm)
    have sm: "en_meta src (mig, source_control) = Some sm" and body: "body = drop (nat (md_offset dm)) b"
      and ph: "md_phase sm \<in> {''archived'', ''uploading'', ''uploaded''}"
      using 4(3) b by (auto simp: source_archive_def split: sum.splits if_splits dest: authorize_Inr(1))
    have "meta_ok cd src (mig, source_control) sm" by (rule engine_inv_meta [OF inv sm])
    with ph b have size: "md_size sm = int (length b)" by (auto simp: meta_ok_def source_ok_def)
    obtain q dst1 where q: "append_destination cd (nt_now n) (nt_save n) (nt_save2 n) mig dc (md_offset dm) (md_size sm)
      (md_checksum sm) (take (nt_arrived n) body) (nt_broken n \<or> nt_arrived n < length body) dst = (q, dst1)" by fastforce
    note ap = append_arrived [OF q [unfolded size body] Cons.prems(2)]
    from Cons.prems(1) 4 q Cons.IH [OF _ ap(1)] ap sm show ?thesis
      by (auto split: sum.splits if_splits)
  qed (use Cons.prems in auto)
qed

text \<open>C14: The upload never leaves anything but a beginning of the source archive at the destination, however
  often the connection breaks and the push is repeated; and when the push reports success, the
  destination holds exactly the archive of the source.\<close>

theorem push_delivers:
  assumes "engine_reachable cd src" "en_archive src mig = Some b" "arrived b mig dst"
    "push_archive cd mig sc dc src ns dst = (r, dst')"
  shows "arrived b mig dst' \<and> (\<forall>m. r = Inr m \<longrightarrow> en_incoming dst' mig = Some b \<and> md_size m = int (length b))"
  using push_loop_arrived [OF engine_reachable_inv [OF assms(1)] assms(2) assms(4) [unfolded push_archive_def] assms(3)]
  by blast

section \<open>Witness\<close>

definition sample_net :: "nat \<Rightarrow> bool \<Rightarrow> net" where
  "sample_net k reply = \<lparr>nt_now = 3, nt_head = True, nt_arrived = k, nt_broken = False, nt_reply = reply, nt_save = True,
     nt_save2 = True\<rparr>"

lemma sample_push:
  obtains m dst' where "push_archive sample_codec ''m1'' ''k'' ''k'' sample_source [sample_net 1 False, sample_net 2 True]
    (sample_registered destination_upload Map.empty) = (Inr m, dst')"
proof -
  have "\<not> isl (fst (push_archive sample_codec ''m1'' ''k'' ''k'' sample_source [sample_net 1 False, sample_net 2 True]
    (sample_registered destination_upload Map.empty)))" by code_simp
  then obtain m where "fst (push_archive sample_codec ''m1'' ''k'' ''k'' sample_source [sample_net 1 False, sample_net 2 True]
    (sample_registered destination_upload Map.empty)) = Inr m" by (metis sum.collapse(2))
  then show ?thesis by (intro that [of m "snd (push_archive sample_codec ''m1'' ''k'' ''k'' sample_source
    [sample_net 1 False, sample_net 2 True] (sample_registered destination_upload Map.empty))"]) (simp add: prod_eq_iff)
qed

text \<open>Witness of C14: the connection breaks after one byte, the second attempt sends the rest.\<close>

theorem push_delivers_witness:
  "\<exists>m dst'. push_archive sample_codec ''m1'' ''k'' ''k'' sample_source [sample_net 1 False, sample_net 2 True]
     (sample_registered destination_upload Map.empty) = (Inr m, dst') \<and> en_incoming dst' ''m1'' = Some [1, 2, 3]"
proof -
  obtain m dst' where p: "push_archive sample_codec ''m1'' ''k'' ''k'' sample_source [sample_net 1 False, sample_net 2 True]
    (sample_registered destination_upload Map.empty) = (Inr m, dst')" by (rule sample_push)
  have b: "en_archive sample_source ''m1'' = Some [1, 2, 3]" by code_simp
  have "arrived [1, 2, 3] ''m1'' (sample_registered destination_upload Map.empty)"
    by (simp add: arrived_def sample_registered_def register_def empty_engine_def try_save_def save_meta_def split: option.split)
  from push_delivers [OF reach_source b this p] p show ?thesis by blast
qed

end
