(* ===== verification/Migration_Store.thy ===== *)
theory Migration_Store
  imports Forge_Prelude
begin

text \<open>
  The tables of server migrations (\<^verbatim>\<open>store/store_migrations.go\<close>): migrations and their history, the
  durable runs with their phase and lease, the allocations reserved for a migration, and the rows of
  servers and allocations that a migration moves. A transaction is one definition; \<open>ok\<close> says whether
  the database carries it out. Fresh identifiers are arguments; rows that a query orders by identifier
  are ordered by the argument \<open>id_lt\<close>. Columns that nothing here reads are left out.
\<close>

section \<open>Tables\<close>

record migration_row =
  mg_id :: string
  mg_server :: string
  mg_source :: string
  mg_target :: string
  mg_status :: string
  mg_failure :: string

record history_row =
  hs_migration :: string
  hs_from :: "string option"
  hs_to :: string
  hs_reason :: string

record run_row =
  rn_migration :: string
  rn_phase :: string
  rn_key :: string
  rn_attempt :: nat
  rn_owner :: "string option"
  rn_lease :: "gotime option"
  rn_allocation :: string
  rn_size :: int
  rn_checksum :: string
  rn_source_hash :: string
  rn_target_hash :: string
  rn_cleanup :: bool
  rn_error :: string

record allocation_row =
  al_id :: string
  al_node :: string
  al_server :: "string option"

record server_place =
  sv_id :: string
  sv_node :: string
  sv_primary :: string

record mdb =
  mdb_migrations :: "migration_row list"
  mdb_history :: "history_row list"
  mdb_runs :: "run_row list"
  mdb_reserved :: "(string \<times> string) list"
  mdb_allocations :: "allocation_row list"
  mdb_servers :: "server_place list"

datatype mig_error =
    MigDbFailed
  | MigNoRows
  | MigDuplicate
  | NoAllocation
  | AlreadyClaimed
  | NotCreated
  | OwnershipChanged
  | AllocationTaken
  | AllocationElsewhere

section \<open>Migrations\<close>

definition find_migration :: "mdb \<Rightarrow> string \<Rightarrow> migration_row option" where
  "find_migration db i = find (\<lambda>m. mg_id m = i) (mdb_migrations db)"

definition find_run :: "mdb \<Rightarrow> string \<Rightarrow> run_row option" where
  "find_run db i = find (\<lambda>r. rn_migration r = i) (mdb_runs db)"

definition find_server :: "mdb \<Rightarrow> string \<Rightarrow> server_place option" where
  "find_server db i = find (\<lambda>s. sv_id s = i) (mdb_servers db)"

definition update_migrations :: "string \<Rightarrow> (migration_row \<Rightarrow> migration_row) \<Rightarrow> mdb \<Rightarrow> mdb" where
  "update_migrations i f db = db\<lparr>mdb_migrations := map (\<lambda>m. if mg_id m = i then f m else m) (mdb_migrations db)\<rparr>"

definition update_runs :: "(run_row \<Rightarrow> bool) \<Rightarrow> (run_row \<Rightarrow> run_row) \<Rightarrow> mdb \<Rightarrow> mdb" where
  "update_runs hit f db = db\<lparr>mdb_runs := map (\<lambda>r. if hit r then f r else r) (mdb_runs db)\<rparr>"

definition add_history :: "string \<Rightarrow> string option \<Rightarrow> string \<Rightarrow> string \<Rightarrow> mdb \<Rightarrow> mdb" where
  "add_history i from to reason db =
     db\<lparr>mdb_history := mdb_history db @ [\<lparr>hs_migration = i, hs_from = from, hs_to = to, hs_reason = reason\<rparr>]\<rparr>"

definition create_migration_row :: "bool \<Rightarrow> string \<Rightarrow> string \<Rightarrow> string \<Rightarrow> string \<Rightarrow> mdb \<Rightarrow> (mig_error + unit) \<times> mdb" where
  "create_migration_row ok i srv src tgt db =
     (if \<not> ok then (Inl MigDbFailed, db)
      else if find_migration db i \<noteq> None then (Inl MigDuplicate, db)
      else if find_server db srv = None then (Inl MigNoRows, db)
      else (Inr (), add_history i None ''planned'' ''migration created''
             (db\<lparr>mdb_migrations := mdb_migrations db @ [\<lparr>mg_id = i, mg_server = srv, mg_source = src, mg_target = tgt,
               mg_status = ''planned'', mg_failure = []\<rparr>]\<rparr>)))"

definition update_migration_status :: "bool \<Rightarrow> string \<Rightarrow> string \<Rightarrow> string \<Rightarrow> mdb \<Rightarrow> (mig_error + unit) \<times> mdb" where
  "update_migration_status ok i status reason db =
     (if \<not> ok then (Inl MigDbFailed, db)
      else (case find_migration db i of
        None \<Rightarrow> (Inl MigNoRows, db)
      | Some m \<Rightarrow>
          (Inr (), add_history i (Some (mg_status m)) status reason
             (update_migrations i (\<lambda>m. m\<lparr>mg_status := status, mg_failure := (if status = ''failed'' then reason else mg_failure m)\<rparr>) db))))"

section \<open>Runs\<close>

definition run_closed :: "string \<Rightarrow> bool" where
  "run_closed phase \<longleftrightarrow> phase = ''completed'' \<or> phase = ''failed'' \<or> phase = ''cancelled''"

text \<open>The first free allocation of the target node that no migration has reserved.\<close>

definition free_allocation :: "(string \<Rightarrow> string \<Rightarrow> bool) \<Rightarrow> string \<Rightarrow> mdb \<Rightarrow> allocation_row option" where
  "free_allocation id_lt n db =
     (case slice_stable (\<lambda>a b. id_lt (al_id a) (al_id b))
             (filter (\<lambda>a. al_node a = n \<and> al_server a = None \<and> al_id a \<notin> fst ` set (mdb_reserved db)) (mdb_allocations db)) of
        [] \<Rightarrow> None | a # _ \<Rightarrow> Some a)"

definition ensure_run :: "(string \<Rightarrow> string \<Rightarrow> bool) \<Rightarrow> bool \<Rightarrow> string \<Rightarrow> string \<Rightarrow> mdb \<Rightarrow> (mig_error + unit) \<times> mdb" where
  "ensure_run id_lt ok key i db =
     (if find_run db i \<noteq> None then (Inr (), db)
      else if \<not> ok then (Inl MigDbFailed, db)
      else (case find_migration db i of
        None \<Rightarrow> (Inl NoAllocation, db)
      | Some m \<Rightarrow>
          (case free_allocation id_lt (mg_target m) db of
             None \<Rightarrow> (Inl NoAllocation, db)
           | Some a \<Rightarrow>
               if i \<in> snd ` set (mdb_reserved db) then (Inl MigDuplicate, db)
               else (Inr (), db\<lparr>mdb_runs := mdb_runs db @ [\<lparr>rn_migration = i, rn_phase = ''planned'', rn_key = key,
                 rn_attempt = 0, rn_owner = None, rn_lease = None, rn_allocation = al_id a, rn_size = 0, rn_checksum = [],
                 rn_source_hash = [], rn_target_hash = [], rn_cleanup = False, rn_error = []\<rparr>],
                 mdb_reserved := mdb_reserved db @ [(al_id a, i)]\<rparr>))))"

text \<open>A run that is not closed can be claimed when nobody holds an unexpired lease, or the worker itself does.\<close>

definition claimable :: "gotime \<Rightarrow> string \<Rightarrow> run_row \<Rightarrow> bool" where
  "claimable now worker r \<longleftrightarrow> \<not> run_closed (rn_phase r) \<and>
     (case rn_lease r of None \<Rightarrow> True | Some t \<Rightarrow> t < now \<or> rn_owner r = Some worker)"

definition claim_run :: "bool \<Rightarrow> gotime \<Rightarrow> string \<Rightarrow> string \<Rightarrow> mdb \<Rightarrow> (mig_error + run_row) \<times> mdb" where
  "claim_run ok now worker i db =
     (if \<not> ok then (Inl MigDbFailed, db)
      else let db1 = update_runs (\<lambda>r. rn_migration r = i \<and> claimable now worker r)
             (\<lambda>r. r\<lparr>rn_owner := Some worker, rn_lease := Some (now + 2 * minute), rn_attempt := rn_attempt r + 1\<rparr>) db
           in if \<not> (\<exists>r \<in> set (mdb_runs db). rn_migration r = i \<and> claimable now worker r) then (Inl AlreadyClaimed, db1)
              else (case find_run db1 i of None \<Rightarrow> (Inl MigNoRows, db1) | Some r \<Rightarrow> (Inr r, db1)))"

definition update_run ::
  "bool \<Rightarrow> gotime \<Rightarrow> string \<Rightarrow> string \<Rightarrow> string \<Rightarrow> int \<Rightarrow> string \<Rightarrow> mdb \<Rightarrow> mdb" where
  "update_run ok now i phase err sz checksum db =
     (if \<not> ok then db
      else update_runs (\<lambda>r. rn_migration r = i)
             (\<lambda>r. r\<lparr>rn_phase := phase, rn_error := err, rn_size := (if 0 < sz then sz else rn_size r),
                    rn_checksum := (if checksum \<noteq> [] then checksum else rn_checksum r), rn_lease := Some (now + 2 * minute)\<rparr>) db)"

definition set_hashes :: "bool \<Rightarrow> string \<Rightarrow> string \<Rightarrow> string \<Rightarrow> mdb \<Rightarrow> (mig_error + unit) \<times> mdb" where
  "set_hashes ok i sh th db =
     (if \<not> ok then (Inl MigDbFailed, db)
      else (Inr (), update_runs (\<lambda>r. rn_migration r = i) (\<lambda>r. r\<lparr>rn_source_hash := sh, rn_target_hash := th\<rparr>) db))"

definition reclaimable_ids :: "gotime \<Rightarrow> mdb \<Rightarrow> string list" where
  "reclaimable_ids now db =
     map rn_migration (filter (\<lambda>r. \<not> run_closed (rn_phase r) \<and> (case rn_lease r of None \<Rightarrow> True | Some t \<Rightarrow> t < now)) (mdb_runs db))"

definition cleanup_ids :: "mdb \<Rightarrow> string list" where
  "cleanup_ids db = map rn_migration (filter (\<lambda>r. rn_phase r = ''completed'' \<and> rn_cleanup r) (mdb_runs db))"

text \<open>The nodes of a migration: the source is the node the server is on at that moment.\<close>

definition provision_targets :: "mdb \<Rightarrow> string \<Rightarrow> mig_error + string \<times> string" where
  "provision_targets db i =
     (case (find_migration db i, find_run db i) of
        (Some m, Some r) \<Rightarrow>
          (case find_server db (mg_server m) of
             None \<Rightarrow> Inl MigNoRows
           | Some s \<Rightarrow>
               if \<exists>a \<in> set (mdb_allocations db). al_id a = rn_allocation r \<and> al_node a = mg_target m \<and>
                    (al_server a = None \<or> al_server a = Some (mg_server m))
               then Inr (sv_node s, mg_target m) else Inl MigNoRows)
      | _ \<Rightarrow> Inl MigNoRows)"

section \<open>Ending a migration\<close>

definition drop_reservation :: "string \<Rightarrow> mdb \<Rightarrow> mdb" where
  "drop_reservation i db = db\<lparr>mdb_reserved := filter (\<lambda>x. snd x \<noteq> i) (mdb_reserved db)\<rparr>"

text \<open>The allocation of the target goes to the server, those of the source node are freed, the server
  moves, and migration and run are completed, all in one transaction.\<close>

definition take_target :: "string \<Rightarrow> string \<Rightarrow> string \<Rightarrow> allocation_row \<Rightarrow> allocation_row" where
  "take_target srv tgt aid a = (if al_id a = aid \<and> al_node a = tgt \<and> al_server a = None then a\<lparr>al_server := Some srv\<rparr> else a)"

definition free_source :: "string \<Rightarrow> string \<Rightarrow> allocation_row \<Rightarrow> allocation_row" where
  "free_source srv src a = (if al_server a = Some srv \<and> al_node a = src then a\<lparr>al_server := None\<rparr> else a)"

definition move_server :: "string \<Rightarrow> string \<Rightarrow> string \<Rightarrow> server_place \<Rightarrow> server_place" where
  "move_server srv tgt aid s = (if sv_id s = srv then s\<lparr>sv_node := tgt, sv_primary := aid\<rparr> else s)"

definition commit_move :: "migration_row \<Rightarrow> run_row \<Rightarrow> mdb \<Rightarrow> mdb" where
  "commit_move m r db =
     (let i = mg_id m;
          db1 = db\<lparr>mdb_allocations := map (free_source (mg_server m) (mg_source m))
                     (map (take_target (mg_server m) (mg_target m) (rn_allocation r)) (mdb_allocations db)),
                   mdb_servers := map (move_server (mg_server m) (mg_target m) (rn_allocation r)) (mdb_servers db)\<rparr>;
          db2 = drop_reservation i (update_migrations i (\<lambda>m. m\<lparr>mg_status := ''completed'', mg_failure := []\<rparr>) db1);
          db3 = update_runs (\<lambda>r. rn_migration r = i)
                  (\<lambda>r. r\<lparr>rn_phase := ''completed'', rn_cleanup := True, rn_owner := None, rn_lease := None\<rparr>) db2
      in add_history i (Some ''restoring'') ''completed''
           ''destination verified, restored, and container created; ownership committed'' db3)"

definition finalize_migration :: "bool \<Rightarrow> string \<Rightarrow> mdb \<Rightarrow> (mig_error + unit) \<times> mdb" where
  "finalize_migration ok i db =
     (if \<not> ok then (Inl MigDbFailed, db)
      else (case (find_migration db i, find_run db i) of
        (Some m, Some r) \<Rightarrow>
          if rn_phase r = ''completed'' then (Inr (), db)
          else if rn_phase r \<noteq> ''destination_created'' then (Inl NotCreated, db)
          else (case find_server db (mg_server m) of
            None \<Rightarrow> (Inl MigNoRows, db)
          | Some s \<Rightarrow>
              if sv_node s \<noteq> mg_source m then (Inl OwnershipChanged, db)
              else if \<not> (\<exists>a \<in> set (mdb_allocations db). al_id a = rn_allocation r \<and> al_node a = mg_target m \<and> al_server a = None)
              then (Inl AllocationTaken, db)
              else (Inr (), commit_move m r db))
      | _ \<Rightarrow> (Inl MigNoRows, db)))"

definition mark_cleanup_complete :: "bool \<Rightarrow> string \<Rightarrow> mdb \<Rightarrow> mdb" where
  "mark_cleanup_complete ok i db =
     (if \<not> ok then db
      else update_runs (\<lambda>r. rn_migration r = i \<and> rn_phase r = ''completed'') (\<lambda>r. r\<lparr>rn_cleanup := False\<rparr>) db)"

definition close_run :: "bool \<Rightarrow> string \<Rightarrow> string option \<Rightarrow> string \<Rightarrow> mdb \<Rightarrow> mdb" where
  "close_run ok phase err i db =
     (if \<not> ok then db
      else update_runs (\<lambda>r. rn_migration r = i \<and> rn_phase r \<noteq> ''completed'')
             (\<lambda>r. r\<lparr>rn_phase := phase, rn_error := (case err of None \<Rightarrow> rn_error r | Some e \<Rightarrow> e), rn_cleanup := False,
                    rn_owner := None, rn_lease := None\<rparr>) (drop_reservation i db))"

definition cancel_run :: "bool \<Rightarrow> string \<Rightarrow> mdb \<Rightarrow> mdb" where
  "cancel_run ok i db = close_run ok ''cancelled'' None i db"

definition fail_run :: "bool \<Rightarrow> string \<Rightarrow> string \<Rightarrow> mdb \<Rightarrow> mdb" where
  "fail_run ok reason i db = close_run ok ''failed'' (Some reason) i db"

section \<open>Allocations of other servers\<close>

text \<open>Assigning and releasing an allocation, in \<^verbatim>\<open>store/store_allocations.go\<close>.\<close>

definition assign_allocation :: "bool \<Rightarrow> string \<Rightarrow> string \<Rightarrow> mdb \<Rightarrow> (mig_error + unit) \<times> mdb" where
  "assign_allocation ok srv aid db =
     (case (find_server db srv, find (\<lambda>a. al_id a = aid) (mdb_allocations db)) of
        (Some s, Some a) \<Rightarrow>
          if al_server a \<noteq> None then (Inl AllocationTaken, db)
          else if al_node a \<noteq> sv_node s then (Inl AllocationElsewhere, db)
          else if \<not> ok then (Inl MigDbFailed, db)
          else (Inr (), db\<lparr>mdb_allocations := map (\<lambda>a. if al_id a = aid then a\<lparr>al_server := Some srv\<rparr> else a) (mdb_allocations db)\<rparr>)
      | _ \<Rightarrow> (Inl MigNoRows, db))"

definition unassign_allocation :: "bool \<Rightarrow> string \<Rightarrow> string \<Rightarrow> mdb \<Rightarrow> (mig_error + unit) \<times> mdb" where
  "unassign_allocation ok srv aid db =
     (if (case find_server db srv of None \<Rightarrow> False | Some s \<Rightarrow> sv_primary s \<noteq> [] \<and> sv_primary s = aid)
      then (Inl AllocationTaken, db)
      else if \<not> ok then (Inl MigDbFailed, db)
      else (if \<exists>a \<in> set (mdb_allocations db). al_id a = aid \<and> al_server a = Some srv then Inr () else Inl MigNoRows,
            db\<lparr>mdb_allocations := map (\<lambda>a. if al_id a = aid \<and> al_server a = Some srv then a\<lparr>al_server := None\<rparr> else a)
                (mdb_allocations db)\<rparr>))"

definition set_primary :: "bool \<Rightarrow> string \<Rightarrow> string \<Rightarrow> mdb \<Rightarrow> (mig_error + unit) \<times> mdb" where
  "set_primary ok srv aid db =
     (if \<not> (\<exists>a \<in> set (mdb_allocations db). al_id a = aid \<and> al_server a = Some srv) then (Inl AllocationElsewhere, db)
      else if \<not> ok then (Inl MigDbFailed, db)
      else if find_server db srv = None then (Inl MigNoRows, db)
      else (Inr (), db\<lparr>mdb_servers := map (\<lambda>s. if sv_id s = srv then s\<lparr>sv_primary := aid\<rparr> else s) (mdb_servers db)\<rparr>))"

section \<open>Steps\<close>

text \<open>The transactions in any order. A migration is created between two different nodes, as its service
  validates; a status is never set to completed but by the commit, and a run is only moved to an open
  phase by its worker.\<close>

inductive mig_step :: "(string \<Rightarrow> string \<Rightarrow> bool) \<Rightarrow> mdb \<Rightarrow> mdb \<Rightarrow> bool" for id_lt where
  ms_create: "src \<noteq> tgt \<Longrightarrow> mig_step id_lt db (snd (create_migration_row ok i srv src tgt db))"
| ms_status: "status \<noteq> ''completed'' \<Longrightarrow> mig_step id_lt db (snd (update_migration_status ok i status reason db))"
| ms_ensure: "mig_step id_lt db (snd (ensure_run id_lt ok key i db))"
| ms_claim: "mig_step id_lt db (snd (claim_run ok now worker i db))"
| ms_update: "\<not> run_closed phase \<Longrightarrow> mig_step id_lt db (update_run ok now i phase err sz checksum db)"
| ms_hashes: "mig_step id_lt db (snd (set_hashes ok i sh th db))"
| ms_finalize: "mig_step id_lt db (snd (finalize_migration ok i db))"
| ms_mark: "mig_step id_lt db (mark_cleanup_complete ok i db)"
| ms_cancel: "mig_step id_lt db (cancel_run ok i db)"
| ms_fail: "mig_step id_lt db (fail_run ok reason i db)"
| ms_assign: "mig_step id_lt db (snd (assign_allocation ok srv aid db))"
| ms_unassign: "mig_step id_lt db (snd (unassign_allocation ok srv aid db))"
| ms_primary: "mig_step id_lt db (snd (set_primary ok srv aid db))"

definition keys_ok :: "mdb \<Rightarrow> bool" where
  "keys_ok db \<longleftrightarrow> distinct (map mg_id (mdb_migrations db)) \<and> distinct (map rn_migration (mdb_runs db)) \<and>
     distinct (map al_id (mdb_allocations db)) \<and> distinct (map sv_id (mdb_servers db)) \<and>
     distinct (map fst (mdb_reserved db)) \<and> distinct (map snd (mdb_reserved db)) \<and>
     (\<forall>m \<in> set (mdb_migrations db). mg_source m \<noteq> mg_target m)"

text \<open>The primary allocation of a server is its own, and all its allocations are on its node.\<close>

definition primary_ok :: "mdb \<Rightarrow> bool" where
  "primary_ok db \<longleftrightarrow>
     (\<forall>s \<in> set (mdb_servers db). sv_primary s \<noteq> [] \<longrightarrow>
        (\<exists>a \<in> set (mdb_allocations db). al_id a = sv_primary s \<and> al_server a = Some (sv_id s))) \<and>
     (\<forall>s \<in> set (mdb_servers db). \<forall>a \<in> set (mdb_allocations db). al_server a = Some (sv_id s) \<longrightarrow> al_node a = sv_node s)"

text \<open>A reserved allocation is the one of the open run that reserved it.\<close>

definition reserved_ok :: "mdb \<Rightarrow> bool" where
  "reserved_ok db \<longleftrightarrow> (\<forall>(aid, i) \<in> set (mdb_reserved db).
     \<exists>r \<in> set (mdb_runs db). rn_migration r = i \<and> rn_allocation r = aid \<and> \<not> run_closed (rn_phase r))"

definition mdb_inv :: "mdb \<Rightarrow> bool" where
  "mdb_inv db \<longleftrightarrow> keys_ok db \<and> primary_ok db \<and> reserved_ok db"

lemma mdb_invI [intro]: "keys_ok db \<Longrightarrow> primary_ok db \<Longrightarrow> reserved_ok db \<Longrightarrow> mdb_inv db"
  by (simp add: mdb_inv_def)

lemma mdb_invD: "mdb_inv db \<Longrightarrow> keys_ok db" "mdb_inv db \<Longrightarrow> primary_ok db" "mdb_inv db \<Longrightarrow> reserved_ok db"
  by (simp_all add: mdb_inv_def)

section \<open>What the transactions keep\<close>

lemma history_parts [simp]:
  "mdb_migrations (add_history i f t r db) = mdb_migrations db" "mdb_runs (add_history i f t r db) = mdb_runs db"
  "mdb_reserved (add_history i f t r db) = mdb_reserved db" "mdb_allocations (add_history i f t r db) = mdb_allocations db"
  "mdb_servers (add_history i f t r db) = mdb_servers db"
  by (simp_all add: add_history_def)

lemma find_key_unique:
  assumes "distinct (map key xs)" "find (\<lambda>x. key x = i) xs = Some x" "y \<in> set xs" "key y = i"
  shows "y = x"
proof -
  have "x \<in> set xs" "key x = i" using assms(2) by (auto simp: find_Some_iff)
  with assms(1,3,4) show ?thesis by (auto simp: distinct_map inj_on_def)
qed

lemma find_key_mem: "find (\<lambda>x. key x = i) xs = Some x \<Longrightarrow> x \<in> set xs \<and> key x = i"
  by (auto simp: find_Some_iff)

lemma inv_add_history [simp]: "mdb_inv (add_history i f t r db) = mdb_inv db"
  by (simp add: mdb_inv_def keys_ok_def primary_ok_def reserved_ok_def)

text \<open>Updates of migrations that keep their keys and nodes.\<close>

lemma inv_update_migrations:
  assumes "mdb_inv db" "\<And>m. mg_id (f m) = mg_id m \<and> mg_source (f m) = mg_source m \<and> mg_target (f m) = mg_target m"
  shows "mdb_inv (update_migrations i f db)"
proof -
  have "mg_id \<circ> (\<lambda>m. if mg_id m = i then f m else m) = mg_id" using assms(2) by (intro ext) simp
  moreover have "mg_source m' \<noteq> mg_target m'" if "m' \<in> (\<lambda>m. if mg_id m = i then f m else m) ` set (mdb_migrations db)" for m'
    using that assms by (auto simp: mdb_inv_def keys_ok_def)
  ultimately show ?thesis
    using assms(1) unfolding mdb_inv_def keys_ok_def primary_ok_def reserved_ok_def update_migrations_def by simp
qed

text \<open>Updates of runs that keep their key and allocation and close none that is reserved.\<close>

lemma inv_update_runs:
  assumes inv: "mdb_inv db"
    and f: "\<And>r. rn_migration (f r) = rn_migration r \<and> rn_allocation (f r) = rn_allocation r"
    and c: "\<And>r. r \<in> set (mdb_runs db) \<Longrightarrow> hit r \<Longrightarrow> rn_migration r \<in> snd ` set (mdb_reserved db) \<Longrightarrow>
      \<not> run_closed (rn_phase r) \<Longrightarrow> \<not> run_closed (rn_phase (f r))"
  shows "mdb_inv (update_runs hit f db)"
proof
  have "rn_migration \<circ> (\<lambda>r. if hit r then f r else r) = rn_migration" using f by (intro ext) simp
  then show "keys_ok (update_runs hit f db)" using mdb_invD(1) [OF inv] by (simp add: keys_ok_def update_runs_def)
  show "primary_ok (update_runs hit f db)" using mdb_invD(2) [OF inv] by (simp add: primary_ok_def update_runs_def)
  show "reserved_ok (update_runs hit f db)"
    unfolding reserved_ok_def
  proof (intro ballI, clarify)
    fix aid i assume "(aid, i) \<in> set (mdb_reserved (update_runs hit f db))"
    then have m: "(aid, i) \<in> set (mdb_reserved db)" by (simp add: update_runs_def)
    then obtain r where r: "r \<in> set (mdb_runs db)" "rn_migration r = i" "rn_allocation r = aid" "\<not> run_closed (rn_phase r)"
      using mdb_invD(3) [OF inv] by (auto simp: reserved_ok_def)
    let ?r = "if hit r then f r else r"
    have "?r \<in> set (mdb_runs (update_runs hit f db))" using r(1) by (simp add: update_runs_def)
    moreover have "i \<in> snd ` set (mdb_reserved db)" using m by force
    then have "rn_migration ?r = i \<and> rn_allocation ?r = aid \<and> \<not> run_closed (rn_phase ?r)"
      using f r c [OF r(1)] by simp
    ultimately show "\<exists>r \<in> set (mdb_runs (update_runs hit f db)). rn_migration r = i \<and> rn_allocation r = aid \<and> \<not> run_closed (rn_phase r)"
      by blast
  qed
qed

lemma inv_drop_reservation: "mdb_inv db \<Longrightarrow> mdb_inv (drop_reservation i db)"
  unfolding mdb_inv_def keys_ok_def primary_ok_def reserved_ok_def drop_reservation_def
  by (auto simp: distinct_map_filter)

lemma drop_reservation_parts [simp]:
  "mdb_runs (drop_reservation i db) = mdb_runs db" "i \<notin> snd ` set (mdb_reserved (drop_reservation i db))"
  by (auto simp: drop_reservation_def)

lemma drop_reservation_other: "(aid, i) \<in> set (mdb_reserved (drop_reservation i db)) \<Longrightarrow> False"
  by (simp add: drop_reservation_def)

lemma inv_close_run:
  assumes "mdb_inv db" shows "mdb_inv (close_run ok phase err i db)"
proof (cases ok)
  case True
  show ?thesis
    unfolding close_run_def using True
    by (auto intro!: inv_update_runs inv_drop_reservation assms simp: image_iff dest: drop_reservation_other)
next
  case False
  then show ?thesis using assms by (simp add: close_run_def)
qed

text \<open>Changes of allocations alone.\<close>

lemma inv_allocations:
  assumes inv: "mdb_inv db" and key: "\<And>a. al_id (f a) = al_id a \<and> al_node (f a) = al_node a"
    and keep: "\<And>s a. s \<in> set (mdb_servers db) \<Longrightarrow> a \<in> set (mdb_allocations db) \<Longrightarrow> sv_primary s \<noteq> [] \<Longrightarrow> al_id a = sv_primary s \<Longrightarrow>
      al_server a = Some (sv_id s) \<Longrightarrow> al_server (f a) = Some (sv_id s)"
    and fresh: "\<And>s a. s \<in> set (mdb_servers db) \<Longrightarrow> a \<in> set (mdb_allocations db) \<Longrightarrow> al_server (f a) = Some (sv_id s) \<Longrightarrow>
      al_server a \<noteq> Some (sv_id s) \<Longrightarrow> al_node a = sv_node s"
  shows "mdb_inv (db\<lparr>mdb_allocations := map f (mdb_allocations db)\<rparr>)"
proof
  have "al_id \<circ> f = al_id" using key by (intro ext) simp
  then show "keys_ok (db\<lparr>mdb_allocations := map f (mdb_allocations db)\<rparr>)"
    using mdb_invD(1) [OF inv] by (simp add: keys_ok_def)
  show "reserved_ok (db\<lparr>mdb_allocations := map f (mdb_allocations db)\<rparr>)"
    using mdb_invD(3) [OF inv] by (simp add: reserved_ok_def)
  have p: "primary_ok db" by (rule mdb_invD(2) [OF inv])
  show "primary_ok (db\<lparr>mdb_allocations := map f (mdb_allocations db)\<rparr>)"
    unfolding primary_ok_def
  proof (intro conjI ballI impI)
    fix s assume s: "s \<in> set (mdb_servers (db\<lparr>mdb_allocations := map f (mdb_allocations db)\<rparr>))" "sv_primary s \<noteq> []"
    then obtain a where a: "a \<in> set (mdb_allocations db)" "al_id a = sv_primary s" "al_server a = Some (sv_id s)"
      using p by (auto simp: primary_ok_def)
    then have "f a \<in> set (map f (mdb_allocations db))" "al_id (f a) = sv_primary s" "al_server (f a) = Some (sv_id s)"
      using key keep s by simp_all
    then show "\<exists>a \<in> set (mdb_allocations (db\<lparr>mdb_allocations := map f (mdb_allocations db)\<rparr>)). al_id a = sv_primary s \<and> al_server a = Some (sv_id s)"
      by auto
  next
    fix s a assume h: "s \<in> set (mdb_servers (db\<lparr>mdb_allocations := map f (mdb_allocations db)\<rparr>))"
      "a \<in> set (mdb_allocations (db\<lparr>mdb_allocations := map f (mdb_allocations db)\<rparr>))" "al_server a = Some (sv_id s)"
    then obtain a0 where a0: "a0 \<in> set (mdb_allocations db)" "a = f a0" by auto
    have s: "s \<in> set (mdb_servers db)" using h(1) by simp
    show "al_node a = sv_node s"
    proof (cases "al_server a0 = Some (sv_id s)")
      case True
      then show ?thesis using p s a0 key by (simp add: primary_ok_def)
    next
      case False
      then show ?thesis using fresh [OF s a0(1)] h(3) a0(2) key by simp
    qed
  qed
qed

lemma inv_assign: assumes inv: "mdb_inv db" shows "mdb_inv (snd (assign_allocation ok srv aid db))"
proof -
  have k: "distinct (map al_id (mdb_allocations db))" "distinct (map sv_id (mdb_servers db))"
    using mdb_invD(1) [OF inv] by (simp_all add: keys_ok_def)
  have "mdb_inv (db\<lparr>mdb_allocations := map (\<lambda>a. if al_id a = aid then a\<lparr>al_server := Some srv\<rparr> else a) (mdb_allocations db)\<rparr>)"
    if s: "find_server db srv = Some s" and a: "find (\<lambda>a. al_id a = aid) (mdb_allocations db) = Some a"
      and free: "al_server a = None" and n: "al_node a = sv_node s" for s a
  proof (rule inv_allocations [OF inv])
    fix s' a' assume h: "s' \<in> set (mdb_servers db)" "a' \<in> set (mdb_allocations db)"
    have eq: "a' = a" if "al_id a' = aid" using find_key_unique [OF k(1) a h(2) that] .
    show "al_server (if al_id a' = aid then a'\<lparr>al_server := Some srv\<rparr> else a') = Some (sv_id s')"
      if "al_server a' = Some (sv_id s')" using that eq free by auto
    show "al_node a' = sv_node s'" if f: "al_server (if al_id a' = aid then a'\<lparr>al_server := Some srv\<rparr> else a') = Some (sv_id s')"
      and o: "al_server a' \<noteq> Some (sv_id s')"
    proof -
      from f o have id: "al_id a' = aid" and sv: "srv = sv_id s'" by (auto split: if_splits)
      have "s' = s" using find_key_unique [OF k(2) s [unfolded find_server_def] h(1)] sv by simp
      then show ?thesis using eq [OF id] n by simp
    qed
  qed simp
  then show ?thesis using inv by (auto simp: assign_allocation_def split: option.split)
qed

lemma inv_unassign: assumes inv: "mdb_inv db" shows "mdb_inv (snd (unassign_allocation ok srv aid db))"
proof -
  have k: "distinct (map sv_id (mdb_servers db))"
    using mdb_invD(1) [OF inv] by (simp add: keys_ok_def)
  have "mdb_inv (db\<lparr>mdb_allocations := map (\<lambda>a. if al_id a = aid \<and> al_server a = Some srv then a\<lparr>al_server := None\<rparr> else a) (mdb_allocations db)\<rparr>)"
    if g: "\<not> (case find_server db srv of None \<Rightarrow> False | Some s \<Rightarrow> sv_primary s \<noteq> [] \<and> sv_primary s = aid)"
  proof (rule inv_allocations [OF inv])
    fix s a assume h: "s \<in> set (mdb_servers db)" "a \<in> set (mdb_allocations db)" "sv_primary s \<noteq> []" "al_id a = sv_primary s" "al_server a = Some (sv_id s)"
    have "\<not> (al_id a = aid \<and> al_server a = Some srv)"
    proof
      assume c: "al_id a = aid \<and> al_server a = Some srv"
      then have sv: "sv_id s = srv" using h(5) by simp
      have "find_server db srv \<noteq> None" using h(1) sv by (auto simp: find_server_def find_None_iff)
      then obtain s' where s': "find_server db srv = Some s'" by auto
      have "s = s'" using find_key_unique [OF k s' [unfolded find_server_def] h(1) sv] .
      then show False using g s' h(3,4) c by simp
    qed
    then show "al_server (if al_id a = aid \<and> al_server a = Some srv then a\<lparr>al_server := None\<rparr> else a) = Some (sv_id s)"
      using h(5) by auto
  qed (auto split: if_splits)
  then show ?thesis using inv by (auto simp: unassign_allocation_def)
qed

lemma inv_primary: assumes inv: "mdb_inv db" shows "mdb_inv (snd (set_primary ok srv aid db))"
proof (cases "(\<exists>a \<in> set (mdb_allocations db). al_id a = aid \<and> al_server a = Some srv) \<and> ok \<and> find_server db srv \<noteq> None")
  case True
  let ?f = "\<lambda>s :: server_place. if sv_id s = srv then s\<lparr>sv_primary := aid\<rparr> else s"
  have eq: "snd (set_primary ok srv aid db) = db\<lparr>mdb_servers := map ?f (mdb_servers db)\<rparr>" using True by (auto simp: set_primary_def)
  obtain a where a: "a \<in> set (mdb_allocations db)" "al_id a = aid" "al_server a = Some srv" using True by auto
  have p: "primary_ok db" by (rule mdb_invD(2) [OF inv])
  have "sv_id \<circ> ?f = sv_id" by (intro ext) simp
  then have "keys_ok (db\<lparr>mdb_servers := map ?f (mdb_servers db)\<rparr>)" using mdb_invD(1) [OF inv] by (simp add: keys_ok_def)
  moreover have "reserved_ok (db\<lparr>mdb_servers := map ?f (mdb_servers db)\<rparr>)" using mdb_invD(3) [OF inv] by (simp add: reserved_ok_def)
  moreover have "primary_ok (db\<lparr>mdb_servers := map ?f (mdb_servers db)\<rparr>)" using p a by (auto simp: primary_ok_def)
  ultimately show ?thesis unfolding eq by blast
next
  case False
  then show ?thesis using inv by (auto simp: set_primary_def)
qed

text \<open>The commit of a migration.\<close>

lemma take_target_parts [simp]: "al_id (take_target srv tgt aid a) = al_id a" "al_node (take_target srv tgt aid a) = al_node a"
  by (simp_all add: take_target_def)

lemma free_source_parts [simp]: "al_id (free_source srv src a) = al_id a" "al_node (free_source srv src a) = al_node a"
  by (simp_all add: free_source_def)

lemma move_server_id [simp]: "sv_id (move_server srv tgt aid s) = sv_id s"
  by (simp add: move_server_def)

lemma moved_owner:
  "al_server (free_source srv src (take_target srv tgt aid a)) =
     (if al_server a = Some srv \<and> al_node a = src then None
      else if al_id a = aid \<and> al_node a = tgt \<and> al_server a = None then (if tgt = src then None else Some srv)
      else al_server a)"
  by (simp add: free_source_def take_target_def)

lemma inv_move:
  assumes inv: "mdb_inv db" and ne: "src \<noteq> tgt"
    and s: "find_server db srv = Some s" "sv_node s = src"
    and a: "a \<in> set (mdb_allocations db)" "al_id a = aid" "al_node a = tgt" "al_server a = None"
  shows "mdb_inv (db\<lparr>mdb_allocations := map (free_source srv src) (map (take_target srv tgt aid) (mdb_allocations db)),
                     mdb_servers := map (move_server srv tgt aid) (mdb_servers db)\<rparr>)" (is "mdb_inv ?db")
proof
  have "al_id \<circ> (free_source srv src \<circ> take_target srv tgt aid) = al_id" "sv_id \<circ> move_server srv tgt aid = sv_id"
    by (intro ext, simp)+
  then show "keys_ok ?db" using mdb_invD(1) [OF inv] by (simp add: keys_ok_def)
  show "reserved_ok ?db" using mdb_invD(3) [OF inv] by (simp add: reserved_ok_def)
  have p: "primary_ok db" by (rule mdb_invD(2) [OF inv])
  have k: "distinct (map al_id (mdb_allocations db))" "distinct (map sv_id (mdb_servers db))"
    using mdb_invD(1) [OF inv] by (simp_all add: keys_ok_def)
  have s': "s \<in> set (mdb_servers db)" "sv_id s = srv" using find_key_mem [OF s(1) [unfolded find_server_def]] by simp_all
  have home: "al_node b = src" if "b \<in> set (mdb_allocations db)" "al_server b = Some srv" for b
    using p s' s(2) that by (auto simp: primary_ok_def)
  let ?g = "\<lambda>b. free_source srv src (take_target srv tgt aid b)"
  show "primary_ok ?db"
    unfolding primary_ok_def
  proof (intro conjI ballI impI)
    fix x assume x: "x \<in> set (mdb_servers ?db)" "sv_primary x \<noteq> []"
    then obtain y where y: "y \<in> set (mdb_servers db)" "x = move_server srv tgt aid y" by auto
    show "\<exists>b \<in> set (mdb_allocations ?db). al_id b = sv_primary x \<and> al_server b = Some (sv_id x)"
    proof (cases "sv_id y = srv")
      case True
      have "al_id (?g a) = sv_primary x \<and> al_server (?g a) = Some (sv_id x)"
        using True y(2) a ne unfolding moved_owner by (simp add: move_server_def)
      moreover have "?g a \<in> set (mdb_allocations ?db)" using a(1) by simp
      ultimately show ?thesis by blast
    next
      case False
      then have xy: "x = y" using y(2) by (simp add: move_server_def)
      then obtain b where b: "b \<in> set (mdb_allocations db)" "al_id b = sv_primary y" "al_server b = Some (sv_id y)"
        using p y x by (auto simp: primary_ok_def)
      have "al_server (?g b) = Some (sv_id y)" using b(3) False unfolding moved_owner by simp
      moreover have "?g b \<in> set (mdb_allocations ?db)" using b(1) by simp
      moreover have "al_id (?g b) = sv_primary x \<and> Some (sv_id y) = Some (sv_id x)" using b(2) xy by simp
      ultimately show ?thesis by metis
    qed
  next
    fix x b assume h: "x \<in> set (mdb_servers ?db)" "b \<in> set (mdb_allocations ?db)" "al_server b = Some (sv_id x)"
    then obtain y c where y: "y \<in> set (mdb_servers db)" "x = move_server srv tgt aid y"
      and c: "c \<in> set (mdb_allocations db)" "b = ?g c" by auto
    have o: "al_server (?g c) = Some (sv_id y)" using h(3) y(2) c(2) by simp
    show "al_node b = sv_node x"
    proof (cases "sv_id y = srv")
      case True
      have "al_server c \<noteq> Some srv" using o True home [OF c(1)] unfolding moved_owner by (auto split: if_splits)
      then have "al_node c = tgt" using o True unfolding moved_owner by (auto split: if_splits)
      then show ?thesis using True y(2) c(2) by (simp add: move_server_def)
    next
      case False
      then have "al_server c = Some (sv_id y)" using o unfolding moved_owner by (auto split: if_splits)
      then have "al_node c = sv_node y" using p y c by (simp add: primary_ok_def)
      then show ?thesis using False y(2) c(2) by (simp add: move_server_def)
    qed
  qed
qed

lemma minv_finalize: assumes inv: "mdb_inv db" shows "mdb_inv (snd (finalize_migration ok i db))"
proof -
  have "mdb_inv (commit_move m r db)"
    if m: "find_migration db i = Some m" and r: "find_run db i = Some r" and s: "find_server db (mg_server m) = Some s"
      and n: "sv_node s = mg_source m" and a: "a \<in> set (mdb_allocations db)" "al_id a = rn_allocation r" "al_node a = mg_target m" "al_server a = None"
    for m r s a
  proof -
    have mi: "m \<in> set (mdb_migrations db)" "mg_id m = i" using find_key_mem [OF m [unfolded find_migration_def]] by simp_all
    then have ne: "mg_source m \<noteq> mg_target m" using mdb_invD(1) [OF inv] by (auto simp: keys_ok_def)
    note base = inv_move [OF inv ne s n a]
    show ?thesis
      unfolding commit_move_def Let_def inv_add_history
      by (rule inv_update_runs, rule inv_drop_reservation, rule inv_update_migrations [OF base])
        (auto simp: image_iff dest: drop_reservation_other)
  qed
  then show ?thesis using inv by (auto simp: finalize_migration_def split: option.split)
qed

lemma minv_create: "mdb_inv db \<Longrightarrow> src \<noteq> tgt \<Longrightarrow> mdb_inv (snd (create_migration_row ok i srv src tgt db))"
  by (auto simp: create_migration_row_def mdb_inv_def keys_ok_def primary_ok_def reserved_ok_def find_migration_def find_None_iff)

lemma inv_status: "mdb_inv db \<Longrightarrow> mdb_inv (snd (update_migration_status ok i status reason db))"
  by (auto simp: update_migration_status_def intro!: inv_update_migrations split: option.split)

lemma free_allocation_unreserved:
  assumes "free_allocation id_lt n db = Some a"
  shows "a \<in> set (mdb_allocations db) \<and> al_node a = n \<and> al_server a = None \<and> al_id a \<notin> fst ` set (mdb_reserved db)"
proof -
  let ?xs = "filter (\<lambda>a. al_node a = n \<and> al_server a = None \<and> al_id a \<notin> fst ` set (mdb_reserved db)) (mdb_allocations db)"
  obtain rest where "slice_stable (\<lambda>a b. id_lt (al_id a) (al_id b)) ?xs = a # rest"
    using assms by (auto simp: free_allocation_def split: list.splits)
  then have "a \<in> set (slice_stable (\<lambda>a b. id_lt (al_id a) (al_id b)) ?xs)" by simp
  then have "a \<in> set ?xs" by (simp only: set_slice_stable)
  then show ?thesis by simp
qed

lemma inv_ensure: assumes inv: "mdb_inv db" shows "mdb_inv (snd (ensure_run id_lt ok key i db))"
proof -
  have "mdb_inv (db\<lparr>mdb_runs := mdb_runs db @ [r], mdb_reserved := mdb_reserved db @ [(al_id a, i)]\<rparr>)"
    if new: "find_run db i = None" and a: "free_allocation id_lt n db = Some a" and f: "i \<notin> snd ` set (mdb_reserved db)"
      and r: "rn_migration r = i" "rn_allocation r = al_id a" "rn_phase r = ''planned''" for a r n
  proof
    have "i \<notin> rn_migration ` set (mdb_runs db)" using new by (auto simp: find_run_def find_None_iff)
    then show "keys_ok (db\<lparr>mdb_runs := mdb_runs db @ [r], mdb_reserved := mdb_reserved db @ [(al_id a, i)]\<rparr>)"
      using mdb_invD(1) [OF inv] f r(1) free_allocation_unreserved [OF a] by (simp add: keys_ok_def)
    show "primary_ok (db\<lparr>mdb_runs := mdb_runs db @ [r], mdb_reserved := mdb_reserved db @ [(al_id a, i)]\<rparr>)"
      using mdb_invD(2) [OF inv] by (simp add: primary_ok_def)
    show "reserved_ok (db\<lparr>mdb_runs := mdb_runs db @ [r], mdb_reserved := mdb_reserved db @ [(al_id a, i)]\<rparr>)"
      using mdb_invD(3) [OF inv] r by (auto simp: reserved_ok_def run_closed_def)
  qed
  then show ?thesis using inv by (auto simp: ensure_run_def split: option.split)
qed

theorem inv_step: "mig_step id_lt db db' \<Longrightarrow> mdb_inv db \<Longrightarrow> mdb_inv db'"
  by (induction rule: mig_step.induct)
    (auto simp: minv_create inv_status inv_ensure minv_finalize inv_assign inv_unassign inv_primary inv_close_run
       claim_run_def update_run_def set_hashes_def mark_cleanup_complete_def cancel_run_def fail_run_def Let_def
       intro!: inv_update_runs split: option.split)

lemma inv_steps: "(mig_step id_lt)\<^sup>*\<^sup>* db db' \<Longrightarrow> mdb_inv db \<Longrightarrow> mdb_inv db'"
  by (induction rule: rtranclp_induct) (auto dest: inv_step)

section \<open>The commit\<close>

lemma finalize_cases:
  assumes "finalize_migration ok i db = (Inr (), db')" "find_migration db i = Some m" "find_run db i = Some r" "rn_phase r \<noteq> ''completed''"
  obtains s a where "ok" "rn_phase r = ''destination_created''" "find_server db (mg_server m) = Some s" "sv_node s = mg_source m"
    "a \<in> set (mdb_allocations db)" "al_id a = rn_allocation r" "al_node a = mg_target m" "al_server a = None" "db' = commit_move m r db"
  using assms by (auto simp: finalize_migration_def split: if_splits option.splits)

lemma commit_parts:
  "mdb_servers (commit_move m r db) = map (move_server (mg_server m) (mg_target m) (rn_allocation r)) (mdb_servers db)"
  "mdb_allocations (commit_move m r db) = map (free_source (mg_server m) (mg_source m))
     (map (take_target (mg_server m) (mg_target m) (rn_allocation r)) (mdb_allocations db))"
  "mdb_migrations (commit_move m r db) = map (\<lambda>x. if mg_id x = mg_id m then x\<lparr>mg_status := ''completed'', mg_failure := []\<rparr> else x) (mdb_migrations db)"
  "mdb_runs (commit_move m r db) = map (\<lambda>x. if rn_migration x = mg_id m
     then x\<lparr>rn_phase := ''completed'', rn_cleanup := True, rn_owner := None, rn_lease := None\<rparr> else x) (mdb_runs db)"
  "mdb_reserved (commit_move m r db) = filter (\<lambda>x. snd x \<noteq> mg_id m) (mdb_reserved db)"
  by (simp_all add: commit_move_def Let_def update_runs_def update_migrations_def drop_reservation_def add_history_def)

lemma find_map_key:
  assumes "\<And>x. key (f x) = key x"
  shows "find (\<lambda>x. key x = i) (map f xs) = map_option f (find (\<lambda>x. key x = i) xs)"
  using assms by (induction xs) auto

lemma commit_finds:
  shows "find_server (commit_move m r db) x = map_option (move_server (mg_server m) (mg_target m) (rn_allocation r)) (find_server db x)"
    and "find_migration (commit_move m r db) y =
      map_option (\<lambda>x. if mg_id x = mg_id m then x\<lparr>mg_status := ''completed'', mg_failure := []\<rparr> else x) (find_migration db y)"
    and "find_run (commit_move m r db) z = map_option (\<lambda>x. if rn_migration x = mg_id m
      then x\<lparr>rn_phase := ''completed'', rn_cleanup := True, rn_owner := None, rn_lease := None\<rparr> else x) (find_run db z)"
  unfolding find_server_def find_migration_def find_run_def commit_parts
  by (rule find_map_key, simp)+

lemma commit_owned:
  assumes inv: "mdb_inv db" and m: "m \<in> set (mdb_migrations db)" and s: "find_server db (mg_server m) = Some s" "sv_node s = mg_source m"
    and a: "a \<in> set (mdb_allocations db)" "al_id a = rn_allocation r" "al_node a = mg_target m" "al_server a = None"
  shows "al_id ` {b \<in> set (mdb_allocations (commit_move m r db)). al_server b = Some (mg_server m)} = {rn_allocation r}"
proof -
  have ne: "mg_source m \<noteq> mg_target m" using mdb_invD(1) [OF inv] m by (auto simp: keys_ok_def)
  have s': "s \<in> set (mdb_servers db)" "sv_id s = mg_server m" using find_key_mem [OF s(1) [unfolded find_server_def]] by simp_all
  have home: "al_node b = mg_source m" if "b \<in> set (mdb_allocations db)" "al_server b = Some (mg_server m)" for b
    using mdb_invD(2) [OF inv] s' s(2) that by (auto simp: primary_ok_def)
  let ?g = "\<lambda>b. free_source (mg_server m) (mg_source m) (take_target (mg_server m) (mg_target m) (rn_allocation r) b)"
  have "al_id b = rn_allocation r" if "b \<in> set (mdb_allocations db)" "al_server (?g b) = Some (mg_server m)" for b
    using that home unfolding moved_owner by (auto split: if_splits)
  moreover have "al_server (?g a) = Some (mg_server m)" using a ne unfolding moved_owner by simp
  moreover have "?g a \<in> ?g ` set (mdb_allocations db)" "al_id (?g a) = rn_allocation r" using a by simp_all
  ultimately show ?thesis unfolding commit_parts set_map image_image by (auto 4 3 simp: image_iff)
qed


definition example_mdb :: mdb where
  "example_mdb = \<lparr>mdb_migrations = [\<lparr>mg_id = ''m'', mg_server = ''s'', mg_source = ''n1'', mg_target = ''n2'', mg_status = ''restoring'', mg_failure = []\<rparr>],
     mdb_history = [],
     mdb_runs = [\<lparr>rn_migration = ''m'', rn_phase = ''destination_created'', rn_key = ''k'', rn_attempt = 1, rn_owner = Some ''w'',
       rn_lease = None, rn_allocation = ''a2'', rn_size = 10, rn_checksum = ''c'', rn_source_hash = [], rn_target_hash = [],
       rn_cleanup = False, rn_error = []\<rparr>],
     mdb_reserved = [(''a2'', ''m'')],
     mdb_allocations = [\<lparr>al_id = ''a1'', al_node = ''n1'', al_server = Some ''s''\<rparr>, \<lparr>al_id = ''a2'', al_node = ''n2'', al_server = None\<rparr>],
     mdb_servers = [\<lparr>sv_id = ''s'', sv_node = ''n1'', sv_primary = ''a1''\<rparr>]\<rparr>"

lemma example_mdb_inv: "mdb_inv example_mdb"
  by (simp add: mdb_inv_def keys_ok_def primary_ok_def reserved_ok_def run_closed_def example_mdb_def)


lemma commit_facts:
  assumes inv: "mdb_inv db" and f: "finalize_migration ok i db = (Inr (), db')"
    and m: "find_migration db i = Some m" and r: "find_run db i = Some r" "rn_phase r \<noteq> ''completed''"
  shows "rn_phase r = ''destination_created''"
    and "find_server db' (mg_server m) = Some \<lparr>sv_id = mg_server m, sv_node = mg_target m, sv_primary = rn_allocation r\<rparr>"
    and "al_id ` {b \<in> set (mdb_allocations db'). al_server b = Some (mg_server m)} = {rn_allocation r}"
    and "\<And>x. x \<noteq> mg_server m \<Longrightarrow> find_server db' x = find_server db x"
    and "map_option mg_status (find_migration db' i) = Some ''completed''"
    and "map_option (\<lambda>r. (rn_phase r, rn_cleanup r)) (find_run db' i) = Some (''completed'', True)"
    and "i \<notin> snd ` set (mdb_reserved db')"
    and "finalize_migration True i db' = (Inr (), db')"
proof -
  obtain s a where c: "ok" "rn_phase r = ''destination_created''" "find_server db (mg_server m) = Some s" "sv_node s = mg_source m"
    "a \<in> set (mdb_allocations db)" "al_id a = rn_allocation r" "al_node a = mg_target m" "al_server a = None" "db' = commit_move m r db"
    using finalize_cases [OF f m r] .
  have mi: "m \<in> set (mdb_migrations db)" "mg_id m = i" using find_key_mem [OF m [unfolded find_migration_def]] by simp_all
  have ri: "rn_migration r = i" using find_key_mem [OF r(1) [unfolded find_run_def]] by simp
  have si: "sv_id s = mg_server m" using find_key_mem [OF c(3) [unfolded find_server_def]] by simp
  show "rn_phase r = ''destination_created''" by (rule c(2))
  show "find_server db' (mg_server m) = Some \<lparr>sv_id = mg_server m, sv_node = mg_target m, sv_primary = rn_allocation r\<rparr>"
    unfolding c(9) commit_finds c(3) using si by (simp add: move_server_def)
  show "al_id ` {b \<in> set (mdb_allocations db'). al_server b = Some (mg_server m)} = {rn_allocation r}"
    unfolding c(9) by (rule commit_owned [OF inv mi(1) c(3-8)])
  show "find_server db' x = find_server db x" if "x \<noteq> mg_server m" for x
  proof (cases "find_server db x")
    case (Some y)
    then have "sv_id y = x" using find_key_mem [OF Some [unfolded find_server_def]] by simp
    then show ?thesis unfolding c(9) commit_finds Some using that by (simp add: move_server_def)
  qed (simp add: c(9) commit_finds)
  show "map_option mg_status (find_migration db' i) = Some ''completed''" unfolding c(9) commit_finds m using mi by simp
  show run: "map_option (\<lambda>r. (rn_phase r, rn_cleanup r)) (find_run db' i) = Some (''completed'', True)"
    unfolding c(9) commit_finds r(1) using ri mi by simp
  show "i \<notin> snd ` set (mdb_reserved db')" unfolding c(9) commit_parts using mi by auto
  show "finalize_migration True i db' = (Inr (), db')"
    using m r(1) mi ri unfolding c(9) finalize_migration_def commit_finds by simp
qed

text \<open>C18: Committing a migration is exact and happens once: when the transaction succeeds on a run that was not
  completed, the destination had reported its container created, the server is then on the target node with
  the reserved allocation as its primary and only one, every other server is untouched, migration and run are
  completed with the clean-up pending and the reservation is gone; committing again changes nothing.
\<close>

theorem commit_moves_exactly:
  assumes "mdb_inv db" "finalize_migration ok i db = (Inr (), db')"
    "find_migration db i = Some m" "find_run db i = Some r" "rn_phase r \<noteq> ''completed''"
  shows "rn_phase r = ''destination_created'' \<and>
    find_server db' (mg_server m) = Some \<lparr>sv_id = mg_server m, sv_node = mg_target m, sv_primary = rn_allocation r\<rparr> \<and>
    al_id ` {b \<in> set (mdb_allocations db'). al_server b = Some (mg_server m)} = {rn_allocation r} \<and>
    (\<forall>x. x \<noteq> mg_server m \<longrightarrow> find_server db' x = find_server db x) \<and>
    map_option mg_status (find_migration db' i) = Some ''completed'' \<and>
    map_option (\<lambda>r. (rn_phase r, rn_cleanup r)) (find_run db' i) = Some (''completed'', True) \<and>
    i \<notin> snd ` set (mdb_reserved db') \<and>
    finalize_migration True i db' = (Inr (), db')"
  by (intro conjI allI impI; fact commit_facts [OF assms] | rule commit_facts(4) [OF assms])

text \<open>Witness of C18.\<close>

theorem commit_moves_exactly_witness:
  "find_server (snd (finalize_migration True ''m'' example_mdb)) ''s'' = Some \<lparr>sv_id = ''s'', sv_node = ''n2'', sv_primary = ''a2''\<rparr>"
proof -
  let ?m = "hd (mdb_migrations example_mdb)" and ?r = "hd (mdb_runs example_mdb)"
  have "finalize_migration True ''m'' example_mdb = (Inr (), snd (finalize_migration True ''m'' example_mdb))"
    "find_migration example_mdb ''m'' = Some ?m" "find_run example_mdb ''m'' = Some ?r" "rn_phase ?r \<noteq> ''completed''"
    by (simp_all add: finalize_migration_def find_migration_def find_run_def find_server_def example_mdb_def)
  from commit_moves_exactly [OF example_mdb_inv this] show ?thesis by (simp add: example_mdb_def)
qed

end
