(* ===== verification/Migration_Run.thy ===== *)
theory Migration_Run
  imports Migration_Store Transfer_Engine
begin

text \<open>
  The migration service (\<^verbatim>\<open>services/migration/service.go\<close>): the workers that carry a migration out, the
  retry of an interrupted clean-up and the cancellation, each a job that makes one call of the database, a
  node or the runtime at a time, so that jobs of one or several processes interleave between any two calls.
  What a call answers is an argument of the step; the calls that leave the service are written to a log,
  with the commit of the ownership among them. A node stands for its address, and an empty name for an
  address that was never read. Counters, events and texts of errors are left out.
\<close>

section \<open>Jobs\<close>

datatype call =
    Register string string string string
  | PrepareSource string string string
  | PushSource string string string string string
  | RestoreDestination string string string
  | FinalizeDestination string string string
  | CleanupSource string string string
  | CancelTransfer string string string
  | SyncConfiguration string string
  | CreateServer string string
  | DeleteServer string string
  | StartServer string string
  | Commit string
  | CompleteReservations string
  | CancelReservations string

record reply =
  rp_ok :: bool
  rp_now :: gotime
  rp_phase :: string
  rp_size :: int
  rp_offset :: int
  rp_checksum :: string
  rp_fresh :: string
  rp_fresh2 :: string

datatype stage =
    Claim | Load | Targets | Hashes | RegSource | RegTarget | Registered | Prepare | Archived | ArchivedRun | Push
  | VerifiedRun | Verified | Restore | Restored | Sync | Configured | Make | Created | Finalize
  | FinalizeTarget | CleanSource | MarkClean | Reserve
  | FailTarget | FailDelete | FailSource | FailStart | FailRun | FailStatus | FailReserve
  | CleanLoad | CleanTargets | CleanRegSource | CleanRegTarget | CleanFinalize | CleanCleanup | CleanMark
  | StopLoad | StopTargets | StopRegSource | StopSource | StopRegTarget | StopTarget | StopRun | StopStatus | StopReserve
  | Ended

record job =
  jb_migration :: string
  jb_owner :: string
  jb_stage :: stage
  jb_server :: string
  jb_phase :: string
  jb_source :: string
  jb_target :: string
  jb_source_cred :: string
  jb_target_cred :: string
  jb_size :: int
  jb_checksum :: string
  jb_created :: bool
  jb_cause :: string

record world =
  wd_db :: mdb
  wd_log :: "call list"

definition new_job :: "stage \<Rightarrow> string \<Rightarrow> string \<Rightarrow> job" where
  "new_job s owner i =
     \<lparr>jb_migration = i, jb_owner = owner, jb_stage = s, jb_server = [], jb_phase = [], jb_source = [], jb_target = [],
      jb_source_cred = [], jb_target_cred = [], jb_size = 0, jb_checksum = [], jb_created = False, jb_cause = []\<rparr>"

definition goto :: "stage \<Rightarrow> job \<Rightarrow> job" where
  "goto s j = j\<lparr>jb_stage := s\<rparr>"

definition call :: "call \<Rightarrow> world \<Rightarrow> world" where
  "call c w = w\<lparr>wd_log := wd_log w @ [c]\<rparr>"

definition set_db :: "mdb \<Rightarrow> world \<Rightarrow> world" where
  "set_db db w = w\<lparr>wd_db := db\<rparr>"

text \<open>Phases in their order; a phase that is not in the table counts as the first.\<close>

definition phase_order :: "string \<Rightarrow> nat" where
  "phase_order p =
     (if p = ''credentials_registered'' then 1 else if p = ''source_archived'' then 2
      else if p = ''destination_verified'' then 3 else if p = ''destination_restored'' then 4
      else if p = ''destination_configured'' then 5 else if p = ''destination_created'' then 6
      else if p = ''completed'' then 7 else 0)"

definition phase_at_least :: "string \<Rightarrow> string \<Rightarrow> bool" where
  "phase_at_least current expected \<longleftrightarrow> phase_order expected \<le> phase_order current"

definition failing :: "bool \<Rightarrow> string \<Rightarrow> job \<Rightarrow> job" where
  "failing created cause j = j\<lparr>jb_stage := FailTarget, jb_created := created, jb_cause := cause\<rparr>"

section \<open>A worker\<close>

text \<open>The phase of the run is read once, when the worker claims it; results of the updates in between are
  ignored, as the code ignores them.\<close>

definition note_run :: "reply \<Rightarrow> job \<Rightarrow> string \<Rightarrow> int \<Rightarrow> string \<Rightarrow> world \<Rightarrow> world" where
  "note_run rp j phase sz checksum w =
     set_db (update_run (rp_ok rp) (rp_now rp) (jb_migration j) phase [] sz checksum (wd_db w)) w"

definition note_status :: "reply \<Rightarrow> job \<Rightarrow> string \<Rightarrow> string \<Rightarrow> world \<Rightarrow> world" where
  "note_status rp j status reason w = set_db (snd (update_migration_status (rp_ok rp) (jb_migration j) status reason (wd_db w))) w"

definition claim_step :: "reply \<Rightarrow> job \<Rightarrow> world \<Rightarrow> job \<times> world" where
  "claim_step rp j w =
     (case claim_run (rp_ok rp) (rp_now rp) (jb_owner j) (jb_migration j) (wd_db w) of
        (Inl _, db) \<Rightarrow> (goto Ended j, set_db db w)
      | (Inr r, db) \<Rightarrow>
          (j\<lparr>jb_stage := Load, jb_phase := rn_phase r, jb_size := rn_size r, jb_checksum := rn_checksum r\<rparr>, set_db db w))"

definition load_step :: "reply \<Rightarrow> job \<Rightarrow> world \<Rightarrow> job \<times> world" where
  "load_step rp j w =
     (case (if rp_ok rp then find_migration (wd_db w) (jb_migration j) else None) of
        None \<Rightarrow> (failing False ''get migration'' j, w)
      | Some m \<Rightarrow> (j\<lparr>jb_stage := Targets, jb_server := mg_server m\<rparr>, w))"

definition targets_step :: "reply \<Rightarrow> job \<Rightarrow> world \<Rightarrow> job \<times> world" where
  "targets_step rp j w =
     (case (if rp_ok rp then provision_targets (wd_db w) (jb_migration j) else Inl MigDbFailed) of
        Inl _ \<Rightarrow> (failing False ''targets'' j, w)
      | Inr (src, tgt) \<Rightarrow>
          (j\<lparr>jb_stage := Hashes, jb_source := src, jb_target := tgt, jb_source_cred := rp_fresh rp, jb_target_cred := rp_fresh2 rp\<rparr>, w))"

definition registered_step :: "reply \<Rightarrow> job \<Rightarrow> world \<Rightarrow> job \<times> world" where
  "registered_step rp j w =
     (goto (if jb_phase j = ''destination_created'' then Finalize else Prepare) j,
      if phase_at_least (jb_phase j) ''source_archived'' then w else note_run rp j ''credentials_registered'' 0 [] w)"

definition prepare_step :: "reply \<Rightarrow> job \<Rightarrow> world \<Rightarrow> job \<times> world" where
  "prepare_step rp j w =
     (if phase_at_least (jb_phase j) ''source_archived'' then (goto Push j, w)
      else let w1 = call (PrepareSource (jb_source j) (jb_migration j) (jb_source_cred j)) w in
           if \<not> rp_ok rp then (failing False ''prepare source'' j, w1)
           else if rp_phase rp \<noteq> ''archived'' \<or> rp_size rp \<le> 0 \<or> rp_checksum rp = []
           then (failing False ''source did not report a complete archive'' j, w1)
           else (j\<lparr>jb_stage := Archived, jb_size := rp_size rp, jb_checksum := rp_checksum rp\<rparr>, w1))"

definition push_step :: "reply \<Rightarrow> job \<Rightarrow> world \<Rightarrow> job \<times> world" where
  "push_step rp j w =
     (if phase_at_least (jb_phase j) ''destination_verified'' then (goto Restore j, w)
      else let w1 = call (PushSource (jb_source j) (jb_target j) (jb_migration j) (jb_source_cred j) (jb_target_cred j)) w in
           if \<not> rp_ok rp then (failing False ''transfer archive'' j, w1)
           else if rp_phase rp \<noteq> ''verified'' \<or> rp_offset rp \<noteq> jb_size j \<or>
             ascii_lower (rp_checksum rp) \<noteq> ascii_lower (jb_checksum j)
           then (failing False ''destination verification report is inconsistent with source archive'' j, w1)
           else (j\<lparr>jb_stage := VerifiedRun, jb_size := rp_size rp, jb_checksum := rp_checksum rp\<rparr>, w1))"

definition restore_step :: "reply \<Rightarrow> job \<Rightarrow> world \<Rightarrow> job \<times> world" where
  "restore_step rp j w =
     (if phase_at_least (jb_phase j) ''destination_restored'' then (goto Sync j, w)
      else let w1 = call (RestoreDestination (jb_target j) (jb_migration j) (jb_target_cred j)) w in
           if \<not> rp_ok rp \<or> rp_phase rp \<noteq> ''restored'' then (failing False ''restore destination'' j, w1)
           else (goto Restored j, w1))"

definition sync_step :: "reply \<Rightarrow> job \<Rightarrow> world \<Rightarrow> job \<times> world" where
  "sync_step rp j w =
     (if phase_at_least (jb_phase j) ''destination_configured'' then (goto Make j, w)
      else let w1 = call (SyncConfiguration (jb_target j) (jb_server j)) w in
           if \<not> rp_ok rp then (failing False ''sync destination configuration'' j, w1) else (goto Configured j, w1))"

definition make_step :: "reply \<Rightarrow> job \<Rightarrow> world \<Rightarrow> job \<times> world" where
  "make_step rp j w =
     (let w1 = call (CreateServer (jb_target j) (jb_server j)) w in
      if \<not> rp_ok rp then (failing False ''create destination container'' j, w1) else (goto Created j, w1))"

text \<open>The commit, and what follows it. A commit that fails takes the container at the target away again.\<close>

definition finalize_step :: "reply \<Rightarrow> job \<Rightarrow> world \<Rightarrow> job \<times> world" where
  "finalize_step rp j w =
     (case finalize_migration (rp_ok rp) (jb_migration j) (wd_db w) of
        (Inl _, db) \<Rightarrow> (failing True ''commit migration ownership'' j, set_db db w)
      | (Inr _, db) \<Rightarrow> (goto FinalizeTarget j, call (Commit (jb_migration j)) (set_db db w)))"

definition call_step :: "call \<Rightarrow> stage \<Rightarrow> stage \<Rightarrow> reply \<Rightarrow> job \<Rightarrow> world \<Rightarrow> job \<times> world" where
  "call_step c yes no rp j w = (goto (if rp_ok rp then yes else no) j, call c w)"

text \<open>One call of a failed worker, made when its address and its credential are known.\<close>

definition fail_call :: "bool \<Rightarrow> call \<Rightarrow> stage \<Rightarrow> job \<Rightarrow> world \<Rightarrow> job \<times> world" where
  "fail_call known c s j w = (goto s j, if known then call c w else w)"

text \<open>The last status, after which the reservations of the migration are released.\<close>

definition status_step :: "string \<Rightarrow> string \<Rightarrow> stage \<Rightarrow> reply \<Rightarrow> job \<Rightarrow> world \<Rightarrow> job \<times> world" where
  "status_step status reason s rp j w =
     (case update_migration_status (rp_ok rp) (jb_migration j) status reason (wd_db w) of
        (Inl _, db) \<Rightarrow> (goto Ended j, set_db db w) | (Inr _, db) \<Rightarrow> (goto s j, set_db db w))"

definition reg_source :: "job \<Rightarrow> call" where
  "reg_source j = Register (jb_source j) (jb_migration j) source_control (jb_source_cred j)"

definition reg_target :: "job \<Rightarrow> call" where
  "reg_target j = Register (jb_target j) (jb_migration j) destination_upload (jb_target_cred j)"

definition reg_step :: "call \<Rightarrow> stage \<Rightarrow> reply \<Rightarrow> job \<Rightarrow> world \<Rightarrow> job \<times> world" where
  "reg_step c s rp j w = (if rp_ok rp then goto s j else failing False ''register credential'' j, call c w)"

definition hashes_step :: "(string \<Rightarrow> string) \<Rightarrow> reply \<Rightarrow> job \<Rightarrow> world \<Rightarrow> job \<times> world" where
  "hashes_step hash rp j w =
     (case set_hashes (rp_ok rp) (jb_migration j) (hash (jb_source_cred j)) (hash (jb_target_cred j)) (wd_db w) of
        (Inl _, db) \<Rightarrow> (failing False ''credential hashes'' j, set_db db w)
      | (Inr _, db) \<Rightarrow> (goto RegSource j, set_db db w))"

definition run_step :: "(string \<Rightarrow> string) \<Rightarrow> reply \<Rightarrow> job \<Rightarrow> world \<Rightarrow> job \<times> world" where
  "run_step hash rp j w =
     (case jb_stage j of
        Claim \<Rightarrow> claim_step rp j w
      | Load \<Rightarrow> load_step rp j w
      | Targets \<Rightarrow> targets_step rp j w
      | Hashes \<Rightarrow> hashes_step hash rp j w
      | RegSource \<Rightarrow> reg_step (reg_source j) RegTarget rp j w
      | RegTarget \<Rightarrow> reg_step (reg_target j) Registered rp j w
      | Registered \<Rightarrow> registered_step rp j w
      | Prepare \<Rightarrow> prepare_step rp j w
      | Archived \<Rightarrow> (goto ArchivedRun j, note_status rp j ''transferring'' ''source stopped and archive created'' w)
      | ArchivedRun \<Rightarrow> (goto Push j, note_run rp j ''source_archived'' (jb_size j) (jb_checksum j) w)
      | Push \<Rightarrow> push_step rp j w
      | VerifiedRun \<Rightarrow> (goto Verified j, note_run rp j ''destination_verified'' (jb_size j) (jb_checksum j) w)
      | Verified \<Rightarrow> (goto Restore j, note_status rp j ''restoring'' ''destination checksum verified'' w)
      | Restore \<Rightarrow> restore_step rp j w
      | Restored \<Rightarrow> (goto Sync j, note_run rp j ''destination_restored'' 0 [] w)
      | Sync \<Rightarrow> sync_step rp j w
      | Configured \<Rightarrow> (goto Make j, note_run rp j ''destination_configured'' 0 [] w)
      | Make \<Rightarrow> make_step rp j w
      | Created \<Rightarrow> (goto Finalize j, note_run rp j ''destination_created'' 0 [] w)
      | Finalize \<Rightarrow> finalize_step rp j w
      | FinalizeTarget \<Rightarrow>
          call_step (FinalizeDestination (jb_target j) (jb_migration j) (jb_target_cred j)) CleanSource Reserve rp j w
      | CleanSource \<Rightarrow> call_step (CleanupSource (jb_source j) (jb_migration j) (jb_source_cred j)) MarkClean Reserve rp j w
      | MarkClean \<Rightarrow> (goto Reserve j, set_db (mark_cleanup_complete (rp_ok rp) (jb_migration j) (wd_db w)) w)
      | Reserve \<Rightarrow> (goto Ended j, call (CompleteReservations (jb_migration j)) w)
      | FailTarget \<Rightarrow> fail_call (jb_target_cred j \<noteq> [] \<and> jb_target j \<noteq> [])
          (CancelTransfer (jb_target j) (jb_migration j) (jb_target_cred j)) FailDelete j w
      | FailDelete \<Rightarrow> fail_call (jb_created j \<and> jb_target j \<noteq> []) (DeleteServer (jb_target j) (jb_server j)) FailSource j w
      | FailSource \<Rightarrow> fail_call (jb_source_cred j \<noteq> [] \<and> jb_source j \<noteq> [])
          (CancelTransfer (jb_source j) (jb_migration j) (jb_source_cred j)) FailStart j w
      | FailStart \<Rightarrow> fail_call (jb_source j \<noteq> []) (StartServer (jb_source j) (jb_server j)) FailRun j w
      | FailRun \<Rightarrow> (goto FailStatus j, set_db (fail_run (rp_ok rp) (jb_cause j) (jb_migration j) (wd_db w)) w)
      | FailStatus \<Rightarrow> status_step ''failed'' (jb_cause j) FailReserve rp j w
      | FailReserve \<Rightarrow> (goto Ended j, call (CancelReservations (jb_migration j)) w)
      | _ \<Rightarrow> (j, w))"

section \<open>The retry of a clean-up\<close>

text \<open>The nodes are read again, after the server has moved.\<close>

definition cleanup_step :: "reply \<Rightarrow> job \<Rightarrow> world \<Rightarrow> job \<times> world" where
  "cleanup_step rp j w =
     (case jb_stage j of
        CleanLoad \<Rightarrow>
          (case (if rp_ok rp then find_migration (wd_db w) (jb_migration j) else None) of
             None \<Rightarrow> (goto Ended j, w)
           | Some m \<Rightarrow>
               if mg_status m \<noteq> ''completed'' \<or> \<not> (case find_run (wd_db w) (jb_migration j) of None \<Rightarrow> False | Some r \<Rightarrow> rn_cleanup r)
               then (goto Ended j, w)
               else (j\<lparr>jb_stage := CleanTargets, jb_server := mg_server m\<rparr>, w))
      | CleanTargets \<Rightarrow>
          (case (if rp_ok rp then provision_targets (wd_db w) (jb_migration j) else Inl MigDbFailed) of
             Inl _ \<Rightarrow> (goto Ended j, w)
           | Inr (src, tgt) \<Rightarrow>
               (j\<lparr>jb_stage := CleanRegSource, jb_source := src, jb_target := tgt, jb_source_cred := rp_fresh rp,
                  jb_target_cred := rp_fresh2 rp\<rparr>, w))
      | CleanRegSource \<Rightarrow> call_step (reg_source j) CleanRegTarget Ended rp j w
      | CleanRegTarget \<Rightarrow> call_step (reg_target j) CleanFinalize Ended rp j w
      | CleanFinalize \<Rightarrow>
          call_step (FinalizeDestination (jb_target j) (jb_migration j) (jb_target_cred j)) CleanCleanup Ended rp j w
      | CleanCleanup \<Rightarrow> call_step (CleanupSource (jb_source j) (jb_migration j) (jb_source_cred j)) CleanMark Ended rp j w
      | CleanMark \<Rightarrow> (goto Ended j, set_db (mark_cleanup_complete (rp_ok rp) (jb_migration j) (wd_db w)) w)
      | _ \<Rightarrow> (j, w))"

section \<open>Cancelling\<close>

definition cancel_step :: "reply \<Rightarrow> job \<Rightarrow> world \<Rightarrow> job \<times> world" where
  "cancel_step rp j w =
     (case jb_stage j of
        StopLoad \<Rightarrow>
          (case (if rp_ok rp then find_migration (wd_db w) (jb_migration j) else None) of
             None \<Rightarrow> (goto Ended j, w)
           | Some m \<Rightarrow>
               if mg_status m \<in> {''completed'', ''failed'', ''cancelled''} then (goto Ended j, w)
               else (j\<lparr>jb_stage := StopTargets, jb_server := mg_server m\<rparr>, w))
      | StopTargets \<Rightarrow>
          (case (if rp_ok rp then provision_targets (wd_db w) (jb_migration j) else Inl MigDbFailed) of
             Inl _ \<Rightarrow> (goto StopRun j, w)
           | Inr (src, tgt) \<Rightarrow>
               (j\<lparr>jb_stage := StopRegSource, jb_source := src, jb_target := tgt, jb_source_cred := rp_fresh rp,
                  jb_target_cred := rp_fresh2 rp\<rparr>, w))
      | StopRegSource \<Rightarrow> call_step (reg_source j) StopSource StopRegTarget rp j w
      | StopSource \<Rightarrow> (goto StopRegTarget j, call (CancelTransfer (jb_source j) (jb_migration j) (jb_source_cred j)) w)
      | StopRegTarget \<Rightarrow> call_step (reg_target j) StopTarget StopRun rp j w
      | StopTarget \<Rightarrow> (goto StopRun j, call (CancelTransfer (jb_target j) (jb_migration j) (jb_target_cred j)) w)
      | StopRun \<Rightarrow> (goto StopStatus j, set_db (cancel_run (rp_ok rp) (jb_migration j) (wd_db w)) w)
      | StopStatus \<Rightarrow> status_step ''cancelled'' ''migration cancelled'' StopReserve rp j w
      | StopReserve \<Rightarrow> (goto Ended j, call (CancelReservations (jb_migration j)) w)
      | _ \<Rightarrow> (j, w))"

text \<open>Every stage belongs to one of the three.\<close>

definition cleanup_stages :: "stage list" where
  "cleanup_stages = [CleanLoad, CleanTargets, CleanRegSource, CleanRegTarget, CleanFinalize, CleanCleanup, CleanMark]"

definition cancel_stages :: "stage list" where
  "cancel_stages = [StopLoad, StopTargets, StopRegSource, StopSource, StopRegTarget, StopTarget, StopRun, StopStatus, StopReserve]"

definition job_step :: "(string \<Rightarrow> string) \<Rightarrow> reply \<Rightarrow> job \<Rightarrow> world \<Rightarrow> job \<times> world" where
  "job_step hash rp j w =
     (if jb_stage j \<in> set cleanup_stages then cleanup_step rp j w
      else if jb_stage j \<in> set cancel_stages then cancel_step rp j w
      else run_step hash rp j w)"

section \<open>Processes\<close>

text \<open>Each process starts at most four workers, one for a migration.\<close>

record system =
  sy_world :: world
  sy_jobs :: "job list"
  sy_active :: "(string \<times> string) list"

definition start_run :: "string \<Rightarrow> string \<Rightarrow> system \<Rightarrow> bool \<times> system" where
  "start_run p i sy =
     (if (p, i) \<in> set (sy_active sy) \<or> 4 \<le> length (filter (\<lambda>x. fst x = p) (sy_active sy)) then (False, sy)
      else (True, sy\<lparr>sy_active := sy_active sy @ [(p, i)], sy_jobs := sy_jobs sy @ [new_job Claim p i]\<rparr>))"

fun start_all :: "string \<Rightarrow> string list \<Rightarrow> system \<Rightarrow> system" where
  "start_all p [] sy = sy"
| "start_all p (i # is) sy = start_all p is (snd (start_run p i sy))"

definition reclaim :: "bool \<Rightarrow> gotime \<Rightarrow> string \<Rightarrow> system \<Rightarrow> system" where
  "reclaim ok now p sy = (if ok then start_all p (reclaimable_ids now (wd_db (sy_world sy))) sy else sy)"

text \<open>The clean-ups of one round; at most four of them run at a time, here they run in any order.\<close>

definition cleanup :: "bool \<Rightarrow> string \<Rightarrow> system \<Rightarrow> system" where
  "cleanup ok p sy =
     (if ok then sy\<lparr>sy_jobs := sy_jobs sy @ map (new_job CleanLoad p) (cleanup_ids (wd_db (sy_world sy)))\<rparr> else sy)"

definition run_once :: "bool \<Rightarrow> bool \<Rightarrow> gotime \<Rightarrow> string \<Rightarrow> system \<Rightarrow> system" where
  "run_once ok1 ok2 now p sy = cleanup ok2 p (reclaim ok1 now p sy)"

definition cancel_migration :: "string \<Rightarrow> string \<Rightarrow> system \<Rightarrow> system" where
  "cancel_migration p i sy = sy\<lparr>sy_jobs := sy_jobs sy @ [new_job StopLoad p i]\<rparr>"

datatype prep_error = NotPreparable | PrepStore mig_error

definition prepare_migration ::
  "(string \<Rightarrow> string \<Rightarrow> bool) \<Rightarrow> bool \<Rightarrow> bool \<Rightarrow> bool \<Rightarrow> string \<Rightarrow> string \<Rightarrow> mdb \<Rightarrow> (prep_error + unit) \<times> mdb" where
  "prepare_migration id_lt ok1 ok2 ok3 key i db =
     (case (if ok1 then find_migration db i else None) of
        None \<Rightarrow> (Inl (PrepStore MigNoRows), db)
      | Some m \<Rightarrow>
          if mg_status m \<noteq> ''planned'' \<and> mg_status m \<noteq> ''preparing'' then (Inl NotPreparable, db)
          else (case ensure_run id_lt ok2 key i db of
            (Inl e, db1) \<Rightarrow> (Inl (PrepStore e), db1)
          | (Inr _, db1) \<Rightarrow>
              if mg_status m = ''planned'' then
                (case update_migration_status ok3 i ''preparing'' ''real transfer run prepared'' db1 of
                   (Inl e, db2) \<Rightarrow> (Inl (PrepStore e), db2) | (Inr _, db2) \<Rightarrow> (Inr (), db2))
              else (Inr (), db1)))"

definition execute_migration ::
  "(string \<Rightarrow> string \<Rightarrow> bool) \<Rightarrow> bool \<Rightarrow> bool \<Rightarrow> bool \<Rightarrow> string \<Rightarrow> string \<Rightarrow> string \<Rightarrow> system \<Rightarrow> (prep_error + unit) \<times> system" where
  "execute_migration id_lt ok1 ok2 ok3 key p i sy =
     (case prepare_migration id_lt ok1 ok2 ok3 key i (wd_db (sy_world sy)) of
        (Inl e, db) \<Rightarrow> (Inl e, sy\<lparr>sy_world := set_db db (sy_world sy)\<rparr>)
      | (Inr _, db) \<Rightarrow> (Inr (), snd (start_run p i (sy\<lparr>sy_world := set_db db (sy_world sy)\<rparr>))))"

text \<open>A job that has ended leaves; a worker also gives its place in its process back.\<close>

definition is_worker :: "job \<Rightarrow> bool" where
  "is_worker j \<longleftrightarrow> jb_stage j \<notin> set cleanup_stages \<and> jb_stage j \<notin> set cancel_stages"

definition advance :: "(string \<Rightarrow> string) \<Rightarrow> nat \<Rightarrow> reply \<Rightarrow> system \<Rightarrow> system" where
  "advance hash k rp sy =
     (if length (sy_jobs sy) \<le> k then sy
      else let j = sy_jobs sy ! k; (j1, w1) = job_step hash rp j (sy_world sy) in
           if jb_stage j1 \<noteq> Ended then sy\<lparr>sy_world := w1, sy_jobs := (sy_jobs sy)[k := j1]\<rparr>
           else sy\<lparr>sy_world := w1, sy_jobs := take k (sy_jobs sy) @ drop (Suc k) (sy_jobs sy),
                  sy_active := (if is_worker j then filter (\<lambda>x. x \<noteq> (jb_owner j, jb_migration j)) (sy_active sy) else sy_active sy)\<rparr>)"

text \<open>A process that dies takes its jobs with it.\<close>

definition crash :: "string \<Rightarrow> system \<Rightarrow> system" where
  "crash p sy = sy\<lparr>sy_jobs := filter (\<lambda>j. jb_owner j \<noteq> p) (sy_jobs sy), sy_active := filter (\<lambda>x. fst x \<noteq> p) (sy_active sy)\<rparr>"

inductive sys_step :: "(string \<Rightarrow> string) \<Rightarrow> (string \<Rightarrow> string \<Rightarrow> bool) \<Rightarrow> system \<Rightarrow> system \<Rightarrow> bool" for hash id_lt where
  sys_create: "src \<noteq> tgt \<Longrightarrow>
    sys_step hash id_lt sy (sy\<lparr>sy_world := set_db (snd (create_migration_row ok i srv src tgt (wd_db (sy_world sy)))) (sy_world sy)\<rparr>)"
| sys_prepare: "sys_step hash id_lt sy (sy\<lparr>sy_world := set_db (snd (prepare_migration id_lt ok1 ok2 ok3 key i (wd_db (sy_world sy)))) (sy_world sy)\<rparr>)"
| sys_execute: "sys_step hash id_lt sy (snd (execute_migration id_lt ok1 ok2 ok3 key p i sy))"
| sys_once: "sys_step hash id_lt sy (run_once ok1 ok2 now p sy)"
| sys_cancel: "sys_step hash id_lt sy (cancel_migration p i sy)"
| sys_job: "sys_step hash id_lt sy (advance hash k rp sy)"
| sys_crash: "sys_step hash id_lt sy (crash p sy)"
| sys_assign: "sys_step hash id_lt sy (sy\<lparr>sy_world := set_db (snd (assign_allocation ok srv aid (wd_db (sy_world sy)))) (sy_world sy)\<rparr>)"
| sys_unassign: "sys_step hash id_lt sy (sy\<lparr>sy_world := set_db (snd (unassign_allocation ok srv aid (wd_db (sy_world sy)))) (sy_world sy)\<rparr>)"
| sys_primary: "sys_step hash id_lt sy (sy\<lparr>sy_world := set_db (snd (set_primary ok srv aid (wd_db (sy_world sy)))) (sy_world sy)\<rparr>)"

lemmas world_defs = goto_def call_def set_db_def failing_def note_run_def note_status_def

lemmas run_defs = claim_step_def load_step_def targets_step_def registered_step_def prepare_step_def push_step_def
  restore_step_def sync_step_def make_step_def finalize_step_def call_step_def fail_call_def reg_step_def hashes_step_def status_step_def

lemmas step_defs = job_step_def run_step_def cleanup_step_def cancel_step_def run_defs

section \<open>Every step is a transaction\<close>

lemma world_simps [simp]:
  "wd_db (call c w) = wd_db w" "wd_log (call c w) = wd_log w @ [c]" "wd_db (set_db db w) = db" "wd_log (set_db db w) = wd_log w"
  "wd_db (note_run rp j ph sz cs w) = update_run (rp_ok rp) (rp_now rp) (jb_migration j) ph [] sz cs (wd_db w)"
  "wd_log (note_run rp j ph sz cs w) = wd_log w"
  "wd_db (note_status rp j st why w) = snd (update_migration_status (rp_ok rp) (jb_migration j) st why (wd_db w))"
  "wd_log (note_status rp j st why w) = wd_log w"
  by (simp_all add: call_def set_db_def note_run_def note_status_def)

lemma job_keys [simp]:
  "jb_migration (goto s j) = jb_migration j" "jb_owner (goto s j) = jb_owner j" "jb_stage (goto s j) = s"
  "jb_migration (failing c e j) = jb_migration j" "jb_owner (failing c e j) = jb_owner j" "jb_stage (failing c e j) = FailTarget"
  by (simp_all add: goto_def failing_def)

lemma db_step_or_same:
  "db' = db \<or> mig_step id_lt db db' \<Longrightarrow> (mig_step id_lt)\<^sup>*\<^sup>* db db'"
  by auto

lemma claim_step_db: "wd_db (snd (claim_step rp j w)) = snd (claim_run (rp_ok rp) (rp_now rp) (jb_owner j) (jb_migration j) (wd_db w))"
  by (simp add: claim_step_def split: prod.split sum.split)

lemma finalize_step_db: "wd_db (snd (finalize_step rp j w)) = snd (finalize_migration (rp_ok rp) (jb_migration j) (wd_db w))"
  by (simp add: finalize_step_def split: prod.split sum.split)

lemma hashes_step_db:
  "wd_db (snd (hashes_step hash rp j w)) =
     snd (set_hashes (rp_ok rp) (jb_migration j) (hash (jb_source_cred j)) (hash (jb_target_cred j)) (wd_db w))"
  by (simp add: hashes_step_def split: prod.split sum.split)

lemma quiet_steps_db [simp]:
  "wd_db (snd (load_step rp j w)) = wd_db w" "wd_db (snd (targets_step rp j w)) = wd_db w"
  "wd_db (snd (prepare_step rp j w)) = wd_db w" "wd_db (snd (push_step rp j w)) = wd_db w"
  "wd_db (snd (restore_step rp j w)) = wd_db w" "wd_db (snd (sync_step rp j w)) = wd_db w"
  "wd_db (snd (make_step rp j w)) = wd_db w" "wd_db (snd (call_step c y n rp j w)) = wd_db w"
  "wd_db (snd (fail_call k c s j w)) = wd_db w" "wd_db (snd (reg_step c s rp j w)) = wd_db w"
  by (simp_all add: run_defs Let_def split: option.split sum.split prod.split)

lemma open_phases [simp]:
  "\<not> run_closed ''credentials_registered''" "\<not> run_closed ''source_archived''" "\<not> run_closed ''destination_verified''"
  "\<not> run_closed ''destination_restored''" "\<not> run_closed ''destination_configured''" "\<not> run_closed ''destination_created''"
  by (simp_all add: run_closed_def)

lemma status_step_db: "wd_db (snd (status_step st why s rp j w)) = snd (update_migration_status (rp_ok rp) (jb_migration j) st why (wd_db w))"
  by (simp add: status_step_def split: prod.split sum.split)

lemma status_step_stage: "jb_stage (fst (status_step st why s rp j w)) = (if isl (fst (update_migration_status (rp_ok rp) (jb_migration j) st why (wd_db w))) then Ended else s)"
  "jb_migration (fst (status_step st why s rp j w)) = jb_migration j" "jb_owner (fst (status_step st why s rp j w)) = jb_owner j"
  by (auto simp: status_step_def split: prod.split sum.split)

lemma registered_step_db:
  "wd_db (snd (registered_step rp j w)) = (if phase_at_least (jb_phase j) ''source_archived'' then wd_db w
     else update_run (rp_ok rp) (rp_now rp) (jb_migration j) ''credentials_registered'' [] 0 [] (wd_db w))"
  by (simp add: registered_step_def)

lemmas step_db = claim_step_db finalize_step_db hashes_step_db status_step_db registered_step_db

lemma run_step_db: "wd_db (snd (run_step hash rp j w)) = wd_db w \<or> mig_step id_lt (wd_db w) (wd_db (snd (run_step hash rp j w)))"
  by (cases "jb_stage j") (auto simp: run_step_def step_db mig_step.intros)

lemma cleanup_step_db: "wd_db (snd (cleanup_step rp j w)) = wd_db w \<or> mig_step id_lt (wd_db w) (wd_db (snd (cleanup_step rp j w)))"
  by (cases "jb_stage j") (auto simp: cleanup_step_def mig_step.intros split: option.split sum.split)

lemma cancel_step_db: "wd_db (snd (cancel_step rp j w)) = wd_db w \<or> mig_step id_lt (wd_db w) (wd_db (snd (cancel_step rp j w)))"
  by (cases "jb_stage j") (auto simp: cancel_step_def step_db mig_step.intros split: option.split sum.split)

lemma job_step_db: "(mig_step id_lt)\<^sup>*\<^sup>* (wd_db w) (wd_db (snd (job_step hash rp j w)))"
  unfolding job_step_def using run_step_db cleanup_step_db cancel_step_db
  by (intro db_step_or_same) simp

lemma prepare_db: "(mig_step id_lt)\<^sup>*\<^sup>* db (snd (prepare_migration id_lt ok1 ok2 ok3 key i db))"
proof -
  let ?db1 = "snd (ensure_run id_lt ok2 key i db)"
  have 1: "mig_step id_lt db ?db1" by (rule ms_ensure)
  have 2: "mig_step id_lt ?db1 (snd (update_migration_status ok3 i ''preparing'' ''real transfer run prepared'' ?db1))"
    by (rule ms_status) simp
  have "snd (prepare_migration id_lt ok1 ok2 ok3 key i db) \<in> {db, ?db1, snd (update_migration_status ok3 i ''preparing'' ''real transfer run prepared'' ?db1)}"
    by (auto simp: prepare_migration_def split: option.split prod.split sum.split)
  then show ?thesis using 1 2 by (auto intro: rtranclp.rtrancl_into_rtrancl)
qed

lemma start_run_world [simp]: "sy_world (snd (start_run p i sy)) = sy_world sy"
  by (simp add: start_run_def)

lemma start_all_world [simp]: "sy_world (start_all p is sy) = sy_world sy"
  by (induction "is" arbitrary: sy) simp_all

lemma run_once_world [simp]: "sy_world (run_once ok1 ok2 now p sy) = sy_world sy"
  by (simp add: run_once_def cleanup_def reclaim_def)

lemma execute_world:
  "sy_world (snd (execute_migration id_lt ok1 ok2 ok3 key p i sy))
     = set_db (snd (prepare_migration id_lt ok1 ok2 ok3 key i (wd_db (sy_world sy)))) (sy_world sy)"
  by (simp add: execute_migration_def split: prod.split sum.split)

lemma advance_world:
  "sy_world (advance hash k rp sy) = (if length (sy_jobs sy) \<le> k then sy_world sy else snd (job_step hash rp (sy_jobs sy ! k) (sy_world sy)))"
  by (simp add: advance_def Let_def split: prod.split)

lemma sys_step_db: "sys_step hash id_lt sy sy' \<Longrightarrow> (mig_step id_lt)\<^sup>*\<^sup>* (wd_db (sy_world sy)) (wd_db (sy_world sy'))"
  by (induction rule: sys_step.induct)
    (auto simp: execute_world advance_world prepare_db job_step_db cancel_migration_def crash_def intro: r_into_rtranclp mig_step.intros)

lemma sys_steps_db: "(sys_step hash id_lt)\<^sup>*\<^sup>* sy sy' \<Longrightarrow> (mig_step id_lt)\<^sup>*\<^sup>* (wd_db (sy_world sy)) (wd_db (sy_world sy'))"
  by (induction rule: rtranclp_induct) (auto dest: sys_step_db)

section \<open>Nothing is destroyed before the commit\<close>

text \<open>The calls that give up the roll-back at the target and destroy the source.\<close>

fun destroys :: "string \<Rightarrow> call \<Rightarrow> bool" where
  "destroys i (FinalizeDestination n m c) \<longleftrightarrow> m = i"
| "destroys i (CleanupSource n m c) \<longleftrightarrow> m = i"
| "destroys i _ \<longleftrightarrow> False"

definition commits_first :: "call list \<Rightarrow> bool" where
  "commits_first cs \<longleftrightarrow> (\<forall>k < length cs. \<forall>i. destroys i (cs ! k) \<longrightarrow> Commit i \<in> set (take k cs))"

lemma commits_first_snoc: "commits_first (cs @ [c]) \<longleftrightarrow> commits_first cs \<and> (\<forall>i. destroys i c \<longrightarrow> Commit i \<in> set cs)"
  by (auto simp: commits_first_def nth_append less_Suc_eq)

definition done_in :: "call list \<Rightarrow> mdb \<Rightarrow> bool" where
  "done_in cs db \<longleftrightarrow> (\<forall>m \<in> set (mdb_migrations db). mg_status m = ''completed'' \<longrightarrow> Commit (mg_id m) \<in> set cs) \<and>
     (\<forall>r \<in> set (mdb_runs db). rn_phase r = ''completed'' \<longrightarrow> Commit (rn_migration r) \<in> set cs)"

definition committed_stages :: "stage list" where
  "committed_stages = [FinalizeTarget, CleanSource, MarkClean, Reserve, CleanTargets, CleanRegSource, CleanRegTarget, CleanFinalize,
     CleanCleanup, CleanMark]"

definition job_done :: "call list \<Rightarrow> job \<Rightarrow> bool" where
  "job_done cs j \<longleftrightarrow> (jb_stage j \<in> set committed_stages \<longrightarrow> Commit (jb_migration j) \<in> set cs)"

lemma done_in_mono: "done_in cs db \<Longrightarrow> done_in (cs @ ds) db"
  by (auto simp: done_in_def)

lemma job_done_mono: "job_done cs j \<Longrightarrow> job_done (cs @ ds) j"
  by (auto simp: job_done_def)

lemma done_update_runs:
  assumes "done_in cs db" "\<And>r. hit r \<Longrightarrow> rn_phase (f r) = ''completed'' \<Longrightarrow> rn_phase r = ''completed''" "\<And>r. rn_migration (f r) = rn_migration r"
  shows "done_in cs (update_runs hit f db)"
  using assms unfolding done_in_def update_runs_def by (auto split: if_splits)

lemma done_drop [simp]: "done_in cs (drop_reservation i db) = done_in cs db"
  by (simp add: done_in_def drop_reservation_def)

lemma done_close: "done_in cs db \<Longrightarrow> phase \<noteq> ''completed'' \<Longrightarrow> done_in cs (close_run ok phase err i db)"
  unfolding close_run_def by (auto intro!: done_update_runs)

lemma done_status: "done_in cs db \<Longrightarrow> status \<noteq> ''completed'' \<Longrightarrow> done_in cs (snd (update_migration_status ok i status reason db))"
  by (auto simp: update_migration_status_def done_in_def update_migrations_def split: option.split)

lemma done_claim: "done_in cs db \<Longrightarrow> done_in cs (snd (claim_run ok now wk i db))"
  by (auto simp: claim_run_def Let_def intro!: done_update_runs split: option.split)

lemma done_update: "done_in cs db \<Longrightarrow> phase \<noteq> ''completed'' \<Longrightarrow> done_in cs (update_run ok now i phase err sz sm db)"
  by (auto simp: update_run_def intro!: done_update_runs)

lemma done_hashes: "done_in cs db \<Longrightarrow> done_in cs (snd (set_hashes ok i sh th db))"
  by (auto simp: set_hashes_def intro!: done_update_runs)

lemma done_mark: "done_in cs db \<Longrightarrow> done_in cs (mark_cleanup_complete ok i db)"
  by (auto simp: mark_cleanup_complete_def intro!: done_update_runs)

lemma done_create: "done_in cs db \<Longrightarrow> done_in cs (snd (create_migration_row ok i srv src tgt db))"
  by (auto simp: create_migration_row_def done_in_def)

lemma done_ensure: "done_in cs db \<Longrightarrow> done_in cs (snd (ensure_run id_lt ok key i db))"
  by (auto simp: ensure_run_def done_in_def split: option.split)

lemma done_prepare: "done_in cs db \<Longrightarrow> done_in cs (snd (prepare_migration id_lt ok1 ok2 ok3 key i db))"
  using done_ensure [of cs db id_lt ok2 key i] done_status [of cs "snd (ensure_run id_lt ok2 key i db)" "''preparing''" ok3 i "''real transfer run prepared''"]
  by (auto simp: prepare_migration_def split: option.split prod.split sum.split)

lemma done_allocations:
  "done_in cs db \<Longrightarrow> done_in cs (snd (assign_allocation ok srv aid db))"
  "done_in cs db \<Longrightarrow> done_in cs (snd (unassign_allocation ok srv aid db))"
  "done_in cs db \<Longrightarrow> done_in cs (snd (set_primary ok srv aid db))"
  by (auto simp: assign_allocation_def unassign_allocation_def set_primary_def done_in_def split: option.split)

lemma done_finalize:
  assumes "done_in cs db"
  shows "case finalize_migration ok i db of (Inl e, db') \<Rightarrow> done_in cs db' | (Inr _, db') \<Rightarrow> done_in (cs @ [Commit i]) db'"
proof -
  have "done_in (cs @ [Commit i]) (commit_move m r db)" if "find_migration db i = Some m" for m r
  proof -
    have "mg_id m = i" using find_key_mem [OF that [unfolded find_migration_def]] by simp
    then show ?thesis using assms unfolding done_in_def commit_parts by auto
  qed
  then show ?thesis using assms done_in_mono [OF assms, of "[Commit i]"] by (auto simp: finalize_migration_def split: option.split)
qed

lemmas done_intros = done_close done_status done_claim done_update done_hashes done_mark

lemma completed_done:
  assumes "done_in cs db" "find_migration db i = Some m" "mg_status m = ''completed''"
  shows "Commit i \<in> set cs"
  using assms find_key_mem [OF assms(2) [unfolded find_migration_def]] by (auto simp: done_in_def)

text \<open>One step of a job.\<close>

definition safe :: "job \<times> world \<Rightarrow> bool" where
  "safe x \<longleftrightarrow> done_in (wd_log (snd x)) (wd_db (snd x)) \<and> commits_first (wd_log (snd x)) \<and> job_done (wd_log (snd x)) (fst x)"

lemma step_log [simp]:
  "wd_log (snd (claim_step rp j w)) = wd_log w" "wd_log (snd (load_step rp j w)) = wd_log w"
  "wd_log (snd (targets_step rp j w)) = wd_log w" "wd_log (snd (hashes_step hash rp j w)) = wd_log w"
  "wd_log (snd (registered_step rp j w)) = wd_log w" "wd_log (snd (status_step st why s rp j w)) = wd_log w"
  "wd_log (snd (call_step c y n rp j w)) = wd_log w @ [c]" "wd_log (snd (reg_step c s rp j w)) = wd_log w @ [c]"
  "wd_log (snd (make_step rp j w)) = wd_log w @ [CreateServer (jb_target j) (jb_server j)]"
  by (simp_all add: run_defs Let_def split: option.split sum.split prod.split)

lemma safe_plain:
  assumes "jb_stage (fst x) \<notin> set committed_stages" "done_in cs (wd_db (snd x))" "commits_first cs"
    and "wd_log (snd x) = cs \<or> (\<exists>c. wd_log (snd x) = cs @ [c] \<and> (\<forall>i. \<not> destroys i c))"
  shows "safe x"
  using assms by (auto simp: safe_def job_done_def commits_first_snoc done_in_mono)

lemma finalize_step_safe:
  assumes "done_in (wd_log w) (wd_db w)" "commits_first (wd_log w)"
  shows "safe (finalize_step rp j w)"
  using done_finalize [OF assms(1), where ok = "rp_ok rp" and i = "jb_migration j"] assms(2)
  by (auto simp: finalize_step_def safe_def job_done_def committed_stages_def commits_first_snoc split: prod.splits sum.splits)

lemma call_step_safe:
  assumes "safe (j, w)" "y \<in> set committed_stages \<or> n \<in> set committed_stages \<longrightarrow> Commit (jb_migration j) \<in> set (wd_log w)"
    and "\<forall>i. destroys i c \<longrightarrow> Commit i \<in> set (wd_log w)"
  shows "safe (call_step c y n rp j w)"
  using assms by (auto simp: safe_def job_done_def commits_first_snoc done_in_mono call_step_def)

lemma run_step_safe:
  assumes "safe (j, w)" shows "safe (run_step hash rp j w)"
proof -
  have d: "done_in (wd_log w) (wd_db w)" and f: "commits_first (wd_log w)" and jd: "job_done (wd_log w) j"
    using assms by (simp_all add: safe_def)
  have late: "Commit (jb_migration j) \<in> set (wd_log w)" if "jb_stage j \<in> set committed_stages"
    using jd that by (simp add: job_done_def)
  show ?thesis
  proof (cases "jb_stage j \<in> set committed_stages")
    case True
    with late d f show ?thesis
      unfolding run_step_def
      by (cases "jb_stage j") (auto simp: committed_stages_def done_mark done_in_mono commits_first_snoc safe_def job_done_def call_step_def)
  next
    case False
    show ?thesis
    proof (cases "jb_stage j = Finalize")
      case True
      then show ?thesis using finalize_step_safe [OF d f] by (simp add: run_step_def)
    next
      case nf: False
      have "jb_stage (fst (run_step hash rp j w)) \<notin> set committed_stages"
        using False nf unfolding run_step_def run_defs Let_def
        by (cases "jb_stage j") (auto simp: committed_stages_def split: prod.split sum.split option.split)
      moreover have "done_in (wd_log w) (wd_db (snd (run_step hash rp j w)))"
        using False nf d by (cases "jb_stage j")
          (simp_all add: run_step_def step_db done_intros fail_run_def committed_stages_def)
      moreover have "wd_log (snd (run_step hash rp j w)) = wd_log w \<or>
          (\<exists>c. wd_log (snd (run_step hash rp j w)) = wd_log w @ [c] \<and> (\<forall>i. \<not> destroys i c))"
        using False nf by (cases "jb_stage j")
          (auto simp: run_step_def prepare_step_def push_step_def restore_step_def sync_step_def fail_call_def Let_def
            committed_stages_def reg_source_def reg_target_def)
      ultimately show ?thesis by (rule safe_plain [OF _ _ f])
    qed
  qed
qed

lemma cleanup_step_safe:
  assumes "safe (j, w)" shows "safe (cleanup_step rp j w)"
proof -
  have d: "done_in (wd_log w) (wd_db w)" and f: "commits_first (wd_log w)" and jd: "job_done (wd_log w) j"
    using assms by (simp_all add: safe_def)
  have late: "Commit (jb_migration j) \<in> set (wd_log w)" if "jb_stage j \<in> set committed_stages"
    using jd that by (simp add: job_done_def)
  show ?thesis
  proof (cases "jb_stage j = CleanLoad")
    case True
    then show ?thesis using d f completed_done [OF d]
      by (auto simp: cleanup_step_def safe_def job_done_def committed_stages_def split: option.split)
  next
    case False
    then show ?thesis using late d f jd unfolding cleanup_step_def
      by (cases "jb_stage j")
        (auto simp: committed_stages_def done_mark done_in_mono commits_first_snoc safe_def job_done_def call_step_def
          reg_source_def reg_target_def split: sum.split)
  qed
qed

lemma cancel_step_safe:
  assumes "safe (j, w)" shows "safe (cancel_step rp j w)"
  using assms unfolding cancel_step_def
  by (cases "jb_stage j")
    (auto simp: committed_stages_def done_intros done_in_mono commits_first_snoc safe_def job_done_def call_step_def status_step_db
      cancel_run_def reg_source_def reg_target_def status_step_stage split: sum.split option.split prod.split)

lemma job_step_safe: "safe (j, w) \<Longrightarrow> safe (job_step hash rp j w)"
  by (simp add: job_step_def run_step_safe cleanup_step_safe cancel_step_safe)

definition system_safe :: "system \<Rightarrow> bool" where
  "system_safe sy \<longleftrightarrow> (let w = sy_world sy in done_in (wd_log w) (wd_db w) \<and> commits_first (wd_log w) \<and>
     (\<forall>j \<in> set (sy_jobs sy). job_done (wd_log w) j))"

lemma run_step_log: "\<exists>ds. wd_log (snd (run_step hash rp j w)) = wd_log w @ ds"
  by (cases "jb_stage j")
    (simp_all add: run_step_def prepare_step_def push_step_def restore_step_def sync_step_def fail_call_def finalize_step_def Let_def
      split: prod.split sum.split)

lemma cleanup_step_log: "\<exists>ds. wd_log (snd (cleanup_step rp j w)) = wd_log w @ ds"
  by (cases "jb_stage j") (simp_all add: cleanup_step_def split: option.split sum.split)

lemma cancel_step_log: "\<exists>ds. wd_log (snd (cancel_step rp j w)) = wd_log w @ ds"
  by (cases "jb_stage j") (simp_all add: cancel_step_def split: option.split sum.split)

lemma job_step_log: "\<exists>ds. wd_log (snd (job_step hash rp j w)) = wd_log w @ ds"
  unfolding job_step_def using run_step_log cleanup_step_log cancel_step_log by simp

lemma new_job_done: "s \<notin> set committed_stages \<Longrightarrow> job_done cs (new_job s p i)"
  by (simp add: job_done_def new_job_def)

lemma start_run_jobs: "set (sy_jobs (snd (start_run p i sy))) \<subseteq> insert (new_job Claim p i) (set (sy_jobs sy))"
  by (auto simp: start_run_def)

lemma start_all_jobs: "set (sy_jobs (start_all p is sy)) \<subseteq> new_job Claim p ` set is \<union> set (sy_jobs sy)"
proof (induction "is" arbitrary: sy)
  case (Cons i "is")
  then show ?case using start_run_jobs [of p i sy] by fastforce
qed simp

lemma system_safe_jobs:
  assumes "system_safe sy" "sy_world sy' = sy_world sy"
    and "\<And>j. j \<in> set (sy_jobs sy') \<Longrightarrow> j \<in> set (sy_jobs sy) \<or> (\<exists>s p i. s \<in> {Claim, CleanLoad, StopLoad} \<and> j = new_job s p i)"
  shows "system_safe sy'"
proof -
  have "job_done cs (new_job s p i)" if "s \<in> {Claim, CleanLoad, StopLoad}" for cs s p i
    using that by (intro new_job_done) (auto simp: committed_stages_def)
  then show ?thesis using assms unfolding system_safe_def Let_def by metis
qed

lemma system_safe_done: "system_safe sy \<Longrightarrow> done_in (wd_log (sy_world sy)) (wd_db (sy_world sy))"
  by (simp add: system_safe_def Let_def)

lemma system_safe_db:
  "system_safe sy \<Longrightarrow> done_in (wd_log (sy_world sy)) db \<Longrightarrow> system_safe (sy\<lparr>sy_world := set_db db (sy_world sy)\<rparr>)"
  by (simp add: system_safe_def Let_def)

lemma advance_jobs:
  "j \<in> set (sy_jobs (advance hash k rp sy)) \<Longrightarrow> j \<in> set (sy_jobs sy) \<or>
     (k < length (sy_jobs sy) \<and> j = fst (job_step hash rp (sy_jobs sy ! k) (sy_world sy)))"
  using set_update_subset_insert [of "sy_jobs sy" k]
  by (auto simp: advance_def Let_def split: prod.splits if_splits dest: in_set_takeD in_set_dropD)

lemma advance_safe:
  assumes "system_safe sy" shows "system_safe (advance hash k rp sy)"
proof (cases "length (sy_jobs sy) \<le> k")
  case True
  then show ?thesis using assms by (simp add: advance_def)
next
  case False
  let ?j = "sy_jobs sy ! k" and ?w = "sy_world sy"
  let ?x = "job_step hash rp ?j ?w"
  have "safe (?j, ?w)" using assms False by (simp add: system_safe_def Let_def safe_def)
  then have s: "safe ?x" by (rule job_step_safe)
  obtain ds where ds: "wd_log (snd ?x) = wd_log ?w @ ds" using job_step_log by blast
  have "job_done (wd_log (snd ?x)) j" if "j \<in> set (sy_jobs (advance hash k rp sy))" for j
    using advance_jobs [OF that] assms s by (auto simp: ds safe_def system_safe_def Let_def job_done_mono)
  then show ?thesis using s False by (simp add: system_safe_def Let_def advance_world safe_def)
qed

lemma sys_step_safe: "sys_step hash id_lt sy sy' \<Longrightarrow> system_safe sy \<Longrightarrow> system_safe sy'"
proof (induction rule: sys_step.induct)
  case (sys_execute sy ok1 ok2 ok3 key p i)
  let ?sy = "sy\<lparr>sy_world := set_db (snd (prepare_migration id_lt ok1 ok2 ok3 key i (wd_db (sy_world sy)))) (sy_world sy)\<rparr>"
  have s: "system_safe ?sy" using sys_execute by (intro system_safe_db done_prepare) (auto simp: system_safe_def Let_def)
  have "set (sy_jobs (snd (execute_migration id_lt ok1 ok2 ok3 key p i sy))) \<subseteq> insert (new_job Claim p i) (set (sy_jobs sy))"
    by (auto simp: execute_migration_def start_run_def split: prod.split sum.split)
  then show ?case by (intro system_safe_jobs [OF s]) (auto simp: execute_world)
next
  case (sys_once sy ok1 ok2 now p)
  have "set (sy_jobs (run_once ok1 ok2 now p sy)) \<subseteq> set (sy_jobs sy) \<union> range (new_job Claim p) \<union> range (new_job CleanLoad p)"
    using start_all_jobs [of p "reclaimable_ids now (wd_db (sy_world sy))" sy]
    by (auto simp: run_once_def cleanup_def reclaim_def)
  then show ?case by (intro system_safe_jobs [OF sys_once]) auto
next
  case (sys_cancel sy p i)
  then show ?case by (intro system_safe_jobs [OF sys_cancel]) (auto simp: cancel_migration_def)
next
  case (sys_crash sy p)
  then show ?case by (intro system_safe_jobs [OF sys_crash]) (auto simp: crash_def)
qed (auto intro!: system_safe_db advance_safe done_create done_prepare done_allocations dest: system_safe_done)

lemma sys_steps_safe: "(sys_step hash id_lt)\<^sup>*\<^sup>* sy sy' \<Longrightarrow> system_safe sy \<Longrightarrow> system_safe sy'"
  by (induction rule: rtranclp_induct) (auto dest: sys_step_safe)

text \<open>A system that starts: no job runs and nothing was committed.\<close>

definition starting :: "system \<Rightarrow> bool" where
  "starting sy \<longleftrightarrow> sy_jobs sy = [] \<and> sy_active sy = [] \<and> wd_log (sy_world sy) = [] \<and> mdb_inv (wd_db (sy_world sy)) \<and>
     (\<forall>m \<in> set (mdb_migrations (wd_db (sy_world sy))). mg_status m \<noteq> ''completed'') \<and>
     (\<forall>r \<in> set (mdb_runs (wd_db (sy_world sy))). rn_phase r \<noteq> ''completed'')"

lemma starting_safe: "starting sy \<Longrightarrow> system_safe sy"
  by (simp add: starting_def system_safe_def done_in_def commits_first_def)

section \<open>Workers of a process\<close>

definition job_key :: "job \<Rightarrow> string \<times> string" where
  "job_key j = (jb_owner j, jb_migration j)"

definition workers :: "system \<Rightarrow> job list" where
  "workers sy = filter is_worker (sy_jobs sy)"

definition workers_ok :: "system \<Rightarrow> bool" where
  "workers_ok sy \<longleftrightarrow> distinct (sy_active sy) \<and> (\<forall>p. length (filter (\<lambda>x. fst x = p) (sy_active sy)) \<le> 4) \<and>
     mset (map job_key (workers sy)) = mset (sy_active sy)"

lemma job_step_key: "job_key (fst (job_step hash rp j w)) = job_key j"
proof -
  have "job_key (fst (run_step hash rp j w)) = job_key j" "job_key (fst (cleanup_step rp j w)) = job_key j"
    "job_key (fst (cancel_step rp j w)) = job_key j"
    by (cases "jb_stage j"; simp add: job_key_def run_step_def cleanup_step_def cancel_step_def run_defs Let_def status_step_stage
      split: prod.split sum.split option.split)+
  then show ?thesis by (simp add: job_step_def)
qed

lemma substep_workers [simp]:
  "is_worker (fst (claim_step rp j w))" "is_worker (fst (load_step rp j w))" "is_worker (fst (targets_step rp j w))"
  "is_worker (fst (hashes_step hash rp j w))" "is_worker (fst (registered_step rp j w))" "is_worker (fst (prepare_step rp j w))"
  "is_worker (fst (push_step rp j w))" "is_worker (fst (restore_step rp j w))" "is_worker (fst (sync_step rp j w))"
  "is_worker (fst (make_step rp j w))" "is_worker (fst (finalize_step rp j w))"
  by (simp_all add: is_worker_def cleanup_stages_def cancel_stages_def run_defs Let_def split: prod.split sum.split option.split)

lemma call_stages [simp]:
  "jb_stage (fst (call_step c y n rp j w)) = (if rp_ok rp then y else n)"
  "jb_stage (fst (fail_call b c s j w)) = s" "jb_stage (fst (reg_step c s rp j w)) = (if rp_ok rp then s else FailTarget)"
  by (simp_all add: run_defs)

lemma run_step_stage:
  assumes "is_worker j" shows "is_worker (fst (run_step hash rp j w))"
proof (cases "jb_stage j \<in> {Claim, Load, Targets, Hashes, Registered, Prepare, Push, Restore, Sync, Make, Finalize}")
  case True
  then show ?thesis by (auto simp: run_step_def)
next
  case False
  then show ?thesis using assms
    by (cases "jb_stage j") (simp_all add: is_worker_def cleanup_stages_def cancel_stages_def run_step_def status_step_stage)
qed

lemma cleanup_step_stage:
  "jb_stage j \<in> set cleanup_stages \<Longrightarrow> jb_stage (fst (cleanup_step rp j w)) \<in> insert Ended (set cleanup_stages)"
  by (cases "jb_stage j") (simp_all add: cleanup_stages_def cleanup_step_def split: sum.split option.split)

lemma cancel_step_stage:
  "jb_stage j \<in> set cancel_stages \<Longrightarrow> jb_stage (fst (cancel_step rp j w)) \<in> insert Ended (set cancel_stages)"
  by (cases "jb_stage j") (simp_all add: cancel_stages_def cancel_step_def status_step_stage split: sum.split option.split)

lemma job_step_kind:
  assumes "jb_stage (fst (job_step hash rp j w)) \<noteq> Ended"
  shows "is_worker (fst (job_step hash rp j w)) = is_worker j"
proof (cases "is_worker j")
  case True
  then show ?thesis using run_step_stage [OF True, of hash rp w] by (simp add: job_step_def is_worker_def)
next
  case False
  then have "jb_stage (fst (job_step hash rp j w)) \<in> set cleanup_stages \<union> set cancel_stages"
  proof (cases "jb_stage j \<in> set cleanup_stages")
    case True
    then show ?thesis using assms cleanup_step_stage [OF True, of rp w] by (simp add: job_step_def)
  next
    case c: False
    with False have "jb_stage j \<in> set cancel_stages" by (simp add: is_worker_def)
    then show ?thesis using c assms cancel_step_stage [of j rp w] by (simp add: job_step_def)
  qed
  then show ?thesis using False by (auto simp: is_worker_def)
qed

lemma workers_ok_add: "workers_ok sy \<Longrightarrow> workers_ok (snd (start_run p i sy))"
  by (auto simp: workers_ok_def workers_def start_run_def new_job_def is_worker_def cleanup_stages_def cancel_stages_def job_key_def)

lemma workers_ok_all: "workers_ok sy \<Longrightarrow> workers_ok (start_all p is sy)"
  by (induction "is" arbitrary: sy) (auto simp: workers_ok_add)

lemma workers_ok_cong: "sy_active sy' = sy_active sy \<Longrightarrow> workers sy' = workers sy \<Longrightarrow> workers_ok sy' = workers_ok sy"
  by (simp add: workers_ok_def)

lemma not_worker_new [simp]: "\<not> is_worker (new_job CleanLoad p i)" "\<not> is_worker (new_job StopLoad p i)"
  by (simp_all add: is_worker_def new_job_def cleanup_stages_def cancel_stages_def)

lemma length_filter_filter: "length (filter P (filter Q xs)) \<le> length (filter P xs)"
  by (induction xs) (auto simp: le_SucI)

lemma split_at: "k < length xs \<Longrightarrow> xs = take k xs @ xs ! k # drop (Suc k) xs"
  by (simp add: id_take_nth_drop)

lemma workers_ok_advance:
  assumes "workers_ok sy" shows "workers_ok (advance hash k rp sy)"
proof (cases "length (sy_jobs sy) \<le> k")
  case True
  then show ?thesis using assms by (simp add: advance_def)
next
  case False
  let ?j = "sy_jobs sy ! k" and ?x = "job_step hash rp (sy_jobs sy ! k) (sy_world sy)"
  have k: "k < length (sy_jobs sy)" using False by simp
  have w: "workers sy = filter is_worker (take k (sy_jobs sy)) @ (if is_worker ?j then [?j] else []) @ filter is_worker (drop (Suc k) (sy_jobs sy))"
    unfolding workers_def by (subst split_at [OF k]) simp
  show ?thesis
  proof (cases "jb_stage (fst ?x) = Ended")
    case False
    have "workers (advance hash k rp sy) = filter is_worker (take k (sy_jobs sy)) @ (if is_worker ?j then [fst ?x] else []) @ filter is_worker (drop (Suc k) (sy_jobs sy))"
      using k False job_step_kind [OF False] by (auto simp: workers_def advance_def Let_def upd_conv_take_nth_drop split: prod.split)
    moreover have "sy_active (advance hash k rp sy) = sy_active sy"
      using False by (auto simp: advance_def Let_def split: prod.split)
    ultimately show ?thesis using assms job_step_key [of hash rp ?j "sy_world sy"] unfolding workers_ok_def w by auto
  next
    case True
    have v: "workers (advance hash k rp sy) = filter is_worker (take k (sy_jobs sy)) @ filter is_worker (drop (Suc k) (sy_jobs sy))"
      using k True by (auto simp: workers_def advance_def Let_def split: prod.split)
    have act: "sy_active (advance hash k rp sy) = (if is_worker ?j then filter (\<lambda>x. x \<noteq> job_key ?j) (sy_active sy) else sy_active sy)"
      using k True by (auto simp: advance_def Let_def job_key_def split: prod.split)
    show ?thesis
    proof (cases "is_worker ?j")
      case True
      have "filter (\<lambda>x. x \<noteq> job_key ?j) (sy_active sy) = remove1 (job_key ?j) (sy_active sy)"
        using assms by (simp add: workers_ok_def distinct_remove1_removeAll removeAll_filter_not_eq eq_commute)
      moreover have "mset (sy_active sy) = add_mset (job_key ?j) (mset (map job_key (workers (advance hash k rp sy))))"
        using assms True unfolding workers_ok_def w v by simp
      moreover have "length (filter P (sy_active (advance hash k rp sy))) \<le> length (filter P (sy_active sy))" for P
        using True by (simp add: act length_filter_filter del: filter_filter)
      moreover have "distinct (sy_active (advance hash k rp sy))" using assms act by (simp add: workers_ok_def)
      ultimately show ?thesis using assms True act unfolding workers_ok_def by (auto intro: order_trans)
    next
      case False
      then show ?thesis using assms unfolding workers_ok_def w v act by simp
    qed
  qed
qed

lemma workers_ok_crash: assumes "workers_ok sy" shows "workers_ok (crash p sy)"
proof -
  have "filter is_worker (filter (\<lambda>j. jb_owner j \<noteq> p) js) = filter (\<lambda>j. jb_owner j \<noteq> p) (filter is_worker js)" for js
    by (induction js) auto
  then have "mset (map job_key (workers (crash p sy))) = filter_mset (\<lambda>x. fst x \<noteq> p) (mset (map job_key (workers sy)))"
    by (simp add: workers_def crash_def job_key_def filter_mset_image_mset flip: mset_filter)
  moreover have "length (filter (\<lambda>x. fst x = q) (filter (\<lambda>x. fst x \<noteq> p) (sy_active sy))) \<le> 4" for q
    using assms length_filter_filter order_trans unfolding workers_ok_def by metis
  moreover have "sy_active (crash p sy) = filter (\<lambda>x. fst x \<noteq> p) (sy_active sy)" by (simp add: crash_def)
  ultimately show ?thesis using assms by (simp add: workers_ok_def del: filter_filter)
qed

lemma sys_step_workers: "sys_step hash id_lt sy sy' \<Longrightarrow> workers_ok sy \<Longrightarrow> workers_ok sy'"
proof (induction rule: sys_step.induct)
  case (sys_execute sy ok1 ok2 ok3 key p i)
  have "workers_ok (sy\<lparr>sy_world := w\<rparr>)" for w using sys_execute by (simp add: workers_ok_def workers_def)
  then show ?case by (auto simp: execute_migration_def workers_ok_add split: prod.split sum.split)
next
  case (sys_once sy ok1 ok2 now p)
  then have "workers_ok (reclaim ok1 now p sy)" by (simp add: reclaim_def workers_ok_all)
  moreover have "workers (cleanup ok2 p s) = workers s" "sy_active (cleanup ok2 p s) = sy_active s" for s
    by (simp_all add: workers_def cleanup_def filter_empty_conv)
  ultimately show ?case unfolding run_once_def using workers_ok_cong by metis
qed (auto simp: workers_ok_advance workers_ok_crash, auto simp: workers_ok_def workers_def cancel_migration_def)

lemma sys_steps_workers: "(sys_step hash id_lt)\<^sup>*\<^sup>* sy sy' \<Longrightarrow> workers_ok sy \<Longrightarrow> workers_ok sy'"
  by (induction rule: rtranclp_induct) (auto dest: sys_step_workers)

lemma workers_ok_limit:
  assumes "workers_ok sy"
  shows "length (filter (\<lambda>j. jb_owner j = p) (workers sy)) \<le> 4" "distinct (map job_key (workers sy))"
proof -
  have m: "mset (map job_key (workers sy)) = mset (sy_active sy)" and d: "distinct (sy_active sy)"
    using assms by (simp_all add: workers_ok_def)
  from d m show "distinct (map job_key (workers sy))" by (metis mset_eq_imp_distinct_iff)
  have "size (filter_mset (\<lambda>x. fst x = p) (mset (map job_key (workers sy)))) = length (filter (\<lambda>x. fst x = p) (sy_active sy))"
    unfolding m by (simp flip: mset_filter)
  moreover have "size (filter_mset (\<lambda>x. fst x = p) (mset (map job_key (workers sy)))) = length (filter (\<lambda>j. jb_owner j = p) (workers sy))"
    by (simp add: job_key_def filter_mset_image_mset flip: mset_filter)
  ultimately show "length (filter (\<lambda>j. jb_owner j = p) (workers sy)) \<le> 4" using assms unfolding workers_ok_def by metis
qed

lemma destroyed_tables: "starting sy \<Longrightarrow> (sys_step hash id_lt)\<^sup>*\<^sup>* sy sy' \<Longrightarrow> mdb_inv (wd_db (sy_world sy'))"
  using inv_steps [OF sys_steps_db] by (simp add: starting_def)


text \<open>A process never has more than four workers, and never two for one migration.\<close>

theorem workers_bounded:
  assumes "starting sy" "(sys_step hash id_lt)\<^sup>*\<^sup>* sy sy'"
  shows "length (filter (\<lambda>j. jb_owner j = p) (workers sy')) \<le> 4 \<and> distinct (map (\<lambda>j. (jb_owner j, jb_migration j)) (workers sy'))"
proof -
  have "workers_ok sy" using assms(1) by (simp add: workers_ok_def starting_def workers_def)
  from workers_ok_limit [OF sys_steps_workers [OF assms(2) this]] show ?thesis by (simp add: job_key_def [abs_def])
qed

section \<open>Two processes\<close>

fun drive :: "(string \<Rightarrow> string) \<Rightarrow> (nat \<times> reply) list \<Rightarrow> system \<Rightarrow> system" where
  "drive hash [] sy = sy"
| "drive hash ((k, rp) # xs) sy = drive hash xs (advance hash k rp sy)"

lemma drive_steps: "(sys_step hash id_lt)\<^sup>*\<^sup>* sy (drive hash xs sy)"
proof (induction hash xs sy rule: drive.induct)
  case (2 hash k rp xs sy)
  then show ?case by (auto intro: converse_rtranclp_into_rtranclp sys_job)
qed simp

definition fine :: "gotime \<Rightarrow> reply" where
  "fine now = \<lparr>rp_ok = True, rp_now = now, rp_phase = [], rp_size = 0, rp_offset = 0, rp_checksum = [], rp_fresh = ''c1'', rp_fresh2 = ''c2''\<rparr>"

definition report :: "string \<Rightarrow> reply" where
  "report ph = (fine 0)\<lparr>rp_phase := ph, rp_size := 10, rp_offset := 10, rp_checksum := ''ab''\<rparr>"

definition start_system :: system where
  "start_system = \<lparr>sy_world = \<lparr>wd_db =
     \<lparr>mdb_migrations = [\<lparr>mg_id = ''m'', mg_server = ''s'', mg_source = ''n1'', mg_target = ''n2'', mg_status = ''planned'', mg_failure = []\<rparr>],
      mdb_history = [], mdb_runs = [], mdb_reserved = [],
      mdb_allocations = [\<lparr>al_id = ''a1'', al_node = ''n1'', al_server = Some ''s''\<rparr>, \<lparr>al_id = ''a2'', al_node = ''n2'', al_server = None\<rparr>],
      mdb_servers = [\<lparr>sv_id = ''s'', sv_node = ''n1'', sv_primary = ''a1''\<rparr>]\<rparr>, wd_log = []\<rparr>, sy_jobs = [], sy_active = []\<rparr>"

text \<open>The first worker brings the migration to the creation of the container.\<close>

definition to_creation :: "(nat \<times> reply) list" where
  "to_creation = map (Pair 0) (replicate 7 (fine 0) @ [report ''archived'', fine 0, fine 0, report ''verified'', fine 0, fine 0,
     report ''restored'', fine 0, fine 0, fine 0])"

text \<open>While its call to create the container takes longer than the lease, another process takes the run over
  and commits it; then the first call answers.\<close>

definition taken_over :: "(nat \<times> reply) list" where
  "taken_over = map (Pair 1) (replicate 14 (fine (3 * minute))) @ map (Pair 0) (replicate 5 (fine (3 * minute)))"

definition stale_system :: system where
  "stale_system = drive id taken_over (run_once True True (3 * minute) ''q''
     (drive id to_creation (snd (execute_migration (\<lambda>_ _. False) True True True ''k'' ''p'' ''m'' start_system))))"

lemma starting_example: "starting start_system"
  by (simp add: starting_def start_system_def mdb_inv_def keys_ok_def primary_ok_def reserved_ok_def)

lemma stale_steps: "(sys_step id (\<lambda>_ _. False))\<^sup>*\<^sup>* start_system stale_system"
  unfolding stale_system_def
  by (meson drive_steps sys_execute sys_once rtranclp.rtrancl_into_rtrancl rtranclp_trans rtranclp.rtrancl_refl)

text \<open>With two processes a worker that outlives its lease of two minutes destroys what the other one
  committed: there is a run of the system in which the server is on its new node, and yet its container
  there is deleted after the commit.\<close>

theorem stale_worker_deletes_migrated_server:
  "\<exists>sy sy' cs. starting sy \<and> (sys_step id (\<lambda>_ _. False))\<^sup>*\<^sup>* sy sy' \<and>
     find_server (wd_db (sy_world sy')) ''s'' = Some \<lparr>sv_id = ''s'', sv_node = ''n2'', sv_primary = ''a2''\<rparr> \<and>
     wd_log (sy_world sy') = cs @ [DeleteServer ''n2'' ''s''] \<and> Commit ''m'' \<in> set cs"
proof -
  have f: "find_server (wd_db (sy_world stale_system)) ''s'' = Some \<lparr>sv_id = ''s'', sv_node = ''n2'', sv_primary = ''a2''\<rparr>"
    by code_simp
  have l: "List.last (wd_log (sy_world stale_system)) = DeleteServer ''n2'' ''s'' \<and> wd_log (sy_world stale_system) \<noteq> [] \<and>
      Commit ''m'' \<in> set (butlast (wd_log (sy_world stale_system)))"
    by code_simp
  then have "wd_log (sy_world stale_system) = butlast (wd_log (sy_world stale_system)) @ [DeleteServer ''n2'' ''s'']"
    by (metis append_butlast_last_id)
  with starting_example stale_steps f l show ?thesis by blast
qed


text \<open>An instance: the workers of the first process in that run.\<close>

theorem workers_bounded_witness:
  "length (filter (\<lambda>j. jb_owner j = ''p'') (workers stale_system)) \<le> 4"
  using workers_bounded [OF starting_example stale_steps] by blast

end
