(* ===== verification/Migration_Cleanup.thy ===== *)
theory Migration_Cleanup
  imports Migration_Run Beacon_Transfer
begin

text \<open>
  The migration service and the transfer handlers of a node together: what the calls of the service do
  to the node they are sent to.
\<close>

section \<open>Serving calls\<close>

definition job_claims :: "migration_row \<Rightarrow> string \<Rightarrow> gotime \<Rightarrow> claims" where
  "job_claims m dir expires =
     \<lparr>cl_version = protocol_version, cl_migration = mg_id m, cl_server = mg_server m, cl_source = mg_source m,
      cl_target = mg_target m, cl_direction = dir, cl_expires = expires\<rparr>"

definition outcome :: "('e + 'a) \<times> 'b \<Rightarrow> bool \<times> 'b" where
  "outcome x = (\<not> isl (fst x), snd x)"

text \<open>A node serves the calls of the transfer protocol; the others are not its business here.\<close>

fun serve :: "codec \<Rightarrow> gotime \<Rightarrow> gotime \<Rightarrow> faults \<Rightarrow> migration_row \<Rightarrow> call \<Rightarrow> beacon \<Rightarrow> bool \<times> beacon" where
  "serve cd now ttl f m (Register n i dir c) bn =
     (case register now (fl_save f) (job_claims m dir (now + ttl)) (cd_hash cd c) (bn_engine bn) of
        (r, en) \<Rightarrow> (\<not> isl r, bn\<lparr>bn_engine := en\<rparr>))"
| "serve cd now ttl f m (PrepareSource n i c) bn = outcome (handle_prepare cd now f i c bn)"
| "serve cd now ttl f m (RestoreDestination n i c) bn = outcome (handle_restore cd now f i c bn)"
| "serve cd now ttl f m (FinalizeDestination n i c) bn = outcome (handle_finalize cd now f i c bn)"
| "serve cd now ttl f m (CleanupSource n i c) bn = outcome (handle_cleanup cd now f i c bn)"
| "serve cd now ttl f m (CancelTransfer n i c) bn = outcome (handle_cancel cd now i c bn)"
| "serve cd now ttl f m _ bn = (False, bn)"

fun serve_all :: "codec \<Rightarrow> gotime \<Rightarrow> gotime \<Rightarrow> faults \<Rightarrow> migration_row \<Rightarrow> call list \<Rightarrow> beacon \<Rightarrow> bool \<times> beacon" where
  "serve_all cd now ttl f m [] bn = (True, bn)"
| "serve_all cd now ttl f m (c # cs) bn =
     (case serve cd now ttl f m c bn of (ok, bn1) \<Rightarrow> if ok then serve_all cd now ttl f m cs bn1 else (False, bn1))"

definition callee :: "call \<Rightarrow> string" where
  "callee c = (case c of Register n _ _ _ \<Rightarrow> n | PrepareSource n _ _ \<Rightarrow> n | PushSource n _ _ _ _ \<Rightarrow> n | RestoreDestination n _ _ \<Rightarrow> n
     | FinalizeDestination n _ _ \<Rightarrow> n | CleanupSource n _ _ \<Rightarrow> n | CancelTransfer n _ _ \<Rightarrow> n | SyncConfiguration n _ \<Rightarrow> n
     | CreateServer n _ \<Rightarrow> n | DeleteServer n _ \<Rightarrow> n | StartServer n _ \<Rightarrow> n | _ \<Rightarrow> [])"

text \<open>A job whose calls all succeed.\<close>

fun succeed :: "nat \<Rightarrow> reply \<Rightarrow> job \<times> world \<Rightarrow> job \<times> world" where
  "succeed 0 rp x = x"
| "succeed (Suc n) rp x = succeed n rp (job_step id rp (fst x) (snd x))"

section \<open>The retry of a clean-up\<close>

definition retry_calls :: "reply \<Rightarrow> string \<Rightarrow> string \<Rightarrow> call list" where
  "retry_calls rp n i = [Register n i source_control (rp_fresh rp), Register n i destination_upload (rp_fresh2 rp),
     FinalizeDestination n i (rp_fresh2 rp), CleanupSource n i (rp_fresh rp)]"

lemma retry_calls_made:
  assumes "rp_ok rp" "find_migration (wd_db w) i = Some m" "mg_status m = ''completed''"
    and "find_run (wd_db w) i = Some r" "rn_cleanup r" "provision_targets (wd_db w) i = Inr (n, n)"
  shows "wd_log (snd (succeed 7 rp (new_job CleanLoad p i, w))) = wd_log w @ retry_calls rp n i"
  using assms
  by (simp add: eval_nat_numeral job_step_def cleanup_stages_def cleanup_step_def new_job_def call_step_def goto_def
      reg_source_def reg_target_def retry_calls_def)

lemma committed_targets:
  assumes inv: "mdb_inv db" and f: "finalize_migration ok i db = (Inr (), db')"
    and m: "find_migration db i = Some m" and r: "find_run db i = Some r" "rn_phase r \<noteq> ''completed''"
  shows "provision_targets db' i = Inr (mg_target m, mg_target m)"
proof -
  obtain s a where c: "find_server db (mg_server m) = Some s" "a \<in> set (mdb_allocations db)" "al_id a = rn_allocation r"
      "al_node a = mg_target m" "al_server a = None" "db' = commit_move m r db"
    using finalize_cases [OF f m r] by metis
  have mi: "m \<in> set (mdb_migrations db)" using find_key_mem [OF m [unfolded find_migration_def]] by simp
  have ne: "mg_source m \<noteq> mg_target m" using mdb_invD(1) [OF inv] mi by (auto simp: keys_ok_def)
  let ?g = "\<lambda>b. free_source (mg_server m) (mg_source m) (take_target (mg_server m) (mg_target m) (rn_allocation r) b)"
  have "?g a \<in> set (mdb_allocations db')" using c by (simp add: commit_parts)
  moreover have "al_id (?g a) = rn_allocation r" "al_node (?g a) = mg_target m" "al_server (?g a) = Some (mg_server m)"
    using c ne unfolding moved_owner by simp_all
  ultimately have "\<exists>b \<in> set (mdb_allocations db'). al_id b = rn_allocation r \<and> al_node b = mg_target m \<and>
      (al_server b = None \<or> al_server b = Some (mg_server m))" by blast
  moreover have "find_server db' (mg_server m) = Some \<lparr>sv_id = mg_server m, sv_node = mg_target m, sv_primary = rn_allocation r\<rparr>"
    by (rule commit_facts(2) [OF inv f m r])
  moreover have "find_migration db' i = Some (m\<lparr>mg_status := ''completed'', mg_failure := []\<rparr>)"
    using m by (simp add: c(6) commit_finds)
  moreover have "find_run db' i = Some (r\<lparr>rn_phase := ''completed'', rn_cleanup := True, rn_owner := None, rn_lease := None\<rparr>)"
    using r(1) find_key_mem [OF r(1) [unfolded find_run_def]] find_key_mem [OF m [unfolded find_migration_def]]
    by (simp add: c(6) commit_finds)
  ultimately show ?thesis by (simp add: provision_targets_def)
qed

text \<open>The node that restored the server, ready for the two requests of the retry.\<close>

definition restored_at :: "migration_row \<Rightarrow> beacon \<Rightarrow> bool" where
  "restored_at m bn \<longleftrightarrow> en_meta (bn_engine bn) (mg_id m, source_control) = None \<and>
     (\<exists>d. en_meta (bn_engine bn) (mg_id m, destination_upload) = Some d \<and> md_phase d = ''restored'' \<and> md_version d = protocol_version \<and>
        md_migration d = mg_id m \<and> md_direction d = destination_upload \<and> md_server d = mg_server m \<and>
        md_source d = mg_source m \<and> md_target d = mg_target m)"

definition good_hash :: "string \<Rightarrow> bool" where
  "good_hash h \<longleftrightarrow> length h = 64 \<and> list_all hex_digit h \<and> ascii_lower h = h"

lemma retry_served:
  assumes ids: "validate_claims (job_claims m source_control (now + ttl)) = None"
      "validate_claims (job_claims m destination_upload (now + ttl)) = None" and ttl: "0 < ttl"
    and hash: "good_hash (cd_hash cd (rp_fresh rp))" "good_hash (cd_hash cd (rp_fresh2 rp))"
    and f: "fl_runtime f" "fl_save f" and bn: "restored_at m bn"
  shows "case serve_all cd now ttl f m (retry_calls rp n (mg_id m)) bn of (ok, bn') \<Rightarrow>
    ok \<and> en_data (bn_engine bn') (mg_server m) = None \<and> bn_containers bn' (mg_server m) = None"
proof -
  obtain d where d: "en_meta (bn_engine bn) (mg_id m, destination_upload) = Some d" "md_phase d = ''restored''" "md_version d = protocol_version"
      "md_migration d = mg_id m" "md_direction d = destination_upload" "md_server d = mg_server m" "md_source d = mg_source m" "md_target d = mg_target m"
    and s: "en_meta (bn_engine bn) (mg_id m, source_control) = None"
    using bn by (auto simp: restored_at_def)
  show ?thesis
    using assms d s
    by (simp add: retry_calls_def register_def good_hash_def job_claims_def try_save_def save_meta_def outcome_def handle_finalize_def
        handle_cleanup_def finalize_destination_def cleanup_source_def authorize_def Let_def)
qed

text \<open>C21: The retry of an interrupted clean-up destroys the migrated server. After the ownership was committed,
  the retry reads the nodes of the migration again, takes the new node of the server for its source, and sends
  all its requests there; a node that has restored the server accepts them and ends without its container and
  its data.\<close>

theorem retry_destroys_migrated_server:
  assumes "mdb_inv db" "finalize_migration ok i db = (Inr (), wd_db w)"
    and "find_migration db i = Some m" "find_run db i = Some r" "rn_phase r \<noteq> ''completed''"
    and "rp_ok rp" "validate_claims (job_claims m source_control (now + ttl)) = None"
      "validate_claims (job_claims m destination_upload (now + ttl)) = None" "0 < ttl"
    and "good_hash (cd_hash cd (rp_fresh rp))" "good_hash (cd_hash cd (rp_fresh2 rp))" "fl_runtime f" "fl_save f" "restored_at m bn"
  shows "\<exists>cs bn'. wd_log (snd (succeed 7 rp (new_job CleanLoad p i, w))) = wd_log w @ cs \<and>
    (\<forall>c \<in> set cs. callee c = mg_target m) \<and> serve_all cd now ttl f m cs bn = (True, bn') \<and>
    en_data (bn_engine bn') (mg_server m) = None \<and> bn_containers bn' (mg_server m) = None"
proof -
  note cm = assms(1-5)
  have i: "mg_id m = i" using find_key_mem [OF cm(3) [unfolded find_migration_def]] by simp
  obtain m' r' where m': "find_migration (wd_db w) i = Some m'" "mg_status m' = ''completed''"
    and r': "find_run (wd_db w) i = Some r'" "rn_cleanup r'"
    using commit_facts(5,6) [OF cm] by auto
  have "wd_log (snd (succeed 7 rp (new_job CleanLoad p i, w))) = wd_log w @ retry_calls rp (mg_target m) i"
    by (rule retry_calls_made [OF assms(6) m' r' committed_targets [OF cm]])
  moreover have "\<forall>c \<in> set (retry_calls rp (mg_target m) i). callee c = mg_target m" by (simp add: retry_calls_def callee_def)
  ultimately show ?thesis using retry_served [OF assms(7-14), of "mg_target m"] unfolding i by (auto split: prod.splits)
qed

definition sample_retry :: reply where
  "sample_retry = (fine 0)\<lparr>rp_fresh := ''k'', rp_fresh2 := ''j''\<rparr>"

definition migrated_node :: beacon where
  "migrated_node = \<lparr>bn_engine = (empty_engine [''s'' \<mapsto> [(''world'', Dir [])]])\<lparr>en_meta :=
     [(''m'', destination_upload) \<mapsto> \<lparr>md_version = protocol_version, md_migration = ''m'', md_server = ''s'', md_source = ''n1'',
        md_target = ''n2'', md_direction = destination_upload, md_phase = ''restored'', md_hash = [], md_expires = 1, md_consumed = None,
        md_size = 3, md_offset = 3, md_checksum = ''C3''\<rparr>]\<rparr>, bn_containers = [''s'' \<mapsto> True]\<rparr>"

text \<open>Witness of C21: a server that has moved from one node to another.\<close>

theorem retry_destroys_migrated_server_witness:
  "\<exists>cs bn'. (\<forall>c \<in> set cs. callee c = ''n2'') \<and>
     serve_all sample_codec 1 (5 * minute) \<lparr>fl_runtime = True, fl_save = True, fl_io = True, fl_save2 = True\<rparr> (hd (mdb_migrations example_mdb)) cs migrated_node = (True, bn') \<and>
     en_data (bn_engine migrated_node) ''s'' \<noteq> None \<and> en_data (bn_engine bn') ''s'' = None \<and> bn_containers bn' ''s'' = None"
proof -
  let ?m = "hd (mdb_migrations example_mdb)" and ?r = "hd (mdb_runs example_mdb)"
  let ?w = "\<lparr>wd_db = snd (finalize_migration True ''m'' example_mdb), wd_log = []\<rparr>"
  have 1: "finalize_migration True ''m'' example_mdb = (Inr (), wd_db ?w)"
    "find_migration example_mdb ''m'' = Some ?m" "find_run example_mdb ''m'' = Some ?r" "rn_phase ?r \<noteq> ''completed''"
    by (simp_all add: finalize_migration_def find_migration_def find_run_def find_server_def example_mdb_def)
  have 2: "rp_ok sample_retry" by (simp add: sample_retry_def fine_def)
  have 3: "validate_claims (job_claims ?m source_control (1 + 5 * minute)) = None"
    "validate_claims (job_claims ?m destination_upload (1 + 5 * minute)) = None" "0 < 5 * minute"
    by code_simp+
  have 4: "good_hash (cd_hash sample_codec (rp_fresh sample_retry))" "good_hash (cd_hash sample_codec (rp_fresh2 sample_retry))"
    by code_simp+
  have 5: "restored_at ?m migrated_node"
    by (simp add: restored_at_def migrated_node_def example_mdb_def empty_engine_def)
  have s: "mg_server ?m = ''s''" "mg_target ?m = ''n2''" by (simp_all add: example_mdb_def)
  have "en_data (bn_engine migrated_node) ''s'' \<noteq> None" by (simp add: migrated_node_def empty_engine_def)
  with retry_destroys_migrated_server [OF example_mdb_inv 1 2 3 4 _ _ 5,
      of "\<lparr>fl_runtime = True, fl_save = True, fl_io = True, fl_save2 = True\<rparr>" "''p''"]
  show ?thesis unfolding s by auto
qed

end
