(* ===== verification/Migration_Single.thy ===== *)
theory Migration_Single
  imports Migration_Run
begin

text \<open>
  The migration service in a single process: a committed migration stays committed, and none of its workers
  takes anything back.
\<close>

definition run_done :: "string \<Rightarrow> mdb \<Rightarrow> bool" where
  "run_done i db \<longleftrightarrow> i \<in> rn_migration ` set (mdb_runs db) \<and> (\<forall>r \<in> set (mdb_runs db). rn_migration r = i \<longrightarrow> rn_phase r = ''completed'')"

text \<open>Where a worker of a committed migration can be.\<close>

definition settled :: "stage list" where
  "settled = [Claim, FinalizeTarget, CleanSource, MarkClean, Reserve]"

text \<open>The stages that write a phase.\<close>

definition noting :: "stage list" where
  "noting = [Registered, ArchivedRun, VerifiedRun, Restored, Configured, Created]"

section \<open>What keeps a run completed\<close>

lemma run_done_map:
  assumes "mdb_runs db' = map g (mdb_runs db)" "\<And>r. rn_migration (g r) = rn_migration r" "i \<in> rn_migration ` set (mdb_runs db)"
    and "\<And>r. r \<in> set (mdb_runs db) \<Longrightarrow> rn_migration r = i \<Longrightarrow> rn_phase (g r) = ''completed''"
  shows "run_done i db'"
  using assms by (auto simp: run_done_def image_image)

lemma run_done_update:
  assumes "run_done i db" "\<And>r. rn_migration (f r) = rn_migration r"
    and "\<And>r. hit r \<Longrightarrow> rn_migration r = i \<Longrightarrow> rn_phase r = ''completed'' \<Longrightarrow> rn_phase (f r) = ''completed''"
  shows "run_done i (update_runs hit f db)"
  by (rule run_done_map [where g = "\<lambda>r. if hit r then f r else r"]) (use assms in \<open>auto simp: run_done_def update_runs_def\<close>)

lemma run_done_drop [simp]: "run_done i (drop_reservation k db) = run_done i db"
  by (simp add: run_done_def drop_reservation_def)

lemma run_done_status [simp]: "run_done i (snd (update_migration_status ok k status reason db)) = run_done i db"
  by (simp add: update_migration_status_def run_done_def update_migrations_def split: option.split)

lemma run_done_claim: "run_done i db \<Longrightarrow> run_done i (snd (claim_run ok now wk k db))"
  by (auto simp: claim_run_def Let_def intro!: run_done_update split: option.split)

lemma run_done_hashes: "run_done i db \<Longrightarrow> run_done i (snd (set_hashes ok k sh th db))"
  by (auto simp: set_hashes_def intro!: run_done_update)

lemma run_done_mark: "run_done i db \<Longrightarrow> run_done i (mark_cleanup_complete ok k db)"
  by (auto simp: mark_cleanup_complete_def intro!: run_done_update)

lemma run_done_close: "run_done i db \<Longrightarrow> run_done i (close_run ok phase err k db)"
  by (auto simp: close_run_def intro!: run_done_update)

lemma run_done_note: "run_done i db \<Longrightarrow> i \<noteq> k \<Longrightarrow> run_done i (update_run ok now k phase err sz sm db)"
  by (auto simp: update_run_def intro!: run_done_update)

lemma run_done_ensure: "run_done i db \<Longrightarrow> run_done i (snd (ensure_run id_lt ok key k db))"
  by (auto simp: ensure_run_def run_done_def find_run_def find_None_iff split: option.split)

lemma run_done_create [simp]: "run_done i (snd (create_migration_row ok k srv src tgt db)) = run_done i db"
  by (simp add: create_migration_row_def run_done_def)

lemma run_done_prepare: "run_done i db \<Longrightarrow> run_done i (snd (prepare_migration id_lt ok1 ok2 ok3 key k db))"
  using run_done_ensure [of i db id_lt ok2 key k]
    run_done_status [of i ok3 k "''preparing''" "''real transfer run prepared''" "snd (ensure_run id_lt ok2 key k db)"]
  by (auto simp: prepare_migration_def simp del: run_done_status split: option.split prod.split sum.split)

lemma run_done_allocations [simp]:
  "run_done i (snd (assign_allocation ok srv aid db)) = run_done i db"
  "run_done i (snd (unassign_allocation ok srv aid db)) = run_done i db"
  "run_done i (snd (set_primary ok srv aid db)) = run_done i db"
  by (simp_all add: assign_allocation_def unassign_allocation_def set_primary_def run_done_def split: option.split)

lemma run_done_commit:
  assumes "run_done i db \<or> (mg_id m = i \<and> find_run db i \<noteq> None)" shows "run_done i (commit_move m r db)"
proof (rule run_done_map [OF commit_parts(4)])
  show "i \<in> rn_migration ` set (mdb_runs db)" using assms by (auto simp: run_done_def find_run_def find_None_iff intro: rev_image_eqI)
qed (use assms in \<open>auto simp: run_done_def\<close>)

lemma run_done_finalize: "run_done i db \<Longrightarrow> run_done i (snd (finalize_migration ok k db))"
  by (auto simp: finalize_migration_def run_done_commit split: option.split)

lemma run_done_finalized:
  assumes "keys_ok db" "finalize_migration ok i db = (Inr u, db')"
  shows "run_done i db'"
proof -
  obtain m r where m: "find_migration db i = Some m" and r: "find_run db i = Some r"
    using assms(2) by (auto simp: finalize_migration_def split: if_splits option.splits)
  have mi: "mg_id m = i" using find_key_mem [OF m [unfolded find_migration_def]] by simp
  show ?thesis
  proof (cases "rn_phase r = ''completed''")
    case True
    have "x = r" if "x \<in> set (mdb_runs db)" "rn_migration x = i" for x
      using find_key_unique [OF _ r [unfolded find_run_def] that] assms(1) by (simp add: keys_ok_def)
    then have "run_done i db" using True find_key_mem [OF r [unfolded find_run_def]] by (auto simp: run_done_def)
    moreover have "db' = db" using assms(2) m r True by (auto simp: finalize_migration_def split: if_splits)
    ultimately show ?thesis by simp
  next
    case False
    then have "db' = commit_move m r db" using finalize_cases [of ok i db db' m r] assms(2) m r by auto
    then show ?thesis using run_done_commit mi r by auto
  qed
qed

section \<open>One step of a job\<close>

lemma job_step_keeps_done:
  assumes "run_done i (wd_db w)" "i \<noteq> jb_migration j \<or> jb_stage j \<notin> set noting"
  shows "run_done i (wd_db (snd (job_step hash rp j w)))"
proof -
  have "run_done i (wd_db (snd (run_step hash rp j w)))"
    using assms by (cases "jb_stage j")
      (simp_all add: noting_def run_step_def step_db run_done_claim run_done_hashes run_done_mark run_done_close run_done_note
        run_done_finalize fail_run_def)
  moreover have "run_done i (wd_db (snd (cleanup_step rp j w)))"
    using assms(1) by (cases "jb_stage j") (simp_all add: cleanup_step_def run_done_mark split: option.split sum.split)
  moreover have "run_done i (wd_db (snd (cancel_step rp j w)))"
    using assms(1) by (cases "jb_stage j") (simp_all add: cancel_step_def step_db run_done_close cancel_run_def split: option.split sum.split)
  ultimately show ?thesis by (simp add: job_step_def)
qed

lemma claim_done: "run_done i db \<Longrightarrow> isl (fst (claim_run ok now wk i db))"
  by (auto simp: claim_run_def Let_def run_done_def claimable_def run_closed_def split: option.split)

lemma claim_step_done:
  assumes "run_done (jb_migration j) (wd_db w)" shows "jb_stage (fst (claim_step rp j w)) = Ended"
  using claim_done [OF assms, of "rp_ok rp" "rp_now rp" "jb_owner j"]
  by (auto simp: claim_step_def split: prod.split sum.split)

lemma settled_step:
  assumes "is_worker j" "jb_stage j \<in> set settled" "run_done (jb_migration j) (wd_db w)"
  shows "jb_stage (fst (job_step hash rp j w)) \<in> insert Ended (set settled)"
proof -
  have "job_step hash rp j w = run_step hash rp j w" using assms(1) by (simp add: job_step_def is_worker_def)
  then show ?thesis using assms(2) claim_step_done [OF assms(3), of rp] by (auto simp: settled_def run_step_def split: if_splits)
qed

lemma new_commit:
  assumes "Commit i \<in> set (wd_log (snd (job_step hash rp j w)))" "Commit i \<notin> set (wd_log w)"
  shows "i = jb_migration j \<and> is_worker j \<and> jb_stage (fst (job_step hash rp j w)) = FinalizeTarget \<and>
    (\<exists>u. finalize_migration (rp_ok rp) i (wd_db w) = (Inr u, wd_db (snd (job_step hash rp j w))))"
proof -
  have "Commit i \<notin> set (wd_log (snd (cleanup_step rp j w)))"
    using assms(2) by (cases "jb_stage j") (simp_all add: cleanup_step_def reg_source_def reg_target_def split: option.split sum.split)
  moreover have "Commit i \<notin> set (wd_log (snd (cancel_step rp j w)))"
    using assms(2) by (cases "jb_stage j") (simp_all add: cancel_step_def reg_source_def reg_target_def split: option.split sum.split)
  moreover have "Commit i \<notin> set (wd_log (snd (run_step hash rp j w)))" if "jb_stage j \<noteq> Finalize"
    using assms(2) that by (cases "jb_stage j")
      (simp_all add: run_step_def prepare_step_def push_step_def restore_step_def sync_step_def fail_call_def reg_source_def reg_target_def Let_def)
  ultimately have s: "jb_stage j = Finalize" using assms(1) by (auto simp: job_step_def split: if_splits)
  then have "job_step hash rp j w = finalize_step rp j w" by (simp add: job_step_def run_step_def cleanup_stages_def cancel_stages_def)
  then show ?thesis using assms s
    by (auto simp: finalize_step_def is_worker_def cleanup_stages_def cancel_stages_def split: prod.splits sum.splits)
qed

section \<open>One process\<close>

inductive solo :: "(string \<Rightarrow> string) \<Rightarrow> (string \<Rightarrow> string \<Rightarrow> bool) \<Rightarrow> string \<Rightarrow> system \<Rightarrow> bool" for hash id_lt p where
  solo_start: "starting sy \<Longrightarrow> solo hash id_lt p sy"
| solo_step: "solo hash id_lt p sy \<Longrightarrow> sys_step hash id_lt sy sy' \<Longrightarrow> \<forall>j \<in> set (workers sy'). jb_owner j = p \<Longrightarrow> solo hash id_lt p sy'"

lemma solo_reaches: "solo hash id_lt p sy \<Longrightarrow> \<exists>sy0. starting sy0 \<and> (sys_step hash id_lt)\<^sup>*\<^sup>* sy0 sy"
  by (induction rule: solo.induct) (auto intro: rtranclp.rtrancl_into_rtrancl)

lemma solo_workers: "solo hash id_lt p sy \<Longrightarrow> workers_ok sy \<and> (\<forall>j \<in> set (workers sy). jb_owner j = p)"
  by (induction rule: solo.induct) (auto simp: starting_def workers_ok_def workers_def dest: sys_step_workers)

lemma solo_keys: "solo hash id_lt p sy \<Longrightarrow> keys_ok (wd_db (sy_world sy))"
  by (metis solo_reaches destroyed_tables mdb_invD(1))

definition settled_ok :: "system \<Rightarrow> bool" where
  "settled_ok sy \<longleftrightarrow> (\<forall>i. Commit i \<in> set (wd_log (sy_world sy)) \<longrightarrow> run_done i (wd_db (sy_world sy)) \<and>
     (\<forall>j \<in> set (workers sy). jb_migration j = i \<longrightarrow> jb_stage j \<in> set settled))"

lemma distinct_filter_nth:
  "distinct (map f (filter P xs)) \<Longrightarrow> k < length xs \<Longrightarrow> l < length xs \<Longrightarrow> P (xs ! k) \<Longrightarrow> P (xs ! l) \<Longrightarrow> f (xs ! k) = f (xs ! l) \<Longrightarrow> k = l"
proof (induction xs arbitrary: k l)
  case (Cons x xs)
  then show ?case by (cases k; cases l) (auto split: if_splits simp: image_iff dest: nth_mem)
qed simp

lemma solo_distinct:
  assumes "workers_ok sy" "\<forall>j \<in> set (workers sy). jb_owner j = p"
  shows "distinct (map jb_migration (filter is_worker (sy_jobs sy)))"
proof -
  have "distinct (map job_key (workers sy))" by (rule workers_ok_limit(2) [OF assms(1)])
  moreover have "map job_key (workers sy) = map (Pair p) (map jb_migration (workers sy))"
    using assms(2) by (simp add: job_key_def)
  ultimately have "distinct (map (Pair p) (map jb_migration (workers sy)))" by simp
  then have "distinct (map jb_migration (workers sy))" using distinct_map by blast
  then show ?thesis by (simp add: workers_def)
qed

lemma others_nth:
  assumes "x \<in> set (take k xs @ drop (Suc k) xs)" shows "\<exists>l < length xs. l \<noteq> k \<and> x = xs ! l"
proof (cases "x \<in> set (take k xs)")
  case True
  then obtain l where "l < length (take k xs)" "take k xs ! l = x" by (auto simp: in_set_conv_nth)
  then show ?thesis by (intro exI [of _ l]) auto
next
  case False
  with assms obtain l where l: "l < length (drop (Suc k) xs)" "drop (Suc k) xs ! l = x" by (auto simp: in_set_conv_nth)
  then show ?thesis by (intro exI [of _ "Suc k + l"]) auto
qed

lemma update_nth:
  assumes "x \<in> set (xs[k := y])" shows "x = y \<or> (\<exists>l < length xs. l \<noteq> k \<and> x = xs ! l)"
proof -
  obtain l where l: "l < length xs" "x = xs[k := y] ! l" using assms by (auto simp: in_set_conv_nth)
  then show ?thesis by (cases "l = k") auto
qed

lemma advance_others:
  assumes "j \<in> set (sy_jobs (advance hash k rp sy))" "k < length (sy_jobs sy)"
  shows "j = fst (job_step hash rp (sy_jobs sy ! k) (sy_world sy)) \<or> (\<exists>l < length (sy_jobs sy). l \<noteq> k \<and> j = sy_jobs sy ! l)"
  using assms update_nth [of j "sy_jobs sy" k] others_nth [of j k "sy_jobs sy"]
  by (auto simp: advance_def Let_def split: prod.splits if_splits)

lemma settled_advance:
  assumes ok: "settled_ok sy" and wk: "workers_ok sy" and own: "\<forall>j \<in> set (workers sy). jb_owner j = p"
    and keys: "keys_ok (wd_db (sy_world sy))"
  shows "settled_ok (advance hash k rp sy)"
proof (cases "length (sy_jobs sy) \<le> k")
  case True
  then show ?thesis using ok by (simp add: advance_def)
next
  case False
  let ?j = "sy_jobs sy ! k" and ?w = "sy_world sy"
  let ?x = "job_step hash rp ?j ?w"
  have k: "k < length (sy_jobs sy)" using False by simp
  have world: "sy_world (advance hash k rp sy) = snd ?x" using False by (simp add: advance_world)
  have other: "jb_migration j = jb_migration ?j \<and> is_worker ?j \<longrightarrow> j = fst ?x"
    if "j \<in> set (workers (advance hash k rp sy))" for j
  proof -
    have w: "is_worker j" using that by (simp add: workers_def)
    have "j = fst ?x \<or> (\<exists>l < length (sy_jobs sy). l \<noteq> k \<and> j = sy_jobs sy ! l)"
      using that k advance_others by (simp add: workers_def)
    then show ?thesis using w distinct_filter_nth [OF solo_distinct [OF wk own] k] by metis
  qed
  show ?thesis
    unfolding settled_ok_def world
  proof (intro allI impI)
    fix i assume c: "Commit i \<in> set (wd_log (snd ?x))"
    show "run_done i (wd_db (snd ?x)) \<and> (\<forall>j \<in> set (workers (advance hash k rp sy)). jb_migration j = i \<longrightarrow> jb_stage j \<in> set settled)"
    proof (cases "Commit i \<in> set (wd_log ?w)")
      case new: False
      note nc = new_commit [OF c new]
      then have "run_done i (wd_db (snd ?x))" using run_done_finalized [OF keys] by auto
      moreover have "jb_stage j \<in> set settled" if "j \<in> set (workers (advance hash k rp sy))" "jb_migration j = i" for j
        using other [OF that(1)] that(2) nc by (auto simp: settled_def)
      ultimately show ?thesis by blast
    next
      case True
      then have d: "run_done i (wd_db ?w)" and s: "\<And>j. j \<in> set (workers sy) \<Longrightarrow> jb_migration j = i \<Longrightarrow> jb_stage j \<in> set settled"
        using ok by (auto simp: settled_ok_def)
      have wj: "?j \<in> set (workers sy)" if "is_worker ?j" using that k by (simp add: workers_def)
      have "i \<noteq> jb_migration ?j \<or> jb_stage ?j \<notin> set noting"
        using s [OF wj] by (auto simp: settled_def noting_def is_worker_def cleanup_stages_def cancel_stages_def)
      then have "run_done i (wd_db (snd ?x))" by (rule job_step_keeps_done [OF d])
      moreover have "jb_stage j \<in> set settled" if j: "j \<in> set (workers (advance hash k rp sy))" "jb_migration j = i" for j
      proof (cases "j \<in> set (workers sy)")
        case True
        then show ?thesis using s j(2) by simp
      next
        case False
        then have e: "j = fst ?x" "jb_stage (fst ?x) \<noteq> Ended"
          using advance_jobs [of j hash k rp sy] j(1) by (auto simp: workers_def advance_def Let_def split: prod.splits if_splits dest: in_set_takeD in_set_dropD)
        have "is_worker ?j" "jb_migration ?j = i" using job_step_kind [OF e(2)] j e(1) job_step_key [of hash rp ?j ?w]
          by (simp_all add: workers_def job_key_def)
        then show ?thesis using settled_step [of ?j ?w hash rp] s [OF wj] d e by auto
      qed
      ultimately show ?thesis by blast
    qed
  qed
qed

lemma settled_world:
  assumes "settled_ok sy" "wd_log (sy_world sy') = wd_log (sy_world sy)"
    and "\<And>i. run_done i (wd_db (sy_world sy)) \<Longrightarrow> run_done i (wd_db (sy_world sy'))"
    and "\<And>j. j \<in> set (workers sy') \<Longrightarrow> j \<in> set (workers sy) \<or> jb_stage j = Claim"
  shows "settled_ok sy'"
  unfolding settled_ok_def
proof (intro allI impI conjI ballI)
  fix i assume c: "Commit i \<in> set (wd_log (sy_world sy'))"
  then have *: "run_done i (wd_db (sy_world sy)) \<and> (\<forall>j \<in> set (workers sy). jb_migration j = i \<longrightarrow> jb_stage j \<in> set settled)"
    using assms(1,2) by (simp add: settled_ok_def)
  then show "run_done i (wd_db (sy_world sy'))" using assms(3) by blast
  show "jb_stage j \<in> set settled" if "j \<in> set (workers sy')" "jb_migration j = i" for j
    using assms(4) [OF that(1)] that(2) * by (auto simp: settled_def)
qed

lemma settled_same_jobs:
  assumes "settled_ok sy" "\<And>i. run_done i (wd_db (sy_world sy)) \<Longrightarrow> run_done i db"
  shows "settled_ok (sy\<lparr>sy_world := set_db db (sy_world sy)\<rparr>)"
  by (rule settled_world [OF assms(1)]) (use assms(2) in \<open>auto simp: workers_def\<close>)

lemma sys_step_settled:
  "sys_step hash id_lt sy sy' \<Longrightarrow> settled_ok sy \<Longrightarrow> workers_ok sy \<Longrightarrow> \<forall>j \<in> set (workers sy). jb_owner j = p \<Longrightarrow>
   keys_ok (wd_db (sy_world sy)) \<Longrightarrow> settled_ok sy'"
proof (induction rule: sys_step.induct)
  case (sys_execute sy ok1 ok2 ok3 key p i)
  have "set (workers (snd (execute_migration id_lt ok1 ok2 ok3 key p i sy))) \<subseteq> insert (new_job Claim p i) (set (workers sy))"
    by (auto simp: execute_migration_def start_run_def workers_def split: prod.split sum.split)
  then show ?case by (intro settled_world [OF sys_execute.prems(1)]) (auto simp: execute_world run_done_prepare new_job_def)
next
  case (sys_once sy ok1 ok2 now p)
  have "set (workers (run_once ok1 ok2 now p sy)) \<subseteq> range (new_job Claim p) \<union> set (workers sy)"
    using start_all_jobs [of p "reclaimable_ids now (wd_db (sy_world sy))" sy]
    by (auto simp: run_once_def cleanup_def reclaim_def workers_def)
  then show ?case by (intro settled_world [OF sys_once.prems(1)]) (auto simp: new_job_def)
next
  case (sys_cancel sy p i)
  then show ?case by (intro settled_world [OF sys_cancel.prems(1)]) (auto simp: cancel_migration_def workers_def)
next
  case (sys_crash sy p)
  then show ?case by (intro settled_world [OF sys_crash.prems(1)]) (auto simp: crash_def workers_def)
qed (auto intro: settled_advance settled_same_jobs run_done_prepare)

lemma solo_settled: "solo hash id_lt p sy \<Longrightarrow> settled_ok sy"
proof (induction rule: solo.induct)
  case (solo_start sy)
  then show ?case by (simp add: settled_ok_def starting_def)
next
  case (solo_step sy sy')
  then show ?case using sys_step_settled solo_workers solo_keys by metis
qed

text \<open>C20: With one process a committed migration stays committed: its run keeps the phase completed, whatever
  fails, is cancelled or restarted, and its worker is past the commit or has not claimed the run yet. So no
  worker takes the container at the target away or starts the source again after the commit.\<close>

theorem single_process_commit_final:
  assumes "solo hash id_lt p sy" "Commit i \<in> set (wd_log (sy_world sy))"
  shows "map_option rn_phase (find_run (wd_db (sy_world sy)) i) = Some ''completed'' \<and>
    (\<forall>j \<in> set (workers sy). jb_migration j = i \<longrightarrow> jb_stage j \<in> {Claim, FinalizeTarget, CleanSource, MarkClean, Reserve})"
proof -
  have d: "run_done i (wd_db (sy_world sy))" and w: "\<forall>j \<in> set (workers sy). jb_migration j = i \<longrightarrow> jb_stage j \<in> set settled"
    using solo_settled [OF assms(1)] assms(2) by (auto simp: settled_ok_def)
  obtain r where r: "find_run (wd_db (sy_world sy)) i = Some r"
    using d by (cases "find_run (wd_db (sy_world sy)) i") (auto simp: run_done_def find_run_def find_None_iff)
  then have "rn_phase r = ''completed''" using d find_key_mem [OF r [unfolded find_run_def]] by (simp add: run_done_def)
  then show ?thesis using r w by (simp add: settled_def)
qed

text \<open>A run of one process up to the commit.\<close>

definition solo_system :: system where
  "solo_system = drive id (to_creation @ map (Pair 0) [fine 0, fine 0, fine 0])
     (snd (execute_migration (\<lambda>_ _. False) True True True ''k'' ''p'' ''m'' start_system))"

lemma solo_drive:
  assumes "solo hash id_lt p sy" shows "solo hash id_lt p (drive hash xs sy)"
  using assms
proof (induction xs arbitrary: sy)
  case (Cons x xs)
  obtain k rp where x: "x = (k, rp)" by force
  have "\<forall>j \<in> set (workers (advance hash k rp sy)). jb_owner j = p"
  proof
    fix j assume "j \<in> set (workers (advance hash k rp sy))"
    then have j: "j \<in> set (sy_jobs (advance hash k rp sy))" "is_worker j" by (auto simp: workers_def)
    have own: "\<And>j. j \<in> set (workers sy) \<Longrightarrow> jb_owner j = p" using solo_workers [OF Cons.prems] by blast
    show "jb_owner j = p"
    proof (cases "j \<in> set (sy_jobs sy)")
      case True
      then show ?thesis using own j(2) by (simp add: workers_def)
    next
      case False
      then have e: "k < length (sy_jobs sy)" "j = fst (job_step hash rp (sy_jobs sy ! k) (sy_world sy))"
        using advance_jobs [OF j(1)] by auto
      have "jb_stage j \<noteq> Ended"
      proof
        assume "jb_stage j = Ended"
        with e False j(1) show False
          by (auto simp: advance_def Let_def split: prod.splits dest: in_set_takeD in_set_dropD)
      qed
      then have "is_worker (sy_jobs sy ! k)" using job_step_kind [of hash rp "sy_jobs sy ! k" "sy_world sy"] j(2) e(2) by simp
      then have "jb_owner (sy_jobs sy ! k) = p" using own e(1) by (simp add: workers_def)
      then show ?thesis using e(2) job_step_key [of hash rp "sy_jobs sy ! k" "sy_world sy"] by (simp add: job_key_def)
    qed
  qed
  then have "solo hash id_lt p (advance hash k rp sy)" by (rule solo_step [OF Cons.prems sys_job])
  then show ?case using Cons.IH x by simp
qed simp

lemma solo_example: "solo id (\<lambda>_ _. False) ''p'' solo_system"
proof -
  let ?sy = "snd (execute_migration (\<lambda>_ _. False) True True True ''k'' ''p'' ''m'' start_system)"
  have "map jb_owner (sy_jobs ?sy) = [''p'']" by code_simp
  then have "\<forall>j \<in> set (workers ?sy). jb_owner j = ''p''" by (auto simp: workers_def map_eq_Cons_conv)
  then have "solo id (\<lambda>_ _. False) ''p'' ?sy" by (rule solo_step [OF solo_start [OF starting_example] sys_execute])
  then show ?thesis unfolding solo_system_def by (rule solo_drive)
qed

text \<open>Witness of C20: the migration just after its commit.\<close>

theorem single_process_commit_final_witness:
  "map_option rn_phase (find_run (wd_db (sy_world solo_system)) ''m'') = Some ''completed'' \<and> map jb_stage (workers solo_system) = [FinalizeTarget]"
proof -
  have "Commit ''m'' \<in> set (wd_log (sy_world solo_system))" by code_simp
  from single_process_commit_final [OF solo_example this] have "map_option rn_phase (find_run (wd_db (sy_world solo_system)) ''m'') = Some ''completed''" by blast
  moreover have "map jb_stage (workers solo_system) = [FinalizeTarget]" by code_simp
  ultimately show ?thesis by blast
qed

end
