(* ===== verification/Migration_Service.thy ===== *)
theory Migration_Service
  imports Evacuation_Plan Migration_Store
begin

text \<open>
  Creating a migration (\<^verbatim>\<open>services/migration/service.go\<close>): the request is validated with the scheduler's
  filter and the planner's capacity check, the row is written and capacity is reserved at the target. What
  the database answers to the reads is an argument. The service and the planner share the scheduler, as the
  program wires them.
\<close>

section \<open>Validation\<close>

record val_reads =
  vr_server :: "string \<Rightarrow> mig_error + server_row"
  vr_server_node :: "string \<Rightarrow> mig_error + string"
  vr_node :: "string \<Rightarrow> mig_error + node"
  vr_nodes :: "mig_error + node list"
  vr_plan :: ev_reads
  vr_target :: ev_reads

datatype val_error =
    ServerIdRequired
  | ValStore mig_error
  | TargetRequired
  | NoTarget reason
  | SameNode
  | FilterFailed sched_error
  | NotSatisfied
  | NotFitting cap_error

definition plan_target ::
  "sched_config \<Rightarrow> val_reads \<Rightarrow> bool \<Rightarrow> server_row \<Rightarrow> node \<Rightarrow> ev_state \<Rightarrow> (val_error + string) \<times> ev_state" where
  "plan_target cfg rd planner srv source st =
     (if \<not> planner then (Inl TargetRequired, st)
      else (case vr_nodes rd of
        Inl e \<Rightarrow> (Inl (ValStore e), st)
      | Inr nodes \<Rightarrow>
          (case find_candidates cfg (vr_plan rd) srv source nodes Map.empty st of
             ((None, why), st1) \<Rightarrow> (Inl (NoTarget why), st1)
           | ((Some (n, im), why), st1) \<Rightarrow> (if n_id n = [] then Inl (NoTarget why) else Inr (n_id n), st1))))"

definition target_request :: "node \<Rightarrow> node \<Rightarrow> server_row \<Rightarrow> placement_request" where
  "target_request source target srv = (evacuation_request source srv)\<lparr>pr_required := n_id target\<rparr>"

definition validate_target ::
  "val_reads \<Rightarrow> bool \<Rightarrow> server_row \<Rightarrow> node \<Rightarrow> node \<Rightarrow> ev_state \<Rightarrow> (val_error + unit) \<times> ev_state" where
  "validate_target rd planner srv source target st =
     (case filter_nodes (target_request source target srv) (er_regions (vr_target rd)) (er_filter (vr_target rd)) [target] (ev_sched st) of
        (Inl e, sst) \<Rightarrow> (Inl (FilterFailed e), st\<lparr>ev_sched := sst\<rparr>)
      | (Inr kept, sst) \<Rightarrow>
          (if kept = [] then Inl NotSatisfied
           else if \<not> planner then Inr ()
           else (case validate_capacity (er_capacity (vr_target rd)) (n_id target) srv of Inl e \<Rightarrow> Inl (NotFitting e) | Inr _ \<Rightarrow> Inr ()),
           st\<lparr>ev_sched := sst\<rparr>))"

text \<open>The target that was asked for, or one the planner chooses.\<close>

definition choose_target ::
  "sched_config \<Rightarrow> val_reads \<Rightarrow> bool \<Rightarrow> server_row \<Rightarrow> node \<Rightarrow> string \<Rightarrow> ev_state \<Rightarrow> (val_error + string) \<times> ev_state" where
  "choose_target cfg rd planner srv source tgt st =
     (if trim_space tgt = [] then plan_target cfg rd planner srv source st else (Inr (trim_space tgt), st))"

definition choose_source :: "val_reads \<Rightarrow> string \<Rightarrow> string \<Rightarrow> mig_error + string" where
  "choose_source rd srv src = (if trim_space src = [] then vr_server_node rd srv else Inr (trim_space src))"

definition validate_migration ::
  "sched_config \<Rightarrow> val_reads \<Rightarrow> bool \<Rightarrow> string \<Rightarrow> string \<Rightarrow> string \<Rightarrow> ev_state
     \<Rightarrow> (val_error + string \<times> string \<times> string) \<times> ev_state" where
  "validate_migration cfg rd planner srv src tgt st =
     (let sid = trim_space srv in
      if sid = [] then (Inl ServerIdRequired, st)
      else (case vr_server rd sid of Inl e \<Rightarrow> (Inl (ValStore e), st) | Inr server \<Rightarrow>
        (case choose_source rd sid src of Inl e \<Rightarrow> (Inl (ValStore e), st) | Inr source_id \<Rightarrow>
          (case vr_node rd source_id of Inl e \<Rightarrow> (Inl (ValStore e), st) | Inr source \<Rightarrow>
            (case choose_target cfg rd planner server source tgt st of (Inl e, st1) \<Rightarrow> (Inl e, st1) | (Inr target_id, st1) \<Rightarrow>
              if source_id = target_id then (Inl SameNode, st1)
              else (case vr_node rd target_id of Inl e \<Rightarrow> (Inl (ValStore e), st1) | Inr target \<Rightarrow>
                (case validate_target rd planner server source target st1 of
                   (Inl e, st2) \<Rightarrow> (Inl e, st2)
                 | (Inr _, st2) \<Rightarrow> (Inr (sid, source_id, target_id), st2))))))))"

section \<open>Creation\<close>

datatype create_error = Invalid val_error | CreateStore mig_error | ReserveFailed

text \<open>\<open>reserve\<close> is what the reservation manager answers, when there is one: whether the server is read again
  and whether the reservation is made. The migration is marked failed otherwise.\<close>

definition create_migration ::
  "sched_config \<Rightarrow> val_reads \<Rightarrow> bool \<Rightarrow> (bool \<times> bool) option \<Rightarrow> bool \<Rightarrow> bool \<Rightarrow> string \<Rightarrow> string \<Rightarrow> string \<Rightarrow> string
     \<Rightarrow> ev_state \<Rightarrow> mdb \<Rightarrow> (create_error + string) \<times> ev_state \<times> mdb" where
  "create_migration cfg rd planner reserve ok1 ok2 i srv src tgt st db =
     (case validate_migration cfg rd planner srv src tgt st of
        (Inl e, st1) \<Rightarrow> (Inl (Invalid e), st1, db)
      | (Inr (sid, source_id, target_id), st1) \<Rightarrow>
          (case create_migration_row ok1 i sid source_id target_id db of
             (Inl e, db1) \<Rightarrow> (Inl (CreateStore e), st1, db1)
           | (Inr _, db1) \<Rightarrow>
               (case reserve of
                  None \<Rightarrow> (Inr i, st1, db1)
                | Some (read, reserved) \<Rightarrow>
                    if \<not> read then (Inl ReserveFailed, st1,
                      snd (update_migration_status ok2 i ''failed'' ''migration reservation server lookup failed'' db1))
                    else if \<not> reserved then (Inl ReserveFailed, st1,
                      snd (update_migration_status ok2 i ''failed'' ''migration reservation failed'' db1))
                    else (Inr i, st1, db1))))"

section \<open>A created migration can be placed\<close>

lemma validate_target_ok:
  assumes "validate_target rd planner srv source target st = (Inr u, st')"
  shows "\<exists>regions. er_regions (vr_target rd) = Inr regions \<and>
    eligible (normalize_request (target_request source target srv)) regions (er_filter (vr_target rd)) target \<and>
    (planner \<longrightarrow> (\<exists>im. validate_capacity (er_capacity (vr_target rd)) (n_id target) srv = Inr im))"
proof (cases "er_regions (vr_target rd)")
  case (Inl e)
  then show ?thesis using assms by (simp add: validate_target_def filter_nodes_def)
next
  case (Inr regions)
  then show ?thesis using assms
    by (auto simp: validate_target_def filter_nodes_Inr split: if_splits sum.splits)
qed

lemma validate_migration_ok:
  assumes "validate_migration cfg rd planner srv src tgt st = (Inr (sid, s, t), st')"
  shows "sid = trim_space srv \<and> sid \<noteq> [] \<and> s \<noteq> t \<and> (\<exists>server source target regions.
    vr_server rd sid = Inr server \<and> vr_node rd s = Inr source \<and> vr_node rd t = Inr target \<and> er_regions (vr_target rd) = Inr regions \<and>
    eligible (normalize_request (target_request source target server)) regions (er_filter (vr_target rd)) target \<and>
    (planner \<longrightarrow> (\<exists>im. validate_capacity (er_capacity (vr_target rd)) (n_id target) server = Inr im)))"
proof -
  obtain server source target st1 u where "sid = trim_space srv" "sid \<noteq> []" "s \<noteq> t" "vr_server rd sid = Inr server"
      "vr_node rd s = Inr source" "vr_node rd t = Inr target"
    and v: "validate_target rd planner server source target st1 = (Inr u, st')"
    using assms by (auto simp: validate_migration_def Let_def split: if_splits sum.splits prod.splits)
  then show ?thesis using validate_target_ok [OF v] by blast
qed

lemma create_row_ok:
  assumes "create_migration_row ok i srv src tgt db = (Inr u, db')"
  shows "find_migration db i = None \<and> mdb_migrations db' = mdb_migrations db @ [\<lparr>mg_id = i, mg_server = srv, mg_source = src, mg_target = tgt,
    mg_status = ''planned'', mg_failure = []\<rparr>]"
  using assms by (auto simp: create_migration_row_def split: if_splits)

lemma find_append_new: "find P xs = None \<Longrightarrow> P x \<Longrightarrow> find P (xs @ [x]) = Some x"
  by (induction xs) (auto split: if_splits)

lemma create_row_err: "create_migration_row ok i srv src tgt db = (Inl e, db') \<Longrightarrow> db' = db"
  by (auto simp: create_migration_row_def split: if_splits)

lemma failed_status:
  assumes "find_migration db i = Some m"
  shows "map_option mg_status (find_migration (snd (update_migration_status True i ''failed'' why db)) i) = Some ''failed''"
proof -
  let ?f = "\<lambda>x. if mg_id x = i then x\<lparr>mg_status := ''failed'', mg_failure := why\<rparr> else x"
  have "find_migration (snd (update_migration_status True i ''failed'' why db)) i = find (\<lambda>x. mg_id x = i) (map ?f (mdb_migrations db))"
    using assms by (simp add: update_migration_status_def find_migration_def update_migrations_def)
  also have "\<dots> = map_option ?f (find_migration db i)" unfolding find_migration_def by (rule find_map_key) simp
  finally show ?thesis using assms find_key_mem [OF assms [unfolded find_migration_def]] by simp
qed

text \<open>A migration that is created goes to another node that passes the scheduler's filter for the server and,
  with a planner, has the capacity for it, and it is the only new row; when the creation fails, no migration is
  left that is not marked failed, provided that mark can be written.\<close>

theorem create_migration_outcome:
  assumes "find_migration db i = None" "create_migration cfg rd planner reserve ok1 ok2 i srv src tgt st db = (r, st', db')"
  shows "case r of
      Inl _ \<Rightarrow> ok2 \<longrightarrow> (case find_migration db' i of None \<Rightarrow> True | Some m \<Rightarrow> mg_status m = ''failed'')
    | Inr k \<Rightarrow> k = i \<and> (\<exists>m server source target regions. mdb_migrations db' = mdb_migrations db @ [m] \<and> mg_id m = i \<and>
        mg_server m = trim_space srv \<and> mg_status m = ''planned'' \<and> mg_source m \<noteq> mg_target m \<and>
        vr_server rd (mg_server m) = Inr server \<and> vr_node rd (mg_source m) = Inr source \<and> vr_node rd (mg_target m) = Inr target \<and>
        er_regions (vr_target rd) = Inr regions \<and>
        eligible (normalize_request (target_request source target server)) regions (er_filter (vr_target rd)) target \<and>
        (planner \<longrightarrow> (\<exists>im. validate_capacity (er_capacity (vr_target rd)) (n_id target) server = Inr im)))"
proof (cases "validate_migration cfg rd planner srv src tgt st")
  case (Pair v st1)
  show ?thesis
  proof (cases v)
    case (Inl e)
    then show ?thesis using assms Pair by (auto simp: create_migration_def)
  next
    case (Inr x)
    obtain sid s t where x: "x = (sid, s, t)" by (cases x) auto
    note v = validate_migration_ok [OF Pair [unfolded Inr x]]
    show ?thesis
    proof (cases "create_migration_row ok1 i sid s t db")
      case row: (Pair u db1)
      show ?thesis
      proof (cases u)
        case (Inl e)
        then have "db1 = db" using row create_row_err by blast
        then show ?thesis using assms Pair Inr x row Inl by (auto simp: create_migration_def)
      next
        case u: (Inr y)
        note c = create_row_ok [OF row [unfolded u]]
        have "find_migration db1 i = Some \<lparr>mg_id = i, mg_server = sid, mg_source = s, mg_target = t, mg_status = ''planned'', mg_failure = []\<rparr>"
          using c by (simp add: find_migration_def find_append_new)
        note fs = failed_status [OF this]
        from assms(2) Pair Inr x row u have "r = Inr i \<and> db' = db1 \<or> (\<exists>why. r = Inl ReserveFailed \<and>
            db' = snd (update_migration_status ok2 i ''failed'' why db1))"
          by (auto simp: create_migration_def split: option.splits if_splits)
        then show ?thesis
        proof
          assume "r = Inr i \<and> db' = db1"
          then show ?thesis using v c by auto
        next
          assume "\<exists>why. r = Inl ReserveFailed \<and> db' = snd (update_migration_status ok2 i ''failed'' why db1)"
          then obtain why where "r = Inl ReserveFailed" "db' = snd (update_migration_status ok2 i ''failed'' why db1)" by blast
          then show ?thesis using fs [of why] by (cases ok2) (auto split: option.split)
        qed
      qed
    qed
  qed
qed

definition sample_val_reads :: val_reads where
  "sample_val_reads = \<lparr>vr_server = (\<lambda>i. Inr (sample_server i)), vr_server_node = (\<lambda>_. Inr ''a''), vr_node = (\<lambda>i. Inr (demo_node i)),
     vr_nodes = Inr [], vr_plan = sample_ev_reads, vr_target = sample_ev_reads\<rparr>"

lemma sample_validate_target:
  "fst (validate_target sample_val_reads True (sample_server i) (demo_node ''a'') (demo_node ''b'') st) = Inr ()"
proof -
  have "normalize_request (target_request (demo_node ''a'') (demo_node ''b'') (sample_server i)) = target_request (demo_node ''a'') (demo_node ''b'') (sample_server i)"
  proof -
    have "trim_space ''eu'' = ''eu''" "trim_space [] = []" "trim_space ''b'' = ''b''" by code_simp+
    then show ?thesis by (simp add: normalize_request_def target_request_def evacuation_request_def demo_node_def sample_server_def)
  qed
  moreover have "eligible (target_request (demo_node ''a'') (demo_node ''b'') (sample_server i)) [] (er_filter sample_ev_reads) (demo_node ''b'')"
    by (simp add: eligible_def target_request_def evacuation_request_def demo_node_def sample_server_def node_region_enabled_def
      out_of_service_def sample_ev_reads_def has_capacity_def demo_snapshot_def)
  moreover have "er_regions sample_ev_reads = Inr []" "er_capacity sample_ev_reads = (\<lambda>_. Inr (demo_snapshot 4096))"
    by (simp_all add: sample_ev_reads_def)
  moreover have "\<exists>im. validate_capacity (\<lambda>_. Inr (demo_snapshot 4096)) n (sample_server i) = Inr im" for n
    by (simp add: validate_capacity_def demo_snapshot_def sample_server_def)
  then obtain im where "validate_capacity (\<lambda>_. Inr (demo_snapshot 4096)) (n_id (demo_node ''b'')) (sample_server i) = Inr im" by blast
  ultimately show ?thesis
    by (simp add: validate_target_def sample_val_reads_def filter_nodes_Inr)
qed

text \<open>An instance: from one node to another, with capacity reserved.\<close>

theorem create_migration_outcome_witness:
  "\<exists>st' db'. create_migration sample_config sample_val_reads True (Some (True, True)) True True ''m'' '' s '' [] ''b'' sample_ev_state
      (example_mdb\<lparr>mdb_migrations := []\<rparr>) = (Inr ''m'', st', db') \<and> map mg_target (mdb_migrations db') = [''b'']"
proof -
  let ?db = "example_mdb\<lparr>mdb_migrations := []\<rparr>"
  have t: "trim_space '' s '' = ''s''" "trim_space ''b'' = ''b''" "trim_space [] = []" by code_simp+
  have s: "vr_server sample_val_reads ''s'' = Inr (sample_server ''s'')" "vr_server_node sample_val_reads ''s'' = Inr ''a''"
    "vr_node sample_val_reads x = Inr (demo_node x)" for x by (simp_all add: sample_val_reads_def)
  obtain st1 where v: "validate_target sample_val_reads True (sample_server ''s'') (demo_node ''a'') (demo_node ''b'') sample_ev_state = (Inr (), st1)"
    using sample_validate_target [of "''s''" sample_ev_state] by (cases "validate_target sample_val_reads True (sample_server ''s'') (demo_node ''a'') (demo_node ''b'') sample_ev_state") auto
  have "validate_migration sample_config sample_val_reads True '' s '' [] ''b'' sample_ev_state = (Inr (''s'', ''a'', ''b''), st1)"
    using t s v by (simp add: validate_migration_def Let_def choose_source_def choose_target_def)
  moreover obtain db1 where row: "create_migration_row True ''m'' ''s'' ''a'' ''b'' ?db = (Inr (), db1)"
    by (simp add: create_migration_row_def find_migration_def find_server_def example_mdb_def)
  ultimately have c: "create_migration sample_config sample_val_reads True (Some (True, True)) True True ''m'' '' s '' [] ''b'' sample_ev_state ?db = (Inr ''m'', st1, db1)"
    by (simp add: create_migration_def)
  have "find_migration ?db ''m'' = None" by (simp add: find_migration_def)
  from create_migration_outcome [OF this c] have "length (mdb_migrations db1) = 1" by auto
  then have "map mg_target (mdb_migrations db1) = [''b'']" using create_row_ok [OF row] by auto
  with c show ?thesis by (intro exI [of _ st1] exI [of _ db1]) simp
qed

end
