(* ===== verification/Recovery.thy ===== *)
theory Recovery
  imports Go_Strings
begin

text \<open>
  Recovery of the servers of an offline node from their backups: the tables
  (\<^verbatim>\<open>store/store_recovery.go\<close>), the restore on a target node (\<^verbatim>\<open>services/recovery/backup_restore.go\<close>) and the
  coordinator (\<^verbatim>\<open>services/recovery/service.go\<close>). The reservations a plan holds are those that are open; what the
  scheduler, the reservation manager and the nodes answer is an argument, and so is whether a statement of the
  database succeeds: one that fails changes nothing, and the read that follows a write in the same function fails
  only when the row is missing. The calls that ask for the end of
  a migration are recorded (\<open>rc_marks\<close>), and so are the restores that were made on a node. Executing a plan takes one item at a time, so that other requests come in between. Reasons,
  counters and events are left out.
\<close>

section \<open>Tables\<close>

record rec_plan =
  pl_id :: string
  pl_node :: string
  pl_status :: string

record rec_item =
  it_id :: string
  it_plan :: string
  it_server :: string
  it_target :: string
  it_reservation :: string
  it_migration :: string
  it_backup :: string
  it_checksum :: string
  it_size :: int
  it_status :: string

record rec_state =
  rc_plans :: "rec_plan list"
  rc_items :: "rec_item list"
  rc_open :: "string list"
  rc_restores :: "string list"
  rc_marks :: "(string \<times> string) list"

datatype rec_error =
    RecDb
  | RecNoRows
  | NodeRequired
  | NodeNotOffline
  | NotExecutable
  | NoMigration
  | RestoreError
  | NoExecutor
  | MigrationFailed

definition find_plan :: "rec_state \<Rightarrow> string \<Rightarrow> rec_plan option" where
  "find_plan st p = find (\<lambda>x. pl_id x = p) (rc_plans st)"

definition list_recovery_items :: "rec_state \<Rightarrow> string \<Rightarrow> rec_item list" where
  "list_recovery_items st p = filter (\<lambda>i. it_plan i = p) (rc_items st)"

definition create_recovery_plan :: "bool \<Rightarrow> string \<Rightarrow> string \<Rightarrow> rec_state \<Rightarrow> (rec_error + unit) \<times> rec_state" where
  "create_recovery_plan ok p n st =
     (if \<not> ok \<or> find_plan st p \<noteq> None then (Inl RecDb, st)
      else (Inr (), st\<lparr>rc_plans := rc_plans st @ [\<lparr>pl_id = p, pl_node = n, pl_status = ''pending''\<rparr>]\<rparr>))"

definition update_plan_status :: "bool \<Rightarrow> string \<Rightarrow> string \<Rightarrow> rec_state \<Rightarrow> (rec_error + rec_plan) \<times> rec_state" where
  "update_plan_status ok p status st =
     (if \<not> ok then (Inl RecDb, st)
      else let st1 = st\<lparr>rc_plans := map (\<lambda>x. if pl_id x = p then x\<lparr>pl_status := status\<rparr> else x) (rc_plans st)\<rparr> in
           (case find_plan st1 p of None \<Rightarrow> (Inl RecNoRows, st1) | Some x \<Rightarrow> (Inr x, st1)))"

definition create_recovery_item :: "bool \<Rightarrow> rec_item \<Rightarrow> rec_state \<Rightarrow> (rec_error + unit) \<times> rec_state" where
  "create_recovery_item ok i st =
     (if \<not> ok then (Inl RecDb, st)
      else (Inr (), st\<lparr>rc_items := rc_items st @ [if it_status i = [] then i\<lparr>it_status := ''pending''\<rparr> else i]\<rparr>))"

definition start_recovery_plan :: "bool \<Rightarrow> string \<Rightarrow> rec_state \<Rightarrow> (rec_error + rec_item list) \<times> rec_state" where
  "start_recovery_plan ok p st =
     (if \<not> ok then (Inl RecDb, st)
      else (case find_plan st p of
        None \<Rightarrow> (Inl RecNoRows, st)
      | Some x \<Rightarrow>
          if pl_status x \<noteq> ''planned'' \<and> pl_status x \<noteq> ''executing'' then (Inl NotExecutable, st)
          else let st1 = st\<lparr>rc_plans := map (\<lambda>x. if pl_id x = p then x\<lparr>pl_status := ''executing''\<rparr> else x) (rc_plans st),
                            rc_items := map (\<lambda>i. if it_plan i = p \<and> it_status i = ''planned'' then i\<lparr>it_status := ''executing''\<rparr> else i) (rc_items st)\<rparr>
               in (Inr (list_recovery_items st1 p), st1)))"

definition update_item_status :: "bool \<Rightarrow> string \<Rightarrow> string \<Rightarrow> rec_state \<Rightarrow> (rec_error + unit) \<times> rec_state" where
  "update_item_status ok i status st =
     (if \<not> ok then (Inl RecDb, st)
      else (if \<exists>x \<in> set (rc_items st). it_id x = i then Inr () else Inl RecNoRows,
            st\<lparr>rc_items := map (\<lambda>x. if it_id x = i then x\<lparr>it_status := status\<rparr> else x) (rc_items st)\<rparr>))"

definition open_status :: "string \<Rightarrow> bool" where
  "open_status s \<longleftrightarrow> s = ''pending'' \<or> s = ''planned'' \<or> s = ''executing''"

definition update_items_for_plan :: "bool \<Rightarrow> string \<Rightarrow> string \<Rightarrow> rec_state \<Rightarrow> rec_state" where
  "update_items_for_plan ok p status st =
     (if \<not> ok then st
      else st\<lparr>rc_items := map (\<lambda>i. if it_plan i = p \<and> open_status (it_status i) then i\<lparr>it_status := status\<rparr> else i) (rc_items st)\<rparr>)"

text \<open>The newest completed backup with a checksum and a size; rows with equal times stay in their order.\<close>

record backup_row =
  bk_name :: string
  bk_server :: string
  bk_checksum :: string
  bk_size :: int
  bk_status :: string
  bk_completed :: "gotime option"
  bk_created :: gotime

definition newer_backup :: "backup_row \<Rightarrow> backup_row \<Rightarrow> bool" where
  "newer_backup a b =
     (case (bk_completed a, bk_completed b) of
        (Some x, Some y) \<Rightarrow> y < x \<or> (x = y \<and> bk_created b < bk_created a)
      | (Some _, None) \<Rightarrow> True
      | (None, Some _) \<Rightarrow> False
      | (None, None) \<Rightarrow> bk_created b < bk_created a)"

definition latest_verified_backup :: "backup_row list \<Rightarrow> string \<Rightarrow> backup_row option" where
  "latest_verified_backup rows srv =
     (case slice_stable newer_backup
             (filter (\<lambda>b. bk_server b = srv \<and> bk_status b = ''completed'' \<and> bk_checksum b \<noteq> [] \<and> 0 < bk_size b) rows) of
        [] \<Rightarrow> None | b # _ \<Rightarrow> Some b)"

section \<open>Restoring on a target\<close>

record node_backup =
  nb_name :: string
  nb_status :: string
  nb_size :: int
  nb_checksum :: string

text \<open>\<open>target\<close> says whether the target can be loaded, \<open>listed\<close> what the target lists, \<open>restored\<close> whether its
  restore succeeds.\<close>

definition verify_and_restore :: "bool \<Rightarrow> node_backup list option \<Rightarrow> bool \<Rightarrow> rec_item \<Rightarrow> bool" where
  "verify_and_restore target listed restored i \<longleftrightarrow>
     it_target i \<noteq> [] \<and> it_server i \<noteq> [] \<and> it_backup i \<noteq> [] \<and> it_checksum i \<noteq> [] \<and> 0 < it_size i \<and> target \<and>
     (case listed of
        None \<Rightarrow> False
      | Some bs \<Rightarrow> restored \<and> (\<exists>b \<in> set bs. nb_name b = it_backup i \<and> nb_status b = ''completed'' \<and> nb_size b = it_size i \<and>
          ascii_lower (nb_checksum b) = ascii_lower (it_checksum i)))"

section \<open>Planning\<close>

record rec_node =
  nd_id :: string
  nd_heartbeat :: string
  nd_actual :: string

definition recovery_evaluate_node :: "string \<Rightarrow> (string \<Rightarrow> rec_node option) \<Rightarrow> rec_error + rec_node" where
  "recovery_evaluate_node n nodes =
     (let i = trim_space n in
      if i = [] then Inl NodeRequired
      else (case nodes i of
        None \<Rightarrow> Inl RecNoRows
      | Some x \<Rightarrow> if nd_heartbeat x \<noteq> ''offline'' \<and> nd_actual x \<noteq> ''offline'' then Inl NodeNotOffline else Inr x))"

definition affected_servers :: "(string \<times> string) list \<Rightarrow> string list" where
  "affected_servers servers = map fst (filter (\<lambda>s. snd s \<noteq> ''deleted'') servers)"

text \<open>What is answered while one server is planned: the backups, the decision of the scheduler, the reservation,
  and whether the row of the item can be written. Identifiers of items are taken from the argument.\<close>

record plan_answers =
  pa_backups :: "backup_row list"
  pa_place :: "string \<Rightarrow> string option"
  pa_reserve :: "string \<Rightarrow> string option"
  pa_insert :: "string \<Rightarrow> bool"
  pa_insert_failed :: "string \<Rightarrow> bool"
  pa_item :: "string \<Rightarrow> string"

definition blank_item :: "string \<Rightarrow> string \<Rightarrow> string \<Rightarrow> string \<Rightarrow> rec_item" where
  "blank_item i p srv status =
     \<lparr>it_id = i, it_plan = p, it_server = srv, it_target = [], it_reservation = [], it_migration = [], it_backup = [], it_checksum = [],
      it_size = 0, it_status = status\<rparr>"

definition plan_server_item :: "plan_answers \<Rightarrow> string \<Rightarrow> string \<Rightarrow> rec_state \<Rightarrow> (rec_error + unit) \<times> rec_state" where
  "plan_server_item pa p srv st =
     (case latest_verified_backup (pa_backups pa) srv of
        None \<Rightarrow> create_recovery_item (pa_insert pa srv) (blank_item (pa_item pa srv) p srv ''skipped'') st
      | Some b \<Rightarrow>
          (case pa_place pa srv of
             None \<Rightarrow> (Inl RecDb, st)
           | Some n \<Rightarrow>
               (case pa_reserve pa srv of
                  None \<Rightarrow> (Inl RecDb, st)
                | Some r \<Rightarrow>
                    create_recovery_item (pa_insert pa srv)
                      ((blank_item (pa_item pa srv) p srv ''planned'')\<lparr>it_target := n, it_reservation := r, it_backup := bk_name b,
                         it_checksum := bk_checksum b, it_size := bk_size b\<rparr>)
                      (st\<lparr>rc_open := r # rc_open st\<rparr>))))"

text \<open>The loop over the servers; the flag says that one could not be planned.\<close>

fun plan_items :: "plan_answers \<Rightarrow> string \<Rightarrow> string list \<Rightarrow> rec_state \<Rightarrow> bool \<times> rec_state" where
  "plan_items pa p [] st = (False, st)"
| "plan_items pa p (srv # srvs) st =
     (case plan_server_item pa p srv st of
        (Inr _, st1) \<Rightarrow> plan_items pa p srvs st1
      | (Inl _, st1) \<Rightarrow>
          (let st2 = snd (create_recovery_item (pa_insert_failed pa srv) (blank_item (pa_item pa srv) p srv ''failed'') st1);
               (_, st3) = plan_items pa p srvs st2
           in (True, st3)))"

text \<open>Failing a plan: reservations of its items that have not failed are cancelled. \<open>cancels\<close> says which
  cancellations succeed.\<close>

definition cancel_reservation_of :: "(string \<Rightarrow> bool) \<Rightarrow> rec_item \<Rightarrow> string list \<Rightarrow> string list" where
  "cancel_reservation_of cancels i rs =
     (if it_reservation i \<noteq> [] \<and> cancels (it_reservation i) then filter (\<lambda>r. r \<noteq> it_reservation i) rs else rs)"

definition migration_marks :: "string \<Rightarrow> rec_item list \<Rightarrow> (string \<times> string) list" where
  "migration_marks s is = map (\<lambda>i. (it_migration i, s)) (filter (\<lambda>i. it_migration i \<noteq> []) is)"

definition fail_recovery_plan :: "(string \<Rightarrow> bool) \<Rightarrow> bool \<Rightarrow> bool \<Rightarrow> bool \<Rightarrow> string \<Rightarrow> rec_state \<Rightarrow> (rec_error + rec_plan) \<times> rec_state" where
  "fail_recovery_plan cancels ok_get ok_items ok_status p st =
     (let st1 = (if ok_get \<and> find_plan st p \<noteq> None then
                   update_items_for_plan ok_items p ''failed''
                     (st\<lparr>rc_open := fold (\<lambda>i. if it_status i = ''failed'' then id else cancel_reservation_of cancels i)
                                     (list_recovery_items st p) (rc_open st),
                         rc_marks := rc_marks st @ migration_marks ''failed'' (filter (\<lambda>i. it_status i \<noteq> ''failed'') (list_recovery_items st p))\<rparr>)
                 else st)
      in update_plan_status ok_status p ''failed'' st1)"

record plan_oks =
  po_create :: bool
  po_planning :: bool
  po_servers :: bool
  po_get :: bool
  po_final :: bool
  po_cancels :: "string \<Rightarrow> bool"
  po_fail_get :: bool
  po_fail_items :: bool
  po_fail_status :: bool

definition create_plan ::
  "plan_oks \<Rightarrow> plan_answers \<Rightarrow> (string \<Rightarrow> rec_node option) \<Rightarrow> (string \<times> string) list \<Rightarrow> string \<Rightarrow> string \<Rightarrow> rec_state
     \<Rightarrow> (rec_error + rec_plan) \<times> rec_state" where
  "create_plan ok pa nodes servers p n st =
     (case recovery_evaluate_node n nodes of
        Inl e \<Rightarrow> (Inl e, st)
      | Inr x \<Rightarrow>
          (case create_recovery_plan (po_create ok) p (nd_id x) st of
             (Inl e, st1) \<Rightarrow> (Inl e, st1)
           | (Inr _, st1) \<Rightarrow>
               (case update_plan_status (po_planning ok) p ''planning'' st1 of
                  (Inl e, st2) \<Rightarrow> (Inl e, st2)
                | (Inr _, st2) \<Rightarrow>
                    let failing = fail_recovery_plan (po_cancels ok) (po_fail_get ok) (po_fail_items ok) (po_fail_status ok) p in
                    if \<not> po_servers ok then failing st2
                    else if affected_servers servers = [] then update_plan_status (po_final ok) p ''planned'' st2
                    else (case plan_items pa p (affected_servers servers) st2 of
                      (bad, st3) \<Rightarrow>
                        if \<not> po_get ok then (Inl RecDb, st3)
                        else if bad \<or> (\<exists>i \<in> set (list_recovery_items st3 p). it_status i = ''failed'') then failing st3
                        else update_plan_status (po_final ok) p ''planned'' st3))))"

section \<open>Execution\<close>

text \<open>An execution under way: the items that were read when it started and are still to be restored.\<close>

record execution =
  ex_plan :: string
  ex_items :: "rec_item list"

definition execute_begin :: "bool \<Rightarrow> bool \<Rightarrow> string \<Rightarrow> rec_state \<Rightarrow> (rec_error + execution option) \<times> rec_state" where
  "execute_begin ok1 ok2 p st =
     (case start_recovery_plan ok1 p st of
        (Inl e, st1) \<Rightarrow> (Inl e, st1)
      | (Inr items, st1) \<Rightarrow>
          if items = [] then
            (case update_plan_status ok2 p ''completed'' st1 of (Inl e, st2) \<Rightarrow> (Inl e, st2) | (Inr _, st2) \<Rightarrow> (Inr None, st2))
          else (Inr (Some \<lparr>ex_plan = p, ex_items = filter (\<lambda>i. it_status i = ''executing'') items\<rparr>), st1))"

definition finish_backup_restore :: "bool \<Rightarrow> bool \<Rightarrow> string \<Rightarrow> rec_state \<Rightarrow> (rec_error + rec_plan) \<times> rec_state" where
  "finish_backup_restore ok1 ok2 p st =
     (case (if ok1 then find_plan st p else None) of
        None \<Rightarrow> (Inl RecNoRows, st)
      | Some x \<Rightarrow>
          let items = list_recovery_items st p in
          if \<exists>i \<in> set items. it_status i \<noteq> ''restored'' \<and> it_status i \<noteq> ''skipped'' then (Inr x, st)
          else if \<forall>i \<in> set items. it_status i \<noteq> ''restored'' then update_plan_status ok2 p ''completed'' st
          else update_plan_status ok2 p ''restored'' st)"

record exec_answers =
  ea_target :: bool
  ea_listed :: "node_backup list option"
  ea_restored :: bool
  ea_item :: bool
  ea_cancels :: "string \<Rightarrow> bool"
  ea_get :: bool
  ea_items :: bool
  ea_status :: bool

text \<open>One step of an execution: the next item, or the end. An execution that is over is absent.\<close>

definition execute_step :: "exec_answers \<Rightarrow> execution \<Rightarrow> rec_state \<Rightarrow> execution option \<times> rec_state" where
  "execute_step ea ex st =
     (case ex_items ex of
        [] \<Rightarrow> (None, snd (finish_backup_restore (ea_get ea) (ea_status ea) (ex_plan ex) st))
      | i # rest \<Rightarrow>
          if \<not> verify_and_restore (ea_target ea) (ea_listed ea) (ea_restored ea) i then
            (case update_item_status (ea_item ea) (it_id i) ''failed'' st of
               (Inl e, st1) \<Rightarrow> (None, st1)
             | (Inr _, st1) \<Rightarrow> (None, snd (fail_recovery_plan (ea_cancels ea) (ea_get ea) (ea_items ea) (ea_status ea) (ex_plan ex) st1)))
          else (case update_item_status (ea_item ea) (it_id i) ''restored'' (st\<lparr>rc_restores := rc_restores st @ [it_id i]\<rparr>) of
               (Inl e, st1) \<Rightarrow> (None, st1)
             | (Inr _, st1) \<Rightarrow> (Some (ex\<lparr>ex_items := rest\<rparr>), st1)))"

text \<open>The whole loop, with no other request in between: \<open>ea\<close> gives the answers for an item, by its identifier,
  and those for the end under the empty identifier.\<close>

fun execute_loop :: "(string \<Rightarrow> exec_answers) \<Rightarrow> string \<Rightarrow> rec_item list \<Rightarrow> rec_state \<Rightarrow> rec_state" where
  "execute_loop ea p [] st = snd (execute_step (ea []) \<lparr>ex_plan = p, ex_items = []\<rparr> st)"
| "execute_loop ea p (i # is) st =
     (case execute_step (ea (it_id i)) \<lparr>ex_plan = p, ex_items = i # is\<rparr> st of
        (None, st1) \<Rightarrow> st1
      | (Some _, st1) \<Rightarrow> execute_loop ea p is st1)"

section \<open>Reconciling and cancelling\<close>

text \<open>Among the answers, \<open>ra_status\<close> is what the migration service says of a migration.\<close>

record reconcile_answers =
  ra_get :: bool
  ra_status :: "string \<Rightarrow> string option"
  ra_item :: bool
  ra_confirm :: bool
  ra_cancels :: "string \<Rightarrow> bool"
  ra_migrations :: "string \<Rightarrow> bool"
  ra_items :: bool
  ra_plan :: bool

definition fail_recovery_item :: "reconcile_answers \<Rightarrow> rec_item \<Rightarrow> rec_state \<Rightarrow> rec_error \<times> rec_state" where
  "fail_recovery_item ra i st =
     (let st1 = st\<lparr>rc_open := cancel_reservation_of (ra_cancels ra) i (rc_open st), rc_marks := rc_marks st @ migration_marks ''failed'' [i]\<rparr>;
          st2 = snd (update_item_status (ra_item ra) (it_id i) ''failed'' st1);
          st3 = snd (fail_recovery_plan (ra_cancels ra) (ra_get ra) (ra_items ra) (ra_plan ra) (it_plan i) st2)
      in (MigrationFailed, st3))"

text \<open>Cancelling a plan: every reservation of its items, then the open items and the plan.\<close>

definition cancel_recovery_plan :: "reconcile_answers \<Rightarrow> string \<Rightarrow> rec_state \<Rightarrow> (rec_error + rec_plan) \<times> rec_state" where
  "cancel_recovery_plan ra p st =
     (if \<not> ra_get ra \<or> find_plan st p = None then (Inl RecNoRows, st)
      else let items = list_recovery_items st p;
               st1 = st\<lparr>rc_open := fold (cancel_reservation_of (ra_cancels ra)) items (rc_open st),
                         rc_marks := rc_marks st @ migration_marks ''cancelled'' items\<rparr>;
               st2 = update_items_for_plan (ra_items ra) p ''cancelled'' st1
           in (case update_plan_status (ra_plan ra) p ''cancelled'' st2 of
                 (Inl e, st3) \<Rightarrow> (Inl e, st3)
               | (Inr x, st3) \<Rightarrow>
                   (if (\<exists>i \<in> set items. it_reservation i \<noteq> [] \<and> \<not> ra_cancels ra (it_reservation i) \<or>
                          it_migration i \<noteq> [] \<and> \<not> ra_migrations ra (it_migration i)) \<or> \<not> ra_items ra
                    then Inl RecDb else Inr x, st3)))"

definition cancel_recovery_item :: "reconcile_answers \<Rightarrow> rec_item \<Rightarrow> rec_state \<Rightarrow> rec_error option \<times> rec_state" where
  "cancel_recovery_item ra i st =
     (if it_reservation i \<noteq> [] \<and> \<not> ra_cancels ra (it_reservation i) then (Some RecDb, st)
      else let st1 = st\<lparr>rc_open := cancel_reservation_of (ra_cancels ra) i (rc_open st)\<rparr> in
           (case update_item_status (ra_item ra) (it_id i) ''cancelled'' st1 of
              (Inl e, st2) \<Rightarrow> (Some e, st2)
            | (Inr _, st2) \<Rightarrow>
                (case cancel_recovery_plan ra (it_plan i) st2 of (Inl e, st3) \<Rightarrow> (Some e, st3) | (Inr _, st3) \<Rightarrow> (None, st3))))"

text \<open>The loop over the items: whether to go on, or the error the request ends with.\<close>

fun reconcile_loop :: "reconcile_answers \<Rightarrow> rec_item list \<Rightarrow> rec_state \<Rightarrow> (rec_error option option) \<times> rec_state" where
  "reconcile_loop ra [] st = (None, st)"
| "reconcile_loop ra (i # is) st =
     (if it_status i \<noteq> ''executing'' then reconcile_loop ra is st
      else if it_migration i = [] then (let (e, st1) = fail_recovery_item ra i st in (Some (Some e), st1))
      else (case ra_status ra (it_migration i) of
        None \<Rightarrow> (Some (Some RecDb), st)
      | Some s \<Rightarrow>
          if s = ''completed'' then
            (case update_item_status (ra_item ra) (it_id i) ''completed'' st of
               (Inl e, st1) \<Rightarrow> (Some (Some e), st1)
             | (Inr _, st1) \<Rightarrow>
                 if it_reservation i \<noteq> [] \<and> \<not> ra_confirm ra then (Some (Some RecDb), st1)
                 else reconcile_loop ra is (st1\<lparr>rc_open := cancel_reservation_of (\<lambda>_. True) i (rc_open st1)\<rparr>))
          else if s = ''failed'' then (let (e, st1) = fail_recovery_item ra i st in (Some (Some e), st1))
          else if s = ''cancelled'' then (let (e, st1) = cancel_recovery_item ra i st in (Some e, st1))
          else reconcile_loop ra is st))"

definition reconcile_plan :: "reconcile_answers \<Rightarrow> string \<Rightarrow> rec_state \<Rightarrow> (rec_error + rec_plan option) \<times> rec_state" where
  "reconcile_plan ra p st =
     (case (if ra_get ra then find_plan st p else None) of
        None \<Rightarrow> (Inl RecNoRows, st)
      | Some x \<Rightarrow>
          if pl_status x \<noteq> ''executing'' then (Inr (Some x), st)
          else (case reconcile_loop ra (list_recovery_items st p) st of
            (Some (Some e), st1) \<Rightarrow> (Inl e, st1)
          | (Some None, st1) \<Rightarrow> (Inr None, st1)
          | (None, st1) \<Rightarrow>
              let items = list_recovery_items st1 p in
              if items \<noteq> [] \<and> (\<forall>i \<in> set items. it_status i = ''completed'' \<or> it_status i = ''skipped'') then
                (case update_plan_status (ra_plan ra) p ''completed'' st1 of (Inl e, st2) \<Rightarrow> (Inl e, st2) | (Inr y, st2) \<Rightarrow> (Inr (Some y), st2))
              else (Inr (find_plan st1 p), st1)))"

text \<open>Reading a plan reconciles it when it executes and the migration service is wired in.\<close>

definition get_recovery_plan :: "bool \<Rightarrow> reconcile_answers \<Rightarrow> string \<Rightarrow> rec_state \<Rightarrow> (rec_error + rec_plan option) \<times> rec_state" where
  "get_recovery_plan executor ra p st =
     (case (if ra_get ra then find_plan st p else None) of
        None \<Rightarrow> (Inl RecNoRows, st)
      | Some x \<Rightarrow> if pl_status x \<noteq> ''executing'' \<or> \<not> executor then (Inr (Some x), st) else reconcile_plan ra p st)"

text \<open>Listing the plans does the same to every plan that executes, and ends with the first error.\<close>

fun list_recovery_plans :: "bool \<Rightarrow> (string \<Rightarrow> reconcile_answers) \<Rightarrow> rec_plan list \<Rightarrow> rec_state \<Rightarrow> (rec_error + rec_plan option list) \<times> rec_state" where
  "list_recovery_plans executor ra [] st = (Inr [], st)"
| "list_recovery_plans executor ra (x # xs) st =
     (case (if pl_status x \<noteq> ''executing'' \<or> \<not> executor then (Inr (Some x), st) else reconcile_plan (ra (pl_id x)) (pl_id x) st) of
        (Inl e, st1) \<Rightarrow> (Inl e, st1)
      | (Inr y, st1) \<Rightarrow>
          (case list_recovery_plans executor ra xs st1 of
             (Inl e, st2) \<Rightarrow> (Inl e, st2)
           | (Inr ys, st2) \<Rightarrow> (Inr (y # ys), st2)))"

section \<open>A concrete plan\<close>

text \<open>A plan with two servers to restore and one without a backup, and answers with which all goes well or fails.\<close>

definition sample_item :: "string \<Rightarrow> string \<Rightarrow> string \<Rightarrow> rec_item" where
  "sample_item i r s = \<lparr>it_id = i, it_plan = ''p'', it_server = i, it_target = ''t'', it_reservation = r, it_migration = [],
     it_backup = ''b'', it_checksum = ''aa'', it_size = 5, it_status = s\<rparr>"

definition sample_recovery :: "string \<Rightarrow> string \<Rightarrow> rec_state" where
  "sample_recovery s s' = \<lparr>rc_plans = [\<lparr>pl_id = ''p'', pl_node = ''n'', pl_status = s\<rparr>],
     rc_items = [sample_item ''i'' ''r'' s', sample_item ''j'' [] ''skipped'', sample_item ''k'' ''q'' s'], rc_open = [''q'', ''r''], rc_restores = [], rc_marks = []\<rparr>"

definition sample_exec :: "bool \<Rightarrow> exec_answers" where
  "sample_exec b = \<lparr>ea_target = True, ea_listed = Some [\<lparr>nb_name = ''b'', nb_status = ''completed'', nb_size = 5, nb_checksum = ''AA''\<rparr>],
     ea_restored = b, ea_item = True, ea_cancels = (\<lambda>_. True), ea_get = True, ea_items = True, ea_status = True\<rparr>"

definition sample_reconcile :: reconcile_answers where
  "sample_reconcile = \<lparr>ra_get = True, ra_status = (\<lambda>_. None), ra_item = True, ra_confirm = True, ra_cancels = (\<lambda>_. True),
     ra_migrations = (\<lambda>_. True), ra_items = True, ra_plan = True\<rparr>"

definition sample_oks :: plan_oks where
  "sample_oks = \<lparr>po_create = True, po_planning = True, po_servers = True, po_get = True, po_final = True, po_cancels = (\<lambda>_. True),
     po_fail_get = True, po_fail_items = True, po_fail_status = True\<rparr>"

definition sample_planning :: plan_answers where
  "sample_planning = \<lparr>pa_backups = [\<lparr>bk_name = ''b'', bk_server = ''i'', bk_checksum = ''aa'', bk_size = 5, bk_status = ''completed'',
       bk_completed = Some 7, bk_created = 6\<rparr>], pa_place = (\<lambda>_. Some ''t''), pa_reserve = (\<lambda>_. Some ''r''), pa_insert = (\<lambda>_. True),
     pa_insert_failed = (\<lambda>_. True), pa_item = (\<lambda>s. s)\<rparr>"

lemmas sample_recovery_defs = sample_item_def sample_recovery_def sample_exec_def sample_reconcile_def sample_oks_def sample_planning_def

section \<open>Planning covers every server\<close>

text \<open>What one server gets: nothing to restore from, or a target, a reservation and a verified backup.\<close>

definition item_planned :: "plan_answers \<Rightarrow> string \<Rightarrow> rec_item \<Rightarrow> bool" where
  "item_planned pa p i \<longleftrightarrow> it_plan i = p \<and> it_migration i = [] \<and>
     (case latest_verified_backup (pa_backups pa) (it_server i) of
        None \<Rightarrow> it_status i = ''skipped'' \<and> it_reservation i = []
      | Some b \<Rightarrow> it_status i = ''planned'' \<and> pa_place pa (it_server i) = Some (it_target i) \<and>
          pa_reserve pa (it_server i) = Some (it_reservation i) \<and> it_backup i = bk_name b \<and> it_checksum i = bk_checksum b \<and> it_size i = bk_size b)"

lemma latest_verified:
  assumes "latest_verified_backup rows srv = Some b"
  shows "b \<in> set rows \<and> bk_server b = srv \<and> bk_status b = ''completed'' \<and> bk_checksum b \<noteq> [] \<and> 0 < bk_size b"
proof -
  let ?xs = "filter (\<lambda>b. bk_server b = srv \<and> bk_status b = ''completed'' \<and> bk_checksum b \<noteq> [] \<and> 0 < bk_size b) rows"
  obtain rest where "slice_stable newer_backup ?xs = b # rest"
    using assms by (auto simp: latest_verified_backup_def split: list.splits)
  then have "b \<in> set (slice_stable newer_backup ?xs)" by simp
  then show ?thesis by simp
qed

lemma plan_server_item_ok:
  assumes "plan_server_item pa p srv st = (Inr u, st')"
  shows "\<exists>i. item_planned pa p i \<and> it_server i = srv \<and> rc_items st' = rc_items st @ [i] \<and> rc_plans st' = rc_plans st \<and>
    set (rc_open st') = set (rc_open st) \<union> (if it_reservation i = [] \<and> it_status i = ''skipped'' then {} else {it_reservation i})"
  using assms
  by (intro exI [of _ "last (rc_items st')"])
    (auto simp: plan_server_item_def create_recovery_item_def blank_item_def item_planned_def split: option.splits if_splits)

lemma plan_items_ok:
  assumes "plan_items pa p srvs st = (False, st')"
  shows "\<exists>js. rc_items st' = rc_items st @ js \<and> map it_server js = srvs \<and> (\<forall>i \<in> set js. item_planned pa p i) \<and> rc_plans st' = rc_plans st \<and>
    set (rc_open st) \<subseteq> set (rc_open st') \<and> (\<forall>i \<in> set js. it_status i = ''planned'' \<longrightarrow> it_reservation i \<in> set (rc_open st'))"
  using assms
proof (induction srvs arbitrary: st)
  case (Cons srv srvs)
  from Cons.prems obtain u st1 where 1: "plan_server_item pa p srv st = (Inr u, st1)" "plan_items pa p srvs st1 = (False, st')"
    by (auto split: prod.splits sum.splits)
  obtain i where i: "item_planned pa p i" "it_server i = srv" "rc_items st1 = rc_items st @ [i]" "rc_plans st1 = rc_plans st"
      "set (rc_open st1) = set (rc_open st) \<union> (if it_reservation i = [] \<and> it_status i = ''skipped'' then {} else {it_reservation i})"
    using plan_server_item_ok [OF 1(1)] by blast
  obtain js where "rc_items st' = rc_items st1 @ js" "map it_server js = srvs" "\<forall>i \<in> set js. item_planned pa p i" "rc_plans st' = rc_plans st1"
      "set (rc_open st1) \<subseteq> set (rc_open st')" "\<forall>i \<in> set js. it_status i = ''planned'' \<longrightarrow> it_reservation i \<in> set (rc_open st')"
    using Cons.IH [OF 1(2)] by blast
  then show ?case using i by (intro exI [of _ "i # js"]) (auto split: if_splits)
qed simp

lemma update_plan_status_ok:
  assumes "update_plan_status ok p status st = (Inr x, st')"
  shows "pl_id x = p \<and> pl_status x = status \<and> rc_items st' = rc_items st \<and> rc_open st' = rc_open st \<and> rc_restores st' = rc_restores st \<and>
    find_plan st' p = Some x"
  using assms by (auto simp: update_plan_status_def Let_def find_plan_def find_Some_iff split: if_splits option.splits)

text \<open>A plan that is reported as planned covers exactly the affected servers of the node, in their order: a
  server without a completed backup with checksum and size is skipped, and every other one has a target chosen by
  the scheduler, an open reservation there and the backup to restore.\<close>

theorem planned_covers_servers:
  assumes "create_plan ok pa nodes servers p n st = (Inr x, st')" "pl_status x = ''planned''" "list_recovery_items st p = []"
  shows "map it_server (list_recovery_items st' p) = affected_servers servers \<and>
    (\<forall>i \<in> set (list_recovery_items st' p). item_planned pa p i \<and>
       (it_status i = ''planned'' \<longrightarrow> it_reservation i \<in> set (rc_open st') \<and> it_checksum i \<noteq> [] \<and> 0 < it_size i))"
proof -
  obtain y where y: "recovery_evaluate_node n nodes = Inr y" using assms(1) by (auto simp: create_plan_def split: sum.splits)
  obtain u st1 where 1: "create_recovery_plan (po_create ok) p (nd_id y) st = (Inr u, st1)"
    using assms(1) y by (auto simp: create_plan_def split: sum.splits prod.splits)
  obtain z st2 where 2: "update_plan_status (po_planning ok) p ''planning'' st1 = (Inr z, st2)"
    using assms(1) y 1 by (auto simp: create_plan_def split: sum.splits prod.splits)
  have items: "rc_items st2 = rc_items st" using 1 update_plan_status_ok [OF 2] by (auto simp: create_recovery_plan_def split: if_splits)
  have nf: "fail_recovery_plan c a b d p s \<noteq> (Inr x, st')" for c a b d s
    using assms(2) update_plan_status_ok by (fastforce simp: fail_recovery_plan_def Let_def)
  show ?thesis
  proof (cases "affected_servers servers = []")
    case True
    then have "update_plan_status (po_final ok) p ''planned'' st2 = (Inr x, st')"
      using assms(1) y 1 2 by (auto simp: create_plan_def Let_def nf split: if_splits)
    then show ?thesis using True assms(3) items update_plan_status_ok by (auto simp: list_recovery_items_def)
  next
    case False
    obtain bad st3 where 3: "plan_items pa p (affected_servers servers) st2 = (bad, st3)" by fastforce
    have r: "bad = False" "update_plan_status (po_final ok) p ''planned'' st3 = (Inr x, st')"
      using assms(1) y 1 2 3 False by (auto simp: create_plan_def Let_def nf split: if_splits)
    obtain js where js: "rc_items st3 = rc_items st2 @ js" "map it_server js = affected_servers servers" "\<forall>i \<in> set js. item_planned pa p i"
        "\<forall>i \<in> set js. it_status i = ''planned'' \<longrightarrow> it_reservation i \<in> set (rc_open st3)"
      using plan_items_ok [OF 3 [unfolded r(1)]] by blast
    have l: "list_recovery_items st' p = js"
      using js(1,3) items assms(3) update_plan_status_ok [OF r(2)]
      by (auto simp: list_recovery_items_def item_planned_def filter_id_conv)
    have "it_checksum i \<noteq> [] \<and> 0 < it_size i" if "item_planned pa p i" "it_status i = ''planned''" for i
      using that latest_verified by (fastforce simp: item_planned_def split: option.splits)
    then show ?thesis using js l update_plan_status_ok [OF r(2)] by simp
  qed
qed

text \<open>An instance: one of two servers has a backup.\<close>

theorem planned_covers_servers_witness:
  "map it_server (list_recovery_items (snd (create_plan sample_oks sample_planning (\<lambda>n. Some \<lparr>nd_id = n, nd_heartbeat = ''offline'', nd_actual = []\<rparr>)
      [(''i'', ''running''), (''j'', []), (''k'', ''deleted'')] ''p'' ''n'' \<lparr>rc_plans = [], rc_items = [], rc_open = [], rc_restores = [], rc_marks = []\<rparr>)) ''p'') = [''i'', ''j'']"
proof -
  let ?r = "create_plan sample_oks sample_planning (\<lambda>n. Some \<lparr>nd_id = n, nd_heartbeat = ''offline'', nd_actual = []\<rparr>)
      [(''i'', ''running''), (''j'', []), (''k'', ''deleted'')] ''p'' ''n'' \<lparr>rc_plans = [], rc_items = [], rc_open = [], rc_restores = [], rc_marks = []\<rparr>"
  have r: "?r = (Inr \<lparr>pl_id = ''p'', pl_node = ''n'', pl_status = ''planned''\<rparr>, snd ?r)" by code_simp
  show ?thesis using planned_covers_servers [OF r] by (simp add: affected_servers_def list_recovery_items_def)
qed

section \<open>Executing a plan\<close>

lemma find_plan_map_status:
  "find (\<lambda>x. pl_id x = p) (map (\<lambda>x. if pl_id x = q then x\<lparr>pl_status := s\<rparr> else x) xs) =
     map_option (\<lambda>x. if pl_id x = q then x\<lparr>pl_status := s\<rparr> else x) (find (\<lambda>x. pl_id x = p) xs)"
  by (induction xs) auto

lemma find_plan_id: "find_plan st p = Some x \<Longrightarrow> pl_id x = p"
  by (auto simp: find_plan_def find_Some_iff)

lemma update_plan_status_found:
  "find_plan st p = Some x \<Longrightarrow> fst (update_plan_status True p s st) = Inr (x\<lparr>pl_status := s\<rparr>) \<and>
     find_plan (snd (update_plan_status True p s st)) p = Some (x\<lparr>pl_status := s\<rparr>)"
  using find_plan_id [of st p x] by (simp add: update_plan_status_def find_plan_def Let_def find_plan_map_status)

lemma update_plan_status_items [simp]:
  "rc_items (snd (update_plan_status ok p s st)) = rc_items st"
  "rc_open (snd (update_plan_status ok p s st)) = rc_open st"
  "rc_restores (snd (update_plan_status ok p s st)) = rc_restores st"
  by (auto simp: update_plan_status_def Let_def split: option.splits)

lemma execute_begin_some:
  assumes "execute_begin ok1 ok2 p st = (Inr (Some ex), st1)"
  shows "start_recovery_plan True p st = (Inr (list_recovery_items st1 p), st1) \<and> list_recovery_items st1 p \<noteq> [] \<and>
    ex = \<lparr>ex_plan = p, ex_items = filter (\<lambda>i. it_status i = ''executing'') (list_recovery_items st1 p)\<rparr>"
  using assms
  by (auto simp: execute_begin_def start_recovery_plan_def Let_def split: prod.splits sum.splits option.splits if_splits)

lemma start_recovery_plan_again:
  assumes "start_recovery_plan True p st = (Inr items, st1)"
  shows "start_recovery_plan True p st1 = (Inr items, st1)"
proof -
  obtain x where x: "find_plan st p = Some x"
      "st1 = st\<lparr>rc_plans := map (\<lambda>x. if pl_id x = p then x\<lparr>pl_status := ''executing''\<rparr> else x) (rc_plans st),
              rc_items := map (\<lambda>i. if it_plan i = p \<and> it_status i = ''planned'' then i\<lparr>it_status := ''executing''\<rparr> else i) (rc_items st)\<rparr>"
      "items = list_recovery_items st1 p"
    using assms by (auto simp: start_recovery_plan_def Let_def split: option.splits if_splits)
  have "find_plan st1 p = Some (x\<lparr>pl_status := ''executing''\<rparr>)"
    using x(1) find_plan_id [OF x(1)] by (simp add: x(2) find_plan_def find_plan_map_status)
  moreover have "map (\<lambda>x. if pl_id x = p then x\<lparr>pl_status := ''executing''\<rparr> else x) (rc_plans st1) = rc_plans st1"
    by (auto simp: x(2))
  moreover have "map (\<lambda>i. if it_plan i = p \<and> it_status i = ''planned'' then i\<lparr>it_status := ''executing''\<rparr> else i) (rc_items st1) = rc_items st1"
    by (auto simp: x(2))
  ultimately show ?thesis by (simp add: start_recovery_plan_def x(3))
qed

text \<open>Starting a plan does not claim it: a second execution of a plan that is being executed is accepted,
  changes nothing and is handed the very same items, so the same item is restored once by each.\<close>

theorem plan_started_twice:
  assumes "execute_begin ok1 ok2 p st = (Inr (Some ex), st1)" "ex_items ex = i # rest"
    "verify_and_restore (ea_target ea) (ea_listed ea) (ea_restored ea) i" "ea_item ea"
  shows "execute_begin True True p st1 = (Inr (Some ex), st1) \<and>
    rc_restores (snd (execute_step ea ex (snd (execute_step ea ex st1)))) = rc_restores st1 @ [it_id i, it_id i]"
proof
  have s: "start_recovery_plan True p st1 = (Inr (list_recovery_items st1 p), st1)" "list_recovery_items st1 p \<noteq> []"
      "ex = \<lparr>ex_plan = p, ex_items = filter (\<lambda>i. it_status i = ''executing'') (list_recovery_items st1 p)\<rparr>"
    using execute_begin_some [OF assms(1)] start_recovery_plan_again [of p st _ st1] by blast+
  then show "execute_begin True True p st1 = (Inr (Some ex), st1)" by (simp add: execute_begin_def)
  show "rc_restores (snd (execute_step ea ex (snd (execute_step ea ex st1)))) = rc_restores st1 @ [it_id i, it_id i]"
  proof -
    have step: "rc_restores (snd (execute_step ea ex t)) = rc_restores t @ [it_id i]" for t
      using assms(2-4) by (simp add: execute_step_def update_item_status_def)
    show ?thesis by (simp add: step)
  qed
qed

text \<open>An instance: both executions restore the first item.\<close>

theorem plan_started_twice_witness:
  "rc_restores (snd (execute_step (sample_exec True) \<lparr>ex_plan = ''p'', ex_items = [sample_item ''i'' ''r'' ''executing'', sample_item ''k'' ''q'' ''executing'']\<rparr>
     (snd (execute_step (sample_exec True) \<lparr>ex_plan = ''p'', ex_items = [sample_item ''i'' ''r'' ''executing'', sample_item ''k'' ''q'' ''executing'']\<rparr>
       (sample_recovery ''executing'' ''executing''))))) = [''i'', ''i'']"
proof -
  have b: "execute_begin True True ''p'' (sample_recovery ''planned'' ''planned'') = (Inr (Some \<lparr>ex_plan = ''p'',
      ex_items = [sample_item ''i'' ''r'' ''executing'', sample_item ''k'' ''q'' ''executing'']\<rparr>), sample_recovery ''executing'' ''executing'')"
    by code_simp
  have v: "verify_and_restore (ea_target (sample_exec True)) (ea_listed (sample_exec True)) (ea_restored (sample_exec True)) (sample_item ''i'' ''r'' ''executing'')"
    by code_simp
  show ?thesis using plan_started_twice [OF b _ v] by (simp add: sample_recovery_defs)
qed

text \<open>Failing a plan: what is left open, and the statuses.\<close>

lemma fold_cancel_open:
  "set (fold (\<lambda>i. if it_status i = ''failed'' then id else cancel_reservation_of c i) is rs) =
     {r \<in> set rs. \<not> (\<exists>i \<in> set is. it_status i \<noteq> ''failed'' \<and> it_reservation i = r \<and> r \<noteq> [] \<and> c r)}"
proof (induction "is" arbitrary: rs)
  case (Cons i "is")
  show ?case by (auto simp: Cons.IH cancel_reservation_of_def)
qed simp

lemma fail_recovery_plan_items [simp]:
  "rc_items (snd (fail_recovery_plan c a b d p st)) =
     (if a \<and> find_plan st p \<noteq> None \<and> b
      then map (\<lambda>i. if it_plan i = p \<and> open_status (it_status i) then i\<lparr>it_status := ''failed''\<rparr> else i) (rc_items st)
      else rc_items st)"
  "set (rc_open (snd (fail_recovery_plan c a b d p st))) =
     (if a \<and> find_plan st p \<noteq> None
      then {r \<in> set (rc_open st). \<not> (\<exists>i \<in> set (list_recovery_items st p). it_status i \<noteq> ''failed'' \<and> it_reservation i = r \<and> r \<noteq> [] \<and> c r)}
      else set (rc_open st))"
  by (cases "find_plan st p"; simp add: fail_recovery_plan_def update_items_for_plan_def Let_def fold_cancel_open)+

lemma fail_recovery_plan_status:
  "find_plan st p = Some x \<Longrightarrow> find_plan (snd (fail_recovery_plan c a b True p st)) p = Some (x\<lparr>pl_status := ''failed''\<rparr>)"
  using update_plan_status_found [of _ p x]
  by (simp add: fail_recovery_plan_def update_items_for_plan_def Let_def find_plan_def)

text \<open>When the restore of an item fails, the item is marked failed before its plan is: the reservations of the
  other items of the plan are cancelled, and that of the item itself stays open on its target.\<close>

theorem failed_restore_keeps_reservation:
  assumes "ex_items ex = i # rest" "\<not> verify_and_restore (ea_target ea) (ea_listed ea) (ea_restored ea) i"
    "ea_item ea" "ea_get ea" "ea_cancels ea = (\<lambda>_. True)" "find_plan st (ex_plan ex) \<noteq> None" "i \<in> set (rc_items st)"
    "it_reservation i \<in> set (rc_open st)"
    "\<forall>j \<in> set (rc_items st). it_id j \<noteq> it_id i \<longrightarrow> it_reservation j \<noteq> it_reservation i"
  shows "it_reservation i \<in> set (rc_open (snd (execute_step ea ex st))) \<and>
    (\<forall>j \<in> set (list_recovery_items st (ex_plan ex)). it_id j \<noteq> it_id i \<and> it_status j \<noteq> ''failed'' \<and> it_reservation j \<noteq> [] \<longrightarrow>
       it_reservation j \<notin> set (rc_open (snd (execute_step ea ex st))))"
proof -
  let ?f = "\<lambda>x. if it_id x = it_id i then x\<lparr>it_status := ''failed''\<rparr> else x"
  let ?st1 = "st\<lparr>rc_items := map ?f (rc_items st)\<rparr>"
  have step: "snd (execute_step ea ex st) =
      snd (fail_recovery_plan (\<lambda>_. True) True (ea_items ea) (ea_status ea) (ex_plan ex) ?st1)"
    using assms(1-5,7) by (auto simp: execute_step_def update_item_status_def)
  have plan: "find_plan ?st1 (ex_plan ex) \<noteq> None" using assms(6) by (simp add: find_plan_def)
  have "it_status j = ''failed''" if "j \<in> set (list_recovery_items ?st1 (ex_plan ex))" "it_reservation j = it_reservation i" for j
    using that assms(9) by (auto simp: list_recovery_items_def split: if_splits)
  then have 1: "it_reservation i \<in> set (rc_open (snd (execute_step ea ex st)))"
    using assms(8) plan by (auto simp: step)
  have "j \<in> set (list_recovery_items ?st1 (ex_plan ex))"
    if "j \<in> set (list_recovery_items st (ex_plan ex))" "it_id j \<noteq> it_id i" for j
    using that by (force simp: list_recovery_items_def)
  then show ?thesis using 1 plan by (auto simp: step)
qed

text \<open>The restore of the first item fails.\<close>

theorem failed_restore_keeps_reservation_witness:
  "''r'' \<in> set (rc_open (snd (execute_step (sample_exec False) \<lparr>ex_plan = ''p'', ex_items = [sample_item ''i'' ''r'' ''executing'']\<rparr>
     (sample_recovery ''executing'' ''executing''))))"
proof -
  have v: "\<not> verify_and_restore (ea_target (sample_exec False)) (ea_listed (sample_exec False)) (ea_restored (sample_exec False)) (sample_item ''i'' ''r'' ''executing'')"
    by code_simp
  show ?thesis
    using failed_restore_keeps_reservation [OF _ v, of "\<lparr>ex_plan = ''p'', ex_items = [sample_item ''i'' ''r'' ''executing'']\<rparr>" "[]" "sample_recovery ''executing'' ''executing''"]
    by (auto simp: sample_recovery_defs find_plan_def)
qed

section \<open>Reading a plan that is being executed\<close>

lemma reconcile_loop_fails:
  assumes "i \<in> set is" "it_status i = ''executing''"
    "\<forall>j \<in> set is. it_migration j = []"
  shows "\<exists>j \<in> set is. it_status j = ''executing'' \<and> reconcile_loop ra is st = (Some (Some MigrationFailed), snd (fail_recovery_item ra j st))"
  using assms by (induction "is") (fastforce simp: fail_recovery_item_def Let_def)+

lemma fail_recovery_item_effect:
  assumes "find_plan st (it_plan j) = Some x" "ra_get ra" "ra_item ra" "ra_items ra" "ra_plan ra"
  shows "find_plan (snd (fail_recovery_item ra j st)) (it_plan j) = Some (x\<lparr>pl_status := ''failed''\<rparr>) \<and>
    (\<forall>i \<in> set (list_recovery_items (snd (fail_recovery_item ra j st)) (it_plan j)). \<not> open_status (it_status i))"
proof -
  let ?st1 = "st\<lparr>rc_open := cancel_reservation_of (ra_cancels ra) j (rc_open st), rc_marks := rc_marks st @ migration_marks ''failed'' [j],
                 rc_items := map (\<lambda>x. if it_id x = it_id j then x\<lparr>it_status := ''failed''\<rparr> else x) (rc_items st)\<rparr>"
  have p: "find_plan ?st1 (it_plan j) = Some x" using assms(1) by (simp add: find_plan_def)
  have e: "snd (fail_recovery_item ra j st) = snd (fail_recovery_plan (ra_cancels ra) True True True (it_plan j) ?st1)"
    using assms by (simp add: fail_recovery_item_def update_item_status_def Let_def)
  show ?thesis using fail_recovery_plan_status [OF p] p by (auto simp: e list_recovery_items_def open_status_def)
qed

text \<open>Reading a plan while its items are being restored fails it: an item that is restored from a backup has
  no migration, which the reconciliation takes for a failure, so the plan and all its open items become failed
  under the running execution.\<close>

theorem reading_fails_execution:
  assumes "find_plan st p = Some x" "pl_status x = ''executing''" "i \<in> set (list_recovery_items st p)" "it_status i = ''executing''"
    "\<forall>j \<in> set (list_recovery_items st p). it_migration j = []"
    "ra_get ra" "ra_item ra" "ra_items ra" "ra_plan ra"
  shows "fst (get_recovery_plan True ra p st) = Inl MigrationFailed \<and>
    find_plan (snd (get_recovery_plan True ra p st)) p = Some (x\<lparr>pl_status := ''failed''\<rparr>) \<and>
    (\<forall>i \<in> set (list_recovery_items (snd (get_recovery_plan True ra p st)) p). \<not> open_status (it_status i))"
proof -
  obtain j where j: "j \<in> set (list_recovery_items st p)"
      "reconcile_loop ra (list_recovery_items st p) st = (Some (Some MigrationFailed), snd (fail_recovery_item ra j st))"
    using reconcile_loop_fails [OF assms(3,4) assms(5), of ra st] by blast
  have e: "get_recovery_plan True ra p st = (Inl MigrationFailed, snd (fail_recovery_item ra j st))"
    using assms(1,2,6) j(2) by (simp add: get_recovery_plan_def reconcile_plan_def)
  have p: "it_plan j = p" using j(1) by (simp add: list_recovery_items_def)
  show ?thesis using fail_recovery_item_effect [of st j x ra, unfolded p, OF assms(1,6-9)] by (simp add: e)
qed

text \<open>An instance: a plan with two items being restored.\<close>

theorem reading_fails_execution_witness:
  "fst (get_recovery_plan True sample_reconcile ''p'' (sample_recovery ''executing'' ''executing'')) = Inl MigrationFailed"
  using reading_fails_execution [where st = "sample_recovery ''executing'' ''executing''" and p = "''p''" and
      i = "sample_item ''i'' ''r'' ''executing''" and x = "\<lparr>pl_id = ''p'', pl_node = ''n'', pl_status = ''executing''\<rparr>" and ra = sample_reconcile]
  by (simp add: sample_recovery_defs find_plan_def list_recovery_items_def)

section \<open>An execution that is not disturbed\<close>

definition mark_item :: "string \<Rightarrow> string \<Rightarrow> rec_item \<Rightarrow> rec_item" where
  "mark_item i s x = (if it_id x = i then x\<lparr>it_status := s\<rparr> else x)"

lemma mark_item_id [simp]: "it_id (mark_item i s x) = it_id x"
  by (simp add: mark_item_def)

lemma execute_step_restores:
  assumes "verify_and_restore (ea_target ea) (ea_listed ea) (ea_restored ea) i" "ea_item ea" "i \<in> it_id -` it_id ` set (rc_items st)"
  shows "execute_step ea \<lparr>ex_plan = p, ex_items = i # is\<rparr> st = (Some \<lparr>ex_plan = p, ex_items = is\<rparr>,
    st\<lparr>rc_restores := rc_restores st @ [it_id i], rc_items := map (mark_item (it_id i) ''restored'') (rc_items st)\<rparr>)"
  using assms by (auto simp: execute_step_def update_item_status_def mark_item_def fun_eq_iff)

lemma execute_loop_restores:
  assumes "\<And>i. i \<in> set is \<Longrightarrow> verify_and_restore (ea_target (ea (it_id i))) (ea_listed (ea (it_id i))) (ea_restored (ea (it_id i))) i"
    "\<And>k. ea_item (ea k)" "it_id ` set is \<subseteq> it_id ` set (rc_items st)"
  shows "execute_loop ea p is st = snd (execute_step (ea []) \<lparr>ex_plan = p, ex_items = []\<rparr>
    (st\<lparr>rc_restores := rc_restores st @ map it_id is,
        rc_items := map (\<lambda>x. if it_id x \<in> it_id ` set is then x\<lparr>it_status := ''restored''\<rparr> else x) (rc_items st)\<rparr>))"
  using assms
proof (induction "is" arbitrary: st)
  case (Cons i "is")
  let ?st1 = "st\<lparr>rc_restores := rc_restores st @ [it_id i], rc_items := map (mark_item (it_id i) ''restored'') (rc_items st)\<rparr>"
  have ids: "it_id ` set (rc_items ?st1) = it_id ` set (rc_items st)"
    by (simp add: image_image)
  have "execute_step (ea (it_id i)) \<lparr>ex_plan = p, ex_items = i # is\<rparr> st = (Some \<lparr>ex_plan = p, ex_items = is\<rparr>, ?st1)"
    using Cons.prems by (intro execute_step_restores) auto
  then have "execute_loop ea p (i # is) st = execute_loop ea p is ?st1" by simp
  also have "\<dots> = snd (execute_step (ea []) \<lparr>ex_plan = p, ex_items = []\<rparr> (?st1\<lparr>rc_restores := rc_restores ?st1 @ map it_id is,
        rc_items := map (\<lambda>x. if it_id x \<in> it_id ` set is then x\<lparr>it_status := ''restored''\<rparr> else x) (rc_items ?st1)\<rparr>))"
    using Cons.prems ids by (intro Cons.IH) auto
  also have "map (\<lambda>x. if it_id x \<in> it_id ` set is then x\<lparr>it_status := ''restored''\<rparr> else x) (rc_items ?st1) =
      map (\<lambda>x. if it_id x \<in> it_id ` set (i # is) then x\<lparr>it_status := ''restored''\<rparr> else x) (rc_items st)"
    by (auto simp: mark_item_def)
  finally show ?case by simp
qed simp

lemma finish_restored:
  assumes "find_plan st p = Some x" "\<forall>i \<in> set (list_recovery_items st p). it_status i = ''restored'' \<or> it_status i = ''skipped''"
    "\<exists>i \<in> set (list_recovery_items st p). it_status i = ''restored''"
  shows "find_plan (snd (finish_backup_restore True True p st)) p = Some (x\<lparr>pl_status := ''restored''\<rparr>) \<and>
    rc_items (snd (finish_backup_restore True True p st)) = rc_items st \<and> rc_restores (snd (finish_backup_restore True True p st)) = rc_restores st"
  using assms update_plan_status_found [OF assms(1)] by (auto simp: finish_backup_restore_def Let_def)

lemma start_effect:
  assumes "start_recovery_plan True p st = (Inr items, st1)" "find_plan st p = Some x"
  shows "find_plan st1 p = Some (x\<lparr>pl_status := ''executing''\<rparr>) \<and>
    rc_items st1 = map (\<lambda>i. if it_plan i = p \<and> it_status i = ''planned'' then i\<lparr>it_status := ''executing''\<rparr> else i) (rc_items st) \<and>
    rc_restores st1 = rc_restores st"
  using assms find_plan_id [OF assms(2)]
  by (auto simp: start_recovery_plan_def Let_def find_plan_def find_plan_map_status split: if_splits)

text \<open>The items in the state of being restored, and their rows once all of them are.\<close>

abbreviation going :: "string \<Rightarrow> rec_item \<Rightarrow> rec_item" where
  "going p i \<equiv> if it_plan i = p \<and> it_status i = ''planned'' then i\<lparr>it_status := ''executing''\<rparr> else i"

abbreviation gone :: "string \<Rightarrow> rec_item \<Rightarrow> rec_item" where
  "gone p i \<equiv> if it_plan i = p \<and> it_status i = ''planned'' then i\<lparr>it_status := ''restored''\<rparr> else i"

lemma execution_items:
  assumes "execute_begin ok1 ok2 p st = (Inr (Some ex), st1)" "find_plan st p = Some x"
    "\<forall>i \<in> set (list_recovery_items st p). it_status i = ''planned'' \<or> it_status i = ''skipped''"
  shows "ex_items ex = map (going p) (filter (\<lambda>i. it_plan i = p \<and> it_status i = ''planned'') (rc_items st))"
proof -
  have b: "start_recovery_plan True p st = (Inr (list_recovery_items st1 p), st1)"
      "ex = \<lparr>ex_plan = p, ex_items = filter (\<lambda>i. it_status i = ''executing'') (list_recovery_items st1 p)\<rparr>"
    using execute_begin_some [OF assms(1)] by auto
  have "filter (\<lambda>i. it_plan (going p i) = p \<and> it_status (going p i) = ''executing'') (rc_items st) =
      filter (\<lambda>i. it_plan i = p \<and> it_status i = ''planned'') (rc_items st)"
    using assms(3) by (intro filter_cong) (auto simp: list_recovery_items_def)
  then show ?thesis using start_effect [OF b(1) assms(2)] by (simp add: b(2) list_recovery_items_def filter_map comp_def)
qed

lemma execution_ids:
  assumes "distinct (map it_id items)" "y \<in> set items"
  shows "it_id y \<in> it_id ` set (map (going p) (filter (\<lambda>i. it_plan i = p \<and> it_status i = ''planned'') items)) \<longleftrightarrow>
    it_plan y = p \<and> it_status y = ''planned''"
proof -
  let ?planned = "filter (\<lambda>i. it_plan i = p \<and> it_status i = ''planned'') items"
  have go: "it_id (going p i) = it_id i" for i by simp
  have "it_id ` set (map (going p) ?planned) = it_id ` set ?planned" by (simp only: set_map image_image go)
  moreover have "it_id y \<in> it_id ` set ?planned \<longleftrightarrow> y \<in> set ?planned"
    using assms by (intro inj_on_image_mem_iff [of it_id "set items"]) (auto simp: distinct_map)
  ultimately show ?thesis using assms(2) by simp
qed

lemma list_gone:
  "list_recovery_items (st\<lparr>rc_restores := rs, rc_items := map (gone p) items\<rparr>) p =
     map (\<lambda>i. if it_status i = ''planned'' then i\<lparr>it_status := ''restored''\<rparr> else i) (filter (\<lambda>i. it_plan i = p) items)"
  by (induction items) (auto simp: list_recovery_items_def)

lemma undisturbed_run:
  assumes "find_plan st p = Some x" "distinct (map it_id (rc_items st))"
    "\<forall>i \<in> set (list_recovery_items st p). it_status i = ''planned'' \<or> it_status i = ''skipped''"
    "execute_begin ok1 ok2 p st = (Inr (Some ex), st1)"
    "\<And>i. i \<in> set (ex_items ex) \<Longrightarrow> verify_and_restore (ea_target (ea (it_id i))) (ea_listed (ea (it_id i))) (ea_restored (ea (it_id i))) i"
    "\<And>k. ea_item (ea k) \<and> ea_get (ea k) \<and> ea_status (ea k)"
  shows "execute_loop ea p (ex_items ex) st1 = snd (finish_backup_restore True True p
    (st1\<lparr>rc_restores := rc_restores st @ map it_id (ex_items ex), rc_items := map (gone p) (rc_items st)\<rparr>))"
proof -
  have b: "start_recovery_plan True p st = (Inr (list_recovery_items st1 p), st1)"
      "ex_items ex = filter (\<lambda>i. it_status i = ''executing'') (list_recovery_items st1 p)"
    using execute_begin_some [OF assms(4)] by auto
  note s = start_effect [OF b(1) assms(1)] and items = execution_items [OF assms(4,1,3)]
  have marked: "map (\<lambda>i. if it_id i \<in> it_id ` set (ex_items ex) then i\<lparr>it_status := ''restored''\<rparr> else i) (rc_items st1) = map (gone p) (rc_items st)"
    using execution_ids [OF assms(2), where p = p] by (simp add: s items)
  have "it_id ` set (ex_items ex) \<subseteq> it_id ` set (rc_items st1)" by (auto simp: b(2) list_recovery_items_def)
  then have "execute_loop ea p (ex_items ex) st1 = snd (execute_step (ea []) \<lparr>ex_plan = p, ex_items = []\<rparr>
      (st1\<lparr>rc_restores := rc_restores st1 @ map it_id (ex_items ex),
        rc_items := map (\<lambda>i. if it_id i \<in> it_id ` set (ex_items ex) then i\<lparr>it_status := ''restored''\<rparr> else i) (rc_items st1)\<rparr>))"
    using assms(5,6) by (intro execute_loop_restores) auto
  then show ?thesis using assms(6) conjunct2 [OF conjunct2 [OF s]] unfolding marked by (simp add: execute_step_def)
qed

text \<open>C22: An execution that nothing disturbs restores the plan: when the backup of every planned item is found on
  its target and restored, each planned item is restored exactly once, in the order of the plan, the skipped items
  stay skipped, and the plan ends restored.\<close>

theorem execution_restores_all:
  assumes "find_plan st p = Some x" "distinct (map it_id (rc_items st))"
    "\<forall>i \<in> set (list_recovery_items st p). it_status i = ''planned'' \<or> it_status i = ''skipped''"
    "execute_begin ok1 ok2 p st = (Inr (Some ex), st1)" "ex_items ex \<noteq> []"
    "\<And>i. i \<in> set (ex_items ex) \<Longrightarrow> verify_and_restore (ea_target (ea (it_id i))) (ea_listed (ea (it_id i))) (ea_restored (ea (it_id i))) i"
    "\<And>k. ea_item (ea k) \<and> ea_get (ea k) \<and> ea_status (ea k)"
  shows "find_plan (execute_loop ea p (ex_items ex) st1) p = Some (x\<lparr>pl_status := ''restored''\<rparr>) \<and>
    rc_restores (execute_loop ea p (ex_items ex) st1) = rc_restores st @ map it_id (filter (\<lambda>i. it_status i = ''planned'') (list_recovery_items st p)) \<and>
    list_recovery_items (execute_loop ea p (ex_items ex) st1) p =
      map (\<lambda>i. if it_status i = ''planned'' then i\<lparr>it_status := ''restored''\<rparr> else i) (list_recovery_items st p)"
proof -
  let ?st2 = "st1\<lparr>rc_restores := rc_restores st @ map it_id (ex_items ex), rc_items := map (gone p) (rc_items st)\<rparr>"
  have s: "find_plan st1 p = Some (x\<lparr>pl_status := ''executing''\<rparr>)"
    using execute_begin_some [OF assms(4)] start_effect [OF _ assms(1)] by blast
  note items = execution_items [OF assms(4,1,3)] and run = undisturbed_run [OF assms(1-4,6,7)]
  have list: "list_recovery_items ?st2 p = map (\<lambda>i. if it_status i = ''planned'' then i\<lparr>it_status := ''restored''\<rparr> else i) (list_recovery_items st p)"
    by (simp add: list_gone) (simp add: list_recovery_items_def)
  have "find_plan ?st2 p = Some (x\<lparr>pl_status := ''executing''\<rparr>)" using s by (simp add: find_plan_def)
  moreover have "\<forall>i \<in> set (list_recovery_items ?st2 p). it_status i = ''restored'' \<or> it_status i = ''skipped''"
    using assms(3) unfolding list by auto
  moreover have "\<exists>i \<in> set (list_recovery_items ?st2 p). it_status i = ''restored''"
  proof -
    obtain i where "i \<in> set (rc_items st)" "it_plan i = p" "it_status i = ''planned''"
      using assms(5) unfolding items by (auto simp: filter_empty_conv)
    then have "i\<lparr>it_status := ''restored''\<rparr> \<in> set (list_recovery_items ?st2 p)"
      unfolding list by (auto simp: list_recovery_items_def intro!: rev_image_eqI [of i])
    then show ?thesis by (rule bexI [rotated]) simp
  qed
  ultimately have f: "find_plan (snd (finish_backup_restore True True p ?st2)) p = Some ((x\<lparr>pl_status := ''executing''\<rparr>)\<lparr>pl_status := ''restored''\<rparr>)"
      "rc_items (snd (finish_backup_restore True True p ?st2)) = rc_items ?st2" "rc_restores (snd (finish_backup_restore True True p ?st2)) = rc_restores ?st2"
    using finish_restored [of ?st2 p] by blast+
  have l: "list_recovery_items (execute_loop ea p (ex_items ex) st1) p = list_recovery_items ?st2 p"
    by (simp only: run list_recovery_items_def f(2))
  have "map it_id (ex_items ex) = map it_id (filter (\<lambda>i. it_status i = ''planned'') (list_recovery_items st p))"
    by (simp add: items list_recovery_items_def conj_commute)
  then have "rc_restores ?st2 = rc_restores st @ map it_id (filter (\<lambda>i. it_status i = ''planned'') (list_recovery_items st p))"
    by simp
  then have r: "rc_restores (execute_loop ea p (ex_items ex) st1) =
      rc_restores st @ map it_id (filter (\<lambda>i. it_status i = ''planned'') (list_recovery_items st p))"
    by (simp only: run f)
  have "find_plan (execute_loop ea p (ex_items ex) st1) p = Some (x\<lparr>pl_status := ''restored''\<rparr>)" by (simp only: run f) simp
  then show ?thesis using r l [unfolded list] by (intro conjI)
qed

text \<open>Witness of C22: both items with a backup are restored.\<close>

theorem execution_restores_all_witness:
  "rc_restores (execute_loop (\<lambda>_. sample_exec True) ''p'' [sample_item ''i'' ''r'' ''executing'', sample_item ''k'' ''q'' ''executing'']
     (sample_recovery ''executing'' ''executing'')) = [''i'', ''k'']"
proof -
  have b: "execute_begin True True ''p'' (sample_recovery ''planned'' ''planned'') = (Inr (Some \<lparr>ex_plan = ''p'',
      ex_items = [sample_item ''i'' ''r'' ''executing'', sample_item ''k'' ''q'' ''executing'']\<rparr>), sample_recovery ''executing'' ''executing'')"
    by code_simp
  have v: "verify_and_restore (ea_target (sample_exec True)) (ea_listed (sample_exec True)) (ea_restored (sample_exec True)) i"
    if "i \<in> set [sample_item ''i'' ''r'' ''executing'', sample_item ''k'' ''q'' ''executing'']" for i
  proof -
    have "ascii_lower ''AA'' = ascii_lower ''aa''" by code_simp
    then show ?thesis using that by (auto simp: sample_recovery_defs verify_and_restore_def)
  qed
  show ?thesis
    using execution_restores_all [where ea = "\<lambda>_. sample_exec True" and x = "\<lparr>pl_id = ''p'', pl_node = ''n'', pl_status = ''planned''\<rparr>", OF _ _ _ b] v
    by (simp add: sample_recovery_defs find_plan_def list_recovery_items_def)
qed

end
