(* ===== verification/Recovery_Tokens.thy ===== *)
theory Recovery_Tokens
  imports Go_Strings
begin

text \<open>
  One-time tokens for password reset, account recovery, e-mail verification and second-factor codes
  (\<^verbatim>\<open>services/recovery/tokens.go\<close> over the table of \<^verbatim>\<open>services/recovery/store.go\<close>). The digest of a token
  (SHA-256 in hexadecimal) is an argument \<open>h\<close>, so are the random texts, the identifiers and the clock; a statement
  of the database succeeds or not as its flag says. Addresses, user agents and metadata are left out.
\<close>

section \<open>The table\<close>

record rtoken =
  rk_id :: string
  rk_user :: string
  rk_type :: string
  rk_hash :: string
  rk_expires :: gotime
  rk_used :: "gotime option"
  rk_created :: gotime

datatype token_error = TokDb | TokNilPointer

definition create_token :: "bool \<Rightarrow> rtoken \<Rightarrow> rtoken list \<Rightarrow> bool \<times> rtoken list" where
  "create_token ok t ts = (if \<not> ok \<or> (\<exists>u \<in> set ts. rk_id u = rk_id t \<or> rk_hash u = rk_hash t) then (False, ts) else (True, ts @ [t]))"

text \<open>No row is no error: the caller gets a nil pointer.\<close>

definition get_token_by_hash :: "bool \<Rightarrow> string \<Rightarrow> rtoken list \<Rightarrow> token_error + rtoken option" where
  "get_token_by_hash ok d ts = (if ok then Inr (find (\<lambda>t. rk_hash t = d) ts) else Inl TokDb)"

definition spend :: "(rtoken \<Rightarrow> bool) \<Rightarrow> gotime \<Rightarrow> rtoken list \<Rightarrow> rtoken list" where
  "spend P now ts = map (\<lambda>t. if P t \<and> rk_used t = None then t\<lparr>rk_used := Some now\<rparr> else t) ts"

definition mark_token_used :: "bool \<Rightarrow> gotime \<Rightarrow> string \<Rightarrow> rtoken list \<Rightarrow> bool \<times> rtoken list" where
  "mark_token_used ok now i ts = (if ok then (True, spend (\<lambda>t. rk_id t = i) now ts) else (False, ts))"

definition invalidate_user_tokens :: "bool \<Rightarrow> gotime \<Rightarrow> string \<Rightarrow> string \<Rightarrow> rtoken list \<Rightarrow> bool \<times> rtoken list" where
  "invalidate_user_tokens ok now u ty ts = (if ok then (True, spend (\<lambda>t. rk_user t = u \<and> rk_type t = ty) now ts) else (False, ts))"

definition cleanup_expired_tokens :: "bool \<Rightarrow> gotime \<Rightarrow> rtoken list \<Rightarrow> rtoken list" where
  "cleanup_expired_tokens ok now ts = (if ok then filter (\<lambda>t. \<not> (rk_expires t < now \<and> rk_used t = None)) ts else ts)"

section \<open>The service\<close>

definition token_ttl :: "string \<Rightarrow> int" where
  "token_ttl ty =
     (if ty = ''password_reset'' then 30 * minute
      else if ty = ''account_recovery'' then 15 * minute
      else if ty = ''email_verification'' then 24 * 60 * minute
      else 0)"

text \<open>\<open>now1\<close>, \<open>now2\<close> and \<open>now3\<close> are the readings of the clock: for the expiry, for the expiry of a type without
  a time to live, and for the time of creation.\<close>

definition token_expiry :: "string \<Rightarrow> gotime \<Rightarrow> gotime \<Rightarrow> gotime" where
  "token_expiry ty now1 now2 = (if token_ttl ty = 0 then now2 + 100 * 365 * 24 * 60 * minute else now1 + token_ttl ty)"

definition generate_token ::
  "(string \<Rightarrow> string) \<Rightarrow> bool \<Rightarrow> string \<Rightarrow> string \<Rightarrow> string \<Rightarrow> string \<Rightarrow> gotime \<Rightarrow> gotime \<Rightarrow> gotime \<Rightarrow> rtoken list \<Rightarrow> (token_error + string) \<times> rtoken list" where
  "generate_token h ok plaintext i u ty now1 now2 now3 ts =
     (case create_token ok \<lparr>rk_id = i, rk_user = u, rk_type = ty, rk_hash = h plaintext, rk_expires = token_expiry ty now1 now2, rk_used = None,
             rk_created = now3\<rparr> ts of
        (False, ts1) \<Rightarrow> (Inl TokDb, ts1)
      | (True, ts1) \<Rightarrow> (Inr plaintext, ts1))"

definition validate_token :: "(string \<Rightarrow> string) \<Rightarrow> bool \<Rightarrow> string \<Rightarrow> string \<Rightarrow> gotime \<Rightarrow> rtoken list \<Rightarrow> token_error + string" where
  "validate_token h ok plaintext ty now ts =
     (case get_token_by_hash ok (h plaintext) ts of
        Inl e \<Rightarrow> Inl e
      | Inr None \<Rightarrow> Inl TokNilPointer
      | Inr (Some t) \<Rightarrow>
          if rk_type t \<noteq> ty then Inr []
          else if rk_used t \<noteq> None then Inr []
          else if rk_expires t < now then Inr []
          else Inr (rk_user t))"

text \<open>Consuming a token has three statements: the validation, a second read, and the mark. What a request does
  between them is its stage.\<close>

datatype consumer =
    Validating
  | Reading string
  | Marking string string
  | Answered "token_error + string"

definition consume_step :: "(string \<Rightarrow> string) \<Rightarrow> bool \<Rightarrow> string \<Rightarrow> string \<Rightarrow> gotime \<Rightarrow> consumer \<Rightarrow> rtoken list \<Rightarrow> consumer \<times> rtoken list" where
  "consume_step h ok plaintext ty now c ts =
     (case c of
        Validating \<Rightarrow>
          (case validate_token h ok plaintext ty now ts of
             Inl e \<Rightarrow> (Answered (Inl e), ts)
           | Inr u \<Rightarrow> if u = [] then (Answered (Inr []), ts) else (Reading u, ts))
      | Reading u \<Rightarrow>
          (case get_token_by_hash ok (h plaintext) ts of
             Inl e \<Rightarrow> (Answered (Inl e), ts)
           | Inr None \<Rightarrow> (Answered (Inl TokNilPointer), ts)
           | Inr (Some t) \<Rightarrow> (Marking u (rk_id t), ts))
      | Marking u i \<Rightarrow>
          (case mark_token_used ok now i ts of
             (False, ts1) \<Rightarrow> (Answered (Inl TokDb), ts1)
           | (True, ts1) \<Rightarrow> (Answered (Inr u), ts1))
      | Answered r \<Rightarrow> (c, ts))"

text \<open>The whole request, when no other comes in between.\<close>

definition consume_token :: "(string \<Rightarrow> string) \<Rightarrow> bool \<Rightarrow> string \<Rightarrow> string \<Rightarrow> gotime \<Rightarrow> rtoken list \<Rightarrow> consumer \<times> rtoken list" where
  "consume_token h ok plaintext ty now ts =
     (let (c1, ts1) = consume_step h ok plaintext ty now Validating ts;
          (c2, ts2) = consume_step h ok plaintext ty now c1 ts1
      in consume_step h ok plaintext ty now c2 ts2)"

text \<open>Codes of the second factor: \<open>codes\<close> are the encoded random bytes with the identifiers of their rows and
  whether the row can be written.\<close>

fun generate_recovery_codes ::
  "(string \<Rightarrow> string) \<Rightarrow> string \<Rightarrow> gotime \<Rightarrow> (string \<times> string \<times> bool) list \<Rightarrow> rtoken list \<Rightarrow> (token_error + string list) \<times> rtoken list" where
  "generate_recovery_codes h u now [] ts = (Inr [], ts)"
| "generate_recovery_codes h u now ((code, i, ok) # rest) ts =
     (case create_token ok \<lparr>rk_id = i, rk_user = u, rk_type = ''2fa_recovery'', rk_hash = h code,
             rk_expires = now + 100 * 365 * 24 * 60 * minute, rk_used = None, rk_created = now\<rparr> ts of
        (False, ts1) \<Rightarrow> (Inl TokDb, ts1)
      | (True, ts1) \<Rightarrow>
          (case generate_recovery_codes h u now rest ts1 of
             (Inl e, ts2) \<Rightarrow> (Inl e, ts2)
           | (Inr cs, ts2) \<Rightarrow> (Inr (code # cs), ts2)))"

section \<open>What requests do to the table\<close>

text \<open>Requests that run one after another. The first argument of each says whether its statements succeed.\<close>

datatype token_op =
    Gen bool string string string string gotime
  | Consume bool string string gotime
  | Invalidate bool gotime string string
  | Cleanup bool gotime

fun token_request :: "(string \<Rightarrow> string) \<Rightarrow> token_op \<Rightarrow> rtoken list \<Rightarrow> rtoken list" where
  "token_request h (Gen ok w i u ty now) ts = snd (generate_token h ok w i u ty now now now ts)"
| "token_request h (Consume ok w ty now) ts = snd (consume_token h ok w ty now ts)"
| "token_request h (Invalidate ok now u ty) ts = snd (invalidate_user_tokens ok now u ty ts)"
| "token_request h (Cleanup ok now) ts = cleanup_expired_tokens ok now ts"

text \<open>The row with a digest is there and spent.\<close>

definition spent :: "string \<Rightarrow> rtoken list \<Rightarrow> bool" where
  "spent d ts \<longleftrightarrow> (\<exists>t. find (\<lambda>t. rk_hash t = d) ts = Some t \<and> rk_used t \<noteq> None)"

lemma find_spend:
  "find (\<lambda>t. rk_hash t = d) (spend P now ts) =
     map_option (\<lambda>t. if P t \<and> rk_used t = None then t\<lparr>rk_used := Some now\<rparr> else t) (find (\<lambda>t. rk_hash t = d) ts)"
  by (induction ts) (auto simp: spend_def)

lemma find_append_some: "find P xs = Some x \<Longrightarrow> find P (xs @ ys) = Some x"
  by (induction xs) (auto split: if_splits)

lemma find_filter_kept: "find P xs = Some x \<Longrightarrow> Q x \<Longrightarrow> find P (filter Q xs) = Some x"
  by (induction xs) (auto split: if_splits)

lemma spent_spend: "spent d ts \<Longrightarrow> spent d (spend P now ts)"
  by (cases "find (\<lambda>t. rk_hash t = d) ts") (auto simp: spent_def find_spend)

lemma spent_create: "spent d ts \<Longrightarrow> create_token ok t ts = (b, ts1) \<Longrightarrow> spent d ts1"
  by (auto simp: spent_def create_token_def dest: find_append_some split: if_splits)

lemma consume_step_spent: "spent d ts \<Longrightarrow> spent d (snd (consume_step h ok w ty now c ts))"
  by (auto simp: consume_step_def mark_token_used_def spent_spend split: consumer.splits sum.splits option.splits)

lemma token_request_spent: "spent d ts \<Longrightarrow> spent d (token_request h opr ts)"
proof (cases opr)
  case (Consume ok w ty now)
  then show "spent d ts \<Longrightarrow> spent d (token_request h opr ts)"
    by (simp add: consume_token_def Let_def case_prod_unfold consume_step_spent)
next
  case (Cleanup ok now)
  assume "spent d ts"
  then obtain t where "find (\<lambda>t. rk_hash t = d) ts = Some t" "rk_used t \<noteq> None" by (auto simp: spent_def)
  then have "find (\<lambda>t. rk_hash t = d) (filter (\<lambda>t. \<not> (rk_expires t < now \<and> rk_used t = None)) ts) = Some t"
    by (intro find_filter_kept) auto
  then show ?thesis using \<open>rk_used t \<noteq> None\<close> \<open>spent d ts\<close> by (simp add: Cleanup cleanup_expired_tokens_def spent_def)
qed (auto simp: generate_token_def invalidate_user_tokens_def spent_spend split: prod.splits bool.splits intro: spent_create)

lemma spent_refused: "spent (h w) ts \<Longrightarrow> consume_token h True w ty now ts = (Answered (Inr []), ts)"
  by (auto simp: consume_token_def consume_step_def validate_token_def get_token_by_hash_def spent_def)

text \<open>C23: A token is good for one use: once a request got its user, every later request with the same token is
  refused, whatever requests run in between, one after another.\<close>

theorem token_single_use:
  assumes "consume_token h ok w ty now ts = (Answered (Inr u), ts1)" "u \<noteq> []"
  shows "fst (consume_token h True w ty' now' (fold (token_request h) ops ts1)) = Answered (Inr [])"
proof -
  obtain t where t: "find (\<lambda>t. rk_hash t = h w) ts = Some t" "ts1 = spend (\<lambda>x. rk_id x = rk_id t) now ts"
    using assms
    by (auto simp: consume_token_def consume_step_def validate_token_def get_token_by_hash_def mark_token_used_def
      split: prod.splits sum.splits option.splits if_splits)
  have "spent (h w) ts1" by (auto simp: t spent_def find_spend)
  then have "spent (h w) (fold (token_request h) ops ts1)"
    by (induction ops arbitrary: ts1) (simp_all add: token_request_spent)
  then show ?thesis by (simp add: spent_refused)
qed

text \<open>Witness of C23: the same link followed twice, with a clean-up in between.\<close>

theorem token_single_use_witness:
  "fst (consume_token (\<lambda>w. w) True ''w'' ''account_recovery'' 9
     (cleanup_expired_tokens True 8 (snd (consume_token (\<lambda>w. w) True ''w'' ''account_recovery'' 7
       [\<lparr>rk_id = ''i'', rk_user = ''u'', rk_type = ''account_recovery'', rk_hash = ''w'', rk_expires = 10, rk_used = None, rk_created = 0\<rparr>])))) =
   Answered (Inr [])"
proof -
  let ?r = "consume_token (\<lambda>w. w) True ''w'' ''account_recovery'' 7
       [\<lparr>rk_id = ''i'', rk_user = ''u'', rk_type = ''account_recovery'', rk_hash = ''w'', rk_expires = 10, rk_used = None, rk_created = 0\<rparr>]"
  have r: "?r = (Answered (Inr ''u''), snd ?r)" by code_simp
  show ?thesis using token_single_use [OF r, of "''account_recovery''" 9 "[Cleanup True 8]"] by simp
qed

text \<open>Two requests that overlap both spend the token: each validates it before the other has marked it, and
  the mark does not tell whether it changed the row.\<close>

theorem token_spent_twice:
  assumes "validate_token h True w ty now ts = Inr u" "u \<noteq> []"
  shows "\<exists>c ts1. consume_step h True w ty now Validating ts = (Reading u, ts) \<and> consume_step h True w ty now (Reading u) ts = (c, ts) \<and>
    consume_step h True w ty now c ts = (Answered (Inr u), ts1) \<and> fst (consume_step h True w ty now c ts1) = Answered (Inr u)"
proof -
  obtain t where "find (\<lambda>t. rk_hash t = h w) ts = Some t"
    using assms by (auto simp: validate_token_def get_token_by_hash_def split: option.splits)
  then show ?thesis using assms by (auto simp: consume_step_def get_token_by_hash_def mark_token_used_def)
qed

text \<open>A token that is valid.\<close>

theorem token_spent_twice_witness:
  "\<exists>c ts1. consume_step (\<lambda>w. w) True ''w'' ''t'' 7 c [\<lparr>rk_id = ''i'', rk_user = ''u'', rk_type = ''t'', rk_hash = ''w'', rk_expires = 10, rk_used = None, rk_created = 0\<rparr>] =
     (Answered (Inr ''u''), ts1) \<and> fst (consume_step (\<lambda>w. w) True ''w'' ''t'' 7 c ts1) = Answered (Inr ''u'')"
  using token_spent_twice [of "\<lambda>w. w" "''w''" "''t''" 7
      "[\<lparr>rk_id = ''i'', rk_user = ''u'', rk_type = ''t'', rk_hash = ''w'', rk_expires = 10, rk_used = None, rk_created = 0\<rparr>]" "''u''"]
  by (auto simp: validate_token_def get_token_by_hash_def)

text \<open>A generated token is accepted for its own type and user until it expires, and asking with a text whose
  digest is not in the table runs into a nil pointer instead of being refused.\<close>

theorem token_accepted_until_expiry:
  assumes "generate_token h ok w i u ty now1 now2 now3 ts = (Inr w, ts1)"
  shows "validate_token h True w ty now ts1 = (if token_expiry ty now1 now2 < now then Inr [] else Inr u) \<and>
    (ty' \<noteq> ty \<longrightarrow> validate_token h True w ty' now ts1 = Inr []) \<and>
    ((\<forall>t \<in> set ts1. rk_hash t \<noteq> h v) \<longrightarrow> validate_token h True v ty now ts1 = Inl TokNilPointer)"
proof -
  have t: "ts1 = ts @ [\<lparr>rk_id = i, rk_user = u, rk_type = ty, rk_hash = h w, rk_expires = token_expiry ty now1 now2, rk_used = None, rk_created = now3\<rparr>]"
      "\<forall>t \<in> set ts. rk_hash t \<noteq> h w"
    using assms by (auto simp: generate_token_def create_token_def split: if_splits)
  have "find (\<lambda>t. rk_hash t = h w) ts = None" using t(2) by (auto simp: find_None_iff)
  then have "find (\<lambda>t. rk_hash t = h w) ts1 = Some (last ts1)" unfolding t(1) by (induction ts) (auto split: if_splits)
  moreover have "find (\<lambda>t. rk_hash t = h v) ts1 = None" if "\<forall>t \<in> set ts1. rk_hash t \<noteq> h v" using that by (auto simp: find_None_iff)
  ultimately show ?thesis by (auto simp: validate_token_def get_token_by_hash_def t(1))
qed

text \<open>A token for account recovery, a quarter of an hour later and after it.\<close>

theorem token_accepted_until_expiry_witness:
  "validate_token (\<lambda>w. w) True ''w'' ''account_recovery'' (15 * minute) (snd (generate_token (\<lambda>w. w) True ''w'' ''i'' ''u'' ''account_recovery'' 0 0 0 [])) = Inr ''u'' \<and>
   validate_token (\<lambda>w. w) True ''v'' ''account_recovery'' 0 (snd (generate_token (\<lambda>w. w) True ''w'' ''i'' ''u'' ''account_recovery'' 0 0 0 [])) = Inl TokNilPointer"
proof -
  let ?r = "generate_token (\<lambda>w. w) True ''w'' ''i'' ''u'' ''account_recovery'' 0 0 0 []"
  have r: "?r = (Inr ''w'', snd ?r)" by code_simp
  have v: "\<forall>t \<in> set (snd ?r). rk_hash t \<noteq> ''v''" by code_simp
  show ?thesis using token_accepted_until_expiry [OF r, of "15 * minute"] token_accepted_until_expiry [OF r, of 0 _ "''v''"] v
    by (simp add: token_expiry_def token_ttl_def)
qed

end
