(* ===== verification/Node_Table.thy ===== *)
theory Node_Table
  imports Go_Strings
begin

text \<open>
  The table of nodes: creation, the full and the partial update, deletion, the states a node is in, and the
  credential it authenticates with (\<^verbatim>\<open>store/store_nodes.go\<close>, \<^verbatim>\<open>store/store_state.go\<close>,
  \<^verbatim>\<open>store/store_heartbeat.go\<close>). A row has the columns other components read; display texts, paths, port ranges and
  alert thresholds are left out. Password hashing, encryption, the parser of URLs and the case-insensitive comparison
  are arguments, and so are random identifiers and the clock. The enumeration types of the columns are checked where a
  statement stores a value that was not checked before.
\<close>

section \<open>Rows\<close>

record node_entry =
  ne_id :: string
  ne_name :: string
  ne_region :: "string option"
  ne_base_url :: string
  ne_fqdn :: string
  ne_scheme :: string
  ne_status :: string
  ne_maintenance :: bool
  ne_draining :: bool
  ne_desired :: string
  ne_actual :: string
  ne_heartbeat :: string
  ne_changed :: "gotime option"
  ne_recovery :: int
  ne_seen :: "gotime option"
  ne_memory :: int
  ne_disk :: int
  ne_upload :: int
  ne_base :: string
  ne_listen :: int
  ne_sftp :: int
  ne_hash :: string
  ne_token_id :: string
  ne_token_plain :: string
  ne_token_enc :: string
  ne_docker :: "string option"
  ne_error :: "string option"
  ne_threads :: "int option"
  ne_node_memory :: "int option"
  ne_node_disk :: "int option"

record transition =
  tr_resource :: string
  tr_kind :: string
  tr_from :: string
  tr_to :: string

record node_db =
  nd_nodes :: "node_entry list"
  nd_transitions :: "transition list"
  nd_servers :: "string list"
  nd_allocations :: "string list"

datatype node_error =
    NameRequired
  | BadScheme
  | BadUrl
  | BadFqdn
  | NegativeLimits
  | BadPorts
  | LocationRequired
  | LocationUnknown
  | RegionUnknown
  | BaseRequired
  | FieldsRequired
  | BadDesired
  | BadStatus
  | NodeMissing
  | NodeInUse nat nat
  | NodeDb
  | BadCredential

definition get_node_entry :: "node_db \<Rightarrow> string \<Rightarrow> node_entry option" where
  "get_node_entry db n = find (\<lambda>x. ne_id x = n) (nd_nodes db)"

definition map_node :: "string \<Rightarrow> (node_entry \<Rightarrow> node_entry) \<Rightarrow> node_db \<Rightarrow> node_db" where
  "map_node n f db = db\<lparr>nd_nodes := map (\<lambda>x. if ne_id x = n then f x else x) (nd_nodes db)\<rparr>"

definition record_transition :: "string \<Rightarrow> string \<Rightarrow> string \<Rightarrow> string \<Rightarrow> node_db \<Rightarrow> node_db" where
  "record_transition n kind from to db =
     db\<lparr>nd_transitions := nd_transitions db @ [\<lparr>tr_resource = n, tr_kind = kind, tr_from = from, tr_to = to\<rparr>]\<rparr>"

definition desired_state :: "string \<Rightarrow> bool" where
  "desired_state s \<longleftrightarrow> s \<in> {''active'', ''maintenance'', ''draining''}"

definition actual_state :: "string \<Rightarrow> bool" where
  "actual_state s \<longleftrightarrow> s \<in> {''online'', ''offline'', ''degraded''}"

definition heartbeat_state :: "string \<Rightarrow> bool" where
  "heartbeat_state s \<longleftrightarrow> s \<in> {''healthy'', ''suspected'', ''unreachable'', ''offline'', ''recovering''}"

section \<open>Creation\<close>

text \<open>What the library functions answer: the parsed URL (scheme, host, whether it has credentials), the equality of
  texts up to case, and the number at the start of a text.\<close>

record url_lib =
  parse_url :: "string \<Rightarrow> (string \<times> string \<times> bool) option"
  equal_fold :: "string \<Rightarrow> string \<Rightarrow> bool"
  scan_number :: "string \<Rightarrow> int option"

record create_node_request =
  cn_name :: string
  cn_location :: string
  cn_region :: string
  cn_base_url :: string
  cn_fqdn :: string
  cn_scheme :: string
  cn_memory :: int
  cn_disk :: int
  cn_upload :: int
  cn_base :: string
  cn_listen :: int
  cn_sftp :: int

definition trim_right_slashes :: "string \<Rightarrow> string" where
  "trim_right_slashes s = rev (dropWhile (\<lambda>c. c = CHR ''/'') (rev s))"

definition normalize_scheme :: "string \<Rightarrow> string" where
  "normalize_scheme s = (let t = ascii_lower (trim_space s) in if t = [] then ''http'' else t)"

definition trim_prefix :: "string \<Rightarrow> string \<Rightarrow> string" where
  "trim_prefix p s = (if prefix p s then drop (length p) s else s)"

definition url_authority :: "string \<Rightarrow> string" where
  "url_authority base = takeWhile (\<lambda>c. c \<noteq> CHR ''/'') (trim_prefix ''http://'' (trim_prefix ''https://'' base))"

definition fqdn_from_base_url :: "string \<Rightarrow> string" where
  "fqdn_from_base_url base = takeWhile (\<lambda>c. c \<noteq> CHR '':'') (url_authority base)"

definition port_from_base_url :: "url_lib \<Rightarrow> string \<Rightarrow> string \<Rightarrow> int" where
  "port_from_base_url lib base scheme =
     (let a = url_authority base;
          digits = rev (takeWhile (\<lambda>c. c \<noteq> CHR '':'') (rev a));
          default = (if scheme = ''https'' then 443 else 8080)
      in if CHR '':'' \<in> set a \<and> digits \<noteq> [] then (case scan_number lib digits of Some p \<Rightarrow> if 0 < p then p else default | None \<Rightarrow> default)
         else default)"

definition normalize_node_create :: "url_lib \<Rightarrow> create_node_request \<Rightarrow> create_node_request" where
  "normalize_node_create lib req =
     (let base = trim_right_slashes (trim_space (cn_base_url req));
          fqdn = trim_space (cn_fqdn req);
          scheme = normalize_scheme (cn_scheme req)
      in req\<lparr>cn_name := trim_space (cn_name req), cn_base_url := base, cn_scheme := scheme,
             cn_fqdn := (if fqdn = [] then fqdn_from_base_url base else fqdn),
             cn_listen := (if cn_listen req = 0 then port_from_base_url lib base scheme else cn_listen req),
             cn_sftp := (if cn_sftp req = 0 then 2022 else cn_sftp req),
             cn_upload := (if cn_upload req = 0 then 100 else cn_upload req),
             cn_base := (if cn_base req = [] then ''/var/lib/forge/volumes'' else cn_base req)\<rparr>)"

definition validate_node_endpoint ::
  "url_lib \<Rightarrow> string \<Rightarrow> string \<Rightarrow> string \<Rightarrow> string \<Rightarrow> int \<Rightarrow> int \<Rightarrow> int \<Rightarrow> int \<Rightarrow> int \<Rightarrow> node_error + unit" where
  "validate_node_endpoint lib name base fqdn scheme memory disk upload listen sftp =
     (if trim_space name = [] then Inl NameRequired
      else if scheme \<noteq> ''http'' \<and> scheme \<noteq> ''https'' then Inl BadScheme
      else (case parse_url lib base of
        None \<Rightarrow> Inl BadUrl
      | Some (s, host, user) \<Rightarrow>
          if s \<noteq> scheme \<or> host = [] \<or> user then Inl BadUrl
          else if trim_space fqdn = [] \<or> \<not> equal_fold lib host fqdn then Inl BadFqdn
          else if memory < 0 \<or> disk < 0 \<or> upload < 0 then Inl NegativeLimits
          else if listen < 1 \<or> 65535 < listen \<or> sftp < 1 \<or> 65535 < sftp \<or> listen = sftp then Inl BadPorts
          else Inr ()))"

text \<open>A new credential: its identifier, the secret, the hash of the secret and its encryption, each of the last two
  absent when the library fails.\<close>

record node_credential =
  nc_id :: string
  nc_secret :: string
  nc_hash :: "string option"
  nc_enc :: "string option"

definition credential_text :: "node_credential \<Rightarrow> string" where
  "credential_text c = nc_id c @ ''.'' @ nc_secret c"

definition nullable :: "string \<Rightarrow> string option" where
  "nullable s = (if trim_space s = [] then None else Some s)"

definition new_node_entry :: "string \<Rightarrow> create_node_request \<Rightarrow> string \<Rightarrow> string \<Rightarrow> string \<Rightarrow> node_entry" where
  "new_node_entry i req tid h enc =
     \<lparr>ne_id = i, ne_name = cn_name req, ne_region = nullable (cn_region req), ne_base_url = cn_base_url req,
      ne_fqdn = cn_fqdn req, ne_scheme = cn_scheme req, ne_status = ''offline'', ne_maintenance = False, ne_draining = False,
      ne_desired = ''active'', ne_actual = ''offline'', ne_heartbeat = ''offline'', ne_changed = None, ne_recovery = 0,
      ne_seen = None, ne_memory = cn_memory req, ne_disk = cn_disk req, ne_upload = cn_upload req, ne_base = cn_base req,
      ne_listen = cn_listen req, ne_sftp = cn_sftp req, ne_hash = h, ne_token_id = tid, ne_token_plain = [],
      ne_token_enc = enc, ne_docker = None, ne_error = None, ne_threads = None, ne_node_memory = None, ne_node_disk = None\<rparr>"

definition create_node ::
  "url_lib \<Rightarrow> (string \<Rightarrow> bool) \<Rightarrow> (string \<Rightarrow> bool) \<Rightarrow> bool \<Rightarrow> node_credential \<Rightarrow> string \<Rightarrow> create_node_request \<Rightarrow> node_db
     \<Rightarrow> (node_error + node_entry \<times> string) \<times> node_db" where
  "create_node lib location region ok cred i req0 db =
     (let req = normalize_node_create lib req0 in
      if trim_space (cn_location req) = [] then (Inl LocationRequired, db)
      else if \<not> location (cn_location req) then (Inl LocationUnknown, db)
      else if trim_space (cn_region req) \<noteq> [] \<and> \<not> region (cn_region req) then (Inl RegionUnknown, db)
      else (case validate_node_endpoint lib (cn_name req) (cn_base_url req) (cn_fqdn req) (cn_scheme req) (cn_memory req) (cn_disk req)
                   (cn_upload req) (cn_listen req) (cn_sftp req) of
        Inl e \<Rightarrow> (Inl e, db)
      | Inr _ \<Rightarrow>
          if trim_space (cn_base req) = [] then (Inl BaseRequired, db)
          else (case (nc_enc cred, nc_hash cred) of
            (Some enc, Some h) \<Rightarrow>
              if \<not> ok \<or> (\<exists>x \<in> set (nd_nodes db). ne_id x = i \<or> ne_token_id x = nc_id cred) then (Inl NodeDb, db)
              else let row = new_node_entry i req (nc_id cred) h enc
                   in (Inr (row, credential_text cred), db\<lparr>nd_nodes := nd_nodes db @ [row]\<rparr>)
          | _ \<Rightarrow> (Inl NodeDb, db))))"

section \<open>Updates\<close>

text \<open>The full update takes every setting from the request; the desired state and the two flags are set side by side.\<close>

record update_node_request = create_node_request +
  un_status :: string
  un_desired :: string
  un_maintenance :: bool
  un_draining :: bool
  un_region_text :: string

definition updated_row :: "create_node_request \<Rightarrow> bool \<Rightarrow> bool \<Rightarrow> string \<Rightarrow> string \<Rightarrow> node_entry \<Rightarrow> node_entry" where
  "updated_row req m d desired status x =
     x\<lparr>ne_name := cn_name req, ne_region := nullable (cn_region req), ne_base_url := cn_base_url req,
       ne_fqdn := cn_fqdn req, ne_scheme := cn_scheme req, ne_maintenance := m, ne_draining := d,
       ne_desired := desired, ne_memory := cn_memory req, ne_disk := cn_disk req, ne_upload := cn_upload req, ne_base := cn_base req,
       ne_listen := cn_listen req, ne_sftp := cn_sftp req, ne_status := status\<rparr>"

definition update_node ::
  "url_lib \<Rightarrow> (string \<Rightarrow> bool) \<Rightarrow> bool \<Rightarrow> string \<Rightarrow> update_node_request \<Rightarrow> node_db \<Rightarrow> (node_error + node_entry) \<times> node_db" where
  "update_node lib location ok n req0 db =
     (let req = normalize_node_create lib (create_node_request.truncate req0);
          status = (if trim_space (un_status req0) = [] then ''offline'' else trim_space (un_status req0));
          desired = (if trim_space (un_desired req0) = [] then ''active'' else trim_space (un_desired req0))
      in if trim_space (cn_name req) = [] \<or> trim_space (un_region_text req0) = [] \<or> trim_space (cn_base_url req) = [] then (Inl FieldsRequired, db)
         else if trim_space (cn_location req) \<noteq> [] \<and> \<not> location (cn_location req) then (Inl LocationUnknown, db)
         else if \<not> ok \<or> \<not> desired_state desired then (Inl NodeDb, db)
         else let db1 = map_node n (updated_row req (un_maintenance req0) (un_draining req0) desired status) db
              in (case get_node_entry db1 n of None \<Rightarrow> (Inl NodeMissing, db1) | Some x \<Rightarrow> (Inr x, db1)))"

record node_patch =
  np_name :: "string option"
  np_location :: "string option"
  np_base_url :: "string option"
  np_fqdn :: "string option"
  np_scheme :: "string option"
  np_maintenance :: "bool option"
  np_desired :: "string option"
  np_draining :: "bool option"
  np_memory :: "int option"
  np_disk :: "int option"
  np_upload :: "int option"
  np_base :: "string option"
  np_listen :: "int option"
  np_sftp :: "int option"
  np_status :: "string option"
  np_other :: bool

definition or_old :: "'a \<Rightarrow> 'a option \<Rightarrow> 'a" where
  "or_old old v = (case v of None \<Rightarrow> old | Some x \<Rightarrow> x)"

text \<open>The row after a patch: the columns that were given.\<close>

definition patched :: "node_patch \<Rightarrow> node_entry \<Rightarrow> node_entry" where
  "patched p x =
     (let y = x\<lparr>ne_name := or_old (ne_name x) (map_option trim_space (np_name p)),
                ne_base_url := or_old (ne_base_url x) (map_option (\<lambda>u. trim_right_slashes (trim_space u)) (np_base_url p)),
                ne_fqdn := or_old (ne_fqdn x) (map_option trim_space (np_fqdn p)),
                ne_scheme := or_old (ne_scheme x) (map_option (\<lambda>s. ascii_lower (trim_space s)) (np_scheme p)),
                ne_memory := or_old (ne_memory x) (np_memory p), ne_disk := or_old (ne_disk x) (np_disk p),
                ne_upload := or_old (ne_upload x) (np_upload p),
                ne_base := or_old (ne_base x) (map_option trim_space (np_base p)),
                ne_listen := or_old (ne_listen x) (np_listen p), ne_sftp := or_old (ne_sftp x) (np_sftp p),
                ne_status := or_old (ne_status x) (map_option (\<lambda>s. ascii_lower (trim_space s)) (np_status p))\<rparr>
      in (case np_desired p of
            Some d \<Rightarrow> y\<lparr>ne_desired := d, ne_maintenance := (d = ''maintenance''), ne_draining := (d = ''draining'')\<rparr>
          | None \<Rightarrow> y\<lparr>ne_maintenance := or_old (ne_maintenance x) (np_maintenance p), ne_draining := or_old (ne_draining x) (np_draining p)\<rparr>))"

definition empty_patch :: "node_patch \<Rightarrow> bool" where
  "empty_patch p \<longleftrightarrow>
     p = \<lparr>np_name = None, np_location = None, np_base_url = None, np_fqdn = None, np_scheme = None, np_maintenance = None, np_desired = None,
          np_draining = None, np_memory = None, np_disk = None, np_upload = None, np_base = None, np_listen = None, np_sftp = None,
          np_status = None, np_other = False\<rparr>"

text \<open>\<open>read\<close> and \<open>ok\<close> say whether the first read and the update succeed. The row is read before it is updated; the
  read is one of the state the update finds.\<close>

definition patch_node ::
  "url_lib \<Rightarrow> (string \<Rightarrow> bool) \<Rightarrow> bool \<Rightarrow> bool \<Rightarrow> string \<Rightarrow> node_patch \<Rightarrow> node_db \<Rightarrow> (node_error + node_entry) \<times> node_db" where
  "patch_node lib location read ok n p db =
     (case (if read then get_node_entry db n else None) of
        None \<Rightarrow> (Inl NodeMissing, db)
      | Some x \<Rightarrow>
          let y = patched p x in
          (case validate_node_endpoint lib (ne_name y) (ne_base_url y) (ne_fqdn y) (ne_scheme y) (ne_memory y) (ne_disk y) (ne_upload y)
                  (ne_listen y) (ne_sftp y) of
             Inl e \<Rightarrow> (Inl e, db)
           | Inr _ \<Rightarrow>
               if (case np_base p of Some b \<Rightarrow> trim_space b = [] | None \<Rightarrow> False) then (Inl BaseRequired, db)
               else if (case np_desired p of Some d \<Rightarrow> \<not> desired_state d | None \<Rightarrow> False) then (Inl BadDesired, db)
               else if (case np_status p of Some s \<Rightarrow> \<not> actual_state (ascii_lower (trim_space s)) | None \<Rightarrow> False) then (Inl BadStatus, db)
               else if (case np_location p of Some l \<Rightarrow> trim_space l = [] | None \<Rightarrow> False) then (Inl LocationRequired, db)
               else if (case np_location p of Some l \<Rightarrow> \<not> location (trim_space l) | None \<Rightarrow> False) then (Inl LocationUnknown, db)
               else if empty_patch p then (Inr x, db)
               else if \<not> ok then (Inl NodeDb, db)
               else let db1 = map_node n (patched p) db in
                    (case get_node_entry db1 n of None \<Rightarrow> (Inl NodeMissing, db1) | Some z \<Rightarrow> (Inr z, db1))))"

definition delete_node :: "bool \<Rightarrow> string \<Rightarrow> node_db \<Rightarrow> (node_error + unit) \<times> node_db" where
  "delete_node ok n db =
     (let s = length (filter (\<lambda>x. x = n) (nd_servers db)); a = length (filter (\<lambda>x. x = n) (nd_allocations db)) in
      if \<not> ok then (Inl NodeDb, db)
      else if 0 < s \<or> 0 < a then (Inl (NodeInUse s a), db)
      else if get_node_entry db n = None then (Inl NodeMissing, db)
      else (Inr (), db\<lparr>nd_nodes := filter (\<lambda>x. ne_id x \<noteq> n) (nd_nodes db)\<rparr>))"

section \<open>States\<close>

definition shown_status :: "string \<Rightarrow> string \<Rightarrow> string" where
  "shown_status desired actual = (if desired = ''active'' then actual else desired)"

text \<open>\<open>ok\<close> says whether the update succeeds and \<open>logged\<close> whether the transition can be recorded after it.\<close>

definition desired_row :: "string \<Rightarrow> node_entry \<Rightarrow> node_entry" where
  "desired_row d y =
     y\<lparr>ne_desired := d, ne_maintenance := (d = ''maintenance''), ne_draining := (d = ''draining''),
       ne_status := shown_status d (ne_actual y)\<rparr>"

definition set_node_desired_state :: "bool \<Rightarrow> bool \<Rightarrow> string \<Rightarrow> string \<Rightarrow> node_db \<Rightarrow> (node_error + unit) \<times> node_db" where
  "set_node_desired_state ok logged n d db =
     (case get_node_entry db n of
        None \<Rightarrow> (Inl NodeMissing, db)
      | Some x \<Rightarrow>
          if \<not> ok \<or> \<not> desired_state d then (Inl NodeDb, db)
          else let db1 = map_node n (desired_row d) db
               in if ne_desired x = d then (Inr (), db1)
                  else if logged then (Inr (), record_transition n ''desired'' (ne_desired x) d db1)
                  else (Inl NodeDb, db1))"

definition actual_row :: "string \<Rightarrow> node_entry \<Rightarrow> node_entry" where
  "actual_row a y =
     y\<lparr>ne_actual := a, ne_status := shown_status (ne_desired y) a\<rparr>"

definition set_node_actual_state :: "bool \<Rightarrow> bool \<Rightarrow> string \<Rightarrow> string \<Rightarrow> node_db \<Rightarrow> (node_error + unit) \<times> node_db" where
  "set_node_actual_state ok logged n a db =
     (case get_node_entry db n of
        None \<Rightarrow> (Inl NodeMissing, db)
      | Some x \<Rightarrow>
          if \<not> ok \<or> \<not> actual_state a then (Inl NodeDb, db)
          else let db1 = map_node n (actual_row a) db
               in if ne_actual x = a then (Inr (), db1)
                  else if logged then (Inr (), record_transition n ''actual'' (ne_actual x) a db1)
                  else (Inl NodeDb, db1))"

definition classified_row :: "gotime \<Rightarrow> string \<Rightarrow> string \<Rightarrow> int \<Rightarrow> node_entry \<Rightarrow> node_entry" where
  "classified_row now h a successes y =
     y\<lparr>ne_heartbeat := h, ne_changed := (if ne_heartbeat y \<noteq> h then Some now else ne_changed y),
       ne_recovery := successes, ne_actual := a, ne_status := shown_status (ne_desired y) a\<rparr>"

definition set_heartbeat_classification ::
  "bool \<Rightarrow> bool \<Rightarrow> bool \<Rightarrow> gotime \<Rightarrow> string \<Rightarrow> string \<Rightarrow> string \<Rightarrow> int \<Rightarrow> node_db \<Rightarrow> (node_error + node_entry \<times> node_entry) \<times> node_db" where
  "set_heartbeat_classification ok log1 log2 now n h a successes db =
     (case get_node_entry db n of
        None \<Rightarrow> (Inl NodeMissing, db)
      | Some x \<Rightarrow>
          if \<not> ok \<or> \<not> heartbeat_state h \<or> \<not> actual_state a then (Inl NodeDb, db)
          else let db1 = map_node n (classified_row now h a successes) db
               in if ne_heartbeat x \<noteq> h \<and> \<not> log1 then (Inl NodeDb, db1)
                  else let db2 = (if ne_heartbeat x \<noteq> h then record_transition n ''heartbeat'' (ne_heartbeat x) h db1 else db1) in
                       if ne_actual x \<noteq> a \<and> \<not> log2 then (Inl NodeDb, db2)
                       else let db3 = (if ne_actual x \<noteq> a then record_transition n ''actual'' (ne_actual x) a db2 else db2) in
                            (case get_node_entry db3 n of None \<Rightarrow> (Inl NodeMissing, db3) | Some y \<Rightarrow> (Inr (x, y), db3)))"

record heartbeat_request =
  hq_threads :: int
  hq_memory :: int
  hq_disk :: int
  hq_docker :: string
  hq_runtime :: string
  hq_error :: string

definition nullif :: "'a \<Rightarrow> 'a \<Rightarrow> 'a option" where
  "nullif z v = (if v = z then None else Some v)"

definition heartbeat_row :: "string \<Rightarrow> gotime \<Rightarrow> heartbeat_request \<Rightarrow> node_entry \<Rightarrow> node_entry" where
  "heartbeat_row status now req x =
     x\<lparr>ne_status := status, ne_seen := Some now, ne_threads := nullif 0 (hq_threads req),
       ne_node_memory := nullif 0 (hq_memory req), ne_node_disk := nullif 0 (hq_disk req), ne_docker := nullif [] (hq_docker req),
       ne_error := nullif [] (hq_error req)\<rparr>"

definition update_node_heartbeat :: "bool \<Rightarrow> gotime \<Rightarrow> string \<Rightarrow> heartbeat_request \<Rightarrow> node_db \<Rightarrow> (node_error + node_entry) \<times> node_db" where
  "update_node_heartbeat ok now n req db =
     (let status = (if trim_space (hq_error req) \<noteq> [] \<or> ascii_lower (trim_space (hq_docker req)) = ''error'' \<or>
                       ascii_lower (trim_space (hq_runtime req)) = ''error'' then ''degraded'' else ''online'')
      in if \<not> ok then (Inl NodeDb, db)
         else let db1 = map_node n (heartbeat_row status now req) db
              in (case get_node_entry db1 n of None \<Rightarrow> (Inl NodeMissing, db1) | Some x \<Rightarrow> (Inr x, db1)))"

section \<open>Credentials\<close>

text \<open>\<open>cmp\<close> compares a hash with a password, \<open>dec\<close> decrypts the stored token of a node.\<close>

definition rotate_node_token :: "bool \<Rightarrow> node_credential \<Rightarrow> string \<Rightarrow> node_db \<Rightarrow> (node_error + string) \<times> node_db" where
  "rotate_node_token ok cred n db =
     (case (nc_enc cred, nc_hash cred) of
        (Some enc, Some h) \<Rightarrow>
          if \<not> ok \<or> (\<exists>x \<in> set (nd_nodes db). ne_id x \<noteq> n \<and> ne_token_id x = nc_id cred) then (Inl NodeDb, db)
          else if get_node_entry db n = None then (Inl NodeMissing, db)
          else (Inr (credential_text cred),
                map_node n (\<lambda>x. x\<lparr>ne_hash := h, ne_token_id := nc_id cred, ne_token_plain := [], ne_token_enc := enc\<rparr>) db)
      | _ \<Rightarrow> (Inl NodeDb, db))"

definition verify_node_token ::
  "(string \<Rightarrow> string \<Rightarrow> bool) \<Rightarrow> (string \<Rightarrow> string \<Rightarrow> string option) \<Rightarrow> bool \<Rightarrow> string \<Rightarrow> string \<Rightarrow> node_db \<Rightarrow> node_error + bool" where
  "verify_node_token cmp dec ok n token db =
     (if trim_space n = [] \<or> trim_space token = [] then Inr False
      else if \<not> ok then Inl NodeDb
      else (case get_node_entry db n of
        None \<Rightarrow> Inr False
      | Some x \<Rightarrow>
          if CHR ''.'' \<in> set token \<and> ne_token_id x \<noteq> [] then
            (case split_n2 (CHR ''.'') token of
               (i, Some secret) \<Rightarrow>
                 if i \<noteq> ne_token_id x then Inr False
                 else if prefix ''$2'' (ne_hash x) then Inr (cmp (ne_hash x) secret)
                 else (case dec (ne_token_enc x) (ne_token_plain x) of
                         None \<Rightarrow> Inl NodeDb
                       | Some stored \<Rightarrow> Inr (secret = stored))
             | (i, None) \<Rightarrow> Inr False)
          else if prefix ''$2a$'' (ne_hash x) \<or> prefix ''$2b$'' (ne_hash x) \<or> prefix ''$2y$'' (ne_hash x) then Inr (cmp (ne_hash x) token)
          else Inr (ne_hash x = token)))"

definition authenticate_remote_node ::
  "(string \<Rightarrow> string \<Rightarrow> bool) \<Rightarrow> bool \<Rightarrow> bool \<Rightarrow> string \<Rightarrow> node_db \<Rightarrow> node_error + node_entry" where
  "authenticate_remote_node cmp ok1 ok2 bearer db =
     (case split_n2 (CHR ''.'') (trim_space bearer) of
        (i, None) \<Rightarrow> Inl BadCredential
      | (i, Some secret) \<Rightarrow>
          if i = [] \<or> secret = [] then Inl BadCredential
          else if \<not> ok1 then Inl NodeDb
          else (case find (\<lambda>x. ne_token_id x = i) (nd_nodes db) of
            None \<Rightarrow> Inl BadCredential
          | Some x \<Rightarrow> if \<not> cmp (ne_hash x) secret then Inl BadCredential else if ok2 then Inr x else Inl NodeDb))"

section \<open>Rows keep their types\<close>

text \<open>The actual state that goes with a heartbeat state.\<close>

definition actual_of :: "string \<Rightarrow> string" where
  "actual_of h = (if h = ''healthy'' then ''online'' else if h = ''offline'' then ''offline'' else ''degraded'')"

definition node_ok :: "node_entry \<Rightarrow> bool" where
  "node_ok x \<longleftrightarrow> desired_state (ne_desired x) \<and> heartbeat_state (ne_heartbeat x) \<and> ne_actual x = actual_of (ne_heartbeat x)"

definition nodes_ok :: "node_db \<Rightarrow> bool" where
  "nodes_ok db \<longleftrightarrow> distinct (map ne_id (nd_nodes db)) \<and> distinct (map ne_token_id (nd_nodes db)) \<and> (\<forall>x \<in> set (nd_nodes db). node_ok x)"

lemma get_node_entry_id: "get_node_entry db n = Some x \<Longrightarrow> ne_id x = n \<and> x \<in> set (nd_nodes db)"
  by (auto simp: get_node_entry_def find_Some_iff)

lemma find_map_same:
  "(\<And>x. P (g x) = P x) \<Longrightarrow> find P (map g xs) = map_option g (find P xs)"
  by (induction xs) auto

lemma get_node_entry_map:
  assumes "\<And>x. ne_id (f x) = ne_id x"
  shows "get_node_entry (map_node n f db) m = map_option (\<lambda>x. if ne_id x = n then f x else x) (get_node_entry db m)"
  using assms unfolding get_node_entry_def map_node_def by (simp add: find_map_same)

text \<open>Rows under an update that keeps what the invariant of a row reads.\<close>

lemma map_node_keeps:
  assumes "nodes_ok db" "\<And>x. ne_id (f x) = ne_id x" "\<And>x. ne_token_id (f x) = ne_token_id x"
    "\<And>x. x \<in> set (nd_nodes db) \<Longrightarrow> ne_id x = n \<Longrightarrow> node_ok (f x)"
  shows "nodes_ok (map_node n f db)"
proof -
  have "map ne_id (nd_nodes (map_node n f db)) = map ne_id (nd_nodes db)"
    "map ne_token_id (nd_nodes (map_node n f db)) = map ne_token_id (nd_nodes db)"
    using assms(2,3) by (auto simp: map_node_def)
  moreover have "\<forall>x \<in> set (nd_nodes (map_node n f db)). node_ok x"
    using assms(1,4) by (auto simp: nodes_ok_def map_node_def)
  ultimately show ?thesis using assms(1) by (simp add: nodes_ok_def)
qed

lemma record_transition_ok [simp]:
  "nodes_ok (record_transition n k a b db) = nodes_ok db"
  "nd_nodes (record_transition n k a b db) = nd_nodes db"
  by (simp_all add: record_transition_def nodes_ok_def)

lemma new_node_entry_ok [simp]:
  "node_ok (new_node_entry i req tid h enc)" "ne_id (new_node_entry i req tid h enc) = i" "ne_token_id (new_node_entry i req tid h enc) = tid"
  by (simp_all add: new_node_entry_def node_ok_def desired_state_def heartbeat_state_def actual_of_def)

lemma create_node_cases:
  "snd (create_node lib loc rg ok cred i req db) = db \<or>
   (\<exists>req' h enc. snd (create_node lib loc rg ok cred i req db) = db\<lparr>nd_nodes := nd_nodes db @ [new_node_entry i req' (nc_id cred) h enc]\<rparr> \<and>
      (\<forall>x \<in> set (nd_nodes db). ne_id x \<noteq> i \<and> ne_token_id x \<noteq> nc_id cred))"
  by (simp add: create_node_def Let_def split: sum.splits option.splits) metis

lemma create_node_ok: "nodes_ok db \<Longrightarrow> nodes_ok (snd (create_node lib loc rg ok cred i req db))"
  using create_node_cases [of lib loc rg ok cred i req db] by (auto 4 4 simp: nodes_ok_def)

text \<open>The rows after each way of changing one.\<close>

lemma patched_ok:
  "node_ok x \<Longrightarrow> (\<And>d. np_desired p = Some d \<Longrightarrow> desired_state d) \<Longrightarrow> node_ok (patched p x)"
  by (auto simp: patched_def node_ok_def Let_def split: option.splits)

lemma row_ids [simp]:
  "ne_id (updated_row req m d de st x) = ne_id x" "ne_token_id (updated_row req m d de st x) = ne_token_id x"
  "ne_id (patched p x) = ne_id x" "ne_token_id (patched p x) = ne_token_id x"
  "ne_id (desired_row de x) = ne_id x" "ne_token_id (desired_row de x) = ne_token_id x"
  "ne_id (actual_row a x) = ne_id x" "ne_token_id (actual_row a x) = ne_token_id x"
  "ne_id (classified_row now h a c x) = ne_id x" "ne_token_id (classified_row now h a c x) = ne_token_id x"
  "ne_id (heartbeat_row st now q x) = ne_id x" "ne_token_id (heartbeat_row st now q x) = ne_token_id x"
  by (auto simp: patched_def updated_row_def desired_row_def actual_row_def classified_row_def heartbeat_row_def Let_def split: option.splits)

lemma rows_ok:
  "node_ok x \<Longrightarrow> desired_state de \<Longrightarrow> node_ok (updated_row req m d de st x)"
  "node_ok x \<Longrightarrow> desired_state de \<Longrightarrow> node_ok (desired_row de x)"
  "node_ok x \<Longrightarrow> heartbeat_state h \<Longrightarrow> node_ok (classified_row now h (actual_of h) c x)"
  "node_ok x \<Longrightarrow> node_ok (heartbeat_row st now q x)"
  by (simp_all add: node_ok_def updated_row_def desired_row_def classified_row_def heartbeat_row_def)

text \<open>Changes that keep identifiers, credentials and the invariant of a row.\<close>

definition row_change :: "(node_entry \<Rightarrow> node_entry) \<Rightarrow> bool" where
  "row_change f \<longleftrightarrow> (\<forall>x. ne_id (f x) = ne_id x \<and> ne_token_id (f x) = ne_token_id x \<and> (node_ok x \<longrightarrow> node_ok (f x)))"

lemma nodes_ok_map [simp]: "row_change f \<Longrightarrow> nodes_ok db \<Longrightarrow> nodes_ok (map_node n f db)"
  by (rule map_node_keeps) (auto simp: row_change_def nodes_ok_def)

lemma row_changes [simp]:
  "desired_state de \<Longrightarrow> row_change (updated_row req m d de st)"
  "desired_state de \<Longrightarrow> row_change (desired_row de)"
  "heartbeat_state h \<Longrightarrow> row_change (classified_row now h (actual_of h) c)"
  "row_change (heartbeat_row st now q)"
  "np_desired p = None \<Longrightarrow> row_change (patched p)"
  "np_desired p = Some d' \<Longrightarrow> desired_state d' \<Longrightarrow> row_change (patched p)"
  using patched_ok [of _ p] by (simp_all add: row_change_def rows_ok)

lemma update_node_ok: "nodes_ok db \<Longrightarrow> nodes_ok (snd (update_node lib loc ok n req db))"
  by (simp add: update_node_def Let_def split: option.split)

lemma patch_node_cases:
  "snd (patch_node lib loc rd ok n p db) = db \<or> snd (patch_node lib loc rd ok n p db) = map_node n (patched p) db"
proof (cases "if rd then get_node_entry db n else None")
  case (Some x)
  then show ?thesis
    by (cases "validate_node_endpoint lib (ne_name (patched p x)) (ne_base_url (patched p x)) (ne_fqdn (patched p x)) (ne_scheme (patched p x))
          (ne_memory (patched p x)) (ne_disk (patched p x)) (ne_upload (patched p x)) (ne_listen (patched p x)) (ne_sftp (patched p x))";
        cases "get_node_entry (map_node n (patched p) db) n"; simp add: patch_node_def Let_def)
qed (simp add: patch_node_def)

lemma patch_node_ok: "nodes_ok db \<Longrightarrow> nodes_ok (snd (patch_node lib loc rd ok n p db))"
  by (cases "np_desired p") (simp_all add: patch_node_def Let_def split: option.split sum.split)

lemma delete_node_ok: "nodes_ok db \<Longrightarrow> nodes_ok (snd (delete_node ok n db))"
  by (simp add: delete_node_def Let_def nodes_ok_def distinct_map_filter)

lemma set_node_desired_state_ok: "nodes_ok db \<Longrightarrow> nodes_ok (snd (set_node_desired_state ok lg n d db))"
  by (simp add: set_node_desired_state_def Let_def split: option.split)

lemma set_heartbeat_classification_ok:
  "nodes_ok db \<Longrightarrow> a = actual_of h \<Longrightarrow> nodes_ok (snd (set_heartbeat_classification ok l1 l2 now n h a c db))"
  by (simp add: set_heartbeat_classification_def Let_def split: option.split)

lemma update_node_heartbeat_ok: "nodes_ok db \<Longrightarrow> nodes_ok (snd (update_node_heartbeat ok now n req db))"
  by (simp add: update_node_heartbeat_def Let_def split: option.split)

lemma rotate_node_token_ok: "nodes_ok db \<Longrightarrow> nodes_ok (snd (rotate_node_token ok cred n db))"
proof -
  assume a: "nodes_ok db"
  let ?f = "\<lambda>h enc (x :: node_entry). x\<lparr>ne_hash := h, ne_token_id := nc_id cred, ne_token_plain := [], ne_token_enc := enc\<rparr>"
  have "nodes_ok (map_node n (?f h enc) db)" if "\<forall>x \<in> set (nd_nodes db). ne_id x \<noteq> n \<longrightarrow> ne_token_id x \<noteq> nc_id cred" for h enc
  proof -
    have "distinct (map ne_token_id (map (\<lambda>x. if ne_id x = n then ?f h enc x else x) xs))"
      if "distinct (map ne_id xs)" "distinct (map ne_token_id xs)" "\<forall>x \<in> set xs. ne_id x \<noteq> n \<longrightarrow> ne_token_id x \<noteq> nc_id cred" for xs
      using that by (induction xs) (auto simp: image_iff split: if_splits)
    then have "distinct (map ne_token_id (nd_nodes (map_node n (?f h enc) db)))"
      using a that by (simp add: nodes_ok_def map_node_def del: map_map)
    moreover have "map ne_id (nd_nodes (map_node n (?f h enc) db)) = map ne_id (nd_nodes db)" by (auto simp: map_node_def)
    moreover have "\<forall>x \<in> set (nd_nodes (map_node n (?f h enc) db)). node_ok x" using a by (auto simp: nodes_ok_def map_node_def node_ok_def)
    ultimately show ?thesis using a by (simp add: nodes_ok_def)
  qed
  then show ?thesis using a by (auto simp: rotate_node_token_def split: option.splits)
qed

section \<open>Credentials\<close>

lemma find_unique:
  assumes "x \<in> set xs" "P x" "\<And>y. y \<in> set xs \<Longrightarrow> P y \<Longrightarrow> y = x"
  shows "find P xs = Some x"
proof -
  obtain y where y: "find P xs = Some y" using assms(1,2) by (metis find_None_iff not_None_eq)
  then have "y \<in> set xs" "P y" by (auto simp: find_Some_iff)
  then show ?thesis using y assms(3) by simp
qed

text \<open>Rotating the credential of a node takes effect at once: the new one is accepted, by the heartbeat endpoint
  and by the remote API, and every credential with another identifier is refused for this node.\<close>

theorem rotation_replaces_credential:
  assumes "rotate_node_token ok cred n db = (Inr t, db')" "nodes_ok db"
    "nc_hash cred = Some h" "cmp h (nc_secret cred)" "prefix ''$2'' h"
    "nc_id cred \<noteq> []" "CHR ''.'' \<notin> set (nc_id cred)" "nc_secret cred \<noteq> []" "trim_space n \<noteq> []" "trim_space t = t"
    "i \<noteq> nc_id cred" "CHR ''.'' \<notin> set i" "trim_space (i @ ''.'' @ s) \<noteq> []"
  shows "verify_node_token cmp dec True n t db' = Inr True \<and> verify_node_token cmp dec True n (i @ ''.'' @ s) db' = Inr False \<and>
    (\<exists>x. authenticate_remote_node cmp True True t db' = Inr x \<and> ne_id x = n)"
proof -
  obtain enc where enc: "nc_enc cred = Some enc" using assms(1) by (auto simp: rotate_node_token_def split: option.splits)
  define f where "f = (\<lambda>x :: node_entry. x\<lparr>ne_hash := h, ne_token_id := nc_id cred, ne_token_plain := [], ne_token_enc := enc\<rparr>)"
  have r: "t = credential_text cred" "db' = map_node n f db" "get_node_entry db n \<noteq> None" "\<forall>x \<in> set (nd_nodes db). ne_id x \<noteq> n \<longrightarrow> ne_token_id x \<noteq> nc_id cred"
    using assms(1,3) enc by (auto simp: rotate_node_token_def f_def split: if_splits)
  obtain x where x: "get_node_entry db n = Some x" "ne_id x = n" "x \<in> set (nd_nodes db)" using r(3) get_node_entry_id [of db n] by auto
  have fx: "get_node_entry db' n = Some (f x)" using x r(2) get_node_entry_map [of f n db n] by (simp add: f_def)
  have split: "split_n2 (CHR ''.'') t = (nc_id cred, Some (nc_secret cred))" "split_n2 (CHR ''.'') (i @ ''.'' @ s) = (i, Some s)"
    using assms(7,12) by (simp_all add: split_n2_Some r(1) credential_text_def)
  have v: "verify_node_token cmp dec True n t db' = Inr True" "verify_node_token cmp dec True n (i @ ''.'' @ s) db' = Inr False"
  proof -
    have dots: "CHR ''.'' \<in> set t" "t \<noteq> []" by (simp_all add: r(1) credential_text_def)
    show "verify_node_token cmp dec True n t db' = Inr True"
      using assms(4-6,9,10) split(1) fx dots by (simp add: verify_node_token_def f_def)
    show "verify_node_token cmp dec True n (i @ ''.'' @ s) db' = Inr False"
      using assms(6,9,11,13) split(2) fx by (simp add: verify_node_token_def f_def)
  qed
  have "find (\<lambda>y. ne_token_id y = nc_id cred) (nd_nodes db') = Some (f x)"
  proof (rule find_unique)
    show "f x \<in> set (nd_nodes db')" using x r(2) by (auto simp: map_node_def)
    show "y = f x" if y: "y \<in> set (nd_nodes db')" "ne_token_id y = nc_id cred" for y
    proof -
      obtain z where z: "z \<in> set (nd_nodes db)" "y = (if ne_id z = n then f z else z)" using y(1) r(2) by (auto simp: map_node_def)
      then have "ne_id z = n" using y(2) r(4) by (auto split: if_splits)
      then have "z = x" using z(1) x assms(2) by (simp add: nodes_ok_def distinct_map inj_on_def)
      then show ?thesis using z(2) x by simp
    qed
  qed (simp add: f_def)
  then have "authenticate_remote_node cmp True True t db' = Inr (f x)"
    using assms(4,6,8,10) split(1) by (simp add: authenticate_remote_node_def f_def)
  then show ?thesis using v x by (auto simp: f_def)
qed

text \<open>A small table.\<close>

definition sample_entry :: "string \<Rightarrow> string \<Rightarrow> node_entry" where
  "sample_entry i h = (new_node_entry i \<lparr>cn_name = ''node'', cn_location = ''l'', cn_region = [], cn_base_url = ''http://h'', cn_fqdn = ''h'', cn_scheme = ''http'',
     cn_memory = 0, cn_disk = 0, cn_upload = 100, cn_base = ''/srv'', cn_listen = 8080, cn_sftp = 2022\<rparr> (''k'' @ i) ''$2a$old'' [])\<lparr>ne_heartbeat := h, ne_actual := actual_of h\<rparr>"

definition sample_node_table :: node_db where
  "sample_node_table = \<lparr>nd_nodes = [sample_entry ''a'' ''offline'', sample_entry ''b'' ''healthy''], nd_transitions = [], nd_servers = [], nd_allocations = []\<rparr>"

text \<open>An instance: a node of a small table; the hash of a password is the password behind a prefix.\<close>

theorem rotation_replaces_credential_witness:
  "verify_node_token (\<lambda>h p. h = ''$2a$'' @ p) (\<lambda>_ _. None) True ''a'' ''new.pw''
     (snd (rotate_node_token True \<lparr>nc_id = ''new'', nc_secret = ''pw'', nc_hash = Some ''$2a$pw'', nc_enc = Some []\<rparr> ''a'' sample_node_table)) = Inr True \<and>
   verify_node_token (\<lambda>h p. h = ''$2a$'' @ p) (\<lambda>_ _. None) True ''a'' ''ka.old''
     (snd (rotate_node_token True \<lparr>nc_id = ''new'', nc_secret = ''pw'', nc_hash = Some ''$2a$pw'', nc_enc = Some []\<rparr> ''a'' sample_node_table)) = Inr False"
proof -
  let ?c = "\<lparr>nc_id = ''new'', nc_secret = ''pw'', nc_hash = Some ''$2a$pw'', nc_enc = Some []\<rparr>"
  let ?r = "rotate_node_token True ?c ''a'' sample_node_table"
  have r: "?r = (Inr ''new.pw'', snd ?r)" by code_simp
  have ok: "nodes_ok sample_node_table" by code_simp
  have t: "trim_space ''a'' \<noteq> []" "trim_space ''new.pw'' = ''new.pw''" "trim_space (''ka'' @ ''.'' @ ''old'') \<noteq> []" by code_simp+
  show ?thesis
    using rotation_replaces_credential [OF r ok, where cmp = "\<lambda>h p. h = ''$2a$'' @ p" and dec = "\<lambda>_ _. None" and h = "''$2a$pw''" and i = "''ka''" and s = "''old''"] t
    by simp
qed

end
