(* ===== verification/Heartbeat_Monitor.thy ===== *)
theory Heartbeat_Monitor
  imports Node_Table
begin

text \<open>
  The heartbeat monitor (\<^verbatim>\<open>services/heartbeatmonitor/service.go\<close>), which classifies nodes by the age of
  their last heartbeat and by the history of heartbeats (\<^verbatim>\<open>store/store_observability.go\<close>), and the events it
  publishes. Everything that changes a node is then put together as a step relation: the requests of the API, the
  heartbeats of the nodes and the evaluations of the monitor, which works on rows it has read before. The age in
  seconds, reasons and counters are only reported and left out.
\<close>

section \<open>History\<close>

text \<open>The identifier of a row is a UUID, which the database compares as a number.\<close>

record heartbeat_entry =
  he_id :: int
  he_node :: string
  he_at :: gotime
  he_success :: bool

definition newer_entry :: "heartbeat_entry \<Rightarrow> heartbeat_entry \<Rightarrow> bool" where
  "newer_entry a b \<longleftrightarrow> he_at b < he_at a \<or> (he_at a = he_at b \<and> he_id b < he_id a)"

definition normalize_timeline_limit :: "int \<Rightarrow> int" where
  "normalize_timeline_limit l = (if l \<le> 0 then 100 else if 500 < l then 500 else l)"

definition list_heartbeat_history :: "heartbeat_entry list \<Rightarrow> string \<Rightarrow> int \<Rightarrow> heartbeat_entry list" where
  "list_heartbeat_history hs n l =
     take (nat (normalize_timeline_limit l)) (slice_stable newer_entry (filter (\<lambda>h. he_node h = n) hs))"

definition create_heartbeat_history :: "bool \<Rightarrow> int \<Rightarrow> string \<Rightarrow> gotime \<Rightarrow> bool \<Rightarrow> heartbeat_entry list \<Rightarrow> heartbeat_entry list" where
  "create_heartbeat_history ok i n now success hs =
     (if ok then hs @ [\<lparr>he_id = i, he_node = n, he_at = now, he_success = success\<rparr>] else hs)"

definition record_node_heartbeat :: "bool \<Rightarrow> int \<Rightarrow> node_entry \<Rightarrow> gotime \<Rightarrow> heartbeat_request \<Rightarrow> heartbeat_entry list \<Rightarrow> heartbeat_entry list" where
  "record_node_heartbeat ok i x now req hs =
     (if trim_space (ne_id x) = [] then hs else create_heartbeat_history ok i (ne_id x) now (trim_space (hq_error req) = []) hs)"

definition record_heartbeat_failure :: "bool \<Rightarrow> int \<Rightarrow> string \<Rightarrow> gotime \<Rightarrow> heartbeat_entry list \<Rightarrow> heartbeat_entry list" where
  "record_heartbeat_failure ok i n now hs = (if trim_space n = [] then hs else create_heartbeat_history ok i n now False hs)"

fun consecutive_successes :: "heartbeat_entry list \<Rightarrow> int" where
  "consecutive_successes [] = 0"
| "consecutive_successes (h # hs) = (if he_success h then 1 + consecutive_successes hs else 0)"

section \<open>Configuration and classification\<close>

record monitor_config =
  mc_warning :: duration
  mc_offline :: duration
  mc_recovery :: int
  mc_interval :: duration

definition default_config :: monitor_config where
  "default_config = \<lparr>mc_warning = 30 * second, mc_offline = 90 * second, mc_recovery = 2, mc_interval = 30 * second\<rparr>"

definition normalize_config :: "monitor_config \<Rightarrow> monitor_config" where
  "normalize_config c =
     (let w = (if mc_warning c \<le> 0 then mc_warning default_config else mc_warning c);
          f = (if mc_offline c \<le> 0 then mc_offline default_config else mc_offline c)
      in c\<lparr>mc_warning := w, mc_offline := (if f < w then w else f),
           mc_recovery := (if mc_recovery c \<le> 0 then mc_recovery default_config else mc_recovery c),
           mc_interval := (if mc_interval c \<le> 0 then mc_interval default_config else mc_interval c)\<rparr>)"

text \<open>Twice the threshold is an expression of 64-bit integers.\<close>

definition twice :: "duration \<Rightarrow> duration" where
  "twice d = sint (of_int (d * 2) :: 64 word)"

record classification =
  cl_heartbeat :: string
  cl_actual :: string
  cl_count :: int

definition hb_class :: "string \<Rightarrow> string \<Rightarrow> int \<Rightarrow> classification" where
  "hb_class h a k = \<lparr>cl_heartbeat = h, cl_actual = a, cl_count = k\<rparr>"

definition classify :: "monitor_config \<Rightarrow> node_entry \<Rightarrow> heartbeat_entry list \<Rightarrow> gotime \<Rightarrow> classification" where
  "classify c x hist now =
     (case ne_seen x of
        None \<Rightarrow> hb_class ''offline'' ''offline'' 0
      | Some seen \<Rightarrow>
          let successes = consecutive_successes hist;
              age = max 0 (time_sub now seen)
          in if hist \<noteq> [] \<and> \<not> he_success (hd hist) \<and> age < mc_offline c then hb_class ''suspected'' ''degraded'' 0
             else if twice (mc_offline c) \<le> age then hb_class ''offline'' ''offline'' 0
             else if mc_offline c \<le> age then
               (if ne_heartbeat x = ''unreachable'' \<or> ne_heartbeat x = ''offline'' then hb_class ''offline'' ''offline'' 0
                else hb_class ''unreachable'' ''degraded'' 0)
             else if mc_warning c \<le> age then hb_class ''suspected'' ''degraded'' 0
             else if ne_heartbeat x \<in> {''offline'', ''unreachable'', ''suspected'', ''recovering''} then
               (if mc_recovery c \<le> successes then hb_class ''healthy'' ''online'' successes
                else hb_class ''recovering'' ''degraded'' successes)
             else hb_class ''healthy'' ''online'' successes)"

section \<open>Evaluation\<close>

datatype node_event = NodeSuspected | NodeUnreachable | NodeOffline | NodeRecovered | ActualStateChanged

definition state_event :: "string \<Rightarrow> node_event" where
  "state_event h =
     (if h = ''suspected'' then NodeSuspected else if h = ''unreachable'' then NodeUnreachable
      else if h = ''offline'' then NodeOffline else if h = ''healthy'' then NodeRecovered else ActualStateChanged)"

definition publish_transitions :: "node_entry \<Rightarrow> node_entry \<Rightarrow> node_event list" where
  "publish_transitions before after =
     (if ne_heartbeat before = ne_heartbeat after then (if ne_actual before \<noteq> ne_actual after then [ActualStateChanged] else [])
      else state_event (ne_heartbeat after) # (if ne_actual before \<noteq> ne_actual after then [ActualStateChanged] else []))"

record monitor =
  mo_db :: node_db
  mo_history :: "heartbeat_entry list"
  mo_events :: "(string \<times> node_event) list"
  mo_pending :: "node_entry list"

text \<open>\<open>ev_history\<close> says whether the history can be read; the others are the answers of the update.\<close>

record eval_answers =
  ev_history :: bool
  ev_ok :: bool
  ev_log1 :: bool
  ev_log2 :: bool

definition evaluate :: "monitor_config \<Rightarrow> eval_answers \<Rightarrow> gotime \<Rightarrow> bool \<Rightarrow> node_entry \<Rightarrow> monitor \<Rightarrow> (node_error + classification) \<times> monitor" where
  "evaluate c ev now persist x m =
     (if \<not> ev_history ev then (Inl NodeDb, m)
      else let k = classify c x (list_heartbeat_history (mo_history m) (ne_id x) (mc_recovery c + 3)) now in
           if \<not> persist then (Inr k, m)
           else (case set_heartbeat_classification (ev_ok ev) (ev_log1 ev) (ev_log2 ev) now (ne_id x) (cl_heartbeat k) (cl_actual k) (cl_count k) (mo_db m) of
             (Inl e, db1) \<Rightarrow> (Inl e, m\<lparr>mo_db := db1\<rparr>)
           | (Inr (before, after), db1) \<Rightarrow>
               (Inr k, m\<lparr>mo_db := db1,
                 mo_events := mo_events m @
                   (if ne_heartbeat before \<noteq> cl_heartbeat k \<or> ne_actual before \<noteq> cl_actual k
                    then map (Pair (ne_id after)) (publish_transitions before after) else [])\<rparr>)))"

text \<open>A round of the monitor reads all rows and evaluates them one by one; an error does not end it.\<close>

definition evaluate_begin :: "monitor \<Rightarrow> monitor" where
  "evaluate_begin m = m\<lparr>mo_pending := nd_nodes (mo_db m)\<rparr>"

definition evaluate_next :: "monitor_config \<Rightarrow> eval_answers \<Rightarrow> gotime \<Rightarrow> monitor \<Rightarrow> monitor" where
  "evaluate_next c ev now m =
     (case mo_pending m of
        [] \<Rightarrow> m
      | x # xs \<Rightarrow> (snd (evaluate c ev now True x m))\<lparr>mo_pending := xs\<rparr>)"

fun evaluate_loop :: "monitor_config \<Rightarrow> eval_answers \<Rightarrow> gotime \<Rightarrow> node_entry list \<Rightarrow> monitor \<Rightarrow> monitor" where
  "evaluate_loop c ev now [] m = m"
| "evaluate_loop c ev now (x # xs) m = evaluate_loop c ev now xs (snd (evaluate c ev now True x m))"

definition evaluate_all :: "monitor_config \<Rightarrow> eval_answers \<Rightarrow> gotime \<Rightarrow> monitor \<Rightarrow> monitor" where
  "evaluate_all c ev now m = evaluate_loop c ev now (nd_nodes (mo_db m)) m"

definition evaluate_node :: "monitor_config \<Rightarrow> eval_answers \<Rightarrow> gotime \<Rightarrow> bool \<Rightarrow> string \<Rightarrow> monitor \<Rightarrow> (node_error + classification) \<times> monitor" where
  "evaluate_node c ev now persist n m =
     (case get_node_entry (mo_db m) n of None \<Rightarrow> (Inl NodeMissing, m) | Some x \<Rightarrow> evaluate c ev now persist x m)"

section \<open>The request of a node\<close>

text \<open>\<^verbatim>\<open>POST /nodes/:id/heartbeat\<close>: the credential, then the update.\<close>

datatype heartbeat_answer = HeartbeatServerError | HeartbeatUnauthorized | HeartbeatRejected | HeartbeatAccepted node_entry

definition heartbeat_handler ::
  "(string \<Rightarrow> string \<Rightarrow> bool) \<Rightarrow> (string \<Rightarrow> string \<Rightarrow> string option) \<Rightarrow> bool \<Rightarrow> bool \<Rightarrow> gotime \<Rightarrow> string \<Rightarrow> string \<Rightarrow> heartbeat_request option \<Rightarrow> monitor
     \<Rightarrow> heartbeat_answer \<times> monitor" where
  "heartbeat_handler cmp dec ok1 ok2 now n token body m =
     (case verify_node_token cmp dec ok1 n token (mo_db m) of
        Inl _ \<Rightarrow> (HeartbeatServerError, m)
      | Inr False \<Rightarrow> (HeartbeatUnauthorized, m)
      | Inr True \<Rightarrow>
          (case body of
             None \<Rightarrow> (HeartbeatRejected, m)
           | Some req \<Rightarrow>
               (case update_node_heartbeat ok2 now n req (mo_db m) of
                  (Inl _, db1) \<Rightarrow> (HeartbeatRejected, m\<lparr>mo_db := db1\<rparr>)
                | (Inr x, db1) \<Rightarrow> (HeartbeatAccepted x, m\<lparr>mo_db := db1\<rparr>))))"

section \<open>Classification\<close>

lemma classify_typed:
  "heartbeat_state (cl_heartbeat (classify c x hist now)) \<and> cl_actual (classify c x hist now) = actual_of (cl_heartbeat (classify c x hist now))"
  by (simp add: classify_def hb_class_def heartbeat_state_def actual_of_def Let_def split: option.split)

definition severity :: "string \<Rightarrow> nat" where
  "severity h = (if h = ''healthy'' then 0 else if h = ''recovering'' then 1 else if h = ''suspected'' then 2 else if h = ''unreachable'' then 3 else 4)"

lemma twice_bounded: "0 \<le> d \<Longrightarrow> d * 2 < 2 ^ 63 \<Longrightarrow> twice d = d * 2"
  unfolding twice_def by (simp only: int_word_sint) simp

lemma normalize_config_order:
  "0 < mc_warning (normalize_config c) \<and> mc_warning (normalize_config c) \<le> mc_offline (normalize_config c) \<and> 0 < mc_recovery (normalize_config c)"
  by (simp add: normalize_config_def default_config_def Let_def)

lemma time_sub_mono: "now \<le> now' \<Longrightarrow> time_sub now seen \<le> time_sub now' seen"
  by (simp add: time_sub_def)

text \<open>The longer a node has been silent, the worse its classification: with a normalised configuration, a later
  evaluation of the same row and history never gives a better state.\<close>

theorem older_never_better:
  assumes "now \<le> now'" "mc_offline (normalize_config c) * 2 < 2 ^ 63"
  shows "severity (cl_heartbeat (classify (normalize_config c) x hist now)) \<le> severity (cl_heartbeat (classify (normalize_config c) x hist now'))"
proof (cases "ne_seen x")
  case None
  then show ?thesis by (simp add: classify_def)
next
  case (Some seen)
  let ?c = "normalize_config c"
  define a b where "a = max 0 (time_sub now seen)" and "b = max 0 (time_sub now' seen)"
  have ab: "a \<le> b" using time_sub_mono [OF assms(1), of seen] by (simp add: a_def b_def)
  note o = normalize_config_order [of c]
  have t: "twice (mc_offline ?c) = mc_offline ?c * 2" using assms(2) o by (intro twice_bounded) auto
  show ?thesis
    using ab o unfolding classify_def Some Let_def option.case t a_def [symmetric] b_def [symmetric]
    by (auto simp: hb_class_def severity_def)
qed

text \<open>An instance: a healthy node, one second and two minutes after its heartbeat.\<close>

theorem older_never_better_witness:
  "severity (cl_heartbeat (classify (normalize_config default_config) ((sample_entry ''a'' ''healthy'')\<lparr>ne_seen := Some 0\<rparr>) [] (1 * second))) \<le>
   severity (cl_heartbeat (classify (normalize_config default_config) ((sample_entry ''a'' ''healthy'')\<lparr>ne_seen := Some 0\<rparr>) [] (120 * second)))"
  by (rule older_never_better) (simp_all add: normalize_config_def default_config_def)

lemma consecutive_successes_nonneg [simp]: "0 \<le> consecutive_successes hist"
  by (induction hist) auto

lemma successes_threshold:
  "k \<le> length hist \<Longrightarrow> \<forall>h \<in> set (take k hist). he_success h \<Longrightarrow> int k \<le> consecutive_successes hist"
proof (induction hist arbitrary: k)
  case (Cons h hist)
  then show ?case by (cases k) (auto simp: add_nonneg_nonneg)
qed simp

text \<open>A node recovers when its history says so: with a heartbeat younger than the warning threshold and the
  newest entries of the history successful, as many as the recovery threshold asks for, it is classified healthy and
  online whatever its state was.\<close>

theorem recovery_threshold_heals:
  assumes "ne_seen x = Some seen" "time_sub now seen < mc_warning (normalize_config c)" "mc_offline (normalize_config c) * 2 < 2 ^ 63"
    "mc_recovery (normalize_config c) \<le> int (length hist)"
    "\<forall>h \<in> set (take (nat (mc_recovery (normalize_config c))) hist). he_success h"
  shows "cl_heartbeat (classify (normalize_config c) x hist now) = ''healthy'' \<and> cl_actual (classify (normalize_config c) x hist now) = ''online''"
proof -
  let ?c = "normalize_config c"
  note o = normalize_config_order [of c]
  have t: "twice (mc_offline ?c) = mc_offline ?c * 2" using assms(3) o by (intro twice_bounded) auto
  have s: "mc_recovery ?c \<le> consecutive_successes hist" using successes_threshold [of "nat (mc_recovery ?c)" hist] assms(4,5) o by simp
  have "hist \<noteq> []" using assms(4) o by auto
  then have "he_success (hd hist)" using assms(5) o by (cases hist) (auto simp: take_Cons')
  moreover have "max 0 (time_sub now seen) < mc_warning ?c" using assms(2) o by simp
  ultimately show ?thesis using assms(1) o s by (auto simp: classify_def hb_class_def Let_def t)
qed

text \<open>A node that was offline, with two successful heartbeats.\<close>

theorem recovery_threshold_heals_witness:
  "cl_heartbeat (classify (normalize_config default_config) ((sample_entry ''a'' ''offline'')\<lparr>ne_seen := Some 0\<rparr>)
     [\<lparr>he_id = 2, he_node = ''a'', he_at = 0, he_success = True\<rparr>, \<lparr>he_id = 1, he_node = ''a'', he_at = -5, he_success = True\<rparr>] (1 * second)) = ''healthy''"
proof -
  have d: "normalize_config default_config = default_config" by (simp add: normalize_config_def default_config_def)
  show ?thesis
    using recovery_threshold_heals [where c = default_config and now = "1 * second" and x = "(sample_entry ''a'' ''offline'')\<lparr>ne_seen := Some 0\<rparr>" and seen = 0 and
        hist = "[\<lparr>he_id = 2, he_node = ''a'', he_at = 0, he_success = True\<rparr>, \<lparr>he_id = 1, he_node = ''a'', he_at = -5, he_success = True\<rparr>]"]
    by (simp add: d) (simp add: default_config_def time_sub_def)
qed

section \<open>Everything that changes a node\<close>

text \<open>The steps of the system. Entries of the history are written only where \<open>recorded\<close> holds: the functions that
  write them have no caller.\<close>

inductive node_step :: "bool \<Rightarrow> monitor_config \<Rightarrow> monitor \<Rightarrow> monitor \<Rightarrow> bool" for recorded c where
  create: "node_step recorded c m (m\<lparr>mo_db := snd (create_node lib loc rg ok cred i req (mo_db m))\<rparr>)"
| update: "node_step recorded c m (m\<lparr>mo_db := snd (update_node lib loc ok n ureq (mo_db m))\<rparr>)"
| patch: "node_step recorded c m (m\<lparr>mo_db := snd (patch_node lib loc rd ok n p (mo_db m))\<rparr>)"
| delete: "node_step recorded c m (m\<lparr>mo_db := snd (delete_node ok n (mo_db m))\<rparr>)"
| desired: "node_step recorded c m (m\<lparr>mo_db := snd (set_node_desired_state ok lg n d (mo_db m))\<rparr>)"
| rotate: "node_step recorded c m (m\<lparr>mo_db := snd (rotate_node_token ok cred n (mo_db m))\<rparr>)"
| heartbeat: "node_step recorded c m (snd (heartbeat_handler cmp dec ok ok2 now n token body m))"
| tick: "node_step recorded c m (evaluate_begin m)"
| evaluation: "node_step recorded c m (evaluate_next c ev now m)"
| single: "node_step recorded c m (snd (evaluate_node c ev now persist n m))"
| history: "recorded \<Longrightarrow> node_step recorded c m (m\<lparr>mo_history := create_heartbeat_history ok k n now success (mo_history m)\<rparr>)"

definition fresh_monitor :: monitor where
  "fresh_monitor = \<lparr>mo_db = \<lparr>nd_nodes = [], nd_transitions = [], nd_servers = [], nd_allocations = []\<rparr>, mo_history = [], mo_events = [], mo_pending = []\<rparr>"

lemma evaluate_db:
  "mo_db (snd (evaluate c ev now persist x m)) = mo_db m \<or>
   (\<exists>k. k = classify c x (list_heartbeat_history (mo_history m) (ne_id x) (mc_recovery c + 3)) now \<and>
      mo_db (snd (evaluate c ev now persist x m)) =
        snd (set_heartbeat_classification (ev_ok ev) (ev_log1 ev) (ev_log2 ev) now (ne_id x) (cl_heartbeat k) (cl_actual k) (cl_count k) (mo_db m)))"
  by (auto simp: evaluate_def Let_def split: prod.splits sum.splits)

lemma evaluate_rest [simp]:
  "mo_history (snd (evaluate c ev now persist x m)) = mo_history m" "mo_pending (snd (evaluate c ev now persist x m)) = mo_pending m"
  by (auto simp: evaluate_def Let_def split: prod.splits sum.splits)

lemma evaluate_ok: "nodes_ok (mo_db m) \<Longrightarrow> nodes_ok (mo_db (snd (evaluate c ev now persist x m)))"
  using evaluate_db [of c ev now persist x m] set_heartbeat_classification_ok classify_typed by metis

lemma heartbeat_handler_db:
  "mo_db (snd (heartbeat_handler cmp dec ok ok2 now n token body m)) = mo_db m \<or>
   (\<exists>req. mo_db (snd (heartbeat_handler cmp dec ok ok2 now n token body m)) = snd (update_node_heartbeat ok2 now n req (mo_db m)))"
proof (cases "verify_node_token cmp dec ok n token (mo_db m) = Inr True \<and> body \<noteq> None")
  case True
  then obtain req where "body = Some req" by blast
  then have "mo_db (snd (heartbeat_handler cmp dec ok ok2 now n token body m)) = snd (update_node_heartbeat ok2 now n req (mo_db m))"
    using True by (simp add: heartbeat_handler_def split: prod.split sum.split)
  then show ?thesis by blast
qed (auto simp: heartbeat_handler_def split: sum.splits bool.splits option.splits)

lemma heartbeat_handler_rest [simp]:
  "mo_history (snd (heartbeat_handler cmp dec ok ok2 now n token body m)) = mo_history m"
  "mo_pending (snd (heartbeat_handler cmp dec ok ok2 now n token body m)) = mo_pending m"
  by (auto simp: heartbeat_handler_def split: sum.splits bool.splits option.splits prod.splits)

lemma node_step_ok: "node_step recorded c m m' \<Longrightarrow> nodes_ok (mo_db m) \<Longrightarrow> nodes_ok (mo_db m')"
proof (induction rule: node_step.induct)
  case (heartbeat m cmp dec ok ok2 now n token body)
  then show ?case using heartbeat_handler_db [of cmp dec ok ok2 now n token body m] update_node_heartbeat_ok by metis
qed (simp_all add: create_node_ok update_node_ok patch_node_ok delete_node_ok set_node_desired_state_ok rotate_node_token_ok
      evaluate_begin_def evaluate_next_def evaluate_node_def evaluate_ok split: list.split option.split)

lemma nodes_ok_reachable:
  assumes "(node_step recorded c)\<^sup>*\<^sup>* fresh_monitor m"
  shows "nodes_ok (mo_db m)"
  using assms
proof (induction rule: rtranclp_induct)
  case base
  show ?case by (simp add: fresh_monitor_def nodes_ok_def)
next
  case (step m m')
  then show ?case by (simp add: node_step_ok)
qed



section \<open>Without a history no node recovers\<close>

definition no_healthy :: "node_entry list \<Rightarrow> bool" where
  "no_healthy xs \<longleftrightarrow> (\<forall>x \<in> set xs. heartbeat_state (ne_heartbeat x) \<and> ne_heartbeat x \<noteq> ''healthy'')"

lemma classify_not_healthy:
  "no_healthy [x] \<Longrightarrow> 0 < mc_recovery c \<Longrightarrow> cl_heartbeat (classify c x [] now) \<noteq> ''healthy''"
  by (auto simp: no_healthy_def heartbeat_state_def classify_def hb_class_def Let_def split: option.split)

lemma no_healthy_map [simp]:
  "(\<And>x. ne_heartbeat (f x) = ne_heartbeat x) \<Longrightarrow> no_healthy (nd_nodes db) \<Longrightarrow> no_healthy (nd_nodes (map_node n f db))"
  by (auto simp: no_healthy_def map_node_def)

lemma no_healthy_classified [simp]:
  "no_healthy (nd_nodes db) \<Longrightarrow> heartbeat_state h \<Longrightarrow> h \<noteq> ''healthy'' \<Longrightarrow> no_healthy (nd_nodes (map_node n (classified_row now h a k) db))"
  by (auto simp: no_healthy_def map_node_def classified_row_def)

lemma no_healthy_new: "no_healthy xs \<Longrightarrow> no_healthy (xs @ [new_node_entry i req tid h enc])"
proof -
  have "heartbeat_state ''offline''" by (simp add: heartbeat_state_def)
  then show "no_healthy xs \<Longrightarrow> ?thesis" by (simp add: no_healthy_def new_node_entry_def)
qed

lemma row_heartbeats [simp]:
  "ne_heartbeat (updated_row req m d de st x) = ne_heartbeat x" "ne_heartbeat (patched p x) = ne_heartbeat x"
  "ne_heartbeat (desired_row de x) = ne_heartbeat x" "ne_heartbeat (heartbeat_row st now q x) = ne_heartbeat x"
  by (auto simp: patched_def updated_row_def desired_row_def heartbeat_row_def Let_def split: option.splits)

lemma operations_keep_down:
  "no_healthy (nd_nodes db) \<Longrightarrow> no_healthy (nd_nodes (snd (create_node lib loc rg ok cred i req db)))"
  "no_healthy (nd_nodes db) \<Longrightarrow> no_healthy (nd_nodes (snd (update_node lib loc ok n ureq db)))"
  "no_healthy (nd_nodes db) \<Longrightarrow> no_healthy (nd_nodes (snd (patch_node lib loc rd ok n p db)))"
  "no_healthy (nd_nodes db) \<Longrightarrow> no_healthy (nd_nodes (snd (delete_node ok n db)))"
  "no_healthy (nd_nodes db) \<Longrightarrow> no_healthy (nd_nodes (snd (set_node_desired_state ok lg n d db)))"
  "no_healthy (nd_nodes db) \<Longrightarrow> no_healthy (nd_nodes (snd (rotate_node_token ok cred n db)))"
  "no_healthy (nd_nodes db) \<Longrightarrow> no_healthy (nd_nodes (snd (update_node_heartbeat ok now n q db)))"
proof -
  assume a: "no_healthy (nd_nodes db)"
  show "no_healthy (nd_nodes (snd (create_node lib loc rg ok cred i req db)))"
    using create_node_cases [of lib loc rg ok cred i req db] by (elim disjE exE conjE) (simp_all add: a no_healthy_new)
  show "no_healthy (nd_nodes (snd (update_node lib loc ok n ureq db)))"
    using a by (simp add: update_node_def Let_def split: option.split)
  show "no_healthy (nd_nodes (snd (patch_node lib loc rd ok n p db)))"
    using patch_node_cases [of lib loc rd ok n p db] a by (elim disjE) simp_all
  show "no_healthy (nd_nodes (snd (delete_node ok n db)))"
    using a by (auto simp: delete_node_def Let_def no_healthy_def)
  show "no_healthy (nd_nodes (snd (set_node_desired_state ok lg n d db)))"
    using a by (simp add: set_node_desired_state_def Let_def split: option.split)
  show "no_healthy (nd_nodes (snd (rotate_node_token ok cred n db)))"
    using a by (simp add: rotate_node_token_def split: option.split)
  show "no_healthy (nd_nodes (snd (update_node_heartbeat ok now n q db)))"
    using a by (simp add: update_node_heartbeat_def Let_def split: option.split)
qed

lemma classification_keeps_down:
  "no_healthy (nd_nodes db) \<Longrightarrow> h \<noteq> ''healthy'' \<Longrightarrow> no_healthy (nd_nodes (snd (set_heartbeat_classification ok l1 l2 now n h a k db)))"
  by (simp add: set_heartbeat_classification_def Let_def split: option.split)

lemma no_history [simp]: "list_heartbeat_history [] n l = []"
  by (simp add: list_heartbeat_history_def)

lemma evaluate_keeps_down:
  assumes "mo_history m = []" "no_healthy (nd_nodes (mo_db m))" "no_healthy [x]" "0 < mc_recovery c"
  shows "no_healthy (nd_nodes (mo_db (snd (evaluate c ev now persist x m))))"
  using evaluate_db [of c ev now persist x m] assms classify_not_healthy [OF assms(3,4)] classification_keeps_down
  by auto

definition all_down :: "monitor \<Rightarrow> bool" where
  "all_down m \<longleftrightarrow> mo_history m = [] \<and> no_healthy (nd_nodes (mo_db m)) \<and> no_healthy (mo_pending m)"

lemma node_step_down:
  assumes "node_step False c m m'" "all_down m" "0 < mc_recovery c"
  shows "all_down m'"
  using assms
proof (induction rule: node_step.induct)
  case (heartbeat m cmp dec ok ok2 now n token body)
  then show ?case using heartbeat_handler_db [of cmp dec ok ok2 now n token body m] operations_keep_down(7)
    by (auto simp: all_down_def)
next
  case (evaluation m ev now)
  then show ?case
  proof (cases "mo_pending m")
    case (Cons x xs)
    then have "no_healthy [x]" "no_healthy xs" using evaluation.prems by (simp_all add: all_down_def no_healthy_def)
    then show ?thesis using Cons evaluation.prems evaluate_keeps_down by (simp add: evaluate_next_def all_down_def)
  qed (simp add: evaluate_next_def)
next
  case (single m ev now persist n)
  have "no_healthy [x]" if "get_node_entry (mo_db m) n = Some x" for x
    using get_node_entry_id [OF that] single.prems by (simp add: all_down_def no_healthy_def)
  then show ?case using single.prems by (auto simp: evaluate_node_def all_down_def evaluate_keeps_down split: option.split)
qed (simp_all add: all_down_def operations_keep_down evaluate_begin_def)

lemma all_down_reachable:
  assumes "(node_step False (normalize_config c))\<^sup>*\<^sup>* fresh_monitor m"
  shows "\<forall>x \<in> set (nd_nodes (mo_db m)). ne_heartbeat x \<noteq> ''healthy'' \<and> ne_actual x \<noteq> ''online''"
proof -
  have "all_down m" using assms
  proof (induction rule: rtranclp_induct)
    case (step m m')
    then show ?case using node_step_down normalize_config_order by blast
  qed (simp add: all_down_def fresh_monitor_def no_healthy_def)
  moreover have "nodes_ok (mo_db m)" by (rule nodes_ok_reachable [OF assms])
  ultimately show ?thesis by (auto simp: all_down_def no_healthy_def nodes_ok_def node_ok_def actual_of_def)
qed

text \<open>As the program is put together no node ever comes online: the history of heartbeats that a recovery is
  counted in is never written, a node starts offline, and so every evaluation leaves it at best recovering, however
  many heartbeats arrive.\<close>

theorem no_node_ever_online:
  assumes "(node_step False (normalize_config c))\<^sup>*\<^sup>* fresh_monitor m" "x \<in> set (nd_nodes (mo_db m))"
  shows "ne_heartbeat x \<noteq> ''healthy'' \<and> ne_actual x \<noteq> ''online''"
  using all_down_reachable [OF assms(1)] assms(2) by blast

text \<open>A run: a node is created, sends a heartbeat and is evaluated one second later.\<close>

definition sample_lib :: url_lib where
  "sample_lib = \<lparr>parse_url = (\<lambda>u. Some (''http'', ''h'', False)), equal_fold = (\<lambda>a b. a = b), scan_number = (\<lambda>_. None)\<rparr>"

definition sample_created :: monitor where
  "sample_created = fresh_monitor\<lparr>mo_db := snd (create_node sample_lib (\<lambda>_. True) (\<lambda>_. True) True
     \<lparr>nc_id = ''k'', nc_secret = ''pw'', nc_hash = Some ''$2a$pw'', nc_enc = Some []\<rparr> ''a''
     \<lparr>cn_name = ''node'', cn_location = ''l'', cn_region = [], cn_base_url = ''http://h'', cn_fqdn = ''h'', cn_scheme = ''http'',
      cn_memory = 0, cn_disk = 0, cn_upload = 0, cn_base = [], cn_listen = 0, cn_sftp = 0\<rparr> (mo_db fresh_monitor))\<rparr>"

definition sample_beat :: monitor where
  "sample_beat = snd (heartbeat_handler (\<lambda>h p. h = ''$2a$'' @ p) (\<lambda>_ _. None) True True 0 ''a'' ''k.pw''
     (Some \<lparr>hq_threads = 4, hq_memory = 8, hq_disk = 9, hq_docker = ''ok'', hq_runtime = ''ok'', hq_error = []\<rparr>) sample_created)"

definition sample_evaluated :: monitor where
  "sample_evaluated = evaluate_next (normalize_config default_config) \<lparr>ev_history = True, ev_ok = True, ev_log1 = True, ev_log2 = True\<rparr> (1 * second)
     (evaluate_begin sample_beat)"

lemma sample_run_reachable: "(node_step False (normalize_config default_config))\<^sup>*\<^sup>* fresh_monitor sample_evaluated"
proof -
  have "node_step False (normalize_config default_config) fresh_monitor sample_created"
    unfolding sample_created_def by (rule node_step.create)
  moreover have "node_step False (normalize_config default_config) sample_created sample_beat"
    unfolding sample_beat_def by (rule node_step.heartbeat)
  moreover have "node_step False (normalize_config default_config) sample_beat (evaluate_begin sample_beat)"
    by (rule node_step.tick)
  moreover have "node_step False (normalize_config default_config) (evaluate_begin sample_beat) sample_evaluated"
    unfolding sample_evaluated_def by (rule node_step.evaluation)
  ultimately show ?thesis by (meson converse_rtranclp_into_rtranclp rtranclp.rtrancl_refl)
qed

text \<open>After that run the node is recovering, although it is one second old.\<close>

theorem no_node_ever_online_witness:
  "ne_heartbeat (hd (nd_nodes (mo_db sample_evaluated))) = ''recovering'' \<and> ne_actual (hd (nd_nodes (mo_db sample_evaluated))) \<noteq> ''online''"
proof -
  have "hd (nd_nodes (mo_db sample_evaluated)) \<in> set (nd_nodes (mo_db sample_evaluated))" by code_simp
  moreover have "ne_heartbeat (hd (nd_nodes (mo_db sample_evaluated))) = ''recovering''" by code_simp
  ultimately show ?thesis using no_node_ever_online [OF sample_run_reachable] by blast
qed

end
