(* ===== verification/Node_Registry.thy ===== *)
theory Node_Registry
  imports Scheduler Heartbeat_Monitor
begin

text \<open>
  The node registry (\<^verbatim>\<open>services/noderegistry/service.go\<close>): the operations on nodes with the events they
  publish, the health of a node, its score, and whether it takes new servers. Capacities are within 32 bits, so the
  products of the scores do not overflow. The last section puts the monitor, the registry and the scheduler together.
\<close>

section \<open>Operations and events\<close>

datatype registry_event =
    DesiredStateChanged string string
  | DrainingStarted
  | DrainingCompleted
  | MaintenanceStarted
  | MaintenanceEnded
  | RegActualStateChanged string string
  | RegNodeOnline
  | RegNodeOffline
  | RegNodeDegraded

definition lifecycle_events :: "string \<Rightarrow> string \<Rightarrow> registry_event list" where
  "lifecycle_events before after =
     (if before \<noteq> ''draining'' \<and> after = ''draining'' then [DrainingStarted] else []) @
     (if before = ''draining'' \<and> after \<noteq> ''draining'' then [DrainingCompleted] else []) @
     (if before \<noteq> ''maintenance'' \<and> after = ''maintenance'' then [MaintenanceStarted] else []) @
     (if before = ''maintenance'' \<and> after \<noteq> ''maintenance'' then [MaintenanceEnded] else [])"

definition desired_events :: "string \<Rightarrow> string \<Rightarrow> registry_event list" where
  "desired_events before after = (if before = after then [] else DesiredStateChanged before after # lifecycle_events before after)"

text \<open>The full update ignores an error of its first read and then compares with an empty row.\<close>

definition registry_update_node ::
  "url_lib \<Rightarrow> (string \<Rightarrow> bool) \<Rightarrow> bool \<Rightarrow> bool \<Rightarrow> string \<Rightarrow> update_node_request \<Rightarrow> node_db \<Rightarrow> (node_error + node_entry) \<times> node_db \<times> registry_event list" where
  "registry_update_node lib loc read ok n req db =
     (let before = (case (if read then get_node_entry db n else None) of Some x \<Rightarrow> ne_desired x | None \<Rightarrow> []) in
      case update_node lib loc ok n req db of
        (Inl e, db1) \<Rightarrow> (Inl e, db1, [])
      | (Inr x, db1) \<Rightarrow> (Inr x, db1, desired_events before (ne_desired x)))"

definition registry_patch_node ::
  "url_lib \<Rightarrow> (string \<Rightarrow> bool) \<Rightarrow> bool \<Rightarrow> bool \<Rightarrow> bool \<Rightarrow> string \<Rightarrow> node_patch \<Rightarrow> node_db \<Rightarrow> (node_error + node_entry) \<times> node_db \<times> registry_event list" where
  "registry_patch_node lib loc read1 read2 ok n p db =
     (case (if read1 then get_node_entry db n else None) of
        None \<Rightarrow> (Inl NodeMissing, db, [])
      | Some b \<Rightarrow>
          (case patch_node lib loc read2 ok n p db of
             (Inl e, db1) \<Rightarrow> (Inl e, db1, [])
           | (Inr x, db1) \<Rightarrow> (Inr x, db1, desired_events (ne_desired b) (ne_desired x))))"

definition registry_record_heartbeat ::
  "bool \<Rightarrow> bool \<Rightarrow> gotime \<Rightarrow> string \<Rightarrow> heartbeat_request \<Rightarrow> node_db \<Rightarrow> (node_error + node_entry) \<times> node_db \<times> registry_event list" where
  "registry_record_heartbeat read ok now n req db =
     (let before = (case (if read then get_node_entry db n else None) of Some x \<Rightarrow> ne_actual x | None \<Rightarrow> []) in
      case update_node_heartbeat ok now n req db of
        (Inl e, db1) \<Rightarrow> (Inl e, db1, [])
      | (Inr x, db1) \<Rightarrow>
          (Inr x, db1,
            if before = ne_actual x then []
            else RegActualStateChanged before (ne_actual x) #
              (if ne_actual x = ''online'' then [RegNodeOnline] else if ne_actual x = ''offline'' then [RegNodeOffline]
               else if ne_actual x = ''degraded'' then [RegNodeDegraded] else [])))"

section \<open>Health\<close>

record node_health =
  nh_memory :: string
  nh_disk :: string
  nh_network :: string
  nh_runtime :: string

definition health_signal :: "int option \<Rightarrow> string" where
  "health_signal v = (case v of Some x \<Rightarrow> if 0 < x then ''ok'' else ''unknown'' | None \<Rightarrow> ''unknown'')"

definition health_from_status :: "string \<Rightarrow> string" where
  "health_from_status s =
     (if s = ''online'' then ''ok'' else if s = ''degraded'' then ''degraded''
      else if s = ''maintenance'' \<or> s = ''draining'' then ''maintenance'' else ''unknown'')"

definition node_health_of :: "node_entry \<Rightarrow> node_health" where
  "node_health_of x =
     (let runtime = (case ne_docker x of Some d \<Rightarrow> if trim_space d \<noteq> [] then trim_space d else ''unknown'' | None \<Rightarrow> ''unknown'') in
      \<lparr>nh_memory = health_signal (ne_node_memory x), nh_disk = health_signal (ne_node_disk x), nh_network = health_from_status (ne_status x),
       nh_runtime = (case ne_error x of Some e \<Rightarrow> if trim_space e \<noteq> [] then ''error'' else runtime | None \<Rightarrow> runtime)\<rparr>)"

record node_capacity =
  ncap_memory :: int
  ncap_disk :: int
  ncap_threads :: int

definition node_capacity_of :: "node_entry \<Rightarrow> node_capacity" where
  "node_capacity_of x =
     \<lparr>ncap_memory = (case ne_node_memory x of Some m \<Rightarrow> if 0 < m then m else ne_memory x | None \<Rightarrow> ne_memory x),
      ncap_disk = (case ne_node_disk x of Some d \<Rightarrow> if 0 < d then d else ne_disk x | None \<Rightarrow> ne_disk x),
      ncap_threads = (case ne_threads x of Some t \<Rightarrow> t | None \<Rightarrow> 0)\<rparr>"

section \<open>Score and eligibility\<close>

definition resource_score :: "int \<Rightarrow> int \<Rightarrow> int" where
  "resource_score tot available =
     (if tot \<le> 0 then 50
      else let used = max 0 (tot - available);
               score = 100 - (used * 100) div tot
           in if score < 0 then 0 else if 100 < score then 100 else score)"

definition heartbeat_score :: "gotime option \<Rightarrow> gotime \<Rightarrow> int" where
  "heartbeat_score seen now =
     (case seen of
        None \<Rightarrow> 0
      | Some t \<Rightarrow>
          let age = time_sub now t in
          if age \<le> 2 * minute then 100 else if age \<le> 5 * minute then 75 else if age \<le> 15 * minute then 40 else 0)"

definition status_score :: "string \<Rightarrow> int" where
  "status_score s = (if s = ''online'' then 100 else if s = ''degraded'' then 40 else 0)"

record health_score =
  hs_cpu :: int
  hs_memory :: int
  hs_disk :: int
  hs_heartbeat :: int
  hs_status :: int
  hs_total :: int

definition registry_health_score :: "node_entry \<Rightarrow> snapshot \<Rightarrow> gotime \<Rightarrow> health_score" where
  "registry_health_score x c now =
     (let cpu = resource_score (snap_total_cpu c) (snap_avail_cpu c);
          mem = resource_score (snap_total_memory c) (snap_avail_memory c);
          disk = resource_score (snap_total_disk c) (snap_avail_disk c);
          hb = heartbeat_score (ne_seen x) now;
          st = status_score (ne_actual x)
      in \<lparr>hs_cpu = cpu, hs_memory = mem, hs_disk = disk, hs_heartbeat = hb, hs_status = st, hs_total = (cpu + mem + disk + hb + st) div 5\<rparr>)"

datatype blocked = BlockedMaintenance | BlockedDraining | BlockedNotOnline | CpuExhausted | MemoryExhausted | DiskExhausted

definition placement_eligibility :: "node_entry \<Rightarrow> snapshot \<Rightarrow> blocked option" where
  "placement_eligibility x c =
     (if ne_desired x = ''maintenance'' \<or> ne_maintenance x then Some BlockedMaintenance
      else if ne_desired x = ''draining'' \<or> ne_draining x then Some BlockedDraining
      else if ne_actual x \<noteq> ''online'' then Some BlockedNotOnline
      else if 0 < snap_total_cpu c \<and> snap_avail_cpu c \<le> 0 then Some CpuExhausted
      else if 0 < snap_total_memory c \<and> snap_avail_memory c \<le> 0 then Some MemoryExhausted
      else if 0 < snap_total_disk c \<and> snap_avail_disk c \<le> 0 then Some DiskExhausted
      else None)"

record lifecycle_view =
  lv_node :: node_entry
  lv_health :: node_health
  lv_score :: health_score
  lv_draining :: bool
  lv_maintenance :: bool
  lv_blocked :: "blocked option"

definition lifecycle_view_of :: "node_db \<Rightarrow> string \<Rightarrow> (string \<Rightarrow> res_error + snapshot) \<Rightarrow> gotime \<Rightarrow> (node_error + res_error) + lifecycle_view" where
  "lifecycle_view_of db n snap now =
     (case get_node_entry db n of
        None \<Rightarrow> Inl (Inl NodeMissing)
      | Some x \<Rightarrow>
          (case snap (ne_id x) of
             Inl e \<Rightarrow> Inl (Inr e)
           | Inr c \<Rightarrow>
               Inr \<lparr>lv_node = x, lv_health = node_health_of x, lv_score = registry_health_score x c now,
                    lv_draining = (ne_desired x = ''draining'' \<or> ne_draining x), lv_maintenance = (ne_desired x = ''maintenance'' \<or> ne_maintenance x),
                    lv_blocked = placement_eligibility x c\<rparr>))"

section \<open>Properties\<close>

lemma resource_score_bounds: "0 \<le> resource_score tot available \<and> resource_score tot available \<le> 100"
  by (simp add: resource_score_def Let_def)

lemma mean_of_scores:
  fixes a b d h s :: int
  assumes "0 \<le> a \<and> a \<le> 100" "0 \<le> b \<and> b \<le> 100" "0 \<le> d \<and> d \<le> 100" "0 \<le> h \<and> h \<le> 100" "0 \<le> s \<and> s \<le> 100"
  shows "0 \<le> (a + b + d + h + s) div 5 \<and> (a + b + d + h + s) div 5 \<le> 100 \<and>
    ((a + b + d + h + s) div 5 = 100 \<longleftrightarrow> a = 100 \<and> b = 100 \<and> d = 100 \<and> h = 100 \<and> s = 100)"
  using assms by (intro conjI iffI) linarith+

text \<open>The total score of a node is between 0 and 100, and it is 100 exactly for a node that is online, was heard of
  in the last two minutes and has the full score for each of its three resources.\<close>

theorem health_score_bounds:
  "0 \<le> hs_total (registry_health_score x c now) \<and> hs_total (registry_health_score x c now) \<le> 100 \<and>
   (hs_total (registry_health_score x c now) = 100 \<longleftrightarrow>
      resource_score (snap_total_cpu c) (snap_avail_cpu c) = 100 \<and> resource_score (snap_total_memory c) (snap_avail_memory c) = 100 \<and>
      resource_score (snap_total_disk c) (snap_avail_disk c) = 100 \<and> ne_actual x = ''online'' \<and>
      (\<exists>t. ne_seen x = Some t \<and> time_sub now t \<le> 2 * minute))"
proof -
  let ?h = "heartbeat_score (ne_seen x) now" and ?s = "status_score (ne_actual x)"
  have h: "0 \<le> ?h \<and> ?h \<le> 100" "?h = 100 \<longleftrightarrow> (\<exists>t. ne_seen x = Some t \<and> time_sub now t \<le> 2 * minute)"
    by (auto simp: heartbeat_score_def Let_def split: option.split)
  have s: "0 \<le> ?s \<and> ?s \<le> 100" "?s = 100 \<longleftrightarrow> ne_actual x = ''online''" by (simp_all add: status_score_def)
  show ?thesis
    using mean_of_scores [OF resource_score_bounds resource_score_bounds resource_score_bounds h(1) s(1)]
    unfolding registry_health_score_def Let_def health_score.simps h(2) s(2) by blast
qed

text \<open>A heartbeat never changes the actual state, so the events of the registry for it are never published.\<close>

theorem heartbeat_publishes_nothing:
  assumes "get_node_entry db n \<noteq> None"
  shows "snd (snd (registry_record_heartbeat True ok now n req db)) = []"
proof -
  obtain x where x: "get_node_entry db n = Some x" using assms by blast
  show ?thesis
    using x get_node_entry_id [OF x]
    by (simp add: registry_record_heartbeat_def update_node_heartbeat_def Let_def get_node_entry_map heartbeat_row_def)
qed

text \<open>The events of the life cycle tell exactly what changed.\<close>

lemma lifecycle_events_exact:
  "(DrainingStarted \<in> set (desired_events a b) \<longleftrightarrow> a \<noteq> ''draining'' \<and> b = ''draining'') \<and>
   (DrainingCompleted \<in> set (desired_events a b) \<longleftrightarrow> a = ''draining'' \<and> b \<noteq> ''draining'') \<and>
   (MaintenanceStarted \<in> set (desired_events a b) \<longleftrightarrow> a \<noteq> ''maintenance'' \<and> b = ''maintenance'') \<and>
   (MaintenanceEnded \<in> set (desired_events a b) \<longleftrightarrow> a = ''maintenance'' \<and> b \<noteq> ''maintenance'')"
  by (auto simp: desired_events_def lifecycle_events_def)

section \<open>The monitor and the scheduler\<close>

text \<open>The columns of a node that the scheduler reads.\<close>

definition sched_node :: "node_entry \<Rightarrow> node" where
  "sched_node x = \<lparr>n_id = ne_id x, n_name = ne_name x, n_region = ne_region x, n_actual = ne_actual x, n_desired = ne_desired x,
     n_maintenance = ne_maintenance x, n_draining = ne_draining x\<rparr>"

text \<open>A node the registry calls eligible is not out of service for the scheduler, and one that is in service is
  blocked only by an exhausted resource.\<close>

lemma eligible_in_service: "placement_eligibility x c = None \<Longrightarrow> \<not> out_of_service (sched_node x)"
  by (auto simp: placement_eligibility_def out_of_service_def sched_node_def split: if_splits)

lemma in_service_blocked:
  "\<not> out_of_service (sched_node x) \<Longrightarrow> placement_eligibility x c \<in> {None, Some CpuExhausted, Some MemoryExhausted, Some DiskExhausted}"
  by (auto simp: placement_eligibility_def out_of_service_def sched_node_def split: if_splits)

lemma eligible_online: "eligible req regions snap (sched_node x) \<Longrightarrow> ne_actual x = ''online''"
  by (auto simp: eligible_def out_of_service_def sched_node_def)

text \<open>C24: As the program is put together no server can be placed in a new installation: whatever was done to the
  nodes and however many heartbeats arrived, the scheduler answers every request over the nodes of the table with an
  error, because the monitor never lets a node become online.\<close>

theorem no_server_ever_placed:
  assumes "(node_step False (normalize_config c))\<^sup>*\<^sup>* fresh_monitor m" "rd_nodes rd = Inr (map sched_node (nd_nodes (mo_db m)))"
  shows "\<exists>e st'. place_server lower render srt sc rd req st = (Inl e, st')"
proof (cases "place_server lower render srt sc rd req st")
  case (Pair r st')
  show ?thesis
  proof (cases r)
    case (Inr d)
    have none: "filter (eligible q regions snap) (map sched_node (nd_nodes (mo_db m))) = []" for q regions snap
      using all_down_reachable [OF assms(1)] by (auto simp: filter_empty_conv dest: eligible_online)
    have "filter (eligible q regions snap) nodes = []" if "rd_nodes rd = Inr nodes" for q regions snap nodes
      using that assms(2) none by simp
    then show ?thesis using Pair Inr assms(2) none
      by (cases "rd_regions rd") (auto simp: place_server_def Let_def filter_nodes_Inr split: if_splits)
  qed (use Pair in blast)
qed

text \<open>Witness of C24: the run with one node and one heartbeat.\<close>

theorem no_server_ever_placed_witness:
  "\<exists>e st'. place_server (\<lambda>s. s) (\<lambda>_. []) slice_stable (new_scorer (\<lambda>_. Fin 0) ''spread'')
     \<lparr>rd_resolve = Inr [], rd_nodes = Inr (map sched_node (nd_nodes (mo_db sample_evaluated))), rd_regions = Inr [],
      rd_filter = (\<lambda>_. Inl NoRows), rd_score = (\<lambda>_. Inl NoRows)\<rparr>
     \<lparr>pr_server = ''s'', pr_region_id = [], pr_region = [], pr_preferred = [], pr_required = [], pr_node = ''a'', pr_allocation = [],
      pr_memory = 1, pr_cpu_shares = 0, pr_cpu = 1, pr_disk = 1\<rparr> \<lparr>rejections = 0, exceeded = 0, published = []\<rparr> = (Inl e, st')"
  by (rule no_server_ever_placed [OF sample_run_reachable]) simp

end
