(* ===== verification/Job_Queue.thy ===== *)
theory Job_Queue
  imports Forge_Prelude
begin

text \<open>
  The queue of background jobs (\<^verbatim>\<open>services/queue/queue.go\<close> over the table of \<^verbatim>\<open>services/queue/store.go\<close>).
  A statement of the database succeeds or not as its flag says; rows that other transactions hold while a job is
  taken are an argument (\<^verbatim>\<open>SKIP LOCKED\<close>). What a handler answers is an argument of the step that runs it. Payloads,
  results and texts of errors are left out. Workers run side by side: the step relation at the end has any number of
  them.
\<close>

section \<open>The table\<close>

record job =
  jb_id :: string
  jb_type :: string
  jb_status :: string
  jb_server :: string
  jb_node :: string
  jb_priority :: int
  jb_max :: int
  jb_retry :: int
  jb_created :: gotime
  jb_started :: "gotime option"
  jb_completed :: "gotime option"

text \<open>The insert leaves out the number of retries and the times, which get their defaults.\<close>

definition enqueue :: "bool \<Rightarrow> job \<Rightarrow> job list \<Rightarrow> bool \<times> job list" where
  "enqueue ok j q =
     (if \<not> ok \<or> (\<exists>x \<in> set q. jb_id x = jb_id j) then (False, q)
      else (True, q @ [j\<lparr>jb_retry := 0, jb_started := None, jb_completed := None\<rparr>]))"

definition job_first :: "job \<Rightarrow> job \<Rightarrow> bool" where
  "job_first a b \<longleftrightarrow> jb_priority b < jb_priority a \<or> (jb_priority a = jb_priority b \<and> jb_created a < jb_created b)"

definition pending_for :: "string \<Rightarrow> job \<Rightarrow> bool" where
  "pending_for n j \<longleftrightarrow> jb_status j = ''pending'' \<and> (n = [] \<or> jb_node j = n)"

definition set_job :: "string \<Rightarrow> (job \<Rightarrow> job) \<Rightarrow> job list \<Rightarrow> job list" where
  "set_job i f q = map (\<lambda>x. if jb_id x = i then f x else x) q"

definition dequeue :: "bool \<Rightarrow> string list \<Rightarrow> gotime \<Rightarrow> string \<Rightarrow> job list \<Rightarrow> (unit + job option) \<times> job list" where
  "dequeue ok locked now n q =
     (if \<not> ok then (Inl (), q)
      else (case slice_stable job_first (filter (\<lambda>j. pending_for n j \<and> jb_id j \<notin> set locked) q) of
        [] \<Rightarrow> (Inr None, q)
      | j # _ \<Rightarrow>
          let run = (\<lambda>x. x\<lparr>jb_status := ''running'', jb_started := Some now\<rparr>) in
          (Inr (Some (run j)), set_job (jb_id j) run q)))"

definition acknowledge :: "bool \<Rightarrow> gotime \<Rightarrow> string \<Rightarrow> job list \<Rightarrow> job list" where
  "acknowledge ok now i q = (if ok then set_job i (\<lambda>x. x\<lparr>jb_status := ''completed'', jb_completed := Some now\<rparr>) q else q)"

definition fail_job :: "bool \<Rightarrow> gotime \<Rightarrow> string \<Rightarrow> job list \<Rightarrow> job list" where
  "fail_job ok now i q = (if ok then set_job i (\<lambda>x. x\<lparr>jb_status := ''failed'', jb_completed := Some now\<rparr>) q else q)"

definition list_pending :: "string \<Rightarrow> job list \<Rightarrow> job list" where
  "list_pending n q = slice_stable job_first (filter (pending_for n) q)"

definition get_job :: "string \<Rightarrow> job list \<Rightarrow> job option" where
  "get_job i q = find (\<lambda>x. jb_id x = i) q"

section \<open>The service\<close>

definition queue_workers :: "int \<Rightarrow> nat" where
  "queue_workers w = (if w \<le> 0 then 5 else nat w)"

definition dispatch :: "bool \<Rightarrow> string \<Rightarrow> string \<Rightarrow> string \<Rightarrow> string \<Rightarrow> int \<Rightarrow> gotime \<Rightarrow> job list \<Rightarrow> bool \<times> job list" where
  "dispatch ok i ty srv n prio now q =
     enqueue ok \<lparr>jb_id = i, jb_type = ty, jb_status = ''pending'', jb_server = srv, jb_node = n, jb_priority = prio, jb_max = 3, jb_retry = 0,
       jb_created = now, jb_started = None, jb_completed = None\<rparr> q"

text \<open>Processing a job that was taken: \<open>handler\<close> says whether one is registered for a type, \<open>success\<close> what it
  answers, \<open>ok\<close> whether the statement that ends the processing succeeds.\<close>

definition process :: "(string \<Rightarrow> bool) \<Rightarrow> bool \<Rightarrow> bool \<Rightarrow> gotime \<Rightarrow> job \<Rightarrow> job list \<Rightarrow> job list" where
  "process handler success ok now j q =
     (if \<not> handler (jb_type j) then fail_job ok now (jb_id j) q
      else if success then acknowledge ok now (jb_id j) q
      else let j1 = j\<lparr>jb_status := ''running'', jb_started := Some now, jb_retry := jb_retry j + 1\<rparr> in
           if jb_max j1 \<le> jb_retry j1 then fail_job ok now (jb_id j) q
           else snd (enqueue ok j1 q))"

section \<open>Workers\<close>

text \<open>The jobs that workers have taken and are working on, with the table.\<close>

record queue_state =
  qs_table :: "job list"
  qs_taken :: "job list"

inductive queue_step :: "(string \<Rightarrow> bool) \<Rightarrow> queue_state \<Rightarrow> queue_state \<Rightarrow> bool" for handler where
  dispatch: "queue_step handler s (s\<lparr>qs_table := snd (dispatch ok i ty srv n prio now (qs_table s))\<rparr>)"
| take: "dequeue ok locked now n (qs_table s) = (Inr (Some j), q) \<Longrightarrow>
    queue_step handler s (s\<lparr>qs_table := q, qs_taken := j # qs_taken s\<rparr>)"
| finish: "qs_taken s = js @ j # ks \<Longrightarrow>
    queue_step handler s (s\<lparr>qs_table := process handler success ok now j (qs_table s), qs_taken := js @ ks\<rparr>)"
| die: "qs_taken s = js @ j # ks \<Longrightarrow> queue_step handler s (s\<lparr>qs_taken := js @ ks\<rparr>)"

inductive_cases queue_stepE: "queue_step handler s s'"

section \<open>Order\<close>

lemma job_first_weak: "strict_weak_on A job_first"
  by (rule strict_weak_onI) (auto simp: job_first_def)

text \<open>The job a worker takes is pending, for the node asked for and not held by another transaction, and no job
  that could be taken has a higher priority, or the same priority and an earlier creation.\<close>

theorem dequeue_takes_first:
  assumes "dequeue True locked now n q = (Inr (Some j), q')"
  shows "\<exists>x \<in> set q. pending_for n x \<and> jb_id x \<notin> set locked \<and> j = x\<lparr>jb_status := ''running'', jb_started := Some now\<rparr> \<and>
    (\<forall>y \<in> set q. pending_for n y \<and> jb_id y \<notin> set locked \<longrightarrow> \<not> job_first y x)"
proof -
  let ?xs = "filter (\<lambda>j. pending_for n j \<and> jb_id j \<notin> set locked) q"
  obtain x rest where x: "slice_stable job_first ?xs = x # rest" "j = x\<lparr>jb_status := ''running'', jb_started := Some now\<rparr>"
    using assms by (auto simp: dequeue_def Let_def split: list.splits)
  have "set (x # rest) = set ?xs" using x(1) by (metis set_slice_stable)
  moreover have "\<forall>y \<in> set rest. \<not> job_first y x"
    using sorted_slice_stable [OF job_first_weak [of "set ?xs"]] x(1) by (simp add: sorted_less_def)
  ultimately have "x \<in> set ?xs" "\<forall>y \<in> set ?xs. \<not> job_first y x" by (auto simp: job_first_def)
  then show ?thesis using x(2) by (intro bexI [of _ x]) auto
qed

text \<open>An instance: of two jobs the one with the higher priority.\<close>

definition sample_job :: "string \<Rightarrow> int \<Rightarrow> gotime \<Rightarrow> job" where
  "sample_job i p t = \<lparr>jb_id = i, jb_type = ''server.start'', jb_status = ''pending'', jb_server = ''s'', jb_node = ''n'', jb_priority = p, jb_max = 3, jb_retry = 0,
     jb_created = t, jb_started = None, jb_completed = None\<rparr>"

theorem dequeue_takes_first_witness:
  "fst (dequeue True [] 9 ''n'' [sample_job ''a'' 1 2, sample_job ''b'' 5 3]) = Inr (Some ((sample_job ''b'' 5 3)\<lparr>jb_status := ''running'', jb_started := Some 9\<rparr>)) \<and>
   \<not> job_first (sample_job ''a'' 1 2) (sample_job ''b'' 5 3)"
proof -
  let ?r = "dequeue True [] 9 ''n'' [sample_job ''a'' 1 2, sample_job ''b'' 5 3]"
  have r: "?r = (Inr (Some ((sample_job ''b'' 5 3)\<lparr>jb_status := ''running'', jb_started := Some 9\<rparr>)), snd ?r)" by code_simp
  have p: "pending_for ''n'' (sample_job ''a'' 1 2)" by (simp add: pending_for_def sample_job_def)
  obtain x where x: "x \<in> set [sample_job ''a'' 1 2, sample_job ''b'' 5 3]" "(sample_job ''b'' 5 3)\<lparr>jb_status := ''running'', jb_started := Some 9\<rparr> = x\<lparr>jb_status := ''running'', jb_started := Some 9\<rparr>"
      "\<forall>y \<in> set [sample_job ''a'' 1 2, sample_job ''b'' 5 3]. pending_for ''n'' y \<and> jb_id y \<notin> set [] \<longrightarrow> \<not> job_first y x"
    using dequeue_takes_first [OF r] by blast
  have "x = sample_job ''b'' 5 3" using x(1,2) by (auto simp: sample_job_def)
  then show ?thesis using r x(3) p by (metis fst_conv list.set_intros(1) empty_set empty_iff)
qed

section \<open>Who works on a job\<close>

text \<open>Rows are those of dispatched jobs, and what a worker has taken is a running row that nobody else has.\<close>

definition queue_ok :: "queue_state \<Rightarrow> bool" where
  "queue_ok s \<longleftrightarrow> distinct (map jb_id (qs_table s)) \<and> distinct (map jb_id (qs_taken s)) \<and>
     (\<forall>x \<in> set (qs_table s) \<union> set (qs_taken s). jb_max x = 3 \<and> jb_retry x = 0) \<and>
     (\<forall>j \<in> set (qs_taken s). \<exists>x \<in> set (qs_table s). jb_id x = jb_id j \<and> jb_status x = ''running'')"

definition running_row :: "string \<Rightarrow> job list \<Rightarrow> bool" where
  "running_row i q \<longleftrightarrow> (\<exists>x \<in> set q. jb_id x = i \<and> jb_status x = ''running'')"

lemma set_job_ids [simp]: "(\<And>x. jb_id (f x) = jb_id x) \<Longrightarrow> map jb_id (set_job i f q) = map jb_id q"
  by (auto simp: set_job_def)

lemma set_job_other: "k \<noteq> i \<Longrightarrow> running_row k q \<Longrightarrow> running_row k (set_job i f q)"
  by (force simp: running_row_def set_job_def)

lemma set_job_fields:
  "(\<And>x. jb_max (f x) = jb_max x \<and> jb_retry (f x) = jb_retry x) \<Longrightarrow> \<forall>x \<in> set q. jb_max x = 3 \<and> jb_retry x = 0 \<Longrightarrow>
   \<forall>x \<in> set (set_job i f q). jb_max x = 3 \<and> jb_retry x = 0"
  by (auto simp: set_job_def)

lemma dequeue_effect:
  assumes "dequeue ok locked now n q = (Inr (Some j), q')"
  shows "\<exists>x \<in> set q. jb_status x = ''pending'' \<and> j = x\<lparr>jb_status := ''running'', jb_started := Some now\<rparr> \<and>
    q' = set_job (jb_id x) (\<lambda>x. x\<lparr>jb_status := ''running'', jb_started := Some now\<rparr>) q"
proof -
  let ?xs = "filter (\<lambda>j. pending_for n j \<and> jb_id j \<notin> set locked) q"
  obtain x rest where x: "slice_stable job_first ?xs = x # rest" "j = x\<lparr>jb_status := ''running'', jb_started := Some now\<rparr>"
      "q' = set_job (jb_id x) (\<lambda>x. x\<lparr>jb_status := ''running'', jb_started := Some now\<rparr>) q"
    using assms by (auto simp: dequeue_def Let_def split: list.splits if_splits)
  have "x \<in> set ?xs" using x(1) by (metis list.set_intros(1) set_slice_stable)
  then show ?thesis using x(2,3) by (auto simp: pending_for_def)
qed

lemma process_effect:
  assumes "jb_max j = 3" "jb_retry j = 0" "running_row (jb_id j) q"
  shows "process handler success ok now j q = q \<or>
    (\<exists>st. process handler success ok now j q = set_job (jb_id j) (\<lambda>x. x\<lparr>jb_status := st, jb_completed := Some now\<rparr>) q)"
  using assms by (auto simp: process_def fail_job_def acknowledge_def enqueue_def running_row_def Let_def)

lemma running_not_pending:
  "queue_ok s \<Longrightarrow> x \<in> set (qs_table s) \<Longrightarrow> jb_status x = ''pending'' \<Longrightarrow> \<not> running_row (jb_id x) (qs_table s)"
  by (auto simp: queue_ok_def running_row_def distinct_map inj_on_def)

lemma taken_running: "queue_ok s \<Longrightarrow> k \<in> set (qs_taken s) \<Longrightarrow> running_row (jb_id k) (qs_table s)"
  by (simp add: queue_ok_def running_row_def)

lemma take_keeps_ok:
  assumes "queue_ok s" "dequeue ok locked now n (qs_table s) = (Inr (Some j), q)"
  shows "queue_ok (s\<lparr>qs_table := q, qs_taken := j # qs_taken s\<rparr>)"
proof -
  let ?run = "\<lambda>x :: job. x\<lparr>jb_status := ''running'', jb_started := Some now\<rparr>"
  obtain x where x: "x \<in> set (qs_table s)" "jb_status x = ''pending''" "j = ?run x" "q = set_job (jb_id x) ?run (qs_table s)"
    using dequeue_effect [OF assms(2)] by blast
  have fresh: "jb_id k \<noteq> jb_id x" if "k \<in> set (qs_taken s)" for k
    using taken_running [OF assms(1) that] running_not_pending [OF assms(1) x(1,2)] by auto
  have rows: "running_row (jb_id k) q" if "k \<in> set (qs_taken s)" for k
    unfolding x(4) using fresh [OF that] taken_running [OF assms(1) that] by (rule set_job_other)
  have "?run x \<in> set q" using x(1,4) by (auto simp: set_job_def)
  then have self: "running_row (jb_id j) q" unfolding x(3) running_row_def by (rule bexI [rotated]) simp
  have "\<forall>y \<in> set q. jb_max y = 3 \<and> jb_retry y = 0" unfolding x(4) using assms(1) by (intro set_job_fields) (auto simp: queue_ok_def)
  moreover have "jb_id j \<notin> jb_id ` set (qs_taken s)" using fresh by (auto simp: x(3) dest: sym)
  moreover have "distinct (map jb_id q)" "jb_max j = 3" "jb_retry j = 0" using x assms(1) by (auto simp: queue_ok_def)
  ultimately show ?thesis using rows self assms(1) by (simp add: queue_ok_def running_row_def ball_Un)
qed

lemma finish_keeps_ok:
  assumes "queue_ok s" "qs_taken s = js @ j # ks"
  shows "queue_ok (s\<lparr>qs_table := process handler success ok now j (qs_table s), qs_taken := js @ ks\<rparr>)"
proof -
  have j: "jb_max j = 3" "jb_retry j = 0" "running_row (jb_id j) (qs_table s)" using assms by (auto simp: queue_ok_def running_row_def)
  have d: "jb_id j \<notin> jb_id ` set (js @ ks)" using assms by (simp add: queue_ok_def image_Un)
  have other: "jb_id k \<noteq> jb_id j" "running_row (jb_id k) (qs_table s)" if "k \<in> set (js @ ks)" for k
  proof -
    show "jb_id k \<noteq> jb_id j" using d that by (metis imageI)
    show "running_row (jb_id k) (qs_table s)" using that assms by (intro taken_running) auto
  qed
  show ?thesis
    using process_effect [OF j, of handler success ok now]
  proof (elim disjE exE)
    assume "process handler success ok now j (qs_table s) = qs_table s"
    then show ?thesis using assms by (auto simp: queue_ok_def)
  next
    fix st assume p: "process handler success ok now j (qs_table s) = set_job (jb_id j) (\<lambda>x. x\<lparr>jb_status := st, jb_completed := Some now\<rparr>) (qs_table s)"
    have "\<forall>y \<in> set (process handler success ok now j (qs_table s)). jb_max y = 3 \<and> jb_retry y = 0"
      unfolding p using assms(1) by (intro set_job_fields) (auto simp: queue_ok_def)
    moreover have "running_row (jb_id k) (process handler success ok now j (qs_table s))" if "k \<in> set (js @ ks)" for k
      unfolding p using other [OF that] by (rule set_job_other)
    ultimately show ?thesis using p assms by (auto simp: queue_ok_def running_row_def)
  qed
qed

lemma queue_step_ok: "queue_step handler s s' \<Longrightarrow> queue_ok s \<Longrightarrow> queue_ok s'"
proof (induction rule: queue_step.induct)
  case (dispatch s ok i ty srv n prio now)
  then show ?case by (auto simp: Job_Queue.dispatch_def enqueue_def queue_ok_def)
next
  case (die s js j ks)
  then show ?case by (auto simp: queue_ok_def)
qed (auto intro: take_keeps_ok finish_keeps_ok)

definition empty_queue :: queue_state where
  "empty_queue = \<lparr>qs_table = [], qs_taken = []\<rparr>"

lemma queue_reachable_ok: "(queue_step handler)\<^sup>*\<^sup>* empty_queue s \<Longrightarrow> queue_ok s"
proof (induction rule: rtranclp_induct)
  case (step s s')
  then show ?case by (simp add: queue_step_ok)
qed (simp add: empty_queue_def queue_ok_def)


text \<open>A row that is running and in nobody's hands is stuck.\<close>

definition stuck :: "string \<Rightarrow> queue_state \<Rightarrow> bool" where
  "stuck i s \<longleftrightarrow> queue_ok s \<and> running_row i (qs_table s) \<and> i \<notin> jb_id ` set (qs_taken s)"

lemma queue_step_stuck:
  assumes "queue_step handler s s'" "stuck i s"
  shows "stuck i s'"
proof -
  have ok: "queue_ok s" "queue_ok s'" using assms queue_step_ok by (auto simp: stuck_def)
  have "running_row i (qs_table s') \<and> i \<notin> jb_id ` set (qs_taken s')"
    using assms(1)
  proof (cases rule: queue_step.cases)
    case (dispatch ok k ty srv n prio now)
    then show ?thesis using assms(2) by (auto simp: stuck_def running_row_def Job_Queue.dispatch_def enqueue_def)
  next
    case (take okk locked now n j q)
    obtain x where x: "x \<in> set (qs_table s)" "jb_status x = ''pending''" "j = x\<lparr>jb_status := ''running'', jb_started := Some now\<rparr>"
        "q = set_job (jb_id x) (\<lambda>x. x\<lparr>jb_status := ''running'', jb_started := Some now\<rparr>) (qs_table s)"
      using dequeue_effect [OF take(2)] by blast
    have "i \<noteq> jb_id x" using running_not_pending [OF ok(1) x(1,2)] assms(2) by (auto simp: stuck_def)
    then show ?thesis using take(1) x assms(2) by (auto simp: stuck_def intro: set_job_other)
  next
    case (finish js j ks success okk now)
    have j: "jb_max j = 3" "jb_retry j = 0" "running_row (jb_id j) (qs_table s)" "jb_id j \<noteq> i"
      using finish(2) ok(1) assms(2) by (auto simp: queue_ok_def running_row_def stuck_def)
    show ?thesis
      using process_effect [OF j(1-3), of handler success okk now] finish assms(2) j(4) by (auto simp: stuck_def intro: set_job_other)
  next
    case (die js j ks)
    then show ?thesis using assms(2) by (auto simp: stuck_def)
  qed
  then show ?thesis using ok by (simp add: stuck_def)
qed

text \<open>C29: A job whose handler fails is never tried again, although it has retries left: putting it back inserts a
  second row with its identifier, which the table refuses, so its row stays running for ever and no worker ever takes
  it.\<close>

theorem failed_job_never_retried:
  assumes "(queue_step handler)\<^sup>*\<^sup>* empty_queue s" "qs_taken s = js @ j # ks" "handler (jb_type j)"
    "(queue_step handler)\<^sup>*\<^sup>* (s\<lparr>qs_table := process handler False ok now j (qs_table s), qs_taken := js @ ks\<rparr>) t"
  shows "(\<exists>x \<in> set (qs_table t). jb_id x = jb_id j \<and> jb_status x = ''running'') \<and> jb_id j \<notin> jb_id ` set (qs_taken t)"
proof -
  let ?s = "s\<lparr>qs_table := process handler False ok now j (qs_table s), qs_taken := js @ ks\<rparr>"
  have ok: "queue_ok s" by (rule queue_reachable_ok [OF assms(1)])
  have p: "process handler False ok now j (qs_table s) = qs_table s"
    using assms(2,3) ok by (auto simp: process_def enqueue_def queue_ok_def Let_def)
  have "stuck (jb_id j) ?s" using ok assms(2) unfolding p by (auto simp: stuck_def queue_ok_def running_row_def)
  with assms(4) have "stuck (jb_id j) t" by (induction rule: rtranclp_induct) (auto intro: queue_step_stuck)
  then show ?thesis by (auto simp: stuck_def running_row_def)
qed

text \<open>A dispatched job that a worker has taken.\<close>

definition sample_taken :: queue_state where
  "sample_taken = \<lparr>qs_table = [(sample_job ''a'' 1 2)\<lparr>jb_status := ''running'', jb_started := Some 9\<rparr>],
     qs_taken = [(sample_job ''a'' 1 2)\<lparr>jb_status := ''running'', jb_started := Some 9\<rparr>]\<rparr>"

lemma sample_taken_reachable: "(queue_step handler)\<^sup>*\<^sup>* empty_queue sample_taken"
proof -
  let ?s1 = "empty_queue\<lparr>qs_table := snd (dispatch True ''a'' ''server.start'' ''s'' ''n'' 1 2 (qs_table empty_queue))\<rparr>"
  have 1: "queue_step handler empty_queue ?s1" by (rule queue_step.dispatch)
  have d: "dequeue True [] 9 ''n'' (qs_table ?s1) =
      (Inr (Some ((sample_job ''a'' 1 2)\<lparr>jb_status := ''running'', jb_started := Some 9\<rparr>)), qs_table sample_taken)" by code_simp
  have "?s1\<lparr>qs_table := qs_table sample_taken, qs_taken := (sample_job ''a'' 1 2)\<lparr>jb_status := ''running'', jb_started := Some 9\<rparr> # qs_taken ?s1\<rparr> = sample_taken"
    by (simp add: sample_taken_def empty_queue_def)
  then have "queue_step handler ?s1 sample_taken" using queue_step.take [OF d, of handler] by simp
  with 1 show ?thesis by (meson converse_rtranclp_into_rtranclp rtranclp.rtrancl_refl)
qed


text \<open>Witness of C29: its handler fails.\<close>

theorem failed_job_never_retried_witness:
  "''a'' \<notin> jb_id ` set (qs_taken (sample_taken\<lparr>qs_table := process (\<lambda>_. True) False True 10 (hd (qs_taken sample_taken)) (qs_table sample_taken), qs_taken := [] @ []\<rparr>))"
proof -
  have t: "qs_taken sample_taken = [] @ hd (qs_taken sample_taken) # []" by (simp add: sample_taken_def)
  have i: "jb_id (hd (qs_taken sample_taken)) = ''a''" by (simp add: sample_taken_def sample_job_def)
  show ?thesis using failed_job_never_retried [OF sample_taken_reachable t _ rtranclp.rtrancl_refl, where handler = "\<lambda>_. True"] i by auto
qed

end
