(* ===== verification/Event_Outbox.thy ===== *)
theory Event_Outbox
  imports Forge_Prelude
begin

text \<open>
  Events and their delivery: the registry of subscribers (\<^verbatim>\<open>events/registry.go\<close>), the table of events
  (\<^verbatim>\<open>eventstore/store.go\<close>) and the relay that delivers what is in the table (\<^verbatim>\<open>eventstore/outbox.go\<close>). What a
  subscriber answers at an attempt, whether a context is done while a retry waits, and whether a statement of the
  database succeeds are arguments. Calls of subscribers are recorded in a log. Payloads, texts of errors and counters
  are left out.
\<close>

section \<open>Attempts\<close>

text \<open>Attempt \<open>k\<close> of at most \<open>k + r\<close>: before every attempt but the first there is a wait, which ends early when the
  context is done. An attempt gives its result and the calls it made.\<close>

datatype delivery = Delivered | GaveUp | Aborted

fun retry_loop :: "(nat \<Rightarrow> bool \<times> 'l list) \<Rightarrow> (nat \<Rightarrow> bool) \<Rightarrow> nat \<Rightarrow> nat \<Rightarrow> delivery \<times> 'l list" where
  "retry_loop try done k 0 = (GaveUp, [])"
| "retry_loop try done k (Suc r) =
     (if 0 < k \<and> done k then (Aborted, [])
      else (case try k of
        (True, l) \<Rightarrow> (Delivered, l)
      | (False, l) \<Rightarrow> (case retry_loop try done (Suc k) r of (d, l1) \<Rightarrow> (d, l @ l1))))"

lemma retry_loop_delivered:
  "retry_loop try d k r = (Delivered, l) \<Longrightarrow> \<exists>j l0 l1. try j = (True, l1) \<and> l = l0 @ l1"
proof (induction r arbitrary: k l)
  case (Suc r)
  then show ?case by (auto split: if_splits prod.splits bool.splits) (metis append.assoc append_Nil)+
qed simp

lemma retry_loop_not_aborted: "(\<And>j. \<not> d j) \<Longrightarrow> fst (retry_loop try d k r) \<noteq> Aborted"
  by (induction r arbitrary: k) (auto split: prod.splits bool.splits, metis fst_conv)

section \<open>Registry of subscribers\<close>

text \<open>Subscribers by type of event, in the order of their subscription, with their number of retries; and the pairs
  of an event and a subscriber that failed for good in this process.\<close>

record registry =
  rg_subs :: "(string \<times> string \<times> int) list"
  rg_failed :: "(string \<times> string) list"
  rg_calls :: "(string \<times> string \<times> bool) list"

definition subscribe :: "string \<Rightarrow> string \<Rightarrow> int \<Rightarrow> registry \<Rightarrow> registry" where
  "subscribe ty s retries r =
     r\<lparr>rg_subs := rg_subs r @ [(if ty = [] then ''*'' else ty, s, if retries < 0 then 0 else retries)]\<rparr>"

definition subscribers_of :: "string \<Rightarrow> registry \<Rightarrow> (string \<times> int) list" where
  "subscribers_of ty r =
     map snd (filter (\<lambda>x. fst x = ty) (rg_subs r)) @ map snd (filter (\<lambda>x. fst x = ''*'') (rg_subs r))"

text \<open>\<open>ans s k\<close> is the answer of a subscriber at attempt \<open>k\<close>.\<close>

definition handle_with_retry :: "(string \<Rightarrow> nat \<Rightarrow> bool) \<Rightarrow> (string \<Rightarrow> nat \<Rightarrow> bool) \<Rightarrow> string \<Rightarrow> string \<times> int \<Rightarrow> registry \<Rightarrow> delivery \<times> registry" where
  "handle_with_retry ans cancelled e entry r =
     (case entry of (s, retries) \<Rightarrow>
        (case retry_loop (\<lambda>k. (ans s k, [(e, s, ans s k)])) (cancelled s) 0 (Suc (nat retries)) of
           (d, l) \<Rightarrow>
             let r1 = r\<lparr>rg_calls := rg_calls r @ l\<rparr> in
             (d, case d of
                   Delivered \<Rightarrow> r1\<lparr>rg_failed := filter (\<lambda>p. p \<noteq> (e, s)) (rg_failed r1)\<rparr>
                 | GaveUp \<Rightarrow> r1\<lparr>rg_failed := List.insert (e, s) (rg_failed r1)\<rparr>
                 | Aborted \<Rightarrow> r1)))"

fun publish_loop :: "(string \<Rightarrow> nat \<Rightarrow> bool) \<Rightarrow> (string \<Rightarrow> nat \<Rightarrow> bool) \<Rightarrow> string \<Rightarrow> (string \<times> int) list \<Rightarrow> registry \<Rightarrow> registry" where
  "publish_loop ans cancelled e [] r = r"
| "publish_loop ans cancelled e (x # xs) r =
     publish_loop ans cancelled e xs
       (if (e, fst x) \<in> set (rg_failed r) then r else snd (handle_with_retry ans cancelled e x r))"

definition registry_publish :: "(string \<Rightarrow> nat \<Rightarrow> bool) \<Rightarrow> (string \<Rightarrow> nat \<Rightarrow> bool) \<Rightarrow> string \<Rightarrow> string \<Rightarrow> registry \<Rightarrow> registry" where
  "registry_publish ans cancelled e ty r = publish_loop ans cancelled e (subscribers_of ty r) r"

section \<open>Table of events\<close>

record stored_event =
  se_id :: string
  se_type :: string
  se_created :: gotime
  se_dispatched :: bool
  se_failures :: int

record outbox =
  ob_events :: "stored_event list"
  ob_dead :: "stored_event list"
  ob_calls :: "(string \<times> string \<times> bool) list"

definition max_failure_count :: int where
  "max_failure_count = 5"

text \<open>An envelope without an identifier gets a fresh one here, in the copy that is stored.\<close>

definition store_publish :: "bool \<Rightarrow> string \<Rightarrow> string \<Rightarrow> string \<Rightarrow> gotime \<Rightarrow> outbox \<Rightarrow> bool \<times> outbox" where
  "store_publish ok fresh i ty t ob =
     (let i1 = if i = [] then fresh else i in
      if \<not> ok \<or> (\<exists>e \<in> set (ob_events ob). se_id e = i1) then (False, ob)
      else (True, ob\<lparr>ob_events := ob_events ob @ [\<lparr>se_id = i1, se_type = ty, se_created = t, se_dispatched = False, se_failures = 0\<rparr>]\<rparr>))"

definition is_pending :: "stored_event \<Rightarrow> bool" where
  "is_pending e \<longleftrightarrow> \<not> se_dispatched e \<and> se_failures e < max_failure_count"

definition pending_events :: "nat \<Rightarrow> outbox \<Rightarrow> stored_event list" where
  "pending_events limit ob = take limit (slice_stable (\<lambda>a b. se_created a < se_created b) (filter is_pending (ob_events ob)))"

definition map_event :: "string \<Rightarrow> (stored_event \<Rightarrow> stored_event) \<Rightarrow> outbox \<Rightarrow> outbox" where
  "map_event i f ob = ob\<lparr>ob_events := map (\<lambda>e. if se_id e = i then f e else e) (ob_events ob)\<rparr>"

definition mark_dispatched :: "bool \<Rightarrow> string \<Rightarrow> outbox \<Rightarrow> bool \<times> outbox" where
  "mark_dispatched ok i ob = (if ok then (True, map_event i (\<lambda>e. e\<lparr>se_dispatched := True\<rparr>) ob) else (False, ob))"

definition mark_failed :: "bool \<Rightarrow> string \<Rightarrow> outbox \<Rightarrow> bool \<times> outbox" where
  "mark_failed ok i ob = (if ok then (True, map_event i (\<lambda>e. e\<lparr>se_failures := se_failures e + 1\<rparr>) ob) else (False, ob))"

definition move_to_dead_letter :: "bool \<Rightarrow> bool \<Rightarrow> string \<Rightarrow> outbox \<Rightarrow> bool \<times> outbox" where
  "move_to_dead_letter ok1 ok2 i ob =
     (if \<not> ok1 \<or> ((\<exists>e \<in> set (ob_events ob). se_id e = i) \<and> (\<exists>e \<in> set (ob_dead ob). se_id e = i)) then (False, ob)
      else let ob1 = ob\<lparr>ob_dead := ob_dead ob @ filter (\<lambda>e. se_id e = i) (ob_events ob)\<rparr> in
           if \<not> ok2 then (False, ob1) else (True, ob1\<lparr>ob_events := filter (\<lambda>e. se_id e \<noteq> i) (ob_events ob1)\<rparr>))"

section \<open>The relay\<close>

text \<open>One attempt calls the subscribers in order and stops at the first error.\<close>

fun call_subscribers :: "(string \<Rightarrow> bool) \<Rightarrow> string \<Rightarrow> string list \<Rightarrow> bool \<times> (string \<times> string \<times> bool) list" where
  "call_subscribers ans e [] = (True, [])"
| "call_subscribers ans e (s # ss) =
     (if ans s then (case call_subscribers ans e ss of (b, l) \<Rightarrow> (b, (e, s, True) # l)) else (False, [(e, s, False)]))"

definition relay_retries :: nat where
  "relay_retries = 3"

text \<open>What is answered while one event is processed.\<close>

record relay_answers =
  rl_call :: "nat \<Rightarrow> string \<Rightarrow> bool"
  rl_done :: "nat \<Rightarrow> bool"
  rl_dispatched :: bool
  rl_failed :: bool
  rl_insert :: bool
  rl_delete :: bool

definition deliver_with_retries :: "relay_answers \<Rightarrow> string list \<Rightarrow> string \<Rightarrow> delivery \<times> (string \<times> string \<times> bool) list" where
  "deliver_with_retries a subs i = retry_loop (\<lambda>k. call_subscribers (rl_call a k) i subs) (rl_done a) 0 (Suc relay_retries)"

text \<open>Processing one event: whether the batch goes on, and the state.\<close>

definition process_event :: "relay_answers \<Rightarrow> string list \<Rightarrow> stored_event \<Rightarrow> outbox \<Rightarrow> bool \<times> outbox" where
  "process_event a subs e ob =
     (case deliver_with_retries a subs (se_id e) of
        (d, l) \<Rightarrow>
          let ob1 = ob\<lparr>ob_calls := ob_calls ob @ l\<rparr> in
          (case d of
             Delivered \<Rightarrow> mark_dispatched (rl_dispatched a) (se_id e) ob1
           | Aborted \<Rightarrow> (False, ob1)
           | GaveUp \<Rightarrow>
               (case mark_failed (rl_failed a) (se_id e) ob1 of
                  (False, ob2) \<Rightarrow> (False, ob2)
                | (True, ob2) \<Rightarrow>
                    (False, if max_failure_count \<le> se_failures e + int (Suc relay_retries)
                            then snd (move_to_dead_letter (rl_insert a) (rl_delete a) (se_id e) ob2) else ob2))))"

fun batch_loop :: "(string \<Rightarrow> relay_answers) \<Rightarrow> (string \<Rightarrow> bool) \<Rightarrow> string list \<Rightarrow> stored_event list \<Rightarrow> outbox \<Rightarrow> outbox" where
  "batch_loop ans stopped subs [] ob = ob"
| "batch_loop ans stopped subs (e # es) ob =
     (if stopped (se_id e) then ob
      else (case process_event (ans (se_id e)) subs e ob of
        (False, ob1) \<Rightarrow> ob1
      | (True, ob1) \<Rightarrow> batch_loop ans stopped subs es ob1))"

definition process_batch :: "(string \<Rightarrow> relay_answers) \<Rightarrow> (string \<Rightarrow> bool) \<Rightarrow> bool \<Rightarrow> string list \<Rightarrow> outbox \<Rightarrow> outbox" where
  "process_batch ans stopped ok subs ob = (if ok then batch_loop ans stopped subs (pending_events 100 ob) ob else ob)"

text \<open>The polling loop: one batch per tick.\<close>

fun relay_polls :: "(nat \<Rightarrow> string \<Rightarrow> relay_answers) \<Rightarrow> string list \<Rightarrow> nat \<Rightarrow> outbox \<Rightarrow> outbox" where
  "relay_polls ans subs 0 ob = ob"
| "relay_polls ans subs (Suc n) ob = process_batch (ans n) (\<lambda>_. False) True subs (relay_polls ans subs n ob)"

text \<open>Publishing through the outbox: the table first, then the registry of this process.\<close>

definition outbox_publish ::
  "(string \<Rightarrow> nat \<Rightarrow> bool) \<Rightarrow> (string \<Rightarrow> nat \<Rightarrow> bool) \<Rightarrow> bool \<Rightarrow> string \<Rightarrow> string \<Rightarrow> string \<Rightarrow> gotime \<Rightarrow> outbox \<times> registry \<Rightarrow> bool \<times> outbox \<times> registry" where
  "outbox_publish ans cancelled ok fresh i ty t st =
     (case store_publish ok fresh i ty t (fst st) of
        (False, ob) \<Rightarrow> (False, ob, snd st)
      | (True, ob) \<Rightarrow> (True, ob, registry_publish ans cancelled i ty (snd st)))"

section \<open>What was dispatched was delivered\<close>

lemma call_subscribers_all: "call_subscribers ans e ss = (True, l) \<Longrightarrow> l = map (\<lambda>s. (e, s, True)) ss"
  by (induction ss arbitrary: l) (auto split: if_splits prod.splits)

lemma delivered_calls:
  assumes "deliver_with_retries a subs e = (Delivered, l)"
  shows "\<forall>s \<in> set subs. (e, s, True) \<in> set l"
  using retry_loop_delivered [OF assms [unfolded deliver_with_retries_def]] call_subscribers_all by fastforce

text \<open>Every event that is marked dispatched was so before, or each subscriber has accepted it.\<close>

definition covered :: "string set \<Rightarrow> string list \<Rightarrow> outbox \<Rightarrow> bool" where
  "covered old subs ob \<longleftrightarrow> (\<forall>e \<in> set (ob_events ob). se_dispatched e \<longrightarrow> se_id e \<in> old \<or> (\<forall>s \<in> set subs. (se_id e, s, True) \<in> set (ob_calls ob)))"

lemma covered_rows:
  "covered old subs ob \<Longrightarrow> set (ob_events ob') \<subseteq> set (ob_events ob) \<Longrightarrow> set (ob_calls ob) \<subseteq> set (ob_calls ob') \<Longrightarrow> covered old subs ob'"
  by (auto simp: covered_def)

lemma covered_failed: "covered old subs ob \<Longrightarrow> covered old subs (snd (mark_failed ok i ob))"
  by (auto simp: covered_def mark_failed_def map_event_def)

lemma covered_dead: "covered old subs ob \<Longrightarrow> covered old subs (snd (move_to_dead_letter ok1 ok2 i ob))"
  by (auto simp: covered_def move_to_dead_letter_def Let_def)

lemma process_event_covered:
  assumes "covered old subs ob"
  shows "covered old subs (snd (process_event a subs e ob))"
proof -
  obtain d l where r: "deliver_with_retries a subs (se_id e) = (d, l)" by fastforce
  let ?ob = "ob\<lparr>ob_calls := ob_calls ob @ l\<rparr>"
  have c: "covered old subs ?ob" using assms by (rule covered_rows) auto
  show ?thesis
  proof (cases d)
    case Delivered
    have "\<forall>s \<in> set subs. (se_id e, s, True) \<in> set l" using delivered_calls r unfolding Delivered by blast
    then have "covered old subs (map_event (se_id e) (\<lambda>e. e\<lparr>se_dispatched := True\<rparr>) ?ob)"
      using c by (auto simp: covered_def map_event_def)
    then show ?thesis using c by (simp add: process_event_def r Delivered mark_dispatched_def Let_def)
  next
    case GaveUp
    obtain b ob2 where m: "mark_failed (rl_failed a) (se_id e) ?ob = (b, ob2)" by fastforce
    have "covered old subs ob2" using covered_failed [OF c, of "rl_failed a" "se_id e"] by (simp add: m)
    then show ?thesis by (cases b) (simp_all add: process_event_def r GaveUp m covered_dead Let_def)
  next
    case Aborted
    then show ?thesis using c by (simp add: process_event_def r Let_def)
  qed
qed

lemma batch_loop_covered: "covered old subs ob \<Longrightarrow> covered old subs (batch_loop ans stopped subs es ob)"
proof (induction es arbitrary: ob)
  case (Cons e es)
  have "covered old subs (snd (process_event (ans (se_id e)) subs e ob))" by (rule process_event_covered [OF Cons.prems])
  then show ?case using Cons by (auto split: prod.splits bool.splits)
qed simp

text \<open>C27: Delivery is at least once: an event that a batch marks dispatched has been accepted by every subscriber of
  the relay, whatever subscribers and database answer and wherever the batch stops.\<close>

theorem dispatched_after_delivery:
  assumes "e \<in> set (ob_events (process_batch ans stopped ok subs ob))" "se_dispatched e"
    "\<forall>x \<in> set (ob_events ob). se_id x = se_id e \<longrightarrow> \<not> se_dispatched x" "s \<in> set subs"
  shows "(se_id e, s, True) \<in> set (ob_calls (process_batch ans stopped ok subs ob))"
proof -
  let ?old = "se_id ` {x \<in> set (ob_events ob). se_dispatched x}"
  have "covered ?old subs ob" by (auto simp: covered_def)
  then have "covered ?old subs (process_batch ans stopped ok subs ob)" by (simp add: process_batch_def batch_loop_covered)
  then show ?thesis using assms by (auto simp: covered_def)
qed

definition demo_outbox :: outbox where
  "demo_outbox = \<lparr>ob_events =
     [\<lparr>se_id = ''e1'', se_type = ''t'', se_created = 5, se_dispatched = False, se_failures = 0\<rparr>,
      \<lparr>se_id = ''e2'', se_type = ''t'', se_created = 3, se_dispatched = False, se_failures = 0\<rparr>],
     ob_dead = [], ob_calls = []\<rparr>"

definition demo_answers :: "string \<Rightarrow> relay_answers" where
  "demo_answers i = \<lparr>rl_call = \<lambda>k s. i = ''e2'' \<and> (s = ''s1'' \<or> 0 < k), rl_done = \<lambda>_. False, rl_dispatched = True,
     rl_failed = True, rl_insert = True, rl_delete = True\<rparr>"

text \<open>Witness of C27: the older event is accepted at the second attempt and dispatched.\<close>

theorem dispatched_after_delivery_witness:
  "(''e2'', ''s2'', True) \<in> set (ob_calls (process_batch demo_answers (\<lambda>_. False) True [''s1'', ''s2''] demo_outbox))"
  using dispatched_after_delivery [of "\<lparr>se_id = ''e2'', se_type = ''t'', se_created = 3, se_dispatched = True, se_failures = 0\<rparr>"
      demo_answers "\<lambda>_. False" True "[''s1'', ''s2'']" demo_outbox "''s2''"]
  by (simp add: demo_outbox_def demo_answers_def process_batch_def pending_events_def is_pending_def max_failure_count_def
      process_event_def deliver_with_retries_def relay_retries_def mark_dispatched_def mark_failed_def map_event_def
      move_to_dead_letter_def numeral_3_eq_3 Let_def)

section \<open>The relay drains the table\<close>

text \<open>Every statement succeeds and no wait is cut short; subscribers answer what they will.\<close>

definition relay_good :: "relay_answers \<Rightarrow> bool" where
  "relay_good a \<longleftrightarrow> (\<forall>k. \<not> rl_done a k) \<and> rl_dispatched a \<and> rl_failed a \<and> rl_insert a \<and> rl_delete a"

definition outbox_ok :: "outbox \<Rightarrow> bool" where
  "outbox_ok ob \<longleftrightarrow> distinct (map se_id (ob_events ob)) \<and>
     se_id ` set (ob_events ob) \<inter> se_id ` set (ob_dead ob) = {} \<and>
     (\<forall>e \<in> set (ob_events ob). \<not> se_dispatched e \<longrightarrow> 0 \<le> se_failures e \<and> se_failures e < max_failure_count)"

definition event_weight :: "stored_event \<Rightarrow> nat" where
  "event_weight e = (if \<not> is_pending e then 0 else if se_failures e \<le> 0 then 2 else 1)"

definition outbox_weight :: "outbox \<Rightarrow> nat" where
  "outbox_weight ob = sum_list (map event_weight (ob_events ob))"

definition known_ids :: "outbox \<Rightarrow> string set" where
  "known_ids ob = se_id ` set (ob_events ob) \<union> se_id ` set (ob_dead ob)"

lemma process_event_good:
  assumes "relay_good a"
  shows "\<exists>l. let ob1 = ob\<lparr>ob_calls := ob_calls ob @ l\<rparr>; ob2 = map_event (se_id e) (\<lambda>e. e\<lparr>se_failures := se_failures e + 1\<rparr>) ob1 in
    process_event a subs e ob = (True, map_event (se_id e) (\<lambda>e. e\<lparr>se_dispatched := True\<rparr>) ob1) \<or>
    process_event a subs e ob = (False, if 1 \<le> se_failures e then snd (move_to_dead_letter True True (se_id e) ob2) else ob2)"
proof -
  obtain d l where r: "deliver_with_retries a subs (se_id e) = (d, l)" by fastforce
  have "d \<noteq> Aborted"
    using retry_loop_not_aborted [of "rl_done a" "\<lambda>k. call_subscribers (rl_call a k) (se_id e) subs" 0 "Suc relay_retries"] assms r
    by (simp add: deliver_with_retries_def relay_good_def del: retry_loop.simps)
  then show ?thesis using assms
    by (intro exI [of _ l], cases d)
      (auto simp: process_event_def r relay_good_def mark_dispatched_def mark_failed_def max_failure_count_def relay_retries_def Let_def)
qed

text \<open>What processing a pending row does: the table stays in order, no identifier gets lost, the weight decreases.\<close>

definition relay_progress :: "outbox \<Rightarrow> outbox \<Rightarrow> bool" where
  "relay_progress ob ob' \<longleftrightarrow> outbox_ok ob' \<and> known_ids ob' = known_ids ob \<and> outbox_weight ob' < outbox_weight ob"

lemma weight_map_le:
  "(\<And>x. x \<in> set xs \<Longrightarrow> w (f x) \<le> (w x :: nat)) \<Longrightarrow> sum_list (map w (map f xs)) \<le> sum_list (map w xs)"
  by (induction xs) (auto intro: add_mono)

lemma weight_map_less:
  "(\<And>x. x \<in> set xs \<Longrightarrow> w (f x) \<le> (w x :: nat)) \<Longrightarrow> e \<in> set xs \<Longrightarrow> w (f e) < w e \<Longrightarrow>
     sum_list (map w (map f xs)) < sum_list (map w xs)"
proof (induction xs)
  case (Cons x xs)
  have "sum_list (map w (map f xs)) \<le> sum_list (map w xs)" using Cons.prems(1) by (intro weight_map_le) auto
  moreover have "w (f x) \<le> w x" using Cons.prems(1) by simp
  moreover have "w (f x) < w x \<or> sum_list (map w (map f xs)) < sum_list (map w xs)"
    using Cons.IH Cons.prems by auto
  ultimately show ?case by auto
qed simp

lemma weight_map_event:
  assumes "\<And>x. event_weight (f x) \<le> event_weight x" "e \<in> set (ob_events ob)" "event_weight (f e) < event_weight e"
  shows "outbox_weight (map_event (se_id e) f ob) < outbox_weight ob"
  unfolding outbox_weight_def map_event_def
  using weight_map_less [of "ob_events ob" event_weight "\<lambda>x. if se_id x = se_id e then f x else x" e] assms by auto

lemma weight_filter_less:
  "e \<in> set xs \<Longrightarrow> \<not> P e \<Longrightarrow> 0 < w e \<Longrightarrow> sum_list (map w (filter P xs)) < (sum_list (map w xs) :: nat)"
proof (induction xs)
  case (Cons x xs)
  have "sum_list (map w (filter P xs)) \<le> sum_list (map w xs)" by (induction xs) auto
  then show ?case using Cons by auto
qed simp

lemma map_event_ids: "(\<And>x. se_id (f x) = se_id x) \<Longrightarrow> map se_id (ob_events (map_event i f ob)) = map se_id (ob_events ob)"
  by (auto simp: map_event_def)

lemma pending_weight: "is_pending e \<Longrightarrow> 0 < event_weight e"
  by (simp add: event_weight_def)

lemma progress_map_event:
  assumes "outbox_ok ob" "e \<in> set (ob_events ob)" "\<And>x. se_id (f x) = se_id x" "\<And>x. event_weight (f x) \<le> event_weight x"
    "event_weight (f e) < event_weight e"
    "\<not> se_dispatched (f e) \<Longrightarrow> 0 \<le> se_failures (f e) \<and> se_failures (f e) < max_failure_count"
  shows "relay_progress ob (map_event (se_id e) f ob)"
proof -
  have ids: "map se_id (ob_events (map_event (se_id e) f ob)) = map se_id (ob_events ob)" using assms(3) by (rule map_event_ids)
  then have set_ids: "se_id ` set (ob_events (map_event (se_id e) f ob)) = se_id ` set (ob_events ob)" by (metis set_map)
  have "x = e" if "x \<in> set (ob_events ob)" "se_id x = se_id e" for x
    using assms(1,2) that by (auto simp: outbox_ok_def distinct_map dest: inj_onD)
  then have rows: "y = f e \<or> y \<in> set (ob_events ob)" if "y \<in> set (ob_events (map_event (se_id e) f ob))" for y
    using that by (auto simp: map_event_def split: if_splits)
  have dead: "ob_dead (map_event (se_id e) f ob) = ob_dead ob" by (simp add: map_event_def)
  have "outbox_ok (map_event (se_id e) f ob)"
    unfolding outbox_ok_def ids set_ids dead using assms(1,6) rows unfolding outbox_ok_def by blast
  then show ?thesis
    using weight_map_event [OF assms(4,2,5)] by (simp add: relay_progress_def known_ids_def set_ids dead)
qed

lemma progress_dispatched:
  "outbox_ok ob \<Longrightarrow> e \<in> set (ob_events ob) \<Longrightarrow> is_pending e \<Longrightarrow>
     relay_progress ob (map_event (se_id e) (\<lambda>e. e\<lparr>se_dispatched := True\<rparr>) ob)"
  by (rule progress_map_event) (auto simp: event_weight_def is_pending_def)

lemma progress_failed:
  "outbox_ok ob \<Longrightarrow> e \<in> set (ob_events ob) \<Longrightarrow> is_pending e \<Longrightarrow> se_failures e < 1 \<Longrightarrow>
     relay_progress ob (map_event (se_id e) (\<lambda>e. e\<lparr>se_failures := se_failures e + 1\<rparr>) ob)"
  by (rule progress_map_event) (auto simp: event_weight_def is_pending_def outbox_ok_def max_failure_count_def)

lemma filter_map_event:
  "(\<And>x. se_id (f x) = se_id x) \<Longrightarrow> filter (\<lambda>e. se_id e \<noteq> i) (ob_events (map_event i f ob)) = filter (\<lambda>e. se_id e \<noteq> i) (ob_events ob)"
  unfolding map_event_def by (simp add: filter_map o_def if_distrib cong: if_cong) (auto intro: map_idI)

lemma progress_dead:
  assumes "outbox_ok ob" "e \<in> set (ob_events ob)" "is_pending e" and f: "\<And>x. se_id (f x) = se_id x"
  shows "relay_progress ob (snd (move_to_dead_letter True True (se_id e) (map_event (se_id e) f ob)))"
proof -
  let ?m = "map_event (se_id e) f ob" and ?r = "snd (move_to_dead_letter True True (se_id e) (map_event (se_id e) f ob))"
  have ids: "se_id ` set (ob_events ?m) = se_id ` set (ob_events ob)" using map_event_ids [of f "se_id e" ob, OF f] by (metis set_map)
  have "\<not> (\<exists>d \<in> set (ob_dead ob). se_id d = se_id e)" using assms(1,2) unfolding outbox_ok_def by blast
  then have "\<not> (\<exists>d \<in> set (ob_dead ?m). se_id d = se_id e)" by (simp add: map_event_def)
  then have "?r = ?m\<lparr>ob_dead := ob_dead ?m @ filter (\<lambda>x. se_id x = se_id e) (ob_events ?m), ob_events := filter (\<lambda>x. se_id x \<noteq> se_id e) (ob_events ?m)\<rparr>"
    unfolding move_to_dead_letter_def Let_def by simp
  then have r: "ob_events ?r = filter (\<lambda>x. se_id x \<noteq> se_id e) (ob_events ob)"
      "ob_dead ?r = ob_dead ob @ filter (\<lambda>x. se_id x = se_id e) (ob_events ?m)"
    using filter_map_event [of f "se_id e" ob, OF f] by (simp, simp add: map_event_def)
  have "se_id e \<in> se_id ` set (ob_events ?m)" unfolding ids using assms(2) by simp
  then have moved: "se_id ` set (filter (\<lambda>x. se_id x = se_id e) (ob_events ?m)) = {se_id e}" by (auto simp: image_iff)
  have "outbox_weight ?r < outbox_weight ob"
    unfolding outbox_weight_def r using assms(2) pending_weight [OF assms(3)] by (intro weight_filter_less [of e]) auto
  moreover have "known_ids ?r = known_ids ob" unfolding known_ids_def r set_append image_Un moved using assms(2) by auto
  moreover have "outbox_ok ?r"
    using assms(1) unfolding outbox_ok_def r set_append image_Un moved by (auto simp: distinct_map inj_on_def)
  ultimately show ?thesis by (simp add: relay_progress_def)
qed

lemma calls_irrelevant [simp]:
  "outbox_ok (ob\<lparr>ob_calls := l\<rparr>) = outbox_ok ob" "relay_progress (ob\<lparr>ob_calls := l\<rparr>) ob' = relay_progress ob ob'"
  by (simp_all add: outbox_ok_def relay_progress_def known_ids_def outbox_weight_def)

lemma relay_progress_trans: "relay_progress a b \<Longrightarrow> relay_progress b c \<Longrightarrow> relay_progress a c"
  by (simp add: relay_progress_def)

lemma process_event_progress:
  assumes "relay_good a" "outbox_ok ob" "e \<in> set (ob_events ob)" "is_pending e"
  shows "relay_progress ob (snd (process_event a subs e ob))"
    "fst (process_event a subs e ob) \<Longrightarrow> x \<in> set (ob_events ob) \<Longrightarrow> se_id x \<noteq> se_id e \<Longrightarrow> x \<in> set (ob_events (snd (process_event a subs e ob)))"
proof -
  obtain l where l: "let ob1 = ob\<lparr>ob_calls := ob_calls ob @ l\<rparr>; ob2 = map_event (se_id e) (\<lambda>e. e\<lparr>se_failures := se_failures e + 1\<rparr>) ob1 in
    process_event a subs e ob = (True, map_event (se_id e) (\<lambda>e. e\<lparr>se_dispatched := True\<rparr>) ob1) \<or>
    process_event a subs e ob = (False, if 1 \<le> se_failures e then snd (move_to_dead_letter True True (se_id e) ob2) else ob2)"
    using process_event_good [OF assms(1)] by blast
  let ?ob = "ob\<lparr>ob_calls := ob_calls ob @ l\<rparr>"
  have ok: "outbox_ok ?ob" "e \<in> set (ob_events ?ob)" using assms by simp_all
  note steps = progress_dispatched [OF ok assms(4)] progress_failed [OF ok assms(4)]
    progress_dead [OF ok assms(4), of "\<lambda>e. e\<lparr>se_failures := se_failures e + 1\<rparr>"]
  show "relay_progress ob (snd (process_event a subs e ob))" using l steps unfolding Let_def by (auto simp del: )
  show "x \<in> set (ob_events (snd (process_event a subs e ob)))"
    if "fst (process_event a subs e ob)" "x \<in> set (ob_events ob)" "se_id x \<noteq> se_id e"
    using l that unfolding Let_def by (auto simp: map_event_def)
qed

lemma batch_loop_progress:
  "(\<And>i. relay_good (ans i)) \<Longrightarrow> outbox_ok ob \<Longrightarrow> set es \<subseteq> set (ob_events ob) \<Longrightarrow> (\<And>e. e \<in> set es \<Longrightarrow> is_pending e) \<Longrightarrow>
     distinct (map se_id es) \<Longrightarrow> es \<noteq> [] \<Longrightarrow> relay_progress ob (batch_loop ans (\<lambda>_. False) subs es ob)"
proof (induction es arbitrary: ob)
  case (Cons e es)
  obtain b ob1 where r: "process_event (ans (se_id e)) subs e ob = (b, ob1)" by fastforce
  have e: "e \<in> set (ob_events ob)" "is_pending e" using Cons.prems by auto
  have p: "relay_progress ob ob1" using process_event_progress(1) [OF Cons.prems(1,2) e] r by (metis snd_conv)
  show ?case
  proof (cases "b \<and> es \<noteq> []")
    case True
    have "set es \<subseteq> set (ob_events ob1)"
    proof
      fix x assume "x \<in> set es"
      then have "x \<in> set (ob_events ob)" "se_id x \<noteq> se_id e" using Cons.prems(3,5) by (auto simp: image_iff)
      then show "x \<in> set (ob_events ob1)"
        using process_event_progress(2) [OF Cons.prems(1,2) e, of "se_id e" subs x] r True by simp
    qed
    then have "relay_progress ob1 (batch_loop ans (\<lambda>_. False) subs es ob1)"
      using Cons.prems True p by (intro Cons.IH) (auto simp: relay_progress_def)
    then show ?thesis using p True r by (auto intro: relay_progress_trans)
  next
    case False
    then show ?thesis using p r by (cases b) auto
  qed
qed simp

lemma process_batch_progress:
  assumes "\<And>i. relay_good (ans i)" "outbox_ok ob" "0 < outbox_weight ob"
  shows "relay_progress ob (process_batch ans (\<lambda>_. False) True subs ob)"
proof -
  let ?all = "slice_stable (\<lambda>a b. se_created a < se_created b) (filter is_pending (ob_events ob))"
  have "\<exists>e \<in> set (ob_events ob). is_pending e"
    using assms(3) unfolding outbox_weight_def by (rule contrapos_pp) (auto simp: event_weight_def)
  then have "?all \<noteq> []" by (metis filter_empty_conv length_0_conv length_slice_stable)
  moreover have "distinct (map se_id ?all)"
    using assms(2) by (metis (no_types, lifting) distinct_map_filter mset_eq_imp_distinct_iff mset_map mset_slice_stable outbox_ok_def)
  then have "distinct (map se_id (pending_events 100 ob))" by (simp add: pending_events_def distinct_take flip: take_map)
  moreover have "set (pending_events 100 ob) \<subseteq> {e \<in> set (ob_events ob). is_pending e}"
    using set_take_subset [of 100 ?all] by (auto simp: pending_events_def)
  ultimately show ?thesis
    using assms(1,2) unfolding process_batch_def by (auto simp: pending_events_def intro!: batch_loop_progress)
qed

lemma relay_polls_progress:
  assumes "\<And>n i. relay_good (ans n i)" "outbox_ok ob"
  shows "outbox_ok (relay_polls ans subs n ob) \<and> known_ids (relay_polls ans subs n ob) = known_ids ob \<and>
    outbox_weight (relay_polls ans subs n ob) \<le> outbox_weight ob - n"
proof (induction n)
  case (Suc n)
  let ?o = "relay_polls ans subs n ob"
  show ?case
  proof (cases "outbox_weight ?o = 0")
    case True
    then have "filter is_pending (ob_events ?o) = []" using pending_weight by (fastforce simp: outbox_weight_def filter_empty_conv)
    then have "relay_polls ans subs (Suc n) ob = ?o" by (simp add: process_batch_def pending_events_def)
    then show ?thesis using Suc True by simp
  next
    case False
    then have "relay_progress ?o (relay_polls ans subs (Suc n) ob)"
      using Suc assms by (auto intro: process_batch_progress)
    then show ?thesis using Suc unfolding relay_progress_def by auto
  qed
qed (simp add: assms)

lemma outbox_weight_le: "outbox_weight ob \<le> 2 * length (ob_events ob)"
proof -
  have "sum_list (map event_weight xs) \<le> 2 * length xs" for xs by (induction xs) (auto simp: event_weight_def)
  then show ?thesis by (simp add: outbox_weight_def)
qed



section \<open>No subscriber, no delivery\<close>

text \<open>A relay without subscribers marks events dispatched that no one has seen.\<close>

lemma unwired_event:
  "rl_dispatched a \<Longrightarrow> process_event a [] e ob = (True, map_event (se_id e) (\<lambda>e. e\<lparr>se_dispatched := True\<rparr>) ob)"
  by (simp add: process_event_def deliver_with_retries_def mark_dispatched_def)

lemma unwired_batch_loop:
  "(\<And>i. rl_dispatched (ans i)) \<Longrightarrow> batch_loop ans (\<lambda>_. False) [] es ob =
     ob\<lparr>ob_events := map (\<lambda>x. if se_id x \<in> se_id ` set es then x\<lparr>se_dispatched := True\<rparr> else x) (ob_events ob)\<rparr>"
  by (induction es arbitrary: ob) (simp_all add: unwired_event, simp add: map_event_def o_def cong: if_cong)

theorem unwired_relay_discards:
  assumes "\<And>i. rl_dispatched (ans i)"
  shows "ob_calls (process_batch ans (\<lambda>_. False) True [] ob) = ob_calls ob"
    "x \<in> set (ob_events (process_batch ans (\<lambda>_. False) True [] ob)) \<Longrightarrow> se_id x \<in> se_id ` set (pending_events 100 ob) \<Longrightarrow> se_dispatched x"
  using assms by (auto simp: process_batch_def unwired_batch_loop)

section \<open>The registry of this process\<close>

text \<open>A failure of one subscriber never keeps the others from being called.\<close>

definition attempted :: "string \<Rightarrow> string \<Rightarrow> registry \<Rightarrow> bool" where
  "attempted e s r \<longleftrightarrow> (\<exists>b. (e, s, b) \<in> set (rg_calls r))"

lemma retry_loop_first: "retry_loop try d 0 (Suc r) = (x, l) \<Longrightarrow> \<exists>l1. l = snd (try 0) @ l1"
  by (auto split: prod.splits bool.splits)

lemma handle_attempts: "attempted e (fst x) (snd (handle_with_retry ans cancelled e x r))"
proof -
  obtain s n where x: "x = (s, n)" by fastforce
  obtain d l where l: "retry_loop (\<lambda>k. (ans s k, [(e, s, ans s k)])) (cancelled s) 0 (Suc (nat n)) = (d, l)" by fastforce
  then have "(e, s, ans s 0) \<in> set l" using retry_loop_first [OF l] by auto
  then show ?thesis by (cases d) (auto simp: x handle_with_retry_def l attempted_def Let_def simp del: retry_loop.simps)
qed

lemma handle_others:
  assumes "s \<noteq> fst x"
  shows "(e, s) \<in> set (rg_failed (snd (handle_with_retry ans cancelled e x r))) \<longleftrightarrow> (e, s) \<in> set (rg_failed r)"
  using assms by (auto simp: handle_with_retry_def Let_def split: prod.splits delivery.splits)

lemma attempted_mono: "attempted e s r \<Longrightarrow> attempted e s (snd (handle_with_retry ans cancelled e x r))"
  by (auto simp: attempted_def handle_with_retry_def Let_def split: prod.splits delivery.splits)

lemma attempted_publish: "attempted e s r \<Longrightarrow> attempted e s (publish_loop ans cancelled e xs r)"
  by (induction xs arbitrary: r) (simp_all add: attempted_mono)

lemma publish_loop_attempts:
  "s \<in> fst ` set xs \<Longrightarrow> (e, s) \<notin> set (rg_failed r) \<Longrightarrow> attempted e s (publish_loop ans cancelled e xs r)"
proof (induction xs arbitrary: r)
  case (Cons x xs)
  show ?case
  proof (cases "s = fst x")
    case True
    then show ?thesis using Cons.prems(2) by (simp add: attempted_publish handle_attempts)
  next
    case False
    then show ?thesis using Cons handle_others [OF False, of e ans cancelled r] by auto
  qed
qed simp

text \<open>No subscriber is starved: publishing an event calls every subscriber of its type and every subscriber of all
  types at least once, whatever the other subscribers answer and wherever waits are cut short, unless this process has
  already given up on that subscriber for that event.\<close>

theorem publish_reaches_all:
  assumes "(s, n) \<in> set (subscribers_of ty r)" "(e, s) \<notin> set (rg_failed r)"
  shows "\<exists>b. (e, s, b) \<in> set (rg_calls (registry_publish ans cancelled e ty r))"
proof -
  have "s \<in> fst ` set (subscribers_of ty r)" using assms(1) by force
  then show ?thesis
    using publish_loop_attempts [OF _ assms(2), of _ ans cancelled] unfolding registry_publish_def attempted_def by blast
qed

text \<open>An instance: the first subscriber refuses every attempt; the second, of all types, is called.\<close>

theorem publish_reaches_all_witness:
  "\<exists>b. (''e1'', ''s2'', b) \<in> set (rg_calls (registry_publish (\<lambda>s k. s = ''s2'') (\<lambda>s k. False) ''e1'' ''t''
     (subscribe [] ''s2'' 3 (subscribe ''t'' ''s1'' (-1) \<lparr>rg_subs = [], rg_failed = [], rg_calls = []\<rparr>))))"
  by (rule publish_reaches_all [of _ 3]) (simp_all add: subscribers_of_def subscribe_def)

end
