(* ===== verification/Server_Table.thy ===== *)
theory Server_Table
  imports Go_Strings
begin

text \<open>
  The servers of the panel and their allocations: \<^verbatim>\<open>store/store_servers.go\<close>, \<^verbatim>\<open>store_servers_control.go\<close>,
  \<^verbatim>\<open>store_servers_lifecycle.go\<close>, the states of servers in \<^verbatim>\<open>store_state.go\<close> and the rules of start-up variables in
  \<^verbatim>\<open>store_egg_variables.go\<close>. A transaction is one definition; arguments of type bool say whether the database carries a
  statement out. The iteration order of the map of start-up variables is the order of a list. Regular expressions
  are an argument. The audit log, time stamps of installations and paginated lists are left out.
\<close>

section \<open>Rules of start-up variables\<close>

text \<open>The number of runes of a string of bytes: a byte that starts no well-formed sequence counts as one.\<close>

definition cont_byte :: "char \<Rightarrow> bool" where
  "cont_byte c \<longleftrightarrow> of_char c \<in> {128..<192 :: nat}"

definition rune_width :: "string \<Rightarrow> nat" where
  "rune_width s =
     (case map of_char s :: nat list of
        [] \<Rightarrow> 0
      | b # bs \<Rightarrow>
          (let second = (case bs of [] \<Rightarrow> 0 | x # _ \<Rightarrow> x);
               rest = (\<lambda>k. k \<le> length bs \<and> (\<forall>c \<in> set (take k (tl s)). cont_byte c)) in
           if b < 128 then 1
           else if 194 \<le> b \<and> b < 224 \<and> rest 1 then 2
           else if 224 \<le> b \<and> b < 240 \<and> rest 2 \<and> (b = 224 \<longrightarrow> 160 \<le> second) \<and> (b = 237 \<longrightarrow> second < 160) then 3
           else if 240 \<le> b \<and> b < 245 \<and> rest 3 \<and> (b = 240 \<longrightarrow> 144 \<le> second) \<and> (b = 244 \<longrightarrow> second < 144) then 4
           else 1))"

lemma rune_width_pos: "s \<noteq> [] \<Longrightarrow> 0 < rune_width s"
  by (cases s) (auto simp: rune_width_def Let_def)

function rune_count :: "string \<Rightarrow> nat" where
  "rune_count s = (if s = [] then 0 else Suc (rune_count (drop (rune_width s) s)))"
  by auto
termination by (relation "measure length") (auto simp: rune_width_pos)

declare rune_count.simps [simp del]

text \<open>\<^verbatim>\<open>strconv.Atoi\<close>: an optional sign and decimal digits, within 64 bits.\<close>

definition atoi :: "string \<Rightarrow> int option" where
  "atoi s =
     (let neg = (s \<noteq> [] \<and> hd s = CHR ''-''); ds = (if s \<noteq> [] \<and> hd s \<in> {CHR ''-'', CHR ''+''} then tl s else s);
          n = (if neg then - int (read_digits ds) else int (read_digits ds)) in
      if ds = [] \<or> \<not> (\<forall>c \<in> set ds. of_char c \<in> {48..57 :: nat}) \<or> n < - (2 ^ 63) \<or> 2 ^ 63 \<le> n then None else Some n)"

text \<open>One rule: \<open>rx\<close> compiles a pattern to the test of its matches.\<close>

definition check_rule :: "(string \<Rightarrow> (string \<Rightarrow> bool) option) \<Rightarrow> string \<Rightarrow> string \<Rightarrow> bool" where
  "check_rule rx value rule =
     (case split_n2 (CHR '':'') (trim_space rule) of
        (name, a) \<Rightarrow>
          let arg = (case a of None \<Rightarrow> [] | Some x \<Rightarrow> x) in
          if name \<in> {[], ''nullable'', ''string''} then True
          else if name = ''required'' then value \<noteq> []
          else if name = ''max'' then (case atoi arg of None \<Rightarrow> False | Some n \<Rightarrow> 0 \<le> n \<and> int (rune_count value) \<le> n)
          else if name = ''min'' then (case atoi arg of None \<Rightarrow> False | Some n \<Rightarrow> 0 \<le> n \<and> n \<le> int (rune_count value))
          else if name = ''in'' then value \<in> set (split_on (CHR '','') arg)
          else if name = ''regex'' then (case rx arg of None \<Rightarrow> False | Some m \<Rightarrow> m value)
          else False)"

definition validate_variable_value :: "(string \<Rightarrow> (string \<Rightarrow> bool) option) \<Rightarrow> string \<Rightarrow> string \<Rightarrow> bool" where
  "validate_variable_value rx value rules = list_all (check_rule rx value) (split_on (CHR ''|'') rules)"

section \<open>Tables\<close>

record port_row =
  pt_id :: string
  pt_node :: string
  pt_ip :: string
  pt_port :: int
  pt_server :: "string option"
  pt_held :: bool

text \<open>The images of an egg are in the order of their keys; its variables have a name and rules.\<close>

record egg_row =
  eg_id :: string
  eg_memory :: int
  eg_images :: "(string \<times> string) list"
  eg_startup :: string
  eg_vars :: "(string \<times> string) list"

record panel_server =
  sw_id :: string
  sw_node :: string
  sw_owner :: string
  sw_egg :: string
  sw_name :: string
  sw_description :: string
  sw_status :: string
  sw_desired :: string
  sw_actual :: string
  sw_memory :: int
  sw_cpu :: int
  sw_cpu_limit :: int
  sw_disk :: int
  sw_db_limit :: int
  sw_backup_limit :: int
  sw_port_limit :: int
  sw_io_weight :: int
  sw_swap :: int
  sw_threads :: string
  sw_oom :: bool
  sw_image :: string
  sw_startup :: string
  sw_primary :: "string option"
  sw_installed :: bool
  sw_install_error :: "string option"
  sw_sync_pending :: bool
  sw_sync_error :: "string option"
  sw_suspended :: bool

record panel_db =
  pb_servers :: "panel_server list"
  pb_ports :: "port_row list"
  pb_eggs :: "egg_row list"
  pb_users :: "string list"
  pb_nodes :: "(string \<times> string) list"
  pb_vars :: "(string \<times> string \<times> string) list"
  pb_orphans :: "(string \<times> string \<times> string) list"
  pb_moves :: "(string \<times> string \<times> string \<times> string \<times> string) list"

datatype server_error =
    SrvDb | BadLimits | NoOwner | NoEgg | NoImage | NoNodeRow | NoPort | PortTaken | PortElsewhere | NoPrimary
  | TooManyPorts | NoVariable string | BadVariable string | NoServer | EmptyName | EmptyOwner | BadWeight | EmptyPrimary
  | PortNotAssigned | NoDaemonError | BadInstallState string

definition get_panel_server :: "panel_db \<Rightarrow> string \<Rightarrow> panel_server option" where
  "get_panel_server db i = find (\<lambda>s. sw_id s = i) (pb_servers db)"

definition get_port :: "panel_db \<Rightarrow> string \<Rightarrow> port_row option" where
  "get_port db a = find (\<lambda>p. pt_id p = a) (pb_ports db)"

definition get_egg :: "panel_db \<Rightarrow> string \<Rightarrow> egg_row option" where
  "get_egg db e = find (\<lambda>x. eg_id x = e) (pb_eggs db)"

definition map_server :: "string \<Rightarrow> (panel_server \<Rightarrow> panel_server) \<Rightarrow> panel_db \<Rightarrow> panel_db" where
  "map_server i f db = db\<lparr>pb_servers := map (\<lambda>s. if sw_id s = i then f s else s) (pb_servers db)\<rparr>"

section \<open>Creation\<close>

record server_request =
  sq_name :: string
  sq_node :: string
  sq_owner :: string
  sq_egg :: string
  sq_port :: string
  sq_more_ports :: "string list"
  sq_memory :: int
  sq_cpu :: int
  sq_cpu_limit :: int
  sq_disk :: int
  sq_db_limit :: int
  sq_backup_limit :: int
  sq_port_limit :: int
  sq_io_weight :: int
  sq_swap :: int
  sq_threads :: string
  sq_oom :: bool
  sq_image :: string
  sq_startup :: string
  sq_vars :: "(string \<times> string) list"

definition default_memory :: "panel_db \<Rightarrow> string \<Rightarrow> int" where
  "default_memory db e = (case get_egg db e of None \<Rightarrow> 0 | Some x \<Rightarrow> eg_memory x)"

definition default_image :: "panel_db \<Rightarrow> string \<Rightarrow> string" where
  "default_image db e =
     (case get_egg db e of None \<Rightarrow> [] | Some x \<Rightarrow> (case eg_images x of [] \<Rightarrow> [] | (_, v) # _ \<Rightarrow> v))"

definition request_memory :: "panel_db \<Rightarrow> server_request \<Rightarrow> int" where
  "request_memory db r = (if sq_memory r \<le> 0 then default_memory db (sq_egg r) else sq_memory r)"

definition limits_valid :: "panel_db \<Rightarrow> server_request \<Rightarrow> bool" where
  "limits_valid db r \<longleftrightarrow> 0 < request_memory db r \<and> 0 < sq_cpu r \<and> 0 \<le> sq_cpu_limit r \<and> 0 < sq_disk r \<and>
     0 \<le> sq_db_limit r \<and> 0 \<le> sq_backup_limit r \<and> 0 \<le> sq_port_limit r \<and> 10 \<le> sq_io_weight r \<and> sq_io_weight r \<le> 1000 \<and>
     0 \<le> sq_swap r"

text \<open>The allocations of the request in order, without repetitions: each is free and on the node.\<close>

fun claim_check :: "panel_db \<Rightarrow> string \<Rightarrow> string list \<Rightarrow> string list \<Rightarrow> server_error + string list" where
  "claim_check db n [] seen = Inr seen"
| "claim_check db n (a # as) seen =
     (if a = [] \<or> a \<in> set seen then claim_check db n as seen
      else (case get_port db a of
        None \<Rightarrow> Inl NoPort
      | Some p \<Rightarrow>
          if pt_server p \<noteq> None then Inl PortTaken
          else if pt_node p \<noteq> n then Inl PortElsewhere
          else claim_check db n as (seen @ [a])))"

definition claim_ports :: "string \<Rightarrow> string list \<Rightarrow> port_row list \<Rightarrow> port_row list" where
  "claim_ports i as ps = map (\<lambda>p. if pt_id p \<in> set as then p\<lparr>pt_server := Some i\<rparr> else p) ps"

definition set_variable :: "string \<Rightarrow> string \<Rightarrow> string \<Rightarrow> (string \<times> string \<times> string) list \<Rightarrow> (string \<times> string \<times> string) list" where
  "set_variable i k v vs = filter (\<lambda>x. \<not> (fst x = i \<and> fst (snd x) = k)) vs @ [(i, k, v)]"

fun set_variables ::
  "(string \<Rightarrow> (string \<Rightarrow> bool) option) \<Rightarrow> (string \<times> string) list \<Rightarrow> string \<Rightarrow> (string \<times> string) list
     \<Rightarrow> (string \<times> string \<times> string) list \<Rightarrow> server_error + (string \<times> string \<times> string) list" where
  "set_variables rx defs i [] vs = Inr vs"
| "set_variables rx defs i ((k, v) # xs) vs =
     (case map_of defs k of
        None \<Rightarrow> Inl (NoVariable k)
      | Some rules \<Rightarrow>
          if \<not> validate_variable_value rx v rules then Inl (BadVariable k)
          else set_variables rx defs i xs (set_variable i k v vs))"

definition new_server :: "panel_db \<Rightarrow> string \<Rightarrow> server_request \<Rightarrow> panel_server" where
  "new_server db i r =
     \<lparr>sw_id = i, sw_node = sq_node r, sw_owner = sq_owner r, sw_egg = sq_egg r, sw_name = trim_space (sq_name r), sw_description = [],
      sw_status = ''provisioning'', sw_desired = ''stopped'', sw_actual = ''stopped'', sw_memory = request_memory db r, sw_cpu = sq_cpu r,
      sw_cpu_limit = sq_cpu_limit r, sw_disk = sq_disk r, sw_db_limit = sq_db_limit r, sw_backup_limit = sq_backup_limit r,
      sw_port_limit = sq_port_limit r, sw_io_weight = sq_io_weight r, sw_swap = sq_swap r, sw_threads = trim_space (sq_threads r),
      sw_oom = sq_oom r, sw_image = trim_space (sq_image r), sw_startup = trim_space (sq_startup r), sw_primary = Some (sq_port r),
      sw_installed = False, sw_install_error = None, sw_sync_pending = False, sw_sync_error = None, sw_suspended = False\<rparr>"

text \<open>The checks before the insert; the result is the list of allocations to assign.\<close>

definition create_server_checks :: "panel_db \<Rightarrow> server_request \<Rightarrow> server_error + string list" where
  "create_server_checks db r =
     (if \<not> limits_valid db r then Inl BadLimits
      else if sq_owner r \<notin> set (pb_users db) then Inl NoOwner
      else if default_memory db (sq_egg r) \<le> 0 then Inl NoEgg
      else if trim_space (sq_image r) = [] \<and> default_image db (sq_egg r) = [] then Inl NoImage
      else if sq_node r \<notin> fst ` set (pb_nodes db) then Inl NoNodeRow
      else (case claim_check db (sq_node r) (sq_port r # sq_more_ports r) [] of
        Inl e \<Rightarrow> Inl e
      | Inr seen \<Rightarrow>
          if sq_port r = [] then Inl NoPrimary
          else if 0 < sq_port_limit r \<and> sq_port_limit r < int (length seen) then Inl TooManyPorts
          else Inr seen))"

text \<open>\<open>ok\<close> covers the statements up to the commit, \<open>read\<close> the row read back after it.\<close>

definition create_panel_server ::
  "(string \<Rightarrow> (string \<Rightarrow> bool) option) \<Rightarrow> bool \<Rightarrow> bool \<Rightarrow> string \<Rightarrow> server_request \<Rightarrow> panel_db \<Rightarrow> (server_error + panel_server) \<times> panel_db" where
  "create_panel_server rx ok read i r db =
     (case create_server_checks db r of
        Inl e \<Rightarrow> (Inl e, db)
      | Inr ports \<Rightarrow>
          if \<not> ok \<or> get_panel_server db i \<noteq> None \<or> (\<exists>s \<in> set (pb_servers db). sw_primary s = Some (sq_port r)) then (Inl SrvDb, db)
          else (case set_variables rx (case get_egg db (sq_egg r) of None \<Rightarrow> [] | Some e \<Rightarrow> eg_vars e) i (sq_vars r) (pb_vars db) of
            Inl e \<Rightarrow> (Inl e, db)
          | Inr vs \<Rightarrow>
              let db1 = db\<lparr>pb_servers := pb_servers db @ [new_server db i r], pb_ports := claim_ports i ports (pb_ports db), pb_vars := vs\<rparr> in
              (if read then Inr (new_server db i r) else Inl SrvDb, db1)))"

section \<open>Deletion\<close>

definition free_port :: "string \<Rightarrow> port_row \<Rightarrow> port_row" where
  "free_port i p = (if pt_server p = Some i then p\<lparr>pt_server := None\<rparr> else p)"

definition remove_server :: "string \<Rightarrow> panel_db \<Rightarrow> panel_db" where
  "remove_server i db =
     db\<lparr>pb_servers := filter (\<lambda>s. sw_id s \<noteq> i) (pb_servers db), pb_ports := map (free_port i) (pb_ports db),
        pb_vars := filter (\<lambda>x. fst x \<noteq> i) (pb_vars db)\<rparr>"

definition hard_delete :: "bool \<Rightarrow> string \<Rightarrow> string \<Rightarrow> string \<Rightarrow> panel_db \<Rightarrow> (server_error + unit) \<times> panel_db" where
  "hard_delete ok i url daemon_error db =
     (if \<not> ok then (Inl SrvDb, db)
      else if get_panel_server db i = None then (Inl NoServer, db)
      else (Inr (), remove_server i
              (if daemon_error \<noteq> [] then db\<lparr>pb_orphans := pb_orphans db @ [(i, url, daemon_error)]\<rparr> else db)))"

definition hard_delete_server :: "bool \<Rightarrow> string \<Rightarrow> panel_db \<Rightarrow> (server_error + unit) \<times> panel_db" where
  "hard_delete_server ok i db = hard_delete ok i [] [] db"

definition record_orphan_and_delete :: "bool \<Rightarrow> string \<Rightarrow> string \<Rightarrow> string \<Rightarrow> panel_db \<Rightarrow> (server_error + unit) \<times> panel_db" where
  "record_orphan_and_delete ok i url daemon_error db =
     (if daemon_error = [] then (Inl NoDaemonError, db) else hard_delete ok i url daemon_error db)"

section \<open>Updates\<close>

record server_patch =
  sp_name :: "string option"
  sp_description :: "string option"
  sp_owner :: "string option"
  sp_memory :: "int option"
  sp_cpu :: "int option"
  sp_cpu_limit :: "int option"
  sp_disk :: "int option"
  sp_db_limit :: "int option"
  sp_backup_limit :: "int option"
  sp_port_limit :: "int option"
  sp_io_weight :: "int option"
  sp_swap :: "int option"
  sp_threads :: "string option"
  sp_oom :: "bool option"
  sp_image :: "string option"
  sp_startup :: "string option"
  sp_primary :: "string option"

definition invalid_optional_int :: "int option \<Rightarrow> int \<Rightarrow> bool \<Rightarrow> bool" where
  "invalid_optional_int v low strict = (case v of None \<Rightarrow> False | Some x \<Rightarrow> if strict then x < low else x < 0)"

definition trim_optional :: "string option \<Rightarrow> string option" where
  "trim_optional v = map_option trim_space v"

definition or_else :: "'a option \<Rightarrow> 'a \<Rightarrow> 'a" where
  "or_else v old = (case v of None \<Rightarrow> old | Some x \<Rightarrow> x)"

definition runtime_changed :: "server_patch \<Rightarrow> bool" where
  "runtime_changed p \<longleftrightarrow> sp_name p \<noteq> None \<or> sp_memory p \<noteq> None \<or> sp_cpu p \<noteq> None \<or> sp_cpu_limit p \<noteq> None \<or> sp_disk p \<noteq> None \<or>
     sp_io_weight p \<noteq> None \<or> sp_swap p \<noteq> None \<or> sp_threads p \<noteq> None \<or> sp_oom p \<noteq> None \<or> sp_image p \<noteq> None \<or> sp_startup p \<noteq> None \<or>
     sp_primary p \<noteq> None"

definition patched_server :: "server_patch \<Rightarrow> panel_server \<Rightarrow> panel_server" where
  "patched_server p s = s\<lparr>
     sw_name := or_else (trim_optional (sp_name p)) (sw_name s), sw_description := or_else (trim_optional (sp_description p)) (sw_description s),
     sw_owner := or_else (sp_owner p) (sw_owner s), sw_memory := or_else (sp_memory p) (sw_memory s), sw_cpu := or_else (sp_cpu p) (sw_cpu s),
     sw_cpu_limit := or_else (sp_cpu_limit p) (sw_cpu_limit s), sw_disk := or_else (sp_disk p) (sw_disk s),
     sw_db_limit := or_else (sp_db_limit p) (sw_db_limit s), sw_backup_limit := or_else (sp_backup_limit p) (sw_backup_limit s),
     sw_port_limit := or_else (sp_port_limit p) (sw_port_limit s), sw_io_weight := or_else (sp_io_weight p) (sw_io_weight s),
     sw_swap := or_else (sp_swap p) (sw_swap s), sw_threads := or_else (trim_optional (sp_threads p)) (sw_threads s),
     sw_oom := or_else (sp_oom p) (sw_oom s), sw_image := or_else (trim_optional (sp_image p)) (sw_image s),
     sw_startup := or_else (trim_optional (sp_startup p)) (sw_startup s),
     sw_primary := (case sp_primary p of None \<Rightarrow> sw_primary s | Some a \<Rightarrow> Some a),
     sw_sync_pending := (if runtime_changed p then True else sw_sync_pending s),
     sw_sync_error := (if runtime_changed p then None else sw_sync_error s)\<rparr>"

definition patch_limits_invalid :: "server_patch \<Rightarrow> bool" where
  "patch_limits_invalid p \<longleftrightarrow> invalid_optional_int (sp_memory p) 0 False \<or> invalid_optional_int (sp_cpu p) 0 False \<or>
     invalid_optional_int (sp_cpu_limit p) 0 False \<or> invalid_optional_int (sp_disk p) 0 False \<or> invalid_optional_int (sp_db_limit p) 0 False \<or>
     invalid_optional_int (sp_backup_limit p) 0 False \<or> invalid_optional_int (sp_port_limit p) 0 False \<or>
     invalid_optional_int (sp_io_weight p) 10 True \<or> invalid_optional_int (sp_swap p) 0 False"

definition given :: "('a \<Rightarrow> bool) \<Rightarrow> 'a option \<Rightarrow> bool" where
  "given P v = (case v of None \<Rightarrow> False | Some x \<Rightarrow> P x)"

lemma given_iff: "given P v \<longleftrightarrow> (\<exists>x. v = Some x \<and> P x)"
  by (cases v) (auto simp: given_def)

definition update_server_checks :: "string \<Rightarrow> server_patch \<Rightarrow> panel_db \<Rightarrow> server_error + panel_server" where
  "update_server_checks i p db =
     (if given (\<lambda>n. trim_space n = []) (sp_name p) then Inl EmptyName
      else if given (\<lambda>n. trim_space n = []) (sp_owner p) then Inl EmptyOwner
      else if patch_limits_invalid p then Inl BadLimits
      else if given (\<lambda>w. 1000 < w) (sp_io_weight p) then Inl BadWeight
      else (case get_panel_server db i of
        None \<Rightarrow> Inl NoServer
      | Some s \<Rightarrow>
          if given (\<lambda>u. u \<notin> set (pb_users db)) (sp_owner p) then Inl NoOwner
          else if given (\<lambda>a. trim_space a = []) (sp_primary p) then Inl EmptyPrimary
          else if given (\<lambda>a. \<not> (\<exists>x \<in> set (pb_ports db). pt_id x = a \<and> pt_server x = Some i)) (sp_primary p) then Inl PortNotAssigned
          else Inr s))"

definition update_panel_server :: "bool \<Rightarrow> bool \<Rightarrow> string \<Rightarrow> server_patch \<Rightarrow> panel_db \<Rightarrow> (server_error + panel_server) \<times> panel_db" where
  "update_panel_server ok read i p db =
     (case update_server_checks i p db of
        Inl e \<Rightarrow> (Inl e, db)
      | Inr s \<Rightarrow>
          if \<not> ok \<or> (\<exists>x \<in> set (pb_servers db). sw_id x \<noteq> i \<and> sp_primary p \<noteq> None \<and> sw_primary x = sp_primary p) then (Inl SrvDb, db)
          else (if read then Inr (patched_server p s) else Inl SrvDb, map_server i (patched_server p) db))"

section \<open>States\<close>

text \<open>An update of one row that answers whether there was one. \<open>ok\<close> is the statement, \<open>logged\<close> the one after it.\<close>

definition touch_server :: "bool \<Rightarrow> bool \<Rightarrow> string \<Rightarrow> (panel_server \<Rightarrow> panel_server) \<Rightarrow> panel_db \<Rightarrow> (server_error + unit) \<times> panel_db" where
  "touch_server ok logged i f db =
     (if \<not> ok then (Inl SrvDb, db)
      else if get_panel_server db i = None then (Inl NoServer, db)
      else (if logged then Inr () else Inl SrvDb, map_server i f db))"

definition set_server_suspension :: "bool \<Rightarrow> string \<Rightarrow> bool \<Rightarrow> panel_db \<Rightarrow> (server_error + unit) \<times> panel_db" where
  "set_server_suspension ok i b db = touch_server ok True i (\<lambda>s. s\<lparr>sw_suspended := b\<rparr>) db"

definition set_server_suspended :: "bool \<Rightarrow> bool \<Rightarrow> string \<Rightarrow> bool \<Rightarrow> panel_db \<Rightarrow> (server_error + unit) \<times> panel_db" where
  "set_server_suspended ok logged i b db = touch_server ok logged i (\<lambda>s. s\<lparr>sw_suspended := b\<rparr>) db"

definition set_server_status :: "bool \<Rightarrow> bool \<Rightarrow> string \<Rightarrow> string \<Rightarrow> panel_db \<Rightarrow> (server_error + unit) \<times> panel_db" where
  "set_server_status ok logged i st db = touch_server ok logged i (\<lambda>s. s\<lparr>sw_status := st\<rparr>) db"

definition set_server_power_state :: "bool \<Rightarrow> bool \<Rightarrow> string \<Rightarrow> string \<Rightarrow> panel_db \<Rightarrow> (server_error + unit) \<times> panel_db" where
  "set_server_power_state ok logged i signal db =
     touch_server ok logged i (\<lambda>s. s\<lparr>sw_status := if signal = ''start'' \<or> signal = ''restart'' then ''running'' else ''stopped''\<rparr>) db"

definition toggle_install_status :: "bool \<Rightarrow> bool \<Rightarrow> string \<Rightarrow> panel_db \<Rightarrow> (server_error + string) \<times> panel_db" where
  "toggle_install_status ok logged i db =
     (case get_panel_server db i of
        None \<Rightarrow> (Inl NoServer, db)
      | Some s \<Rightarrow>
          let next = if sw_status s = ''installing'' then ''stopped'' else ''installing'' in
          (case set_server_status ok logged i next db of
             (Inl e, db1) \<Rightarrow> (Inl e, db1)
           | (Inr _, db1) \<Rightarrow> (Inr next, db1)))"

definition set_server_provisioned :: "bool \<Rightarrow> bool \<Rightarrow> string \<Rightarrow> panel_db \<Rightarrow> (server_error + unit) \<times> panel_db" where
  "set_server_provisioned ok logged i db =
     touch_server ok logged i (\<lambda>s. s\<lparr>sw_status := ''created'', sw_actual := ''stopped'', sw_installed := False, sw_install_error := None\<rparr>) db"

definition set_server_install_state :: "bool \<Rightarrow> bool \<Rightarrow> string \<Rightarrow> string \<Rightarrow> string \<Rightarrow> panel_db \<Rightarrow> (server_error + unit) \<times> panel_db" where
  "set_server_install_state ok logged i st err db =
     (if st = ''installing'' then touch_server ok logged i (\<lambda>s. s\<lparr>sw_status := ''installing'', sw_installed := False, sw_install_error := None\<rparr>) db
      else if st = ''installed'' then touch_server ok logged i (\<lambda>s. s\<lparr>sw_status := ''stopped'', sw_installed := True, sw_install_error := None\<rparr>) db
      else if st = ''failed'' then touch_server ok logged i (\<lambda>s. s\<lparr>sw_status := ''install_failed'', sw_installed := False, sw_install_error := Some err\<rparr>) db
      else (Inl (BadInstallState st), db))"

definition mark_config_synced :: "bool \<Rightarrow> string \<Rightarrow> panel_db \<Rightarrow> (server_error + unit) \<times> panel_db" where
  "mark_config_synced ok i db = touch_server ok True i (\<lambda>s. s\<lparr>sw_sync_pending := False, sw_sync_error := None\<rparr>) db"

definition mark_config_sync_failed :: "bool \<Rightarrow> string \<Rightarrow> string \<Rightarrow> panel_db \<Rightarrow> (server_error + unit) \<times> panel_db" where
  "mark_config_sync_failed ok i msg db = touch_server ok True i (\<lambda>s. s\<lparr>sw_sync_pending := True, sw_sync_error := Some msg\<rparr>) db"

definition reset_node_server_states :: "bool \<Rightarrow> string \<Rightarrow> panel_db \<Rightarrow> panel_db" where
  "reset_node_server_states ok n db =
     (if ok then db\<lparr>pb_servers := map (\<lambda>s. if sw_node s = n \<and> sw_status s \<in> {''installing'', ''restoring_backup''}
        then s\<lparr>sw_status := ''stopped'', sw_installed := (sw_status s = ''installing'' \<or> sw_installed s)\<rparr> else s) (pb_servers db)\<rparr>
      else db)"

definition server_belongs :: "panel_db \<Rightarrow> string \<Rightarrow> string \<Rightarrow> bool" where
  "server_belongs db i n = (\<exists>s \<in> set (pb_servers db). sw_id s = i \<and> sw_node s = n)"

definition server_desired_value :: "string \<Rightarrow> bool" where
  "server_desired_value d \<longleftrightarrow> d \<in> {''running'', ''stopped''}"

definition server_actual_value :: "string \<Rightarrow> bool" where
  "server_actual_value a \<longleftrightarrow> a \<in> {''running'', ''stopped'', ''starting'', ''stopping'', ''installing'', ''crashed'', ''unknown''}"

definition server_status_from_actual :: "string \<Rightarrow> string" where
  "server_status_from_actual a =
     (if a = ''running'' then ''running'' else if a = ''installing'' then ''installing'' else if a = ''crashed'' then ''install_failed''
      else if a = ''unknown'' then ''unknown'' else ''stopped'')"

definition record_server_move :: "string \<Rightarrow> string \<Rightarrow> string \<Rightarrow> string \<Rightarrow> string \<Rightarrow> panel_db \<Rightarrow> panel_db" where
  "record_server_move i kind a b reason db =
     db\<lparr>pb_moves := pb_moves db @ [(i, kind, a, b, if reason = [] then ''state updated'' else reason)]\<rparr>"

definition set_server_desired_state :: "bool \<Rightarrow> bool \<Rightarrow> string \<Rightarrow> string \<Rightarrow> string \<Rightarrow> panel_db \<Rightarrow> (server_error + unit) \<times> panel_db" where
  "set_server_desired_state ok logged i d reason db =
     (case get_panel_server db i of
        None \<Rightarrow> (Inl NoServer, db)
      | Some s \<Rightarrow>
          if \<not> ok \<or> \<not> server_desired_value d then (Inl SrvDb, db)
          else let db1 = map_server i (\<lambda>s. s\<lparr>sw_desired := d\<rparr>) db in
               if sw_desired s = d then (Inr (), db1)
               else if logged then (Inr (), record_server_move i ''desired'' (sw_desired s) d reason db1) else (Inl SrvDb, db1))"

definition set_server_actual_state :: "bool \<Rightarrow> bool \<Rightarrow> string \<Rightarrow> string \<Rightarrow> string \<Rightarrow> panel_db \<Rightarrow> (server_error + unit) \<times> panel_db" where
  "set_server_actual_state ok logged i a reason db =
     (case get_panel_server db i of
        None \<Rightarrow> (Inl NoServer, db)
      | Some s \<Rightarrow>
          if \<not> ok \<or> \<not> server_actual_value a then (Inl SrvDb, db)
          else let db1 = map_server i (\<lambda>s. s\<lparr>sw_actual := a, sw_status := server_status_from_actual a\<rparr>) db in
               if sw_actual s = a then (Inr (), db1)
               else if logged then (Inr (), record_server_move i ''actual'' (sw_actual s) a reason db1) else (Inl SrvDb, db1))"

text \<open>The handler of a status report from a node: errors of the two updates are dropped.\<close>

definition status_report :: "bool \<Rightarrow> bool \<Rightarrow> bool \<Rightarrow> bool \<Rightarrow> string \<Rightarrow> string \<Rightarrow> string \<Rightarrow> string \<Rightarrow> panel_db \<Rightarrow> bool \<times> panel_db" where
  "status_report ok1 logged1 ok2 logged2 n i actual status db =
     (if \<not> server_belongs db i n then (False, db)
      else let db1 = if actual \<noteq> [] then snd (set_server_actual_state ok1 logged1 i actual status db) else db in
           (True, if status \<noteq> [] then snd (set_server_status ok2 logged2 i status db1) else db1))"

text \<open>The first free allocation of a node that no migration holds.\<close>

definition find_available_port :: "bool \<Rightarrow> string \<Rightarrow> panel_db \<Rightarrow> port_row option" where
  "find_available_port ok n db =
     (if ok then (case slice_stable (\<lambda>a b. pt_port a < pt_port b)
        (filter (\<lambda>p. pt_node p = n \<and> pt_server p = None \<and> \<not> pt_held p) (pb_ports db)) of [] \<Rightarrow> None | p # _ \<Rightarrow> Some p) else None)"

section \<open>The tables stay consistent\<close>

definition server_row_ok :: "panel_db \<Rightarrow> panel_server \<Rightarrow> bool" where
  "server_row_ok db s \<longleftrightarrow> server_desired_value (sw_desired s) \<and> server_actual_value (sw_actual s) \<and>
     10 \<le> sw_io_weight s \<and> sw_io_weight s \<le> 1000 \<and> 0 \<le> sw_memory s \<and> 0 \<le> sw_cpu s \<and> 0 \<le> sw_disk s \<and>
     sw_node s \<in> fst ` set (pb_nodes db) \<and> sw_owner s \<in> set (pb_users db)"

definition panel_ok :: "panel_db \<Rightarrow> bool" where
  "panel_ok db \<longleftrightarrow> distinct (map sw_id (pb_servers db)) \<and> distinct (map pt_id (pb_ports db)) \<and>
     (\<forall>s \<in> set (pb_servers db). server_row_ok db s) \<and>
     (\<forall>p \<in> set (pb_ports db). \<forall>i. pt_server p = Some i \<longrightarrow> (\<exists>s \<in> set (pb_servers db). sw_id s = i \<and> sw_node s = pt_node p)) \<and>
     (\<forall>s \<in> set (pb_servers db). \<forall>a. sw_primary s = Some a \<longrightarrow> (\<exists>p \<in> set (pb_ports db). pt_id p = a \<and> pt_server p = Some (sw_id s))) \<and>
     (\<forall>x \<in> set (pb_vars db). \<exists>s \<in> set (pb_servers db). sw_id s = fst x)"

lemma panel_okI:
  assumes "distinct (map sw_id (pb_servers db))" "distinct (map pt_id (pb_ports db))"
    "\<And>s. s \<in> set (pb_servers db) \<Longrightarrow> server_row_ok db s"
    "\<And>p i. p \<in> set (pb_ports db) \<Longrightarrow> pt_server p = Some i \<Longrightarrow> \<exists>s \<in> set (pb_servers db). sw_id s = i \<and> sw_node s = pt_node p"
    "\<And>s a. s \<in> set (pb_servers db) \<Longrightarrow> sw_primary s = Some a \<Longrightarrow> \<exists>p \<in> set (pb_ports db). pt_id p = a \<and> pt_server p = Some (sw_id s)"
    "\<And>x. x \<in> set (pb_vars db) \<Longrightarrow> \<exists>s \<in> set (pb_servers db). sw_id s = fst x"
  shows "panel_ok db"
  unfolding panel_ok_def using assms by blast

lemma panel_okD:
  assumes "panel_ok db"
  shows "distinct (map sw_id (pb_servers db))" "distinct (map pt_id (pb_ports db))"
    "s \<in> set (pb_servers db) \<Longrightarrow> server_row_ok db s"
    "p \<in> set (pb_ports db) \<Longrightarrow> pt_server p = Some i \<Longrightarrow> \<exists>s \<in> set (pb_servers db). sw_id s = i \<and> sw_node s = pt_node p"
    "s \<in> set (pb_servers db) \<Longrightarrow> sw_primary s = Some a \<Longrightarrow> \<exists>p \<in> set (pb_ports db). pt_id p = a \<and> pt_server p = Some (sw_id s)"
    "x \<in> set (pb_vars db) \<Longrightarrow> \<exists>s \<in> set (pb_servers db). sw_id s = fst x"
  using assms unfolding panel_ok_def by blast+

lemma panel_ok_map:
  assumes ok: "panel_ok db" and same: "\<And>s. s \<in> set (pb_servers db) \<Longrightarrow> sw_id (f s) = sw_id s \<and> sw_node (f s) = sw_node s"
    and row: "\<And>s. s \<in> set (pb_servers db) \<Longrightarrow> server_row_ok db (f s)"
    and prim: "\<And>s a. s \<in> set (pb_servers db) \<Longrightarrow> sw_primary (f s) = Some a \<Longrightarrow>
           sw_primary s = Some a \<or> (\<exists>p \<in> set (pb_ports db). pt_id p = a \<and> pt_server p = Some (sw_id s))"
  shows "panel_ok (db\<lparr>pb_servers := map f (pb_servers db)\<rparr>)"
proof (rule panel_okI)
  have "map sw_id (pb_servers (db\<lparr>pb_servers := map f (pb_servers db)\<rparr>)) = map sw_id (pb_servers db)" using same by simp
  then show "distinct (map sw_id (pb_servers (db\<lparr>pb_servers := map f (pb_servers db)\<rparr>)))" using panel_okD(1) [OF ok] by metis
  show "distinct (map pt_id (pb_ports (db\<lparr>pb_servers := map f (pb_servers db)\<rparr>)))" using panel_okD(2) [OF ok] by simp
  show "server_row_ok (db\<lparr>pb_servers := map f (pb_servers db)\<rparr>) s" if "s \<in> set (pb_servers (db\<lparr>pb_servers := map f (pb_servers db)\<rparr>))" for s
    using that row by (auto simp: server_row_ok_def)
  show "\<exists>s \<in> set (pb_servers (db\<lparr>pb_servers := map f (pb_servers db)\<rparr>)). sw_id s = i \<and> sw_node s = pt_node p"
    if "p \<in> set (pb_ports (db\<lparr>pb_servers := map f (pb_servers db)\<rparr>))" "pt_server p = Some i" for p i
    using that same panel_okD(4) [OF ok, of p i] by fastforce
  show "\<exists>p \<in> set (pb_ports (db\<lparr>pb_servers := map f (pb_servers db)\<rparr>)). pt_id p = a \<and> pt_server p = Some (sw_id s)"
    if "s \<in> set (pb_servers (db\<lparr>pb_servers := map f (pb_servers db)\<rparr>))" "sw_primary s = Some a" for s a
    using that same prim panel_okD(5) [OF ok] by fastforce
  show "\<exists>s \<in> set (pb_servers (db\<lparr>pb_servers := map f (pb_servers db)\<rparr>)). sw_id s = fst x"
    if "x \<in> set (pb_vars (db\<lparr>pb_servers := map f (pb_servers db)\<rparr>))" for x
    using that same panel_okD(6) [OF ok] by fastforce
qed

text \<open>Changes of the states of a row.\<close>

definition mild :: "(panel_server \<Rightarrow> panel_server) \<Rightarrow> bool" where
  "mild f \<longleftrightarrow> (\<forall>s db. sw_id (f s) = sw_id s \<and> sw_node (f s) = sw_node s \<and> sw_primary (f s) = sw_primary s \<and>
     (server_row_ok db s \<longrightarrow> server_row_ok db (f s)))"

lemma panel_ok_map_server:
  assumes "panel_ok db" "mild f"
  shows "panel_ok (map_server i f db)"
  unfolding map_server_def by (rule panel_ok_map [OF assms(1)]) (use assms panel_okD(3) in \<open>auto simp: mild_def split: if_splits\<close>)

lemma panel_ok_touch: "panel_ok db \<Longrightarrow> mild f \<Longrightarrow> panel_ok (snd (touch_server ok logged i f db))"
  by (simp add: touch_server_def panel_ok_map_server)

lemma panel_ok_moves [simp]: "panel_ok (db\<lparr>pb_moves := x\<rparr>) = panel_ok db" "panel_ok (db\<lparr>pb_orphans := y\<rparr>) = panel_ok db"
  by (simp_all add: panel_ok_def server_row_ok_def)

lemma panel_ok_desired: "panel_ok db \<Longrightarrow> panel_ok (snd (set_server_desired_state ok logged i d reason db))"
  unfolding set_server_desired_state_def record_server_move_def Let_def
  by (auto split: option.splits intro!: panel_ok_map_server simp: mild_def server_row_ok_def)

lemma panel_ok_actual: "panel_ok db \<Longrightarrow> panel_ok (snd (set_server_actual_state ok logged i d reason db))"
  unfolding set_server_actual_state_def record_server_move_def Let_def
  by (auto split: option.splits intro!: panel_ok_map_server simp: mild_def server_row_ok_def)

subsection \<open>Creation and deletion\<close>

lemma get_panel_server_None: "get_panel_server db i = None \<longleftrightarrow> (\<forall>s \<in> set (pb_servers db). sw_id s \<noteq> i)"
  by (auto simp: get_panel_server_def find_None_iff)

lemma get_panel_server_Some: "get_panel_server db i = Some s \<Longrightarrow> s \<in> set (pb_servers db) \<and> sw_id s = i"
  by (auto simp: get_panel_server_def find_Some_iff)

lemma claim_check_free:
  "claim_check db n as seen = Inr out \<Longrightarrow>
     set out = set seen \<union> {a \<in> set as. a \<noteq> []} \<and>
     (\<forall>a \<in> set out - set seen. \<exists>p. get_port db a = Some p \<and> pt_server p = None \<and> pt_node p = n)"
proof (induction as arbitrary: seen)
  case (Cons a as)
  show ?case
  proof (cases "a = [] \<or> a \<in> set seen")
    case True
    then show ?thesis using Cons by auto
  next
    case False
    then obtain p where p: "get_port db a = Some p" "pt_server p = None" "pt_node p = n" "claim_check db n as (seen @ [a]) = Inr out"
      using Cons.prems by (auto split: option.splits if_splits)
    then show ?thesis using Cons.IH [OF p(4)] False by auto
  qed
qed simp

lemma set_variables_rows:
  "set_variables rx defs i xs vs = Inr out \<Longrightarrow>
     (\<forall>x \<in> set out. x \<in> set vs \<or> fst x = i) \<and> filter (\<lambda>x. fst x \<noteq> i) out = filter (\<lambda>x. fst x \<noteq> i) vs"
proof (induction xs arbitrary: vs)
  case (Cons x xs)
  obtain k v where x: "x = (k, v)" by fastforce
  have "set_variables rx defs i xs (set_variable i k v vs) = Inr out"
    using Cons.prems by (auto simp: x split: option.splits if_splits)
  moreover have "filter (\<lambda>x. fst x \<noteq> i) (set_variable i k v vs) = filter (\<lambda>x. fst x \<noteq> i) vs"
    by (auto simp: set_variable_def intro: filter_cong)
  moreover have "\<forall>y \<in> set (set_variable i k v vs). y \<in> set vs \<or> fst y = i" by (auto simp: set_variable_def)
  ultimately show ?case using Cons.IH by metis
qed simp

text \<open>What a creation that reaches its commit has checked and done.\<close>

lemma create_panel_cases:
  assumes "create_panel_server rx ok read i r db = (res, db')" "db' \<noteq> db \<or> (\<exists>s. res = Inr s)"
  obtains ports vs where "create_server_checks db r = Inr ports" "get_panel_server db i = None"
    "db' = db\<lparr>pb_servers := pb_servers db @ [new_server db i r], pb_ports := claim_ports i ports (pb_ports db), pb_vars := vs\<rparr>"
    "\<forall>x \<in> set vs. x \<in> set (pb_vars db) \<or> fst x = i" "filter (\<lambda>x. fst x \<noteq> i) vs = filter (\<lambda>x. fst x \<noteq> i) (pb_vars db)"
proof -
  obtain ports where c: "create_server_checks db r = Inr ports"
    using assms by (cases "create_server_checks db r") (auto simp: create_panel_server_def)
  have g: "get_panel_server db i = None" "ok" "\<not> (\<exists>s \<in> set (pb_servers db). sw_primary s = Some (sq_port r))"
    using assms by (auto simp: create_panel_server_def c split: if_splits)
  obtain vs where v: "set_variables rx (case get_egg db (sq_egg r) of None \<Rightarrow> [] | Some e \<Rightarrow> eg_vars e) i (sq_vars r) (pb_vars db) = Inr vs"
    using assms g by (cases "set_variables rx (case get_egg db (sq_egg r) of None \<Rightarrow> [] | Some e \<Rightarrow> eg_vars e) i (sq_vars r) (pb_vars db)")
      (auto simp: create_panel_server_def c)
  have "db' = db\<lparr>pb_servers := pb_servers db @ [new_server db i r], pb_ports := claim_ports i ports (pb_ports db), pb_vars := vs\<rparr>"
    using assms(1) g by (auto simp: create_panel_server_def c v Let_def)
  then show ?thesis using that [OF c g(1)] set_variables_rows [OF v] by blast
qed

lemma create_checks_facts:
  assumes "create_server_checks db r = Inr ports"
  shows "limits_valid db r" "sq_owner r \<in> set (pb_users db)" "sq_node r \<in> fst ` set (pb_nodes db)" "sq_port r \<in> set ports"
    "\<And>a. a \<in> set ports \<Longrightarrow> \<exists>p. get_port db a = Some p \<and> pt_server p = None \<and> pt_node p = sq_node r"
proof -
  have c: "claim_check db (sq_node r) (sq_port r # sq_more_ports r) [] = Inr ports" "sq_port r \<noteq> []"
    using assms by (auto simp: create_server_checks_def split: if_splits sum.splits simp del: claim_check.simps)
  show "sq_port r \<in> set ports" "\<And>a. a \<in> set ports \<Longrightarrow> \<exists>p. get_port db a = Some p \<and> pt_server p = None \<and> pt_node p = sq_node r"
    using claim_check_free [OF c(1)] c(2) by auto
qed (use assms in \<open>auto simp: create_server_checks_def split: if_splits\<close>)

lemma get_port_in: "get_port db a = Some p \<Longrightarrow> p \<in> set (pb_ports db) \<and> pt_id p = a"
  by (auto simp: get_port_def find_Some_iff)

text \<open>With distinct keys, the rows of claimed allocations were free and on the node.\<close>

lemma claimed_rows:
  assumes "panel_ok db" "create_server_checks db r = Inr ports" "p \<in> set (pb_ports db)" "pt_id p \<in> set ports"
  shows "pt_server p = None" "pt_node p = sq_node r"
proof -
  obtain q where q: "get_port db (pt_id p) = Some q" "pt_server q = None" "pt_node q = sq_node r"
    using create_checks_facts(5) [OF assms(2,4)] by blast
  then have "q = p" using get_port_in [OF q(1)] assms(3) panel_okD(2) [OF assms(1)] by (metis eq_key_imp_eq_value distinct_map inj_onD)
  then show "pt_server p = None" "pt_node p = sq_node r" using q by simp_all
qed

lemma new_server_fields [simp]:
  "sw_id (new_server db i r) = i" "sw_node (new_server db i r) = sq_node r" "sw_primary (new_server db i r) = Some (sq_port r)"
  "sw_desired (new_server db i r) = ''stopped''" "sw_actual (new_server db i r) = ''stopped''" "sw_io_weight (new_server db i r) = sq_io_weight r"
  "sw_memory (new_server db i r) = request_memory db r" "sw_cpu (new_server db i r) = sq_cpu r" "sw_disk (new_server db i r) = sq_disk r"
  "sw_owner (new_server db i r) = sq_owner r" "sw_suspended (new_server db i r) = False" "sw_status (new_server db i r) = ''provisioning''"
  by (simp_all add: new_server_def)

lemma claim_ports_ids: "map pt_id (claim_ports i ports ps) = map pt_id ps"
  by (simp add: claim_ports_def)

lemma claim_ports_in:
  "p \<in> set ps \<Longrightarrow> (if pt_id p \<in> set ports then p\<lparr>pt_server := Some i\<rparr> else p) \<in> set (claim_ports i ports ps)"
  by (simp add: claim_ports_def)

lemma claim_ports_from:
  "p \<in> set (claim_ports i ports ps) \<Longrightarrow> \<exists>q \<in> set ps. p = (if pt_id q \<in> set ports then q\<lparr>pt_server := Some i\<rparr> else q)"
  by (auto simp: claim_ports_def)

lemma new_server_ok:
  assumes "create_server_checks db r = Inr ports" "pb_nodes db' = pb_nodes db" "pb_users db' = pb_users db"
  shows "server_row_ok db' (new_server db i r)"
  using create_checks_facts(1-3) [OF assms(1)] assms(2,3)
  by (simp add: server_row_ok_def limits_valid_def server_desired_value_def server_actual_value_def)

lemma create_panel_ok:
  assumes ok: "panel_ok db"
  shows "panel_ok (snd (create_panel_server rx ok' read i r db))"
proof (cases "snd (create_panel_server rx ok' read i r db) = db")
  case False
  obtain res db' where c: "create_panel_server rx ok' read i r db = (res, db')" by fastforce
  with False have n: "db' \<noteq> db \<or> (\<exists>s. res = Inr s)" by auto
  obtain ports vs where f: "create_server_checks db r = Inr ports" "get_panel_server db i = None"
    "db' = db\<lparr>pb_servers := pb_servers db @ [new_server db i r], pb_ports := claim_ports i ports (pb_ports db), pb_vars := vs\<rparr>"
    "\<forall>x \<in> set vs. x \<in> set (pb_vars db) \<or> fst x = i" "filter (\<lambda>x. fst x \<noteq> i) vs = filter (\<lambda>x. fst x \<noteq> i) (pb_vars db)"
    by (rule create_panel_cases [OF c n])
  note checks = create_checks_facts [OF f(1)]
  note claimed = claimed_rows [OF ok f(1)]
  have t: "pb_servers db' = pb_servers db @ [new_server db i r]" "pb_ports db' = claim_ports i ports (pb_ports db)" "pb_vars db' = vs"
    "pb_nodes db' = pb_nodes db" "pb_users db' = pb_users db" by (simp_all add: f(3))
  have "panel_ok db'"
  proof (rule panel_okI)
    show "distinct (map sw_id (pb_servers db'))" using panel_okD(1) [OF ok] f(2) by (auto simp: t get_panel_server_None)
    show "distinct (map pt_id (pb_ports db'))" using panel_okD(2) [OF ok] by (simp add: t claim_ports_ids)
    show "server_row_ok db' s" if "s \<in> set (pb_servers db')" for s
    proof -
      have "server_row_ok db' (new_server db i r)" by (rule new_server_ok [OF f(1) t(4,5)])
      moreover have "server_row_ok db' s" if "s \<in> set (pb_servers db)"
        using panel_okD(3) [OF ok that] by (simp add: t server_row_ok_def)
      ultimately show ?thesis using that by (auto simp: t)
    qed
    show "\<exists>s \<in> set (pb_servers db'). sw_id s = j \<and> sw_node s = pt_node p" if pj: "p \<in> set (pb_ports db')" "pt_server p = Some j" for p j
    proof -
      obtain q where q: "q \<in> set (pb_ports db)" "p = (if pt_id q \<in> set ports then q\<lparr>pt_server := Some i\<rparr> else q)"
        using claim_ports_from pj(1) unfolding t by blast
      show ?thesis
      proof (cases "pt_id q \<in> set ports")
        case True
        then show ?thesis using q claimed(2) [OF q(1) True] pj(2) by (simp add: t)
      next
        case False
        then show ?thesis using q pj(2) panel_okD(4) [OF ok, of q j] by (auto simp: t)
      qed
    qed
    show "\<exists>p \<in> set (pb_ports db'). pt_id p = a \<and> pt_server p = Some (sw_id s)" if s: "s \<in> set (pb_servers db')" "sw_primary s = Some a" for s a
    proof (cases "s = new_server db i r")
      case True
      then have a: "a = sq_port r" using s by simp
      then obtain p where p: "p \<in> set (pb_ports db)" "pt_id p = a" using checks(4,5) get_port_in by blast
      show ?thesis using claim_ports_in [OF p(1), of ports i] p(2) checks(4) True a by (auto simp: t intro: bexI [rotated])
    next
      case False
      then obtain p where p: "p \<in> set (pb_ports db)" "pt_id p = a" "pt_server p = Some (sw_id s)"
        using s panel_okD(5) [OF ok, of s a] by (auto simp: t)
      then have "pt_id p \<notin> set ports" using claimed(1) by fastforce
      then show ?thesis using p claim_ports_in [OF p(1), of ports i] by (auto simp: t intro: bexI [rotated])
    qed
    show "\<exists>s \<in> set (pb_servers db'). sw_id s = fst x" if "x \<in> set (pb_vars db')" for x
      using that f(4) panel_okD(6) [OF ok, of x] by (auto simp: t)
  qed
  then show ?thesis by (simp add: c)
qed (simp add: ok)

lemma remove_panel_ok:
  assumes ok: "panel_ok db"
  shows "panel_ok (remove_server i db)"
proof (rule panel_okI)
  show "distinct (map sw_id (pb_servers (remove_server i db)))" using panel_okD(1) [OF ok] by (simp add: remove_server_def distinct_map_filter)
  have "map pt_id (pb_ports (remove_server i db)) = map pt_id (pb_ports db)" by (simp add: remove_server_def free_port_def)
  then show "distinct (map pt_id (pb_ports (remove_server i db)))" using panel_okD(2) [OF ok] by metis
  show "server_row_ok (remove_server i db) s" if "s \<in> set (pb_servers (remove_server i db))" for s
    using that panel_okD(3) [OF ok] by (auto simp: remove_server_def server_row_ok_def)
  show "\<exists>s \<in> set (pb_servers (remove_server i db)). sw_id s = j \<and> sw_node s = pt_node p"
    if "p \<in> set (pb_ports (remove_server i db))" "pt_server p = Some j" for p j
    using that panel_okD(4) [OF ok] by (fastforce simp: remove_server_def free_port_def split: if_splits)
  show "\<exists>p \<in> set (pb_ports (remove_server i db)). pt_id p = a \<and> pt_server p = Some (sw_id s)"
    if s: "s \<in> set (pb_servers (remove_server i db))" "sw_primary s = Some a" for s a
  proof -
    obtain p where "p \<in> set (pb_ports db)" "pt_id p = a" "pt_server p = Some (sw_id s)" "sw_id s \<noteq> i"
      using s panel_okD(5) [OF ok, of s a] by (auto simp: remove_server_def)
    then show ?thesis by (force simp: remove_server_def free_port_def)
  qed
  show "\<exists>s \<in> set (pb_servers (remove_server i db)). sw_id s = fst x" if "x \<in> set (pb_vars (remove_server i db))" for x
    using that panel_okD(6) [OF ok, of x] by (auto simp: remove_server_def)
qed

lemma hard_delete_panel_ok: "panel_ok db \<Longrightarrow> panel_ok (snd (hard_delete ok i url e db))"
  by (simp add: hard_delete_def remove_panel_ok)

lemma patched_fields [simp]:
  "sw_id (patched_server p s) = sw_id s" "sw_node (patched_server p s) = sw_node s" "sw_desired (patched_server p s) = sw_desired s"
  "sw_actual (patched_server p s) = sw_actual s" "sw_owner (patched_server p s) = or_else (sp_owner p) (sw_owner s)"
  "sw_io_weight (patched_server p s) = or_else (sp_io_weight p) (sw_io_weight s)" "sw_memory (patched_server p s) = or_else (sp_memory p) (sw_memory s)"
  "sw_cpu (patched_server p s) = or_else (sp_cpu p) (sw_cpu s)" "sw_disk (patched_server p s) = or_else (sp_disk p) (sw_disk s)"
  "sw_primary (patched_server p s) = (case sp_primary p of None \<Rightarrow> sw_primary s | Some a \<Rightarrow> Some a)"
  by (simp_all add: patched_server_def)

lemma or_else_cases: "P old \<Longrightarrow> (\<And>x. v = Some x \<Longrightarrow> P x) \<Longrightarrow> P (or_else v old)"
  by (cases v) (simp_all add: or_else_def)

lemma update_checks_facts:
  assumes "update_server_checks i p db = Inr s"
  shows "\<not> patch_limits_invalid p" "\<forall>w. sp_io_weight p = Some w \<longrightarrow> w \<le> 1000" "\<forall>u. sp_owner p = Some u \<longrightarrow> u \<in> set (pb_users db)"
    "\<forall>a. sp_primary p = Some a \<longrightarrow> (\<exists>x \<in> set (pb_ports db). pt_id x = a \<and> pt_server x = Some i)"
  using assms by (simp_all add: update_server_checks_def given_iff not_less split: if_splits option.splits)

lemma patched_server_ok:
  assumes "\<not> patch_limits_invalid p" "\<forall>w. sp_io_weight p = Some w \<longrightarrow> w \<le> 1000" "\<forall>u. sp_owner p = Some u \<longrightarrow> u \<in> set (pb_users db)"
    "server_row_ok db s"
  shows "server_row_ok db (patched_server p s)"
proof -
  have "10 \<le> or_else (sp_io_weight p) (sw_io_weight s)" "or_else (sp_io_weight p) (sw_io_weight s) \<le> 1000"
      "0 \<le> or_else (sp_memory p) (sw_memory s)" "0 \<le> or_else (sp_cpu p) (sw_cpu s)" "0 \<le> or_else (sp_disk p) (sw_disk s)"
      "or_else (sp_owner p) (sw_owner s) \<in> set (pb_users db)"
    by (rule or_else_cases; use assms in \<open>simp add: server_row_ok_def patch_limits_invalid_def invalid_optional_int_def not_less\<close>)+
  then show ?thesis using assms(4) by (simp add: server_row_ok_def)
qed

lemma update_panel_ok:
  assumes ok: "panel_ok db"
  shows "panel_ok (snd (update_panel_server ok' read i p db))"
proof (cases "update_server_checks i p db")
  case (Inr s)
  note u = update_checks_facts [OF Inr]
  have "panel_ok (map_server i (patched_server p) db)" unfolding map_server_def
  proof (rule panel_ok_map [OF ok])
    show "server_row_ok db (if sw_id s = i then patched_server p s else s)" if "s \<in> set (pb_servers db)" for s
      using patched_server_ok [OF u(1-3)] panel_okD(3) [OF ok that] by simp
    show "sw_primary s = Some a \<or> (\<exists>x \<in> set (pb_ports db). pt_id x = a \<and> pt_server x = Some (sw_id s))"
      if "sw_primary (if sw_id s = i then patched_server p s else s) = Some a" for s a
      using that u(4) by (auto split: if_splits option.splits)
  qed simp
  then show ?thesis using ok by (simp add: update_panel_server_def Inr)
qed (simp add: ok update_panel_server_def)

subsection \<open>Every operation\<close>

inductive panel_step :: "panel_db \<Rightarrow> panel_db \<Rightarrow> bool" where
  ps_create: "panel_step db (snd (create_panel_server rx ok read i r db))"
| ps_update: "panel_step db (snd (update_panel_server ok read i p db))"
| ps_delete: "panel_step db (snd (hard_delete_server ok i db))"
| ps_orphan: "panel_step db (snd (record_orphan_and_delete ok i url e db))"
| ps_suspend: "panel_step db (snd (set_server_suspension ok i b db))"
| ps_suspended: "panel_step db (snd (set_server_suspended ok logged i b db))"
| ps_status: "panel_step db (snd (set_server_status ok logged i st db))"
| ps_power: "panel_step db (snd (set_server_power_state ok logged i signal db))"
| ps_toggle: "panel_step db (snd (toggle_install_status ok logged i db))"
| ps_provisioned: "panel_step db (snd (set_server_provisioned ok logged i db))"
| ps_install: "panel_step db (snd (set_server_install_state ok logged i st e db))"
| ps_synced: "panel_step db (snd (mark_config_synced ok i db))"
| ps_sync_failed: "panel_step db (snd (mark_config_sync_failed ok i e db))"
| ps_reset: "panel_step db (reset_node_server_states ok n db)"
| ps_desired: "panel_step db (snd (set_server_desired_state ok logged i d reason db))"
| ps_actual: "panel_step db (snd (set_server_actual_state ok logged i a reason db))"
| ps_report: "panel_step db (snd (status_report ok1 logged1 ok2 logged2 n i a st db))"

lemmas mild_touches = set_server_suspension_def set_server_suspended_def set_server_status_def set_server_power_state_def
  set_server_provisioned_def set_server_install_state_def mark_config_synced_def mark_config_sync_failed_def

lemma mild_updates:
  "mild (\<lambda>s. s\<lparr>sw_suspended := b\<rparr>)" "mild (\<lambda>s. s\<lparr>sw_status := st\<rparr>)"
  "mild (\<lambda>s. s\<lparr>sw_status := st, sw_actual := ''stopped'', sw_installed := b, sw_install_error := e\<rparr>)"
  "mild (\<lambda>s. s\<lparr>sw_status := st, sw_installed := b, sw_install_error := e\<rparr>)" "mild (\<lambda>s. s\<lparr>sw_sync_pending := b, sw_sync_error := e\<rparr>)"
  by (simp_all add: mild_def server_row_ok_def server_actual_value_def)

lemma reset_panel_ok: "panel_ok db \<Longrightarrow> panel_ok (reset_node_server_states ok n db)"
  unfolding reset_node_server_states_def
  by (cases ok) (auto intro!: panel_ok_map dest: panel_okD(3) split: if_splits, simp_all add: server_row_ok_def panel_ok_def)

lemma status_panel_ok: "panel_ok db \<Longrightarrow> panel_ok (snd (set_server_status ok logged i st db))"
  by (simp add: mild_touches panel_ok_touch mild_updates)

lemma panel_step_ok: "panel_step db db' \<Longrightarrow> panel_ok db \<Longrightarrow> panel_ok db'"
proof (induction rule: panel_step.induct)
  case (ps_toggle db ok logged i)
  then show ?case using status_panel_ok
    by (auto simp: toggle_install_status_def Let_def split: option.splits prod.splits sum.splits) (metis snd_conv)+
next
  case (ps_report db ok1 logged1 ok2 logged2 n i a st)
  then show ?case by (simp add: status_report_def Let_def panel_ok_actual status_panel_ok)
qed (simp_all add: create_panel_ok update_panel_ok hard_delete_server_def record_orphan_and_delete_def hard_delete_panel_ok
    mild_touches panel_ok_touch mild_updates reset_panel_ok panel_ok_desired panel_ok_actual)

text \<open>C32: The tables of servers stay consistent under every sequence of operations, whatever fails: keys are unique,
  every allocation that is taken belongs to a server on its own node, every primary allocation belongs to its server,
  states are values of their enumerations, weights are in range, owners and nodes exist, and variables belong to
  servers.\<close>

theorem panel_tables_consistent:
  assumes "panel_step\<^sup>*\<^sup>* db db'" "panel_ok db"
  shows "panel_ok db'"
  using assms by (induction rule: rtranclp_induct) (simp_all add: panel_step_ok)

lemma removal_undoes_creation:
  assumes ok: "panel_ok db" and "create_panel_server rx ok' read i r db = (res, db')" "db' \<noteq> db \<or> (\<exists>s. res = Inr s)"
  shows "remove_server i db' = db" "get_panel_server db' i \<noteq> None" "get_panel_server db i = None"
proof -
  obtain ports vs where f: "create_server_checks db r = Inr ports" "get_panel_server db i = None"
    "db' = db\<lparr>pb_servers := pb_servers db @ [new_server db i r], pb_ports := claim_ports i ports (pb_ports db), pb_vars := vs\<rparr>"
    "\<forall>x \<in> set vs. x \<in> set (pb_vars db) \<or> fst x = i" "filter (\<lambda>x. fst x \<noteq> i) vs = filter (\<lambda>x. fst x \<noteq> i) (pb_vars db)"
    by (rule create_panel_cases [OF assms(2,3)])
  have gone: "sw_id s \<noteq> i" if "s \<in> set (pb_servers db)" for s using f(2) that by (simp add: get_panel_server_None)
  have "free_port i (if pt_id p \<in> set ports then p\<lparr>pt_server := Some i\<rparr> else p) = p" if "p \<in> set (pb_ports db)" for p
    using claimed_rows(1) [OF ok f(1) that] panel_okD(4) [OF ok that, of i] gone by (auto simp: free_port_def)
  then have ports: "map (free_port i) (claim_ports i ports (pb_ports db)) = pb_ports db"
    unfolding claim_ports_def map_map o_def by (intro map_idI) simp
  have vars: "filter (\<lambda>x. fst x \<noteq> i) (pb_vars db) = pb_vars db"
    using panel_okD(6) [OF ok] gone by (intro filter_True) metis
  have servers: "filter (\<lambda>s. sw_id s \<noteq> i) (pb_servers db) = pb_servers db" using gone by (intro filter_True) simp
  show "get_panel_server db' i \<noteq> None" "get_panel_server db i = None" by (simp_all add: f(2,3) get_panel_server_None)
  show "remove_server i db' = db" unfolding remove_server_def f(3) using ports vars servers f(5) by simp
qed

text \<open>C33: Deleting undoes creating: when a creation has reached its commit, the hard deletion of the new server succeeds
  and gives back exactly the tables from before, with every allocation free again.\<close>

theorem deletion_undoes_creation:
  assumes "panel_ok db" "create_panel_server rx ok' read i r db = (res, db')" "db' \<noteq> db"
  shows "hard_delete_server True i db' = (Inr (), db)"
  using removal_undoes_creation [OF assms(1,2)] assms(3) by (simp add: hard_delete_server_def hard_delete_def)

text \<open>One node with two allocations and an egg with one variable.\<close>

definition sample_panel :: panel_db where
  "sample_panel = \<lparr>pb_servers = [],
     pb_ports = [\<lparr>pt_id = ''a1'', pt_node = ''n1'', pt_ip = ''10.0.0.1'', pt_port = 25565, pt_server = None, pt_held = False\<rparr>,
                 \<lparr>pt_id = ''a2'', pt_node = ''n1'', pt_ip = ''10.0.0.1'', pt_port = 25566, pt_server = None, pt_held = False\<rparr>],
     pb_eggs = [\<lparr>eg_id = ''e1'', eg_memory = 1024, eg_images = [(''java'', ''img'')], eg_startup = ''run'', eg_vars = [(''V'', ''required|max:5'')]\<rparr>],
     pb_users = [''u1''], pb_nodes = [(''n1'', ''http'')], pb_vars = [], pb_orphans = [], pb_moves = []\<rparr>"

definition panel_request :: server_request where
  "panel_request = \<lparr>sq_name = ''srv'', sq_node = ''n1'', sq_owner = ''u1'', sq_egg = ''e1'', sq_port = ''a1'', sq_more_ports = [''a2''],
     sq_memory = 0, sq_cpu = 100, sq_cpu_limit = 0, sq_disk = 10, sq_db_limit = 0, sq_backup_limit = 0, sq_port_limit = 2,
     sq_io_weight = 500, sq_swap = 0, sq_threads = [], sq_oom = False, sq_image = [], sq_startup = [], sq_vars = [(''V'', ''abc'')]\<rparr>"

definition panel_created :: panel_db where
  "panel_created = snd (create_panel_server (\<lambda>_. None) True True ''s1'' panel_request sample_panel)"

lemma sample_panel_ok: "panel_ok sample_panel"
  by (simp add: panel_ok_def sample_panel_def)

lemma panel_creation:
  "create_panel_server (\<lambda>_. None) True True ''s1'' panel_request sample_panel = (Inr (new_server sample_panel ''s1'' panel_request), panel_created)"
  "panel_created \<noteq> sample_panel"
  by (code_simp, code_simp)

text \<open>Witness of C32: a server is created and the node reports it crashed.\<close>

theorem panel_tables_consistent_witness:
  "panel_ok (snd (status_report True True True True ''n1'' ''s1'' ''crashed'' [] panel_created))"
proof (rule panel_tables_consistent [OF _ sample_panel_ok])
  have "panel_step sample_panel panel_created" unfolding panel_created_def by (rule ps_create)
  then show "panel_step\<^sup>*\<^sup>* sample_panel (snd (status_report True True True True ''n1'' ''s1'' ''crashed'' [] panel_created))"
    using ps_report by (meson converse_rtranclp_into_rtranclp r_into_rtranclp)
qed

text \<open>Witness of C33: the server with two allocations and a variable.\<close>

theorem deletion_undoes_creation_witness: "hard_delete_server True ''s1'' panel_created = (Inr (), sample_panel)"
  by (rule deletion_undoes_creation [OF sample_panel_ok panel_creation])

end
