(* ===== verification/Cluster_Manager.thy ===== *)
theory Cluster_Manager
  imports Server_Table Reservation_Manager Scheduler
begin

text \<open>
  The cluster manager (\<^verbatim>\<open>services/clustermanager/service.go\<close>): creating a server over scheduler, reservation manager,
  tables and node, with its compensation; deletion; power; the refresh of states; installation. The capacity
  database sees the rows of servers that the tables have. What the scheduler, the node and the database answer is an
  argument; a node that answers an error may have made the workload nevertheless. Texts of errors, correlation
  identifiers and the fields of requests to the node are left out, and the manager has its publisher, runtime and
  reservation manager, as the program builds it.
\<close>

section \<open>State\<close>

record cluster =
  cl_panel :: panel_db
  cl_mgr :: manager
  cl_cap :: capacity_db
  cl_work :: "string list"
  cl_sent :: "(string \<times> string) list"
  cl_events :: "(string \<times> string) list"

datatype cluster_error =
    CmName | CmOwner | CmPlace sched_error | CmNoPort | CmReserve res_error | CmStore server_error | CmTarget | CmRuntime | CmRejected
  | CmSuspended | CmSignal

text \<open>Rows of servers as the accounting of capacity reads them.\<close>

definition cap_row :: "panel_server \<Rightarrow> server_row" where
  "cap_row s = \<lparr>srv_id = sw_id s, srv_node = sw_node s, srv_status = sw_status s, srv_cpu = sw_cpu s, srv_memory = sw_memory s,
     srv_disk = sw_disk s\<rparr>"

definition cap_view :: "cluster \<Rightarrow> capacity_db" where
  "cap_view st = (cl_cap st)\<lparr>db_servers := map cap_row (pb_servers (cl_panel st))\<rparr>"

definition emit :: "string \<Rightarrow> string \<Rightarrow> cluster \<Rightarrow> cluster" where
  "emit e i st = st\<lparr>cl_events := cl_events st @ [(e, i)]\<rparr>"

fun first_non_empty :: "string list \<Rightarrow> string" where
  "first_non_empty [] = []"
| "first_non_empty (x # xs) = (if trim_space x \<noteq> [] then trim_space x else first_non_empty xs)"

fun first_non_zero :: "int list \<Rightarrow> int" where
  "first_non_zero [] = 0"
| "first_non_zero (x # xs) = (if x \<noteq> 0 then x else first_non_zero xs)"

section \<open>Answers\<close>

datatype runtime_answer = RtError | RtRejected | RtAccepted

record create_answers =
  ca_place :: "placement_request \<Rightarrow> sched_error + placement_decision"
  ca_lower :: "string \<Rightarrow> string"
  ca_rx :: "string \<Rightarrow> (string \<Rightarrow> bool) option"
  ca_find :: bool
  ca_reserve :: "create_stage \<Rightarrow> bool"
  ca_store :: bool
  ca_read :: bool
  ca_target :: bool
  ca_sync :: bool
  ca_mark :: bool
  ca_runtime :: runtime_answer
  ca_made :: bool
  ca_prov :: bool
  ca_prov_logged :: bool
  ca_confirm :: update_fault
  ca_cancel :: update_fault
  ca_control :: bool
  ca_rt_delete :: bool
  ca_delete :: bool
  ca_final :: bool

section \<open>Creation\<close>

definition sync_provision_target :: "bool \<Rightarrow> bool \<Rightarrow> string \<Rightarrow> panel_db \<Rightarrow> bool \<times> panel_db" where
  "sync_provision_target synced ok i p =
     (if \<not> synced then (False, snd (mark_config_sync_failed ok i ''sync failed'' p))
      else (case mark_config_synced ok i p of (Inl _, p1) \<Rightarrow> (False, p1) | (Inr _, p1) \<Rightarrow> (True, p1)))"

text \<open>Whether the node reported the workload as created, the error if any, and the state.\<close>

definition provision_server :: "create_answers \<Rightarrow> string \<Rightarrow> cluster \<Rightarrow> bool \<times> cluster_error option \<times> cluster" where
  "provision_server a i st =
     (if \<not> ca_target a \<or> get_panel_server (cl_panel st) i = None then (False, Some CmTarget, st)
      else (case sync_provision_target (ca_sync a) (ca_mark a) i (cl_panel st) of
        (False, p) \<Rightarrow> (False, Some CmRuntime, st\<lparr>cl_panel := p\<rparr>)
      | (True, p) \<Rightarrow>
          let st1 = st\<lparr>cl_panel := p, cl_work := if ca_made a then List.insert i (cl_work st) else cl_work st\<rparr> in
          (case ca_runtime a of
             RtError \<Rightarrow> (False, Some CmRuntime, st1)
           | RtRejected \<Rightarrow> (False, Some CmRejected, st1)
           | RtAccepted \<Rightarrow>
               (case set_server_provisioned (ca_prov a) (ca_prov_logged a) i p of
                  (Inl e, p1) \<Rightarrow> (True, Some (CmStore e), st1\<lparr>cl_panel := p1\<rparr>)
                | (Inr _, p1) \<Rightarrow> (True, None, st1\<lparr>cl_panel := p1\<rparr>)))))"

text \<open>The address of the node of a server; \<open>ok\<close> covers the read and the decryption of the credential.\<close>

definition server_control_target :: "bool \<Rightarrow> string \<Rightarrow> panel_db \<Rightarrow> string option" where
  "server_control_target ok i p =
     (if ok then (case get_panel_server p i of None \<Rightarrow> None | Some s \<Rightarrow> map_of (pb_nodes p) (sw_node s)) else None)"

definition compensate_create_failure :: "create_answers \<Rightarrow> string \<Rightarrow> bool \<Rightarrow> cluster \<Rightarrow> cluster" where
  "compensate_create_failure a i created st =
     (case server_control_target (ca_control a) i (cl_panel st) of
        None \<Rightarrow> st
      | Some url \<Rightarrow>
          if created \<and> \<not> ca_rt_delete a
          then st\<lparr>cl_panel := snd (record_orphan_and_delete (ca_delete a) i url ''delete failed'' (cl_panel st))\<rparr>
          else let st1 = if created then st\<lparr>cl_work := filter (\<lambda>w. w \<noteq> i) (cl_work st)\<rparr> else st in
               st1\<lparr>cl_panel := snd (hard_delete_server (ca_delete a) i (cl_panel st1))\<rparr>)"

definition cancel_placement :: "create_answers \<Rightarrow> gotime \<Rightarrow> string \<Rightarrow> cluster \<Rightarrow> cluster" where
  "cancel_placement a now ri st =
     (if ri = [] then st
      else (case cancel_reservation (ca_cancel a) (cl_mgr st, cap_view st) now ri of (_, m, c) \<Rightarrow> st\<lparr>cl_mgr := m, cl_cap := c\<rparr>))"

text \<open>The placement request: what the caller of the API gives wins over the request of the server.\<close>

definition fill_placement :: "server_request \<Rightarrow> placement_request \<Rightarrow> placement_request" where
  "fill_placement r q =
     q\<lparr>pr_node := first_non_empty [pr_node q, sq_node r], pr_required := first_non_empty [pr_required q, sq_node r],
       pr_allocation := first_non_empty [pr_allocation q, sq_port r], pr_memory := first_non_zero [pr_memory q, sq_memory r],
       pr_cpu_shares := first_non_zero [pr_cpu_shares q, sq_cpu r], pr_disk := first_non_zero [pr_disk q, sq_disk r]\<rparr>"

definition placement_reservation :: "gotime \<Rightarrow> server_request \<Rightarrow> placement_request \<Rightarrow> string \<Rightarrow> reservation_request" where
  "placement_reservation clk r q n =
     \<lparr>rq_server = [], rq_node = n, rq_migration = [], rq_type = ''placement'', rq_status = ''active'',
      rq_cpu = first_non_zero [pr_cpu q, pr_cpu_shares q, sq_cpu r], rq_memory = first_non_zero [pr_memory q, sq_memory r],
      rq_disk = first_non_zero [pr_disk q, sq_disk r], rq_expires = clk + 10 * minute\<rparr>"

text \<open>After the reservation: the row, the node, the confirmation.\<close>

definition finish_create ::
  "create_answers \<Rightarrow> gotime \<Rightarrow> string \<Rightarrow> string \<Rightarrow> server_request \<Rightarrow> cluster \<Rightarrow> (cluster_error + panel_server) \<times> cluster" where
  "finish_create a now i ri r st =
     (case create_panel_server (ca_rx a) (ca_store a) (ca_read a) i r (cl_panel st) of
        (Inl e, p) \<Rightarrow> (Inl (CmStore e), cancel_placement a now ri (st\<lparr>cl_panel := p\<rparr>))
      | (Inr _, p) \<Rightarrow>
          (case provision_server a i (st\<lparr>cl_panel := p\<rparr>) of
             (created, Some e, st1) \<Rightarrow> (Inl e, compensate_create_failure a i created (cancel_placement a now ri st1))
           | (created, None, st1) \<Rightarrow>
               (case confirm_reservation (ca_confirm a) (cl_mgr st1, cap_view st1) now ri of
                  (Inl e, m, c) \<Rightarrow>
                    (Inl (CmReserve e), compensate_create_failure a i True (cancel_placement a now ri (st1\<lparr>cl_mgr := m, cl_cap := c\<rparr>)))
                | (Inr _, m, c) \<Rightarrow>
                    let st2 = st1\<lparr>cl_mgr := m, cl_cap := c\<rparr> in
                    (case get_panel_server (cl_panel st2) i of
                       Some s \<Rightarrow> if ca_final a then (Inr s, emit ''server.created'' i st2) else (Inl (CmStore SrvDb), st2)
                     | None \<Rightarrow> (Inl (CmStore SrvDb), st2)))))"

text \<open>The allocation of the decision, or else the first that is free on the node.\<close>

definition chosen_port :: "create_answers \<Rightarrow> placement_decision \<Rightarrow> panel_db \<Rightarrow> string option" where
  "chosen_port a d p =
     (if pd_allocation d \<noteq> [] then Some (pd_allocation d) else map_option pt_id (find_available_port (ca_find a) (pd_node d) p))"

definition cm_create_server ::
  "create_answers \<Rightarrow> gotime \<Rightarrow> gotime \<Rightarrow> string \<Rightarrow> string \<Rightarrow> server_request \<Rightarrow> placement_request \<Rightarrow> cluster
     \<Rightarrow> (cluster_error + panel_server) \<times> cluster" where
  "cm_create_server a clk now i ri r q0 st =
     (if trim_space (sq_name r) = [] \<or> trim_space (sq_egg r) = [] then (Inl CmName, st)
      else if trim_space (sq_owner r) = [] then (Inl CmOwner, st)
      else let q = fill_placement r q0 in
        (case ca_place a q of
           Inl e \<Rightarrow> (Inl (CmPlace e), st)
         | Inr d \<Rightarrow>
             (case chosen_port a d (cl_panel st) of
                None \<Rightarrow> (Inl CmNoPort, st)
              | Some port \<Rightarrow>
                  (case manager_create (ca_lower a) (ca_reserve a) (cl_mgr st, cap_view st) clk now ri
                      (placement_reservation clk r q (pd_node d)) of
                     (Inl e, m, c) \<Rightarrow> (Inl (CmReserve e), st\<lparr>cl_mgr := m, cl_cap := c\<rparr>)
                   | (Inr _, m, c) \<Rightarrow>
                       finish_create a now i ri (r\<lparr>sq_node := pd_node d, sq_port := port\<rparr>)
                         (emit ''placement.created'' (pd_node d) (st\<lparr>cl_mgr := m, cl_cap := c\<rparr>))))))"

section \<open>Deletion\<close>

text \<open>\<open>rt\<close> is what the node answers, \<open>gone\<close> whether the workload is gone afterwards. A forced deletion answers the
  error of the node although it has deleted the server.\<close>

definition cm_delete_server :: "bool \<Rightarrow> bool \<Rightarrow> bool \<Rightarrow> bool \<Rightarrow> bool \<Rightarrow> string \<Rightarrow> cluster \<Rightarrow> (cluster_error + unit) \<times> cluster" where
  "cm_delete_server ok rt gone del force i st =
     (case server_control_target ok i (cl_panel st) of
        None \<Rightarrow> (Inl CmTarget, st)
      | Some url \<Rightarrow>
          let st1 = if gone then st\<lparr>cl_work := filter (\<lambda>w. w \<noteq> i) (cl_work st)\<rparr> else st in
          if \<not> rt \<and> \<not> force then (Inl CmRuntime, st1)
          else if \<not> rt then
            (case record_orphan_and_delete del i url ''delete failed'' (cl_panel st1) of
               (Inl e, p) \<Rightarrow> (Inl (CmStore e), st1\<lparr>cl_panel := p\<rparr>)
             | (Inr _, p) \<Rightarrow> (Inl CmRuntime, emit ''server.deleted'' i (st1\<lparr>cl_panel := p\<rparr>)))
          else
            (case hard_delete_server del i (cl_panel st1) of
               (Inl e, p) \<Rightarrow> (Inl (CmStore e), st1\<lparr>cl_panel := p\<rparr>)
             | (Inr _, p) \<Rightarrow> (Inr (), emit ''server.deleted'' i (st1\<lparr>cl_panel := p\<rparr>))))"

section \<open>Installation\<close>

record install_answers =
  ia_target :: bool
  ia_begin :: bool
  ia_begin_logged :: bool
  ia_sync :: bool
  ia_mark :: bool
  ia_supported :: bool
  ia_runtime :: bool
  ia_accepted :: bool
  ia_exit :: int
  ia_end :: bool
  ia_end_logged :: bool

definition install_failed :: "install_answers \<Rightarrow> string \<Rightarrow> cluster \<Rightarrow> cluster" where
  "install_failed a i st = st\<lparr>cl_panel := snd (set_server_install_state (ia_end a) (ia_end_logged a) i ''failed'' ''install failed'' (cl_panel st))\<rparr>"

definition run_installer :: "install_answers \<Rightarrow> bool \<Rightarrow> string \<Rightarrow> cluster \<Rightarrow> (cluster_error + unit) \<times> cluster" where
  "run_installer a reinstall i st =
     (if \<not> ia_target a \<or> get_panel_server (cl_panel st) i = None then (Inl CmTarget, st)
      else (case set_server_install_state (ia_begin a) (ia_begin_logged a) i ''installing'' [] (cl_panel st) of
        (Inl e, p) \<Rightarrow> (Inl (CmStore e), st\<lparr>cl_panel := p\<rparr>)
      | (Inr _, p) \<Rightarrow>
          (case sync_provision_target (ia_sync a) (ia_mark a) i p of
             (False, p1) \<Rightarrow> (Inl CmRuntime, install_failed a i (st\<lparr>cl_panel := p1\<rparr>))
           | (True, p1) \<Rightarrow>
               let st1 = st\<lparr>cl_panel := p1\<rparr> in
               if (reinstall \<and> \<not> ia_supported a) \<or> \<not> ia_runtime a then (Inl CmRuntime, install_failed a i st1)
               else if \<not> ia_accepted a \<or> ia_exit a \<noteq> 0 then (Inl CmRejected, install_failed a i st1)
               else (case set_server_install_state (ia_end a) (ia_end_logged a) i ''installed'' [] p1 of
                       (Inl e, p2) \<Rightarrow> (Inl (CmStore e), st1\<lparr>cl_panel := p2\<rparr>)
                     | (Inr _, p2) \<Rightarrow> (Inr (), st1\<lparr>cl_panel := p2\<rparr>)))))"

section \<open>Power\<close>

record power_answers =
  pa_get :: bool
  pa_desired :: bool
  pa_desired_logged :: bool
  pa_control :: bool
  pa_runtime :: bool
  pa_actual :: bool
  pa_actual_logged :: bool
  pa_stats :: bool
  pa_refresh :: bool
  pa_refresh_logged :: bool

definition actual_from_signal :: "string \<Rightarrow> string" where
  "actual_from_signal signal = (if signal = ''start'' \<or> signal = ''restart'' then ''running'' else ''stopped'')"

definition power_events :: "string \<Rightarrow> string \<Rightarrow> cluster \<Rightarrow> cluster" where
  "power_events signal i st =
     (let st1 = emit ''actual_state.changed'' i st in
      if signal = ''start'' then emit ''server.started'' i st1
      else if signal = ''stop'' \<or> signal = ''kill'' then emit ''server.stopped'' i st1
      else if signal = ''restart'' then emit ''server.restarted'' i st1 else st1)"

definition send_power :: "power_answers \<Rightarrow> string \<Rightarrow> string \<Rightarrow> cluster \<Rightarrow> (cluster_error + unit) \<times> cluster" where
  "send_power a i signal st =
     (case server_control_target (pa_control a) i (cl_panel st) of
        None \<Rightarrow> (Inl CmTarget, st)
      | Some _ \<Rightarrow>
          if signal \<notin> {''start'', ''stop'', ''restart'', ''kill''} then (Inl CmSignal, st)
          else let st1 = st\<lparr>cl_sent := cl_sent st @ [(i, signal)]\<rparr> in
            if \<not> pa_runtime a then (Inl CmRuntime, st1)
            else (case set_server_actual_state (pa_actual a) (pa_actual_logged a) i (actual_from_signal signal) (''cluster manager power '' @ signal) (cl_panel st1) of
              (Inl e, p) \<Rightarrow> (Inl (CmStore e), st1\<lparr>cl_panel := p\<rparr>)
            | (Inr _, p) \<Rightarrow> (Inr (), power_events signal i (st1\<lparr>cl_panel := p\<rparr>))))"

definition request_server_power :: "power_answers \<Rightarrow> string \<Rightarrow> string \<Rightarrow> cluster \<Rightarrow> (cluster_error + string) \<times> cluster" where
  "request_server_power a i signal st =
     (let starting = (signal = ''start'' \<or> signal = ''restart''); desired = (if starting then ''running'' else ''stopped'') in
      if starting \<and> (\<not> pa_get a \<or> get_panel_server (cl_panel st) i = None) then (Inl (CmStore SrvDb), st)
      else if starting \<and> given sw_suspended (get_panel_server (cl_panel st) i) then (Inl CmSuspended, st)
      else (case set_server_desired_state (pa_desired a) (pa_desired_logged a) i desired (''cluster manager request '' @ signal) (cl_panel st) of
        (Inl e, p) \<Rightarrow> (Inl (CmStore e), st\<lparr>cl_panel := p\<rparr>)
      | (Inr _, p) \<Rightarrow>
          (case send_power a i signal (emit ''desired_state.changed'' i (st\<lparr>cl_panel := p\<rparr>)) of
             (Inl e, st1) \<Rightarrow> (Inl e, st1)
           | (Inr _, st1) \<Rightarrow> (Inr desired, st1))))"

text \<open>The state of a server as its node sees it: only whether statistics can be read is asked.\<close>

definition refresh_actual_state :: "power_answers \<Rightarrow> string \<Rightarrow> cluster \<Rightarrow> (cluster_error + string) \<times> cluster" where
  "refresh_actual_state a i st =
     (case (if pa_get a then get_panel_server (cl_panel st) i else None) of
        None \<Rightarrow> (Inl (CmStore SrvDb), st)
      | Some s \<Rightarrow>
          if sw_desired s \<noteq> ''running'' \<and> sw_actual s \<noteq> ''running'' then (Inr (sw_actual s), st)
          else (case server_control_target (pa_control a) i (cl_panel st) of
            None \<Rightarrow> (Inl CmTarget, st)
          | Some _ \<Rightarrow>
              if \<not> pa_stats a \<and> sw_actual s \<noteq> ''running'' then (Inr (sw_actual s), st)
              else let actual = if pa_stats a then ''running'' else ''unknown'' in
                (case set_server_actual_state (pa_refresh a) (pa_refresh_logged a) i actual
                    (if pa_stats a then ''runtime stats refresh'' else ''runtime stats refresh failed'') (cl_panel st) of
                   (Inl e, p) \<Rightarrow> (Inl (CmStore e), st\<lparr>cl_panel := p\<rparr>)
                 | (Inr _, p) \<Rightarrow> (Inr actual, emit ''actual_state.changed'' i (st\<lparr>cl_panel := p\<rparr>)))))"

section \<open>All or nothing\<close>

text \<open>Changes of the row of a server do not matter to its removal.\<close>

definition keeps_id :: "(panel_server \<Rightarrow> panel_server) \<Rightarrow> bool" where
  "keeps_id f \<longleftrightarrow> (\<forall>s. sw_id (f s) = sw_id s)"

lemma remove_map_server: "keeps_id f \<Longrightarrow> remove_server i (map_server i f db) = remove_server i db"
proof -
  assume "keeps_id f"
  then have "filter (\<lambda>s. sw_id s \<noteq> i) (map (\<lambda>s. if sw_id s = i then f s else s) xs) = filter (\<lambda>s. sw_id s \<noteq> i) xs" for xs
    by (induction xs) (auto simp: keeps_id_def)
  then show ?thesis by (simp add: remove_server_def map_server_def)
qed

text \<open>Two states of the tables that differ at most in the row of one server.\<close>

definition row_key :: "panel_server \<Rightarrow> string \<times> string \<times> int \<times> int \<times> int" where
  "row_key s = (sw_id s, sw_node s, sw_cpu s, sw_memory s, sw_disk s)"

definition same_beside :: "string \<Rightarrow> panel_db \<Rightarrow> panel_db \<Rightarrow> bool" where
  "same_beside i p q \<longleftrightarrow> remove_server i q = remove_server i p \<and> map row_key (pb_servers q) = map row_key (pb_servers p) \<and>
     pb_nodes q = pb_nodes p \<and> pb_orphans q = pb_orphans p"

lemma same_beside_refl [simp]: "same_beside i p p"
  by (simp add: same_beside_def)

lemma same_beside_trans: "same_beside i p q \<Longrightarrow> same_beside i q r \<Longrightarrow> same_beside i p r"
  by (simp add: same_beside_def)

lemma same_beside_touch:
  assumes "\<And>s. row_key (f s) = row_key s"
  shows "same_beside i p (snd (touch_server ok lg i f p))"
proof -
  have "remove_server i (map_server i f p) = remove_server i p"
    using assms by (intro remove_map_server) (simp add: keeps_id_def row_key_def)
  then show ?thesis using assms by (auto simp: same_beside_def touch_server_def map_server_def)
qed

lemma same_beside_found: "same_beside i p q \<Longrightarrow> get_panel_server q i = None \<longleftrightarrow> get_panel_server p i = None"
proof -
  assume a: "same_beside i p q"
  have "map sw_id xs = map fst (map row_key xs)" for xs by (simp add: row_key_def)
  then have "map sw_id (pb_servers q) = map sw_id (pb_servers p)" using a unfolding same_beside_def by metis
  then show ?thesis unfolding get_panel_server_None by (metis (no_types, lifting) image_iff list.set_map)
qed

lemma sync_same_beside: "sync_provision_target synced ok i p = (b, q) \<Longrightarrow> same_beside i p q"
  using same_beside_touch [of "\<lambda>s. s\<lparr>sw_sync_pending := True, sw_sync_error := Some ''sync failed''\<rparr>" i p ok True]
    same_beside_touch [of "\<lambda>s. s\<lparr>sw_sync_pending := False, sw_sync_error := None\<rparr>" i p ok True]
  by (auto simp: row_key_def sync_provision_target_def mark_config_synced_def mark_config_sync_failed_def split: if_splits prod.splits sum.splits)

definition honest :: "create_answers \<Rightarrow> bool" where
  "honest a \<longleftrightarrow> (ca_made a \<longleftrightarrow> ca_runtime a = RtAccepted)"

lemma provision_same_beside:
  assumes "provision_server a i st = (c, e, st1)"
  shows "same_beside i (cl_panel st) (cl_panel st1)" "cl_mgr st1 = cl_mgr st" "cl_cap st1 = cl_cap st"
proof -
  obtain b p where s: "sync_provision_target (ca_sync a) (ca_mark a) i (cl_panel st) = (b, p)" by fastforce
  obtain x p1 where v: "set_server_provisioned (ca_prov a) (ca_prov_logged a) i p = (x, p1)" by fastforce
  have "same_beside i p p1"
    using same_beside_touch [of "\<lambda>s. s\<lparr>sw_status := ''created'', sw_actual := ''stopped'', sw_installed := False, sw_install_error := None\<rparr>" i p "ca_prov a" "ca_prov_logged a"] v
    by (simp add: row_key_def set_server_provisioned_def)
  then have p1: "same_beside i (cl_panel st) p1" using sync_same_beside [OF s] same_beside_trans by blast
  show "same_beside i (cl_panel st) (cl_panel st1)"
    using assms(1) p1 sync_same_beside [OF s]
    by (auto simp: provision_server_def s v Let_def split: if_splits bool.splits runtime_answer.splits sum.splits)
  show "cl_mgr st1 = cl_mgr st" "cl_cap st1 = cl_cap st"
    using assms(1) by (auto simp: provision_server_def s v Let_def split: if_splits bool.splits runtime_answer.splits sum.splits)
qed

lemma provision_work:
  assumes "provision_server a i st = (c, e, st1)" "honest a"
  shows "cl_work st1 = (if c then List.insert i (cl_work st) else cl_work st)" "e = None \<Longrightarrow> c"
  using assms by (auto simp: provision_server_def Let_def honest_def split: if_splits bool.splits runtime_answer.splits sum.splits prod.splits)

lemma sync_panel_ok: "panel_ok p \<Longrightarrow> sync_provision_target synced ok i p = (b, q) \<Longrightarrow> panel_ok q"
  using panel_step_ok [OF ps_synced [of p ok i]] panel_step_ok [OF ps_sync_failed [of p ok i "''sync failed''"]]
  by (auto simp: sync_provision_target_def split: if_splits prod.splits sum.splits)

lemma provision_panel_ok:
  assumes "panel_ok (cl_panel st)" "provision_server a i st = (c, e, st1)"
  shows "panel_ok (cl_panel st1)"
proof -
  obtain b p where s: "sync_provision_target (ca_sync a) (ca_mark a) i (cl_panel st) = (b, p)" by fastforce
  obtain x p1 where v: "set_server_provisioned (ca_prov a) (ca_prov_logged a) i p = (x, p1)" by fastforce
  have "panel_ok p" by (rule sync_panel_ok [OF assms(1) s])
  moreover then have "panel_ok p1" using panel_step_ok [OF ps_provisioned [of p "ca_prov a" "ca_prov_logged a" i]] v by simp
  ultimately show ?thesis
    using assms by (auto simp: provision_server_def s v Let_def split: if_splits bool.splits runtime_answer.splits sum.splits)
qed

lemma control_target_found:
  assumes "panel_ok p" "get_panel_server p i \<noteq> None"
  shows "\<exists>url. server_control_target True i p = Some url"
proof -
  obtain s where s: "get_panel_server p i = Some s" using assms(2) by blast
  then have "sw_node s \<in> fst ` set (pb_nodes p)"
    using panel_okD(3) [OF assms(1), of s] get_panel_server_Some [OF s] by (simp add: server_row_ok_def)
  then show ?thesis by (simp add: server_control_target_def s) (metis domD dom_map_of_conv_image_fst)
qed

text \<open>The tables are those from before, and the workload is gone unless its deletion failed and it is recorded.\<close>

definition undone :: "string \<Rightarrow> cluster \<Rightarrow> cluster \<Rightarrow> bool" where
  "undone i st st' \<longleftrightarrow>
     (cl_panel st' = cl_panel st \<and> cl_work st' = cl_work st) \<or>
     (\<exists>url. cl_panel st' = (cl_panel st)\<lparr>pb_orphans := pb_orphans (cl_panel st) @ [(i, url, ''delete failed'')]\<rparr> \<and>
        cl_work st' = List.insert i (cl_work st))"

lemma orphans_remove: "remove_server i (p\<lparr>pb_orphans := x\<rparr>) = (remove_server i p)\<lparr>pb_orphans := x\<rparr>"
  by (simp add: remove_server_def)

lemma orphans_removed: "pb_orphans (remove_server i p) = pb_orphans p"
  by (simp add: remove_server_def)

lemma compensate_undoes:
  assumes "ca_control a" "ca_delete a" "panel_ok (cl_panel st1)" "get_panel_server (cl_panel st1) i \<noteq> None" "i \<notin> set (cl_work st)"
    and before: "remove_server i (cl_panel st1) = cl_panel st" "pb_orphans (cl_panel st1) = pb_orphans (cl_panel st)"
    and work: "cl_work st1 = (if created then List.insert i (cl_work st) else cl_work st)"
  shows "undone i st (compensate_create_failure a i created st1)"
proof -
  obtain url where url: "server_control_target True i (cl_panel st1) = Some url"
    using control_target_found [OF assms(3,4)] by blast
  obtain y where y: "get_panel_server (cl_panel st1) i = Some y" using assms(4) by blast
  show ?thesis
  proof (cases "created \<and> \<not> ca_rt_delete a")
    case True
    have "cl_panel (compensate_create_failure a i created st1) = (cl_panel st)\<lparr>pb_orphans := pb_orphans (cl_panel st) @ [(i, url, ''delete failed'')]\<rparr>"
      using True assms(1,2) before
      by (simp add: y compensate_create_failure_def url record_orphan_and_delete_def hard_delete_def orphans_remove)
    moreover have "cl_work (compensate_create_failure a i created st1) = List.insert i (cl_work st)"
      using True assms(1) work by (simp add: compensate_create_failure_def url)
    ultimately show ?thesis unfolding undone_def by blast
  next
    case False
    have "cl_panel (compensate_create_failure a i created st1) = cl_panel st"
      using False assms(1,2) before by (simp add: y compensate_create_failure_def url hard_delete_server_def hard_delete_def Let_def)
    moreover have "cl_work (compensate_create_failure a i created st1) = cl_work st"
      using False assms(1,5) work by (auto simp: compensate_create_failure_def url Let_def filter_id_conv)
    ultimately show ?thesis unfolding undone_def by blast
  qed
qed

lemma cancel_keeps [simp]:
  "cl_panel (cancel_placement a now ri st) = cl_panel st" "cl_work (cancel_placement a now ri st) = cl_work st"
  by (simp_all add: cancel_placement_def split: prod.splits)

lemma get_map_server: "keeps_id f \<Longrightarrow> get_panel_server (map_server i f p) i = map_option f (get_panel_server p i)"
proof -
  assume "keeps_id f"
  then have "find (\<lambda>s. sw_id s = i) (map (\<lambda>s. if sw_id s = i then f s else s) xs) = map_option f (find (\<lambda>s. sw_id s = i) xs)" for xs
    by (induction xs) (auto simp: keeps_id_def)
  then show ?thesis by (simp add: get_panel_server_def map_server_def)
qed

lemma provision_created:
  assumes "provision_server a i st = (c, None, st1)" "get_panel_server (cl_panel st1) i = Some s"
  shows "sw_status s = ''created''"
proof -
  obtain b p where s: "sync_provision_target (ca_sync a) (ca_mark a) i (cl_panel st) = (b, p)" by fastforce
  have "cl_panel st1 = map_server i (\<lambda>s. s\<lparr>sw_status := ''created'', sw_actual := ''stopped'', sw_installed := False, sw_install_error := None\<rparr>) p"
    using assms(1) by (auto simp: provision_server_def s Let_def set_server_provisioned_def touch_server_def
      split: if_splits bool.splits runtime_answer.splits sum.splits)
  then show ?thesis using assms(2) by (auto simp: get_map_server keeps_id_def)
qed

text \<open>Answers under which the compensation can do its work: the statements after the commit succeed, and the node made the
  workload exactly when it said so.\<close>

definition compensable :: "create_answers \<Rightarrow> bool" where
  "compensable a \<longleftrightarrow> ca_read a \<and> ca_control a \<and> ca_delete a \<and> ca_final a \<and> honest a"

lemma finish_create_cases:
  assumes c: "compensable a" and ok: "panel_ok (cl_panel st)" and fresh: "i \<notin> set (cl_work st)"
    and r: "finish_create a now i ri r st = (res, st')"
  shows "case res of
      Inl e \<Rightarrow> undone i st st'
    | Inr s \<Rightarrow> get_panel_server (cl_panel st') i = Some s \<and> sw_status s = ''created'' \<and> panel_ok (cl_panel st') \<and> same_beside i (snd (create_panel_server (ca_rx a) True True i r (cl_panel st))) (cl_panel st') \<and>
        cl_work st' = List.insert i (cl_work st)"
proof -
  obtain x p where cr: "create_panel_server (ca_rx a) (ca_store a) (ca_read a) i r (cl_panel st) = (x, p)" by fastforce
  show ?thesis
  proof (cases x)
    case (Inl e)
    have "p = cl_panel st"
      using cr Inl c by (auto simp: create_panel_server_def compensable_def Let_def split: sum.splits if_splits)
    then show ?thesis using r Inl cr by (auto simp: finish_create_def undone_def)
  next
    case (Inr s)
    obtain cre err st1 where pv: "provision_server a i (st\<lparr>cl_panel := p\<rparr>) = (cre, err, st1)" by (metis prod_cases3)
    have n: "p \<noteq> cl_panel st \<or> (\<exists>s. x = Inr s)" using Inr by simp
    note f = removal_undoes_creation [OF ok cr n]
    have pok: "panel_ok p" using create_panel_ok [OF ok, of "ca_rx a" "ca_store a" "ca_read a" i r] cr by simp
    note h = c [unfolded compensable_def]
    have facts: "same_beside i p (cl_panel st1)" "cl_work st1 = (if cre then List.insert i (cl_work st) else cl_work st)"
        "panel_ok (cl_panel st1)" "err = None \<Longrightarrow> cre"
      using provision_same_beside [OF pv] provision_work [OF pv] provision_panel_ok [OF _ pv] h pok by auto
    have f1: "get_panel_server (cl_panel st1) i \<noteq> None" using same_beside_found [OF facts(1)] f(2) by simp
    have b1: "remove_server i (cl_panel st1) = cl_panel st" "pb_orphans (cl_panel st1) = pb_orphans (cl_panel st)"
      using facts(1) f(1) by (auto simp: same_beside_def) (metis orphans_removed)
    show ?thesis
    proof (cases err)
      case (Some e)
      have "undone i st (compensate_create_failure a i cre (cancel_placement a now ri st1))"
        by (rule compensate_undoes) (use h facts f1 fresh b1 in simp_all)
      then show ?thesis using r by (auto simp: finish_create_def cr Inr pv Some)
    next
      case None
      then have cre using facts(4) by simp
      obtain y m cc where cf: "confirm_reservation (ca_confirm a) (cl_mgr st1, cap_view st1) now ri = (y, m, cc)" by (metis prod_cases3)
      show ?thesis
      proof (cases y)
        case (Inl e)
        have "undone i st (compensate_create_failure a i True (cancel_placement a now ri (st1\<lparr>cl_mgr := m, cl_cap := cc\<rparr>)))"
          by (rule compensate_undoes) (use h facts f1 fresh b1 \<open>cre\<close> in simp_all)
        then show ?thesis using r by (auto simp: finish_create_def cr pv None cf Inl \<open>x = Inr s\<close>)
      next
        case (Inr z)
        obtain w where w: "get_panel_server (cl_panel st1) i = Some w" using f1 by blast
        have "ca_final a" using h by simp
        then have "res = Inr w" "cl_panel st' = cl_panel st1" "cl_work st' = cl_work st1"
          using r w by (auto simp: finish_create_def cr pv None cf Inr \<open>x = Inr s\<close> Let_def emit_def)
        moreover have "snd (create_panel_server (ca_rx a) True True i r (cl_panel st)) = p"
          using cr \<open>x = Inr s\<close> by (auto simp: create_panel_server_def Let_def split: sum.splits if_splits)
        moreover have "sw_status w = ''created''" using provision_created w pv None by blast
        ultimately show ?thesis using w facts \<open>cre\<close> by simp
      qed
    qed
  qed
qed

text \<open>The reservation that goes with the placement is closed at the end.\<close>

definition closed_reservation :: "string \<Rightarrow> capacity_db \<Rightarrow> bool" where
  "closed_reservation ri db \<longleftrightarrow> (\<forall>x \<in> set (db_reservations db). res_id x = ri \<longrightarrow> \<not> open_status (res_status x))"

lemma update_status_closes:
  assumes "st \<notin> {''pending'', ''active''}" "st \<in> set reservation_statuses" "fault \<noteq> UpdateFault"
  shows "closed_reservation ri (snd (update_status fault db now ri st))"
  using assms by (auto simp: closed_reservation_def update_status_def Let_def open_status_def split: if_splits)

lemma cancel_closes: "ca_cancel a \<noteq> UpdateFault \<Longrightarrow> ri \<noteq> [] \<Longrightarrow> closed_reservation ri (cl_cap (cancel_placement a now ri st))"
  using update_status_closes [of "''cancelled''" "ca_cancel a" ri "cap_view st" now]
  by (auto simp: cancel_placement_def cancel_reservation_def reservation_statuses_def split: prod.splits sum.splits)

lemma compensate_cap [simp]: "cl_cap (compensate_create_failure a i created st) = cl_cap st"
  by (simp add: compensate_create_failure_def Let_def split: option.splits)

lemma finish_create_closes:
  assumes "ca_cancel a \<noteq> UpdateFault" "ri \<noteq> []" "finish_create a now i ri r st = (res, st')"
  shows "closed_reservation ri (cl_cap st')"
proof -
  obtain x p where cr: "create_panel_server (ca_rx a) (ca_store a) (ca_read a) i r (cl_panel st) = (x, p)" by fastforce
  obtain cre err st1 where pv: "provision_server a i (st\<lparr>cl_panel := p\<rparr>) = (cre, err, st1)" by (metis prod_cases3)
  obtain y m cc where cf: "confirm_reservation (ca_confirm a) (cl_mgr st1, cap_view st1) now ri = (y, m, cc)" by (metis prod_cases3)
  have conf: "closed_reservation ri cc" if "y = Inr z" for z
    using cf that update_status_closes [of "''completed''" "ca_confirm a" ri "cap_view st1" now]
    by (cases "ca_confirm a = UpdateFault")
      (auto simp: confirm_reservation_def update_status_def reservation_statuses_def split: prod.splits sum.splits)
  show ?thesis
    using assms(3) cancel_closes [OF assms(1,2)] conf
    by (cases x; cases err; cases y)
      (auto simp: finish_create_def cr pv cf Let_def emit_def split: option.splits if_splits)
qed

text \<open>The creation up to the reservation.\<close>

lemma manager_create_refused:
  assumes "manager_create lower fault (m0, db) clk now ri rq = (Inl e, m, c)" "\<not> fault StReload"
  shows "c = db"
proof -
  obtain x where x: "create_reservation fault db clk now ri rq = (x, c)" "x = Inl e"
    using assms(1) by (auto simp: manager_create_def split: prod.splits sum.splits)
  show ?thesis by (rule create_cases [OF x(1)]) (use x(2) assms(2) in \<open>auto simp: stage_def guard_def\<close>)
qed

lemma create_server_stages:
  assumes "cm_create_server a clk now i ri r q st = (res, st')" "\<not> ca_reserve a StReload"
  obtains (refused) e where "res = Inl e" "cl_panel st' = cl_panel st" "cl_work st' = cl_work st"
      "db_reservations (cl_cap st') = db_reservations (cl_cap st)"
  | (placed) d :: placement_decision and port x m c where "manager_create (ca_lower a) (ca_reserve a) (cl_mgr st, cap_view st) clk now ri
        (placement_reservation clk r (fill_placement r q) (pd_node d)) = (Inr x, m, c)"
      "finish_create a now i ri (r\<lparr>sq_node := pd_node d, sq_port := port\<rparr>) (emit ''placement.created'' (pd_node d) (st\<lparr>cl_mgr := m, cl_cap := c\<rparr>)) = (res, st')"
proof (cases "trim_space (sq_name r) = [] \<or> trim_space (sq_egg r) = [] \<or> trim_space (sq_owner r) = []")
  case True
  then have "(\<exists>e. res = Inl e) \<and> st' = st" using assms(1) by (auto simp: cm_create_server_def split: if_splits)
  then show ?thesis using refused by blast
next
  case False
  show ?thesis
  proof (cases "ca_place a (fill_placement r q)")
    case (Inl e)
    then show ?thesis using assms(1) False by (intro refused) (auto simp: cm_create_server_def)
  next
    case (Inr d)
    let ?port = "chosen_port a d (cl_panel st)"
    obtain x m c where mc: "manager_create (ca_lower a) (ca_reserve a) (cl_mgr st, cap_view st) clk now ri
        (placement_reservation clk r (fill_placement r q) (pd_node d)) = (x, m, c)" by (metis prod_cases3)
    have step: "(res, st') = (case ?port of None \<Rightarrow> (Inl CmNoPort, st)
        | Some port \<Rightarrow> (case x of Inl e \<Rightarrow> (Inl (CmReserve e), st\<lparr>cl_mgr := m, cl_cap := c\<rparr>)
            | Inr _ \<Rightarrow> finish_create a now i ri (r\<lparr>sq_node := pd_node d, sq_port := port\<rparr>)
                (emit ''placement.created'' (pd_node d) (st\<lparr>cl_mgr := m, cl_cap := c\<rparr>))))"
      using assms(1) False by (cases x) (auto simp: cm_create_server_def Let_def Inr mc split: option.splits)
    show ?thesis
    proof (cases ?port)
      case None
      then show ?thesis using step by (intro refused) auto
    next
      case (Some port)
      show ?thesis
      proof (cases x)
        case (Inl e)
        have "c = cap_view st" using manager_create_refused mc assms(2) unfolding Inl by blast
        then show ?thesis using step Some Inl by (intro refused) (auto simp: cap_view_def)
      next
        case (Inr y)
        then show ?thesis using step Some mc by (intro placed [of d y m c port]) auto
      qed
    qed
  qed
qed


definition sample_cluster :: cluster where
  "sample_cluster = \<lparr>cl_panel = sample_panel, cl_mgr = \<lparr>mg_created = 0, mg_conflicts = 0, mg_expirations = 0, mg_events = []\<rparr>,
     cl_cap = \<lparr>db_nodes = [\<lparr>nr_id = ''n1'', nr_region = None, nr_cpu_threads = Some 4, nr_node_memory = Some 512, nr_memory = None,
         nr_node_disk = Some 1000, nr_disk = None\<rparr>], db_servers = [], db_migrations = [], db_reservations = []\<rparr>,
     cl_work = [], cl_sent = [], cl_events = []\<rparr>"

definition sample_answers :: "runtime_answer \<Rightarrow> bool \<Rightarrow> create_answers" where
  "sample_answers rt made = \<lparr>ca_place = \<lambda>q. Inr \<lparr>pd_region = [], pd_node = ''n1'', pd_allocation = ''a1'', pd_manual = False, pd_score = NaN, pd_reasons = []\<rparr>,
     ca_lower = id, ca_rx = \<lambda>_. None, ca_find = True, ca_reserve = \<lambda>_. False, ca_store = True, ca_read = True, ca_target = True, ca_sync = True,
     ca_mark = True, ca_runtime = rt, ca_made = made, ca_prov = True, ca_prov_logged = False, ca_confirm = NoFault, ca_cancel = NoFault,
     ca_control = True, ca_rt_delete = False, ca_delete = True, ca_final = True\<rparr>"

definition sample_placement :: placement_request where
  "sample_placement = \<lparr>pr_server = [], pr_region_id = [], pr_region = [], pr_preferred = [], pr_required = [], pr_node = [], pr_allocation = [],
     pr_memory = 0, pr_cpu_shares = 0, pr_cpu = 0, pr_disk = 0\<rparr>"

definition sample_run :: "runtime_answer \<Rightarrow> bool \<Rightarrow> (cluster_error + panel_server) \<times> cluster" where
  "sample_run rt made = cm_create_server (sample_answers rt made) 1000 1000 ''s1'' ''r1'' panel_request sample_placement sample_cluster"

lemma sample_run_failed: "fst (sample_run RtAccepted True) = Inl (CmStore SrvDb)" "fst (sample_run RtError True) = Inl CmRuntime"
  by (code_simp, code_simp)


text \<open>When the answer of the node is lost, the workload it made stays, and nothing records it.\<close>

theorem lost_answer_leaks_workload:
  "fst (sample_run RtError True) = Inl CmRuntime \<and> cl_work (snd (sample_run RtError True)) = [''s1''] \<and>
     pb_servers (cl_panel (snd (sample_run RtError True))) = [] \<and> pb_orphans (cl_panel (snd (sample_run RtError True))) = []"
  by code_simp

section \<open>The new server fits its node\<close>

text \<open>What a creation that succeeds has done after the reservation.\<close>

lemma finish_success:
  assumes "finish_create a now i ri r st = (Inr s, st')"
  obtains p where "create_panel_server (ca_rx a) (ca_store a) (ca_read a) i r (cl_panel st) = (Inr (new_server (cl_panel st) i r), p)"
    "same_beside i p (cl_panel st')" "get_panel_server (cl_panel st') i = Some s"
    "db_reservations (cl_cap st') = map (\<lambda>x. if res_id x = ri \<and> open_status (res_status x) then set_status_row now ''completed'' x else x) (db_reservations (cl_cap st))"
    "db_nodes (cl_cap st') = db_nodes (cl_cap st)" "panel_ok (cl_panel st) \<longrightarrow> panel_ok (cl_panel st')"
proof -
  obtain x p where cr: "create_panel_server (ca_rx a) (ca_store a) (ca_read a) i r (cl_panel st) = (x, p)" by fastforce
  obtain s0 where x: "x = Inr s0" using assms cr by (cases x) (auto simp: finish_create_def)
  then have s0: "s0 = new_server (cl_panel st) i r" using cr by (auto simp: create_panel_server_def Let_def split: sum.splits if_splits)
  obtain cre err st1 where pv: "provision_server a i (st\<lparr>cl_panel := p\<rparr>) = (cre, err, st1)" by (metis prod_cases3)
  have err: "err = None" using assms by (cases err) (auto simp: finish_create_def cr x pv)
  obtain y m cc where cf: "confirm_reservation (ca_confirm a) (cl_mgr st1, cap_view st1) now ri = (y, m, cc)" by (metis prod_cases3)
  obtain z where y: "y = Inr z" using assms by (cases y) (auto simp: finish_create_def cr x pv err cf)
  have st': "cl_panel st' = cl_panel st1" "cl_cap st' = cc" "get_panel_server (cl_panel st1) i = Some s"
    using assms by (auto simp: finish_create_def cr x pv err cf y Let_def emit_def split: option.splits if_splits)
  have u: "update_status (ca_confirm a) (cap_view st1) now ri ''completed'' = (Inr z, cc)"
    using cf y by (auto simp: confirm_reservation_def split: prod.splits sum.splits)
  note keeps = provision_same_beside [OF pv]
  have res: "db_reservations cc = map (\<lambda>x. if res_id x = ri \<and> open_status (res_status x) then set_status_row now ''completed'' x else x) (db_reservations (cl_cap st))"
      "db_nodes cc = db_nodes (cl_cap st)"
    using u keeps(3) by (auto simp: update_status_def Let_def cap_view_def split: if_splits)
  have "panel_ok (cl_panel st')" if "panel_ok (cl_panel st)"
    using provision_panel_ok [OF _ pv] create_panel_ok [OF that, of "ca_rx a" "ca_store a" "ca_read a" i r] cr st'(1) by simp
  then show ?thesis using that [of p] cr x s0 keeps(1) st' res by simp
qed

lemma sum_by_split: "sum_by f (filter P xs) = sum_by f (filter P (filter Q xs)) + sum_by f (filter P (filter (\<lambda>x. \<not> Q x) xs))"
  by (induction xs) auto

lemma filter_only:
  assumes "distinct (map k xs)" "s \<in> set xs" "k s = i"
  shows "filter (\<lambda>x. k x = i) xs = [s]"
  using assms
proof (induction xs)
  case (Cons x xs)
  show ?case
  proof (cases "k x = i")
    case True
    then have "x = s" using Cons.prems by (auto simp: image_iff)
    moreover have "filter (\<lambda>y. k y = i) xs = []" using Cons.prems True by (auto simp: filter_empty_conv image_iff)
    ultimately show ?thesis using True by simp
  next
    case False
    then show ?thesis using Cons by auto
  qed
qed simp

text \<open>The servers of a node count as before, with the new row.\<close>

lemma node_servers_created:
  assumes ok: "panel_ok (cl_panel st')" and rest: "filter (\<lambda>x. sw_id x \<noteq> i) (pb_servers (cl_panel st')) = pb_servers (cl_panel st)"
    and s: "get_panel_server (cl_panel st') i = Some s"
  shows "sum_by f (node_servers (cap_view st') n) = sum_by f (node_servers (cap_view st) n) +
    (if sw_node s = n \<and> sw_status s \<noteq> ''deleted'' then f (cap_row s) else 0)"
proof -
  let ?P = "\<lambda>x. sw_node x = n \<and> sw_status x \<noteq> ''deleted''" and ?xs = "pb_servers (cl_panel st')"
  have rows: "sum_by f (node_servers (cap_view t) n) = sum_by (\<lambda>x. f (cap_row x)) (filter ?P (pb_servers (cl_panel t)))" for t
    by (simp add: node_servers_def cap_view_def filter_map o_def sum_by_def cap_row_def)
  have "s \<in> set ?xs" "sw_id s = i" using get_panel_server_Some [OF s] by auto
  then have one: "filter (\<lambda>x. sw_id x = i) ?xs = [s]" using filter_only panel_okD(1) [OF ok] by metis
  have "sum_by (\<lambda>x. f (cap_row x)) (filter ?P ?xs) =
      sum_by (\<lambda>x. f (cap_row x)) (filter ?P (filter (\<lambda>x. sw_id x = i) ?xs)) + sum_by (\<lambda>x. f (cap_row x)) (filter ?P (filter (\<lambda>x. sw_id x \<noteq> i) ?xs))"
    by (rule sum_by_split)
  then show ?thesis unfolding rows one rest by simp
qed

text \<open>A row that is completed no longer counts; the others count as before.\<close>

lemma node_live_completed:
  assumes "db_reservations db' = map (\<lambda>x. if res_id x = ri \<and> open_status (res_status x) then set_status_row now ''completed'' x else x) (rs @ [new])"
    "\<And>x. x \<in> set rs \<Longrightarrow> res_id x \<noteq> ri" "res_id new = ri" "db_reservations db = rs"
  shows "node_live db' now n = node_live db now n"
proof -
  have "map (\<lambda>x. if res_id x = ri \<and> open_status (res_status x) then set_status_row now ''completed'' x else x) rs = rs"
    using assms(2) by (intro map_idI) simp
  moreover have "\<not> reservation_live now (if open_status (res_status new) then set_status_row now ''completed'' new else new)"
    by (simp add: reservation_live_def open_status_def)
  ultimately show ?thesis using assms(1,3,4) by (simp add: node_live_def)
qed

lemma create_server_success:
  assumes "cm_create_server a clk now i ri r q st = (Inr s, st')"
  obtains d :: placement_decision and port x m c where
    "create_reservation (ca_reserve a) (cap_view st) clk now ri (placement_reservation clk r (fill_placement r q) (pd_node d)) = (Inr x, c)"
    "finish_create a now i ri (r\<lparr>sq_node := pd_node d, sq_port := port\<rparr>) (emit ''placement.created'' (pd_node d) (st\<lparr>cl_mgr := m, cl_cap := c\<rparr>)) = (Inr s, st')"
  using assms
  by (auto simp: cm_create_server_def Let_def manager_create_def split: if_splits sum.splits option.splits prod.splits)

lemma first_non_zero_same: "x \<in> {0, y} \<Longrightarrow> first_non_zero (x # y # ys) = (if y = 0 then first_non_zero ys else y)"
  by auto

lemma placement_amounts:
  assumes "pr_memory q \<in> {0, sq_memory r}" "pr_disk q \<in> {0, sq_disk r}" "pr_cpu q \<in> {0, sq_cpu r}" "pr_cpu_shares q \<in> {0, sq_cpu r}"
  shows "rq_memory (placement_reservation clk r (fill_placement r q) n) = sq_memory r" "rq_disk (placement_reservation clk r (fill_placement r q) n) = sq_disk r"
    "rq_cpu (placement_reservation clk r (fill_placement r q) n) = sq_cpu r" "rq_node (placement_reservation clk r (fill_placement r q) n) = n"
  using assms by (auto simp: placement_reservation_def fill_placement_def)

lemma created_row:
  assumes ok: "panel_ok db" and cr: "create_panel_server rx ok' read i r db = (Inr x, p)" and sb: "same_beside i p p'" and s: "get_panel_server p' i = Some s"
  shows "row_key s = row_key (new_server db i r)" "filter (\<lambda>x. sw_id x \<noteq> i) (pb_servers p') = pb_servers db" "limits_valid db r"
proof -
  have n: "p \<noteq> db \<or> (\<exists>s. Inr x = Inr s)" by simp
  obtain ports vs where f: "create_server_checks db r = Inr ports" "get_panel_server db i = None"
    "p = db\<lparr>pb_servers := pb_servers db @ [new_server db i r], pb_ports := claim_ports i ports (pb_ports db), pb_vars := vs\<rparr>"
    "\<forall>x \<in> set vs. x \<in> set (pb_vars db) \<or> fst x = i" "filter (\<lambda>x. fst x \<noteq> i) vs = filter (\<lambda>x. fst x \<noteq> i) (pb_vars db)"
    by (rule create_panel_cases [OF cr n])
  show "limits_valid db r" by (rule create_checks_facts(1) [OF f(1)])
  have "remove_server i p' = db" using removal_undoes_creation(1) [OF ok cr n] sb by (simp add: same_beside_def)
  then show "filter (\<lambda>x. sw_id x \<noteq> i) (pb_servers p') = pb_servers db" by (auto simp: remove_server_def)
  have "row_key s \<in> set (map row_key (pb_servers p'))" using get_panel_server_Some [OF s] by simp
  moreover have "map row_key (pb_servers p') = map row_key (pb_servers db @ [new_server db i r])" using sb f(3) by (simp add: same_beside_def)
  ultimately have "row_key s \<in> set (map row_key (pb_servers db @ [new_server db i r]))" by metis
  then show "row_key s = row_key (new_server db i r)"
    using get_panel_server_Some [OF s] f(2) by (auto simp: row_key_def get_panel_server_None)
qed

text \<open>The state after a creation that succeeded, compared with the one the reservation was checked against.\<close>

lemma created_state:
  assumes ok: "panel_ok (cl_panel st)" and cr: "cm_create_server a clk now i ri r q st = (Inr s, st')"
  obtains n where
    "create_checks (ca_reserve a) (expire_stale now (cap_view st)) now (default_request clk (placement_reservation clk r (fill_placement r q) n)) = Inr ()"
    "row_key s = (i, n, sq_cpu r, request_memory (cl_panel st) r, sq_disk r)" "limits_valid (cl_panel st) r"
    "\<forall>k. node_live (cap_view st') now k = node_live (expire_stale now (cap_view st)) now k"
    "\<forall>k. find_node (cap_view st') k = find_node (expire_stale now (cap_view st)) k"
    "filter (\<lambda>x. sw_id x \<noteq> i) (pb_servers (cl_panel st')) = pb_servers (cl_panel st)" "get_panel_server (cl_panel st') i = Some s"
    "panel_ok (cl_panel st')"
proof -
  obtain d :: placement_decision and port x m c where res: "create_reservation (ca_reserve a) (cap_view st) clk now ri (placement_reservation clk r (fill_placement r q) (pd_node d)) = (Inr x, c)"
    and fin: "finish_create a now i ri (r\<lparr>sq_node := pd_node d, sq_port := port\<rparr>) (emit ''placement.created'' (pd_node d) (st\<lparr>cl_mgr := m, cl_cap := c\<rparr>)) = (Inr s, st')"
    by (rule create_server_success [OF cr])
  let ?rq = "default_request clk (placement_reservation clk r (fill_placement r q) (pd_node d))" and ?db = "expire_stale now (cap_view st)"
  let ?r = "r\<lparr>sq_node := pd_node d, sq_port := port\<rparr>" and ?st = "emit ''placement.created'' (pd_node d) (st\<lparr>cl_mgr := m, cl_cap := c\<rparr>)"
  have chk: "create_checks (ca_reserve a) ?db now ?rq = Inr ()" and new: "c = ?db\<lparr>db_reservations := db_reservations ?db @ [new_reservation now ri ?rq]\<rparr>"
    and fresh: "ri \<notin> set (map res_id (db_reservations (cap_view st)))"
    by (rule create_cases [OF res]; simp)+
  obtain p where p: "create_panel_server (ca_rx a) (ca_store a) (ca_read a) i ?r (cl_panel ?st) = (Inr (new_server (cl_panel ?st) i ?r), p)"
    "same_beside i p (cl_panel st')" "get_panel_server (cl_panel st') i = Some s"
    "db_reservations (cl_cap st') = map (\<lambda>x. if res_id x = ri \<and> open_status (res_status x) then set_status_row now ''completed'' x else x) (db_reservations (cl_cap ?st))"
    "db_nodes (cl_cap st') = db_nodes (cl_cap ?st)" "panel_ok (cl_panel ?st) \<longrightarrow> panel_ok (cl_panel st')"
    by (rule finish_success [OF fin])
  have e: "cl_panel ?st = cl_panel st" "cl_cap ?st = c" by (simp_all add: emit_def)
  note row = created_row [OF ok p(1) [unfolded e] p(2,3)]
  have cres: "db_reservations c = db_reservations ?db @ [new_reservation now ri ?rq]" unfolding new by simp
  have rv: "db_reservations (cap_view st') = map (\<lambda>x. if res_id x = ri \<and> open_status (res_status x) then set_status_row now ''completed'' x else x)
      (db_reservations ?db @ [new_reservation now ri ?rq])"
    using p(4) unfolding e cres by (simp add: cap_view_def)
  have old: "res_id x \<noteq> ri" if "x \<in> set (db_reservations ?db)" for x using fresh that by (auto simp: expire_stale_def)
  have live: "node_live (cap_view st') now n = node_live ?db now n" for n
    by (rule node_live_completed [OF rv]) (use old in auto)
  have "find_node (cap_view st') k = find_node ?db k" for k
    using p(5) unfolding e by (simp add: find_node_def cap_view_def new expire_stale_def)
  then show ?thesis
    using that [of "pd_node d"] chk row live p(3,6) ok unfolding e by (simp add: row_key_def request_memory_def limits_valid_def)
qed

text \<open>C31: A server that was created fits its node: when the request states the amounts of the server, with no other amounts
  for the placement, then after the creation CPU, memory and disk of all servers and live reservations of the node are
  within its totals. The reservation is given back only when the row counts.\<close>

theorem created_server_fits:
  assumes ok: "panel_ok (cl_panel st)" and cr: "cm_create_server a clk now i ri r q st = (Inr s, st')" and pos: "0 < sq_memory r"
    and same: "pr_memory q \<in> {0, sq_memory r}" "pr_disk q \<in> {0, sq_disk r}" "pr_cpu q \<in> {0, sq_cpu r}" "pr_cpu_shares q \<in> {0, sq_cpu r}"
  shows "\<exists>row. find_node (cap_view st') (sw_node s) = Some row \<and>
    committed srv_cpu res_cpu (cap_view st') now (sw_node s) \<le> node_total_cpu row \<and>
    committed srv_memory res_memory (cap_view st') now (sw_node s) \<le> node_total_memory row \<and>
    committed srv_disk res_disk (cap_view st') now (sw_node s) \<le> node_total_disk row"
proof (rule created_state [OF ok cr])
  fix n
  let ?rq = "default_request clk (placement_reservation clk r (fill_placement r q) n)" and ?db = "expire_stale now (cap_view st)"
  assume chk: "create_checks (ca_reserve a) ?db now ?rq = Inr ()" and key: "row_key s = (i, n, sq_cpu r, request_memory (cl_panel st) r, sq_disk r)"
    and lim: "limits_valid (cl_panel st) r" and live: "\<forall>k. node_live (cap_view st') now k = node_live ?db now k"
    and node: "\<forall>k. find_node (cap_view st') k = find_node ?db k"
    and rest: "filter (\<lambda>x. sw_id x \<noteq> i) (pb_servers (cl_panel st')) = pb_servers (cl_panel st)" "get_panel_server (cl_panel st') i = Some s"
      "panel_ok (cl_panel st')"
  have after: "committed fs fr (cap_view st') now n \<le> committed fs fr ?db now n + fs (cap_row s)" if "0 \<le> fs (cap_row s)" for fs fr
    using node_servers_created [OF rest(3,1,2), of fs n] that live by (simp add: committed_def)
  have cap: "sw_node s = n" "srv_cpu (cap_row s) = sq_cpu r" "srv_memory (cap_row s) = sq_memory r" "srv_disk (cap_row s) = sq_disk r"
    using key pos by (simp_all add: row_key_def cap_row_def request_memory_def)
  have amounts: "rq_node ?rq = n" "rq_cpu ?rq = sq_cpu r" "rq_memory ?rq = sq_memory r" "rq_disk ?rq = sq_disk r"
    using placement_amounts [OF same] by simp_all
  have l: "0 < sq_cpu r" "0 < sq_disk r" using lim by (simp_all add: limits_valid_def)
  obtain row where n: "find_node ?db n = Some row" "committed srv_cpu res_cpu ?db now n + sq_cpu r \<le> node_total_cpu row"
      "committed srv_memory res_memory ?db now n + sq_memory r \<le> node_total_memory row" "committed srv_disk res_disk ?db now n + sq_disk r \<le> node_total_disk row"
    using create_checks_room [OF chk] l pos unfolding has_room_def amounts by (auto split: option.splits)
  then show ?thesis
    using after [of srv_cpu res_cpu] after [of srv_memory res_memory] after [of srv_disk res_disk] node l pos by (simp add: cap)
qed

definition sample_success :: "int \<Rightarrow> (cluster_error + panel_server) \<times> cluster" where
  "sample_success mem = cm_create_server ((sample_answers RtAccepted True)\<lparr>ca_prov_logged := True\<rparr>) 1000 1000 ''s1'' ''r1'' (panel_request\<lparr>sq_memory := mem\<rparr>)
     sample_placement sample_cluster"

lemma sample_success_row: "map_sum id sw_node (fst (sample_success 256)) = Inr ''n1''" "map_sum id sw_memory (fst (sample_success 0)) = Inr 1024"
  by (code_simp, code_simp)

text \<open>Witness of C31: a server of 256 MB on a node of 512 MB.\<close>

theorem created_server_fits_witness:
  "\<exists>s row. fst (sample_success 256) = Inr s \<and> find_node (cap_view (snd (sample_success 256))) (sw_node s) = Some row \<and>
     committed srv_memory res_memory (cap_view (snd (sample_success 256))) 1000 (sw_node s) \<le> node_total_memory row"
proof -
  obtain s where s: "fst (sample_success 256) = Inr s" using sample_success_row(1) by (cases "fst (sample_success 256)") auto
  have "cm_create_server ((sample_answers RtAccepted True)\<lparr>ca_prov_logged := True\<rparr>) 1000 1000 ''s1'' ''r1'' (panel_request\<lparr>sq_memory := 256\<rparr>)
     sample_placement sample_cluster = (Inr s, snd (sample_success 256))" using s by (metis prod.collapse sample_success_def)
  then show ?thesis
    using s created_server_fits [of sample_cluster "(sample_answers RtAccepted True)\<lparr>ca_prov_logged := True\<rparr>" 1000 1000 "''s1''" "''r1''"
        "panel_request\<lparr>sq_memory := 256\<rparr>" sample_placement s "snd (sample_success 256)"] sample_panel_ok
    by (auto simp: sample_placement_def sample_cluster_def)
qed

text \<open>A request that leaves the memory to the egg reserves none: the node of 512 MB gets a server of 1024 MB.\<close>

theorem default_memory_overcommits:
  "committed srv_memory res_memory (cap_view (snd (sample_success 0))) 1000 ''n1'' = 1024 \<and>
     map_option node_total_memory (find_node (cap_view (snd (sample_success 0))) ''n1'') = Some 512"
  by code_simp

end
