(* ===== verification/Reconciler.thy ===== *)
theory Reconciler
  imports Cluster_Manager
begin

text \<open>
  The reconciler (\<^verbatim>\<open>services/reconciler/service.go\<close>): one pass over nodes and servers that compares desired with actual
  states and sends power signals through the cluster manager. Counters and payloads of events are left out.
\<close>

section \<open>Operations\<close>

definition reconcile_server :: "power_answers \<Rightarrow> panel_server \<Rightarrow> cluster \<Rightarrow> (cluster_error + unit) \<times> cluster" where
  "reconcile_server a s st =
     (case refresh_actual_state a (sw_id s) (emit ''desired_state.changed'' (sw_id s) st) of
        (Inl e, st1) \<Rightarrow> (Inl e, st1)
      | (Inr actual, st1) \<Rightarrow>
          let st2 = emit ''actual_state.changed'' (sw_id s) st1 in
          if sw_desired s = ''running'' \<and> actual = ''stopped'' then send_power a (sw_id s) ''start'' st2
          else if sw_desired s = ''stopped'' \<and> actual = ''running'' then send_power a (sw_id s) ''stop'' st2
          else if sw_desired s = ''running'' \<and> actual = ''crashed'' then send_power a (sw_id s) ''restart'' st2
          else (Inr (), st2))"

fun refresh_servers :: "(string \<Rightarrow> power_answers) \<Rightarrow> panel_server list \<Rightarrow> cluster \<Rightarrow> cluster" where
  "refresh_servers ans [] st = st"
| "refresh_servers ans (s # ss) st = refresh_servers ans ss (snd (reconcile_server (ans (sw_id s)) s st))"

text \<open>Nodes with their desired states; \<open>snap\<close> says whether the capacity of a node can be read.\<close>

fun refresh_nodes :: "(string \<Rightarrow> bool) \<Rightarrow> (string \<times> string) list \<Rightarrow> cluster \<Rightarrow> cluster" where
  "refresh_nodes snap [] st = st"
| "refresh_nodes snap ((n, d) # ns) st =
     refresh_nodes snap ns (if snap n \<and> (d = ''maintenance'' \<or> d = ''draining'') then emit ''desired_state.changed'' n st else st)"

text \<open>The servers are read newest first.\<close>

definition run_once :: "(string \<Rightarrow> bool) \<Rightarrow> (string \<times> string) list option \<Rightarrow> bool \<Rightarrow> (string \<Rightarrow> power_answers) \<Rightarrow> cluster \<Rightarrow> bool \<times> cluster" where
  "run_once snap nodes ok ans st =
     (case nodes of
        None \<Rightarrow> (False, st)
      | Some ns \<Rightarrow>
          let st1 = refresh_nodes snap ns st in
          if \<not> ok then (False, st1) else (True, refresh_servers ans (rev (pb_servers (cl_panel st1))) st1))"

text \<open>The handler that suspends a server or lifts the suspension: the stop is tried, and its answers are dropped.\<close>

record suspension_answers =
  sa_control :: bool
  sa_status :: bool
  sa_status_logged :: bool
  sa_suspend :: bool
  sa_suspend_logged :: bool

definition suspension_request :: "suspension_answers \<Rightarrow> bool \<Rightarrow> string \<Rightarrow> cluster \<Rightarrow> (cluster_error + unit) \<times> cluster" where
  "suspension_request a suspend i st =
     (let st1 = (if suspend \<and> server_control_target (sa_control a) i (cl_panel st) \<noteq> None
                 then st\<lparr>cl_sent := cl_sent st @ [(i, ''stop'')],
                         cl_panel := snd (set_server_power_state (sa_status a) (sa_status_logged a) i ''stop'' (cl_panel st))\<rparr> else st) in
      case set_server_suspended (sa_suspend a) (sa_suspend_logged a) i suspend (cl_panel st1) of
        (Inl e, p) \<Rightarrow> (Inl (CmStore e), st1\<lparr>cl_panel := p\<rparr>)
      | (Inr _, p) \<Rightarrow> (Inr (), st1\<lparr>cl_panel := p\<rparr>))"

section \<open>What a pass does to a server\<close>

definition put_actual :: "string \<Rightarrow> panel_server \<Rightarrow> panel_server" where
  "put_actual a s = s\<lparr>sw_actual := a, sw_status := server_status_from_actual a\<rparr>"

text \<open>The specification: from the desired and the recorded state and whether statistics can be read.\<close>

definition settle :: "bool \<Rightarrow> panel_server \<Rightarrow> panel_server" where
  "settle stats s =
     (if sw_desired s = ''running''
      then (if stats \<or> sw_actual s = ''stopped'' \<or> sw_actual s = ''crashed'' then put_actual ''running'' s
            else if sw_actual s = ''running'' then put_actual ''unknown'' s else s)
      else if sw_actual s = ''running'' then put_actual (if stats then ''stopped'' else ''unknown'') s else s)"

text \<open>The signals a pass sends.\<close>

definition signals :: "bool \<Rightarrow> panel_server \<Rightarrow> (string \<times> string) list" where
  "signals stats s =
     (if sw_desired s = ''running'' \<and> \<not> stats \<and> sw_actual s = ''stopped'' then [(sw_id s, ''start'')]
      else if sw_desired s = ''running'' \<and> \<not> stats \<and> sw_actual s = ''crashed'' then [(sw_id s, ''restart'')]
      else if sw_desired s = ''stopped'' \<and> stats \<and> sw_actual s = ''running'' then [(sw_id s, ''stop'')]
      else [])"

definition power_good :: "power_answers \<Rightarrow> bool" where
  "power_good a \<longleftrightarrow> pa_get a \<and> pa_control a \<and> pa_runtime a \<and> pa_actual a \<and> pa_actual_logged a \<and> pa_refresh a \<and> pa_refresh_logged a"

lemma set_actual_good:
  assumes "get_panel_server p i = Some s" "server_actual_value a"
  obtains p' where "set_server_actual_state True True i a reason p = (Inr (), p')"
    "pb_servers p' = map (\<lambda>x. if sw_id x = i then put_actual a x else x) (pb_servers p)" "pb_nodes p' = pb_nodes p"
proof
  let ?r = "set_server_actual_state True True i a reason p"
  show "?r = (Inr (), snd ?r)" "pb_servers (snd ?r) = map (\<lambda>x. if sw_id x = i then put_actual a x else x) (pb_servers p)"
      "pb_nodes (snd ?r) = pb_nodes p"
    using assms by (simp_all add: set_server_actual_state_def Let_def record_server_move_def map_server_def put_actual_def)
qed

lemma put_actual_fields [simp]:
  "sw_id (put_actual a s) = sw_id s" "sw_desired (put_actual a s) = sw_desired s" "sw_node (put_actual a s) = sw_node s"
  "sw_actual (put_actual a s) = a" "put_actual a (put_actual b s) = put_actual a s"
  by (simp_all add: put_actual_def)

lemma settle_fields [simp]: "sw_id (settle b s) = sw_id s" "sw_desired (settle b s) = sw_desired s" "sw_node (settle b s) = sw_node s"
  by (simp_all add: settle_def)

text \<open>The row and the log after an update of the actual state.\<close>

definition acted :: "string \<Rightarrow> (panel_server \<Rightarrow> panel_server) \<Rightarrow> (string \<times> string) list \<Rightarrow> cluster \<Rightarrow> cluster \<Rightarrow> bool" where
  "acted i f sent st st' \<longleftrightarrow> pb_servers (cl_panel st') = map (\<lambda>x. if sw_id x = i then f x else x) (pb_servers (cl_panel st)) \<and>
     pb_nodes (cl_panel st') = pb_nodes (cl_panel st) \<and> cl_sent st' = cl_sent st @ sent"

lemma emit_keeps [simp]: "cl_panel (emit e i st) = cl_panel st" "cl_sent (emit e i st) = cl_sent st" "cl_work (emit e i st) = cl_work st"
  by (simp_all add: emit_def)

lemma power_events_keeps [simp]:
  "cl_panel (power_events g i st) = cl_panel st" "cl_sent (power_events g i st) = cl_sent st"
  by (simp_all add: power_events_def Let_def)

lemma refresh_panel_ok: "panel_ok (cl_panel st) \<Longrightarrow> panel_ok (cl_panel (snd (refresh_actual_state a i st)))"
  by (simp add: refresh_actual_state_def Let_def case_prod_beta panel_ok_actual split: option.split sum.split)

lemma send_panel_ok: "panel_ok (cl_panel st) \<Longrightarrow> panel_ok (cl_panel (snd (send_power a i g st)))"
  by (simp add: send_power_def Let_def case_prod_beta panel_ok_actual split: option.split sum.split)

lemma reconcile_panel_ok: "panel_ok (cl_panel st) \<Longrightarrow> panel_ok (cl_panel (snd (reconcile_server a s st)))"
  by (simp add: reconcile_server_def Let_def case_prod_beta refresh_panel_ok send_panel_ok split: sum.split)

text \<open>The state the refresh answers, and what it writes.\<close>

definition refreshed :: "bool \<Rightarrow> panel_server \<Rightarrow> string" where
  "refreshed stats s =
     (if sw_desired s \<noteq> ''running'' \<and> sw_actual s \<noteq> ''running'' then sw_actual s
      else if stats then ''running'' else if sw_actual s = ''running'' then ''unknown'' else sw_actual s)"

definition refresh_row :: "bool \<Rightarrow> panel_server \<Rightarrow> panel_server" where
  "refresh_row stats s =
     (if (sw_desired s = ''running'' \<or> sw_actual s = ''running'') \<and> (stats \<or> sw_actual s = ''running'') then put_actual (refreshed stats s) s else s)"

lemma acted_id: "acted i (\<lambda>x. x) [] st st"
  by (simp add: acted_def)

lemma only_row:
  assumes "panel_ok p" "get_panel_server p i = Some s" "x \<in> set (pb_servers p)" "sw_id x = i"
  shows "x = s"
  using assms panel_okD(1) [OF assms(1)] get_panel_server_Some [OF assms(2)] by (metis distinct_map inj_onD)

lemma acted_row:
  assumes "panel_ok (cl_panel st)" "get_panel_server (cl_panel st) i = Some s" "acted i f l st st'" "f s = g s"
  shows "acted i g l st st'"
proof -
  have "map (\<lambda>x. if sw_id x = i then f x else x) (pb_servers (cl_panel st)) = map (\<lambda>x. if sw_id x = i then g x else x) (pb_servers (cl_panel st))"
    using only_row [OF assms(1,2)] assms(4) by (intro map_cong) auto
  then show ?thesis using assms(3) by (simp add: acted_def)
qed

lemma refresh_good:
  assumes g: "power_good a" and ok: "panel_ok (cl_panel st)" and s: "get_panel_server (cl_panel st) i = Some s"
  shows "fst (refresh_actual_state a i st) = Inr (refreshed (pa_stats a) s)"
    "acted i (refresh_row (pa_stats a)) [] st (snd (refresh_actual_state a i st))"
proof -
  obtain url where url: "server_control_target True i (cl_panel st) = Some url"
    using control_target_found [OF ok] s by fastforce
  let ?x = "if pa_stats a then ''running'' else ''unknown''"
  let ?why = "if pa_stats a then ''runtime stats refresh'' else ''runtime stats refresh failed''"
  have "server_actual_value ?x" by (simp add: server_actual_value_def)
  then obtain p where p: "set_server_actual_state True True i ?x ?why (cl_panel st) = (Inr (), p)"
      "pb_servers p = map (\<lambda>x. if sw_id x = i then put_actual ?x x else x) (pb_servers (cl_panel st))" "pb_nodes p = pb_nodes (cl_panel st)"
    by (rule set_actual_good [OF s])
  have good: "pa_get a" "pa_control a" "pa_refresh a" "pa_refresh_logged a" using g by (simp_all add: power_good_def)
  show "fst (refresh_actual_state a i st) = Inr (refreshed (pa_stats a) s)"
    using p(1) by (cases "pa_stats a") (simp_all add: good refresh_actual_state_def s url refreshed_def Let_def)
  have "acted i (\<lambda>x. refresh_row (pa_stats a) s) [] st (snd (refresh_actual_state a i st))"
  proof (cases "(sw_desired s = ''running'' \<or> sw_actual s = ''running'') \<and> (pa_stats a \<or> sw_actual s = ''running'')")
    case True
    then have "snd (refresh_actual_state a i st) = emit ''actual_state.changed'' i (st\<lparr>cl_panel := p\<rparr>)"
      using p(1) by (cases "pa_stats a") (auto simp: good refresh_actual_state_def s url Let_def)
    then have "acted i (put_actual ?x) [] st (snd (refresh_actual_state a i st))" using p(2,3) by (simp add: acted_def)
    moreover have "put_actual ?x s = refresh_row (pa_stats a) s" using True by (auto simp: refresh_row_def refreshed_def)
    ultimately show ?thesis by (rule acted_row [OF ok s])
  next
    case False
    then have "snd (refresh_actual_state a i st) = st" by (auto simp: good refresh_actual_state_def s url)
    moreover have "s = refresh_row (pa_stats a) s" unfolding refresh_row_def using False by (simp only: if_False)
    ultimately show ?thesis using acted_row [OF ok s acted_id] by metis
  qed
  then show "acted i (refresh_row (pa_stats a)) [] st (snd (refresh_actual_state a i st))" by (rule acted_row [OF ok s]) simp
qed

lemma send_good:
  assumes g: "power_good a" and ok: "panel_ok (cl_panel st)" and s: "get_panel_server (cl_panel st) i = Some s"
    and sig: "signal \<in> {''start'', ''stop'', ''restart'', ''kill''}"
  shows "acted i (put_actual (actual_from_signal signal)) [(i, signal)] st (snd (send_power a i signal st))"
proof -
  obtain url where url: "server_control_target True i (cl_panel st) = Some url"
    using control_target_found [OF ok] s by fastforce
  have "server_actual_value (actual_from_signal signal)" by (simp add: server_actual_value_def actual_from_signal_def)
  then obtain p where p: "set_server_actual_state True True i (actual_from_signal signal) (''cluster manager power '' @ signal) (cl_panel st) = (Inr (), p)"
      "pb_servers p = map (\<lambda>x. if sw_id x = i then put_actual (actual_from_signal signal) x else x) (pb_servers (cl_panel st))"
      "pb_nodes p = pb_nodes (cl_panel st)"
    by (rule set_actual_good [OF s])
  have good: "pa_control a" "pa_runtime a" "pa_actual a" "pa_actual_logged a" using g by (simp_all add: power_good_def)
  have "snd (send_power a i signal st) = power_events signal i (st\<lparr>cl_sent := cl_sent st @ [(i, signal)], cl_panel := p\<rparr>)"
    using sig p(1) by (simp add: good send_power_def url Let_def)
  then show ?thesis using p(2,3) by (simp add: acted_def)
qed

lemma acted_get:
  assumes "acted i f l st st'" "\<And>x. sw_id (f x) = sw_id x" "get_panel_server (cl_panel st) i = Some s"
  shows "get_panel_server (cl_panel st') i = Some (f s)"
proof -
  have "find (\<lambda>s. sw_id s = i) (map (\<lambda>s. if sw_id s = i then f s else s) xs) = map_option f (find (\<lambda>s. sw_id s = i) xs)" for xs
    using assms(2) by (induction xs) auto
  then show ?thesis using assms(1,3) by (simp add: acted_def get_panel_server_def)
qed

lemma acted_trans:
  assumes "acted i f l st st1" "acted i g m st1 st2" "\<And>x. sw_id (f x) = sw_id x"
  shows "acted i (\<lambda>x. g (f x)) (l @ m) st st2"
  using assms by (auto simp: acted_def)

lemma refresh_row_id [simp]: "sw_id (refresh_row b s) = sw_id s" "sw_desired (refresh_row b s) = sw_desired s"
  by (simp_all add: refresh_row_def)

lemma reconcile_good:
  assumes g: "power_good a" and ok: "panel_ok (cl_panel st)" and s: "get_panel_server (cl_panel st) (sw_id s) = Some s"
  shows "acted (sw_id s) (settle (pa_stats a)) (signals (pa_stats a) s) st (snd (reconcile_server a s st))"
proof -
  let ?i = "sw_id s" and ?e = "emit ''desired_state.changed'' (sw_id s) st" and ?b = "pa_stats a"
  obtain st1 where r: "refresh_actual_state a ?i ?e = (Inr (refreshed ?b s), st1)"
    using refresh_good(1) [of a ?e ?i s] g ok s by (metis emit_keeps(1) prod.collapse)
  have a1: "acted ?i (refresh_row ?b) [] st st1"
    using refresh_good(2) [of a ?e ?i s] g ok s r by (simp add: acted_def)
  let ?st2 = "emit ''actual_state.changed'' ?i st1"
  have a2: "acted ?i (refresh_row ?b) [] st ?st2" using a1 by (simp add: acted_def)
  have ok2: "panel_ok (cl_panel ?st2)" using refresh_panel_ok [of ?e a ?i] ok r by simp
  have s2: "get_panel_server (cl_panel ?st2) ?i = Some (refresh_row ?b s)" by (rule acted_get [OF a2 _ s]) simp
  note send = acted_trans [OF a2 send_good [OF g ok2 s2] refresh_row_id(1), simplified]
  have step: "snd (reconcile_server a s st) =
      (if sw_desired s = ''running'' \<and> refreshed ?b s = ''stopped'' then snd (send_power a ?i ''start'' ?st2)
       else if sw_desired s = ''stopped'' \<and> refreshed ?b s = ''running'' then snd (send_power a ?i ''stop'' ?st2)
       else if sw_desired s = ''running'' \<and> refreshed ?b s = ''crashed'' then snd (send_power a ?i ''restart'' ?st2) else ?st2)"
    by (simp add: reconcile_server_def r Let_def)
  have d: "sw_desired s = ''running'' \<or> sw_desired s = ''stopped''"
    using panel_okD(3) [OF ok, of s] get_panel_server_Some [OF s] by (auto simp: server_row_ok_def server_desired_value_def)
  consider (start) "sw_desired s = ''running''" "refreshed ?b s = ''stopped''" | (stop) "sw_desired s = ''stopped''" "refreshed ?b s = ''running''"
    | (restart) "sw_desired s = ''running''" "refreshed ?b s = ''crashed''"
    | (none) "\<not> (sw_desired s = ''running'' \<and> refreshed ?b s = ''stopped'')" "\<not> (sw_desired s = ''stopped'' \<and> refreshed ?b s = ''running'')"
        "\<not> (sw_desired s = ''running'' \<and> refreshed ?b s = ''crashed'')" by blast
  then show ?thesis
  proof cases
    case start
    then have "signals ?b s = [(?i, ''start'')]" "put_actual ''running'' (refresh_row ?b s) = settle ?b s"
      by (auto simp: refreshed_def signals_def settle_def refresh_row_def split: if_splits)
    then show ?thesis using send [of "''start''"] start acted_row [OF ok s] by (simp add: step actual_from_signal_def)
  next
    case stop
    then have "signals ?b s = [(?i, ''stop'')]" "put_actual ''stopped'' (refresh_row ?b s) = settle ?b s"
      by (auto simp: refreshed_def signals_def settle_def refresh_row_def split: if_splits)
    then show ?thesis using send [of "''stop''"] stop acted_row [OF ok s] by (simp add: step actual_from_signal_def)
  next
    case restart
    then have "signals ?b s = [(?i, ''restart'')]" "put_actual ''running'' (refresh_row ?b s) = settle ?b s"
      by (auto simp: refreshed_def signals_def settle_def refresh_row_def split: if_splits)
    then show ?thesis using send [of "''restart''"] restart acted_row [OF ok s] by (simp add: step actual_from_signal_def)
  next
    case none
    then have "signals ?b s = []" "refresh_row ?b s = settle ?b s"
      using d by (auto simp: refreshed_def signals_def settle_def refresh_row_def split: if_splits)
    moreover have "snd (reconcile_server a s st) = ?st2" unfolding step using none by (simp only: if_False)
    ultimately show ?thesis using acted_row [OF ok s a2, of "settle ?b"] by simp
  qed
qed

section \<open>A pass\<close>

lemma refresh_servers_good:
  assumes "\<And>i. power_good (ans i)" "panel_ok (cl_panel st)" "distinct (map sw_id ss)" "\<And>s. s \<in> set ss \<Longrightarrow> s \<in> set (pb_servers (cl_panel st))"
  shows "pb_servers (cl_panel (refresh_servers ans ss st)) =
      map (\<lambda>x. if sw_id x \<in> sw_id ` set ss then settle (pa_stats (ans (sw_id x))) x else x) (pb_servers (cl_panel st)) \<and>
    cl_sent (refresh_servers ans ss st) = cl_sent st @ concat (map (\<lambda>s. signals (pa_stats (ans (sw_id s))) s) ss) \<and>
    panel_ok (cl_panel (refresh_servers ans ss st))"
  using assms(2-)
proof (induction ss arbitrary: st)
  case (Cons s ss)
  let ?st1 = "snd (reconcile_server (ans (sw_id s)) s st)"
  have "s \<in> set (pb_servers (cl_panel st))" using Cons.prems by simp
  then have s: "get_panel_server (cl_panel st) (sw_id s) = Some s"
    using only_row [OF Cons.prems(1)] by (cases "get_panel_server (cl_panel st) (sw_id s)") (auto simp: get_panel_server_None)
  have a: "acted (sw_id s) (settle (pa_stats (ans (sw_id s)))) (signals (pa_stats (ans (sw_id s))) s) st ?st1"
    by (rule reconcile_good [OF assms(1) Cons.prems(1) s])
  have ok1: "panel_ok (cl_panel ?st1)" by (rule reconcile_panel_ok [OF Cons.prems(1)])
  have rows: "pb_servers (cl_panel ?st1) = map (\<lambda>x. if sw_id x = sw_id s then settle (pa_stats (ans (sw_id s))) x else x) (pb_servers (cl_panel st))"
    and sent: "cl_sent ?st1 = cl_sent st @ signals (pa_stats (ans (sw_id s))) s"
    using a by (simp_all add: acted_def)
  have fresh: "sw_id s \<notin> sw_id ` set ss" using Cons.prems(2) by simp
  have "x \<in> set (pb_servers (cl_panel ?st1))" if "x \<in> set ss" for x
  proof -
    have "x \<in> set (pb_servers (cl_panel st))" "sw_id x \<noteq> sw_id s" using Cons.prems(3) that fresh by (auto simp: image_iff)
    then show ?thesis unfolding rows by (auto simp: image_iff intro: bexI [of _ x])
  qed
  then have ih: "pb_servers (cl_panel (refresh_servers ans ss ?st1)) =
      map (\<lambda>x. if sw_id x \<in> sw_id ` set ss then settle (pa_stats (ans (sw_id x))) x else x) (pb_servers (cl_panel ?st1)) \<and>
    cl_sent (refresh_servers ans ss ?st1) = cl_sent ?st1 @ concat (map (\<lambda>s. signals (pa_stats (ans (sw_id s))) s) ss) \<and>
    panel_ok (cl_panel (refresh_servers ans ss ?st1))"
    using Cons.prems(2) by (intro Cons.IH [OF ok1]) auto
  then show ?case using fresh by (auto simp: rows sent)
qed simp

lemma refresh_nodes_keeps [simp]:
  "cl_panel (refresh_nodes snap ns st) = cl_panel st" "cl_sent (refresh_nodes snap ns st) = cl_sent st"
  by (induction snap ns st rule: refresh_nodes.induct) simp_all

lemma run_once_good:
  assumes "\<And>i. power_good (ans i)" "panel_ok (cl_panel st)"
  shows "pb_servers (cl_panel (snd (run_once snap (Some ns) True ans st))) = map (\<lambda>s. settle (pa_stats (ans (sw_id s))) s) (pb_servers (cl_panel st))"
    "cl_sent (snd (run_once snap (Some ns) True ans st)) =
      cl_sent st @ concat (map (\<lambda>s. signals (pa_stats (ans (sw_id s))) s) (rev (pb_servers (cl_panel st))))"
    "panel_ok (cl_panel (snd (run_once snap (Some ns) True ans st)))"
proof -
  let ?st = "refresh_nodes snap ns st"
  have "distinct (map sw_id (rev (pb_servers (cl_panel ?st))))" using panel_okD(1) [OF assms(2)] by (simp flip: rev_map)
  then show "pb_servers (cl_panel (snd (run_once snap (Some ns) True ans st))) = map (\<lambda>s. settle (pa_stats (ans (sw_id s))) s) (pb_servers (cl_panel st))"
      "cl_sent (snd (run_once snap (Some ns) True ans st)) =
        cl_sent st @ concat (map (\<lambda>s. signals (pa_stats (ans (sw_id s))) s) (rev (pb_servers (cl_panel st))))"
      "panel_ok (cl_panel (snd (run_once snap (Some ns) True ans st)))"
    using refresh_servers_good [of ans ?st "rev (pb_servers (cl_panel ?st))"] assms by (simp_all add: run_once_def)
qed

text \<open>C34: A pass of the reconciler implements its specification: when nodes and database answer, every server ends in the
  state that \<open>settle\<close> gives for its desired and recorded state and for whether its statistics could be read, each independent
  of the others, and exactly the signals of \<open>signals\<close> are sent, newest server first.\<close>

theorem pass_settles:
  assumes "\<And>i. power_good (ans i)" "panel_ok (cl_panel st)"
  shows "pb_servers (cl_panel (snd (run_once snap (Some ns) True ans st))) = map (\<lambda>s. settle (pa_stats (ans (sw_id s))) s) (pb_servers (cl_panel st)) \<and>
    cl_sent (snd (run_once snap (Some ns) True ans st)) =
      cl_sent st @ concat (map (\<lambda>s. signals (pa_stats (ans (sw_id s))) s) (rev (pb_servers (cl_panel st))))"
  using run_once_good [OF assms] by simp

section \<open>A dead server\<close>

fun passes :: "(nat \<Rightarrow> string \<Rightarrow> power_answers) \<Rightarrow> nat \<Rightarrow> cluster \<Rightarrow> cluster" where
  "passes ans 0 st = st"
| "passes ans (Suc n) st = snd (run_once (\<lambda>_. True) (Some []) True (ans n) (passes ans n st))"

definition lost :: "string \<Rightarrow> cluster \<Rightarrow> cluster \<Rightarrow> bool" where
  "lost i st st' \<longleftrightarrow> panel_ok (cl_panel st') \<and> (\<exists>s \<in> set (pb_servers (cl_panel st')). sw_id s = i \<and> sw_desired s = ''running'' \<and> sw_actual s \<in> {''running'', ''unknown''}) \<and>
     (\<forall>g. (i, g) \<in> set (cl_sent st') \<longrightarrow> (i, g) \<in> set (cl_sent st))"

lemma pass_lost:
  assumes "\<And>i. power_good (ans i)" "\<not> pa_stats (ans i)" "lost i st0 st"
  shows "lost i st0 (snd (run_once (\<lambda>_. True) (Some []) True ans st))"
    "\<exists>s \<in> set (pb_servers (cl_panel (snd (run_once (\<lambda>_. True) (Some []) True ans st)))). sw_id s = i \<and> sw_actual s = ''unknown''"
proof -
  have ok: "panel_ok (cl_panel st)" using assms(3) by (simp add: lost_def)
  obtain s where s: "s \<in> set (pb_servers (cl_panel st))" "sw_id s = i" "sw_desired s = ''running''" "sw_actual s \<in> {''running'', ''unknown''}"
    using assms(3) by (auto simp: lost_def)
  note r = run_once_good [of ans st "\<lambda>_. True" "[]", OF assms(1) ok]
  have n: "settle False s \<in> set (pb_servers (cl_panel (snd (run_once (\<lambda>_. True) (Some []) True ans st))))"
    unfolding r(1) using s(1,2) assms(2) by (auto intro!: image_eqI [of _ _ s])
  have a: "sw_actual (settle False s) = ''unknown''" using s(3,4) by (auto simp: settle_def)
  have "x = s" if "x \<in> set (pb_servers (cl_panel st))" "sw_id x = i" for x
    using that s(1,2) panel_okD(1) [OF ok] by (metis distinct_map inj_onD)
  then have "signals (pa_stats (ans (sw_id x))) x = []" if "x \<in> set (pb_servers (cl_panel st))" "sw_id x = i" for x
    using that assms(2) s(3,4) by (auto simp: signals_def)
  moreover have "fst y = sw_id x" if "y \<in> set (signals b x)" for y b x using that by (auto simp: signals_def split: if_splits)
  ultimately have "(i, g) \<in> set (cl_sent st)" if "(i, g) \<in> set (cl_sent (snd (run_once (\<lambda>_. True) (Some []) True ans st)))" for g
    using that unfolding r(2) by fastforce
  then show "lost i st0 (snd (run_once (\<lambda>_. True) (Some []) True ans st))"
    using assms(3) r(3) n a s(2,3) unfolding lost_def by (auto intro!: bexI [OF _ n])
  show "\<exists>s \<in> set (pb_servers (cl_panel (snd (run_once (\<lambda>_. True) (Some []) True ans st)))). sw_id s = i \<and> sw_actual s = ''unknown''"
    using n a s(2) by (intro bexI [OF _ n]) simp
qed

text \<open>C35: A server whose container is gone is never restarted: when it should run, is recorded as running, and its
  statistics cannot be read, it becomes unknown at the first pass and stays so for ever, and the reconciler sends it no
  signal, although all its other calls succeed.\<close>

theorem dead_server_never_restarted:
  assumes "\<And>n i. power_good (ans n i)" "panel_ok (cl_panel st)" "s \<in> set (pb_servers (cl_panel st))" "sw_desired s = ''running''"
    "sw_actual s = ''running''" "\<And>n. \<not> pa_stats (ans n (sw_id s))"
  shows "(\<exists>x \<in> set (pb_servers (cl_panel (passes ans (Suc n) st))). sw_id x = sw_id s \<and> sw_actual x = ''unknown'') \<and>
    (\<forall>g. (sw_id s, g) \<in> set (cl_sent (passes ans (Suc n) st)) \<longrightarrow> (sw_id s, g) \<in> set (cl_sent st))"
proof -
  have lost: "lost (sw_id s) st (passes ans n st)" for n
  proof (induction n)
    case 0
    then show ?case using assms(2-5) by (auto simp: lost_def)
  next
    case (Suc n)
    then show ?case using pass_lost(1) [of "ans n"] assms(1,6) by simp
  qed
  then show ?thesis using pass_lost(2) [of "ans n" "sw_id s" st, OF assms(1,6) lost] lost [of "Suc n"] unfolding lost_def by simp
qed

definition sample_row :: "string \<Rightarrow> string \<Rightarrow> string \<Rightarrow> panel_server" where
  "sample_row i d a = (new_server sample_panel i panel_request)\<lparr>sw_desired := d, sw_actual := a, sw_primary := None\<rparr>"

definition sample_rows :: "panel_server list \<Rightarrow> cluster" where
  "sample_rows ss = sample_cluster\<lparr>cl_panel := sample_panel\<lparr>pb_servers := ss\<rparr>\<rparr>"

definition sample_power :: "bool \<Rightarrow> power_answers" where
  "sample_power stats = \<lparr>pa_get = True, pa_desired = True, pa_desired_logged = True, pa_control = True, pa_runtime = True, pa_actual = True,
     pa_actual_logged = True, pa_stats = stats, pa_refresh = True, pa_refresh_logged = True\<rparr>"

lemma sample_power_good: "power_good (sample_power b)" "pa_stats (sample_power b) = b"
  by (simp_all add: power_good_def sample_power_def)

lemma sample_rows_ok: "panel_ok (cl_panel (sample_rows [sample_row ''s1'' ''running'' ''running'', sample_row ''s2'' ''stopped'' ''running'']))"
  by (simp add: panel_ok_def sample_rows_def sample_row_def sample_cluster_def sample_panel_def panel_request_def server_row_ok_def
      server_desired_value_def server_actual_value_def request_memory_def default_memory_def get_egg_def)

text \<open>Witness of C35: the third pass of a server that should run.\<close>

theorem dead_server_never_restarted_witness:
  "\<exists>x \<in> set (pb_servers (cl_panel (passes (\<lambda>_ _. sample_power False) 3 (sample_rows [sample_row ''s1'' ''running'' ''running'', sample_row ''s2'' ''stopped'' ''running''])))).
     sw_id x = ''s1'' \<and> sw_actual x = ''unknown''"
  using dead_server_never_restarted [of "\<lambda>_ _. sample_power False" "sample_rows [sample_row ''s1'' ''running'' ''running'', sample_row ''s2'' ''stopped'' ''running'']"
      "sample_row ''s1'' ''running'' ''running''" 2, OF sample_power_good(1) sample_rows_ok]
  by (simp add: sample_power_good sample_rows_def sample_row_def numeral_3_eq_3)

text \<open>Witness of C34: one server that should run and one that should not.\<close>

theorem pass_settles_witness:
  "map sw_actual (pb_servers (cl_panel (snd (run_once (\<lambda>_. True) (Some []) True (\<lambda>i. sample_power (i = ''s2''))
     (sample_rows [sample_row ''s1'' ''running'' ''running'', sample_row ''s2'' ''stopped'' ''running'']))))) = [''unknown'', ''stopped'']"
  using pass_settles [of "\<lambda>i. sample_power (i = ''s2'')" "sample_rows [sample_row ''s1'' ''running'' ''running'', sample_row ''s2'' ''stopped'' ''running'']" "\<lambda>_. True" "[]",
      OF sample_power_good(1) sample_rows_ok]
  by (simp add: sample_power_good) (simp add: sample_rows_def sample_row_def settle_def)

section \<open>A suspended server\<close>

lemma suspension_row:
  assumes "suspension_request a True i st = (Inr (), st1)" "get_panel_server (cl_panel st) i = Some s"
  shows "\<exists>s1. get_panel_server (cl_panel st1) i = Some s1 \<and> sw_suspended s1 \<and> sw_desired s1 = sw_desired s \<and> sw_actual s1 = sw_actual s"
proof -
  let ?st = "if server_control_target (sa_control a) i (cl_panel st) \<noteq> None
    then st\<lparr>cl_sent := cl_sent st @ [(i, ''stop'')], cl_panel := snd (set_server_power_state (sa_status a) (sa_status_logged a) i ''stop'' (cl_panel st))\<rparr> else st"
  have "\<exists>s1. get_panel_server (cl_panel ?st) i = Some s1 \<and> sw_desired s1 = sw_desired s \<and> sw_actual s1 = sw_actual s"
    using assms(2) by (auto simp: set_server_power_state_def touch_server_def get_map_server keeps_id_def)
  then obtain s1 where s1: "get_panel_server (cl_panel ?st) i = Some s1" "sw_desired s1 = sw_desired s" "sw_actual s1 = sw_actual s" by blast
  have "cl_panel st1 = map_server i (\<lambda>s. s\<lparr>sw_suspended := True\<rparr>) (cl_panel ?st)"
    using assms(1) unfolding suspension_request_def Let_def set_server_suspended_def touch_server_def
    by (auto split: if_splits)
  then show ?thesis using s1 by (simp add: get_map_server keeps_id_def)
qed

text \<open>A start that the node did not take leaves the desired state running.\<close>

lemma failed_start_row:
  assumes "request_server_power a i ''start'' st = (Inl CmRuntime, st1)" "get_panel_server (cl_panel st) i = Some s"
  shows "\<exists>s1. get_panel_server (cl_panel st1) i = Some s1 \<and> sw_desired s1 = ''running'' \<and> sw_actual s1 = sw_actual s"
proof -
  obtain x p where d: "set_server_desired_state (pa_desired a) (pa_desired_logged a) i ''running'' (''cluster manager request '' @ ''start'') (cl_panel st) = (x, p)" by fastforce
  obtain u where x: "x = Inr u" using assms(1) d by (cases x) (auto simp: request_server_power_def Let_def split: if_splits)
  have p: "\<exists>s1. get_panel_server p i = Some s1 \<and> sw_desired s1 = ''running'' \<and> sw_actual s1 = sw_actual s"
    using d assms(2) x get_map_server [of "\<lambda>s. s\<lparr>sw_desired := ''running''\<rparr>" i "cl_panel st"]
    by (auto simp: set_server_desired_state_def Let_def record_server_move_def keeps_id_def get_panel_server_def split: if_splits)
  obtain y st2 where w: "send_power a i ''start'' (emit ''desired_state.changed'' i (st\<lparr>cl_panel := p\<rparr>)) = (y, st2)" by fastforce
  have "y = Inl CmRuntime" "st2 = st1"
    using assms(1) d w x by (auto simp: request_server_power_def Let_def split: if_splits sum.splits)
  moreover have "cl_panel st2 = p" if "y = Inl CmRuntime"
    using w that by (auto simp: send_power_def Let_def split: option.splits if_splits prod.splits sum.splits)
  ultimately show ?thesis using p by simp
qed

text \<open>C36: The reconciler starts suspended servers: when a start was requested and the node did not take it, and an
  administrator then suspends the server, the next pass sends the start after all, because suspending leaves the desired
  state and starting from a pass does not look at the suspension.\<close>

theorem suspended_server_started:
  assumes "get_panel_server (cl_panel st) i = Some s" "sw_actual s = ''stopped''"
    "request_server_power a i ''start'' st = (Inl CmRuntime, st1)" "suspension_request b True i st1 = (Inr (), st2)"
    "panel_ok (cl_panel st2)" "\<And>j. power_good (ans j)" "\<not> pa_stats (ans i)"
  shows "(i, ''start'') \<in> set (drop (length (cl_sent st2)) (cl_sent (snd (run_once snap (Some ns) True ans st2)))) \<and>
    given sw_suspended (get_panel_server (cl_panel st2) i)"
proof -
  obtain s1 where s1: "get_panel_server (cl_panel st1) i = Some s1" "sw_desired s1 = ''running''" "sw_actual s1 = ''stopped''"
    using failed_start_row [OF assms(3,1)] assms(2) by auto
  obtain s2 where s2: "get_panel_server (cl_panel st2) i = Some s2" "sw_suspended s2" "sw_desired s2 = ''running''" "sw_actual s2 = ''stopped''"
    using suspension_row [OF assms(4) s1(1)] s1 by auto
  have "s2 \<in> set (pb_servers (cl_panel st2))" "sw_id s2 = i" using get_panel_server_Some [OF s2(1)] by auto
  moreover have "(i, ''start'') \<in> set (signals (pa_stats (ans (sw_id s2))) s2)" using s2 assms(7) \<open>sw_id s2 = i\<close> by (simp add: signals_def)
  ultimately have "(i, ''start'') \<in> set (concat (map (\<lambda>s. signals (pa_stats (ans (sw_id s))) s) (rev (pb_servers (cl_panel st2)))))"
    by (auto intro: bexI [of _ s2])
  then show ?thesis using run_once_good(2) [of ans st2 snap ns, OF assms(6,5)] s2(1,2) by (simp add: given_def)
qed

definition sample_suspension :: suspension_answers where
  "sample_suspension = \<lparr>sa_control = True, sa_status = True, sa_status_logged = True, sa_suspend = True, sa_suspend_logged = True\<rparr>"

definition sample_stopped :: cluster where
  "sample_stopped = sample_rows [sample_row ''s1'' ''stopped'' ''stopped'']"

definition sample_offline :: cluster where
  "sample_offline = snd (request_server_power ((sample_power False)\<lparr>pa_runtime := False\<rparr>) ''s1'' ''start'' sample_stopped)"

definition sample_suspended :: cluster where
  "sample_suspended = snd (suspension_request sample_suspension True ''s1'' sample_offline)"

lemma sample_suspension_run:
  "request_server_power ((sample_power False)\<lparr>pa_runtime := False\<rparr>) ''s1'' ''start'' sample_stopped = (Inl CmRuntime, sample_offline)"
  "suspension_request sample_suspension True ''s1'' sample_offline = (Inr (), sample_suspended)"
  "get_panel_server (cl_panel sample_stopped) ''s1'' = Some (sample_row ''s1'' ''stopped'' ''stopped'')"
  "pb_servers (cl_panel sample_suspended) = [(sample_row ''s1'' ''running'' ''stopped'')\<lparr>sw_status := ''stopped'', sw_suspended := True\<rparr>]"
  "pb_ports (cl_panel sample_suspended) = pb_ports sample_panel" "pb_vars (cl_panel sample_suspended) = []"
  "pb_nodes (cl_panel sample_suspended) = [(''n1'', ''http'')]" "pb_users (cl_panel sample_suspended) = [''u1'']"
  by (code_simp, code_simp, code_simp, code_simp, code_simp, code_simp, code_simp, code_simp)

lemma sample_suspended_ok: "panel_ok (cl_panel sample_suspended)"
  by (simp add: panel_ok_def sample_suspension_run sample_row_def sample_panel_def panel_request_def server_row_ok_def
      server_desired_value_def server_actual_value_def request_memory_def default_memory_def get_egg_def)

text \<open>Witness of C36: a server that is stopped.\<close>

theorem suspended_server_started_witness:
  "(''s1'', ''start'') \<in> set (drop (length (cl_sent sample_suspended)) (cl_sent (snd (run_once (\<lambda>_. True) (Some []) True (\<lambda>_. sample_power False) sample_suspended))))"
  using suspended_server_started [OF sample_suspension_run(3) _ sample_suspension_run(1,2) sample_suspended_ok sample_power_good(1),
      of "\<lambda>_. False" "\<lambda>_. True" "[]"]
  by (simp add: sample_power_good sample_row_def)

end
