(* ===== verification/Autoscaler.thy ===== *)
theory Autoscaler
  imports Go_Float
begin

text \<open>
  The autoscaler (\<^verbatim>\<open>services/autoscaler/service.go\<close>) with its policies and events (\<^verbatim>\<open>store/store_autoscaler.go\<close>). Amounts are
  integers; the conversion of a float64 outside the range of int64, which Go leaves to the implementation, is the
  argument \<open>oor\<close>. What the database and the statistics of a server answer is an argument, and so are two readings of the
  clock: the one that is compared with the cooldown and the one that starts the next. Names, targets that nothing
  reads, texts and counters are left out.
\<close>

section \<open>Policies and events\<close>

record scaling_policy =
  sy_id :: string
  sy_server :: string
  sy_enabled :: bool
  sy_min_memory :: int
  sy_max_memory :: int
  sy_min_cpu :: int
  sy_max_cpu :: int
  sy_up :: float64
  sy_down :: float64
  sy_cooldown :: int
  sy_poll :: int
  sy_up_factor :: float64
  sy_down_factor :: float64
  sy_up_step :: int
  sy_down_step :: int
  sy_created :: gotime

record scaling_event =
  sx_policy :: string
  sx_up :: bool
  sx_old_memory :: int
  sx_new_memory :: int
  sx_old_cpu :: int
  sx_new_cpu :: int
  sx_created :: gotime

text \<open>\<open>au_scaled\<close> is not in the code: it keeps the decisions to scale with their time.\<close>

record autoscaler =
  au_policies :: "scaling_policy list"
  au_events :: "scaling_event list"
  au_cooldowns :: "string \<rightharpoonup> gotime"
  au_scaled :: "(string \<times> gotime) list"

definition seconds :: "int \<Rightarrow> gotime" where
  "seconds n = n * 1000000000"

section \<open>Managing policies\<close>

definition f_default :: "rat \<Rightarrow> float64 \<Rightarrow> float64" where
  "f_default d x = (if f_lt (Fin 0) x \<or> x = NaN then x else to_float64 d)"

definition policy_defaults :: "scaling_policy \<Rightarrow> scaling_policy" where
  "policy_defaults p = p\<lparr>sy_poll := (if sy_poll p \<le> 0 then 30 else sy_poll p), sy_up_factor := f_default (5 / 4) (sy_up_factor p),
     sy_down_factor := f_default (3 / 4) (sy_down_factor p), sy_cooldown := (if sy_cooldown p \<le> 0 then 120 else sy_cooldown p),
     sy_up := f_default (4 / 5) (sy_up p), sy_down := f_default (3 / 10) (sy_down p)\<rparr>"

definition create_policy :: "bool \<Rightarrow> gotime \<Rightarrow> scaling_policy \<Rightarrow> autoscaler \<Rightarrow> bool \<times> autoscaler" where
  "create_policy ok now p st =
     (if sy_server p = [] \<or> sy_id p = [] \<or> \<not> ok \<or> (\<exists>x \<in> set (au_policies st). sy_id x = sy_id p) then (False, st)
      else (True, st\<lparr>au_policies := au_policies st @ [(policy_defaults p)\<lparr>sy_created := now\<rparr>]\<rparr>))"

definition store_policy :: "scaling_policy \<Rightarrow> autoscaler \<Rightarrow> autoscaler" where
  "store_policy p st = st\<lparr>au_policies := map (\<lambda>x. if sy_id x = sy_id p then p\<lparr>sy_created := sy_created x\<rparr> else x) (au_policies st)\<rparr>"

definition update_policy :: "bool \<Rightarrow> scaling_policy \<Rightarrow> autoscaler \<Rightarrow> bool \<times> autoscaler" where
  "update_policy ok p st = (if ok then (True, store_policy p st) else (False, st))"

definition delete_policy :: "bool \<Rightarrow> string \<Rightarrow> autoscaler \<Rightarrow> bool \<times> autoscaler" where
  "delete_policy ok i st =
     (let st1 = st\<lparr>au_cooldowns := (au_cooldowns st)(i := None)\<rparr> in
      if ok then (True, st1\<lparr>au_policies := filter (\<lambda>x. sy_id x \<noteq> i) (au_policies st1)\<rparr>) else (False, st1))"

definition get_policy :: "string \<Rightarrow> autoscaler \<Rightarrow> scaling_policy option" where
  "get_policy i st = find (\<lambda>x. sy_id x = i) (au_policies st)"

definition policies_of :: "string \<Rightarrow> autoscaler \<Rightarrow> scaling_policy list" where
  "policies_of s st = slice_stable (\<lambda>a b. sy_created a < sy_created b) (filter (\<lambda>x. sy_server x = s) (au_policies st))"

section \<open>Scaling\<close>

text \<open>\<^verbatim>\<open>int64(math.Ceil(float64(n) * f))\<close>.\<close>

definition scale_amount :: "int \<Rightarrow> int \<Rightarrow> float64 \<Rightarrow> int" where
  "scale_amount oor n f =
     (case f_mul (f_of_int n) f of
        Fin q \<Rightarrow> (let c = ceiling q in if - (2 ^ 63) \<le> c \<and> c < 2 ^ 63 then c else oor)
      | _ \<Rightarrow> oor)"

definition up_memory :: "int \<Rightarrow> scaling_policy \<Rightarrow> int" where
  "up_memory oor p =
     (let n0 = scale_amount oor (sy_min_memory p) (sy_up_factor p);
          n1 = (if 0 < sy_max_memory p \<and> sy_max_memory p < n0 then sy_max_memory p else n0) in
      if 0 < sy_up_step p \<and> sy_up_step p < n1 - sy_min_memory p then sy_min_memory p + sy_up_step p else n1)"

definition up_cpu :: "int \<Rightarrow> scaling_policy \<Rightarrow> int" where
  "up_cpu oor p =
     (let n0 = scale_amount oor (sy_min_cpu p) (sy_up_factor p) in if 0 < sy_max_cpu p \<and> sy_max_cpu p < n0 then sy_max_cpu p else n0)"

definition down_memory :: "int \<Rightarrow> scaling_policy \<Rightarrow> int" where
  "down_memory oor p =
     (let n0 = scale_amount oor (sy_min_memory p) (sy_down_factor p) in
      if 0 < sy_down_step p \<and> sy_down_step p < sy_min_memory p - n0 then sy_min_memory p - sy_down_step p else n0)"

definition down_cpu :: "int \<Rightarrow> scaling_policy \<Rightarrow> int" where
  "down_cpu oor p = scale_amount oor (sy_min_cpu p) (sy_down_factor p)"

datatype eval_result = EvNone | EvError | EvPanic | EvEvent scaling_event

text \<open>Scaling writes the new amounts over the minima of the policy; the cooldown starts before anything is stored.\<close>

definition execute_scale ::
  "int \<Rightarrow> bool \<Rightarrow> bool \<Rightarrow> bool \<Rightarrow> gotime \<Rightarrow> gotime \<Rightarrow> scaling_policy \<Rightarrow> autoscaler \<Rightarrow> eval_result \<times> autoscaler" where
  "execute_scale oor up ok1 ok2 t te p st =
     (let m = (if up then up_memory oor p else down_memory oor p); c = (if up then up_cpu oor p else down_cpu oor p);
          e = \<lparr>sx_policy = sy_id p, sx_up = up, sx_old_memory = sy_min_memory p, sx_new_memory = m, sx_old_cpu = sy_min_cpu p,
               sx_new_cpu = c, sx_created = te\<rparr>;
          st1 = st\<lparr>au_cooldowns := (au_cooldowns st)(sy_id p \<mapsto> t + seconds (sy_cooldown p)), au_scaled := au_scaled st @ [(sy_id p, t)]\<rparr> in
      if \<not> ok1 then (EvError, st1)
      else let st2 = store_policy (p\<lparr>sy_min_memory := m, sy_min_cpu := c\<rparr>) st1 in
        if \<not> ok2 then (EvError, st2) else (EvEvent e, st2\<lparr>au_events := au_events st2 @ [e]\<rparr>))"

text \<open>Statistics of a server: CPU in percent, memory in use and its limit.\<close>

type_synonym stats = "float64 \<times> nat \<times> nat"

record eval_answers =
  ea_list :: bool
  ea_now :: gotime
  ea_later :: gotime
  ea_stored :: gotime
  ea_stats :: "stats option"
  ea_update :: bool
  ea_event :: bool

definition cpu_usage :: "stats \<Rightarrow> float64" where
  "cpu_usage x = f_div (fst x) (f_of_int 100)"

definition mem_usage :: "stats \<Rightarrow> float64" where
  "mem_usage x = f_div (f_of_int (int (fst (snd x)))) (f_of_int (int (max (snd (snd x)) 1)))"

definition cooling :: "gotime \<Rightarrow> string \<Rightarrow> autoscaler \<Rightarrow> bool" where
  "cooling now i st = (case au_cooldowns st i of None \<Rightarrow> False | Some u \<Rightarrow> now < u)"

text \<open>\<open>wired\<close> says whether the service was given something to ask for statistics; without it the call is a panic.\<close>

definition evaluate_server :: "int \<Rightarrow> bool \<Rightarrow> eval_answers \<Rightarrow> string \<Rightarrow> autoscaler \<Rightarrow> eval_result \<times> autoscaler" where
  "evaluate_server oor wired a s st =
     (if \<not> ea_list a then (EvError, st)
      else (case find sy_enabled (policies_of s st) of
        None \<Rightarrow> (EvNone, st)
      | Some p \<Rightarrow>
          if cooling (ea_now a) (sy_id p) st then (EvNone, st)
          else if \<not> wired then (EvPanic, st)
          else (case ea_stats a of
            None \<Rightarrow> (EvError, st)
          | Some x \<Rightarrow>
              if f_lt (sy_up p) (cpu_usage x) \<or> f_lt (sy_up p) (mem_usage x)
              then execute_scale oor True (ea_update a) (ea_event a) (ea_later a) (ea_stored a) p st
              else if f_lt (cpu_usage x) (sy_down p) \<and> f_lt (mem_usage x) (sy_down p)
              then execute_scale oor False (ea_update a) (ea_event a) (ea_later a) (ea_stored a) p st
              else (EvNone, st))))"

text \<open>One tick of the loop over the policies it read.\<close>

fun scale_tick :: "int \<Rightarrow> bool \<Rightarrow> (string \<Rightarrow> eval_answers) \<Rightarrow> scaling_policy list \<Rightarrow> autoscaler \<Rightarrow> autoscaler" where
  "scale_tick oor wired ans [] st = st"
| "scale_tick oor wired ans (p # ps) st =
     scale_tick oor wired ans ps (if sy_enabled p then snd (evaluate_server oor wired (ans (sy_id p)) (sy_server p) st) else st)"

text \<open>Cooldowns after a start, from the last event of each policy.\<close>

definition last_event :: "string \<Rightarrow> autoscaler \<Rightarrow> scaling_event option" where
  "last_event i st =
     (case slice_stable (\<lambda>a b. sx_created b < sx_created a) (filter (\<lambda>e. sx_policy e = i) (au_events st)) of [] \<Rightarrow> None | e # _ \<Rightarrow> Some e)"

definition start_cooldowns :: "gotime \<Rightarrow> autoscaler \<Rightarrow> autoscaler" where
  "start_cooldowns now st =
     st\<lparr>au_cooldowns := (\<lambda>i. case get_policy i st of
          None \<Rightarrow> None
        | Some p \<Rightarrow> (case last_event i st of
            None \<Rightarrow> None
          | Some e \<Rightarrow> if now < sx_created e + seconds (sy_cooldown p) then Some (sx_created e + seconds (sy_cooldown p)) else None))\<rparr>"

section \<open>Bounds\<close>

text \<open>What a scaling writes stays within the limits of its policy.\<close>

definition event_within :: "scaling_policy \<Rightarrow> scaling_event \<Rightarrow> bool" where
  "event_within p e \<longleftrightarrow>
     (if sx_up e
      then (0 < sy_max_memory p \<longrightarrow> sx_new_memory e \<le> sy_max_memory p) \<and> (0 < sy_max_cpu p \<longrightarrow> sx_new_cpu e \<le> sy_max_cpu p) \<and>
        (0 < sy_up_step p \<longrightarrow> sx_new_memory e - sx_old_memory e \<le> sy_up_step p)
      else 0 < sy_down_step p \<longrightarrow> sx_old_memory e - sx_new_memory e \<le> sy_down_step p)"

lemma amounts_within:
  "0 < sy_max_memory p \<Longrightarrow> up_memory oor p \<le> sy_max_memory p"
  "0 < sy_max_cpu p \<Longrightarrow> up_cpu oor p \<le> sy_max_cpu p"
  "0 < sy_up_step p \<Longrightarrow> up_memory oor p - sy_min_memory p \<le> sy_up_step p"
  "0 < sy_down_step p \<Longrightarrow> sy_min_memory p - down_memory oor p \<le> sy_down_step p"
  by (simp_all add: up_memory_def up_cpu_def down_memory_def Let_def)

lemma execute_within: "execute_scale oor up ok1 ok2 t te p st = (EvEvent e, st') \<Longrightarrow> event_within p e"
  by (cases up) (auto simp: execute_scale_def Let_def event_within_def amounts_within split: if_splits)

lemma find_policy:
  assumes "find sy_enabled (policies_of s st) = Some p"
  shows "p \<in> set (au_policies st)" "sy_enabled p" "sy_server p = s"
proof -
  have "p \<in> set (policies_of s st)" "sy_enabled p" using assms by (auto simp: find_Some_iff)
  then show "p \<in> set (au_policies st)" "sy_enabled p" "sy_server p = s" by (auto simp: policies_of_def)
qed

text \<open>A scaling stays within the limits of the policy it was decided by: upwards no more than the maxima and the step, downwards
  no more than the step.\<close>

theorem scaling_within_limits:
  assumes "evaluate_server oor wired a s st = (EvEvent e, st')"
  shows "\<exists>p \<in> set (au_policies st). sy_id p = sx_policy e \<and> sy_enabled p \<and> sy_server p = s \<and> event_within p e"
proof -
  obtain p up where p: "find sy_enabled (policies_of s st) = Some p"
    and e: "execute_scale oor up (ea_update a) (ea_event a) (ea_later a) (ea_stored a) p st = (EvEvent e, st')"
    using assms by (auto simp: evaluate_server_def split: option.splits if_splits)
  have "sx_policy e = sy_id p" using e by (auto simp: execute_scale_def Let_def split: if_splits)
  then show ?thesis using execute_within [OF e] find_policy [OF p] by (intro bexI [of _ p]) auto
qed

section \<open>Cooldown\<close>

fun run_evals :: "int \<Rightarrow> bool \<Rightarrow> (string \<times> eval_answers) list \<Rightarrow> autoscaler \<Rightarrow> autoscaler" where
  "run_evals oor wired [] st = st"
| "run_evals oor wired ((s, a) # xs) st = run_evals oor wired xs (snd (evaluate_server oor wired a s st))"

fun clocked :: "gotime \<Rightarrow> (string \<times> eval_answers) list \<Rightarrow> bool" where
  "clocked lo [] = True"
| "clocked lo ((s, a) # xs) = (lo \<le> ea_now a \<and> ea_now a \<le> ea_later a \<and> clocked (ea_later a) xs)"

text \<open>Two decisions on one policy are apart by its cooldown.\<close>

definition spaced :: "(string \<Rightarrow> int) \<Rightarrow> (string \<times> gotime) list \<Rightarrow> bool" where
  "spaced cd xs \<longleftrightarrow> sorted_wrt (\<lambda>x y. fst x = fst y \<longrightarrow> snd x + seconds (cd (fst x)) \<le> snd y) xs"

definition cooldown_inv :: "(string \<Rightarrow> int) \<Rightarrow> gotime \<Rightarrow> autoscaler \<Rightarrow> bool" where
  "cooldown_inv cd lo st \<longleftrightarrow> spaced cd (au_scaled st) \<and> (\<forall>p \<in> set (au_policies st). sy_cooldown p = cd (sy_id p)) \<and>
     (\<forall>x \<in> set (au_scaled st). snd x \<le> lo \<and> (\<exists>u. au_cooldowns st (fst x) = Some u \<and> snd x + seconds (cd (fst x)) \<le> u))"

lemma store_policy_cooldowns:
  "(\<forall>x \<in> set (au_policies st). sy_cooldown x = cd (sy_id x)) \<Longrightarrow> sy_cooldown p = cd (sy_id p) \<Longrightarrow>
     \<forall>x \<in> set (au_policies (store_policy p st)). sy_cooldown x = cd (sy_id x)"
  by (auto simp: store_policy_def)

lemma execute_policies:
  assumes "\<forall>x \<in> set (au_policies st). sy_cooldown x = cd (sy_id x)" "sy_cooldown p = cd (sy_id p)"
  shows "\<forall>x \<in> set (au_policies (snd (execute_scale oor up ok1 ok2 t te p st))). sy_cooldown x = cd (sy_id x)"
proof -
  have "au_policies (snd (execute_scale oor up ok1 ok2 t te p st)) = au_policies st \<or>
      (\<exists>m c. au_policies (snd (execute_scale oor up ok1 ok2 t te p st)) = au_policies (store_policy (p\<lparr>sy_min_memory := m, sy_min_cpu := c\<rparr>) st))"
    by (cases ok1; cases ok2) (simp_all add: execute_scale_def Let_def store_policy_def, blast+)
  moreover have "\<forall>x \<in> set (au_policies (store_policy (p\<lparr>sy_min_memory := m, sy_min_cpu := c\<rparr>) st)). sy_cooldown x = cd (sy_id x)" for m c
    by (rule store_policy_cooldowns [OF assms(1)]) (use assms(2) in simp)
  ultimately show ?thesis using assms(1) by metis
qed

lemma execute_cooldown:
  assumes inv: "cooldown_inv cd lo st" and p: "sy_cooldown p = cd (sy_id p)" and free: "\<not> cooling now (sy_id p) st" "lo \<le> now" "now \<le> t"
  shows "cooldown_inv cd t (snd (execute_scale oor up ok1 ok2 t te p st))"
proof -
  let ?st = "snd (execute_scale oor up ok1 ok2 t te p st)"
  have scaled: "au_scaled ?st = au_scaled st @ [(sy_id p, t)]" "au_cooldowns ?st = (au_cooldowns st)(sy_id p \<mapsto> t + seconds (sy_cooldown p))"
    by (simp_all add: execute_scale_def Let_def store_policy_def)
  have pols: "\<forall>x \<in> set (au_policies ?st). sy_cooldown x = cd (sy_id x)"
    using inv p by (intro execute_policies) (simp_all add: cooldown_inv_def)
  have old: "snd x + seconds (cd (fst x)) \<le> t" if "x \<in> set (au_scaled st)" "fst x = sy_id p" for x
    using inv free that by (auto simp: cooldown_inv_def cooling_def split: option.splits)
  have le: "\<forall>x \<in> set (au_scaled st). snd x \<le> t" using inv free by (force simp: cooldown_inv_def)
  have "spaced cd (au_scaled ?st)" using inv old by (auto simp: cooldown_inv_def spaced_def scaled sorted_wrt_append)
  moreover have "\<exists>u. au_cooldowns ?st (fst x) = Some u \<and> snd x + seconds (cd (fst x)) \<le> u" if "x \<in> set (au_scaled ?st)" for x
  proof (cases "fst x = sy_id p")
    case True
    then show ?thesis using that le p by (auto simp: scaled)
  next
    case False
    then show ?thesis using that inv by (auto simp: scaled cooldown_inv_def)
  qed
  moreover have "snd x \<le> t" if "x \<in> set (au_scaled ?st)" for x using that le by (auto simp: scaled)
  ultimately show ?thesis using pols by (auto simp: cooldown_inv_def)
qed

lemma evaluate_cooldown:
  assumes inv: "cooldown_inv cd lo st" and t: "lo \<le> ea_now a" "ea_now a \<le> ea_later a"
  shows "cooldown_inv cd (ea_later a) (snd (evaluate_server oor wired a s st))"
proof (cases "snd (evaluate_server oor wired a s st) = st")
  case True
  then show ?thesis using inv t by (force simp: cooldown_inv_def)
next
  case False
  then obtain p up where p: "find sy_enabled (policies_of s st) = Some p" "\<not> cooling (ea_now a) (sy_id p) st"
    and e: "snd (evaluate_server oor wired a s st) = snd (execute_scale oor up (ea_update a) (ea_event a) (ea_later a) (ea_stored a) p st)"
    by (auto simp: evaluate_server_def split: option.splits if_splits)
  have "p \<in> set (au_policies st)" by (rule find_policy(1) [OF p(1)])
  then have "sy_cooldown p = cd (sy_id p)" using inv by (simp add: cooldown_inv_def)
  then show ?thesis unfolding e by (rule execute_cooldown [OF inv _ p(2) t])
qed

lemma run_evals_cooldown: "cooldown_inv cd lo st \<Longrightarrow> clocked lo xs \<Longrightarrow> spaced cd (au_scaled (run_evals oor wired xs st))"
proof (induction xs arbitrary: lo st)
  case (Cons x xs)
  obtain s a where x: "x = (s, a)" by fastforce
  show ?case using Cons.IH [OF evaluate_cooldown [OF Cons.prems(1), of a oor wired s]] Cons.prems(2) by (simp add: x)
qed (simp add: cooldown_inv_def)

text \<open>The cooldown is kept: in every sequence of evaluations, whatever servers they are for and whatever is answered, two
  decisions to scale by the same policy are at least its cooldown apart.\<close>

theorem cooldown_kept:
  assumes "au_scaled st = []" "\<And>p. p \<in> set (au_policies st) \<Longrightarrow> sy_cooldown p = cd (sy_id p)" "clocked lo xs"
  shows "spaced cd (au_scaled (run_evals oor wired xs st))"
  using assms by (intro run_evals_cooldown [of cd lo]) (simp_all add: cooldown_inv_def spaced_def)

definition sample_policy :: scaling_policy where
  "sample_policy = \<lparr>sy_id = ''p1'', sy_server = ''s1'', sy_enabled = True, sy_min_memory = 1024, sy_max_memory = 2048, sy_min_cpu = 100, sy_max_cpu = 0,
     sy_up = Fin (1 / 2), sy_down = Fin (1 / 4), sy_cooldown = 120, sy_poll = 30, sy_up_factor = Fin 4, sy_down_factor = Fin (3 / 4),
     sy_up_step = 512, sy_down_step = 0, sy_created = 0\<rparr>"

definition sample_scaler :: autoscaler where
  "sample_scaler = \<lparr>au_policies = [sample_policy], au_events = [], au_cooldowns = Map.empty, au_scaled = []\<rparr>"

definition sample_eval :: "gotime \<Rightarrow> float64 \<Rightarrow> eval_answers" where
  "sample_eval t cpu = \<lparr>ea_list = True, ea_now = t, ea_later = t, ea_stored = t, ea_stats = Some (cpu, 0, 0), ea_update = True, ea_event = True\<rparr>"

definition sample_scaling :: scaling_event where
  "sample_scaling = \<lparr>sx_policy = ''p1'', sx_up = True, sx_old_memory = 1024, sx_new_memory = 1536, sx_old_cpu = 100, sx_new_cpu = 400, sx_created = 5\<rparr>"

lemma to_float64_numerals [simp]: "to_float64 0 = Fin 0" "to_float64 1 = Fin 1" "numeral n \<le> (2 ^ 53 :: int) \<Longrightarrow> to_float64 (numeral n) = Fin (numeral n)"
  using to_float64_int [of 0] to_float64_int [of 1] to_float64_int [of "numeral n"] by simp_all

lemmas scaling_defs = evaluate_server_def policies_of_def sample_scaler_def sample_policy_def sample_eval_def cooling_def cpu_usage_def mem_usage_def
  f_div_def f_mul_def f_of_int_def execute_scale_def scale_amount_def up_memory_def up_cpu_def down_memory_def down_cpu_def store_policy_def seconds_def

lemma sample_scaling_run: "fst (evaluate_server 0 True (sample_eval 5 (Fin 100)) ''s1'' sample_scaler) = EvEvent sample_scaling"
  by (simp add: scaling_defs sample_scaling_def Let_def)

text \<open>A factor of four, cut by the maximum and then by the step.\<close>

theorem scaling_within_limits_witness:
  "\<exists>p \<in> set (au_policies sample_scaler). sy_id p = ''p1'' \<and> event_within p sample_scaling"
  using scaling_within_limits [of 0 True "sample_eval 5 (Fin 100)" "''s1''" sample_scaler sample_scaling "snd (evaluate_server 0 True (sample_eval 5 (Fin 100)) ''s1'' sample_scaler)"]
    sample_scaling_run by (auto simp: prod_eq_iff sample_scaling_def)

text \<open>Three evaluations under load, the second during the cooldown.\<close>

theorem cooldown_kept_witness:
  "spaced (\<lambda>_. 120) (au_scaled (run_evals 0 True [(''s1'', sample_eval 5 (Fin 100)), (''s1'', sample_eval 6 (Fin 100)), (''s1'', sample_eval 200000000000 (Fin 100))] sample_scaler))"
  by (rule cooldown_kept [of sample_scaler "\<lambda>_. 120" 0]) (simp_all add: sample_scaler_def sample_policy_def sample_eval_def)

text \<open>The program gives the service nothing to ask for statistics: evaluating a server with an enabled policy is a panic.\<close>

theorem unwired_autoscaler_panics:
  assumes "find sy_enabled (policies_of s st) = Some p" "\<not> cooling (ea_now a) (sy_id p) st" "ea_list a"
  shows "evaluate_server oor False a s st = (EvPanic, st)"
  using assms by (simp add: evaluate_server_def)

text \<open>Scaling writes over the configured minimum, so it drifts: two scalings down bring a minimum of 1024 MB to 576 MB.\<close>

theorem minimum_drifts:
  "map sy_min_memory (au_policies (run_evals 0 True [(''s1'', sample_eval 5 (Fin 0)), (''s1'', sample_eval 200000000000 (Fin 0))] sample_scaler)) = [576]"
  by (simp add: scaling_defs Let_def)

end
