(* ===== verification/Crash_Detector.thy ===== *)
theory Crash_Detector
  imports Forge_Prelude
begin

text \<open>
  The crash detector of the panel (\<^verbatim>\<open>services/crashdetector/service.go\<close>) with the count of recent crashes
  (\<^verbatim>\<open>store/store_server_crashes.go\<close>). The detector keeps its states in memory; calls of the two callbacks (a restart is
  asked for, the server is suspended) are recorded in a log. The clock is an argument. The lock of a state makes a report one step. What is stored of a crash besides server,
  time and whether it counts as restarted is left out.
\<close>

section \<open>Operations\<close>

record crash_config =
  cf_threshold :: int
  cf_window :: duration
  cf_cooldown :: duration
  cf_auto :: bool
  cf_max :: int

definition crash_default_config :: crash_config where
  "crash_default_config = \<lparr>cf_threshold = 3, cf_window = 5 * minute, cf_cooldown = minute, cf_auto = True, cf_max = 3\<rparr>"

record crash_state =
  ck_crashes :: "gotime list"
  ck_restarts :: int
  ck_last :: "gotime option"
  ck_suspended :: bool

datatype crash_action = CrashRestart string nat gotime | CrashSuspend string gotime

record detector =
  dt_states :: "string \<rightharpoonup> crash_state"
  dt_log :: "crash_action list"
  dt_table :: "(string \<times> bool \<times> gotime) list"

definition new_crash_state :: crash_state where
  "new_crash_state = \<lparr>ck_crashes = [], ck_restarts = 0, ck_last = None, ck_suspended = False\<rparr>"

definition recent_crashes :: "crash_config \<Rightarrow> gotime \<Rightarrow> gotime list \<Rightarrow> gotime list" where
  "recent_crashes cf now ts = filter (\<lambda>t. now - cf_window cf < t) ts"

text \<open>The decision after a crash was counted: the new state and the calls.\<close>

definition crash_decision :: "crash_config \<Rightarrow> gotime \<Rightarrow> string \<Rightarrow> nat \<Rightarrow> crash_state \<Rightarrow> crash_state \<times> crash_action list" where
  "crash_decision cf now s n c =
     (if (case ck_last c of None \<Rightarrow> False | Some l \<Rightarrow> now - l < cf_cooldown cf) then (c, [])
      else if int n < cf_threshold cf then (c, [])
      else let restart = (cf_auto cf \<and> ck_restarts c < cf_max cf);
               c1 = c\<lparr>ck_last := Some now, ck_restarts := (if restart then ck_restarts c + 1 else ck_restarts c)\<rparr>;
               l1 = (if restart then [CrashRestart s n now] else []) in
           if cf_max cf \<le> ck_restarts c1 then (c1\<lparr>ck_suspended := True\<rparr>, l1 @ [CrashSuspend s now]) else (c1, l1))"

definition report_crash :: "crash_config \<Rightarrow> bool \<Rightarrow> gotime \<Rightarrow> string \<Rightarrow> detector \<Rightarrow> detector" where
  "report_crash cf ok now s d =
     (let c0 = (case dt_states d s of None \<Rightarrow> new_crash_state | Some c \<Rightarrow> c);
          c = c0\<lparr>ck_crashes := recent_crashes cf now (ck_crashes c0 @ [now])\<rparr>;
          n = length (ck_crashes c);
          tab = (if ok then dt_table d @ [(s, cf_auto cf \<and> cf_threshold cf \<le> int n, now)] else dt_table d) in
      case crash_decision cf now s n c of
        (c1, l) \<Rightarrow> \<lparr>dt_states = (dt_states d)(s \<mapsto> c1), dt_log = dt_log d @ l, dt_table = tab\<rparr>)"

definition count_recent_crashes :: "crash_config \<Rightarrow> gotime \<Rightarrow> string \<Rightarrow> detector \<Rightarrow> nat" where
  "count_recent_crashes cf now s d = length (filter (\<lambda>x. fst x = s \<and> now - cf_window cf \<le> snd (snd x)) (dt_table d))"

text \<open>Reading a state that is not in memory makes one, with every recent crash at the present time.\<close>

definition get_crash_state :: "crash_config \<Rightarrow> bool \<Rightarrow> gotime \<Rightarrow> string \<Rightarrow> detector \<Rightarrow> crash_state option \<times> detector" where
  "get_crash_state cf ok now s d =
     (case dt_states d s of
        Some c \<Rightarrow> (Some c, d)
      | None \<Rightarrow>
          let n = count_recent_crashes cf now s d in
          if ok \<and> 0 < n
          then let c = new_crash_state\<lparr>ck_crashes := replicate n now\<rparr> in (Some c, d\<lparr>dt_states := (dt_states d)(s \<mapsto> c)\<rparr>)
          else (None, d))"

definition reset_crashes :: "string \<Rightarrow> detector \<Rightarrow> detector" where
  "reset_crashes s d = d\<lparr>dt_states := (dt_states d)(s := None)\<rparr>"

section \<open>Restarts\<close>

definition restart_of :: "string \<Rightarrow> crash_action \<Rightarrow> gotime list" where
  "restart_of s a = (case a of CrashRestart x n t \<Rightarrow> if x = s then [t] else [] | CrashSuspend x t \<Rightarrow> [])"

definition restart_times :: "string \<Rightarrow> crash_action list \<Rightarrow> gotime list" where
  "restart_times s l = concat (map (restart_of s) l)"

fun report_all :: "crash_config \<Rightarrow> (string \<times> bool \<times> gotime) list \<Rightarrow> detector \<Rightarrow> detector" where
  "report_all cf [] d = d"
| "report_all cf ((s, ok, t) # xs) d = report_all cf xs (report_crash cf ok t s d)"

definition empty_detector :: detector where
  "empty_detector = \<lparr>dt_states = Map.empty, dt_log = [], dt_table = []\<rparr>"

text \<open>What the state of one server and the times of its restarts have in common.\<close>

definition restarts_inv :: "crash_config \<Rightarrow> crash_state \<Rightarrow> gotime list \<Rightarrow> bool" where
  "restarts_inv cf c ts \<longleftrightarrow> int (length ts) = ck_restarts c \<and> length ts \<le> nat (cf_max cf) \<and>
     sorted_wrt (\<lambda>x y. x + cf_cooldown cf \<le> y) ts \<and> (\<forall>t \<in> set ts. \<exists>l. ck_last c = Some l \<and> t \<le> l) \<and>
     (0 < cf_max cf \<and> length ts = nat (cf_max cf) \<longrightarrow> ck_suspended c)"

definition detector_inv :: "crash_config \<Rightarrow> detector \<Rightarrow> bool" where
  "detector_inv cf d \<longleftrightarrow>
     (\<forall>s. restarts_inv cf (case dt_states d s of None \<Rightarrow> new_crash_state | Some c \<Rightarrow> c) (restart_times s (dt_log d)))"

lemma restart_times_append [simp]: "restart_times s (l @ m) = restart_times s l @ restart_times s m"
  by (simp add: restart_times_def)

lemma restart_times_Cons [simp]: "restart_times s (a # l) = restart_of s a @ restart_times s l" "restart_times s [] = []"
  by (simp_all add: restart_times_def)

lemma restart_of_simps [simp]: "restart_of s (CrashRestart x n t) = (if x = s then [t] else [])" "restart_of s (CrashSuspend x t) = []"
  by (simp_all add: restart_of_def)

lemma decision_other: "crash_decision cf now s n c = (c1, l) \<Longrightarrow> x \<noteq> s \<Longrightarrow> restart_times x l = []"
  by (auto simp: crash_decision_def Let_def split: if_splits)

text \<open>A decision either leaves the state, or it is later than the last one by the cooldown.\<close>

lemma decision_cases:
  assumes d: "crash_decision cf now s n c = (c1, l)"
  obtains "c1 = c" "restart_times s l = []"
  | "\<forall>x. ck_last c = Some x \<longrightarrow> x + cf_cooldown cf \<le> now" "cf_threshold cf \<le> int n" "ck_last c1 = Some now"
    "ck_restarts c < cf_max cf" "ck_restarts c1 = ck_restarts c + 1" "restart_times s l = [now]" "cf_max cf \<le> ck_restarts c + 1 \<longrightarrow> ck_suspended c1"
  | "\<forall>x. ck_last c = Some x \<longrightarrow> x + cf_cooldown cf \<le> now" "ck_last c1 = Some now" "ck_restarts c1 = ck_restarts c" "restart_times s l = []"
    "ck_suspended c \<longrightarrow> ck_suspended c1"
proof (cases "(case ck_last c of None \<Rightarrow> False | Some x \<Rightarrow> now - x < cf_cooldown cf) \<or> int n < cf_threshold cf")
  case True
  then show ?thesis using d by (intro that(1)) (auto simp: crash_decision_def split: if_splits)
next
  case False
  then have late: "\<forall>x. ck_last c = Some x \<longrightarrow> x + cf_cooldown cf \<le> now" by auto
  show ?thesis
  proof (cases "cf_auto cf \<and> ck_restarts c < cf_max cf")
    case True
    show ?thesis by (rule that(2) [OF late]) (use d False True in \<open>auto simp: crash_decision_def Let_def split: if_splits\<close>)
  next
    case auto: False
    show ?thesis by (rule that(3) [OF late]) (use d False auto in \<open>auto simp: crash_decision_def Let_def split: if_splits\<close>)
  qed
qed

lemma decision_inv:
  assumes inv: "restarts_inv cf c ts" and cd: "0 \<le> cf_cooldown cf" and d: "crash_decision cf now s n c = (c1, l)"
  shows "restarts_inv cf c1 (ts @ restart_times s l)"
  using d
proof (cases rule: decision_cases)
  case 1
  then show ?thesis using inv by simp
next
  case 2
  have "t + cf_cooldown cf \<le> now" if "t \<in> set ts" for t using inv 2(1) that by (fastforce simp: restarts_inv_def)
  then show ?thesis using inv 2 cd by (force simp: restarts_inv_def sorted_wrt_append)
next
  case 3
  have "t \<le> now" if "t \<in> set ts" for t using inv 3(1) that cd by (force simp: restarts_inv_def)
  then show ?thesis using inv 3 by (auto simp: restarts_inv_def)
qed

lemma restarts_inv_crashes [simp]: "restarts_inv cf (c\<lparr>ck_crashes := xs\<rparr>) ts = restarts_inv cf c ts"
  by (simp add: restarts_inv_def)

lemma report_inv:
  assumes "detector_inv cf d" "0 \<le> cf_cooldown cf"
  shows "detector_inv cf (report_crash cf ok now s d)"
proof -
  let ?c0 = "case dt_states d s of None \<Rightarrow> new_crash_state | Some c \<Rightarrow> c"
  let ?c = "?c0\<lparr>ck_crashes := recent_crashes cf now (ck_crashes ?c0 @ [now])\<rparr>"
  obtain c1 l where dec: "crash_decision cf now s (length (ck_crashes ?c)) ?c = (c1, l)" by fastforce
  have "restarts_inv cf ?c (restart_times s (dt_log d))" using assms(1) by (simp add: detector_inv_def)
  then have "restarts_inv cf c1 (restart_times s (dt_log d) @ restart_times s l)" using assms(2) dec by (rule decision_inv)
  moreover have "restart_times x l = []" if "x \<noteq> s" for x using dec that by (rule decision_other)
  ultimately show ?thesis using assms(1) dec by (simp add: detector_inv_def report_crash_def Let_def)
qed

lemma report_all_inv: "detector_inv cf d \<Longrightarrow> 0 \<le> cf_cooldown cf \<Longrightarrow> detector_inv cf (report_all cf xs d)"
  by (induction cf xs d rule: report_all.induct) (simp_all add: report_inv)

lemma empty_inv: "detector_inv cf empty_detector"
  by (simp add: detector_inv_def restarts_inv_def empty_detector_def new_crash_state_def)

text \<open>However often the servers crash, a server is restarted at most as often as the configuration says, the restarts are
  apart by the cooldown, and after the last one the server is suspended.\<close>

theorem restarts_bounded:
  assumes "0 \<le> cf_cooldown cf" "d = report_all cf xs empty_detector"
  shows "length (restart_times s (dt_log d)) \<le> nat (cf_max cf)"
    and "sorted_wrt (\<lambda>x y. x + cf_cooldown cf \<le> y) (restart_times s (dt_log d))"
    and "0 < cf_max cf \<Longrightarrow> length (restart_times s (dt_log d)) = nat (cf_max cf) \<Longrightarrow> \<exists>c. dt_states d s = Some c \<and> ck_suspended c"
proof -
  have "restarts_inv cf (case dt_states d s of None \<Rightarrow> new_crash_state | Some c \<Rightarrow> c) (restart_times s (dt_log d))"
    using report_all_inv [OF empty_inv assms(1)] unfolding assms(2) detector_inv_def by blast
  then show "length (restart_times s (dt_log d)) \<le> nat (cf_max cf)" "sorted_wrt (\<lambda>x y. x + cf_cooldown cf \<le> y) (restart_times s (dt_log d))"
    "0 < cf_max cf \<Longrightarrow> length (restart_times s (dt_log d)) = nat (cf_max cf) \<Longrightarrow> \<exists>c. dt_states d s = Some c \<and> ck_suspended c"
    by (auto simp: restarts_inv_def new_crash_state_def split: option.splits)
qed

definition crash_series :: "nat \<Rightarrow> (string \<times> bool \<times> gotime) list" where
  "crash_series n = map (\<lambda>i. (''s1'', True, int i * minute)) [0 ..< n]"

text \<open>With the default configuration, a server that crashes every minute is restarted with the third, fourth and fifth crash, and the last
  restart suspends it in the same call.\<close>

lemma default_crash_series:
  "dt_log (report_all crash_default_config (crash_series 6) empty_detector) =
     [CrashRestart ''s1'' 3 (2 * minute), CrashRestart ''s1'' 4 (3 * minute), CrashRestart ''s1'' 5 (4 * minute), CrashSuspend ''s1'' (4 * minute),
      CrashSuspend ''s1'' (5 * minute)]"
  by code_simp

text \<open>After a restart of the panel the memory is empty, and reading the state from the table forgets the restarts: the
  server that was suspended is restarted by its next crash.\<close>

lemma reread_state_restarts_again:
  "let d = report_all crash_default_config (crash_series 5) empty_detector;
       d1 = snd (get_crash_state crash_default_config True (5 * minute) ''s1'' (d\<lparr>dt_states := Map.empty\<rparr>)) in
   restart_times ''s1'' (dt_log (report_crash crash_default_config True (6 * minute) ''s1'' d1)) =
     [2 * minute, 3 * minute, 4 * minute, 6 * minute]"
  by code_simp

end
