(* ===== verification/Schedule_Table.thy ===== *)
theory Schedule_Table
  imports Cluster_Manager
begin

text \<open>
  The tables of schedules, their tasks and runs (\<^verbatim>\<open>store/store_schedules.go\<close>), and the leases by which workers claim a
  schedule (\<^verbatim>\<open>store/store_schedule_leases.go\<close>). A transaction is one definition. \<open>ok\<close> says whether the database carries it
  out, \<open>t\<close> is the clock of the database, and \<open>skip\<close> names the rows other transactions have locked. Of a payload only
  texts matter; a value of another type is \<open>POther\<close>. Audit entries, notifications and times of rows that nothing reads are left
  out.
\<close>

section \<open>Rows\<close>

record schedule_row =
  sd_id :: string
  sd_server :: string
  sd_name :: string
  sd_minute :: string
  sd_hour :: string
  sd_dom :: string
  sd_month :: string
  sd_dow :: string
  sd_zone :: string
  sd_online :: bool
  sd_enabled :: bool
  sd_last :: "gotime option"
  sd_next :: "gotime option"
  sd_created :: gotime
  sd_owner :: "string option"
  sd_expires :: "gotime option"

datatype payload_value = PText string | POther

record schedule_task =
  tk_id :: string
  tk_schedule :: string
  tk_sequence :: int
  tk_action :: string
  tk_payload :: "(string \<times> payload_value) list"
  tk_offset :: int
  tk_continue :: bool

datatype run_status = RunRunning | RunSuccess | RunFailed | RunPartial | RunSkipped

record schedule_run =
  rr_id :: string
  rr_schedule :: string
  rr_server :: string
  rr_status :: run_status
  rr_trigger :: string
  rr_worker :: "string option"
  rr_expires :: "gotime option"
  rr_error :: "string option"

datatype task_status = TaskSuccess | TaskFailed | TaskSkipped

datatype node_call = CallPower string string | CallBackup string | CallCommand string string

text \<open>\<open>sb_calls\<close> is not in the code: it keeps the requests to nodes.\<close>

record schedule_db =
  sb_schedules :: "schedule_row list"
  sb_tasks :: "schedule_task list"
  sb_runs :: "schedule_run list"
  sb_task_runs :: "(string \<times> string \<times> task_status) list"
  sb_panel :: panel_db
  sb_calls :: "node_call list"

datatype schedule_error =
    SchDb | NoScheduleName | NoSuchSchedule | NoAction | BadOffset | NoSuchTask | BadAction
  | LeaseNotOwned | RunLeaseLost | LeaseLost | BadCron | RunCanceled | NotClaimable

definition get_schedule :: "string \<Rightarrow> string \<Rightarrow> schedule_db \<Rightarrow> schedule_row option" where
  "get_schedule s i db = find (\<lambda>d. sd_id d = i \<and> sd_server d = s) (sb_schedules db)"

definition task_before :: "schedule_task \<Rightarrow> schedule_task \<Rightarrow> bool" where
  "task_before a b = (tk_sequence a < tk_sequence b)"

definition tasks_of :: "string \<Rightarrow> schedule_db \<Rightarrow> schedule_task list" where
  "tasks_of i db = slice_stable task_before (filter (\<lambda>k. tk_schedule k = i) (sb_tasks db))"

definition map_schedules :: "(schedule_row \<Rightarrow> bool) \<Rightarrow> (schedule_row \<Rightarrow> schedule_row) \<Rightarrow> schedule_db \<Rightarrow> schedule_db" where
  "map_schedules P f db = db\<lparr>sb_schedules := map (\<lambda>d. if P d then f d else d) (sb_schedules db)\<rparr>"

definition map_runs :: "(schedule_run \<Rightarrow> bool) \<Rightarrow> (schedule_run \<Rightarrow> schedule_run) \<Rightarrow> schedule_db \<Rightarrow> schedule_db" where
  "map_runs P f db = db\<lparr>sb_runs := map (\<lambda>r. if P r then f r else r) (sb_runs db)\<rparr>"

section \<open>Managing schedules and tasks\<close>

record schedule_request =
  sh_name :: string
  sh_minute :: string
  sh_hour :: string
  sh_dom :: string
  sh_month :: string
  sh_dow :: string
  sh_zone :: string
  sh_online :: bool
  sh_enabled :: bool

definition or_star :: "string \<Rightarrow> string" where
  "or_star v = (if trim_space v = [] then ''*'' else v)"

definition create_schedule ::
  "bool \<Rightarrow> gotime \<Rightarrow> string \<Rightarrow> string \<Rightarrow> schedule_request \<Rightarrow> schedule_db \<Rightarrow> (schedule_error + schedule_row) \<times> schedule_db" where
  "create_schedule ok t i s q db =
     (if trim_space (sh_name q) = [] then (Inl NoScheduleName, db)
      else if \<not> ok \<or> get_panel_server (sb_panel db) s = None \<or> (\<exists>d \<in> set (sb_schedules db). sd_id d = i) then (Inl SchDb, db)
      else let d = \<lparr>sd_id = i, sd_server = s, sd_name = trim_space (sh_name q), sd_minute = or_star (sh_minute q), sd_hour = or_star (sh_hour q),
                    sd_dom = or_star (sh_dom q), sd_month = or_star (sh_month q), sd_dow = or_star (sh_dow q),
                    sd_zone = (if trim_space (sh_zone q) = [] then ''UTC'' else sh_zone q), sd_online = sh_online q, sd_enabled = sh_enabled q,
                    sd_last = None, sd_next = None, sd_created = t, sd_owner = None, sd_expires = None\<rparr> in
           (Inr d, db\<lparr>sb_schedules := sb_schedules db @ [d]\<rparr>))"

record schedule_patch =
  sf_name :: "string option"
  sf_minute :: "string option"
  sf_hour :: "string option"
  sf_dom :: "string option"
  sf_month :: "string option"
  sf_dow :: "string option"
  sf_zone :: "string option"
  sf_online :: "bool option"
  sf_enabled :: "bool option"

definition patched_schedule :: "schedule_patch \<Rightarrow> schedule_row \<Rightarrow> schedule_row" where
  "patched_schedule p d = d\<lparr>sd_name := or_else (sf_name p) (sd_name d), sd_minute := or_else (sf_minute p) (sd_minute d),
     sd_hour := or_else (sf_hour p) (sd_hour d), sd_dom := or_else (sf_dom p) (sd_dom d), sd_month := or_else (sf_month p) (sd_month d),
     sd_dow := or_else (sf_dow p) (sd_dow d), sd_zone := or_else (sf_zone p) (sd_zone d), sd_online := or_else (sf_online p) (sd_online d),
     sd_enabled := or_else (sf_enabled p) (sd_enabled d)\<rparr>"

definition patch_schedule :: "bool \<Rightarrow> string \<Rightarrow> string \<Rightarrow> schedule_patch \<Rightarrow> schedule_db \<Rightarrow> (schedule_error + unit) \<times> schedule_db" where
  "patch_schedule ok s i p db =
     (if \<not> ok then (Inl SchDb, db)
      else if get_schedule s i db = None then (Inl NoSuchSchedule, db)
      else (Inr (), map_schedules (\<lambda>d. sd_id d = i \<and> sd_server d = s) (patched_schedule p) db))"

text \<open>Deleting a schedule deletes its tasks and runs, and with a run or a task its task runs.\<close>

definition delete_schedule :: "bool \<Rightarrow> string \<Rightarrow> string \<Rightarrow> schedule_db \<Rightarrow> (schedule_error + unit) \<times> schedule_db" where
  "delete_schedule ok s i db =
     (if \<not> ok then (Inl SchDb, db)
      else if get_schedule s i db = None then (Inl NoSuchSchedule, db)
      else let runs = filter (\<lambda>r. rr_schedule r \<noteq> i) (sb_runs db); tasks = filter (\<lambda>k. tk_schedule k \<noteq> i) (sb_tasks db) in
        (Inr (), db\<lparr>sb_schedules := filter (\<lambda>d. \<not> (sd_id d = i \<and> sd_server d = s)) (sb_schedules db), sb_tasks := tasks, sb_runs := runs,
           sb_task_runs := filter (\<lambda>x. fst x \<in> rr_id ` set runs \<and> fst (snd x) \<in> tk_id ` set tasks) (sb_task_runs db)\<rparr>))"

definition is_valid_task_action :: "string \<Rightarrow> bool" where
  "is_valid_task_action a = (ascii_lower (trim_space a) \<in> {''power'', ''backup'', ''command''})"

definition max_sequence :: "schedule_task list \<Rightarrow> int" where
  "max_sequence ks = (case ks of [] \<Rightarrow> 0 | k # rest \<Rightarrow> fold (\<lambda>x m. max m (tk_sequence x)) rest (tk_sequence k))"

text \<open>The table refuses a second task with the same sequence in a schedule, sequences that are not positive, and negative offsets.\<close>

definition task_row_ok :: "schedule_db \<Rightarrow> schedule_task \<Rightarrow> bool" where
  "task_row_ok db k \<longleftrightarrow> 0 < tk_sequence k \<and> 0 \<le> tk_offset k \<and>
     (\<forall>x \<in> set (sb_tasks db). tk_schedule x = tk_schedule k \<and> tk_sequence x = tk_sequence k \<longrightarrow> tk_id x = tk_id k)"

definition create_schedule_task ::
  "bool \<Rightarrow> string \<Rightarrow> string \<Rightarrow> schedule_task \<Rightarrow> schedule_db \<Rightarrow> (schedule_error + schedule_task) \<times> schedule_db" where
  "create_schedule_task ok s i q db =
     (if trim_space (tk_action q) = [] then (Inl NoAction, db)
      else if tk_offset q < 0 then (Inl BadOffset, db)
      else if \<not> ok then (Inl SchDb, db)
      else if get_schedule s i db = None then (Inl NoSuchSchedule, db)
      else let n = (if tk_sequence q \<le> 0 then max_sequence (filter (\<lambda>k. tk_schedule k = i) (sb_tasks db)) + 1 else tk_sequence q);
               k = q\<lparr>tk_schedule := i, tk_sequence := n, tk_action := trim_space (tk_action q)\<rparr> in
           if task_row_ok db k \<and> tk_id k \<notin> tk_id ` set (sb_tasks db) then (Inr k, db\<lparr>sb_tasks := sb_tasks db @ [k]\<rparr>) else (Inl SchDb, db))"

record task_patch =
  tf_sequence :: "int option"
  tf_action :: "string option"
  tf_payload :: "(string \<times> payload_value) list option"
  tf_offset :: "int option"
  tf_continue :: "bool option"

definition patched_task :: "task_patch \<Rightarrow> schedule_task \<Rightarrow> schedule_task" where
  "patched_task p k = k\<lparr>tk_sequence := or_else (tf_sequence p) (tk_sequence k), tk_action := or_else (tf_action p) (tk_action k),
     tk_payload := or_else (tf_payload p) (tk_payload k), tk_offset := or_else (tf_offset p) (tk_offset k), tk_continue := or_else (tf_continue p) (tk_continue k)\<rparr>"

definition task_in :: "string \<Rightarrow> string \<Rightarrow> string \<Rightarrow> schedule_db \<Rightarrow> schedule_task option" where
  "task_in s i k db = (if get_schedule s i db = None then None else find (\<lambda>x. tk_id x = k \<and> tk_schedule x = i) (sb_tasks db))"

definition patch_schedule_task ::
  "bool \<Rightarrow> string \<Rightarrow> string \<Rightarrow> string \<Rightarrow> task_patch \<Rightarrow> schedule_db \<Rightarrow> (schedule_error + unit) \<times> schedule_db" where
  "patch_schedule_task ok s i k p db =
     (if (case tf_action p of None \<Rightarrow> False | Some a \<Rightarrow> \<not> is_valid_task_action a) then (Inl BadAction, db)
      else if \<not> ok then (Inl SchDb, db)
      else case task_in s i k db of
        None \<Rightarrow> (Inl NoSuchTask, db)
      | Some x \<Rightarrow>
          if task_row_ok db (patched_task p x)
          then (Inr (), db\<lparr>sb_tasks := map (\<lambda>y. if tk_id y = k \<and> tk_schedule y = i then patched_task p y else y) (sb_tasks db)\<rparr>)
          else (Inl SchDb, db))"

definition delete_schedule_task :: "bool \<Rightarrow> string \<Rightarrow> string \<Rightarrow> string \<Rightarrow> schedule_db \<Rightarrow> (schedule_error + unit) \<times> schedule_db" where
  "delete_schedule_task ok s i k db =
     (if \<not> ok then (Inl SchDb, db)
      else if task_in s i k db = None then (Inl NoSuchTask, db)
      else (Inr (), db\<lparr>sb_tasks := filter (\<lambda>y. \<not> (tk_id y = k \<and> tk_schedule y = i)) (sb_tasks db),
              sb_task_runs := filter (\<lambda>x. fst (snd x) \<noteq> k) (sb_task_runs db)\<rparr>))"

section \<open>What is due\<close>

text \<open>The condition on the server in the queries of schedules, with the join that needs the row.\<close>

definition server_allows :: "schedule_db \<Rightarrow> schedule_row \<Rightarrow> bool" where
  "server_allows db d =
     (case get_panel_server (sb_panel db) (sd_server d) of None \<Rightarrow> False | Some s \<Rightarrow> \<not> sd_online d \<or> sw_status s = ''running'')"

fun next_before :: "gotime option \<Rightarrow> gotime option \<Rightarrow> bool" where
  "next_before None None = False"
| "next_before None (Some b) = True"
| "next_before (Some a) None = False"
| "next_before (Some a) (Some b) = (a < b)"

text \<open>\<^verbatim>\<open>ORDER BY next_run_at, created_at\<close>, with the missing first.\<close>

definition due_before :: "schedule_row \<Rightarrow> schedule_row \<Rightarrow> bool" where
  "due_before a b \<longleftrightarrow> next_before (sd_next a) (sd_next b) \<or> sd_next a = sd_next b \<and> sd_created a < sd_created b"

definition list_due_schedules :: "gotime \<Rightarrow> int \<Rightarrow> schedule_db \<Rightarrow> schedule_row list" where
  "list_due_schedules now limit db =
     take (nat (if limit \<le> 0 then 100 else limit))
       (slice_stable due_before (filter (\<lambda>d. sd_enabled d \<and> (case sd_next d of None \<Rightarrow> True | Some n \<Rightarrow> n \<le> now) \<and> server_allows db d) (sb_schedules db)))"

definition next_schedule_run_at :: "gotime \<Rightarrow> schedule_db \<Rightarrow> gotime option" where
  "next_schedule_run_at now db =
     (case concat (map (\<lambda>d. case sd_next d of None \<Rightarrow> [] | Some n \<Rightarrow> if sd_enabled d \<and> server_allows db d \<and> now \<le> n then [n] else []) (sb_schedules db)) of
        [] \<Rightarrow> None | n # ns \<Rightarrow> Some (fold min ns n))"

definition update_schedule_run_meta :: "bool \<Rightarrow> string \<Rightarrow> gotime option \<Rightarrow> gotime option \<Rightarrow> schedule_db \<Rightarrow> schedule_db" where
  "update_schedule_run_meta ok i l n db =
     (if ok then map_schedules (\<lambda>d. sd_id d = i)
        (\<lambda>d. d\<lparr>sd_last := (if l = None then sd_last d else l), sd_next := (if n = None then sd_next d else n)\<rparr>) db else db)"

section \<open>Leases\<close>

definition lease_duration :: duration where
  "lease_duration = 5 * minute"

record schedule_claim =
  sl_schedule :: schedule_row
  sl_tasks :: "schedule_task list"
  sl_run :: string
  sl_worker :: string

definition past :: "gotime \<Rightarrow> gotime option \<Rightarrow> bool" where
  "past t e = (case e of None \<Rightarrow> False | Some x \<Rightarrow> x < t)"

definition expire_runs :: "gotime \<Rightarrow> schedule_db \<Rightarrow> schedule_db" where
  "expire_runs t = map_runs (\<lambda>r. rr_status r = RunRunning \<and> past t (rr_expires r))
     (\<lambda>r. r\<lparr>rr_status := RunFailed, rr_error := Some ''worker lease expired before completion''\<rparr>)"

definition expire_leases :: "gotime \<Rightarrow> schedule_db \<Rightarrow> schedule_db" where
  "expire_leases t = map_schedules (\<lambda>d. past t (sd_expires d)) (\<lambda>d. d\<lparr>sd_owner := None, sd_expires := None\<rparr>)"

fun split_manual_key :: "string \<Rightarrow> string \<times> string" where
  "split_manual_key [] = ([], [])"
| "split_manual_key (c # cs) = (if c = CHR '':'' then ([], cs) else (case split_manual_key cs of (a, b) \<Rightarrow> (c # a, b)))"

definition claimable :: "gotime \<Rightarrow> schedule_db \<Rightarrow> schedule_row \<Rightarrow> bool" where
  "claimable now db d \<longleftrightarrow> sd_enabled d \<and> (case sd_next d of None \<Rightarrow> False | Some n \<Rightarrow> n \<le> now) \<and> sd_owner d = None \<and> server_allows db d"

definition select_due :: "gotime \<Rightarrow> string list \<Rightarrow> schedule_db \<Rightarrow> schedule_row option" where
  "select_due now skip db =
     (case slice_stable due_before (filter (\<lambda>d. claimable now db d \<and> sd_id d \<notin> set skip) (sb_schedules db)) of [] \<Rightarrow> None | d # _ \<Rightarrow> Some d)"

definition select_manual :: "string \<times> string \<Rightarrow> string list \<Rightarrow> schedule_db \<Rightarrow> schedule_row option" where
  "select_manual k skip db =
     find (\<lambda>d. sd_id d = fst k \<and> sd_server d = snd k \<and> sd_owner d = None \<and> server_allows db d \<and> sd_id d \<notin> set skip) (sb_schedules db)"

text \<open>When no row is found the transaction is rolled back, with the leases it had expired.\<close>

definition claim_schedule ::
  "bool \<Rightarrow> gotime \<Rightarrow> gotime \<Rightarrow> string \<Rightarrow> string \<Rightarrow> string \<Rightarrow> string \<Rightarrow> string list \<Rightarrow> schedule_db \<Rightarrow>
     (schedule_error + schedule_claim option) \<times> schedule_db" where
  "claim_schedule ok now t w trigger key run skip db =
     (if \<not> ok then (Inl SchDb, db)
      else let db1 = expire_leases t (expire_runs t db) in
        case (if key = [] then select_due now skip db1 else select_manual (split_manual_key key) skip db1) of
          None \<Rightarrow> (Inr None, db)
        | Some d \<Rightarrow>
            let until = now + lease_duration;
                db2 = map_schedules (\<lambda>x. sd_id x = sd_id d) (\<lambda>x. x\<lparr>sd_owner := Some w, sd_expires := Some until\<rparr>) db1;
                r = \<lparr>rr_id = run, rr_schedule = sd_id d, rr_server = sd_server d, rr_status = RunRunning, rr_trigger = trigger, rr_worker = Some w,
                     rr_expires = Some until, rr_error = None\<rparr> in
            (Inr (Some \<lparr>sl_schedule = d, sl_tasks = tasks_of (sd_id d) db2, sl_run = run, sl_worker = w\<rparr>), db2\<lparr>sb_runs := sb_runs db2 @ [r]\<rparr>))"

definition claim_due_schedule :: "bool \<Rightarrow> gotime \<Rightarrow> gotime \<Rightarrow> string \<Rightarrow> string \<Rightarrow> string list \<Rightarrow> schedule_db \<Rightarrow> (schedule_error + schedule_claim option) \<times> schedule_db" where
  "claim_due_schedule ok now t w run skip db = claim_schedule ok now t w ''scheduler'' [] run skip db"

definition claim_manual_schedule ::
  "bool \<Rightarrow> gotime \<Rightarrow> gotime \<Rightarrow> string \<Rightarrow> string \<Rightarrow> string \<Rightarrow> string \<Rightarrow> string list \<Rightarrow> schedule_db \<Rightarrow> (schedule_error + schedule_claim option) \<times> schedule_db" where
  "claim_manual_schedule ok now t w s i run skip db = claim_schedule ok now t w ''manual'' (i @ '':'' @ s) run skip db"

definition owned_by :: "string \<Rightarrow> string \<Rightarrow> schedule_row \<Rightarrow> bool" where
  "owned_by i w d \<longleftrightarrow> sd_id d = i \<and> sd_owner d = Some w"

definition running_run :: "string \<Rightarrow> string \<Rightarrow> schedule_run \<Rightarrow> bool" where
  "running_run r w x \<longleftrightarrow> rr_id x = r \<and> rr_worker x = Some w \<and> rr_status x = RunRunning"

text \<open>The lease of the schedule is extended also when the run is no longer the worker's.\<close>

definition extend_schedule_lease :: "bool \<Rightarrow> string \<Rightarrow> string \<Rightarrow> string \<Rightarrow> gotime \<Rightarrow> schedule_db \<Rightarrow> (schedule_error + unit) \<times> schedule_db" where
  "extend_schedule_lease ok i r w until db =
     (if \<not> ok then (Inl SchDb, db)
      else let hit = (\<exists>d \<in> set (sb_schedules db). owned_by i w d);
               db1 = map_schedules (owned_by i w) (\<lambda>d. d\<lparr>sd_expires := Some until\<rparr>) db in
        if hit \<and> (\<exists>x \<in> set (sb_runs db). running_run r w x)
        then (Inr (), map_runs (running_run r w) (\<lambda>x. x\<lparr>rr_expires := Some until\<rparr>) db1)
        else (Inl LeaseNotOwned, db1))"

definition finish_schedule_claim ::
  "bool \<Rightarrow> schedule_claim \<Rightarrow> run_status \<Rightarrow> string option \<Rightarrow> gotime \<Rightarrow> gotime \<Rightarrow> schedule_db \<Rightarrow> (schedule_error + unit) \<times> schedule_db" where
  "finish_schedule_claim ok c st err l n db =
     (let i = sd_id (sl_schedule c); mine = (\<lambda>x. running_run (sl_run c) (sl_worker c) x \<and> rr_schedule x = i) in
      if \<not> ok then (Inl SchDb, db)
      else if \<not> (\<exists>x \<in> set (sb_runs db). mine x) then (Inl RunLeaseLost, db)
      else if \<not> (\<exists>d \<in> set (sb_schedules db). owned_by i (sl_worker c) d) then (Inl LeaseLost, db)
      else (Inr (), map_schedules (owned_by i (sl_worker c)) (\<lambda>d. d\<lparr>sd_last := Some l, sd_next := Some n, sd_owner := None, sd_expires := None\<rparr>)
             (map_runs mine (\<lambda>x. x\<lparr>rr_status := st, rr_error := err, rr_expires := None\<rparr>) db)))"

definition fail_schedule_claim :: "bool \<Rightarrow> schedule_claim \<Rightarrow> string \<Rightarrow> schedule_db \<Rightarrow> (schedule_error + unit) \<times> schedule_db" where
  "fail_schedule_claim ok c msg db =
     (let i = sd_id (sl_schedule c); mine = (\<lambda>x. running_run (sl_run c) (sl_worker c) x \<and> rr_schedule x = i) in
      if \<not> ok then (Inl SchDb, db)
      else (Inr (), map_schedules (owned_by i (sl_worker c)) (\<lambda>d. d\<lparr>sd_owner := None, sd_expires := None\<rparr>)
             (map_runs mine (\<lambda>x. x\<lparr>rr_status := RunFailed, rr_error := Some msg, rr_expires := None\<rparr>) db)))"

definition create_schedule_task_run :: "bool \<Rightarrow> string \<Rightarrow> string \<Rightarrow> task_status \<Rightarrow> schedule_db \<Rightarrow> schedule_db" where
  "create_schedule_task_run ok r k st db =
     (if ok \<and> r \<in> rr_id ` set (sb_runs db) \<and> k \<in> tk_id ` set (sb_tasks db) then db\<lparr>sb_task_runs := sb_task_runs db @ [(r, k, st)]\<rparr> else db)"


section \<open>Workers and their claims\<close>

text \<open>The tables together with the claims that workers hold. A worker that dies forgets its claims; the id of a worker is new
  with every start. The last hypothesis of a claim is the discipline that makes leases exclusive: a worker does not claim a schedule
  while it still works on an earlier claim of it.\<close>

type_synonym lease_world = "schedule_db \<times> schedule_claim list"

abbreviation sl_id :: "schedule_claim \<Rightarrow> string" where
  "sl_id c \<equiv> sd_id (sl_schedule c)"

inductive lease_step :: "lease_world \<Rightarrow> lease_world \<Rightarrow> bool" where
  claim: "claim_schedule ok now t w trigger key run skip db = (Inr (Some c), db') \<Longrightarrow> run \<notin> rr_id ` set (sb_runs db) \<Longrightarrow> run \<notin> sl_run ` set cs \<Longrightarrow>
     (\<forall>x \<in> set cs. \<not> (sl_worker x = w \<and> sl_id x = sl_id c)) \<Longrightarrow> lease_step (db, cs) (db', c # cs)"
| extend: "c \<in> set cs \<Longrightarrow> lease_step (db, cs) (snd (extend_schedule_lease ok (sl_id c) (sl_run c) (sl_worker c) until db), cs)"
| finish: "c \<in> set cs \<Longrightarrow> st \<noteq> RunRunning \<Longrightarrow> lease_step (db, cs) (snd (finish_schedule_claim ok c st err l n db), remove1 c cs)"
| fail: "c \<in> set cs \<Longrightarrow> lease_step (db, cs) (snd (fail_schedule_claim ok c msg db), remove1 c cs)"
| die: "lease_step (db, cs) (db, filter (\<lambda>c. sl_worker c \<noteq> w) cs)"
| create: "lease_step (db, cs) (snd (create_schedule ok t i s q db), cs)"
| patch: "lease_step (db, cs) (snd (patch_schedule ok s i p db), cs)"
| delete: "lease_step (db, cs) (snd (delete_schedule ok s i db), cs)"
| meta: "lease_step (db, cs) (update_schedule_run_meta ok i l n db, cs)"
| task_run: "lease_step (db, cs) (create_schedule_task_run ok r k ts db, cs)"
| tasks: "lease_step (db, cs) (db\<lparr>sb_tasks := ks, sb_task_runs := xs\<rparr>, cs)"
| servers: "lease_step (db, cs) (db\<lparr>sb_panel := p, sb_calls := calls\<rparr>, cs)"

definition live_run :: "schedule_run \<Rightarrow> bool" where
  "live_run r \<longleftrightarrow> rr_status r = RunRunning"

definition backs :: "schedule_row \<Rightarrow> schedule_run \<Rightarrow> bool" where
  "backs d r \<longleftrightarrow> sd_id d = rr_schedule r \<and> rr_worker r \<noteq> None \<and> sd_owner d = rr_worker r \<and> sd_expires d = rr_expires r"

definition leases_ok :: "lease_world \<Rightarrow> bool" where
  "leases_ok W \<longleftrightarrow> (let S = sb_schedules (fst W); R = sb_runs (fst W) in
     distinct (map sd_id S) \<and> distinct (map rr_id R) \<and>
     (\<forall>r \<in> set R. live_run r \<longrightarrow> (\<exists>d \<in> set S. backs d r)) \<and>
     (\<forall>r \<in> set R. \<forall>r' \<in> set R. live_run r \<and> live_run r' \<and> rr_schedule r = rr_schedule r' \<longrightarrow> rr_id r = rr_id r') \<and>
     (\<forall>c \<in> set (snd W). \<forall>r \<in> set R. rr_id r = sl_run c \<longrightarrow> rr_schedule r = sl_id c) \<and>
     (\<forall>c \<in> set (snd W). \<forall>r \<in> set R. live_run r \<and> rr_schedule r = sl_id c \<and> rr_worker r = Some (sl_worker c) \<longrightarrow> rr_id r = sl_run c))"

definition no_leases :: "lease_world \<Rightarrow> bool" where
  "no_leases W \<longleftrightarrow> distinct (map sd_id (sb_schedules (fst W))) \<and> distinct (map rr_id (sb_runs (fst W))) \<and> (\<forall>r \<in> set (sb_runs (fst W)). \<not> live_run r) \<and> snd W = []"

lemma leases_okI:
  assumes "distinct (map sd_id (sb_schedules db))" "distinct (map rr_id (sb_runs db))"
    "\<And>r. r \<in> set (sb_runs db) \<Longrightarrow> live_run r \<Longrightarrow> \<exists>d \<in> set (sb_schedules db). backs d r"
    "\<And>r r'. r \<in> set (sb_runs db) \<Longrightarrow> r' \<in> set (sb_runs db) \<Longrightarrow> live_run r \<Longrightarrow> live_run r' \<Longrightarrow> rr_schedule r = rr_schedule r' \<Longrightarrow> rr_id r = rr_id r'"
    "\<And>c r. c \<in> set cs \<Longrightarrow> r \<in> set (sb_runs db) \<Longrightarrow> rr_id r = sl_run c \<Longrightarrow> rr_schedule r = sl_id c"
    "\<And>c r. c \<in> set cs \<Longrightarrow> r \<in> set (sb_runs db) \<Longrightarrow> live_run r \<Longrightarrow> rr_schedule r = sl_id c \<Longrightarrow> rr_worker r = Some (sl_worker c) \<Longrightarrow> rr_id r = sl_run c"
  shows "leases_ok (db, cs)"
  using assms unfolding leases_ok_def Let_def fst_conv snd_conv by blast

lemma leases_okD:
  assumes "leases_ok (db, cs)"
  shows "distinct (map sd_id (sb_schedules db))" "distinct (map rr_id (sb_runs db))"
    "r \<in> set (sb_runs db) \<Longrightarrow> live_run r \<Longrightarrow> \<exists>d \<in> set (sb_schedules db). backs d r"
    "r \<in> set (sb_runs db) \<Longrightarrow> r' \<in> set (sb_runs db) \<Longrightarrow> live_run r \<Longrightarrow> live_run r' \<Longrightarrow> rr_schedule r = rr_schedule r' \<Longrightarrow> rr_id r = rr_id r'"
    "c \<in> set cs \<Longrightarrow> r \<in> set (sb_runs db) \<Longrightarrow> rr_id r = sl_run c \<Longrightarrow> rr_schedule r = sl_id c"
    "c \<in> set cs \<Longrightarrow> r \<in> set (sb_runs db) \<Longrightarrow> live_run r \<Longrightarrow> rr_schedule r = sl_id c \<Longrightarrow> rr_worker r = Some (sl_worker c) \<Longrightarrow> rr_id r = sl_run c"
  using assms unfolding leases_ok_def Let_def fst_conv snd_conv by blast+

text \<open>Updates of rows that change no key and start no run keep the invariant when a run that stays live keeps its schedule.\<close>

lemma leases_ok_map:
  assumes inv: "leases_ok (db, cs)" and S: "sb_schedules db' = map f (sb_schedules db)" and R: "sb_runs db' = map g (sb_runs db)" and C: "set cs' \<subseteq> set cs"
    and f: "\<And>d. sd_id (f d) = sd_id d"
    and g: "\<And>r. rr_id (g r) = rr_id r" "\<And>r. rr_schedule (g r) = rr_schedule r" "\<And>r. rr_worker (g r) = rr_worker r"
    and live: "\<And>r. live_run (g r) \<Longrightarrow> live_run r"
    and keep: "\<And>r d. r \<in> set (sb_runs db) \<Longrightarrow> d \<in> set (sb_schedules db) \<Longrightarrow> live_run (g r) \<Longrightarrow> backs d r \<Longrightarrow> backs (f d) (g r)"
  shows "leases_ok (db', cs')"
proof (rule leases_okI)
  note ok = leases_okD [OF inv]
  have "map sd_id (map f (sb_schedules db)) = map sd_id (sb_schedules db)" "map rr_id (map g (sb_runs db)) = map rr_id (sb_runs db)"
    using f g by simp_all
  then show "distinct (map sd_id (sb_schedules db'))" "distinct (map rr_id (sb_runs db'))" unfolding S R using ok(1,2) by (simp_all only:)
  have from_old: "\<exists>x \<in> set (sb_runs db). r = g x" if "r \<in> set (sb_runs db')" for r using that by (auto simp: R)
  show "\<exists>d \<in> set (sb_schedules db'). backs d r" if r: "r \<in> set (sb_runs db')" "live_run r" for r
  proof -
    obtain x where x: "x \<in> set (sb_runs db)" "r = g x" using from_old [OF r(1)] by blast
    then have "live_run x" using r(2) live by blast
    then obtain d where d: "d \<in> set (sb_schedules db)" "backs d x" using ok(3) [OF x(1)] by blast
    then have "backs (f d) r" using keep [OF x(1) d(1) _ d(2)] r(2) x(2) by blast
    then show ?thesis using d(1) by (auto simp: S)
  qed
  show "rr_id r = rr_id r'" if "r \<in> set (sb_runs db')" "r' \<in> set (sb_runs db')" "live_run r" "live_run r'" "rr_schedule r = rr_schedule r'" for r r'
    using from_old [OF that(1)] from_old [OF that(2)] that(3,4,5) ok(4) live by (metis g(1,2))
  show "rr_schedule r = sl_id c" if "c \<in> set cs'" "r \<in> set (sb_runs db')" "rr_id r = sl_run c" for c r
    using from_old [OF that(2)] that(1,3) ok(5) C by (metis g(1,2) subsetD)
  show "rr_id r = sl_run c" if "c \<in> set cs'" "r \<in> set (sb_runs db')" "live_run r" "rr_schedule r = sl_id c" "rr_worker r = Some (sl_worker c)" for c r
    using from_old [OF that(2)] that(1,3,4,5) ok(6) C live by (metis g(1,2,3) subsetD)
qed

lemma leases_ok_same: "leases_ok (db, cs) \<Longrightarrow> sb_schedules db' = sb_schedules db \<Longrightarrow> sb_runs db' = sb_runs db \<Longrightarrow> set cs' \<subseteq> set cs \<Longrightarrow> leases_ok (db', cs')"
  by (rule leases_ok_map [where f = id and g = id]) simp_all

lemma map_runs_none: "(\<And>x. x \<in> set (sb_runs db) \<Longrightarrow> \<not> P x) \<Longrightarrow> map_runs P h db = db"
  by (cases db) (auto simp: map_runs_def intro!: map_idI)

lemma expire_leases_ok:
  assumes "leases_ok (db, cs)"
  shows "leases_ok (expire_leases t (expire_runs t db), cs)"
  by (rule leases_ok_map [OF assms, where f = "\<lambda>d. if past t (sd_expires d) then d\<lparr>sd_owner := None, sd_expires := None\<rparr> else d"
        and g = "\<lambda>r. if rr_status r = RunRunning \<and> past t (rr_expires r) then r\<lparr>rr_status := RunFailed, rr_error := Some ''worker lease expired before completion''\<rparr> else r"])
    (auto simp: expire_leases_def expire_runs_def map_schedules_def map_runs_def live_run_def backs_def split: if_splits)

lemma extend_leases_ok:
  assumes inv: "leases_ok (db, cs)" and c: "c \<in> set cs"
  shows "leases_ok (snd (extend_schedule_lease ok (sl_id c) (sl_run c) (sl_worker c) until db), cs)"
proof -
  let ?hit = "\<exists>d \<in> set (sb_schedules db). owned_by (sl_id c) (sl_worker c) d" and ?run = "\<exists>x \<in> set (sb_runs db). running_run (sl_run c) (sl_worker c) x"
  let ?f = "\<lambda>d. if owned_by (sl_id c) (sl_worker c) d then d\<lparr>sd_expires := Some until\<rparr> else d"
  let ?g = "\<lambda>x. if ?hit \<and> running_run (sl_run c) (sl_worker c) x then x\<lparr>rr_expires := Some until\<rparr> else x"
  note ok = leases_okD [OF inv]
  have mine: "running_run (sl_run c) (sl_worker c) r = owned_by (sl_id c) (sl_worker c) d"
    if "r \<in> set (sb_runs db)" "live_run r" "backs d r" for r d
    using ok(5) [OF c that(1)] ok(6) [OF c that(1,2)] that(2,3) by (auto simp: running_run_def owned_by_def backs_def live_run_def)
  have kept: "leases_ok (map_runs (\<lambda>x. ?hit \<and> running_run (sl_run c) (sl_worker c) x) (\<lambda>x. x\<lparr>rr_expires := Some until\<rparr>)
      (map_schedules (owned_by (sl_id c) (sl_worker c)) (\<lambda>d. d\<lparr>sd_expires := Some until\<rparr>) db), cs)"
  proof (rule leases_ok_map [OF inv, where f = ?f and g = ?g])
    show "backs (?f d) (?g r)" if "r \<in> set (sb_runs db)" "d \<in> set (sb_schedules db)" "live_run (?g r)" "backs d r" for r d
    proof -
      have "live_run r" using that(3) by (auto simp: live_run_def split: if_splits)
      then show ?thesis using mine [OF that(1) _ that(4)] that(2,4) by (auto simp: backs_def)
    qed
  qed (auto simp: map_runs_def map_schedules_def live_run_def split: if_splits)
  have unchanged: "map_runs (\<lambda>x. ?hit \<and> running_run (sl_run c) (sl_worker c) x) h db1 = db1"
    if "\<not> (?hit \<and> ?run)" "sb_runs db1 = sb_runs db" for h db1
    by (rule map_runs_none) (use that in auto)
  show ?thesis
  proof (cases "?hit \<and> ?run")
    case True
    then have "(\<lambda>x. ?hit \<and> running_run (sl_run c) (sl_worker c) x) = running_run (sl_run c) (sl_worker c)" by auto
    then show ?thesis using kept True inv by (simp add: extend_schedule_lease_def)
  next
    case False
    then show ?thesis using kept inv unchanged [OF False] by (auto simp: extend_schedule_lease_def Let_def map_schedules_def)
  qed
qed

lemma finish_leases_ok:
  assumes inv: "leases_ok (db, cs)" and c: "c \<in> set cs" and cs: "set cs' \<subseteq> set cs" and st: "st \<noteq> RunRunning"
    and h: "\<And>d. sd_id (h d) = sd_id d"
  shows "leases_ok (map_schedules (owned_by (sl_id c) (sl_worker c)) h
    (map_runs (\<lambda>x. running_run (sl_run c) (sl_worker c) x \<and> rr_schedule x = sl_id c) (\<lambda>x. x\<lparr>rr_status := st, rr_error := err, rr_expires := None\<rparr>) db), cs')"
    (is "leases_ok (?db, _)")
proof (rule leases_ok_map [OF inv, where f = "\<lambda>d. if owned_by (sl_id c) (sl_worker c) d then h d else d"
      and g = "\<lambda>x. if running_run (sl_run c) (sl_worker c) x \<and> rr_schedule x = sl_id c then x\<lparr>rr_status := st, rr_error := err, rr_expires := None\<rparr> else x"])
  note ok = leases_okD [OF inv]
  let ?f = "\<lambda>d. if owned_by (sl_id c) (sl_worker c) d then h d else d"
  let ?g = "\<lambda>x. if running_run (sl_run c) (sl_worker c) x \<and> rr_schedule x = sl_id c then x\<lparr>rr_status := st, rr_error := err, rr_expires := None\<rparr> else x"
  show "backs (?f d) (?g r)" if r: "r \<in> set (sb_runs db)" "d \<in> set (sb_schedules db)" "live_run (?g r)" "backs d r" for r d
  proof -
    have "live_run r" "\<not> (running_run (sl_run c) (sl_worker c) r \<and> rr_schedule r = sl_id c)"
      using r(3) st by (auto simp: live_run_def split: if_splits)
    moreover then have "\<not> owned_by (sl_id c) (sl_worker c) d"
      using ok(6) [OF c r(1)] r(4) by (auto simp: running_run_def owned_by_def backs_def live_run_def)
    ultimately show ?thesis using r(4) by auto
  qed
qed (use cs h in \<open>auto simp: map_runs_def map_schedules_def live_run_def st running_run_def split: if_splits\<close>)

lemma select_due_some: "select_due now skip db = Some d \<Longrightarrow> d \<in> set (sb_schedules db) \<and> claimable now db d \<and> sd_id d \<notin> set skip"
proof -
  assume "select_due now skip db = Some d"
  then obtain ds where "slice_stable due_before (filter (\<lambda>d. claimable now db d \<and> sd_id d \<notin> set skip) (sb_schedules db)) = d # ds"
    by (auto simp: select_due_def split: list.splits)
  from arg_cong [OF this, of set] show ?thesis by auto
qed

text \<open>A claim takes a schedule that no live run is on.\<close>

lemma claim_cases:
  assumes "claim_schedule ok now t w trigger key run skip db = (Inr (Some c), db')"
  obtains d until where "d \<in> set (sb_schedules (expire_leases t (expire_runs t db)))" "sd_owner d = None" "sl_schedule c = d" "sl_run c = run" "sl_worker c = w"
    "sb_schedules db' = map (\<lambda>x. if sd_id x = sd_id d then x\<lparr>sd_owner := Some w, sd_expires := Some until\<rparr> else x) (sb_schedules (expire_leases t (expire_runs t db)))"
    "sb_runs db' = sb_runs (expire_leases t (expire_runs t db)) @ [\<lparr>rr_id = run, rr_schedule = sd_id d, rr_server = sd_server d, rr_status = RunRunning, rr_trigger = trigger,
       rr_worker = Some w, rr_expires = Some until, rr_error = None\<rparr>]"
proof -
  let ?db = "expire_leases t (expire_runs t db)"
  obtain d where d: "(if key = [] then select_due now skip ?db else select_manual (split_manual_key key) skip ?db) = Some d"
    using assms by (auto simp: claim_schedule_def Let_def split: if_splits option.splits)
  have "d \<in> set (sb_schedules ?db) \<and> sd_owner d = None"
  proof (cases "key = []")
    case True
    then have "select_due now skip ?db = Some d" using d by simp
    from select_due_some [OF this] show ?thesis by (simp add: claimable_def)
  next
    case False
    then show ?thesis using d by (auto simp: select_manual_def find_Some_iff)
  qed
  then show thesis using assms d by (intro that [of d "now + lease_duration"]) (auto simp: claim_schedule_def Let_def map_schedules_def split: if_splits)
qed

lemma claim_leases_ok:
  assumes inv: "leases_ok (db, cs)" and e: "claim_schedule ok now t w trigger key run skip db = (Inr (Some c), db')"
    and new: "run \<notin> rr_id ` set (sb_runs db)" "run \<notin> sl_run ` set cs" and once: "\<forall>x \<in> set cs. \<not> (sl_worker x = w \<and> sl_id x = sl_id c)"
  shows "leases_ok (db', c # cs)"
proof -
  let ?db = "expire_leases t (expire_runs t db)"
  note ok = leases_okD [OF expire_leases_ok [OF inv, of t]]
  from e obtain d until where d: "d \<in> set (sb_schedules ?db)" "sd_owner d = None" "sl_schedule c = d" "sl_run c = run" "sl_worker c = w"
    and S: "sb_schedules db' = map (\<lambda>x. if sd_id x = sd_id d then x\<lparr>sd_owner := Some w, sd_expires := Some until\<rparr> else x) (sb_schedules ?db)"
    and R: "sb_runs db' = sb_runs ?db @ [\<lparr>rr_id = run, rr_schedule = sd_id d, rr_server = sd_server d, rr_status = RunRunning, rr_trigger = trigger,
       rr_worker = Some w, rr_expires = Some until, rr_error = None\<rparr>]" (is "_ = _ @ [?r]")
    by (rule claim_cases)
  have "map rr_id (sb_runs ?db) = map rr_id (sb_runs db)" by (simp add: expire_leases_def expire_runs_def map_schedules_def map_runs_def)
  then have ids: "rr_id ` set (sb_runs ?db) = rr_id ` set (sb_runs db)" by (metis image_set)
  have idle: "rr_schedule r \<noteq> sd_id d" if r: "r \<in> set (sb_runs ?db)" "live_run r" for r
  proof
    assume *: "rr_schedule r = sd_id d"
    obtain x where x: "x \<in> set (sb_schedules ?db)" "backs x r" using ok(3) [OF r] by blast
    then have "x = d" using ok(1) d(1) * by (auto simp: backs_def distinct_map inj_on_def)
    then show False using x(2) d(2) by (auto simp: backs_def)
  qed
  show ?thesis
  proof (rule leases_okI)
    have "map sd_id (sb_schedules db') = map sd_id (sb_schedules ?db)" by (simp add: S)
    then show "distinct (map sd_id (sb_schedules db'))" using ok(1) by simp
    show "distinct (map rr_id (sb_runs db'))" using ok(2) new(1) by (simp add: R ids)
    show "\<exists>x \<in> set (sb_schedules db'). backs x r" if r0: "r \<in> set (sb_runs db')" "live_run r" for r
    proof (cases "r = ?r")
      case True
      have "d\<lparr>sd_owner := Some w, sd_expires := Some until\<rparr> \<in> set (sb_schedules db')" using d(1) by (force simp: S)
      then show ?thesis using True by (intro bexI [of _ "d\<lparr>sd_owner := Some w, sd_expires := Some until\<rparr>"]) (simp_all add: backs_def)
    next
      case False
      then have r: "r \<in> set (sb_runs ?db)" using r0(1) by (simp add: R)
      then obtain x where x: "x \<in> set (sb_schedules ?db)" "backs x r" using ok(3) r0(2) by blast
      then have "sd_id x \<noteq> sd_id d" using idle [OF r r0(2)] by (simp add: backs_def)
      then show ?thesis using x by (auto simp: S)
    qed
    have old: "r = ?r \<or> r \<in> set (sb_runs ?db)" if "r \<in> set (sb_runs db')" for r using that by (auto simp: R)
    have fresh: "rr_id r \<noteq> run" if "r \<in> set (sb_runs ?db)" for r using that new(1) ids by blast
    have mine: "rr_schedule ?r = sl_id c" "rr_id ?r = sl_run c" "rr_worker ?r = Some w" "sl_worker c = w" "sl_id c = sd_id d" using d(3,4,5) by simp_all
    show "rr_id r = rr_id r'" if r: "r \<in> set (sb_runs db')" "r' \<in> set (sb_runs db')" "live_run r" "live_run r'" "rr_schedule r = rr_schedule r'" for r r'
      using old [OF r(1)] old [OF r(2)] ok(4) [of r r'] idle [of r] idle [of r'] r(3,4,5) by fastforce
    show "rr_schedule r = sl_id x" if x: "x \<in> set (c # cs)" "r \<in> set (sb_runs db')" "rr_id r = sl_run x" for x r
    proof (cases "r = ?r")
      case True
      then have "x = c" using x(1,3) new(2) by (auto simp: image_iff)
      then show ?thesis using mine(1) True by simp
    next
      case False
      then have r: "r \<in> set (sb_runs ?db)" using old [OF x(2)] by blast
      then have "x \<in> set cs" using x(1,3) fresh [OF r] mine(2) by auto
      then show ?thesis using ok(5) [OF _ r x(3)] by blast
    qed
    show "rr_id r = sl_run x" if x: "x \<in> set (c # cs)" "r \<in> set (sb_runs db')" "live_run r" "rr_schedule r = sl_id x" "rr_worker r = Some (sl_worker x)" for x r
    proof (cases "r = ?r")
      case True
      then have "sl_worker x = w" "sl_id x = sl_id c" using x(4,5) mine by simp_all
      then have "x = c" using x(1) once by auto
      then show ?thesis using True mine(2) by simp
    next
      case False
      then have r: "r \<in> set (sb_runs ?db)" using old [OF x(2)] by blast
      then have "x \<noteq> c" using idle [OF r x(3)] x(4) mine(5) by auto
      then have "x \<in> set cs" using x(1) by simp
      then show ?thesis using ok(6) [OF _ r x(3,4,5)] by blast
    qed
  qed
qed

lemma delete_leases_ok:
  assumes inv: "leases_ok (db, cs)"
  shows "leases_ok (snd (delete_schedule ok s i db), cs)"
proof (cases "ok \<and> get_schedule s i db \<noteq> None")
  case True
  let ?S = "filter (\<lambda>d. \<not> (sd_id d = i \<and> sd_server d = s)) (sb_schedules db)" and ?R = "filter (\<lambda>r. rr_schedule r \<noteq> i) (sb_runs db)"
  note ok = leases_okD [OF inv]
  have S: "sb_schedules (snd (delete_schedule ok s i db)) = ?S" and R: "sb_runs (snd (delete_schedule ok s i db)) = ?R"
    using True by (auto simp: delete_schedule_def Let_def)
  show ?thesis
  proof (rule leases_okI, unfold S R)
    show "distinct (map sd_id ?S)" "distinct (map rr_id ?R)" using ok(1,2) by (simp_all add: distinct_map_filter)
    show "\<exists>d \<in> set ?S. backs d r" if r: "r \<in> set ?R" "live_run r" for r
    proof -
      obtain d where "d \<in> set (sb_schedules db)" "backs d r" using ok(3) [of r] r by auto
      then show ?thesis using r(1) by (intro bexI [of _ d]) (auto simp: backs_def)
    qed
    show "rr_id r = rr_id r'" if "r \<in> set ?R" "r' \<in> set ?R" "live_run r" "live_run r'" "rr_schedule r = rr_schedule r'" for r r'
      using ok(4) [of r r'] that by simp
    show "rr_schedule r = sl_id c" if "c \<in> set cs" "r \<in> set ?R" "rr_id r = sl_run c" for c r using ok(5) [of c r] that by simp
    show "rr_id r = sl_run c" if "c \<in> set cs" "r \<in> set ?R" "live_run r" "rr_schedule r = sl_id c" "rr_worker r = Some (sl_worker c)" for c r
      using ok(6) [of c r] that by simp
  qed
next
  case False
  then show ?thesis using inv by (auto simp: delete_schedule_def)
qed

lemma leases_ok_new:
  assumes "leases_ok (db, cs)" "sd_id d \<notin> sd_id ` set (sb_schedules db)"
  shows "leases_ok (db\<lparr>sb_schedules := sb_schedules db @ [d]\<rparr>, cs)"
proof -
  let ?db = "db\<lparr>sb_schedules := sb_schedules db @ [d]\<rparr>"
  note ok = leases_okD [OF assms(1)]
  have S: "sb_schedules ?db = sb_schedules db @ [d]" and R: "sb_runs ?db = sb_runs db" by simp_all
  show ?thesis
  proof (rule leases_okI, unfold S R)
    show "distinct (map sd_id (sb_schedules db @ [d]))" "distinct (map rr_id (sb_runs db))" using ok(1,2) assms(2) by simp_all
    show "\<exists>x \<in> set (sb_schedules db @ [d]). backs x r" if "r \<in> set (sb_runs db)" "live_run r" for r using ok(3) [OF that] by auto
  qed (fact ok(4) ok(5) ok(6))+
qed

lemma lease_step_ok: "lease_step W W' \<Longrightarrow> leases_ok W \<Longrightarrow> leases_ok W'"
proof (induction rule: lease_step.induct)
  case (claim ok now t w trigger key run skip db c db' cs)
  then show ?case by (intro claim_leases_ok)
next
  case (finish c cs st db ok err l n)
  then have "leases_ok (db, remove1 c cs)" by (elim leases_ok_same) (auto dest: set_mp [OF set_remove1_subset])
  then show ?case using finish
    by (auto simp: finish_schedule_claim_def Let_def set_remove1_subset intro!: finish_leases_ok [OF finish.prems finish.hyps(1) set_remove1_subset finish.hyps(2)])
next
  case (fail c cs db ok msg)
  then have "leases_ok (db, remove1 c cs)" by (elim leases_ok_same) (auto dest: set_mp [OF set_remove1_subset])
  then show ?case using fail
    by (auto simp: fail_schedule_claim_def Let_def set_remove1_subset intro!: finish_leases_ok [OF fail.prems fail.hyps(1) set_remove1_subset])
next
  case (patch db cs ok s i p)
  have "leases_ok (map_schedules (\<lambda>d. sd_id d = i \<and> sd_server d = s) (patched_schedule p) db, cs)"
    by (rule leases_ok_map [OF patch, where f = "\<lambda>d. if sd_id d = i \<and> sd_server d = s then patched_schedule p d else d" and g = id])
      (auto simp: map_schedules_def patched_schedule_def backs_def)
  then show ?case using patch by (auto simp: patch_schedule_def)
next
  case (meta db cs ok i l n)
  have "leases_ok (map_schedules (\<lambda>d. sd_id d = i) (\<lambda>d. d\<lparr>sd_last := (if l = None then sd_last d else l), sd_next := (if n = None then sd_next d else n)\<rparr>) db, cs)"
    by (rule leases_ok_map [OF meta, where g = id and
          f = "\<lambda>d. if sd_id d = i then d\<lparr>sd_last := (if l = None then sd_last d else l), sd_next := (if n = None then sd_next d else n)\<rparr> else d"])
      (auto simp: map_schedules_def backs_def)
  then show ?case using meta by (auto simp: update_schedule_run_meta_def)
next
  case (create db cs ok t i s q)
  then show ?case by (auto simp: create_schedule_def Let_def intro!: leases_ok_new)
next
  case (task_run db cs ok r k ts)
  then show ?case by (elim leases_ok_same) (auto simp: create_schedule_task_run_def)
qed (auto simp: extend_leases_ok delete_leases_ok elim!: leases_ok_same)

lemma reachable_leases_ok: "lease_step\<^sup>*\<^sup>* W W' \<Longrightarrow> no_leases W \<Longrightarrow> leases_ok W'"
proof (induction rule: rtranclp_induct)
  case base
  then show ?case by (cases W) (auto simp: no_leases_def leases_ok_def)
next
  case (step W1 W2)
  then show ?case using lease_step_ok by blast
qed

lemma at_most_one:
  assumes "distinct (map f xs)" "\<And>x y. x \<in> set xs \<Longrightarrow> y \<in> set xs \<Longrightarrow> P x \<Longrightarrow> P y \<Longrightarrow> f x = f y"
  shows "length (filter P xs) \<le> 1"
proof (cases "filter P xs")
  case (Cons x ys)
  have "distinct (map f (filter P xs))" using assms(1) by (simp add: distinct_map_filter)
  moreover have "f y = f x" if "y \<in> set ys" for y
  proof (rule assms(2))
    have "set (filter P xs) = set (x # ys)" by (simp only: Cons)
    then show "y \<in> set xs" "x \<in> set xs" "P y" "P x" using that by auto
  qed
  ultimately show ?thesis by (cases ys) (auto simp: Cons)
qed simp

lemma extend_granted:
  "extend_schedule_lease ok i r w until db = (Inr (), db') \<Longrightarrow> \<exists>x \<in> set (sb_runs db). running_run r w x"
  by (auto simp: extend_schedule_lease_def Let_def split: if_splits)

text \<open>C37: Leases are exclusive: whatever workers do, die or forget and whenever leases expire, at most one run of a schedule is live, and of two
  workers that hold claims of the same schedule only one gets its lease extended, which every worker needs before it executes a task.\<close>

theorem lease_exclusive:
  assumes "no_leases W" "lease_step\<^sup>*\<^sup>* W (db, cs)"
  shows "length (filter (\<lambda>r. live_run r \<and> rr_schedule r = i) (sb_runs db)) \<le> 1 \<and>
    (\<forall>c \<in> set cs. \<forall>c' \<in> set cs. sl_id c = sl_id c' \<and>
      (\<exists>t db1. extend_schedule_lease True (sl_id c) (sl_run c) (sl_worker c) t db = (Inr (), db1)) \<and>
      (\<exists>t db1. extend_schedule_lease True (sl_id c') (sl_run c') (sl_worker c') t db = (Inr (), db1)) \<longrightarrow> sl_run c = sl_run c')"
proof -
  note ok = leases_okD [OF reachable_leases_ok [OF assms(2,1)]]
  have one: "length (filter (\<lambda>r. live_run r \<and> rr_schedule r = i) (sb_runs db)) \<le> 1"
  proof (rule at_most_one [where f = rr_id, OF ok(2)])
    show "rr_id x = rr_id y" if "x \<in> set (sb_runs db)" "y \<in> set (sb_runs db)" "live_run x \<and> rr_schedule x = i" "live_run y \<and> rr_schedule y = i" for x y
      using ok(4) [of x y] that by simp
  qed
  have "sl_run c = sl_run c'" if c: "c \<in> set cs" "c' \<in> set cs" "sl_id c = sl_id c'"
    and e: "extend_schedule_lease True (sl_id c) (sl_run c) (sl_worker c) t db = (Inr (), db1)"
    and e': "extend_schedule_lease True (sl_id c') (sl_run c') (sl_worker c') t' db = (Inr (), db2)" for c c' t t' db1 db2
  proof -
    obtain x y where xy: "x \<in> set (sb_runs db)" "running_run (sl_run c) (sl_worker c) x" "y \<in> set (sb_runs db)" "running_run (sl_run c') (sl_worker c') y"
      using extend_granted [OF e] extend_granted [OF e'] by blast
    then show ?thesis using ok(4) [of x y] ok(5) [OF c(1) xy(1)] ok(5) [OF c(2) xy(3)] c(3) by (simp add: running_run_def live_run_def)
  qed
  then show ?thesis using one by blast
qed

definition sample_schedule :: schedule_row where
  "sample_schedule = \<lparr>sd_id = ''d1'', sd_server = ''s1'', sd_name = ''nightly'', sd_minute = ''0'', sd_hour = ''*'', sd_dom = ''*'', sd_month = ''*'', sd_dow = ''*'',
     sd_zone = ''UTC'', sd_online = False, sd_enabled = True, sd_last = None, sd_next = Some 0, sd_created = 0, sd_owner = None, sd_expires = None\<rparr>"

definition sample_schedules :: schedule_db where
  "sample_schedules = \<lparr>sb_schedules = [sample_schedule], sb_tasks = [\<lparr>tk_id = ''k1'', tk_schedule = ''d1'', tk_sequence = 1, tk_action = ''power'',
     tk_payload = [(''signal'', PText ''restart'')], tk_offset = 0, tk_continue = False\<rparr>], sb_runs = [], sb_task_runs = [], sb_panel = panel_created, sb_calls = []\<rparr>"

text \<open>The claim and the tables after a worker claimed at a time of both clocks.\<close>

definition claim_at :: "gotime \<Rightarrow> string \<Rightarrow> string \<Rightarrow> schedule_db \<Rightarrow> schedule_claim \<times> schedule_db" where
  "claim_at t w r db = (case claim_due_schedule True t t w r [] db of (x, db') \<Rightarrow> (the (projr x), db'))"

definition sample_leases :: lease_world where
  "sample_leases = (case claim_at 0 ''w1'' ''r1'' sample_schedules of (c1, db1) \<Rightarrow> (case claim_at (6 * minute) ''w2'' ''r2'' db1 of (c2, db2) \<Rightarrow> (db2, [c2, c1])))"

lemma claim_at_step:
  assumes "claim_at t w r db = (c, db')" "fst (claim_due_schedule True t t w r [] db) = Inr (Some c)"
    "r \<notin> rr_id ` set (sb_runs db)" "r \<notin> sl_run ` set cs" "\<forall>x \<in> set cs. sl_worker x \<noteq> w"
  shows "lease_step (db, cs) (db', c # cs)"
proof (rule lease_step.claim [OF _ assms(3,4)])
  show "claim_schedule True t t w ''scheduler'' [] r [] db = (Inr (Some c), db')"
    using assms(1,2) by (auto simp: claim_at_def claim_due_schedule_def prod_eq_iff split: prod.splits)
qed (use assms(5) in blast)

lemma sample_leases_reachable: "lease_step\<^sup>*\<^sup>* (sample_schedules, []) sample_leases"
proof -
  let ?X = "claim_at 0 ''w1'' ''r1'' sample_schedules"
  let ?Y = "claim_at (6 * minute) ''w2'' ''r2'' (snd ?X)"
  have 1: "lease_step (sample_schedules, []) (snd ?X, [fst ?X])"
  proof (rule claim_at_step [OF prod.collapse [symmetric]])
    show "fst (claim_due_schedule True 0 0 ''w1'' ''r1'' [] sample_schedules) = Inr (Some (fst ?X))" by code_simp
    show "''r1'' \<notin> rr_id ` set (sb_runs sample_schedules)" by code_simp
  qed simp_all
  have 2: "lease_step (snd ?X, [fst ?X]) (snd ?Y, [fst ?Y, fst ?X])"
  proof (rule claim_at_step [OF prod.collapse [symmetric]])
    show "fst (claim_due_schedule True (6 * minute) (6 * minute) ''w2'' ''r2'' [] (snd ?X)) = Inr (Some (fst ?Y))" by code_simp
    show "''r2'' \<notin> rr_id ` set (sb_runs (snd ?X))" by code_simp
    show "''r2'' \<notin> sl_run ` set [fst ?X]" by code_simp
    show "\<forall>x \<in> set [fst ?X]. sl_worker x \<noteq> ''w2''" by code_simp
  qed
  have "sample_leases = (snd ?Y, [fst ?Y, fst ?X])" by (simp add: sample_leases_def split: prod.splits)
  then show ?thesis using 1 2 by auto
qed

text \<open>Witness of C37: the lease of the first worker expired, and a second one took the schedule.\<close>

theorem lease_exclusive_witness:
  "length (filter (\<lambda>r. live_run r \<and> rr_schedule r = ''d1'') (sb_runs (fst sample_leases))) \<le> 1 \<and> length (snd sample_leases) = 2"
proof -
  have "no_leases (sample_schedules, [])" by code_simp
  then show ?thesis using lease_exclusive [of "(sample_schedules, [])" "fst sample_leases" "snd sample_leases" "''d1''"] sample_leases_reachable
    by (simp add: sample_leases_def split: prod.splits)
qed

text \<open>The discipline is needed, and the program does not keep it, since manual runs use the id of the worker that ticks: after a lease expired
  during a tick, a manual run takes the schedule; the tick finds its run failed and gives the lease back, which is the manual run's;
  it claims the schedule again, and both runs get their leases extended.\<close>

theorem shared_worker_runs_twice:
  "let (c1, db1) = claim_at 0 ''w1'' ''r1'' sample_schedules;
       (x, db2) = claim_manual_schedule True (6 * minute) (6 * minute) ''w1'' ''s1'' ''d1'' ''r2'' [] db1; c2 = the (projr x);
       (e, db3) = extend_schedule_lease True ''d1'' ''r1'' ''w1'' (12 * minute) db2;
       db4 = snd (fail_schedule_claim True c1 ''lost'' db3);
       (c3, db5) = claim_at (7 * minute) ''w1'' ''r3'' db4 in
   e = Inl LeaseNotOwned \<and>
   fst (extend_schedule_lease True ''d1'' (sl_run c2) (sl_worker c2) (20 * minute) db5) = Inr () \<and>
   fst (extend_schedule_lease True ''d1'' (sl_run c3) (sl_worker c3) (20 * minute) db5) = Inr () \<and> sl_run c2 \<noteq> sl_run c3"
  by code_simp

end
