(* ===== verification/Schedule_Runner.thy ===== *)
theory Schedule_Runner
  imports Schedule_Table
begin

text \<open>
  The runner of schedules (\<^verbatim>\<open>http/schedule_runner.go\<close>) over the tables of \<^verbatim>\<open>Schedule_Table\<close>. The parser of cron expressions is a library:
  the argument \<open>cron\<close> maps an expression to its function from a time to the next, or to nothing when it does not parse. What the database, the
  nodes and the clock answer during a task, a claim and a tick are records of answers. The clean-up of backups that a tick also does, and
  the texts of errors, are left out.
\<close>

section \<open>Executing a task\<close>

text \<open>\<open>ta_renewals\<close> are the renewals of the lease that fall into the delay before the task: whether the database took it, and the time.\<close>

record task_answers =
  ta_renewals :: "(bool \<times> gotime) list"
  ta_canceled :: bool
  ta_lease :: bool
  ta_time :: gotime
  ta_daemon :: bool
  ta_target :: bool
  ta_node :: bool
  ta_state :: bool
  ta_audit :: bool
  ta_record :: bool

definition payload_text :: "string \<Rightarrow> schedule_task \<Rightarrow> string" where
  "payload_text key k = (case map_of (tk_payload k) key of Some (PText v) \<Rightarrow> v | _ \<Rightarrow> [])"

definition log_call :: "node_call \<Rightarrow> schedule_db \<Rightarrow> schedule_db" where
  "log_call x db = db\<lparr>sb_calls := sb_calls db @ [x]\<rparr>"

definition execute_task :: "task_answers \<Rightarrow> string \<Rightarrow> schedule_task \<Rightarrow> schedule_db \<Rightarrow> bool \<times> schedule_db" where
  "execute_task a s k db =
     (let action = ascii_lower (trim_space (tk_action k)); target = server_control_target (ta_target a) s (sb_panel db) in
      if action = ''power'' then
        (let signal = ascii_lower (trim_space (payload_text ''signal'' k)) in
         if signal = [] \<or> \<not> ta_daemon a \<or> target = None then (False, db)
         else let db1 = log_call (CallPower s signal) db in
           if \<not> ta_node a then (False, db1)
           else (case set_server_power_state (ta_state a) (ta_audit a) s signal (sb_panel db1) of
             (r, p) \<Rightarrow> (r = Inr (), db1\<lparr>sb_panel := p\<rparr>)))
      else if action = ''backup'' then
        (if \<not> ta_daemon a \<or> target = None then (False, db) else (ta_node a, log_call (CallBackup s) db))
      else if action = ''command'' then
        (let command = trim_space (payload_text ''command'' k) in
         if command = [] \<or> \<not> ta_daemon a \<or> target = None then (False, db) else (ta_node a, log_call (CallCommand s command) db))
      else (False, db))"

section \<open>Running a claim\<close>

fun wait_loop :: "schedule_claim \<Rightarrow> (bool \<times> gotime) list \<Rightarrow> bool \<Rightarrow> schedule_db \<Rightarrow> bool \<times> schedule_db" where
  "wait_loop c [] canceled db = (\<not> canceled, db)"
| "wait_loop c ((ok, t) # xs) canceled db =
     (case extend_schedule_lease ok (sl_id c) (sl_run c) (sl_worker c) (t + lease_duration) db of
        (Inl _, db1) \<Rightarrow> (False, db1)
      | (Inr _, db1) \<Rightarrow> wait_loop c xs canceled db1)"

definition wait_offset :: "schedule_claim \<Rightarrow> int \<Rightarrow> task_answers \<Rightarrow> schedule_db \<Rightarrow> bool \<times> schedule_db" where
  "wait_offset c delay a db = (if delay \<le> 0 then (\<not> ta_canceled a, db) else wait_loop c (ta_renewals a) (ta_canceled a) db)"

fun skip_tasks :: "(string \<Rightarrow> task_answers) \<Rightarrow> string \<Rightarrow> schedule_task list \<Rightarrow> schedule_db \<Rightarrow> schedule_db" where
  "skip_tasks ans r [] db = db"
| "skip_tasks ans r (k # ks) db = skip_tasks ans r ks (create_schedule_task_run (ta_record (ans (tk_id k))) r (tk_id k) TaskSkipped db)"

definition continue_after_failure :: "schedule_task \<Rightarrow> bool" where
  "continue_after_failure k = tk_continue k"

text \<open>The loop over the tasks: nothing when it was given up, else whether a task failed and whether one succeeded.\<close>

fun run_tasks ::
  "(string \<Rightarrow> task_answers) \<Rightarrow> schedule_claim \<Rightarrow> schedule_task list \<Rightarrow> bool \<Rightarrow> bool \<Rightarrow> schedule_db \<Rightarrow> (bool \<times> bool) option \<times> schedule_db" where
  "run_tasks ans c [] failed success db = (Some (failed, success), db)"
| "run_tasks ans c (k # ks) failed success db =
     (let a = ans (tk_id k) in
      case wait_offset c (tk_offset k) a db of
        (False, db1) \<Rightarrow> (None, db1)
      | (True, db1) \<Rightarrow>
          (case extend_schedule_lease (ta_lease a) (sl_id c) (sl_run c) (sl_worker c) (ta_time a + lease_duration) db1 of
             (Inl _, db2) \<Rightarrow> (None, db2)
           | (Inr _, db2) \<Rightarrow>
               (case execute_task a (sd_server (sl_schedule c)) k db2 of
                  (good, db3) \<Rightarrow>
                    let db4 = create_schedule_task_run (ta_record a) (sl_run c) (tk_id k) (if good then TaskSuccess else TaskFailed) db3 in
                    if good then run_tasks ans c ks failed True db4
                    else if continue_after_failure k then run_tasks ans c ks True success db4
                    else (Some (True, success), skip_tasks ans (sl_run c) ks db4))))"

definition schedule_run_outcome :: "bool \<Rightarrow> bool \<Rightarrow> run_status \<times> string option" where
  "schedule_run_outcome success failed =
     (if failed \<and> success then (RunPartial, Some ''one or more tasks failed'')
      else if failed then (RunFailed, Some ''execution halted after task failure'')
      else if \<not> success then (RunSkipped, Some ''schedule has no runnable tasks'')
      else (RunSuccess, None))"

definition cron_expr :: "schedule_row \<Rightarrow> string" where
  "cron_expr d = join_with '' '' (map trim_space [sd_minute d, sd_hour d, sd_dom d, sd_month d, sd_dow d])"

type_synonym cron_parser = "string \<Rightarrow> (gotime \<Rightarrow> gotime) option"

definition next_schedule_run :: "cron_parser \<Rightarrow> schedule_row \<Rightarrow> gotime \<Rightarrow> gotime option" where
  "next_schedule_run cron d from = map_option (\<lambda>f. f from) (cron (cron_expr d))"

record run_answers =
  qa_fail :: bool
  qa_finish :: bool
  qa_tasks :: "string \<Rightarrow> task_answers"

definition run_claim :: "cron_parser \<Rightarrow> run_answers \<Rightarrow> gotime \<Rightarrow> schedule_claim \<Rightarrow> schedule_db \<Rightarrow> (schedule_error + unit) \<times> schedule_db" where
  "run_claim cron q now c db =
     (case next_schedule_run cron (sl_schedule c) now of
        None \<Rightarrow> (Inl BadCron, snd (fail_schedule_claim (qa_fail q) c ''bad cron expression'' db))
      | Some n \<Rightarrow>
          (case run_tasks (qa_tasks q) c (sl_tasks c) False False db of
             (None, db1) \<Rightarrow> (Inl RunCanceled, snd (fail_schedule_claim (qa_fail q) c ''execution canceled'' db1))
           | (Some (failed, success), db1) \<Rightarrow>
               (case schedule_run_outcome success failed of (st, err) \<Rightarrow> finish_schedule_claim (qa_finish q) c st err now n db1)))"

section \<open>Ticks and manual runs\<close>

definition schedule_wake_delay :: "gotime \<Rightarrow> gotime option \<Rightarrow> duration \<Rightarrow> duration" where
  "schedule_wake_delay now next fallback =
     (let f = (if fallback \<le> 0 then minute else fallback) in
      case next of None \<Rightarrow> f | Some n \<Rightarrow> if time_sub n now < 0 then 0 else if f < time_sub n now then f else time_sub n now)"

text \<open>The first time of a schedule is set by the tick that finds it without one.\<close>

fun init_schedules :: "cron_parser \<Rightarrow> (string \<Rightarrow> bool) \<Rightarrow> gotime \<Rightarrow> schedule_row list \<Rightarrow> schedule_db \<Rightarrow> schedule_db" where
  "init_schedules cron ok now [] db = db"
| "init_schedules cron ok now (d # ds) db =
     init_schedules cron ok now ds
       (case (sd_next d, next_schedule_run cron d now) of
          (None, Some n) \<Rightarrow> update_schedule_run_meta (ok (sd_id d)) (sd_id d) None (Some n) db
        | _ \<Rightarrow> db)"

record loop_answers =
  la_canceled :: bool
  la_claim :: bool
  la_time :: gotime
  la_skip :: "string list"
  la_run :: string
  la_answers :: run_answers

fun tick_loop :: "cron_parser \<Rightarrow> (nat \<Rightarrow> loop_answers) \<Rightarrow> gotime \<Rightarrow> string \<Rightarrow> nat \<Rightarrow> nat \<Rightarrow> schedule_db \<Rightarrow> schedule_db" where
  "tick_loop cron la now w 0 i db = db"
| "tick_loop cron la now w (Suc k) i db =
     (if la_canceled (la i) then db
      else case claim_due_schedule (la_claim (la i)) now (la_time (la i)) w (la_run (la i)) (la_skip (la i)) db of
        (Inr (Some c), db1) \<Rightarrow> tick_loop cron la now w k (Suc i) (snd (run_claim cron (la_answers (la i)) now c db1))
      | (_, db1) \<Rightarrow> db1)"

record tick_answers =
  ga_list :: bool
  ga_init :: "string \<Rightarrow> bool"
  ga_loop :: "nat \<Rightarrow> loop_answers"

definition tick :: "cron_parser \<Rightarrow> tick_answers \<Rightarrow> gotime \<Rightarrow> string \<Rightarrow> schedule_db \<Rightarrow> schedule_db" where
  "tick cron g now w db =
     (if ga_list g then tick_loop cron (ga_loop g) now w 64 0 (init_schedules cron (ga_init g) now (list_due_schedules now 64 db) db) else db)"

definition run_now :: "cron_parser \<Rightarrow> loop_answers \<Rightarrow> gotime \<Rightarrow> string \<Rightarrow> string \<Rightarrow> string \<Rightarrow> schedule_db \<Rightarrow> (schedule_error + unit) \<times> schedule_db" where
  "run_now cron l now w s i db =
     (case claim_manual_schedule (la_claim l) now (la_time l) w s i (la_run l) (la_skip l) db of
        (Inl e, db1) \<Rightarrow> (Inl e, db1)
      | (Inr None, db1) \<Rightarrow> (Inl NotClaimable, db1)
      | (Inr (Some c), db1) \<Rightarrow> run_claim cron (la_answers l) now c db1)"

section \<open>An expression that does not parse\<close>

text \<open>Expressions are not checked when a schedule is patched. \<open>stuck cron n b db\<close>: the schedule \<open>b\<close> is due since \<open>n\<close>, before every other,
  and its expression does not parse.\<close>

definition stuck_row :: "cron_parser \<Rightarrow> gotime \<Rightarrow> schedule_row \<Rightarrow> bool" where
  "stuck_row cron n d \<longleftrightarrow> sd_enabled d \<and> sd_next d = Some n \<and> sd_owner d = None \<and> \<not> sd_online d \<and> cron (cron_expr d) = None"

definition stuck :: "cron_parser \<Rightarrow> gotime \<Rightarrow> string \<Rightarrow> schedule_db \<Rightarrow> bool" where
  "stuck cron n b db \<longleftrightarrow> (\<exists>d \<in> set (sb_schedules db). sd_id d = b \<and> get_panel_server (sb_panel db) (sd_server d) \<noteq> None) \<and>
     distinct (map sd_id (sb_schedules db)) \<and>
     (\<forall>d \<in> set (sb_schedules db). if sd_id d = b then stuck_row cron n d else (case sd_next d of None \<Rightarrow> True | Some m \<Rightarrow> n < m))"

text \<open>A change of the table that leaves the stuck row and moves no other before it.\<close>

lemma stuck_map:
  assumes "stuck cron n b db" "sb_panel db' = sb_panel db" "sb_schedules db' = map f (sb_schedules db)"
    and f: "\<And>d. sd_id (f d) = sd_id d" "\<And>d. sd_server (f d) = sd_server d"
    and row: "\<And>d. d \<in> set (sb_schedules db) \<Longrightarrow> sd_id d = b \<Longrightarrow> stuck_row cron n d \<Longrightarrow> stuck_row cron n (f d)"
    and others: "\<And>d m. d \<in> set (sb_schedules db) \<Longrightarrow> sd_id d \<noteq> b \<Longrightarrow> sd_next (f d) = Some m \<Longrightarrow> sd_next d = Some m \<or> n < m"
  shows "stuck cron n b db'"
proof -
  have "map sd_id (map f (sb_schedules db)) = map sd_id (sb_schedules db)" using f by simp
  then have "distinct (map sd_id (sb_schedules db'))" using assms(1) unfolding assms(3) stuck_def by (simp only:)
  moreover have "\<exists>d \<in> set (sb_schedules db'). sd_id d = b \<and> get_panel_server (sb_panel db') (sd_server d) \<noteq> None"
    using assms(1) f unfolding assms(2,3) stuck_def by auto
  moreover have "if sd_id x = b then stuck_row cron n x else (case sd_next x of None \<Rightarrow> True | Some m \<Rightarrow> n < m)" if x: "x \<in> set (sb_schedules db')" for x
  proof -
    obtain d where d: "d \<in> set (sb_schedules db)" "x = f d" using x by (auto simp: assms(3))
    then have "if sd_id d = b then stuck_row cron n d else (case sd_next d of None \<Rightarrow> True | Some m \<Rightarrow> n < m)" using assms(1) by (simp add: stuck_def)
    then show ?thesis using row [OF d(1)] others [OF d(1)] by (auto simp: d(2) f(1) split: option.splits)
  qed
  ultimately show ?thesis by (simp add: stuck_def)
qed

lemma stable_least_first:
  assumes "x \<in> set xs" "\<And>y. y \<in> set xs \<Longrightarrow> y \<noteq> x \<Longrightarrow> lt x y \<and> \<not> lt y x" "\<not> lt x x"
  shows "\<exists>ys. slice_stable lt xs = x # ys"
  using assms
proof (induction xs)
  case (Cons a xs)
  show ?case
  proof (cases "a = x")
    case True
    have "\<not> lt y x" if "y \<in> set (slice_stable lt xs)" for y using Cons.prems(2) [of y] Cons.prems(3) that by auto
    then show ?thesis by (cases "slice_stable lt xs") (auto simp: True)
  next
    case False
    then obtain ys where "slice_stable lt xs = x # ys" using Cons by auto
    then show ?thesis using Cons.prems(2) [of a] False by simp
  qed
qed simp

lemma stuck_select:
  assumes st: "stuck cron n b db" and now: "n \<le> now" and skip: "b \<notin> set skip"
  obtains d where "select_due now skip db = Some d" "sd_id d = b" "stuck_row cron n d"
proof -
  let ?xs = "filter (\<lambda>d. claimable now db d \<and> sd_id d \<notin> set skip) (sb_schedules db)"
  obtain d where d: "d \<in> set (sb_schedules db)" "sd_id d = b" "get_panel_server (sb_panel db) (sd_server d) \<noteq> None" using st by (auto simp: stuck_def)
  have row: "stuck_row cron n d" using st d by (auto simp: stuck_def)
  have "\<exists>ys. slice_stable due_before ?xs = d # ys"
  proof (rule stable_least_first)
    show "d \<in> set ?xs" using d row now skip by (auto simp: claimable_def stuck_row_def server_allows_def split: option.splits)
    show "due_before d y \<and> \<not> due_before y d" if y: "y \<in> set ?xs" "y \<noteq> d" for y
    proof -
      have "sd_id y \<noteq> b" using st y d by (auto simp: stuck_def distinct_map inj_on_def)
      moreover obtain m where "sd_next y = Some m" using y(1) by (auto simp: claimable_def split: option.splits)
      ultimately have "n < m" using st y(1) by (auto simp: stuck_def)
      then show ?thesis using row \<open>sd_next y = Some m\<close> by (simp add: due_before_def stuck_row_def)
    qed
  qed (simp add: due_before_def, cases "sd_next d"; simp)
  then show thesis using d row by (intro that [of d]) (auto simp: select_due_def)
qed

text \<open>Between two states only runs of \<open>b\<close> were added, and no task was executed.\<close>

definition run_keys :: "schedule_db \<Rightarrow> (string \<times> string) list" where
  "run_keys db = map (\<lambda>r. (rr_id r, rr_schedule r)) (sb_runs db)"

definition only_runs :: "string \<Rightarrow> schedule_db \<Rightarrow> schedule_db \<Rightarrow> bool" where
  "only_runs b db db' \<longleftrightarrow> sb_calls db' = sb_calls db \<and> sb_task_runs db' = sb_task_runs db \<and> (\<exists>rs. run_keys db' = run_keys db @ map (\<lambda>r. (r, b)) rs)"

lemma only_runs_refl [simp]: "only_runs b db db"
  by (simp add: only_runs_def)

lemma only_runs_trans: "only_runs b db1 db2 \<Longrightarrow> only_runs b db2 db3 \<Longrightarrow> only_runs b db1 db3"
  by (auto simp: only_runs_def) (metis map_append)

lemma expire_stuck:
  assumes "stuck cron n b db"
  shows "stuck cron n b (expire_leases t (expire_runs t db))"
  by (rule stuck_map [OF assms, where f = "\<lambda>d. if past t (sd_expires d) then d\<lparr>sd_owner := None, sd_expires := None\<rparr> else d"])
    (auto simp: expire_leases_def expire_runs_def map_schedules_def map_runs_def stuck_row_def cron_expr_def split: if_splits)

lemma stuck_turn:
  assumes st: "stuck cron n b db" and now: "n \<le> now" and skip: "b \<notin> set skip" and q: "qa_fail q"
    and e: "claim_due_schedule ok now t w run skip db = (Inr (Some c), db1)"
  shows "stuck cron n b (snd (run_claim cron q now c db1)) \<and> only_runs b db (snd (run_claim cron q now c db1))"
proof -
  let ?db = "expire_leases t (expire_runs t db)"
  obtain d where d: "select_due now skip ?db = Some d" "sd_id d = b" "stuck_row cron n d" using stuck_select [OF expire_stuck [OF st] now skip] by blast
  define mine where "mine = (\<lambda>x. running_run run w x \<and> rr_schedule x = b)"
  let ?db1 = "map_schedules (\<lambda>x. sd_id x = b) (\<lambda>x. x\<lparr>sd_owner := Some w, sd_expires := Some (now + lease_duration)\<rparr>) ?db"
  have c: "sl_schedule c = d" "sl_run c = run" "sl_worker c = w"
    and db1: "db1 = ?db1\<lparr>sb_runs := sb_runs ?db1 @ [\<lparr>rr_id = run, rr_schedule = sd_id d, rr_server = sd_server d, rr_status = RunRunning, rr_trigger = ''scheduler'',
       rr_worker = Some w, rr_expires = Some (now + lease_duration), rr_error = None\<rparr>]\<rparr>"
    using e d(1,2) by (auto simp: claim_due_schedule_def claim_schedule_def Let_def split: if_splits)
  have run: "snd (run_claim cron q now c db1) = map_schedules (owned_by b w) (\<lambda>d. d\<lparr>sd_owner := None, sd_expires := None\<rparr>)
      (map_runs mine (\<lambda>x. x\<lparr>rr_status := RunFailed, rr_error := Some ''bad cron expression'', rr_expires := None\<rparr>) db1)"
    using d(2,3) q by (simp add: run_claim_def next_schedule_run_def stuck_row_def fail_schedule_claim_def c mine_def Let_def)
  have "stuck cron n b (snd (run_claim cron q now c db1))"
  proof (rule stuck_map [OF expire_stuck [OF st, of t]])
    show "sb_schedules (snd (run_claim cron q now c db1)) =
        map ((\<lambda>d. if owned_by b w d then d\<lparr>sd_owner := None, sd_expires := None\<rparr> else d) \<circ> (\<lambda>x. if sd_id x = b then x\<lparr>sd_owner := Some w, sd_expires := Some (now + lease_duration)\<rparr> else x)) (sb_schedules ?db)"
      unfolding run by (simp add: db1 map_schedules_def map_runs_def)
    show "sb_panel (snd (run_claim cron q now c db1)) = sb_panel ?db" unfolding run by (simp add: db1 map_schedules_def map_runs_def)
  qed (auto simp: stuck_row_def owned_by_def cron_expr_def split: if_splits)
  moreover have "run_keys (snd (run_claim cron q now c db1)) = run_keys db @ map (\<lambda>r. (r, b)) [run]"
    unfolding run by (simp add: db1 run_keys_def map_schedules_def map_runs_def expire_leases_def expire_runs_def d(2) comp_def)
  moreover have "sb_calls (snd (run_claim cron q now c db1)) = sb_calls db" "sb_task_runs (snd (run_claim cron q now c db1)) = sb_task_runs db"
    unfolding run by (simp_all add: db1 map_schedules_def map_runs_def expire_leases_def expire_runs_def)
  ultimately show ?thesis unfolding only_runs_def by blast
qed

text \<open>A cron expression gives times after the one it is asked for.\<close>

definition cron_forward :: "cron_parser \<Rightarrow> bool" where
  "cron_forward cron \<longleftrightarrow> (\<forall>e f t. cron e = Some f \<longrightarrow> t < f t)"

definition undisturbed :: "string \<Rightarrow> tick_answers \<Rightarrow> bool" where
  "undisturbed b g \<longleftrightarrow> (\<forall>i. b \<notin> set (la_skip (ga_loop g i)) \<and> qa_fail (la_answers (ga_loop g i)))"

lemma stuck_tick_loop:
  assumes "stuck cron n b db" "n \<le> now" "\<And>i. b \<notin> set (la_skip (la i)) \<and> qa_fail (la_answers (la i))"
  shows "stuck cron n b (tick_loop cron la now w k i db) \<and> only_runs b db (tick_loop cron la now w k i db)"
  using assms(1)
proof (induction k arbitrary: i db)
  case (Suc k)
  obtain x db1 where e: "claim_due_schedule (la_claim (la i)) now (la_time (la i)) w (la_run (la i)) (la_skip (la i)) db = (x, db1)" by fastforce
  show ?case
  proof (cases "\<exists>c. x = Inr (Some c)")
    case True
    then obtain c where x: "x = Inr (Some c)" by blast
    have "stuck cron n b (snd (run_claim cron (la_answers (la i)) now c db1)) \<and> only_runs b db (snd (run_claim cron (la_answers (la i)) now c db1))"
      using stuck_turn [OF Suc.prems assms(2) _ _ e [unfolded x]] assms(3) by blast
    then show ?thesis using Suc.IH [of "snd (run_claim cron (la_answers (la i)) now c db1)" "Suc i"] Suc.prems only_runs_trans by (auto simp: e x)
  next
    case False
    then have "db1 = db" using e by (auto simp: claim_due_schedule_def claim_schedule_def Let_def split: if_splits option.splits)
    then show ?thesis using False Suc.prems by (auto simp: e split: sum.splits option.splits)
  qed
qed simp

lemma stuck_init:
  assumes "stuck cron n b db" "n \<le> now" "cron_forward cron" "\<And>d. d \<in> set ds \<Longrightarrow> sd_id d = b \<Longrightarrow> sd_next d \<noteq> None"
  shows "stuck cron n b (init_schedules cron ok now ds db) \<and> only_runs b db (init_schedules cron ok now ds db)"
  using assms(1,4)
proof (induction ds arbitrary: db)
  case (Cons d ds)
  let ?db = "case (sd_next d, next_schedule_run cron d now) of (None, Some m) \<Rightarrow> update_schedule_run_meta (ok (sd_id d)) (sd_id d) None (Some m) db | _ \<Rightarrow> db"
  have "stuck cron n b ?db \<and> only_runs b db ?db"
  proof (cases "sd_next d = None \<and> ok (sd_id d) \<and> next_schedule_run cron d now \<noteq> None")
    case True
    then obtain m where m: "next_schedule_run cron d now = Some m" by blast
    then have db: "?db = map_schedules (\<lambda>x. sd_id x = sd_id d) (\<lambda>x. x\<lparr>sd_next := Some m\<rparr>) db" using True by (simp add: update_schedule_run_meta_def)
    have "n < m" using m assms(2,3) by (auto simp: next_schedule_run_def cron_forward_def intro: le_less_trans)
    moreover have "sd_id d \<noteq> b" using Cons.prems(2) [of d] True by auto
    ultimately have "stuck cron n b ?db" unfolding db
      by (intro stuck_map [OF Cons.prems(1), where f = "\<lambda>x. if sd_id x = sd_id d then x\<lparr>sd_next := Some m\<rparr> else x"])
        (auto simp: map_schedules_def split: if_splits)
    moreover have "only_runs b db ?db" unfolding db by (simp add: only_runs_def map_schedules_def run_keys_def)
    ultimately show ?thesis by blast
  next
    case False
    then have "?db = db" by (auto simp: update_schedule_run_meta_def split: option.splits)
    then show ?thesis using Cons.prems(1) by simp
  qed
  then show ?case using Cons.IH [of ?db] Cons.prems(2) only_runs_trans by auto
qed simp

lemma stuck_tick:
  assumes "stuck cron n b db" "n \<le> now" "cron_forward cron" "undisturbed b g"
  shows "stuck cron n b (tick cron g now w db) \<and> only_runs b db (tick cron g now w db)"
proof -
  let ?ds = "list_due_schedules now 64 db" and ?db = "init_schedules cron (ga_init g) now (list_due_schedules now 64 db) db"
  have "sd_next d \<noteq> None" if "d \<in> set ?ds" "sd_id d = b" for d
  proof -
    have "d \<in> set (sb_schedules db)" using that(1) by (auto simp: list_due_schedules_def dest!: in_set_takeD)
    then show ?thesis using assms(1) that(2) by (auto simp: stuck_def stuck_row_def)
  qed
  then have "stuck cron n b ?db \<and> only_runs b db ?db" using assms(1,2,3) by (intro stuck_init)
  then show ?thesis using stuck_tick_loop [of cron n b ?db now "ga_loop g" w 64 0] assms(1,2,4) only_runs_trans
    by (auto simp: tick_def undisturbed_def)
qed

text \<open>A worker that ticks with given answers at given times.\<close>

fun ticks :: "cron_parser \<Rightarrow> string \<Rightarrow> (gotime \<times> tick_answers) list \<Rightarrow> schedule_db \<Rightarrow> schedule_db" where
  "ticks cron w [] db = db"
| "ticks cron w ((now, g) # xs) db = ticks cron w xs (tick cron g now w db)"


section \<open>What a run does to the tables\<close>

text \<open>Rows up to the times at which leases expire.\<close>

definition same_rows :: "schedule_db \<Rightarrow> schedule_db \<Rightarrow> bool" where
  "same_rows db db' \<longleftrightarrow> map (sd_expires_update (\<lambda>_. None)) (sb_schedules db') = map (sd_expires_update (\<lambda>_. None)) (sb_schedules db) \<and>
     map (rr_expires_update (\<lambda>_. None)) (sb_runs db') = map (rr_expires_update (\<lambda>_. None)) (sb_runs db)"

definition frame :: "schedule_db \<Rightarrow> schedule_db \<Rightarrow> bool" where
  "frame db db' \<longleftrightarrow> same_rows db db' \<and> sb_tasks db' = sb_tasks db \<and> sb_task_runs db' = sb_task_runs db"

definition held :: "schedule_claim \<Rightarrow> schedule_db \<Rightarrow> bool" where
  "held c db \<longleftrightarrow> (\<exists>d \<in> set (sb_schedules db). owned_by (sl_id c) (sl_worker c) d) \<and>
     (\<exists>x \<in> set (sb_runs db). running_run (sl_run c) (sl_worker c) x \<and> rr_schedule x = sl_id c)"

lemma frame_refl [simp]: "frame db db" "same_rows db db"
  by (simp_all add: frame_def same_rows_def)

lemma frame_trans: "frame db1 db2 \<Longrightarrow> frame db2 db3 \<Longrightarrow> frame db1 db3" "same_rows db1 db2 \<Longrightarrow> same_rows db2 db3 \<Longrightarrow> same_rows db1 db3"
  by (simp_all add: frame_def same_rows_def)

lemma map_eq_member: "map g ys = map g xs \<Longrightarrow> x \<in> set xs \<Longrightarrow> \<exists>y \<in> set ys. g y = g x"
  by (metis image_iff image_set)

lemma same_rows_held:
  assumes "same_rows db db'" "held c db"
  shows "held c db'"
proof -
  obtain d x where d: "d \<in> set (sb_schedules db)" "owned_by (sl_id c) (sl_worker c) d"
    and x: "x \<in> set (sb_runs db)" "running_run (sl_run c) (sl_worker c) x" "rr_schedule x = sl_id c" using assms(2) by (auto simp: held_def)
  obtain d' where d': "d' \<in> set (sb_schedules db')" "d'\<lparr>sd_expires := None\<rparr> = d\<lparr>sd_expires := None\<rparr>"
    using map_eq_member [OF _ d(1)] assms(1) by (auto simp: same_rows_def)
  obtain x' where x': "x' \<in> set (sb_runs db')" "x'\<lparr>rr_expires := None\<rparr> = x\<lparr>rr_expires := None\<rparr>"
    using map_eq_member [OF _ x(1)] assms(1) by (auto simp: same_rows_def)
  have "sd_id d' = sd_id d" "sd_owner d' = sd_owner d" using arg_cong [OF d'(2), of sd_id] arg_cong [OF d'(2), of sd_owner] by simp_all
  moreover have "rr_id x' = rr_id x" "rr_worker x' = rr_worker x" "rr_status x' = rr_status x" "rr_schedule x' = rr_schedule x"
    using arg_cong [OF x'(2), of rr_id] arg_cong [OF x'(2), of rr_worker] arg_cong [OF x'(2), of rr_status] arg_cong [OF x'(2), of rr_schedule] by simp_all
  ultimately show ?thesis using d(2) x(2,3) d'(1) x'(1) by (auto simp: held_def owned_by_def running_run_def)
qed

lemma extend_frame: "frame db (snd (extend_schedule_lease ok i r w until db))"
  by (auto simp: extend_schedule_lease_def Let_def frame_def same_rows_def map_schedules_def map_runs_def)

lemma extend_held: "held c db \<Longrightarrow> fst (extend_schedule_lease True (sl_id c) (sl_run c) (sl_worker c) until db) = Inr ()"
  by (auto simp: extend_schedule_lease_def Let_def held_def)

lemma wait_loop_frame: "frame db (snd (wait_loop c xs canceled db))"
proof (induction c xs canceled db rule: wait_loop.induct)
  case (2 c ok t xs canceled db)
  show ?case
  proof (cases "extend_schedule_lease ok (sl_id c) (sl_run c) (sl_worker c) (t + lease_duration) db")
    case (Pair x db1)
    then have "frame db db1" using extend_frame [of db ok "sl_id c" "sl_run c" "sl_worker c" "t + lease_duration"] by simp
    then show ?thesis using "2.IH" [OF Pair [symmetric]] frame_trans(1) by (auto simp: Pair split: sum.splits)
  qed
qed simp

lemma wait_frame: "frame db (snd (wait_offset c delay a db))"
  by (simp add: wait_offset_def wait_loop_frame)

lemma execute_frame: "frame db (snd (execute_task a s k db))"
  by (auto simp: execute_task_def Let_def log_call_def frame_def same_rows_def split: prod.splits)

lemma record_rows: "same_rows db (create_schedule_task_run ok r k st db)" "sb_tasks (create_schedule_task_run ok r k st db) = sb_tasks db"
  by (simp_all add: create_schedule_task_run_def same_rows_def)

lemma skip_rows: "same_rows db (skip_tasks ans r ks db)"
  by (induction ans r ks db rule: skip_tasks.induct) (auto intro: frame_trans(2) record_rows)

lemma same_rows_ids: "same_rows db db' \<Longrightarrow> rr_id ` set (sb_runs db') = rr_id ` set (sb_runs db)"
proof -
  assume "same_rows db db'"
  then have "map rr_id (map (rr_expires_update (\<lambda>_. None)) (sb_runs db')) = map rr_id (map (rr_expires_update (\<lambda>_. None)) (sb_runs db))"
    by (simp add: same_rows_def)
  then have "map rr_id (sb_runs db') = map rr_id (sb_runs db)" by (simp add: comp_def)
  then show ?thesis by (metis image_set)
qed

section \<open>The record of a run\<close>

text \<open>What is recorded of the tasks of a run: a task that may not fail ends the run, and the rest is skipped.\<close>

fun results_ok :: "schedule_task list \<Rightarrow> task_status list \<Rightarrow> bool" where
  "results_ok [] ss = (ss = [])"
| "results_ok (k # ks) [] = False"
| "results_ok (k # ks) (s # ss) =
     (s = TaskSuccess \<and> results_ok ks ss \<or>
      s = TaskFailed \<and> (if tk_continue k then results_ok ks ss else ss = replicate (length ks) TaskSkipped))"

definition records :: "string \<Rightarrow> schedule_task list \<Rightarrow> task_status list \<Rightarrow> (string \<times> string \<times> task_status) list" where
  "records r ks ss = map2 (\<lambda>k s. (r, tk_id k, s)) ks ss"

definition recordable :: "string \<Rightarrow> schedule_task list \<Rightarrow> schedule_db \<Rightarrow> bool" where
  "recordable r ks db \<longleftrightarrow> r \<in> rr_id ` set (sb_runs db) \<and> tk_id ` set ks \<subseteq> tk_id ` set (sb_tasks db)"

lemma recordable_frame: "recordable r ks db \<Longrightarrow> same_rows db db' \<Longrightarrow> sb_tasks db' = sb_tasks db \<Longrightarrow> recordable r ks db'"
  using same_rows_ids by (auto simp: recordable_def)

lemma record_one: "recordable r (k # ks) db \<Longrightarrow> sb_task_runs (create_schedule_task_run True r (tk_id k) st db) = sb_task_runs db @ [(r, tk_id k, st)]"
  by (simp add: recordable_def create_schedule_task_run_def)

lemma skip_records:
  assumes "\<And>k. ta_record (ans k)"
  shows "recordable r ks db \<Longrightarrow> sb_task_runs (skip_tasks ans r ks db) = sb_task_runs db @ records r ks (replicate (length ks) TaskSkipped)"
proof (induction ks arbitrary: db)
  case (Cons k ks)
  have "recordable r ks (create_schedule_task_run True r (tk_id k) TaskSkipped db)"
    using Cons.prems by (intro recordable_frame [OF _ record_rows]) (auto simp: recordable_def)
  then show ?case using Cons.IH record_one [OF Cons.prems] assms by (simp add: records_def)
qed (simp add: records_def)

lemma run_tasks_records:
  assumes rec: "\<And>k. ta_record (ans k)"
  shows "run_tasks ans c ks failed success db = (Some (f, g), db') \<Longrightarrow> recordable (sl_run c) ks db \<Longrightarrow>
    \<exists>ss. results_ok ks ss \<and> sb_task_runs db' = sb_task_runs db @ records (sl_run c) ks ss \<and>
      f = (failed \<or> TaskFailed \<in> set ss) \<and> g = (success \<or> TaskSuccess \<in> set ss)"
proof (induction ks arbitrary: failed success db)
  case Nil
  then show ?case by (auto simp: records_def)
next
  case (Cons k ks)
  let ?a = "ans (tk_id k)"
  obtain db1 where w: "wait_offset c (tk_offset k) ?a db = (True, db1)" using Cons.prems(1) by (auto simp: Let_def split: prod.splits bool.splits)
  obtain db2 where x: "extend_schedule_lease (ta_lease ?a) (sl_id c) (sl_run c) (sl_worker c) (ta_time ?a + lease_duration) db1 = (Inr (), db2)"
    using Cons.prems(1) w by (auto simp: Let_def split: prod.splits sum.splits)
  obtain good db3 where e: "execute_task ?a (sd_server (sl_schedule c)) k db2 = (good, db3)" by fastforce
  have fr: "frame db db3" using wait_frame [of db c "tk_offset k" ?a] extend_frame [of db1] execute_frame [of db2 ?a "sd_server (sl_schedule c)" k] w x e
    by (metis frame_trans(1) snd_conv)
  then have r3: "recordable (sl_run c) (k # ks) db3" using Cons.prems(2) by (auto simp: frame_def intro: recordable_frame)
  define st where "st = (if good then TaskSuccess else TaskFailed)"
  define db4 where "db4 = create_schedule_task_run True (sl_run c) (tk_id k) st db3"
  have runs4: "sb_task_runs db4 = sb_task_runs db @ [(sl_run c, tk_id k, st)]" using record_one [OF r3] fr by (simp add: db4_def frame_def)
  have r4: "recordable (sl_run c) ks db4" unfolding db4_def using r3 by (intro recordable_frame [OF _ record_rows]) (auto simp: recordable_def)
  have step: "run_tasks ans c (k # ks) failed success db =
      (if good then run_tasks ans c ks failed True db4 else if tk_continue k then run_tasks ans c ks True success db4
       else (Some (True, success), skip_tasks ans (sl_run c) ks db4))"
    by (simp add: w x e Let_def db4_def st_def rec continue_after_failure_def)
  consider "good" | "\<not> good" "tk_continue k" | "\<not> good" "\<not> tk_continue k" by blast
  then show ?case
  proof cases
    case 1
    then have "run_tasks ans c ks failed True db4 = (Some (f, g), db')" using Cons.prems(1) step by simp
    from Cons.IH [OF this r4] obtain ss where "results_ok ks ss" "sb_task_runs db' = sb_task_runs db4 @ records (sl_run c) ks ss"
      "f = (failed \<or> TaskFailed \<in> set ss)" "g" by auto
    then show ?thesis using 1 runs4 by (intro exI [of _ "TaskSuccess # ss"]) (simp add: st_def records_def)
  next
    case 2
    then have "run_tasks ans c ks True success db4 = (Some (f, g), db')" using Cons.prems(1) step by simp
    from Cons.IH [OF this r4] obtain ss where "results_ok ks ss" "sb_task_runs db' = sb_task_runs db4 @ records (sl_run c) ks ss"
      "g = (success \<or> TaskSuccess \<in> set ss)" "f" by auto
    then show ?thesis using 2 runs4 by (intro exI [of _ "TaskFailed # ss"]) (simp add: st_def records_def)
  next
    case 3
    then have "f" "g = success" "db' = skip_tasks ans (sl_run c) ks db4" using Cons.prems(1) step by simp_all
    then show ?thesis using skip_records [OF rec r4] 3 runs4
      by (intro exI [of _ "TaskFailed # replicate (length ks) TaskSkipped"]) (simp add: st_def records_def)
  qed
qed

definition results_outcome :: "task_status list \<Rightarrow> run_status" where
  "results_outcome ss =
     (if TaskFailed \<in> set ss then (if TaskSuccess \<in> set ss then RunPartial else RunFailed)
      else if TaskSuccess \<in> set ss then RunSuccess else RunSkipped)"

lemma finish_effect:
  assumes "finish_schedule_claim ok c st err l n db = (Inr (), db')"
  shows "sb_task_runs db' = sb_task_runs db" "\<exists>x \<in> set (sb_runs db'). rr_id x = sl_run c \<and> rr_status x = st"
proof -
  let ?mine = "\<lambda>x. running_run (sl_run c) (sl_worker c) x \<and> rr_schedule x = sl_id c"
  obtain x where x: "x \<in> set (sb_runs db)" "?mine x" using assms by (auto simp: finish_schedule_claim_def Let_def split: if_splits)
  have runs: "sb_runs db' = map (\<lambda>x. if ?mine x then x\<lparr>rr_status := st, rr_error := err, rr_expires := None\<rparr> else x) (sb_runs db)"
    and "sb_task_runs db' = sb_task_runs db"
    using assms by (auto simp: finish_schedule_claim_def Let_def map_schedules_def map_runs_def split: if_splits)
  then show "sb_task_runs db' = sb_task_runs db" by blast
  have "x\<lparr>rr_status := st, rr_error := err, rr_expires := None\<rparr> \<in> set (sb_runs db')" using x unfolding runs by force
  then show "\<exists>x \<in> set (sb_runs db'). rr_id x = sl_run c \<and> rr_status x = st" using x(2)
    by (intro bexI [of _ "x\<lparr>rr_status := st, rr_error := err, rr_expires := None\<rparr>"]) (simp_all add: running_run_def)
qed


section \<open>A tick serves all that is due\<close>

definition task_good :: "task_answers \<Rightarrow> bool" where
  "task_good a \<longleftrightarrow> ta_lease a \<and> \<not> ta_canceled a \<and> (\<forall>x \<in> set (ta_renewals a). fst x)"

definition loop_good :: "loop_answers \<Rightarrow> bool" where
  "loop_good l \<longleftrightarrow> \<not> la_canceled l \<and> la_claim l \<and> la_skip l = [] \<and> qa_finish (la_answers l) \<and> (\<forall>k. task_good (qa_tasks (la_answers l) k))"

lemma wait_loop_good: "held c db \<Longrightarrow> \<forall>x \<in> set xs. fst x \<Longrightarrow> fst (wait_loop c xs False db)"
proof (induction xs arbitrary: db)
  case (Cons x xs)
  obtain ok t where x: "x = (ok, t)" "ok" using Cons.prems(2) by (cases x) auto
  obtain db1 where e: "extend_schedule_lease True (sl_id c) (sl_run c) (sl_worker c) (t + lease_duration) db = (Inr (), db1)"
    using extend_held [OF Cons.prems(1)] by (metis prod.collapse)
  have "held c db1" using extend_frame [of db True "sl_id c" "sl_run c" "sl_worker c" "t + lease_duration"] Cons.prems(1) same_rows_held e
    by (auto simp: frame_def)
  then show ?case using Cons.IH Cons.prems(2) by (simp add: x e)
qed simp

lemma run_tasks_good:
  assumes good: "\<And>k. task_good (ans k)"
  shows "held c db \<Longrightarrow> \<exists>x db'. run_tasks ans c ks failed success db = (Some x, db') \<and> same_rows db db'"
proof (induction ks arbitrary: failed success db)
  case (Cons k ks)
  let ?a = "ans (tk_id k)"
  have a: "ta_lease ?a" "\<not> ta_canceled ?a" "\<forall>x \<in> set (ta_renewals ?a). fst x" using good by (simp_all add: task_good_def)
  obtain db1 where w: "wait_offset c (tk_offset k) ?a db = (True, db1)"
    using wait_loop_good [OF Cons.prems a(3)] a(2) by (cases "wait_offset c (tk_offset k) ?a db") (auto simp: wait_offset_def split: if_splits)
  have f1: "frame db db1" using wait_frame [of db c "tk_offset k" ?a] w by simp
  then have "held c db1" using same_rows_held Cons.prems by (auto simp: frame_def)
  then obtain db2 where x: "extend_schedule_lease (ta_lease ?a) (sl_id c) (sl_run c) (sl_worker c) (ta_time ?a + lease_duration) db1 = (Inr (), db2)"
    using extend_held a(1) by (metis (full_types) prod.collapse)
  obtain g db3 where e: "execute_task ?a (sd_server (sl_schedule c)) k db2 = (g, db3)" by fastforce
  have "frame db db3" using f1 extend_frame [of db1] execute_frame [of db2 ?a "sd_server (sl_schedule c)" k] x e by (metis frame_trans(1) snd_conv)
  define db4 where "db4 = create_schedule_task_run (ta_record ?a) (sl_run c) (tk_id k) (if g then TaskSuccess else TaskFailed) db3"
  have s4: "same_rows db db4" using \<open>frame db db3\<close> record_rows(1) frame_trans(2) unfolding db4_def frame_def by blast
  then have "held c db4" using same_rows_held Cons.prems by blast
  then have "\<exists>x db'. run_tasks ans c ks f' s' db4 = (Some x, db') \<and> same_rows db db'" for f' s' using Cons.IH s4 frame_trans(2) by blast
  moreover have "same_rows db (skip_tasks ans (sl_run c) ks db4)" using s4 skip_rows frame_trans(2) by blast
  moreover have "run_tasks ans c (k # ks) failed success db =
      (if g then run_tasks ans c ks failed True db4 else if tk_continue k then run_tasks ans c ks True success db4
       else (Some (True, success), skip_tasks ans (sl_run c) ks db4))"
    by (simp add: w x e Let_def db4_def continue_after_failure_def)
  ultimately show ?case by auto
qed simp

definition due_row :: "gotime \<Rightarrow> schedule_row \<Rightarrow> bool" where
  "due_row now d = (case sd_next d of None \<Rightarrow> False | Some n \<Rightarrow> n \<le> now)"

definition due_count :: "gotime \<Rightarrow> schedule_db \<Rightarrow> nat" where
  "due_count now db = length (filter (due_row now) (sb_schedules db))"

lemma filter_map_le: "(\<And>x. x \<in> set xs \<Longrightarrow> P (f x) \<Longrightarrow> P x) \<Longrightarrow> length (filter P (map f xs)) \<le> length (filter P xs)"
  by (induction xs) (auto simp: le_SucI)

lemma filter_map_less:
  assumes "\<And>x. x \<in> set xs \<Longrightarrow> P (f x) \<Longrightarrow> P x" "x \<in> set xs" "P x" "\<not> P (f x)"
  shows "length (filter P (map f xs)) < length (filter P xs)"
  using assms
proof (induction xs)
  case (Cons y ys)
  then show ?case using filter_map_le [of ys P f] by (cases "x = y") (auto simp: less_Suc_eq_le le_SucI less_SucI)
qed simp

lemma due_count_same:
  assumes "map sd_next (sb_schedules db') = map sd_next (sb_schedules db)"
  shows "due_count now db' = due_count now db"
proof -
  have "due_count now d = length (filter (\<lambda>n. case n of None \<Rightarrow> False | Some m \<Rightarrow> m \<le> now) (map sd_next (sb_schedules d)))" for d
    by (simp add: due_count_def filter_map comp_def due_row_def [abs_def])
  then show ?thesis using assms by metis
qed

lemma same_rows_next:
  assumes "same_rows db db'"
  shows "map sd_next (sb_schedules db') = map sd_next (sb_schedules db)"
proof -
  have "map sd_next (map (sd_expires_update (\<lambda>_. None)) (sb_schedules db')) = map sd_next (map (sd_expires_update (\<lambda>_. None)) (sb_schedules db))"
    using assms by (simp add: same_rows_def)
  then show ?thesis by (simp add: comp_def)
qed

lemma cron_expr_lease [simp]: "cron_expr (d\<lparr>sd_owner := x, sd_expires := y\<rparr>) = cron_expr d"
  by (simp add: cron_expr_def)

text \<open>One turn of the loop.\<close>

lemma claim_due_effect:
  assumes e: "claim_due_schedule True now t w run [] db = (Inr (Some c), db1)"
  obtains d where "sl_schedule c = d" "sl_worker c = w" "due_row now d" "held c db1" "due_count now db1 = due_count now db"
    "\<exists>y \<in> set (sb_schedules db1). owned_by (sd_id d) w y \<and> sd_next y = sd_next d"
    "\<exists>x \<in> set (sb_schedules db). cron_expr d = cron_expr x" "cron_expr ` set (sb_schedules db1) \<subseteq> cron_expr ` set (sb_schedules db)"
proof -
  let ?db = "expire_leases t (expire_runs t db)"
  obtain d where d: "select_due now [] ?db = Some d"
    using e by (auto simp: claim_due_schedule_def claim_schedule_def Let_def split: option.splits)
  let ?y = "d\<lparr>sd_owner := Some w, sd_expires := Some (now + lease_duration)\<rparr>"
  let ?db1 = "map_schedules (\<lambda>x. sd_id x = sd_id d) (\<lambda>x. x\<lparr>sd_owner := Some w, sd_expires := Some (now + lease_duration)\<rparr>) ?db"
  let ?r = "\<lparr>rr_id = run, rr_schedule = sd_id d, rr_server = sd_server d, rr_status = RunRunning, rr_trigger = ''scheduler'',
       rr_worker = Some w, rr_expires = Some (now + lease_duration), rr_error = None\<rparr>"
  have c: "sl_schedule c = d" "sl_run c = run" "sl_worker c = w" and db1: "db1 = ?db1\<lparr>sb_runs := sb_runs ?db1 @ [?r]\<rparr>"
    using e d by (auto simp: claim_due_schedule_def claim_schedule_def Let_def split: if_splits)
  have S1: "sb_schedules db1 = map (\<lambda>x. if sd_id x = sd_id d then x\<lparr>sd_owner := Some w, sd_expires := Some (now + lease_duration)\<rparr> else x) (sb_schedules ?db)"
    by (simp add: db1 map_schedules_def)
  have R1: "\<exists>x \<in> set (sb_runs db1). running_run run w x \<and> rr_schedule x = sd_id d"
    by (rule bexI [of _ ?r]) (simp_all add: db1 running_run_def)
  have S: "sb_schedules ?db = map (\<lambda>x. if past t (sd_expires x) then x\<lparr>sd_owner := None, sd_expires := None\<rparr> else x) (sb_schedules db)"
    by (simp add: expire_leases_def expire_runs_def map_schedules_def map_runs_def)
  have din: "d \<in> set (sb_schedules ?db)" and due: "due_row now d" using select_due_some [OF d] by (auto simp: claimable_def due_row_def)
  have y: "?y \<in> set (sb_schedules db1)" "owned_by (sd_id d) w ?y" "sd_next ?y = sd_next d" using din by (force simp: S1, simp_all add: owned_by_def)
  have "held c db1" using y(1,2) R1 unfolding held_def c by blast
  moreover have "due_count now db1 = due_count now db" 
    by (rule due_count_same) (simp add: S1 S)
  moreover have "\<exists>x \<in> set (sb_schedules db). cron_expr d = cron_expr x" using din by (auto simp: S split: if_splits)
  moreover have "cron_expr ` set (sb_schedules db1) \<subseteq> cron_expr ` set (sb_schedules db)"
  proof -
    have "map cron_expr (sb_schedules db1) = map cron_expr (sb_schedules db)" by (simp add: S1 S)
    then show ?thesis by (metis image_set subset_refl)
  qed
  moreover have "\<exists>y \<in> set (sb_schedules db1). owned_by (sd_id d) w y \<and> sd_next y = sd_next d" using y by blast
  ultimately show thesis by (intro that [of d] c(1,3) due)
qed

lemma same_rows_row:
  assumes "same_rows db db'" "d \<in> set (sb_schedules db)"
  shows "\<exists>y \<in> set (sb_schedules db'). sd_id y = sd_id d \<and> sd_owner y = sd_owner d \<and> sd_next y = sd_next d \<and> cron_expr y = cron_expr d"
proof -
  obtain y where y: "y \<in> set (sb_schedules db')" "y\<lparr>sd_expires := None\<rparr> = d\<lparr>sd_expires := None\<rparr>"
    using map_eq_member [OF _ assms(2)] assms(1) by (auto simp: same_rows_def)
  have "sd_id y = sd_id d" using arg_cong [OF y(2), of sd_id] by simp
  moreover have "sd_owner y = sd_owner d" using arg_cong [OF y(2), of sd_owner] by simp
  moreover have "sd_next y = sd_next d" using arg_cong [OF y(2), of sd_next] by simp
  moreover have "cron_expr y = cron_expr d" using arg_cong [OF y(2), of cron_expr] by (simp add: cron_expr_def)
  ultimately show ?thesis using y(1) by blast
qed

lemma same_rows_sym: "same_rows db db' \<Longrightarrow> same_rows db' db"
  by (simp add: same_rows_def)

definition all_parse :: "cron_parser \<Rightarrow> schedule_db \<Rightarrow> bool" where
  "all_parse cron db \<longleftrightarrow> (\<forall>d \<in> set (sb_schedules db). cron (cron_expr d) \<noteq> None)"

lemma good_turn:
  assumes e: "claim_due_schedule True now t w run [] db = (Inr (Some c), db1)" and q: "qa_finish q" "\<And>k. task_good (qa_tasks q k)"
    and cron: "cron_forward cron" "all_parse cron db"
  shows "due_count now (snd (run_claim cron q now c db1)) < due_count now db \<and> all_parse cron (snd (run_claim cron q now c db1))"
proof -
  from e obtain d where c: "sl_schedule c = d" "sl_worker c = w" and due: "due_row now d" and held: "held c db1"
    and count: "due_count now db1 = due_count now db" and y: "\<exists>y \<in> set (sb_schedules db1). owned_by (sd_id d) w y \<and> sd_next y = sd_next d"
    and expr: "\<exists>x \<in> set (sb_schedules db). cron_expr d = cron_expr x" "cron_expr ` set (sb_schedules db1) \<subseteq> cron_expr ` set (sb_schedules db)"
    by (rule claim_due_effect)
  have "cron (cron_expr d) \<noteq> None" using cron(2) expr(1) unfolding all_parse_def by metis
  then obtain n where n: "next_schedule_run cron d now = Some n" "now < n" using cron(1) by (auto simp: next_schedule_run_def cron_forward_def)
  obtain x db2 where r: "run_tasks (qa_tasks q) c (sl_tasks c) False False db1 = (Some x, db2)" and same: "same_rows db1 db2"
    using run_tasks_good [of "qa_tasks q" c db1 "sl_tasks c" False False] q(2) held by blast
  have "held c db2" using same held by (rule same_rows_held)
  then have fin: "sb_schedules (snd (run_claim cron q now c db1)) =
      map (\<lambda>x. if owned_by (sd_id d) w x then x\<lparr>sd_last := Some now, sd_next := Some n, sd_owner := None, sd_expires := None\<rparr> else x) (sb_schedules db2)"
    using n(1) q(1) unfolding held_def
    by (cases x, cases "schedule_run_outcome (snd x) (fst x)") (simp add: run_claim_def c r finish_schedule_claim_def Let_def map_schedules_def map_runs_def, blast)
  obtain y1 where y1: "y1 \<in> set (sb_schedules db1)" "owned_by (sd_id d) w y1" "sd_next y1 = sd_next d" using y by blast
  obtain z where z: "z \<in> set (sb_schedules db2)" "owned_by (sd_id d) w z" "due_row now z"
    using same_rows_row [OF same y1(1)] y1(2,3) due by (auto simp: owned_by_def due_row_def)
  have "due_count now (snd (run_claim cron q now c db1)) < due_count now db2"
    unfolding due_count_def fin by (rule filter_map_less [of _ _ _ z]) (use n(2) z in \<open>auto simp: due_row_def split: if_splits\<close>)
  also have "due_count now db2 = due_count now db" using count due_count_same [OF same_rows_next [OF same]] by simp
  finally have "due_count now (snd (run_claim cron q now c db1)) < due_count now db" .
  moreover have "all_parse cron (snd (run_claim cron q now c db1))"
  proof -
    have "cron (cron_expr x) \<noteq> None" if "x \<in> set (sb_schedules db2)" for x
      using same_rows_row [OF same_rows_sym [OF same] that] expr(2) cron(2) unfolding all_parse_def by (metis (no_types, lifting) image_iff subsetD)
    then show ?thesis by (auto simp: all_parse_def fin cron_expr_def)
  qed
  ultimately show ?thesis ..
qed

lemma select_due_none:
  assumes "select_due now [] (expire_leases t (expire_runs t db)) = None" "d \<in> set (sb_schedules db)"
  shows "\<not> claimable now db d"
proof
  let ?db = "expire_leases t (expire_runs t db)"
  let ?xs = "filter (\<lambda>d. claimable now ?db d \<and> sd_id d \<notin> set []) (sb_schedules ?db)"
  let ?d = "if past t (sd_expires d) then d\<lparr>sd_owner := None, sd_expires := None\<rparr> else d"
  assume "claimable now db d"
  then have "claimable now ?db ?d" by (auto simp: claimable_def server_allows_def expire_leases_def expire_runs_def map_schedules_def map_runs_def split: option.splits)
  moreover have "?d \<in> set (sb_schedules ?db)" using assms(2) by (simp add: expire_leases_def expire_runs_def map_schedules_def map_runs_def)
  ultimately have "set (slice_stable due_before ?xs) \<noteq> {}" unfolding set_slice_stable by auto
  moreover have "slice_stable due_before ?xs = []" using assms(1) by (auto simp: select_due_def split: list.splits)
  ultimately show False by (simp only: list.set)
qed

lemma good_loop:
  assumes la: "\<And>i. loop_good (la i)" and cron: "cron_forward cron"
  shows "due_count now db \<le> k \<Longrightarrow> all_parse cron db \<Longrightarrow> \<forall>d \<in> set (sb_schedules (tick_loop cron la now w k i db)). \<not> claimable now (tick_loop cron la now w k i db) d"
proof (induction k arbitrary: i db)
  case 0
  then show ?case by (auto simp: due_count_def filter_empty_conv due_row_def claimable_def split: option.splits)
next
  case (Suc k)
  have l: "la_claim (la i)" "\<not> la_canceled (la i)" "la_skip (la i) = []" "qa_finish (la_answers (la i))" "\<And>x. task_good (qa_tasks (la_answers (la i)) x)"
    using la [of i] by (simp_all add: loop_good_def)
  obtain x db1 where e: "claim_due_schedule True now (la_time (la i)) w (la_run (la i)) [] db = (x, db1)" by fastforce
  show ?case
  proof (cases "\<exists>c. x = Inr (Some c)")
    case True
    then obtain c where x: "x = Inr (Some c)" by blast
    let ?db = "snd (run_claim cron (la_answers (la i)) now c db1)"
    have "due_count now ?db < due_count now db \<and> all_parse cron ?db" using e l(4,5) cron Suc.prems(2) unfolding x by (rule good_turn)
    then show ?thesis using Suc.IH [of ?db "Suc i"] Suc.prems(1) by (simp add: e x l)
  next
    case False
    then have "x = Inr None \<and> db1 = db \<and> select_due now [] (expire_leases (la_time (la i)) (expire_runs (la_time (la i)) db)) = None"
      using e by (auto simp: claim_due_schedule_def claim_schedule_def Let_def split: option.splits)
    then show ?thesis using select_due_none by (auto simp: e l)
  qed
qed

lemma init_rows:
  assumes "cron_forward cron"
  shows "due_count now (init_schedules cron ok now ds db) \<le> due_count now db \<and> (all_parse cron db \<longrightarrow> all_parse cron (init_schedules cron ok now ds db))"
proof (induction ds arbitrary: db)
  case (Cons d ds)
  let ?db = "case (sd_next d, next_schedule_run cron d now) of (None, Some m) \<Rightarrow> update_schedule_run_meta (ok (sd_id d)) (sd_id d) None (Some m) db | _ \<Rightarrow> db"
  have "due_count now ?db \<le> due_count now db \<and> (all_parse cron db \<longrightarrow> all_parse cron ?db)"
  proof (cases "?db = db")
    case False
    then obtain m where m: "next_schedule_run cron d now = Some m" "?db = map_schedules (\<lambda>x. sd_id x = sd_id d) (\<lambda>x. x\<lparr>sd_next := Some m\<rparr>) db"
      by (auto simp: update_schedule_run_meta_def split: option.splits if_splits)
    have "now < m" using m(1) assms by (auto simp: next_schedule_run_def cron_forward_def)
    then have "length (filter (due_row now) (map (\<lambda>x. if sd_id x = sd_id d then x\<lparr>sd_next := Some m\<rparr> else x) (sb_schedules db))) \<le> due_count now db"
      unfolding due_count_def by (intro filter_map_le) (auto simp: due_row_def split: if_splits)
    then have "due_count now ?db \<le> due_count now db" unfolding m(2) by (simp add: due_count_def map_schedules_def)
    then show ?thesis unfolding m(2) by (auto simp: all_parse_def map_schedules_def cron_expr_def)
  qed simp
  then show ?case using Cons.IH [of ?db] by (auto intro: order_trans)
qed simp


section \<open>Instances\<close>

definition sample_cron :: cron_parser where
  "sample_cron e = (if e = ''0 * * * *'' then Some (\<lambda>t. t + hour) else None)"

definition sample_task_answers :: task_answers where
  "sample_task_answers = \<lparr>ta_renewals = [], ta_canceled = False, ta_lease = True, ta_time = 0, ta_daemon = True, ta_target = True, ta_node = True,
     ta_state = True, ta_audit = True, ta_record = True\<rparr>"

definition sample_loop :: "nat \<Rightarrow> loop_answers" where
  "sample_loop i = \<lparr>la_canceled = False, la_claim = True, la_time = 0, la_skip = [], la_run = CHR ''r'' # show_nat i,
     la_answers = \<lparr>qa_fail = True, qa_finish = True, qa_tasks = \<lambda>_. sample_task_answers\<rparr>\<rparr>"

definition sample_tick :: tick_answers where
  "sample_tick = \<lparr>ga_list = True, ga_init = \<lambda>_. True, ga_loop = sample_loop\<rparr>"

definition bad_minute :: schedule_patch where
  "bad_minute = \<lparr>sf_name = None, sf_minute = Some ''x'', sf_hour = None, sf_dom = None, sf_month = None, sf_dow = None, sf_zone = None, sf_online = None, sf_enabled = None\<rparr>"

text \<open>Two schedules, of which a patch breaks the first.\<close>

definition sample_two :: schedule_db where
  "sample_two = sample_schedules\<lparr>sb_schedules := [sample_schedule, sample_schedule\<lparr>sd_id := ''d2'', sd_next := Some 1\<rparr>]\<rparr>"

definition sample_broken :: schedule_db where
  "sample_broken = snd (patch_schedule True ''s1'' ''d1'' bad_minute sample_two)"

lemma sample_cron_forward: "cron_forward sample_cron"
  by (simp add: cron_forward_def sample_cron_def)

lemma sample_loop_good: "loop_good (sample_loop i)" "undisturbed b sample_tick"
  by (simp_all add: loop_good_def undisturbed_def sample_tick_def sample_loop_def task_good_def sample_task_answers_def)

lemma sample_broken_stuck: "stuck sample_cron 0 ''d1'' sample_broken"
  by code_simp



definition sample_claimed :: "schedule_claim \<times> schedule_db" where
  "sample_claimed = claim_at minute ''w1'' ''r1'' sample_two"

definition sample_schedule_run :: "(schedule_error + unit) \<times> schedule_db" where
  "sample_schedule_run = run_claim sample_cron (la_answers (sample_loop 0)) minute (fst sample_claimed) (snd sample_claimed)"


text \<open>The time zone of a schedule is stored and never used.\<close>

lemma timezone_ignored: "next_schedule_run cron (d\<lparr>sd_zone := z\<rparr>) from = next_schedule_run cron d from"
  by (simp add: next_schedule_run_def cron_expr_def)

text \<open>A patch keeps the time of the next run, which was computed from the old expression.\<close>

lemma patch_keeps_next: "sd_next (patched_schedule p d) = sd_next d"
  by (simp add: patched_schedule_def)

end
