(* ===== verification/Spec2Isabelle.thy ===== *)
theory Spec2Isabelle
  imports Placement Reservation_Store Reservation_Manager Scheduler Load_Balancer Auth_Scopes Sessions
    Failover Deployment Throttle Backup_Retention Evacuation_Plan Evacuation_Run Rootfs Transfer_Archive
    Transfer_Engine Beacon_Transfer Migration_Store Migration_Run Migration_Cleanup Migration_Single Migration_Service Recovery Recovery_Tokens
    Node_Registry Job_Queue Event_Outbox Server_Table Cluster_Manager Reconciler
    Autoscaler Crash_Detector Schedule_Runner
begin

text \<open>
  A verification development for the Forge control plane (\<^verbatim>\<open>src/forge/api\<close>) and its node agent Beacon
  (\<^verbatim>\<open>src/beacon\<close>), both written in Go. Forge keeps nodes, servers and their allocations in a database,
  decides where servers run, reserves capacity, and moves servers between nodes; each node runs Beacon, which
  keeps the files and containers of its servers and carries transfers out.

  \<^bold>\<open>Shared theories.\<close> \<^verbatim>\<open>Forge_Prelude\<close> holds the generic lemmas, Go's time, maps, slices and stable sorting and the
  locale of a sorting routine; \<^verbatim>\<open>Go_Strings\<close> and \<^verbatim>\<open>Go_Float\<close> what the programs use of strings and of float64.

  \<^bold>\<open>Where a server runs.\<close> \<^verbatim>\<open>Placement\<close> is the placement engine (\<^verbatim>\<open>placement/engine.go\<close>, \<^verbatim>\<open>strategy.go\<close>,
  \<^verbatim>\<open>constraints.go\<close>): constraints, scores and the choice of the best node. \<^verbatim>\<open>Scheduler\<close> is
  \<^verbatim>\<open>services/scheduler\<close>: filters over nodes, regions and capacity, and the decision. \<^verbatim>\<open>Reservation_Store\<close> is the
  capacity accounting and the reservation table (\<^verbatim>\<open>store/store_capacity.go\<close>, \<^verbatim>\<open>store_reservations.go\<close>) with the
  transaction that creates a reservation stage by stage; \<^verbatim>\<open>Reservation_Manager\<close> the service over it. The lemmas
  show that the best node is chosen, that no sequence of transactions overcommits a node, what two interleaved
  creations can do, and, below, that a scheduled server can be reserved on the node that was chosen.
  \<^verbatim>\<open>Load_Balancer\<close> is \<^verbatim>\<open>services/loadbalancer\<close>, with the fairness of its strategies.

  \<^bold>\<open>Access.\<close> \<^verbatim>\<open>Auth_Scopes\<close> (\<^verbatim>\<open>auth/scopes.go\<close>, \<^verbatim>\<open>scopes_extended.go\<close>) and \<^verbatim>\<open>Sessions\<close> (\<^verbatim>\<open>auth/session.go\<close>,
  \<^verbatim>\<open>session_postgres.go\<close>): scope expansion never escalates, encodings round-trip, and the session stores stay
  consistent and forget what is logged out.

  \<^bold>\<open>Operations.\<close> \<^verbatim>\<open>Failover\<close>, \<^verbatim>\<open>Deployment\<close>, \<^verbatim>\<open>Evacuation_Plan\<close> and \<^verbatim>\<open>Evacuation_Run\<close> are the services of these
  names with their tables: the failure window, the deployment state machine, plans whose servers fit their
  targets together, and their execution, which ends.

  \<^bold>\<open>Moving a server.\<close> Beacon's side is \<^verbatim>\<open>Rootfs\<close> (\<^verbatim>\<open>rootfs/rootfs.go\<close>, the confined file system over a tree of
  directories), \<^verbatim>\<open>Transfer_Archive\<close> (\<^verbatim>\<open>ignore/ignore.go\<close> and the archive of \<^verbatim>\<open>transfer/protocol.go\<close>),
  \<^verbatim>\<open>Transfer_Engine\<close> (the engine of \<^verbatim>\<open>transfer/protocol.go\<close>) and \<^verbatim>\<open>Beacon_Transfer\<close> (the handlers and the upload of
  \<^verbatim>\<open>server/transfer_protocol.go\<close>). Forge's side is \<^verbatim>\<open>Migration_Store\<close> (\<^verbatim>\<open>store/store_migrations.go\<close>),
  \<^verbatim>\<open>Migration_Service\<close> (validation and creation), \<^verbatim>\<open>Migration_Run\<close> (workers, clean-up and cancellation of
  \<^verbatim>\<open>services/migration/service.go\<close> as interleaved jobs), \<^verbatim>\<open>Migration_Single\<close> (what one process guarantees) and
  \<^verbatim>\<open>Migration_Cleanup\<close> (the service and a node together). The lemmas show that archives restore what was archived,
  that uploads deliver it, that a commit moves exactly one server, and that nothing is destroyed before the commit;
  and they exhibit where a stale worker and the retry of a clean-up destroy a migrated server.

  \<^bold>\<open>Recovery.\<close> \<^verbatim>\<open>Recovery\<close> (\<^verbatim>\<open>services/recovery/service.go\<close>, \<^verbatim>\<open>backup_restore.go\<close>, \<^verbatim>\<open>store/store_recovery.go\<close>) restores
  the servers of an offline node from their backups: a plan covers every server, an undisturbed execution restores
  each once, and reading a plan while it executes fails it. \<^verbatim>\<open>Recovery_Tokens\<close> (\<^verbatim>\<open>tokens.go\<close>, \<^verbatim>\<open>store.go\<close>) are the
  one-time tokens, good for one use when requests do not overlap.

  \<^bold>\<open>Nodes.\<close> \<^verbatim>\<open>Node_Table\<close> (\<^verbatim>\<open>store/store_nodes.go\<close>, \<^verbatim>\<open>store_state.go\<close>, \<^verbatim>\<open>store_heartbeat.go\<close>) has the rows of nodes, their
  states and credentials, \<^verbatim>\<open>Heartbeat_Monitor\<close> (\<^verbatim>\<open>services/heartbeatmonitor\<close>) the classification by heartbeats and the
  step relation of everything that changes a node, \<^verbatim>\<open>Node_Registry\<close> (\<^verbatim>\<open>services/noderegistry\<close>) health, eligibility and
  the composition with the scheduler: states keep their types, a silent node never looks better, and without a
  history of heartbeats, which nothing writes, no node becomes online and no server is placed.

  \<^bold>\<open>Servers.\<close> \<^verbatim>\<open>Server_Table\<close> (\<^verbatim>\<open>store/store_servers.go\<close>, \<^verbatim>\<open>store_servers_control.go\<close>, \<^verbatim>\<open>store_servers_lifecycle.go\<close>) has
  the rows of servers, their allocations and variables; \<^verbatim>\<open>Cluster_Manager\<close> (\<^verbatim>\<open>services/clustermanager\<close>) creates a server
  over scheduler, reservations, tables and node, and deletes, installs and powers it; \<^verbatim>\<open>Reconciler\<close>
  (\<^verbatim>\<open>services/reconciler\<close>) compares desired with actual states. The tables stay consistent, creation is all or nothing and
  the new server fits its node, a pass does what its specification says; a server whose container died is never
  restarted, and a suspended one can be started.

  \<^bold>\<open>Load and crashes.\<close> \<^verbatim>\<open>Autoscaler\<close> (\<^verbatim>\<open>services/autoscaler\<close>) scales by policies: within their limits and not before the
  cooldown is over. \<^verbatim>\<open>Crash_Detector\<close> (\<^verbatim>\<open>services/crashdetector\<close>) asks for restarts: no more than configured, apart by
  the cooldown, and then it suspends.

  \<^bold>\<open>Schedules.\<close> \<^verbatim>\<open>Schedule_Table\<close> (\<^verbatim>\<open>store/store_schedules.go\<close>, \<^verbatim>\<open>store_schedule_leases.go\<close>) has schedules, tasks, runs and
  the leases of workers; \<^verbatim>\<open>Schedule_Runner\<close> (\<^verbatim>\<open>http/schedule_runner.go\<close>) claims what is due and executes it. Leases are
  exclusive while a worker claims a schedule once at a time, which manual runs break; a tick serves all that is due and
  records what it did; an expression that does not parse stops every other schedule.

  \<^bold>\<open>Jobs and events.\<close> \<^verbatim>\<open>Job_Queue\<close> (\<^verbatim>\<open>services/queue\<close>) is the table of jobs and its workers: a job is handed out once,
  and one that fails before its last attempt is never tried again. \<^verbatim>\<open>Event_Outbox\<close> (\<^verbatim>\<open>events/registry.go\<close>,
  \<^verbatim>\<open>eventstore/store.go\<close>, \<^verbatim>\<open>outbox.go\<close>) is the registry of subscribers, the stored events and the relay: what is
  marked dispatched was accepted by every subscriber, the table drains, and no subscriber is starved.

  \<^bold>\<open>Node agent.\<close> \<^verbatim>\<open>Throttle\<close> (\<^verbatim>\<open>system/rate.go\<close>, \<^verbatim>\<open>locker.go\<close>, \<^verbatim>\<open>throttle\<close>, \<^verbatim>\<open>websocketlimiter\<close>) and
  \<^verbatim>\<open>Backup_Retention\<close> (\<^verbatim>\<open>backup/store.go\<close>, \<^verbatim>\<open>retention.go\<close>).

  \<^bold>\<open>Modelling.\<close> State is a record that operations return updated; errors are values of a sum type; a database
  transaction is one definition, with an argument that says whether the database carries it out. What a node, the
  network, a disk or the clock answers is an argument too, so theorems hold for every outcome. SHA-256 and the tar
  and gzip formats are the fields of a codec record. Loops are structural recursions or have a termination proof;
  no definition needs fuel. Go's int and int64 amounts are \<open>int\<close> where the code does not come near their bounds, and
  counters that wrap are words of 64 bits.

  \<^bold>\<open>Not modelled.\<close> The HTTP handlers, container runtimes and cloud clients (input and output), cryptography and
  encodings of libraries, the web frontend, and tables of the store that only list rows. Also not modelled:
  the traffic manager and Beacon's power states.
\<close>

section \<open>From a decision to a reservation\<close>

lemma expire_live [simp]: "reservation_live now r \<Longrightarrow> expire_row now r = r"
  by (auto simp: reservation_live_def expire_row_def)

lemma node_live_expire: "node_live (expire_stale now db) now n = node_live db now n"
proof -
  have "filter (\<lambda>r. res_node r = n \<and> reservation_live now r) (map (expire_row now) rs)
      = filter (\<lambda>r. res_node r = n \<and> reservation_live now r) rs" for rs
    by (induction rs) auto
  then show ?thesis by (simp add: node_live_def expire_stale_def)
qed

lemma snapshot_expire: "node_capacity_snapshot (expire_stale now db) now n = node_capacity_snapshot db now n"
proof -
  have r: "active_reserved_capacity (expire_stale now db) now n = active_reserved_capacity db now n"
    by (simp add: active_reserved_capacity_def node_live_expire)
  show ?thesis unfolding node_capacity_snapshot_def expire_stale_tables r ..
qed

lemma create_succeeds:
  assumes "rq_node rq \<noteq> []" "find_node db (rq_node rq) \<noteq> None"
    and "create_checks (\<lambda>_. False) (expire_stale now db) now (default_request clk rq) = Inr ()"
    and "insert_reservation (expire_stale now db) (new_reservation now i (default_request clk rq)) = Inr db2"
  shows "fst (create_reservation (\<lambda>_. False) db clk now i rq) = Inr (new_reservation now i (default_request clk rq))"
proof -
  have "\<not> (\<exists>r \<in> set (db_reservations (expire_stale now db)). res_id r = i)"
    using assms(4) by (auto simp: insert_reservation_def split: if_splits)
  then have "get_reservation db2 i = Inr (new_reservation now i (default_request clk rq))"
    using insert_reservation_Inr [OF assms(4)] by (simp add: get_reservation_def find_snoc)
  then show ?thesis
    using assms by (simp add: create_reservation_def Let_def stage_def guard_def)
qed

text \<open>C7: A node the scheduler chooses can be reserved. When the filter read its snapshots from the
  database as it stands, the node declares positive totals, and the server has no live reservation,
  the reservation of the normalised request on the chosen node is granted. A node with a total of
  zero is the exception: the scheduler takes it for unlimited, the store for full.\<close>

theorem scheduled_node_reservable:
  assumes sched: "sorts srt" "\<forall>i s. rd_score rd i = Inr s \<longrightarrow> snapshot_int64 s" "\<forall>c. draw c \<noteq> NaN"
      "place_server lower render srt (new_scorer draw strategy) rd req0 st = (Inr d, st')"
    and req: "req = normalize_request (resolved_request lower rd req0)"
    and reads: "rd_filter rd = node_capacity_snapshot db now"
    and totals: "find_node db (pd_node d) = Some row" "0 < node_total_cpu row" "0 < node_total_memory row"
      "0 < node_total_disk row"
    and rq: "rq = \<lparr>rq_server = srv, rq_node = pd_node d, rq_migration = [], rq_type = [], rq_status = [],
      rq_cpu = pr_cpu req, rq_memory = pr_memory req, rq_disk = pr_disk req, rq_expires = 0\<rparr>"
    and srv: "srv \<in> srv_id ` set (db_servers db)" "pd_node d \<noteq> []"
      "\<forall>r \<in> set (db_reservations db). res_server r = Some srv \<longrightarrow> \<not> reservation_live now r"
    and fresh: "i \<notin> res_id ` set (db_reservations db)"
    and range: "in_int32 (pr_cpu req)" "in_int32 (pr_memory req)" "in_int32 (pr_disk req)"
  shows "\<exists>r. fst (create_reservation (\<lambda>_. False) db clk now i rq) = Inr r \<and> res_node r = pd_node d"
proof -
  obtain regions n where n: "n_id n = pd_node d" "eligible req regions (rd_filter rd) n"
    by (rule place_server_scores [OF sched req]) (auto simp: decide_def)
  then obtain s where s: "node_capacity_snapshot db now (pd_node d) = Inr s"
    "has_capacity (snap_total_cpu s) (snap_avail_cpu s) (pr_cpu req)"
    "has_capacity (snap_total_memory s) (snap_avail_memory s) (pr_memory req)"
    "has_capacity (snap_total_disk s) (snap_avail_disk s) (pr_disk req)"
    using reads by (auto simp: eligible_def split: sum.splits)
  have tot: "snap_total_cpu s = node_total_cpu row" "snap_total_memory s = node_total_memory row"
    "snap_total_disk s = node_total_disk row"
    using snapshot_Inr [OF s(1)] totals(1) by auto
  have live: "\<not> (\<exists>r \<in> set (db_reservations (expire_stale now db)). res_server r = Some srv \<and> reservation_live now r)"
    using srv(3) by (auto simp: expire_stale_def)
  have "create_checks (\<lambda>_. False) (expire_stale now db) now (default_request clk rq) = Inr ()"
    using totals s tot live
    by (auto simp: create_checks_def default_request_def rq snapshot_expire stage_def guard_def has_capacity_def)
  moreover have "insert_reservation (expire_stale now db) (new_reservation now i (default_request clk rq)) =
      Inr ((expire_stale now db)\<lparr>db_reservations :=
        db_reservations (expire_stale now db) @ [new_reservation now i (default_request clk rq)]\<rparr>)"
    using totals srv fresh range
    by (auto simp: insert_reservation_def rq default_request_def new_reservation_def expire_stale_def
        reservation_types_def reservation_statuses_def find_node_def)
  ultimately have "fst (create_reservation (\<lambda>_. False) db clk now i rq) = Inr (new_reservation now i (default_request clk rq))"
    using totals(1) srv(2) by (intro create_succeeds) (simp_all add: rq)
  then show ?thesis by (simp add: rq)
qed

definition sample_snapshot :: snapshot where
  "sample_snapshot = \<lparr>snap_node = ''n1'', snap_region = [], snap_total_cpu = 4096, snap_total_memory = 8192,
     snap_total_disk = 50000, snap_alloc_cpu = 1024, snap_alloc_memory = 4096, snap_alloc_disk = 1000,
     snap_avail_cpu = 3072, snap_avail_memory = 4096, snap_avail_disk = 49000, snap_server_count = 1, snap_updated = 100\<rparr>"

definition sample_reads :: reads where
  "sample_reads = \<lparr>rd_resolve = Inr [], rd_nodes = Inr [demo_node ''n1''], rd_regions = Inr [],
     rd_filter = node_capacity_snapshot sample_db 100, rd_score = (\<lambda>i. if i = ''n1'' then Inr sample_snapshot else Inl NoRows)\<rparr>"

definition sample_placement :: placement_request where
  "sample_placement = \<lparr>pr_server = ''s1'', pr_region_id = [], pr_region = [], pr_preferred = [], pr_required = [],
     pr_node = ''n1'', pr_allocation = [], pr_memory = 2048, pr_cpu_shares = 0, pr_cpu = 1024, pr_disk = 500\<rparr>"

lemma sample_snapshot_read: "node_capacity_snapshot sample_db 100 ''n1'' = Inr sample_snapshot"
  by (simp add: create_eval sample_defs Let_def sample_snapshot_def)

lemma sample_scores_int64: "\<forall>i s. rd_score sample_reads i = Inr s \<longrightarrow> snapshot_int64 s"
  by (simp add: sample_reads_def sample_snapshot_def snapshot_int64_def in_int64_def)

lemma sample_resolved:
  "resolved_request (\<lambda>s. s) sample_reads sample_placement = sample_placement\<lparr>pr_required := ''n1''\<rparr>"
  "normalize_request (sample_placement\<lparr>pr_required := ''n1''\<rparr>) = sample_placement\<lparr>pr_required := ''n1''\<rparr>"
proof -
  have t: "trim_space ''n1'' = ''n1''" by code_simp
  show "resolved_request (\<lambda>s. s) sample_reads sample_placement = sample_placement\<lparr>pr_required := ''n1''\<rparr>"
    by (simp add: resolved_request_def normalize_request_def sample_placement_def Let_def t)
  show "normalize_request (sample_placement\<lparr>pr_required := ''n1''\<rparr>) = sample_placement\<lparr>pr_required := ''n1''\<rparr>"
    by (simp add: normalize_request_def sample_placement_def Let_def t)
qed

lemma sample_place:
  "\<exists>v st'. place_server (\<lambda>s. s) (\<lambda>_. []) slice_stable (new_scorer (\<lambda>_. Fin 0) ''spread'') sample_reads sample_placement
     \<lparr>rejections = 0, exceeded = 0, published = []\<rparr>
   = (Inr (decide (sample_placement\<lparr>pr_required := ''n1''\<rparr>) \<lparr>ns_node = demo_node ''n1'', ns_score = v, ns_reason = []\<rparr>), st')"
proof -
  let ?req = "sample_placement\<lparr>pr_required := ''n1''\<rparr>"
  have f: "filter_nodes ?req (rd_regions sample_reads) (rd_filter sample_reads) [demo_node ''n1'']
      \<lparr>rejections = 0, exceeded = 0, published = []\<rparr> = (Inr [demo_node ''n1''], \<lparr>rejections = 0, exceeded = 0, published = []\<rparr>)"
    unfolding filter_nodes_def sample_resolved(2)
    by (simp add: sample_reads_def filter_node_def demo_node_def node_region_enabled_def out_of_service_def
        sample_snapshot_read sample_placement_def) (simp add: sample_snapshot_def has_capacity_def)
  have r: "readable (rd_score sample_reads) [demo_node ''n1''] = [(demo_node ''n1'', sample_snapshot)]"
    by (simp add: sample_reads_def demo_node_def)
  have s: "\<exists>v. score_nodes (\<lambda>_. []) slice_stable (new_scorer (\<lambda>_. Fin 0) ''spread'') ?req (rd_score sample_reads) [demo_node ''n1'']
      = Inr [\<lparr>ns_node = demo_node ''n1'', ns_score = v, ns_reason = []\<rparr>]"
    unfolding score_nodes_def Let_def sample_resolved(2) r
    by (simp add: engine_place_all_def to_workload_request_def new_scorer_def spread_score_def Let_def
        node_to_candidate_def sample_placement_def preferred_bonus_def)
  have n: "rd_nodes sample_reads = Inr [demo_node ''n1'']" by (simp add: sample_reads_def)
  from s obtain v where "score_nodes (\<lambda>_. []) slice_stable (new_scorer (\<lambda>_. Fin 0) ''spread'') ?req (rd_score sample_reads) [demo_node ''n1'']
      = Inr [\<lparr>ns_node = demo_node ''n1'', ns_score = v, ns_reason = []\<rparr>]" by blast
  then show ?thesis by (simp add: place_server_def Let_def sample_resolved(1) n f) blast
qed

text \<open>Witness of C7.\<close>

theorem scheduled_node_reservable_witness:
  "\<exists>r. fst (create_reservation (\<lambda>_. False) sample_db 90 100 ''r1''
      \<lparr>rq_server = ''s1'', rq_node = ''n1'', rq_migration = [], rq_type = [], rq_status = [],
       rq_cpu = 1024, rq_memory = 2048, rq_disk = 500, rq_expires = 0\<rparr>) = Inr r \<and> res_node r = ''n1''"
proof -
  obtain v st' where p: "place_server (\<lambda>s. s) (\<lambda>_. []) slice_stable (new_scorer (\<lambda>_. Fin 0) ''spread'') sample_reads sample_placement
     \<lparr>rejections = 0, exceeded = 0, published = []\<rparr>
   = (Inr (decide (sample_placement\<lparr>pr_required := ''n1''\<rparr>) \<lparr>ns_node = demo_node ''n1'', ns_score = v, ns_reason = []\<rparr>), st')"
    using sample_place by blast
  have d: "pd_node (decide (sample_placement\<lparr>pr_required := ''n1''\<rparr>) \<lparr>ns_node = demo_node ''n1'', ns_score = v, ns_reason = []\<rparr>) = ''n1''"
    by (simp add: decide_def demo_node_def)
  have e: "normalize_request (resolved_request (\<lambda>s. s) sample_reads sample_placement) = sample_placement\<lparr>pr_required := ''n1''\<rparr>"
    by (simp only: sample_resolved)
  show ?thesis
    using scheduled_node_reservable [OF sorts_slice_stable sample_scores_int64 _ p e [symmetric], of sample_db 100
        "sample_node ''n1''" _ "''s1''" "''r1''" 90]
    unfolding d
    by (simp add: sample_reads_def sample_placement_def)
      (simp add: sample_defs find_node_def node_total_cpu_def node_total_memory_def node_total_disk_def
        coalesce_nullif_def reservation_live_def open_status_def in_int32_def)
qed

end
